(* ===== verification/Base.thy ===== *)
theory Base
  imports Complex_Main "HOL-Library.Word" "HOL-Library.Char_ord" "HOL-Library.List_Lexorder"
    "HOL-Library.Product_Lexorder" "HOL-Library.AList"
begin

section \<open>Shared types and lemmas\<close>

text \<open>
  The vocabulary of the development: bytes and their big-endian encodings, JSON-like values and
  rows, the three feeds, floating-point configuration values, and the list lemmas that several
  components share.

  Python's \<^verbatim>\<open>float\<close> appears in two roles. As a number to compute with (clocks, intervals,
  tolerances) it is modelled by an exact rational: the rounding of binary64 is not modelled. As
  eight bytes of a file header it is a 64-bit word, its bit pattern.
\<close>

subsection \<open>The feeds\<close>

text \<open>
  \<^verbatim>\<open>FEED_NAMES\<close> of \<^verbatim>\<open>bkk_collector/config.py\<close>. Feeds are ordered as their names are, which is the
  order in which \<^verbatim>\<open>sorted\<close> visits a dictionary with feed names as keys.
\<close>

datatype feed = Vehiclepositions | Tripupdates | Alerts

fun feed_name :: "feed \<Rightarrow> string" where
  "feed_name Vehiclepositions = ''vehiclepositions''"
| "feed_name Tripupdates = ''tripupdates''"
| "feed_name Alerts = ''alerts''"

definition FEED_NAMES :: "feed list" where
  "FEED_NAMES = [Vehiclepositions, Tripupdates, Alerts]"

lemma set_FEED_NAMES [simp]: "f \<in> set FEED_NAMES"
  by (cases f) (simp_all add: FEED_NAMES_def)

lemma feed_name_inject [simp]: "feed_name a = feed_name b \<longleftrightarrow> a = b"
  by (cases a; cases b) simp_all

instantiation feed :: linorder
begin

definition less_eq_feed :: "feed \<Rightarrow> feed \<Rightarrow> bool" where
  "a \<le> b \<longleftrightarrow> feed_name a \<le> feed_name b"

definition less_feed :: "feed \<Rightarrow> feed \<Rightarrow> bool" where
  "a < b \<longleftrightarrow> feed_name a < feed_name b"

instance
  by standard (auto simp: less_eq_feed_def less_feed_def less_le)

end

subsection \<open>Bytes\<close>

type_synonym byte = "8 word"
type_synonym bytes = "8 word list"
type_synonym f64 = "64 word"
type_synonym seconds = rat

primrec be_bytes :: "nat \<Rightarrow> nat \<Rightarrow> bytes" where
  "be_bytes 0 n = []"
| "be_bytes (Suc k) n = be_bytes k (n div 256) @ [word_of_nat (n mod 256)]"

definition be_nat :: "bytes \<Rightarrow> nat" where
  "be_nat bs = foldl (\<lambda>a b. a * 256 + unat b) 0 bs"

lemma length_be_bytes [simp]: "length (be_bytes k n) = k"
  by (induction k arbitrary: n) auto

lemma be_nat_snoc [simp]: "be_nat (bs @ [b]) = be_nat bs * 256 + unat b"
  by (simp add: be_nat_def)

lemma be_nat_Nil [simp]: "be_nat [] = 0"
  by (simp add: be_nat_def)

lemma unat_byte_mod [simp]: "unat (word_of_nat (n mod 256) :: byte) = n mod 256"
  by (simp add: unat_of_nat)

lemma be_nat_be_bytes: "n < 256 ^ k \<Longrightarrow> be_nat (be_bytes k n) = n"
proof (induction k arbitrary: n)
  case (Suc k)
  then have "n div 256 < 256 ^ k"
    by (simp add: less_mult_imp_div_less mult.commute)
  with Suc.IH show ?case by simp
qed simp

lemma be_bytes_be_nat: "be_bytes (length bs) (be_nat bs) = bs"
proof (induction bs rule: rev_induct)
  case (snoc b bs)
  have "unat b < 256"
    using unsigned_less [of b] by simp
  then have "(be_nat bs * 256 + unat b) div 256 = be_nat bs"
    and "(be_nat bs * 256 + unat b) mod 256 = unat b"
    by (simp_all add: div_add1_eq)
  with snoc show ?case by simp
qed simp

lemma be_nat_bound: "be_nat bs < 256 ^ length bs"
proof (induction bs rule: rev_induct)
  case (snoc b bs)
  have "unat b < 256"
    using unsigned_less [of b] by simp
  with snoc show ?case by simp
qed simp

subsection \<open>JSON-like values and rows\<close>

text \<open>
  The values of parsed rows, poll events and metadata objects. A row is a Python \<^verbatim>\<open>dict\<close> from
  field names to values: an association list in insertion order. \<^verbatim>\<open>row.get(field)\<close> gives
  \<^verbatim>\<open>None\<close> for an absent key, as \<open>row_get\<close> does. Every field of a row has one type by the
  Parquet schema, so Python's identification of \<^verbatim>\<open>True\<close> with \<^verbatim>\<open>1\<close> and of \<^verbatim>\<open>1\<close> with \<^verbatim>\<open>1.0\<close>
  under \<^verbatim>\<open>==\<close> never compares values of two constructors.
\<close>

datatype pyval =
    PNone
  | PBool bool
  | PInt int
  | PFloat rat
  | PStr string
  | PList "pyval list"
  | PDict "(string \<times> pyval) list"

type_synonym row = "(string \<times> pyval) list"

definition row_get :: "row \<Rightarrow> string \<Rightarrow> pyval" where
  "row_get r f = (case map_of r f of None \<Rightarrow> PNone | Some v \<Rightarrow> v)"

abbreviation row_tuple :: "row \<Rightarrow> string list \<Rightarrow> pyval list" where
  "row_tuple r fs \<equiv> map (row_get r) fs"

fun truthy :: "pyval \<Rightarrow> bool" where
  "truthy PNone = False"
| "truthy (PBool b) = b"
| "truthy (PInt i) = (i \<noteq> 0)"
| "truthy (PFloat q) = (q \<noteq> 0)"
| "truthy (PStr s) = (s \<noteq> [])"
| "truthy (PList xs) = (xs \<noteq> [])"
| "truthy (PDict d) = (d \<noteq> [])"

text \<open>\<^verbatim>\<open>math.isfinite(float(v))\<close> distinguishes the values an environment variable can hold.\<close>

datatype pynum = Fin rat | PosInf | NegInf | NaN

fun is_finite :: "pynum \<Rightarrow> bool" where
  "is_finite (Fin _) = True"
| "is_finite _ = False"

fun num_val :: "pynum \<Rightarrow> rat" where
  "num_val (Fin q) = q"
| "num_val _ = 0"

subsection \<open>List lemmas shared by the components\<close>

lemma update_fresh: "k \<notin> fst ` set al \<Longrightarrow> AList.update k v al = al @ [(k, v)]"
  by (induction al) auto

lemma map_of_map_snd: "map_of (map (\<lambda>(k, v). (k, g v)) xs) k = map_option g (map_of xs k)"
  by (induction xs) auto

lemma sum_list_filter_split:
  "sum_list (map f xs) = sum_list (map f (filter P xs)) + (sum_list (map f (filter (\<lambda>x. \<not> P x) xs)) :: nat)"
  by (induction xs) auto

end
