(* ===== verification/Columns.thy ===== *)
theory Columns
  imports Base
begin

section \<open>The Parquet columns and the field classes of TripUpdates\<close>

text \<open>
  The column lists and types of \<^verbatim>\<open>bkk_collector/storage/parquet_store.py\<close> and the field classes of
  \<^verbatim>\<open>bkk_collector/realtime/trip_update_policy.py\<close>, in the order of the source.
\<close>

subsection \<open>Columns and types\<close>

definition COMMON_COLUMNS :: "string list" where
  "COMMON_COLUMNS =
     [''schema_version'', ''poll_id'', ''request_started_at'', ''response_received_at'',
      ''fetched_at'', ''feed_header_timestamp'', ''feed_header_version'',
      ''feed_incrementality'', ''feed_incrementality_name'', ''entity_id'', ''entity_is_deleted'']"

definition TRIP_COLUMNS :: "string list" where
  "TRIP_COLUMNS =
     [''trip_id'', ''route_id'', ''direction_id'', ''start_time'', ''start_date'',
      ''schedule_relationship'', ''schedule_relationship_name'', ''modified_trip_json'']"

definition VEHICLE_COLUMNS :: "string list" where
  "VEHICLE_COLUMNS =
     [''vehicle_id'', ''vehicle_label'', ''vehicle_license_plate'',
      ''vehicle_wheelchair_accessible'', ''vehicle_wheelchair_accessible_name'',
      ''bkk_vehicle_model'', ''bkk_deviated'', ''bkk_vehicle_type'', ''bkk_door_open'',
      ''bkk_stop_distance'']"

fun PARQUET_COLUMNS :: "feed \<Rightarrow> string list" where
  "PARQUET_COLUMNS Vehiclepositions =
     COMMON_COLUMNS @
     VEHICLE_COLUMNS @
     [''vehicle_timestamp'', ''latitude'', ''longitude'', ''bearing'', ''odometer'', ''speed'',
      ''current_stop_sequence'', ''stop_id'', ''current_status'', ''current_status_name'',
      ''congestion_level'', ''congestion_level_name'', ''occupancy_status'',
      ''occupancy_status_name'', ''occupancy_percentage'', ''multi_carriage_details_json''] @
     TRIP_COLUMNS"
| "PARQUET_COLUMNS Tripupdates =
     COMMON_COLUMNS @
     [''trip_update_timestamp'', ''trip_delay'', ''trip_properties_json''] @
     VEHICLE_COLUMNS @
     TRIP_COLUMNS @
     [''stop_time_update_index'', ''stop_visit_fallback_index'', ''stop_sequence'', ''stop_id'',
      ''stop_schedule_relationship'', ''stop_schedule_relationship_name'',
      ''departure_occupancy_status'', ''departure_occupancy_status_name'',
      ''stop_time_properties_json'', ''arrival_delay'', ''arrival_time'',
      ''arrival_uncertainty'', ''arrival_scheduled_time'', ''departure_delay'',
      ''departure_time'', ''departure_uncertainty'', ''departure_scheduled_time'',
      ''bkk_scheduled_arrival_delay'', ''bkk_scheduled_arrival_time'',
      ''bkk_scheduled_arrival_uncertainty'', ''bkk_scheduled_arrival_scheduled_time'',
      ''bkk_scheduled_departure_delay'', ''bkk_scheduled_departure_time'',
      ''bkk_scheduled_departure_uncertainty'', ''bkk_scheduled_departure_scheduled_time'']"
| "PARQUET_COLUMNS Alerts =
     COMMON_COLUMNS @
     [''cause'', ''cause_name'', ''effect'', ''effect_name'', ''severity_level'',
      ''severity_level_name'', ''header_text'', ''description_text'', ''url'',
      ''header_text_json'', ''description_text_json'', ''url_json'', ''tts_header_text_json'',
      ''tts_description_text_json'', ''image_json'', ''image_alternative_text_json'',
      ''cause_detail_json'', ''effect_detail_json'', ''active_period_start'',
      ''active_period_end'', ''active_periods_json'', ''communication_periods_json'',
      ''impact_periods_json'', ''informed_entities_json'', ''bkk_start_text_json'',
      ''bkk_end_text_json'', ''bkk_modified_time'', ''bkk_route_details_json'',
      ''affected_agency_id'', ''affected_route_id'', ''affected_route_type'',
      ''affected_stop_id'', ''affected_direction_id'', ''affected_trip_id'',
      ''affected_trip_route_id'', ''affected_trip_direction_id'', ''affected_trip_start_time'',
      ''affected_trip_start_date'', ''affected_trip_schedule_relationship'',
      ''affected_trip_schedule_relationship_name'']"

definition BOOL_COLUMNS :: "string list" where
  "BOOL_COLUMNS =
     [''entity_is_deleted'', ''bkk_deviated'', ''bkk_door_open'']"

definition FLOAT_COLUMNS :: "string list" where
  "FLOAT_COLUMNS =
     [''latitude'', ''longitude'', ''bearing'', ''odometer'', ''speed'']"

definition INT_COLUMNS :: "string list" where
  "INT_COLUMNS =
     [''feed_header_timestamp'', ''feed_incrementality'', ''vehicle_timestamp'',
      ''vehicle_wheelchair_accessible'', ''bkk_vehicle_type'', ''bkk_stop_distance'',
      ''direction_id'', ''schedule_relationship'', ''current_stop_sequence'', ''current_status'',
      ''congestion_level'', ''occupancy_status'', ''occupancy_percentage'',
      ''trip_update_timestamp'', ''trip_delay'', ''stop_time_update_index'',
      ''stop_visit_fallback_index'', ''stop_sequence'', ''stop_schedule_relationship'',
      ''departure_occupancy_status'', ''arrival_delay'', ''arrival_time'',
      ''arrival_uncertainty'', ''arrival_scheduled_time'', ''departure_delay'',
      ''departure_time'', ''departure_uncertainty'', ''departure_scheduled_time'',
      ''bkk_scheduled_arrival_delay'', ''bkk_scheduled_arrival_time'',
      ''bkk_scheduled_arrival_uncertainty'', ''bkk_scheduled_arrival_scheduled_time'',
      ''bkk_scheduled_departure_delay'', ''bkk_scheduled_departure_time'',
      ''bkk_scheduled_departure_uncertainty'', ''bkk_scheduled_departure_scheduled_time'',
      ''cause'', ''effect'', ''severity_level'', ''active_period_start'', ''active_period_end'',
      ''bkk_modified_time'', ''affected_route_type'', ''affected_direction_id'',
      ''affected_trip_direction_id'', ''affected_trip_schedule_relationship'']"

datatype arrow_type = Int16 | BoolType | Float64 | Int64 | StringType

definition column_type :: "string \<Rightarrow> arrow_type" where
  "column_type name =
     (if name = ''schema_version'' then Int16
      else if name \<in> set BOOL_COLUMNS then BoolType
      else if name \<in> set FLOAT_COLUMNS then Float64
      else if name \<in> set INT_COLUMNS then Int64
      else StringType)"

definition parquet_schema :: "feed \<Rightarrow> (string \<times> arrow_type) list" where
  "parquet_schema f = map (\<lambda>name. (name, column_type name)) (PARQUET_COLUMNS f)"

subsection \<open>Field classes\<close>

definition TRIP_UPDATE_KEY_FIELDS :: "string list" where
  "TRIP_UPDATE_KEY_FIELDS =
     [''entity_id'', ''trip_id'', ''start_date'', ''start_time'', ''stop_sequence'',
      ''stop_visit_fallback_index'', ''stop_id'']"

definition TRIP_UPDATE_EXACT_MUTABLE_FIELDS :: "string list" where
  "TRIP_UPDATE_EXACT_MUTABLE_FIELDS =
     [''entity_is_deleted'', ''trip_properties_json'', ''vehicle_id'', ''vehicle_label'',
      ''vehicle_license_plate'', ''vehicle_wheelchair_accessible'', ''bkk_vehicle_model'',
      ''bkk_deviated'', ''bkk_vehicle_type'', ''bkk_door_open'', ''route_id'', ''direction_id'',
      ''schedule_relationship'', ''modified_trip_json'', ''stop_schedule_relationship'',
      ''departure_occupancy_status'', ''stop_time_properties_json'', ''arrival_uncertainty'',
      ''arrival_scheduled_time'', ''departure_uncertainty'', ''departure_scheduled_time'',
      ''bkk_scheduled_arrival_delay'', ''bkk_scheduled_arrival_time'',
      ''bkk_scheduled_arrival_uncertainty'', ''bkk_scheduled_arrival_scheduled_time'',
      ''bkk_scheduled_departure_delay'', ''bkk_scheduled_departure_time'',
      ''bkk_scheduled_departure_uncertainty'', ''bkk_scheduled_departure_scheduled_time'']"

definition TRIP_UPDATE_DELAY_FIELDS :: "string list" where
  "TRIP_UPDATE_DELAY_FIELDS =
     [''trip_delay'', ''arrival_delay'', ''departure_delay'']"

definition TRIP_UPDATE_PREDICTION_TIME_FIELDS :: "string list" where
  "TRIP_UPDATE_PREDICTION_TIME_FIELDS =
     [''arrival_time'', ''departure_time'']"

definition TRIP_UPDATE_DISTANCE_FIELDS :: "string list" where
  "TRIP_UPDATE_DISTANCE_FIELDS =
     [''bkk_stop_distance'']"

definition TRIP_UPDATE_TOLERANT_NUMERIC_FIELDS :: "string list" where
  "TRIP_UPDATE_TOLERANT_NUMERIC_FIELDS =
     TRIP_UPDATE_DELAY_FIELDS @
     TRIP_UPDATE_PREDICTION_TIME_FIELDS @
     TRIP_UPDATE_DISTANCE_FIELDS"

definition TRIP_UPDATE_IMMUTABLE_OR_REDUNDANT_FIELDS :: "string list" where
  "TRIP_UPDATE_IMMUTABLE_OR_REDUNDANT_FIELDS =
     [''schema_version'', ''feed_header_version'', ''feed_incrementality'',
      ''feed_incrementality_name'', ''vehicle_wheelchair_accessible_name'',
      ''schedule_relationship_name'', ''stop_time_update_index'',
      ''stop_schedule_relationship_name'', ''departure_occupancy_status_name'']"

definition TRIP_UPDATE_COLLECTION_METADATA_FIELDS :: "string list" where
  "TRIP_UPDATE_COLLECTION_METADATA_FIELDS =
     [''poll_id'', ''request_started_at'', ''response_received_at'', ''fetched_at'',
      ''feed_header_timestamp'', ''trip_update_timestamp'']"

definition trip_update_classes :: "string list list" where
  "trip_update_classes = [TRIP_UPDATE_KEY_FIELDS, TRIP_UPDATE_EXACT_MUTABLE_FIELDS,
     TRIP_UPDATE_TOLERANT_NUMERIC_FIELDS, TRIP_UPDATE_IMMUTABLE_OR_REDUNDANT_FIELDS,
     TRIP_UPDATE_COLLECTION_METADATA_FIELDS]"

definition classified_trip_update_fields :: "string set" where
  "classified_trip_update_fields = \<Union> (set ` set trip_update_classes)"

end
