(* ===== verification/Policy.thy ===== *)
theory Policy
  imports Columns
begin

section \<open>The compression policy covers the schema\<close>

text \<open>
  The field classes of TripUpdates partition its Parquet columns, and a difference of
  tolerance-compared fields is always one of integers. The lemmas evaluate the lists.
\<close>

lemma policy_partition:
  "distinct (concat trip_update_classes)"
  by code_simp

lemma schema_distinct:
  "distinct (PARQUET_COLUMNS Tripupdates)"
  by code_simp

lemma policy_all:
  "set (PARQUET_COLUMNS Tripupdates) = set (concat trip_update_classes)"
  by code_simp

lemma tolerant_int: "list_all (\<lambda>f. column_type f = Int64) TRIP_UPDATE_TOLERANT_NUMERIC_FIELDS"
  by code_simp

text \<open>
  Every column of a TripUpdates row is classified exactly once, and the fields compared with a tolerance are
  integer columns, so that subtracting two of them is defined.
\<close>

lemma policy_partitions_schema:
  "classified_trip_update_fields = set (PARQUET_COLUMNS Tripupdates) \<and>
   distinct (PARQUET_COLUMNS Tripupdates) \<and> distinct (concat trip_update_classes) \<and>
   list_all (\<lambda>f. column_type f = Int64) TRIP_UPDATE_TOLERANT_NUMERIC_FIELDS"
  using policy_partition schema_distinct policy_all tolerant_int
  by (simp add: classified_trip_update_fields_def)

end
