(* ===== verification/Interfaces.thy ===== *)
theory Interfaces
  imports Base
begin

section \<open>Interfaces between components\<close>

text \<open>
  The contracts that several components share, each a locale whose lemmas are proved once:

  \<^item> \<open>framing\<close>: an append-only file is a sequence of self-delimiting frames and a tail that does
    not decode. The raw log and the JSONL journals both provide it.
  \<^item> \<open>transition_system\<close>: an invariant of the initial states that every step keeps. The
    scheduler and the spool provide it.
  \<^item> \<open>two_phase_filter\<close>: rows are first selected and later committed; only the commit
    advances the state. The change tracker provides it and the collector relies on it.
  \<^item> \<open>evidence_stream\<close>: an observer writes records from which a replayer recovers what was
    observed. The presence log provides it and the daily manifest relies on it.
\<close>

subsection \<open>Framed append-only files\<close>

function unframe :: "('b list \<Rightarrow> ('r \<times> 'b list) option) \<Rightarrow> 'b list \<Rightarrow> 'r list \<times> 'b list" where
  "unframe dec bs =
     (case dec bs of
        None \<Rightarrow> ([], bs)
      | Some (r, rest) \<Rightarrow>
          if length rest < length bs
          then (case unframe dec rest of (rs, tail) \<Rightarrow> (r # rs, tail))
          else ([], bs))"
  by pat_completeness auto
termination
  by (relation "measure (\<lambda>(dec, bs). length bs)") auto

declare unframe.simps [simp del]

locale framing =
  fixes ok :: "'r \<Rightarrow> bool"
    and enc :: "'r \<Rightarrow> 'b list"
    and dec :: "'b list \<Rightarrow> ('r \<times> 'b list) option"
  assumes enc_nonempty: "enc r \<noteq> []"
    and dec_enc: "ok r \<Longrightarrow> dec (enc r @ bs) = Some (r, bs)"
    and dec_torn: "ok r \<Longrightarrow> n < length (enc r) \<Longrightarrow> dec (take n (enc r)) = None"
    and dec_sound: "dec bs = Some (r, rest) \<Longrightarrow> ok r \<and> bs = enc r @ rest"
begin

lemma dec_shrinks: "dec bs = Some (r, rest) \<Longrightarrow> length rest < length bs"
  using dec_sound [of bs r rest] enc_nonempty [of r] by auto

lemma unframe_dec [simp]:
  "dec bs = None \<Longrightarrow> unframe dec bs = ([], bs)"
  "dec bs = Some (r, rest) \<Longrightarrow>
     unframe dec bs = (case unframe dec rest of (rs, tail) \<Rightarrow> (r # rs, tail))"
  using dec_shrinks [of bs r rest] by (auto simp: unframe.simps [of dec bs])

lemma unframe_complete:
  "list_all ok rs \<Longrightarrow> unframe dec (concat (map enc rs) @ bs) =
     (case unframe dec bs of (rs', tail) \<Rightarrow> (rs @ rs', tail))"
  by (induction rs) (auto simp: dec_enc split: prod.splits)

lemma dec_empty: "dec [] = None"
  using dec_sound [of "[]"] enc_nonempty by (cases "dec []") auto

lemma unframe_frames: "list_all ok rs \<Longrightarrow> unframe dec (concat (map enc rs)) = (rs, [])"
  using unframe_complete [of rs "[]"] by (simp add: dec_empty)

lemma unframe_torn:
  "list_all ok rs \<Longrightarrow> ok r \<Longrightarrow> n < length (enc r) \<Longrightarrow>
     unframe dec (concat (map enc rs) @ take n (enc r)) = (rs, take n (enc r))"
  by (simp add: unframe_complete dec_torn)

lemma unframe_sound:
  "unframe dec bs = (rs, tail) \<Longrightarrow>
     bs = concat (map enc rs) @ tail \<and> list_all ok rs \<and> dec tail = None"
proof (induction bs arbitrary: rs rule: length_induct)
  case (1 bs)
  show ?case
  proof (cases "dec bs")
    case None
    with "1.prems" show ?thesis by auto
  next
    case (Some a)
    then obtain r rest where dec: "dec bs = Some (r, rest)" by (cases a) auto
    obtain rs' where rest: "unframe dec rest = (rs', tail)" and rs: "rs = r # rs'"
      using "1.prems" dec by (auto split: prod.splits)
    from "1.IH" dec_shrinks [OF dec] rest
    have "rest = concat (map enc rs') @ tail \<and> list_all ok rs' \<and> dec tail = None" by blast
    with dec_sound [OF dec] rs show ?thesis by simp
  qed
qed

lemma unframe_append_frame:
  assumes "unframe dec bs = (rs, [])" and "ok r"
  shows "unframe dec (bs @ enc r) = (rs @ [r], [])"
proof -
  from unframe_sound [OF assms(1)] have bs: "bs = concat (map enc rs)" and "list_all ok rs"
    by auto
  with assms(2) have "list_all ok (rs @ [r])" by simp
  from unframe_frames [OF this] bs show ?thesis by simp
qed

end

subsection \<open>Transition systems with an invariant\<close>

inductive reachable :: "('s \<Rightarrow> bool) \<Rightarrow> ('s \<Rightarrow> 's \<Rightarrow> bool) \<Rightarrow> 's \<Rightarrow> bool"
  for init :: "'s \<Rightarrow> bool" and step :: "'s \<Rightarrow> 's \<Rightarrow> bool" where
  reach_init: "init s \<Longrightarrow> reachable init step s"
| reach_step: "reachable init step s \<Longrightarrow> step s t \<Longrightarrow> reachable init step t"

locale transition_system =
  fixes init :: "'s \<Rightarrow> bool"
    and step :: "'s \<Rightarrow> 's \<Rightarrow> bool"
    and inv :: "'s \<Rightarrow> bool"
  assumes inv_init: "init s \<Longrightarrow> inv s"
    and inv_step: "inv s \<Longrightarrow> step s t \<Longrightarrow> inv t"
begin

lemma reachable_inv: "reachable init step s \<Longrightarrow> inv s"
  by (induction rule: reachable.induct) (auto intro: inv_init inv_step)

end

subsection \<open>Selecting rows first, committing them later\<close>

text \<open>
  The last row with a given key: what a store updated row by row holds for that key.
\<close>

definition last_with :: "('r \<Rightarrow> 'k) \<Rightarrow> 'k \<Rightarrow> 'r list \<Rightarrow> 'r option" where
  "last_with key k rs = (case filter (\<lambda>r. key r = k) rs of [] \<Rightarrow> None | xs \<Rightarrow> Some (last xs))"

lemma last_with_Nil [simp]: "last_with key k [] = None"
  by (simp add: last_with_def)

lemma last_with_append:
  "last_with key k (xs @ ys) =
     (case last_with key k ys of None \<Rightarrow> last_with key k xs | Some r \<Rightarrow> Some r)"
  by (cases "filter (\<lambda>r. key r = k) ys"; cases "filter (\<lambda>r. key r = k) xs")
    (auto simp: last_with_def)

lemma last_with_snoc [simp]:
  "last_with key k (xs @ [r]) = (if key r = k then Some r else last_with key k xs)"
  by (simp add: last_with_append) (simp add: last_with_def)

lemma last_with_Cons:
  "last_with key k (r # rs) =
     (case last_with key k rs of None \<Rightarrow> if key r = k then Some r else None | Some x \<Rightarrow> Some x)"
  using last_with_append [of key k "[r]" rs] last_with_snoc [of key k "[]" r] by (simp split: option.split)

lemma last_with_SomeD: "last_with key k rs = Some r \<Longrightarrow> r \<in> set rs \<and> key r = k"
  by (induction rs rule: rev_induct) (auto split: if_splits)

lemma last_with_None: "last_with key k rs = None \<longleftrightarrow> k \<notin> key ` set rs"
  by (induction rs rule: rev_induct) auto

lemma last_with_map:
  "last_with (key \<circ> f) k rs = r \<Longrightarrow> last_with key k (map f rs) = map_option f r"
  by (induction rs arbitrary: r rule: rev_induct) auto

text \<open>
  A sequence of polls: rows are selected, written to durable storage (\<open>staged\<close> says whether that
  write succeeded), and only then committed. The stream lists what is durable.
\<close>

fun run_polls ::
  "('t \<Rightarrow> 'r list \<Rightarrow> 'c \<Rightarrow> ('e + 'r list) \<times> 't) \<Rightarrow> ('t \<Rightarrow> 'r list \<Rightarrow> 'c \<Rightarrow> 't) \<Rightarrow>
   't \<Rightarrow> ('r \<times> 'c) list \<Rightarrow> ('r list \<times> 'c \<times> bool) list \<Rightarrow> 't \<times> ('r \<times> 'c) list" where
  "run_polls select commit t stream [] = (t, stream)"
| "run_polls select commit t stream ((rs, c, staged) # ps) =
     (case select t rs c of
        (Inl e, t') \<Rightarrow> run_polls select commit t' stream ps
      | (Inr out, t') \<Rightarrow>
          if staged
          then run_polls select commit (commit t' out c) (stream @ map (\<lambda>r. (r, c)) out) ps
          else run_polls select commit t' stream ps)"

lemma run_polls_append:
  "run_polls select commit t stream (ps @ qs) =
     (case run_polls select commit t stream ps of (t', stream') \<Rightarrow> run_polls select commit t' stream' qs)"
proof (induction ps arbitrary: t stream)
  case (Cons p ps)
  obtain rs c staged where p: "p = (rs, c, staged)" by (cases p)
  show ?case
    by (cases "select t rs c"; cases "fst (select t rs c)") (auto simp: p Cons.IH)
qed simp

locale two_phase_filter =
  fixes select :: "'t \<Rightarrow> 'r list \<Rightarrow> 'c \<Rightarrow> ('e + 'r list) \<times> 't"
    and commit :: "'t \<Rightarrow> 'r list \<Rightarrow> 'c \<Rightarrow> 't"
    and stored :: "'t \<Rightarrow> 'k \<Rightarrow> 'v option"
    and key :: "'r \<Rightarrow> 'k"
    and view :: "'r \<Rightarrow> 'c \<Rightarrow> 'v"
    and close :: "'r \<Rightarrow> 'c \<Rightarrow> 'v \<Rightarrow> bool"
  assumes select_forgets: "select t rs c = (res, t') \<Longrightarrow> stored t' k = Some v \<Longrightarrow> stored t k = Some v"
    and commit_records: "stored (commit t rs c) k = Some v \<Longrightarrow>
      (case last_with key k rs of Some r \<Rightarrow> v = view r c | None \<Rightarrow> stored t k = Some v)"
    and select_represents: "select t rs c = (Inr out, t') \<Longrightarrow> last_with key k rs = Some r \<Longrightarrow>
      \<exists>v. stored (commit t' out c) k = Some v \<and> close r c v"
begin

definition agrees :: "'t \<Rightarrow> ('r \<times> 'c) list \<Rightarrow> bool" where
  "agrees t stream \<longleftrightarrow> (\<forall>k v. stored t k = Some v \<longrightarrow>
     (\<exists>r c. last_with (key \<circ> fst) k stream = Some (r, c) \<and> v = view r c))"

lemma agrees_select: "agrees t stream \<Longrightarrow> select t rs c = (res, t') \<Longrightarrow> agrees t' stream"
  by (auto simp: agrees_def dest: select_forgets)

lemma agrees_commit:
  assumes "agrees t stream"
  shows "agrees (commit t out c) (stream @ map (\<lambda>r. (r, c)) out)"
  unfolding agrees_def
proof (intro allI impI)
  fix k v
  assume v: "stored (commit t out c) k = Some v"
  have new: "last_with (key \<circ> fst) k (map (\<lambda>r. (r, c)) out) =
      map_option (\<lambda>r. (r, c)) (last_with key k out)"
    by (rule last_with_map) (simp add: comp_def)
  show "\<exists>r c'. last_with (key \<circ> fst) k (stream @ map (\<lambda>r. (r, c)) out) = Some (r, c') \<and> v = view r c'"
    using commit_records [OF v] assms
    by (cases "last_with key k out") (auto simp: last_with_append new agrees_def)
qed

lemma agrees_run:
  "agrees t stream \<Longrightarrow> run_polls select commit t stream ps = (t', stream') \<Longrightarrow> agrees t' stream'"
proof (induction ps arbitrary: t stream)
  case (Cons p ps)
  obtain rs c staged where p: "p = (rs, c, staged)" by (cases p)
  obtain res t1 where sel: "select t rs c = (res, t1)" by fastforce
  have t1: "agrees t1 stream" by (rule agrees_select [OF Cons.prems(1) sel])
  from Cons.prems(2) p sel Cons.IH [OF t1] Cons.IH [OF agrees_commit [OF t1]] show ?case
    by (auto split: sum.splits if_splits)
qed simp

lemma stream_represents:
  assumes init: "\<And>k. stored t0 k = None"
    and run: "run_polls select commit t0 [] (ps @ [(rs, c, True)]) = (t, stream)"
    and ok: "\<not> isl (fst (select (fst (run_polls select commit t0 [] ps)) rs c))"
    and r: "last_with key k rs = Some r"
  shows "\<exists>r' c'. last_with (key \<circ> fst) k stream = Some (r', c') \<and> close r c (view r' c')"
proof -
  obtain t1 s1 where r1: "run_polls select commit t0 [] ps = (t1, s1)" by fastforce
  with ok obtain out t2 where sel: "select t1 rs c = (Inr out, t2)"
    by (cases "select t1 rs c"; cases "fst (select t1 rs c)") auto
  with run r1 have t: "t = commit t2 out c" and "stream = s1 @ map (\<lambda>r. (r, c)) out"
    by (auto simp: run_polls_append)
  have "agrees t0 []" using init by (simp add: agrees_def)
  from agrees_run [OF this run] have "agrees t stream" .
  with select_represents [OF sel r] t show ?thesis by (fastforce simp: agrees_def)
qed

end

subsection \<open>Evidence from which an observation can be recovered\<close>

text \<open>
  An observer in state \<open>s\<close> produces a record \<open>r\<close> and moves to \<open>s'\<close>; it may also forget, after which
  it knows nothing. A history is the list of records written along the way, whether or not the
  observer kept the state it had when it wrote them.
\<close>

inductive history ::
  "('s \<Rightarrow> 'r \<Rightarrow> 's \<Rightarrow> bool) \<Rightarrow> ('s \<Rightarrow> 's \<Rightarrow> bool) \<Rightarrow> 's \<Rightarrow> 'r list \<Rightarrow> 's \<Rightarrow> bool"
  for produces :: "'s \<Rightarrow> 'r \<Rightarrow> 's \<Rightarrow> bool" and forgets :: "'s \<Rightarrow> 's \<Rightarrow> bool" where
  history_start: "history produces forgets s [] s"
| history_produce: "history produces forgets s rs t \<Longrightarrow> produces t r u \<Longrightarrow> history produces forgets s (rs @ [r]) u"
| history_forget: "history produces forgets s rs t \<Longrightarrow> forgets t u \<Longrightarrow> history produces forgets s rs u"

fun replay_all :: "('m \<Rightarrow> 'r \<Rightarrow> 'm option) \<Rightarrow> 'm \<Rightarrow> 'r list \<Rightarrow> 'm option" where
  "replay_all replay m [] = Some m"
| "replay_all replay m (r # rs) =
     (case replay m r of None \<Rightarrow> None | Some m' \<Rightarrow> replay_all replay m' rs)"

lemma replay_all_append:
  "replay_all replay m (rs @ qs) =
     (case replay_all replay m rs of None \<Rightarrow> None | Some m' \<Rightarrow> replay_all replay m' qs)"
  by (induction rs arbitrary: m) (auto split: option.split)

locale evidence_stream =
  fixes tracks :: "'s \<Rightarrow> 'm \<Rightarrow> bool"
    and produces :: "'s \<Rightarrow> 'r \<Rightarrow> 's \<Rightarrow> bool"
    and forgets :: "'s \<Rightarrow> 's \<Rightarrow> bool"
    and replay :: "'m \<Rightarrow> 'r \<Rightarrow> 'm option"
  assumes produces_replays: "tracks s m \<Longrightarrow> produces s r s' \<Longrightarrow> \<exists>m'. replay m r = Some m' \<and> tracks s' m'"
    and forgets_tracks: "tracks s m \<Longrightarrow> forgets s s' \<Longrightarrow> tracks s' m"
begin

lemma history_replays:
  "history produces forgets s rs s' \<Longrightarrow> tracks s m \<Longrightarrow> \<exists>m'. replay_all replay m rs = Some m' \<and> tracks s' m'"
proof (induction rule: history.induct)
  case (history_produce s rs t r u)
  then obtain m' where "replay_all replay m rs = Some m'" and "tracks t m'" by blast
  with produces_replays [OF _ history_produce.hyps(2)] show ?case
    by (fastforce simp: replay_all_append)
qed (auto intro: forgets_tracks)

end

end
