(* ===== verification/Raw_Log.thy ===== *)
theory Raw_Log
  imports Interfaces "HOL-Library.Sublist"
begin

section \<open>The raw log (bkk_collector/storage/raw_log.py)\<close>

text \<open>
  One file per feed and UTC date, a sequence of records: eight bytes of binary64 timestamp, four
  bytes of big-endian payload length, the gzip-compressed payload. \<open>raw_file\<close> is the file with
  its checkpoint (the \<^verbatim>\<open>valid_bytes\<close> of a version 1 checkpoint, \<open>None\<close> when there is no usable
  one) and the forensic sidecars. \<^verbatim>\<open>gzip\<close> is a parameter: \<open>compress\<close>, and \<open>gunzip\<close> with the
  three ways it can fail; \<open>gzip_ok\<close> is its documented round trip. The operating system's choices
  (how many bytes a write accepts, which file operation fails) are arguments of the operations.
\<close>

subsection \<open>Records\<close>

definition header_size :: nat where
  "header_size = 12"

definition MAX_COMPRESSED_RECORD_BYTES :: nat where
  "MAX_COMPRESSED_RECORD_BYTES = 256 * 1024 * 1024"

datatype gunzip_error = BadGzipFile | EOFError | ZlibError

type_synonym gunzip = "bytes \<Rightarrow> gunzip_error + bytes"

definition gzip_ok :: "(bytes \<Rightarrow> bytes) \<Rightarrow> gunzip \<Rightarrow> bool" where
  "gzip_ok compress gz \<longleftrightarrow> (\<forall>raw. gz (compress raw) = Inr raw)"

datatype log_error =
    RecordTooLarge nat
  | StructError
  | ShortAppend nat nat
  | OsError
  | GunzipError gunzip_error
  | ScannerStuck

record raw_file =
  content :: "bytes option"
  checkpoint :: "int option"
  sidecars :: "bytes list"

definition empty_file :: raw_file where
  "empty_file = \<lparr>content = None, checkpoint = None, sidecars = []\<rparr>"

text \<open>\<^verbatim>\<open>struct.Struct(">dI")\<close>: packing raises when the length does not fit in four bytes.\<close>

definition pack_header :: "f64 \<Rightarrow> nat \<Rightarrow> bytes option" where
  "pack_header ts n = (if n < 2 ^ 32 then Some (be_bytes 8 (unat ts) @ be_bytes 4 n) else None)"

definition unpack_header :: "bytes \<Rightarrow> f64 \<times> nat" where
  "unpack_header h = (word_of_nat (be_nat (take 8 h)), be_nat (take 4 (drop 8 h)))"

subsection \<open>Appending\<close>

record append_io =
  written :: nat
  fsync_ok :: bool
  checkpoint_ok :: bool

definition append_record ::
  "(bytes \<Rightarrow> bytes) \<Rightarrow> append_io \<Rightarrow> f64 \<Rightarrow> bytes \<Rightarrow> bool \<Rightarrow> raw_file \<Rightarrow> log_error option \<times> raw_file" where
  "append_record compress io ts raw fsync f =
     (let compressed = compress raw in
      if MAX_COMPRESSED_RECORD_BYTES < length compressed
      then (Some (RecordTooLarge (length compressed)), f)
      else case pack_header ts (length compressed) of
        None \<Rightarrow> (Some StructError, f)
      | Some header \<Rightarrow>
          let rec = header @ compressed;
              old = (case content f of None \<Rightarrow> [] | Some bs \<Rightarrow> bs);
              new = old @ take (written io) rec;
              f' = f\<lparr>content := Some new\<rparr>
          in if written io < length rec then (Some (ShortAppend (written io) (length rec)), f')
             else if \<not> fsync then (None, f')
             else if \<not> fsync_ok io then (Some OsError, f')
             else if \<not> checkpoint_ok io then (Some OsError, f')
             else (None, f'\<lparr>checkpoint := Some (int (length new))\<rparr>))"

subsection \<open>Reading\<close>

text \<open>
  \<^verbatim>\<open>iter_records\<close> is a generator: the result lists what it yields, and the error that ends it when
  one propagates. \<^verbatim>\<open>OSError\<close> (which \<^verbatim>\<open>BadGzipFile\<close> is) and \<^verbatim>\<open>EOFError\<close> are caught and the
  record skipped; \<^verbatim>\<open>zlib.error\<close> is neither and is not caught.
\<close>

function iter_records :: "gunzip \<Rightarrow> bytes \<Rightarrow> (f64 \<times> bytes) list \<times> gunzip_error option" where
  "iter_records gz bs =
     (if length bs < header_size then ([], None)
      else let (ts, n) = unpack_header (take header_size bs); rest = drop header_size bs in
        if MAX_COMPRESSED_RECORD_BYTES < n then ([], None)
        else if length rest < n then ([], None)
        else (case gz (take n rest) of
            Inr raw \<Rightarrow> (case iter_records gz (drop n rest) of (rs, e) \<Rightarrow> ((ts, raw) # rs, e))
          | Inl ZlibError \<Rightarrow> ([], Some ZlibError)
          | Inl _ \<Rightarrow> iter_records gz (drop n rest)))"
  by pat_completeness auto
termination
  by (relation "measure (\<lambda>(gz, bs). length bs)") (auto simp: header_size_def)

declare iter_records.simps [simp del]

record scan =
  complete_records :: nat
  valid_bytes :: nat
  file_bytes :: nat
  clean :: bool

text \<open>
  The loop of \<^verbatim>\<open>scan_raw_log\<close> and of \<^verbatim>\<open>_scan_raw_log_from\<close>: \<open>pos\<close> is \<^verbatim>\<open>handle.tell()\<close> and \<open>bs\<close>
  the bytes from there on.
\<close>

function scan_loop ::
  "gunzip \<Rightarrow> bool \<Rightarrow> nat \<Rightarrow> nat \<Rightarrow> nat \<Rightarrow> nat \<Rightarrow> bytes \<Rightarrow> log_error + scan" where
  "scan_loop gz validate fsize count valid_end pos bs =
     (let stop = \<lparr>complete_records = count, valid_bytes = valid_end, file_bytes = fsize, clean = False\<rparr> in
      if bs = [] then Inr (stop\<lparr>clean := (valid_end = fsize)\<rparr>)
      else if length bs < header_size then Inr stop
      else let (ts, n) = unpack_header (take header_size bs); rest = drop header_size bs in
        if MAX_COMPRESSED_RECORD_BYTES < n then Inr stop
        else if length rest < n then Inr stop
        else (case (if validate then gz (take n rest) else Inr []) of
            Inl ZlibError \<Rightarrow> Inl (GunzipError ZlibError)
          | Inl _ \<Rightarrow> Inr stop
          | Inr _ \<Rightarrow>
              let end = pos + header_size + n in
              if end \<le> pos then Inl ScannerStuck
              else scan_loop gz validate fsize (Suc count) end end (drop n rest)))"
  by pat_completeness auto
termination
  by (relation "measure (\<lambda>(gz, v, fsize, count, e, pos, bs). length bs)") (auto simp: header_size_def)

declare scan_loop.simps [simp del]

definition scan_raw_log :: "gunzip \<Rightarrow> bool \<Rightarrow> bytes \<Rightarrow> log_error + scan" where
  "scan_raw_log gz validate bs = scan_loop gz validate (length bs) 0 0 0 bs"

definition scan_raw_log_from :: "gunzip \<Rightarrow> nat \<Rightarrow> bytes \<Rightarrow> log_error + scan" where
  "scan_raw_log_from gz offset bs = scan_loop gz True (length bs) 0 offset offset (drop offset bs)"

subsection \<open>Repair\<close>

text \<open>
  \<^verbatim>\<open>repair_truncated_tail\<close> decides from the scan and then performs file operations in order. The
  plan lists them, so that a crash or an error after any of them is a prefix of the plan. The
  strict directory sync stands between the forensic copy and the truncation.
\<close>

datatype fs_op =
    WriteSidecar bytes
  | SyncDirectory
  | Truncate nat
  | WriteCheckpoint nat

fun exec_op :: "raw_file \<Rightarrow> fs_op \<Rightarrow> raw_file" where
  "exec_op f (WriteSidecar bs) = f\<lparr>sidecars := sidecars f @ [bs]\<rparr>"
| "exec_op f SyncDirectory = f"
| "exec_op f (Truncate n) = f\<lparr>content := map_option (take n) (content f)\<rparr>"
| "exec_op f (WriteCheckpoint n) = f\<lparr>checkpoint := Some (int n)\<rparr>"

definition repair_scan :: "gunzip \<Rightarrow> int option \<Rightarrow> bytes \<Rightarrow> log_error + scan option" where
  "repair_scan gz cp bs =
     (case cp of
        Some c \<Rightarrow>
          if 0 \<le> c \<and> c \<le> int (length bs)
          then (if c = int (length bs) then Inr None
                else map_sum id Some (scan_raw_log_from gz (nat c) bs))
          else map_sum id Some (scan_raw_log gz True bs)
      | None \<Rightarrow> map_sum id Some (scan_raw_log gz True bs))"

definition repair_plan :: "gunzip \<Rightarrow> raw_file \<Rightarrow> log_error + fs_op list" where
  "repair_plan gz f =
     (case content f of
        None \<Rightarrow> Inr []
      | Some bs \<Rightarrow>
          (case repair_scan gz (checkpoint f) bs of
             Inl e \<Rightarrow> Inl e
           | Inr None \<Rightarrow> Inr []
           | Inr (Some s) \<Rightarrow>
               if clean s then Inr [WriteCheckpoint (valid_bytes s)]
               else Inr [WriteSidecar (drop (valid_bytes s) bs), SyncDirectory,
                         Truncate (valid_bytes s), WriteCheckpoint (valid_bytes s)]))"

text \<open>\<open>budget\<close> is the number of file operations that succeed before one fails (or a crash).\<close>

definition repair_truncated_tail ::
  "gunzip \<Rightarrow> nat \<Rightarrow> raw_file \<Rightarrow> (log_error + bool) \<times> raw_file" where
  "repair_truncated_tail gz budget f =
     (case repair_plan gz f of
        Inl e \<Rightarrow> (Inl e, f)
      | Inr ops \<Rightarrow>
          (if budget < length ops then Inl OsError else Inr (1 < length ops),
           foldl exec_op f (take budget ops)))"

subsection \<open>The file as a sequence of frames\<close>

text \<open>
  The abstract view: a frame is a timestamp and a compressed payload. The reading functions above
  are shown to be functions of the unique decomposition of the file into frames and a tail.
\<close>

type_synonym raw_frame = "f64 \<times> bytes"

definition frame :: "raw_frame \<Rightarrow> bytes" where
  "frame r = be_bytes 8 (unat (fst r)) @ be_bytes 4 (length (snd r)) @ snd r"

definition frame_ok :: "raw_frame \<Rightarrow> bool" where
  "frame_ok r \<longleftrightarrow> length (snd r) \<le> MAX_COMPRESSED_RECORD_BYTES"

definition read_frame :: "bytes \<Rightarrow> (raw_frame \<times> bytes) option" where
  "read_frame bs =
     (if length bs < header_size then None
      else let (ts, n) = unpack_header (take header_size bs); rest = drop header_size bs in
        if MAX_COMPRESSED_RECORD_BYTES < n \<or> length rest < n then None
        else Some ((ts, take n rest), drop n rest))"

lemma max_record_below_u32: "MAX_COMPRESSED_RECORD_BYTES < 2 ^ 32"
  by (simp add: MAX_COMPRESSED_RECORD_BYTES_def)

lemma pack_header_frame:
  "length p \<le> MAX_COMPRESSED_RECORD_BYTES \<Longrightarrow>
     pack_header ts (length p) = Some (be_bytes 8 (unat ts) @ be_bytes 4 (length p))"
  using max_record_below_u32 by (simp add: pack_header_def)

lemma length_frame: "length (frame r) = header_size + length (snd r)"
  by (simp add: frame_def header_size_def)

lemma unpack_header_frame:
  assumes "frame_ok r"
  shows "unpack_header (take header_size (frame r @ bs)) = (fst r, length (snd r))"
proof -
  have "length (snd r) < 256 ^ 4" and "unat (fst r) < 256 ^ 8"
    using assms max_record_below_u32 unsigned_less [of "fst r"] by (simp_all add: frame_ok_def)
  then show ?thesis
    by (simp add: unpack_header_def frame_def header_size_def be_nat_be_bytes)
qed

lemma read_frame_frame: "frame_ok r \<Longrightarrow> read_frame (frame r @ bs) = Some (r, bs)"
  using unpack_header_frame [of r bs] length_frame [of r]
  by (simp add: read_frame_def frame_ok_def Let_def)
     (simp add: frame_def header_size_def)

lemma read_frame_torn:
  assumes "frame_ok r" and "n < length (frame r)"
  shows "read_frame (take n (frame r)) = None"
proof (cases "n < header_size")
  case True
  with assms(2) show ?thesis by (simp add: read_frame_def)
next
  case False
  then have "take header_size (take n (frame r)) = take header_size (frame r @ [])"
    by (simp add: min_def)
  with assms(1) have "unpack_header (take header_size (take n (frame r))) = (fst r, length (snd r))"
    by (simp only: unpack_header_frame)
  with assms False show ?thesis
    by (auto simp: read_frame_def Let_def length_frame simp del: take_take)
qed

lemma read_frame_sound:
  assumes "read_frame bs = Some (r, rest)"
  shows "frame_ok r \<and> bs = frame r @ rest"
proof -
  define n where "n = be_nat (take 4 (drop 8 bs))"
  have long: "\<not> length bs < header_size"
    using assms by (auto simp: read_frame_def)
  with assms have n: "n \<le> MAX_COMPRESSED_RECORD_BYTES" "n \<le> length (drop header_size bs)"
    and r: "r = (word_of_nat (be_nat (take 8 bs)), take n (drop header_size bs))"
    and rest: "rest = drop n (drop header_size bs)"
    by (auto simp: read_frame_def unpack_header_def header_size_def n_def Let_def
        take_drop min_def split: if_splits)
  have "be_nat (take 8 bs) < 2 ^ 64"
    using be_nat_bound [of "take 8 bs"] long by (simp add: header_size_def)
  then have ts: "be_bytes 8 (unat (fst r)) = take 8 bs"
    using be_bytes_be_nat [of "take 8 bs"] long r
    by (simp add: header_size_def unat_of_nat)
  have len: "be_bytes 4 (length (snd r)) = take 4 (drop 8 bs)"
    using be_bytes_be_nat [of "take 4 (drop 8 bs)"] long r n
    by (simp add: header_size_def n_def)
  have payload: "snd r @ rest = drop header_size bs"
    using r rest by (simp del: drop_drop)
  have "frame r @ rest = take 8 bs @ take 4 (drop 8 bs) @ drop header_size bs"
    unfolding frame_def ts len by (simp add: payload)
  also have "\<dots> = bs"
    by (simp add: header_size_def flip: append_assoc take_add)
  finally show ?thesis
    using n r by (simp add: frame_ok_def)
qed

lemma frame_nonempty: "frame r \<noteq> []"
  using length_frame [of r] by (auto simp: header_size_def)

interpretation rawf: framing frame_ok frame read_frame
  by unfold_locales
    (simp_all add: frame_nonempty read_frame_frame read_frame_torn read_frame_sound)

subsection \<open>Reading as a function of the frames\<close>

fun deliver :: "gunzip \<Rightarrow> raw_frame list \<Rightarrow> (f64 \<times> bytes) list \<times> gunzip_error option" where
  "deliver gz [] = ([], None)"
| "deliver gz ((ts, p) # fs) =
     (case gz p of
        Inr raw \<Rightarrow> (case deliver gz fs of (rs, e) \<Rightarrow> ((ts, raw) # rs, e))
      | Inl ZlibError \<Rightarrow> ([], Some ZlibError)
      | Inl _ \<Rightarrow> deliver gz fs)"

abbreviation readable :: "gunzip \<Rightarrow> raw_frame \<Rightarrow> bool" where
  "readable gz r \<equiv> \<not> isl (gz (snd r))"

definition decoded :: "gunzip \<Rightarrow> raw_frame \<Rightarrow> f64 \<times> bytes" where
  "decoded gz r = (fst r, projr (gz (snd r)))"

abbreviation log_bytes :: "raw_frame list \<Rightarrow> nat" where
  "log_bytes fs \<equiv> length (concat (map frame fs))"

lemma read_frame_SomeD:
  assumes "read_frame bs = Some ((ts, p), rest)"
  shows "header_size \<le> length bs"
    and "unpack_header (take header_size bs) = (ts, length p)"
    and "length p \<le> MAX_COMPRESSED_RECORD_BYTES"
    and "length p \<le> length (drop header_size bs)"
    and "take (length p) (drop header_size bs) = p"
    and "drop (length p) (drop header_size bs) = rest"
  using assms
  by (auto simp: read_frame_def Let_def min_def split: prod.splits if_splits)

lemma read_frame_NoneD:
  assumes "read_frame bs = None"
  shows "length bs < header_size \<or>
    (\<exists>ts n. unpack_header (take header_size bs) = (ts, n) \<and>
      (MAX_COMPRESSED_RECORD_BYTES < n \<or> length (drop header_size bs) < n))"
  using assms by (auto simp: read_frame_def Let_def split: prod.splits if_splits)

lemma iter_records_None: "read_frame bs = None \<Longrightarrow> iter_records gz bs = ([], None)"
  by (subst iter_records.simps) (auto simp: Let_def dest!: read_frame_NoneD)

lemma iter_records_Some:
  assumes "read_frame bs = Some ((ts, p), rest)"
  shows "iter_records gz bs =
    (case gz p of
       Inr raw \<Rightarrow> (case iter_records gz rest of (rs, e) \<Rightarrow> ((ts, raw) # rs, e))
     | Inl ZlibError \<Rightarrow> ([], Some ZlibError)
     | Inl _ \<Rightarrow> iter_records gz rest)"
  using read_frame_SomeD [OF assms]
  by (subst iter_records.simps)
    (simp add: Let_def del: drop_drop length_drop split: sum.split gunzip_error.split)

lemma iter_records_deliver: "iter_records gz bs = deliver gz (fst (unframe read_frame bs))"
proof (induction bs rule: length_induct)
  case (1 bs)
  show ?case
  proof (cases "read_frame bs")
    case None
    then show ?thesis by (simp add: iter_records_None)
  next
    case (Some a)
    then obtain ts p rest where dec: "read_frame bs = Some ((ts, p), rest)" by (cases a) auto
    from "1.IH" rawf.dec_shrinks [OF dec]
    have "iter_records gz rest = deliver gz (fst (unframe read_frame rest))" by blast
    with dec show ?thesis
      by (auto simp: iter_records_Some split: prod.split sum.split gunzip_error.split)
  qed
qed

lemma deliver_readable: "list_all (readable gz) fs \<Longrightarrow> deliver gz fs = (map (decoded gz) fs, None)"
  by (induction gz fs rule: deliver.induct) (auto simp: decoded_def split: sum.splits)

lemma deliver_append_readable:
  "list_all (readable gz) fs \<Longrightarrow> deliver gz (fs @ gs) =
     (case deliver gz gs of (rs, e) \<Rightarrow> (map (decoded gz) fs @ rs, e))"
  by (induction gz fs rule: deliver.induct)
    (auto simp: decoded_def split: sum.splits prod.splits)

lemma iter_records_frames:
  assumes "list_all frame_ok fs" and "list_all (readable gz) fs" and "read_frame tail = None"
  shows "iter_records gz (concat (map frame fs) @ tail) = (map (decoded gz) fs, None)"
  using assms by (simp add: iter_records_deliver rawf.unframe_complete deliver_readable)

subsection \<open>Scanning as a function of the frames\<close>

definition scan_result :: "gunzip \<Rightarrow> bool \<Rightarrow> nat \<Rightarrow> nat \<Rightarrow> nat \<Rightarrow> raw_frame list \<Rightarrow> bytes \<Rightarrow> log_error + scan" where
  "scan_result gz validate fsize count start fs tail =
     (let good = takeWhile (\<lambda>r. validate \<longrightarrow> readable gz r) fs;
          s = \<lparr>complete_records = count + length good, valid_bytes = start + log_bytes good,
               file_bytes = fsize, clean = False\<rparr>
      in case dropWhile (\<lambda>r. validate \<longrightarrow> readable gz r) fs of
           [] \<Rightarrow> Inr (s\<lparr>clean := (tail = [] \<and> start + log_bytes good = fsize)\<rparr>)
         | r # _ \<Rightarrow> if gz (snd r) = Inl ZlibError then Inl (GunzipError ZlibError) else Inr s)"

lemma scan_loop_None:
  "read_frame bs = None \<Longrightarrow> scan_loop gz validate fsize count e pos bs =
     Inr \<lparr>complete_records = count, valid_bytes = e, file_bytes = fsize,
          clean = (bs = [] \<and> e = fsize)\<rparr>"
  by (subst scan_loop.simps) (auto simp: Let_def dest!: read_frame_NoneD)

lemma scan_loop_Some:
  assumes "read_frame bs = Some ((ts, p), rest)"
  shows "scan_loop gz validate fsize count e pos bs =
    (if validate \<longrightarrow> readable gz (ts, p)
     then scan_loop gz validate fsize (Suc count) (pos + length (frame (ts, p)))
            (pos + length (frame (ts, p))) rest
     else if gz p = Inl ZlibError then Inl (GunzipError ZlibError)
     else Inr \<lparr>complete_records = count, valid_bytes = e, file_bytes = fsize, clean = False\<rparr>)"
proof -
  have "bs \<noteq> []" and "0 < header_size"
    using read_frame_SomeD(1) [OF assms] by (auto simp: header_size_def)
  with read_frame_SomeD [OF assms] show ?thesis
    by (subst scan_loop.simps)
      (cases "gz p", auto simp: Let_def length_frame add.assoc simp del: drop_drop length_drop
        split: gunzip_error.split)
qed

lemma scan_result_Cons:
  "scan_result gz validate fsize count pos (r # fs) tail =
    (if validate \<longrightarrow> readable gz r
     then scan_result gz validate fsize (Suc count) (pos + length (frame r)) fs tail
     else if gz (snd r) = Inl ZlibError then Inl (GunzipError ZlibError)
     else Inr \<lparr>complete_records = count, valid_bytes = pos, file_bytes = fsize, clean = False\<rparr>)"
  by (cases "validate \<longrightarrow> readable gz r")
    (auto simp: scan_result_def Let_def add.assoc simp del: dropWhile_eq_Nil_conv split: list.split)

lemma scan_loop_result:
  "unframe read_frame bs = (fs, tail) \<Longrightarrow>
     scan_loop gz validate fsize count pos pos bs = scan_result gz validate fsize count pos fs tail"
proof (induction bs arbitrary: fs count pos rule: length_induct)
  case (1 bs)
  show ?case
  proof (cases "read_frame bs")
    case None
    with "1.prems" show ?thesis
      by (auto simp: scan_loop_None scan_result_def)
  next
    case (Some a)
    then obtain ts p rest where dec: "read_frame bs = Some ((ts, p), rest)" by (cases a) auto
    with "1.prems" obtain fs' where rest: "unframe read_frame rest = (fs', tail)"
      and fs: "fs = (ts, p) # fs'" by (auto split: prod.splits)
    from "1.IH" rawf.dec_shrinks [OF dec] rest
    have "scan_loop gz validate fsize c q q rest = scan_result gz validate fsize c q fs' tail" for c q
      by blast
    with dec fs show ?thesis
      by (simp add: scan_loop_Some scan_result_Cons)
  qed
qed

lemma scan_raw_log_result:
  "unframe read_frame bs = (fs, tail) \<Longrightarrow>
     scan_raw_log gz validate bs = scan_result gz validate (length bs) 0 0 fs tail"
  by (simp add: scan_raw_log_def scan_loop_result)

lemma unframe_drop_frames:
  "list_all frame_ok fs \<Longrightarrow> list_all frame_ok gs \<Longrightarrow> read_frame tail = None \<Longrightarrow>
     unframe read_frame (drop (log_bytes fs) (concat (map frame (fs @ gs)) @ tail)) = (gs, tail)"
  by (simp add: rawf.unframe_complete)

subsection \<open>A log under torn writes, crashes and repairs\<close>

text \<open>
  The life of one log file: appends that may fail, crashes during an append, repairs that may
  stop after any file operation. As in the collector (\<^verbatim>\<open>raw_needs_repair\<close>) and in the presence
  log, nothing is appended after a failure or a restart before a repair succeeded. \<open>dl_acked\<close>
  records the appends that returned to their caller.
\<close>

record durable_log =
  dl_file :: raw_file
  dl_needs_repair :: bool
  dl_acked :: "(f64 \<times> bytes) list"

inductive log_step ::
  "(bytes \<Rightarrow> bytes) \<Rightarrow> gunzip \<Rightarrow> durable_log \<Rightarrow> durable_log \<Rightarrow> bool"
  for compress :: "bytes \<Rightarrow> bytes" and gz :: gunzip where
  log_append: "\<not> dl_needs_repair l \<Longrightarrow> append_record compress io ts raw True (dl_file l) = (err, f') \<Longrightarrow>
    log_step compress gz l \<lparr>dl_file = f', dl_needs_repair = (err \<noteq> None),
      dl_acked = dl_acked l @ (if err = None then [(ts, raw)] else [])\<rparr>"
| log_crash: "\<not> dl_needs_repair l \<Longrightarrow> append_record compress io ts raw True (dl_file l) = (err, f') \<Longrightarrow>
    log_step compress gz l (l\<lparr>dl_file := f', dl_needs_repair := True\<rparr>)"
| log_repair: "repair_truncated_tail gz budget (dl_file l) = (res, f') \<Longrightarrow>
    log_step compress gz l (l\<lparr>dl_file := f', dl_needs_repair := isl res\<rparr>)"

definition log_init :: "(bytes \<Rightarrow> bytes) \<Rightarrow> gunzip \<Rightarrow> durable_log \<Rightarrow> bool" where
  "log_init compress gz l \<longleftrightarrow> gzip_ok compress gz \<and>
     l = \<lparr>dl_file = empty_file, dl_needs_repair = False, dl_acked = []\<rparr>"

abbreviation file_data :: "raw_file \<Rightarrow> bytes" where
  "file_data f \<equiv> (case content f of None \<Rightarrow> [] | Some bs \<Rightarrow> bs)"

definition frames_inv :: "gunzip \<Rightarrow> raw_file \<Rightarrow> raw_frame list \<Rightarrow> bytes \<Rightarrow> bool" where
  "frames_inv gz f fs tail \<longleftrightarrow>
     file_data f = concat (map frame fs) @ tail \<and> read_frame tail = None \<and>
     list_all frame_ok fs \<and> list_all (readable gz) fs \<and>
     (case checkpoint f of None \<Rightarrow> True
      | Some c \<Rightarrow> (\<exists>k \<le> length fs. c = int (log_bytes (take k fs))))"

definition log_inv :: "(bytes \<Rightarrow> bytes) \<Rightarrow> gunzip \<Rightarrow> durable_log \<Rightarrow> bool" where
  "log_inv compress gz l \<longleftrightarrow> gzip_ok compress gz \<and>
     (\<exists>fs tail. frames_inv gz (dl_file l) fs tail \<and> (\<not> dl_needs_repair l \<longrightarrow> tail = []) \<and>
        subseq (dl_acked l) (map (decoded gz) fs))"

lemma append_record_small:
  assumes "frame_ok (ts, compress raw)"
  shows "append_record compress io ts raw fsync f =
    (let fr = frame (ts, compress raw); new = file_data f @ take (written io) fr;
         f' = f\<lparr>content := Some new\<rparr>
     in if written io < length fr then (Some (ShortAppend (written io) (length fr)), f')
        else if \<not> fsync then (None, f')
        else if \<not> fsync_ok io then (Some OsError, f')
        else if \<not> checkpoint_ok io then (Some OsError, f')
        else (None, f'\<lparr>checkpoint := Some (int (length new))\<rparr>))"
  using assms by (simp add: append_record_def frame_ok_def pack_header_frame frame_def Let_def)

lemma append_record_large:
  "\<not> frame_ok (ts, compress raw) \<Longrightarrow>
     append_record compress io ts raw fsync f = (Some (RecordTooLarge (length (compress raw))), f)"
  by (simp add: append_record_def frame_ok_def)

lemma append_record_cases:
  assumes "append_record compress io ts raw True f = (err, f')"
  obtains (refused) "err \<noteq> None" and "f' = f"
  | (torn) "frame_ok (ts, compress raw)" and "written io < length (frame (ts, compress raw))"
      and "err \<noteq> None" and "checkpoint f' = checkpoint f"
      and "content f' = Some (file_data f @ take (written io) (frame (ts, compress raw)))"
  | (whole) "frame_ok (ts, compress raw)"
      and "content f' = Some (file_data f @ frame (ts, compress raw))"
      and "checkpoint f' = checkpoint f \<or>
        checkpoint f' = Some (int (length (file_data f) + length (frame (ts, compress raw))))"
proof (cases "frame_ok (ts, compress raw)")
  case False
  with assms that(1) show ?thesis by (auto simp: append_record_large)
next
  case True
  with assms that(2,3) show ?thesis
    by (cases "written io < length (frame (ts, compress raw))")
      (auto simp: append_record_small Let_def split: if_splits)
qed

lemma frames_inv_torn:
  assumes "frames_inv gz f fs []" and "frame_ok r" and "n < length (frame r)"
    and "content f' = Some (file_data f @ take n (frame r))" and "checkpoint f' = checkpoint f"
  shows "frames_inv gz f' fs (take n (frame r))"
  using assms by (simp add: frames_inv_def rawf.dec_torn split: option.splits)

lemma frames_inv_whole:
  assumes inv: "frames_inv gz f fs []" and r: "frame_ok r" "readable gz r"
    and f': "content f' = Some (file_data f @ frame r)"
      "checkpoint f' = checkpoint f \<or> checkpoint f' = Some (int (length (file_data f) + length (frame r)))"
  shows "frames_inv gz f' (fs @ [r]) []"
proof -
  have data: "file_data f' = concat (map frame (fs @ [r]))"
    using inv f'(1) by (simp add: frames_inv_def)
  have "case checkpoint f' of None \<Rightarrow> True
    | Some c \<Rightarrow> \<exists>k \<le> length (fs @ [r]). c = int (log_bytes (take k (fs @ [r])))"
  proof (cases "checkpoint f' = checkpoint f")
    case True
    with inv show ?thesis
      by (auto simp: frames_inv_def split: option.splits intro: le_SucI)
  next
    case False
    with f'(2) have "checkpoint f' = Some (int (log_bytes (take (length (fs @ [r])) (fs @ [r]))))"
      using inv by (simp add: frames_inv_def)
    then show ?thesis by (auto simp del: take_all)
  qed
  with data inv r show ?thesis
    by (simp add: frames_inv_def rawf.dec_empty)
qed

lemma scan_result_readable:
  "list_all (readable gz) fs \<Longrightarrow> scan_result gz True fsize count start fs tail =
     Inr \<lparr>complete_records = count + length fs, valid_bytes = start + log_bytes fs,
          file_bytes = fsize, clean = (tail = [] \<and> start + log_bytes fs = fsize)\<rparr>"
  by (induction fs arbitrary: count start)
    (simp_all add: scan_result_Cons add.assoc, simp add: scan_result_def)

lemma scan_from_frames:
  assumes "frames_inv gz f fs tail" and "k \<le> length fs"
  shows "scan_raw_log_from gz (log_bytes (take k fs)) (file_data f) =
    Inr \<lparr>complete_records = length fs - k, valid_bytes = log_bytes fs,
         file_bytes = length (file_data f), clean = (tail = [])\<rparr>"
proof -
  have split: "concat (map frame fs) = concat (map frame (take k fs)) @ concat (map frame (drop k fs))"
    by (metis append_take_drop_id concat_append map_append)
  have "drop (log_bytes (take k fs)) (file_data f) = concat (map frame (drop k fs)) @ tail"
    using assms(1) by (simp add: frames_inv_def split)
  moreover have ok: "list_all frame_ok (drop k fs)" "list_all (readable gz) (drop k fs)"
    using assms(1) by (auto simp: frames_inv_def list_all_iff dest: in_set_dropD)
  ultimately have "unframe read_frame (drop (log_bytes (take k fs)) (file_data f)) = (drop k fs, tail)"
    using assms(1) by (simp add: frames_inv_def rawf.unframe_complete)
  moreover have "log_bytes (take k fs) + log_bytes (drop k fs) = log_bytes fs"
    using split by simp
  moreover have "length (file_data f) = log_bytes fs + length tail"
    using assms(1) by (simp add: frames_inv_def)
  ultimately show ?thesis
    using ok(2) by (auto simp: scan_raw_log_from_def scan_loop_result scan_result_readable)
qed

lemma scan_raw_log_from_0: "scan_raw_log_from gz 0 bs = scan_raw_log gz True bs"
  by (simp add: scan_raw_log_from_def scan_raw_log_def)

lemma repair_plan_cases:
  assumes inv: "frames_inv gz f fs tail"
  obtains (nothing) "repair_plan gz f = Inr []" and "tail = []"
  | (whole) "repair_plan gz f = Inr [WriteCheckpoint (log_bytes fs)]" and "tail = []"
  | (detach) "repair_plan gz f = Inr [WriteSidecar tail, SyncDirectory,
        Truncate (log_bytes fs), WriteCheckpoint (log_bytes fs)]"
      and "content f = Some (concat (map frame fs) @ tail)"
proof (cases "content f")
  case None
  with inv that(1) show ?thesis by (auto simp: repair_plan_def frames_inv_def)
next
  case (Some bs)
  with inv have bs: "bs = concat (map frame fs) @ tail" by (simp add: frames_inv_def)
  have scan: "repair_scan gz (checkpoint f) bs = Inr None \<and> tail = [] \<or>
    (\<exists>n. repair_scan gz (checkpoint f) bs =
      Inr (Some \<lparr>complete_records = n, valid_bytes = log_bytes fs, file_bytes = length bs,
                 clean = (tail = [])\<rparr>))"
  proof (cases "checkpoint f")
    case None
    with scan_from_frames [OF inv, of 0] Some show ?thesis
      by (simp add: repair_scan_def scan_raw_log_from_0)
  next
    case (Some c)
    with inv obtain k where k: "k \<le> length fs" and c: "c = int (log_bytes (take k fs))"
      by (auto simp: frames_inv_def)
    have "log_bytes (take k fs) \<le> log_bytes fs"
      by (metis append_take_drop_id concat_append le_add1 length_append map_append)
    then have "c = int (length bs) \<Longrightarrow> tail = []" and "log_bytes (take k fs) \<le> length bs"
      unfolding c bs of_nat_eq_iff by simp_all
    with Some c scan_from_frames [OF inv k] \<open>content f = Some bs\<close> show ?thesis
      by (auto simp: repair_scan_def)
  qed
  from Some bs scan that show ?thesis
    by (cases "tail = []") (auto simp: repair_plan_def)
qed

lemma repair_keeps_frames:
  assumes inv: "frames_inv gz f fs tail"
    and rep: "repair_truncated_tail gz budget f = (res, f')"
  shows "\<exists>tail'. frames_inv gz f' fs tail' \<and> (\<not> isl res \<longrightarrow> tail' = [])"
  using inv
proof (cases rule: repair_plan_cases)
  case nothing
  with inv rep show ?thesis by (auto simp: repair_truncated_tail_def)
next
  case whole
  have "frames_inv gz (f\<lparr>checkpoint := Some (int (log_bytes fs))\<rparr>) fs tail"
    using inv by (auto simp: frames_inv_def intro!: exI [of _ "length fs"])
  with whole inv rep show ?thesis
    by (cases budget) (auto simp: repair_truncated_tail_def split: if_splits)
next
  case detach
  let ?cut = "Some (concat (map frame fs))"
  have cut: "frames_inv gz g fs []" if "content g = ?cut" "checkpoint g = checkpoint f" for g
    using inv that by (simp add: frames_inv_def rawf.dec_empty)
  have marked: "frames_inv gz g fs []" if "content g = ?cut" "checkpoint g = Some (int (log_bytes fs))" for g
    using inv that by (auto simp: frames_inv_def rawf.dec_empty intro!: exI [of _ "length fs"])
  have same: "frames_inv gz g fs tail" if "content g = content f" "checkpoint g = checkpoint f" for g
    using inv that by (simp add: frames_inv_def)
  consider "budget < 3" | "budget = 3" | "4 \<le> budget" by linarith
  then show ?thesis
  proof cases
    case 1
    with detach rep have "isl res" and "content f' = content f" and "checkpoint f' = checkpoint f"
      by (auto simp: repair_truncated_tail_def take_Cons' split: if_splits)
    with same show ?thesis by auto
  next
    case 2
    with detach rep have "content f' = ?cut" and "checkpoint f' = checkpoint f"
      by (auto simp: repair_truncated_tail_def)
    with cut show ?thesis by auto
  next
    case 3
    with detach rep have "content f' = ?cut" and "checkpoint f' = Some (int (log_bytes fs))"
      by (auto simp: repair_truncated_tail_def)
    with marked show ?thesis by auto
  qed
qed

lemma repair_completes:
  "frames_inv gz f fs tail \<Longrightarrow> 4 \<le> budget \<Longrightarrow> \<not> isl (fst (repair_truncated_tail gz budget f))"
  by (erule repair_plan_cases) (auto simp: repair_truncated_tail_def)

lemma log_init_inv: "log_init compress gz l \<Longrightarrow> log_inv compress gz l"
  by (auto simp: log_init_def log_inv_def frames_inv_def empty_file_def rawf.dec_empty
      intro!: exI [of _ "[]"])

lemma append_keeps_frames:
  assumes gz: "gzip_ok compress gz" and inv: "frames_inv gz f fs []"
    and app: "append_record compress io ts raw True f = (err, f')"
  shows "\<exists>fs' tail. frames_inv gz f' fs' tail \<and> (err = None \<longrightarrow> fs' = fs @ [(ts, compress raw)] \<and> tail = []) \<and>
    (fs' = fs \<or> fs' = fs @ [(ts, compress raw)])"
  using app
proof (cases rule: append_record_cases)
  case refused
  with inv show ?thesis by auto
next
  case torn
  from frames_inv_torn [OF inv torn(1,2,5,4)] torn(3) show ?thesis by blast
next
  case whole
  have "readable gz (ts, compress raw)"
    using gz by (simp add: gzip_ok_def)
  from frames_inv_whole [OF inv whole(1) this whole(2,3)] show ?thesis by blast
qed

lemma log_invI:
  "gzip_ok compress gz \<Longrightarrow> frames_inv gz (dl_file l) fs tail \<Longrightarrow>
     (\<not> dl_needs_repair l \<Longrightarrow> tail = []) \<Longrightarrow> subseq (dl_acked l) (map (decoded gz) fs) \<Longrightarrow>
     log_inv compress gz l"
  by (auto simp: log_inv_def)

lemma log_step_inv:
  assumes inv: "log_inv compress gz l" and st: "log_step compress gz l l'"
  shows "log_inv compress gz l'"
proof -
  from inv obtain fs tail where gz: "gzip_ok compress gz" and fr: "frames_inv gz (dl_file l) fs tail"
    and clean: "\<not> dl_needs_repair l \<longrightarrow> tail = []" and ack: "subseq (dl_acked l) (map (decoded gz) fs)"
    by (auto simp: log_inv_def)
  have dec: "decoded gz (ts, compress raw) = (ts, raw)" for ts raw
    using gz by (simp add: gzip_ok_def decoded_def)
  have grow: "subseq (dl_acked l) (map (decoded gz) fs')" if "fs' = fs \<or> fs' = fs @ [r]" for fs' r
    using that ack by (auto intro: subseq_rev_drop_many)
  from st show ?thesis
  proof cases
    case (log_append io ts raw err f')
    have "frames_inv gz (dl_file l) fs []" using fr clean log_append(2) by simp
    from append_keeps_frames [OF gz this log_append(3)] obtain fs' tail' where
      n: "frames_inv gz f' fs' tail'" "err = None \<longrightarrow> fs' = fs @ [(ts, compress raw)] \<and> tail' = []"
      "fs' = fs \<or> fs' = fs @ [(ts, compress raw)]" by blast
    have "subseq (dl_acked l') (map (decoded gz) fs')"
      using log_append(1) n(2) dec ack grow [OF n(3)] by (cases err) (simp_all add: list_emb_append_mono)
    with log_append(1) n gz show ?thesis by (intro log_invI [of _ _ _ fs' tail']) auto
  next
    case (log_crash io ts raw err f')
    have "frames_inv gz (dl_file l) fs []" using fr clean log_crash(2) by simp
    from append_keeps_frames [OF gz this log_crash(3)] obtain fs' tail' where
      n: "frames_inv gz f' fs' tail'" "fs' = fs \<or> fs' = fs @ [(ts, compress raw)]" by blast
    with log_crash(1) grow [OF n(2)] gz show ?thesis by (intro log_invI [of _ _ _ fs' tail']) auto
  next
    case (log_repair budget res f')
    with repair_keeps_frames [OF fr log_repair(2)] ack gz show ?thesis by (auto intro: log_invI)
  qed
qed

interpretation log_sys: transition_system "log_init compress gz" "log_step compress gz" "log_inv compress gz"
  for compress gz
  by unfold_locales (auto intro: log_init_inv log_step_inv)

subsection \<open>Properties\<close>

text \<open>
  A concrete codec for the witnesses: a stored block with a one-byte magic, whose decoder fails in
  each of the three ways.
\<close>

definition stored_compress :: "bytes \<Rightarrow> bytes" where
  "stored_compress raw = 31 # raw"

fun stored_gunzip :: gunzip where
  "stored_gunzip [] = Inl EOFError"
| "stored_gunzip (b # bs) = (if b = 31 then Inr bs else if b = 0 then Inl ZlibError else Inl BadGzipFile)"

lemma stored_gzip_ok: "gzip_ok stored_compress stored_gunzip"
  by (simp add: gzip_ok_def stored_compress_def)

lemma stored_frame_ok [simp]: "frame_ok (ts, stored_compress [b])"
  by (simp add: frame_ok_def stored_compress_def MAX_COMPRESSED_RECORD_BYTES_def)

lemma stored_frame_length [simp]: "length (frame (ts, stored_compress [b])) = 14"
  by (simp add: length_frame header_size_def stored_compress_def)

text \<open>
  Claim C19. Every record whose append returned to its caller is read back, in order, from the file
  as it stands, after any sequence of failed appends, torn writes, crashes and repairs that stop
  half-way; no reading error ends the iteration.
\<close>

theorem acked_records_survive:
  assumes "reachable (log_init compress gz) (log_step compress gz) l"
  shows "\<exists>rs. iter_records gz (file_data (dl_file l)) = (rs, None) \<and> subseq (dl_acked l) rs"
proof -
  from log_sys.reachable_inv [OF assms] obtain fs tail
    where "frames_inv gz (dl_file l) fs tail" and "subseq (dl_acked l) (map (decoded gz) fs)"
    by (auto simp: log_inv_def)
  then show ?thesis by (auto simp: frames_inv_def iter_records_frames)
qed

definition torn_example :: durable_log where
  "torn_example = \<lparr>dl_file = \<lparr>content = Some (frame (1, stored_compress [7]) @ [0, 0, 0]),
      checkpoint = Some 14, sidecars = []\<rparr>, dl_needs_repair = True, dl_acked = [(1, [7])]\<rparr>"

lemma torn_example_reachable:
  "reachable (log_init stored_compress stored_gunzip) (log_step stored_compress stored_gunzip) torn_example"
proof -
  let ?c = stored_compress and ?g = stored_gunzip
  let ?l0 = "\<lparr>dl_file = empty_file, dl_needs_repair = False, dl_acked = []\<rparr>"
  let ?f1 = "\<lparr>content = Some (frame (1, ?c [7])), checkpoint = Some 14, sidecars = []\<rparr>"
  let ?io = "\<lparr>written = 14, fsync_ok = True, checkpoint_ok = True\<rparr>"
  have "reachable (log_init ?c ?g) (log_step ?c ?g) ?l0"
    by (rule reach_init) (simp add: log_init_def stored_gzip_ok)
  moreover have app: "append_record ?c ?io 1 [7] True empty_file = (None, ?f1)"
    by (simp add: append_record_small empty_file_def Let_def)
  then have "log_step ?c ?g ?l0 \<lparr>dl_file = ?f1, dl_needs_repair = False, dl_acked = [(1, [7])]\<rparr>"
    using log_append [of ?l0 ?c ?io 1 "[7]" None ?f1 ?g] by simp
  moreover have three: "take 3 (frame (2, ?c [8])) = [0, 0, 0]"
    by code_simp
  have "append_record ?c \<lparr>written = 3, fsync_ok = True, checkpoint_ok = True\<rparr> 2 [8] True ?f1 =
    (Some (ShortAppend 3 14), dl_file torn_example)"
    by (simp add: append_record_small Let_def torn_example_def three)
  then have "log_step ?c ?g \<lparr>dl_file = ?f1, dl_needs_repair = False, dl_acked = [(1, [7])]\<rparr> torn_example"
    using log_crash [of "\<lparr>dl_file = ?f1, dl_needs_repair = False, dl_acked = [(1, [7])]\<rparr>"]
    by (fastforce simp: torn_example_def)
  ultimately show ?thesis by (blast intro: reach_step)
qed

theorem acked_records_survive_witness:
  "\<exists>rs. iter_records stored_gunzip (file_data (dl_file torn_example)) = (rs, None) \<and>
     subseq [(1, [7])] rs"
  using acked_records_survive [OF torn_example_reachable] by (simp add: torn_example_def)

text \<open>
  Claim C21. A repair never discards a byte: whichever file operation it stops after, the main file
  is a prefix of what it was and any detached suffix is, whole, among the forensic sidecars, which
  keep everything they held.
\<close>

theorem repair_never_discards:
  assumes "content f = Some bs" and "repair_truncated_tail gz budget f = (res, f')"
  shows "\<exists>v. content f' = Some (take v bs) \<and> (v < length bs \<longrightarrow> drop v bs \<in> set (sidecars f')) \<and>
    set (sidecars f) \<subseteq> set (sidecars f')"
proof -
  have keep: "\<exists>v. content g = Some (take v bs) \<and> (v < length bs \<longrightarrow> drop v bs \<in> set (sidecars g)) \<and>
      set (sidecars f) \<subseteq> set (sidecars g)"
    if "content g = Some bs" "set (sidecars f) \<subseteq> set (sidecars g)" for g
    using that by (intro exI [of _ "length bs"]) auto
  show ?thesis
  proof (cases "repair_plan gz f")
    case (Inl e)
    with assms keep [of f] show ?thesis by (simp add: repair_truncated_tail_def)
  next
    case (Inr ops)
    then consider "ops = []" | n where "ops = [WriteCheckpoint n]"
      | n where "ops = [WriteSidecar (drop n bs), SyncDirectory, Truncate n, WriteCheckpoint n]"
      using assms(1) by (auto simp: repair_plan_def split: sum.splits option.splits if_splits)
    then show ?thesis
    proof cases
      case 1
      with Inr assms keep [of f] show ?thesis by (simp add: repair_truncated_tail_def)
    next
      case (2 n)
      with Inr assms have "content f' = Some bs" and "sidecars f' = sidecars f"
        by (auto simp: repair_truncated_tail_def take_Cons' split: if_splits)
      with keep [of f'] show ?thesis by simp
    next
      case (3 n)
      show ?thesis
      proof (cases "budget < 3")
        case True
        with 3 Inr assms have "content f' = Some bs" and "set (sidecars f) \<subseteq> set (sidecars f')"
          by (auto simp: repair_truncated_tail_def take_Cons' split: if_splits)
        with keep [of f'] show ?thesis by simp
      next
        case False
        with 3 Inr assms have "content f' = Some (take n bs)"
          and "sidecars f' = sidecars f @ [drop n bs]"
          by (auto simp: repair_truncated_tail_def take_Cons' split: if_splits)
        then show ?thesis by auto
      qed
    qed
  qed
qed

theorem repair_never_discards_witness:
  "\<exists>v. content (snd (repair_truncated_tail stored_gunzip 3 (dl_file torn_example))) =
       Some (take v (frame (1, stored_compress [7]) @ [0, 0, 0])) \<and>
     (v < 17 \<longrightarrow> drop v (frame (1, stored_compress [7]) @ [0, 0, 0]) \<in>
       set (sidecars (snd (repair_truncated_tail stored_gunzip 3 (dl_file torn_example)))))"
  using repair_never_discards [of "dl_file torn_example"
      "frame (1, stored_compress [7]) @ [0, 0, 0]" stored_gunzip 3]
  by (cases "repair_truncated_tail stored_gunzip 3 (dl_file torn_example)")
    (auto simp: torn_example_def)

text \<open>
  After a repair that ran to completion on a file in any such state, the file holds
  exactly complete, decodable records (the scan is clean and counts them all), and an append then
  adds its record after all of them.
\<close>

theorem repaired_log_appends:
  assumes "reachable (log_init compress gz) (log_step compress gz) l"
    and "4 \<le> budget" and "repair_truncated_tail gz budget (dl_file l) = (res, f)"
    and "append_record compress io ts raw True f = (None, f')"
  shows "\<exists>rs s. iter_records gz (file_data f) = (rs, None) \<and> subseq (dl_acked l) rs \<and>
    scan_raw_log gz True (file_data f) = Inr s \<and> clean s \<and> complete_records s = length rs \<and>
    iter_records gz (file_data f') = (rs @ [(ts, raw)], None)"
proof -
  from log_sys.reachable_inv [OF assms(1)] obtain fs tail
    where gz: "gzip_ok compress gz" and inv: "frames_inv gz (dl_file l) fs tail"
      and ack: "subseq (dl_acked l) (map (decoded gz) fs)"
    by (auto simp: log_inv_def)
  from repair_keeps_frames [OF inv assms(3)] repair_completes [OF inv assms(2)] assms(3)
  have f: "frames_inv gz f fs []" by auto
  from append_keeps_frames [OF gz f assms(4)]
  have f': "frames_inv gz f' (fs @ [(ts, compress raw)]) []" by auto
  have "decoded gz (ts, compress raw) = (ts, raw)"
    using gz by (simp add: gzip_ok_def decoded_def)
  with f' have "iter_records gz (file_data f') = (map (decoded gz) fs @ [(ts, raw)], None)"
    using iter_records_frames [of "fs @ [(ts, compress raw)]" gz "[]"] by (simp add: frames_inv_def)
  moreover have "iter_records gz (file_data f) = (map (decoded gz) fs, None)"
    using f iter_records_frames [of fs gz "[]"] by (simp add: frames_inv_def)
  moreover have "scan_raw_log gz True (file_data f) = Inr \<lparr>complete_records = length fs,
      valid_bytes = log_bytes fs, file_bytes = length (file_data f), clean = True\<rparr>"
    using scan_from_frames [OF f, of 0] by (simp add: scan_raw_log_from_0)
  ultimately show ?thesis using ack by simp
qed

theorem repaired_log_appends_witness:
  "\<exists>rs s. iter_records stored_gunzip (frame (1, stored_compress [7])) = (rs, None) \<and>
     subseq [(1, [7])] rs \<and> scan_raw_log stored_gunzip True (frame (1, stored_compress [7])) = Inr s \<and>
     clean s \<and> complete_records s = length rs \<and>
     iter_records stored_gunzip (frame (1, stored_compress [7]) @ frame (3, stored_compress [9])) =
       (rs @ [(3, [9])], None)"
proof -
  let ?f = "\<lparr>content = Some (frame (1, stored_compress [7])), checkpoint = Some 14, sidecars = [[0, 0, 0]]\<rparr>"
  let ?io = "\<lparr>written = 14, fsync_ok = True, checkpoint_ok = True\<rparr>"
  have plan: "repair_plan stored_gunzip (dl_file torn_example) =
    Inr [WriteSidecar [0, 0, 0], SyncDirectory, Truncate 14, WriteCheckpoint 14]"
    by code_simp
  then have rep: "repair_truncated_tail stored_gunzip 4 (dl_file torn_example) = (Inr True, ?f)"
    by (simp add: repair_truncated_tail_def torn_example_def)
  have app: "append_record stored_compress ?io 3 [9] True ?f =
    (None, ?f\<lparr>content := Some (frame (1, stored_compress [7]) @ frame (3, stored_compress [9])),
       checkpoint := Some 28\<rparr>)"
    by (simp add: append_record_small Let_def)
  show ?thesis
    using repaired_log_appends [OF torn_example_reachable order_refl rep app]
    by (simp add: torn_example_def)
qed

text \<open>
  The scan finds the longest prefix of complete records whose payloads decompress: the
  counted records are exactly those of that prefix, \<^verbatim>\<open>valid_bytes\<close> is its length, and the log is
  called clean only when the prefix is the whole file.
\<close>

theorem scan_finds_valid_prefix:
  assumes "scan_raw_log gz True bs = Inr s" and "unframe read_frame bs = (fs, tail)"
  shows "complete_records s = length (takeWhile (readable gz) fs) \<and>
    take (valid_bytes s) bs = concat (map frame (takeWhile (readable gz) fs)) \<and>
    valid_bytes s \<le> length bs \<and> file_bytes s = length bs \<and>
    (clean s \<longleftrightarrow> valid_bytes s = length bs)"
proof -
  let ?good = "takeWhile (readable gz) fs" and ?bad = "dropWhile (readable gz) fs"
  from rawf.unframe_sound [OF assms(2)] have bs: "bs = concat (map frame fs) @ tail" by simp
  have split: "concat (map frame fs) = concat (map frame ?good) @ concat (map frame ?bad)"
    by (metis concat_append map_append takeWhile_dropWhile_id)
  have s: "complete_records s = length ?good" "valid_bytes s = log_bytes ?good"
      "file_bytes s = length bs"
      "clean s = (?bad = [] \<and> tail = [] \<and> log_bytes ?good = length bs)"
    using assms(1) unfolding scan_raw_log_result [OF assms(2)] scan_result_def Let_def
    by (auto simp del: dropWhile_eq_Nil_conv split: list.splits if_splits)
  have prefix: "bs = concat (map frame ?good) @ concat (map frame ?bad) @ tail"
    using bs split by (simp only: append_assoc)
  have whole: "?bad = [] \<and> tail = []" if "log_bytes ?good = length bs"
  proof -
    have "length bs = log_bytes ?good + (log_bytes ?bad + length tail)"
      using arg_cong [OF prefix, of length] by (simp only: length_append)
    with that have "length tail = 0" and "log_bytes ?bad = 0" by linarith+
    then have "tail = []" and "concat (map frame ?bad) = []" by (simp_all only: length_0_conv)
    then show ?thesis by (cases ?bad)
      (simp_all only: concat.simps list.map append_is_Nil_conv frame_nonempty simp_thms)
  qed
  have "take (log_bytes ?good) bs = concat (map frame ?good)" and "log_bytes ?good \<le> length bs"
    using prefix by (metis append_eq_conv_conj, metis le_add1 length_append)
  moreover have "clean s = (log_bytes ?good = length bs)"
    using s(4) whole by blast
  ultimately show ?thesis
    by (simp only: s(1-3) simp_thms)
qed

theorem scan_finds_valid_prefix_witness:
  "\<exists>s. scan_raw_log stored_gunzip True (file_data (dl_file torn_example)) = Inr s \<and>
     complete_records s = 1 \<and> valid_bytes s = 14 \<and> \<not> clean s \<and>
     take (valid_bytes s) (file_data (dl_file torn_example)) = frame (1, stored_compress [7])"
proof -
  let ?bs = "file_data (dl_file torn_example)"
  have "read_frame [0, 0, 0] = None"
    by (simp add: read_frame_def header_size_def)
  then have frames: "unframe read_frame ?bs = ([(1, stored_compress [7])], [0, 0, 0])"
    using rawf.unframe_complete [of "[(1, stored_compress [7])]" "[0, 0, 0]"]
    by (simp add: torn_example_def)
  have "length ?bs = 17"
    by (simp add: torn_example_def)
  then have scan: "scan_raw_log stored_gunzip True ?bs =
    Inr \<lparr>complete_records = 1, valid_bytes = 14, file_bytes = 17, clean = False\<rparr>"
    by (simp add: scan_raw_log_result [OF frames] scan_result_def Let_def)
      (simp add: stored_compress_def)
  from scan_finds_valid_prefix [OF scan frames] scan show ?thesis
    by (simp add: stored_compress_def)
qed

text \<open>
  Validating only the bytes after a checkpoint finds the same boundary and the same
  verdict as validating the whole file, whenever the checkpoint is the end of a clean prefix.
\<close>

theorem checkpoint_scan_equals_full_scan:
  assumes "c \<le> length bs" and "scan_raw_log gz True (take c bs) = Inr s" and "clean s"
  shows "map_sum id (\<lambda>s. (valid_bytes s, clean s)) (scan_raw_log_from gz c bs) =
    map_sum id (\<lambda>s. (valid_bytes s, clean s)) (scan_raw_log gz True bs)"
proof -
  obtain fs tail where pre: "unframe read_frame (take c bs) = (fs, tail)" by fastforce
  obtain gs tail' where post: "unframe read_frame (drop c bs) = (gs, tail')" by fastforce
  have good: "list_all (readable gz) fs \<and> tail = []"
    using assms(2,3) unfolding scan_raw_log_result [OF pre] scan_result_def Let_def
    by (auto simp: list_all_iff split: list.splits if_splits)
  with rawf.unframe_sound [OF pre] have fs: "take c bs = concat (map frame fs)"
    and ok: "list_all frame_ok fs" by auto
  then have c: "c = log_bytes fs" using assms(1) by (metis length_take min.absorb2)
  have "bs = concat (map frame fs) @ drop c bs" by (metis append_take_drop_id fs)
  with rawf.unframe_complete [OF ok, of "drop c bs"] post
  have all: "unframe read_frame bs = (fs @ gs, tail')" by simp
  have "takeWhile (readable gz) (fs @ gs) = fs @ takeWhile (readable gz) gs"
    and "dropWhile (readable gz) (fs @ gs) = dropWhile (readable gz) gs"
    using good by (auto simp: list_all_iff intro: takeWhile_append2 dropWhile_append2)
  then show ?thesis
    unfolding scan_raw_log_from_def scan_loop_result [OF post] scan_raw_log_result [OF all]
    by (simp add: scan_result_def Let_def c del: dropWhile_eq_Nil_conv dropWhile_eq_Cons_conv
        split: list.split)
qed

theorem checkpoint_scan_equals_full_scan_witness:
  "map_sum id (\<lambda>s. (valid_bytes s, clean s)) (scan_raw_log_from stored_gunzip 14 (file_data (dl_file torn_example))) =
   map_sum id (\<lambda>s. (valid_bytes s, clean s)) (scan_raw_log stored_gunzip True (file_data (dl_file torn_example)))"
proof -
  have pre: "take 14 (file_data (dl_file torn_example)) = frame (1, stored_compress [7])"
    by (simp add: torn_example_def)
  have "unframe read_frame (frame (1, stored_compress [7])) = ([(1, stored_compress [7])], [])"
    using rawf.unframe_frames [of "[(1, stored_compress [7])]"] by simp
  from scan_raw_log_result [OF this]
  have scan: "scan_raw_log stored_gunzip True (take 14 (file_data (dl_file torn_example))) =
    Inr \<lparr>complete_records = 1, valid_bytes = 14, file_bytes = 14, clean = True\<rparr>"
    unfolding pre by (simp add: scan_result_def Let_def) (simp add: stored_compress_def)
  show ?thesis
    by (rule checkpoint_scan_equals_full_scan [OF _ scan]) (simp_all add: torn_example_def)
qed

text \<open>
  \<^verbatim>\<open>append_record\<close> never hits \<^verbatim>\<open>struct.error\<close>: the size guard keeps every length it
  packs below \<open>2 ^ 32\<close>, whatever the payload, the timestamp and the file.
\<close>

lemma append_record_length_fits:
  "fst (append_record compress io ts raw fsync f) \<noteq> Some StructError"
  by (cases "frame_ok (ts, compress raw)")
    (auto simp: append_record_small append_record_large Let_def)

text \<open>
  Claim C40. A complete record whose payload makes \<^verbatim>\<open>gzip.decompress\<close> raise \<^verbatim>\<open>zlib.error\<close> is not
  skipped: iteration stops there with the error, the scan raises it, and the repair raises it
  leaving the file unchanged (records after it stay unread, and nothing can be appended).
\<close>

theorem zlib_error_escapes:
  assumes "list_all frame_ok fs" and "list_all (readable gz) fs" and "frame_ok (ts, p)"
    and "gz p = Inl ZlibError" and "content f = Some (concat (map frame fs) @ frame (ts, p) @ rest)"
    and "checkpoint f = None"
  shows "iter_records gz (file_data f) = (map (decoded gz) fs, Some ZlibError) \<and>
    scan_raw_log gz True (file_data f) = Inl (GunzipError ZlibError) \<and>
    repair_truncated_tail gz budget f = (Inl (GunzipError ZlibError), f)"
proof -
  obtain gs tail where "unframe read_frame rest = (gs, tail)" by fastforce
  with rawf.unframe_complete [of "fs @ [(ts, p)]" rest] assms(1,3,5)
  have all: "unframe read_frame (file_data f) = (fs @ (ts, p) # gs, tail)" by simp
  have "takeWhile (readable gz) (fs @ (ts, p) # gs) = fs"
    and "dropWhile (readable gz) (fs @ (ts, p) # gs) = (ts, p) # gs"
    using assms(2,4) by (auto simp: list_all_iff takeWhile_tail dropWhile_append3)
  then have scan: "scan_raw_log gz True (file_data f) = Inl (GunzipError ZlibError)"
    using assms(4) by (simp add: scan_raw_log_result [OF all] scan_result_def)
  moreover have "repair_truncated_tail gz budget f = (Inl (GunzipError ZlibError), f)"
    using scan assms(5,6) by (simp add: repair_truncated_tail_def repair_plan_def repair_scan_def)
  moreover have "iter_records gz (file_data f) = (map (decoded gz) fs, Some ZlibError)"
    using assms(2,4) by (simp add: iter_records_deliver all deliver_append_readable)
  ultimately show ?thesis by simp
qed

theorem zlib_error_escapes_witness:
  "iter_records stored_gunzip (frame (1, stored_compress [7]) @ frame (2, [0]) @ frame (3, stored_compress [9])) =
     ([(1, [7])], Some ZlibError)"
proof -
  let ?f = "\<lparr>content = Some (frame (1, stored_compress [7]) @ frame (2, [0]) @ frame (3, stored_compress [9])),
      checkpoint = None, sidecars = []\<rparr>"
  have "frame_ok (2, [0])"
    by (simp add: frame_ok_def MAX_COMPRESSED_RECORD_BYTES_def)
  then show ?thesis
    using zlib_error_escapes [of "[(1, stored_compress [7])]" stored_gunzip 2 "[0]" ?f
        "frame (3, stored_compress [9])" 4]
    by simp (simp add: decoded_def stored_compress_def)
qed

end
