(* ===== verification/Presence.thy ===== *)
theory Presence
  imports Raw_Log Columns "HOL-Library.AList"
begin

section \<open>TripUpdates presence evidence (bkk_collector/realtime/tripupdate\_presence.py)\<close>

text \<open>
  Every valid full dataset is recorded as a baseline or as a difference to the previous one: which
  trips and stop visits entered and which withdrew, and which source timestamps changed. The records
  are JSON payloads of raw-log frames. A Python \<^verbatim>\<open>dict\<close> is an association list in insertion order, a
  Python \<^verbatim>\<open>set\<close> a list without duplicates whose order carries no meaning; \<open>json_key\<close> is the
  \<^verbatim>\<open>json.dumps\<close> by which \<^verbatim>\<open>_ordered\<close> sorts. The JSON text of a record is a parameter with
  its round trip as hypothesis.
\<close>

subsection \<open>Records\<close>

type_synonym ident = "pyval list"
type_synonym members = "(ident \<times> ident list) list"
type_synonym stamps = "(ident \<times> pyval) list"

definition PRESENCE_VERSION :: int where "PRESENCE_VERSION = 1"
definition SOURCE_TIMESTAMPS_VERSION :: int where "SOURCE_TIMESTAMPS_VERSION = 1"

definition TRIP_IDENTITY_FIELDS :: "string list" where
  "TRIP_IDENTITY_FIELDS = take 4 TRIP_UPDATE_KEY_FIELDS"

definition STOP_IDENTITY_FIELDS :: "string list" where
  "STOP_IDENTITY_FIELDS = drop 4 TRIP_UPDATE_KEY_FIELDS"

record presence_change =
  ch_trip :: ident
  ch_trip_entered :: bool
  ch_trip_withdrawn :: bool
  ch_entered_stops :: "ident list"
  ch_withdrawn_stops :: "ident list"

record presence_record =
  pr_context :: row
  pr_version :: int
  pr_run_id :: string
  pr_stream_id :: string
  pr_sequence :: int
  pr_kind :: string
  pr_baseline_reason :: "string option"
  pr_trip_identity_fields :: "string list"
  pr_stop_identity_fields :: "string list"
  pr_trip_count :: int
  pr_stop_count :: int
  pr_changes :: "presence_change list"
  pr_source_timestamps_version :: "int option"
  pr_source_timestamp_updates :: "(ident \<times> pyval) list"

datatype presence_error =
    UnsupportedRecord
  | InvalidTripIdentity
  | InvalidStopIdentity
  | TripEntersTwice
  | DeltaMismatch
  | WithdrawnTripRetainsStops
  | PresenceKeyError
  | CountMismatch
  | UnsupportedTimestamps
  | NoPrecedingBaseline
  | InvalidTimestampUpdate
  | TimestampCoverage
  | UnsupportedIncrementality
  | UnexpectedDeletion
  | PresenceWriteFailed log_error

definition presence_path :: "string \<Rightarrow> string" where
  "presence_path date = ''metadata/tripupdates_presence/date='' @ date @ ''/presence.jsonlog''"

subsection \<open>Replay\<close>

definition stop_count :: "members \<Rightarrow> int" where
  "stop_count ms = sum_list (map (\<lambda>(_, stops). int (length stops)) ms)"

text \<open>The loop over \<^verbatim>\<open>record["changes"]\<close>; \<open>changed\<close> holds the trips seen so far.\<close>

fun apply_changes :: "members \<Rightarrow> ident list \<Rightarrow> presence_change list \<Rightarrow> presence_error + members" where
  "apply_changes ms changed [] = Inr ms"
| "apply_changes ms changed (c # cs) =
     (let trip = ch_trip c;
          entered = remdups (ch_entered_stops c);
          withdrawn = remdups (ch_withdrawn_stops c)
      in if length trip \<noteq> length TRIP_IDENTITY_FIELDS \<or> trip \<in> set changed then Inl InvalidTripIdentity
         else if list_ex (\<lambda>s. length s \<noteq> length STOP_IDENTITY_FIELDS) (entered @ withdrawn)
         then Inl InvalidStopIdentity
         else if ch_trip_entered c \<and> map_of ms trip \<noteq> None then Inl TripEntersTwice
         else case (if ch_trip_entered c then Some [] else map_of ms trip) of
             None \<Rightarrow> Inl DeltaMismatch
           | Some old \<Rightarrow>
               if list_ex (\<lambda>s. s \<in> set old) entered \<or> \<not> list_all (\<lambda>s. s \<in> set old) withdrawn
               then Inl DeltaMismatch
               else let new = [s \<leftarrow> old. s \<notin> set withdrawn] @ entered
                 in if ch_trip_withdrawn c
                    then (if new \<noteq> [] then Inl WithdrawnTripRetainsStops
                          else if map_of ms trip = None then Inl PresenceKeyError
                          else apply_changes (AList.delete trip ms) (trip # changed) cs)
                    else apply_changes (AList.update trip new ms) (trip # changed) cs)"

definition apply_presence_record :: "members \<Rightarrow> presence_record \<Rightarrow> presence_error + members" where
  "apply_presence_record ms r =
     (if pr_version r \<noteq> PRESENCE_VERSION \<or> pr_trip_identity_fields r \<noteq> TRIP_IDENTITY_FIELDS
         \<or> pr_stop_identity_fields r \<noteq> STOP_IDENTITY_FIELDS
         \<or> pr_kind r \<notin> {''baseline'', ''delta''}
      then Inl UnsupportedRecord
      else case apply_changes (if pr_kind r = ''baseline'' then [] else ms) [] (pr_changes r) of
          Inl e \<Rightarrow> Inl e
        | Inr ms' \<Rightarrow>
            if int (length ms') \<noteq> pr_trip_count r \<or> stop_count ms' \<noteq> pr_stop_count r
            then Inl CountMismatch
            else Inr ms')"

definition valid_timestamp :: "pyval \<Rightarrow> bool" where
  "valid_timestamp v = (case v of PNone \<Rightarrow> True | PInt n \<Rightarrow> 0 \<le> n | _ \<Rightarrow> False)"

fun apply_timestamp_updates ::
  "members \<Rightarrow> stamps \<Rightarrow> ident list \<Rightarrow> (ident \<times> pyval) list \<Rightarrow> presence_error + stamps" where
  "apply_timestamp_updates ms ts seen [] = Inr ts"
| "apply_timestamp_updates ms ts seen ((trip, v) # us) =
     (if map_of ms trip = None \<or> trip \<in> set seen \<or> \<not> valid_timestamp v
      then Inl InvalidTimestampUpdate
      else apply_timestamp_updates ms (AList.update trip v ts) (trip # seen) us)"

definition drop_withdrawn :: "stamps \<Rightarrow> presence_change list \<Rightarrow> stamps" where
  "drop_withdrawn ts cs = foldl (\<lambda>ts c. if ch_trip_withdrawn c then AList.delete (ch_trip c) ts else ts) ts cs"

definition apply_source_timestamp_record ::
  "stamps option \<Rightarrow> presence_record \<Rightarrow> members \<Rightarrow> presence_error + stamps option" where
  "apply_source_timestamp_record timestamps r ms =
     (case pr_source_timestamps_version r of
        None \<Rightarrow> Inr None
      | Some v \<Rightarrow>
          if v \<noteq> SOURCE_TIMESTAMPS_VERSION then Inl UnsupportedTimestamps
          else case (if pr_kind r = ''baseline'' then Some [] else timestamps) of
              None \<Rightarrow> Inl NoPrecedingBaseline
            | Some ts0 \<Rightarrow>
                (case apply_timestamp_updates ms (drop_withdrawn ts0 (pr_changes r)) []
                        (pr_source_timestamp_updates r) of
                   Inl e \<Rightarrow> Inl e
                 | Inr ts \<Rightarrow>
                     if set (map fst ts) \<noteq> set (map fst ms) then Inl TimestampCoverage
                     else Inr (Some ts)))"

subsection \<open>Observation\<close>

record presence =
  pz_date :: "string option"
  pz_members :: "members option"
  pz_source_timestamps :: stamps
  pz_baseline_reason :: string
  pz_stream_id :: string
  pz_sequence :: int

definition fresh_presence :: "string \<Rightarrow> presence" where
  "fresh_presence uuid = \<lparr>pz_date = None, pz_members = None, pz_source_timestamps = [],
     pz_baseline_reason = ''process_start'', pz_stream_id = uuid, pz_sequence = 0\<rparr>"

definition invalidate :: "presence \<Rightarrow> string \<Rightarrow> presence" where
  "invalidate p reason = p\<lparr>pz_members := None, pz_baseline_reason := reason\<rparr>"

text \<open>The loop over the rows; \<open>None\<close> is the refusal of a deleted entity.\<close>

fun collect_rows :: "members \<Rightarrow> stamps \<Rightarrow> row list \<Rightarrow> (members \<times> stamps) option" where
  "collect_rows current stamps [] = Some (current, stamps)"
| "collect_rows current stamps (row # rows) =
     (if truthy (row_get row ''entity_is_deleted'') then None
      else let trip = row_tuple row TRIP_IDENTITY_FIELDS;
               stops = (case map_of current trip of Some ss \<Rightarrow> ss | None \<Rightarrow> []);
               stops' = (if row_get row ''stop_time_update_index'' \<noteq> PNone
                         then List.insert (row_tuple row STOP_IDENTITY_FIELDS) stops else stops)
           in collect_rows (AList.update trip stops' current)
                (AList.update trip (row_get row ''trip_update_timestamp'') stamps) rows)"

definition ordered :: "(ident \<Rightarrow> string) \<Rightarrow> ident list \<Rightarrow> ident list" where
  "ordered json_key xs = sort_key json_key xs"

definition stops_of :: "members \<Rightarrow> ident \<Rightarrow> ident list" where
  "stops_of ms trip = (case map_of ms trip of Some ss \<Rightarrow> ss | None \<Rightarrow> [])"

definition trip_change :: "(ident \<Rightarrow> string) \<Rightarrow> members \<Rightarrow> members \<Rightarrow> ident \<Rightarrow> presence_change" where
  "trip_change json_key previous current trip =
     \<lparr>ch_trip = trip, ch_trip_entered = (map_of previous trip = None),
      ch_trip_withdrawn = (map_of current trip = None),
      ch_entered_stops =
        ordered json_key [s \<leftarrow> stops_of current trip. s \<notin> set (stops_of previous trip)],
      ch_withdrawn_stops =
        ordered json_key [s \<leftarrow> stops_of previous trip. s \<notin> set (stops_of current trip)]\<rparr>"

definition nonempty_change :: "presence_change \<Rightarrow> bool" where
  "nonempty_change c \<longleftrightarrow> ch_entered_stops c \<noteq> [] \<or> ch_withdrawn_stops c \<noteq> []
     \<or> ch_trip_entered c \<or> ch_trip_withdrawn c"

definition all_trips :: "(ident \<Rightarrow> string) \<Rightarrow> members \<Rightarrow> members \<Rightarrow> ident list" where
  "all_trips json_key previous current = ordered json_key (remdups (map fst current @ map fst previous))"

definition build_record ::
  "(ident \<Rightarrow> string) \<Rightarrow> string \<Rightarrow> string \<Rightarrow> presence \<Rightarrow> row \<Rightarrow> members \<Rightarrow> stamps \<Rightarrow> presence_record" where
  "build_record json_key run_id uuid p context current stamps =
     (let baseline = (pz_members p = None);
          previous = (case pz_members p of Some ms \<Rightarrow> ms | None \<Rightarrow> []);
          trips = all_trips json_key previous current
      in \<lparr>pr_context = context, pr_version = PRESENCE_VERSION, pr_run_id = run_id,
          pr_stream_id = (if baseline then uuid else pz_stream_id p),
          pr_sequence = (if baseline then 1 else pz_sequence p + 1),
          pr_kind = (if baseline then ''baseline'' else ''delta''),
          pr_baseline_reason = (if baseline then Some (pz_baseline_reason p) else None),
          pr_trip_identity_fields = TRIP_IDENTITY_FIELDS,
          pr_stop_identity_fields = STOP_IDENTITY_FIELDS,
          pr_trip_count = int (length current), pr_stop_count = stop_count current,
          pr_changes = filter nonempty_change (map (trip_change json_key previous current) trips),
          pr_source_timestamps_version = Some SOURCE_TIMESTAMPS_VERSION,
          pr_source_timestamp_updates =
            map (\<lambda>t. (t, the (map_of stamps t)))
              [t \<leftarrow> trips. map_of current t \<noteq> None \<and>
                 (baseline \<or> map_of previous t = None \<or>
                  map_of stamps t \<noteq> Some (case map_of (pz_source_timestamps p) t of Some v \<Rightarrow> v | None \<Rightarrow> PNone))]\<rparr>)"

record persist_io =
  io_budget :: nat
  io_append :: append_io

definition persist ::
  "(bytes \<Rightarrow> bytes) \<Rightarrow> gunzip \<Rightarrow> persist_io \<Rightarrow> f64 \<Rightarrow> bytes \<Rightarrow> raw_file \<Rightarrow> log_error option \<times> raw_file" where
  "persist compress gz io ts payload f =
     (case repair_truncated_tail gz (io_budget io) f of
        (Inl e, f') \<Rightarrow> (Some e, f')
      | (Inr _, f') \<Rightarrow> append_record compress (io_append io) ts payload True f')"

text \<open>The dictionary that \<^verbatim>\<open>observe\<close> returns and the collector journals.\<close>

record presence_event =
  ev_path :: string
  ev_kind :: string
  ev_stream_id :: string
  ev_sequence :: int
  ev_present_trips :: int
  ev_present_stop_visits :: int
  ev_source_timestamps_version :: int

definition enter_date :: "presence \<Rightarrow> string \<Rightarrow> presence" where
  "enter_date p date =
     (if pz_date p \<noteq> Some date
      then p\<lparr>pz_baseline_reason :=
                (if pz_date p \<noteq> None then ''utc_date_boundary'' else pz_baseline_reason p),
             pz_date := Some date, pz_members := None\<rparr>
      else p)"

record codec =
  c_compress :: "bytes \<Rightarrow> bytes"
  c_gunzip :: gunzip
  c_encode :: "presence_record \<Rightarrow> bytes"
  c_decode :: "bytes \<Rightarrow> presence_record option"
  c_json_key :: "ident \<Rightarrow> string"

definition full_dataset :: "row \<Rightarrow> bool" where
  "full_dataset context = (case map_of context ''feed_incrementality'' of None \<Rightarrow> True | Some v \<Rightarrow> v = PInt 0)"

definition observe ::
  "codec \<Rightarrow> string \<Rightarrow> string \<Rightarrow> persist_io \<Rightarrow> row list \<Rightarrow> string \<Rightarrow> f64 \<Rightarrow> row \<Rightarrow> presence \<Rightarrow> raw_file \<Rightarrow>
   (presence_error + presence_event) \<times> presence \<times> raw_file" where
  "observe cd run_id uuid io rows date ts context p f =
     (if \<not> full_dataset context
      then (Inl UnsupportedIncrementality, invalidate p ''unsupported_incrementality'', f)
      else let p1 = enter_date p date in
        case collect_rows [] [] rows of
          None \<Rightarrow> (Inl UnexpectedDeletion, invalidate p1 ''unexpected_deletion'', f)
        | Some (current, stamps) \<Rightarrow>
            let r = build_record (c_json_key cd) run_id uuid p1 context current stamps
            in case persist (c_compress cd) (c_gunzip cd) io ts (c_encode cd r) f of
                (Some e, f') \<Rightarrow> (Inl (PresenceWriteFailed e), invalidate p1 ''presence_write_gap'', f')
              | (None, f') \<Rightarrow>
                  (Inr \<lparr>ev_path = presence_path date, ev_kind = pr_kind r, ev_stream_id = pr_stream_id r,
                        ev_sequence = pr_sequence r, ev_present_trips = pr_trip_count r,
                        ev_present_stop_visits = pr_stop_count r,
                        ev_source_timestamps_version = SOURCE_TIMESTAMPS_VERSION\<rparr>,
                   p1\<lparr>pz_members := Some current, pz_source_timestamps := stamps,
                      pz_stream_id := pr_stream_id r, pz_sequence := pr_sequence r\<rparr>, f'))"


subsection \<open>Memberships as maps to sets\<close>

definition look :: "members \<Rightarrow> ident \<Rightarrow> ident set option" where
  "look ms t = map_option set (map_of ms t)"

definition entry_ok :: "ident \<times> ident list \<Rightarrow> bool" where
  "entry_ok e \<longleftrightarrow> length (fst e) = length TRIP_IDENTITY_FIELDS \<and> distinct (snd e) \<and>
     list_all (\<lambda>s. length s = length STOP_IDENTITY_FIELDS) (snd e)"

definition members_ok :: "members \<Rightarrow> bool" where
  "members_ok ms \<longleftrightarrow> distinct (map fst ms) \<and> list_all entry_ok ms"

lemma map_of_look: "map_of ms t = None \<longleftrightarrow> look ms t = None" for ms :: members
  by (simp add: look_def)

lemma look_Nil [simp]: "look [] = Map.empty"
  by (simp add: look_def fun_eq_iff)

lemma look_update [simp]: "look (AList.update t ss ms) = (look ms)(t \<mapsto> set ss)"
  by (auto simp: look_def update_conv')

lemma look_delete [simp]: "look (AList.delete t ms) = (look ms)(t := None)"
  by (auto simp: look_def delete_conv')

lemma set_stops_of: "set (stops_of ms t) = (case look ms t of None \<Rightarrow> {} | Some S \<Rightarrow> S)"
  by (simp add: look_def stops_of_def split: option.split)

lemma members_ok_Nil [simp]: "members_ok []"
  by (simp add: members_ok_def)

lemma set_update: "set (AList.update k v al) \<subseteq> insert (k, v) (set al)"
  by (induction al) auto

lemma members_ok_update: "members_ok ms \<Longrightarrow> entry_ok (t, ss) \<Longrightarrow> members_ok (AList.update t ss ms)"
  using set_update [of t ss ms] by (auto simp: members_ok_def distinct_update list_all_iff)

lemma members_ok_delete: "members_ok ms \<Longrightarrow> members_ok (AList.delete t ms)"
  by (auto simp: members_ok_def AList.delete_eq distinct_map_filter list_all_iff)

lemma members_ok_entry: "members_ok ms \<Longrightarrow> map_of ms t = Some ss \<Longrightarrow> entry_ok (t, ss)"
  by (auto simp: members_ok_def list_all_iff dest: map_of_SomeD)

lemma dom_look: "dom (look ms) = fst ` set ms"
  by (simp add: dom_def look_def dom_map_of_conv_image_fst [symmetric])

lemma length_members: "members_ok ms \<Longrightarrow> length ms = card (dom (look ms))"
  using distinct_card [of "map fst ms"] by (simp add: members_ok_def dom_look)

lemma stop_count_look:
  assumes "members_ok ms"
  shows "stop_count ms = (\<Sum>t \<in> dom (look ms). int (card (the (look ms t))))"
proof -
  have "stop_count ms = sum_list (map (\<lambda>t. int (card (the (look ms t)))) (map fst ms))"
    unfolding stop_count_def map_map
  proof (intro arg_cong [of _ _ sum_list] map_cong refl)
    fix x
    assume x: "x \<in> set ms"
    obtain t ss where tss: "x = (t, ss)" by (cases x)
    with assms x have "map_of ms t = Some ss" "distinct ss"
      by (auto simp: members_ok_def list_all_iff entry_ok_def)
    then have "look ms t = Some (set ss)" and "card (set ss) = length ss"
      by (auto simp: look_def distinct_card)
    with tss show "(case x of (t, stops) \<Rightarrow> int (length stops)) = ((\<lambda>t. int (card (the (look ms t)))) \<circ> fst) x"
      by simp
  qed
  also have "... = (\<Sum>t \<in> dom (look ms). int (card (the (look ms t))))"
    using assms
    by (simp only: members_ok_def dom_look sum_list_distinct_conv_sum_set set_map)
  finally show ?thesis .
qed

subsection \<open>A record replays to what was observed\<close>

lemma set_ordered [simp]: "set (ordered k xs) = set xs"
  by (simp add: ordered_def)

lemma distinct_ordered [simp]: "distinct (ordered k xs) \<longleftrightarrow> distinct xs"
  by (simp add: ordered_def)

lemma stops_of_ok: "members_ok ms \<Longrightarrow> length t = length TRIP_IDENTITY_FIELDS \<Longrightarrow> entry_ok (t, stops_of ms t)"
  by (cases "map_of ms t") (auto simp: stops_of_def entry_ok_def [of "(t, [])"] intro: members_ok_entry)

lemma apply_change_step:
  fixes previous current :: members
  assumes prev: "members_ok previous" and cur: "members_ok current" and ms: "members_ok ms"
    and look: "look ms t = look previous t"
    and some: "map_of previous t \<noteq> None \<or> map_of current t \<noteq> None" and new: "t \<notin> set changed"
  shows "\<exists>ms'. apply_changes ms changed (trip_change k previous current t # cs) = apply_changes ms' (t # changed) cs \<and>
    members_ok ms' \<and> look ms' = (look ms)(t := look current t)"
proof -
  let ?c = "trip_change k previous current t"
  let ?in = "remdups (ch_entered_stops ?c)" and ?out = "remdups (ch_withdrawn_stops ?c)"
  have sets: "set ?in = set (stops_of current t) - set (stops_of previous t)"
    "set ?out = set (stops_of previous t) - set (stops_of current t)"
    by (auto simp: trip_change_def)
  have len: "length t = length TRIP_IDENTITY_FIELDS"
  proof -
    from some obtain ss where "map_of previous t = Some ss \<or> map_of current t = Some ss" by blast
    then have "entry_ok (t, ss)" using members_ok_entry prev cur by blast
    then show ?thesis by (simp add: entry_ok_def)
  qed
  note pok = stops_of_ok [OF prev len] and cok = stops_of_ok [OF cur len]
  have stops: "\<not> list_ex (\<lambda>s. length s \<noteq> length STOP_IDENTITY_FIELDS) (?in @ ?out)"
  proof -
    have "s \<in> set (stops_of current t) \<union> set (stops_of previous t)" if "s \<in> set (?in @ ?out)" for s
      using that sets by auto
    then show ?thesis using pok cok by (auto simp: entry_ok_def list_ex_iff list_all_iff simp del: set_remdups)
  qed
  have entered: "ch_trip_entered ?c \<longleftrightarrow> map_of ms t = None"
    using look by (simp add: trip_change_def map_of_look)
  obtain old where old: "(if ch_trip_entered ?c then Some [] else map_of ms t) = Some old"
    and old_set: "set old = set (stops_of previous t)" and old_dist: "distinct old"
  proof (cases "map_of ms t")
    case None
    with look have "look previous t = None" by (simp add: map_of_look)
    with that [of "[]"] entered None show ?thesis by (simp add: set_stops_of)
  next
    case (Some ss)
    then have "look previous t = Some (set ss)" using look by (metis look_def option.simps(9))
    then have "set ss = set (stops_of previous t)" by (simp add: set_stops_of)
    with that [of ss] entered Some members_ok_entry [OF ms Some] show ?thesis by (simp add: entry_ok_def)
  qed
  have match: "\<not> list_ex (\<lambda>s. s \<in> set old) ?in" "list_all (\<lambda>s. s \<in> set old) ?out"
    using sets old_set by (auto simp: list_ex_iff list_all_iff)
  let ?new = "[s \<leftarrow> old. s \<notin> set ?out] @ ?in"
  have new_set: "set ?new = set (stops_of current t)" using sets old_set by auto
  have "distinct ?new" using old_dist match(1) by (auto simp: list_ex_iff)
  moreover have "list_all (\<lambda>s. length s = length STOP_IDENTITY_FIELDS) ?new"
    using cok unfolding entry_ok_def list_all_iff new_set by simp
  ultimately have new_ok: "entry_ok (t, ?new)" using len by (simp add: entry_ok_def)
  show ?thesis
  proof (cases "map_of current t")
    case None
    then have "look ms t \<noteq> None" using some look by (simp add: map_of_look)
    then obtain ss where "map_of ms t = Some ss" by (cases "map_of ms t") (simp_all add: look_def)
    moreover obtain ps where "map_of previous t = Some ps" using some None by auto
    moreover have "?new = []" using new_set None by (simp add: stops_of_def)
    moreover have "ch_trip_withdrawn ?c" using None by (simp add: trip_change_def)
    ultimately have "apply_changes ms changed (?c # cs) = apply_changes (AList.delete t ms) (t # changed) cs"
      using len stops entered old match new by (simp add: Let_def trip_change_def)
    with None members_ok_delete [OF ms] show ?thesis by (intro exI) (auto simp: look_def [of current])
  next
    case (Some ss)
    then have "apply_changes ms changed (?c # cs) = apply_changes (AList.update t ?new ms) (t # changed) cs"
      using len stops entered old match new
      by (cases "map_of ms t"; cases "map_of previous t") (simp_all add: Let_def trip_change_def)
    moreover have "look current t = Some (set ?new)"
      using new_set Some by (simp add: look_def stops_of_def)
    ultimately show ?thesis using members_ok_update [OF ms new_ok] by (intro exI) auto
  qed
qed

lemma apply_changes_follow:
  assumes prev: "members_ok previous" and cur: "members_ok current"
  shows "members_ok ms \<Longrightarrow> distinct ts \<Longrightarrow> set ts \<inter> set changed = {} \<Longrightarrow>
    \<forall>t \<in> set ts. look ms t = look previous t \<and> (look previous t \<noteq> None \<or> look current t \<noteq> None) \<Longrightarrow>
    \<exists>ms'. apply_changes ms changed (filter nonempty_change (map (trip_change k previous current) ts)) = Inr ms' \<and>
      members_ok ms' \<and> (\<forall>t. look ms' t = (if t \<in> set ts then look current t else look ms t))"
proof (induction ts arbitrary: ms changed)
  case (Cons t ts)
  let ?c = "trip_change k previous current t"
  from Cons.prems have look: "look ms t = look previous t"
    and some: "map_of previous t \<noteq> None \<or> map_of current t \<noteq> None"
    and notch: "t \<notin> set changed" and nott: "t \<notin> set ts"
    and rest: "distinct ts" "set ts \<inter> set (t # changed) = {}" "set ts \<inter> set changed = {}"
    by (auto simp: map_of_look)
  show ?case
  proof (cases "nonempty_change ?c")
    case False
    then have "map_of previous t \<noteq> None" "map_of current t \<noteq> None"
      and "set (stops_of current t) \<subseteq> set (stops_of previous t)"
      and "set (stops_of previous t) \<subseteq> set (stops_of current t)"
      by (auto simp: nonempty_change_def trip_change_def ordered_def filter_empty_conv
          dest: arg_cong [of _ _ set])
    then have "look ms t = look current t"
      using look by (auto simp: look_def stops_of_def)
    with False Cons.IH [OF Cons.prems(1) rest(1,3)] Cons.prems(4) show ?thesis by auto
  next
    case True
    obtain ms' where step: "apply_changes ms changed (?c # filter nonempty_change (map (trip_change k previous current) ts))
        = apply_changes ms' (t # changed) (filter nonempty_change (map (trip_change k previous current) ts))"
      and ok: "members_ok ms'" and ms': "look ms' = (look ms)(t := look current t)"
      using apply_change_step [OF prev cur Cons.prems(1) look some notch] by blast
    have "\<forall>u \<in> set ts. look ms' u = look previous u \<and> (look previous u \<noteq> None \<or> look current u \<noteq> None)"
      using Cons.prems(4) nott ms' by auto
    from Cons.IH [OF ok rest(1,2) this] True step ms' show ?thesis by auto
  qed
qed simp


lemma collect_rows_Cons:
  "collect_rows current stamps (row # rows) = Some res \<longleftrightarrow>
     \<not> truthy (row_get row ''entity_is_deleted'') \<and>
     collect_rows
       (AList.update (row_tuple row TRIP_IDENTITY_FIELDS)
         (if row_get row ''stop_time_update_index'' \<noteq> PNone
          then List.insert (row_tuple row STOP_IDENTITY_FIELDS) (stops_of current (row_tuple row TRIP_IDENTITY_FIELDS))
          else stops_of current (row_tuple row TRIP_IDENTITY_FIELDS)) current)
       (AList.update (row_tuple row TRIP_IDENTITY_FIELDS) (row_get row ''trip_update_timestamp'') stamps)
       rows = Some res"
  by (simp add: Let_def stops_of_def)

declare collect_rows.simps(2) [simp del]

lemma collect_rows_ok:
  "collect_rows current stamps rows = Some (current', stamps') \<Longrightarrow> members_ok current \<Longrightarrow>
     dom (map_of stamps) = dom (look current) \<Longrightarrow> members_ok current' \<and> dom (map_of stamps') = dom (look current')"
proof (induction rows arbitrary: current stamps)
  case (Cons row rows)
  let ?t = "row_tuple row TRIP_IDENTITY_FIELDS"
  let ?ss = "if row_get row ''stop_time_update_index'' \<noteq> PNone
    then List.insert (row_tuple row STOP_IDENTITY_FIELDS) (stops_of current ?t) else stops_of current ?t"
  from Cons.prems(1) have rec: "collect_rows (AList.update ?t ?ss current)
      (AList.update ?t (row_get row ''trip_update_timestamp'') stamps) rows = Some (current', stamps')"
    unfolding collect_rows_Cons by (rule conjunct2)
  have "entry_ok (?t, ?ss)"
    using stops_of_ok [OF Cons.prems(2), of ?t] by (auto simp: entry_ok_def list_all_iff)
  then have ok: "members_ok (AList.update ?t ?ss current)" by (rule members_ok_update [OF Cons.prems(2)])
  have "dom (map_of (AList.update ?t (row_get row ''trip_update_timestamp'') stamps)) =
      dom (look (AList.update ?t ?ss current))"
    using Cons.prems(3) by (simp add: update_conv' del: fun_upd_apply)
  from Cons.IH [OF rec ok this] show ?case .
qed simp

definition stamps_ok :: "stamps \<Rightarrow> bool" where
  "stamps_ok stamps \<longleftrightarrow> list_all (\<lambda>e. valid_timestamp (snd e)) stamps"

definition rows_stamped :: "row list \<Rightarrow> bool" where
  "rows_stamped rows \<longleftrightarrow> list_all (\<lambda>row. valid_timestamp (row_get row ''trip_update_timestamp'')) rows"

lemma collect_rows_stamps:
  "collect_rows current stamps rows = Some (current', stamps') \<Longrightarrow> rows_stamped rows \<Longrightarrow> stamps_ok stamps \<Longrightarrow>
     stamps_ok stamps'"
proof (induction rows arbitrary: current stamps)
  case (Cons row rows)
  have "stamps_ok (AList.update (row_tuple row TRIP_IDENTITY_FIELDS) (row_get row ''trip_update_timestamp'') stamps)"
    using Cons.prems(2,3) set_update by (fastforce simp: stamps_ok_def rows_stamped_def list_all_iff)
  with Cons show ?case by (auto simp: collect_rows_Cons rows_stamped_def)
qed simp

lemma apply_timestamp_updates_follow:
  "list_all (\<lambda>u. map_of ms (fst u) \<noteq> None \<and> valid_timestamp (snd u)) us \<Longrightarrow> distinct (map fst us) \<Longrightarrow>
     fst ` set us \<inter> set seen = {} \<Longrightarrow>
     \<exists>ts'. apply_timestamp_updates ms ts seen us = Inr ts' \<and> map_of ts' = map_of ts ++ map_of us"
proof (induction us arbitrary: ts seen)
  case (Cons u us)
  obtain t v where u: "u = (t, v)" by (cases u)
  have disjoint: "fst ` set us \<inter> set (t # seen) = {}" using Cons.prems(2,3) u by auto
  from Cons.prems obtain ts' where "apply_timestamp_updates ms (AList.update t v ts) (t # seen) us = Inr ts'"
    and ts': "map_of ts' = map_of (AList.update t v ts) ++ map_of us"
    using Cons.IH [OF _ _ disjoint, of "AList.update t v ts"] by auto
  then have "apply_timestamp_updates ms ts seen (u # us) = Inr ts'" using Cons.prems u by auto
  moreover have "map_of us t = None" using Cons.prems(2) u by (simp add: map_of_eq_None_iff)
  then have "map_of (AList.update t v ts) ++ map_of us = map_of ts ++ map_of (u # us)"
    by (auto simp: u map_add_def update_conv' fun_eq_iff split: option.split)
  ultimately show ?case using ts' by metis
qed simp

lemma drop_withdrawn_lookup:
  "map_of (drop_withdrawn ts cs) t =
     (if list_ex (\<lambda>c. ch_trip c = t \<and> ch_trip_withdrawn c) cs then None else map_of ts t)"
  unfolding drop_withdrawn_def
  by (induction cs arbitrary: ts) (auto simp: delete_conv')

text \<open>The replayer's state follows the observer's, as far as the observer knows anything.\<close>

definition tracks :: "presence \<Rightarrow> members \<Rightarrow> stamps option \<Rightarrow> bool" where
  "tracks p ms tss \<longleftrightarrow>
     (case pz_members p of
        None \<Rightarrow> True
      | Some prev \<Rightarrow> members_ok prev \<and> members_ok ms \<and> look ms = look prev \<and>
          (case tss of None \<Rightarrow> False
           | Some ts \<Rightarrow> map_of ts = map_of (pz_source_timestamps p) \<and> dom (map_of ts) = dom (look prev)))"


lemma all_trips_ok:
  assumes "members_ok previous" and "members_ok current"
  shows "distinct (all_trips k previous current)"
    and "set (all_trips k previous current) = dom (look previous) \<union> dom (look current)"
  by (auto simp: all_trips_def dom_look)

lemma changes_replay:
  assumes "members_ok previous" and "members_ok current" and "members_ok ms" and "look ms = look previous"
  shows "\<exists>ms'. apply_changes ms []
      (filter nonempty_change (map (trip_change k previous current) (all_trips k previous current))) = Inr ms' \<and>
    members_ok ms' \<and> look ms' = look current"
proof -
  let ?ts = "all_trips k previous current"
  have "\<forall>t \<in> set ?ts. look ms t = look previous t \<and> (look previous t \<noteq> None \<or> look current t \<noteq> None)"
    unfolding all_trips_ok(2) [OF assms(1,2)] assms(4) by blast
  from apply_changes_follow [OF assms(1,2,3) all_trips_ok(1) [OF assms(1,2)] _ this, of "[]"] obtain ms' where
      app: "apply_changes ms [] (filter nonempty_change (map (trip_change k previous current) ?ts)) = Inr ms'"
    and ok: "members_ok ms'"
    and look': "\<And>t. look ms' t = (if t \<in> set ?ts then look current t else look ms t)" by auto
  have "look ms' t = look current t" for t
    using look' [of t] assms(4) unfolding all_trips_ok(2) [OF assms(1,2)]
    by (cases "look previous t"; cases "look current t") (auto simp: domIff)
  with app ok show ?thesis by blast
qed

lemma stamps_replay:
  fixes ms :: members
  assumes prev: "members_ok previous" and cur: "members_ok current"
    and ms: "look ms = look current"
    and ts: "dom (map_of ts) = dom (look previous)"
    and known: "previous \<noteq> [] \<Longrightarrow> map_of ts = map_of old"
    and stamps: "dom (map_of stamps) = dom (look current)" "stamps_ok stamps"
    and baseline: "baseline \<Longrightarrow> previous = []"
  shows "\<exists>ts'. apply_timestamp_updates ms
      (drop_withdrawn ts (filter nonempty_change (map (trip_change k previous current) (all_trips k previous current)))) []
      (map (\<lambda>t. (t, the (map_of stamps t)))
         [t \<leftarrow> all_trips k previous current. map_of current t \<noteq> None \<and>
            (baseline \<or> map_of previous t = None \<or>
             map_of stamps t \<noteq> Some (case map_of old t of Some v \<Rightarrow> v | None \<Rightarrow> PNone))]) = Inr ts' \<and>
    map_of ts' = map_of stamps"
proof -
  let ?trips = "all_trips k previous current"
  let ?cs = "filter nonempty_change (map (trip_change k previous current) ?trips)"
  define P where "P t \<longleftrightarrow> map_of current t \<noteq> None \<and> (baseline \<or> map_of previous t = None \<or>
    map_of stamps t \<noteq> Some (case map_of old t of Some v \<Rightarrow> v | None \<Rightarrow> PNone))" for t
  let ?us = "map (\<lambda>t. (t, the (map_of stamps t))) (filter P ?trips)"
  note trips = all_trips_ok [OF prev cur, of k]
  have valid: "map_of ms t \<noteq> None \<and> valid_timestamp (the (map_of stamps t))" if "P t" for t
  proof -
    from that have t: "t \<in> dom (look current)" by (simp add: P_def map_of_look domIff)
    then obtain v where v: "map_of stamps t = Some v" using stamps(1) by blast
    from map_of_SomeD [OF v] stamps(2) have "valid_timestamp v" by (auto simp: stamps_ok_def list_all_iff)
    with v t ms show ?thesis by (simp add: map_of_look domIff)
  qed
  have us: "list_all (\<lambda>u. map_of ms (fst u) \<noteq> None \<and> valid_timestamp (snd u)) ?us"
    using valid by (auto simp: list_all_iff)
  have keys: "map fst ?us = filter P ?trips" by (simp add: comp_def)
  have "distinct (map fst ?us)" using trips(1) keys by simp
  from apply_timestamp_updates_follow [OF us this, of "[]" "drop_withdrawn ts ?cs"] obtain ts' where
      app: "apply_timestamp_updates ms (drop_withdrawn ts ?cs) [] ?us = Inr ts'"
    and ts': "map_of ts' = map_of (drop_withdrawn ts ?cs) ++ map_of ?us" by auto
  have withdrawn: "list_ex (\<lambda>c. ch_trip c = t \<and> ch_trip_withdrawn c) ?cs \<longleftrightarrow>
      look previous t \<noteq> None \<and> look current t = None" for t
    using trips(2) by (auto simp: list_ex_iff trip_change_def nonempty_change_def map_of_look)
  have upd: "map_of ?us t = (if P t then Some (the (map_of stamps t)) else None)" for t
  proof (cases "t \<in> set ?trips")
    case True
    then show ?thesis by (simp add: map_of_map_restrict restrict_map_def)
  next
    case False
    then have "\<not> P t" using trips(2) by (auto simp: P_def map_of_look)
    with False show ?thesis by (simp add: map_of_map_restrict restrict_map_def)
  qed
  have "map_of ts' t = map_of stamps t" for t
  proof (cases "P t")
    case True
    then have "t \<in> dom (map_of stamps)" using stamps(1) by (simp add: P_def map_of_look domIff)
    with True show ?thesis by (auto simp: ts' upd map_add_def)
  next
    case no: False
    then have eq: "map_of ts' t = map_of (drop_withdrawn ts ?cs) t" by (simp add: ts' upd map_add_def)
    show ?thesis
    proof (cases "look current t")
      case None
      then have "map_of stamps t = None" "map_of (drop_withdrawn ts ?cs) t = None"
        using stamps(1) ts by (auto simp: drop_withdrawn_lookup withdrawn domIff set_eq_iff [of "dom _"] simp del: not_None_eq)
      with eq show ?thesis by simp
    next
      case (Some S)
      with no have "look previous t \<noteq> None"
        and s: "map_of stamps t = Some (case map_of old t of Some v \<Rightarrow> v | None \<Rightarrow> PNone)"
        by (auto simp: P_def map_of_look)
      then have "t \<in> dom (map_of ts)" and "previous \<noteq> []" using ts by (auto simp: domIff)
      note known = known [OF this(2)] and this(1)
      then have "map_of ts t = map_of stamps t" using s known by auto
      with eq Some show ?thesis by (simp add: drop_withdrawn_lookup withdrawn)
    qed
  qed
  with app show ?thesis unfolding P_def by blast
qed


text \<open>A record built from a collected dataset replays, from a state that tracks the observer.\<close>

lemma build_record_replays:
  assumes tracks: "tracks p ms tss" and cur: "members_ok current"
    and stamps: "dom (map_of stamps) = dom (look current)" "stamps_ok stamps"
    and r: "r = build_record k run_id uuid p context current stamps"
  shows "\<exists>ms' ts'. apply_presence_record ms r = Inr ms' \<and>
    apply_source_timestamp_record tss r ms' = Inr (Some ts') \<and>
    members_ok ms' \<and> look ms' = look current \<and> map_of ts' = map_of stamps"
proof -
  let ?base = "pz_members p = None"
  let ?prev = "case pz_members p of Some ms \<Rightarrow> ms | None \<Rightarrow> []"
  let ?ms = "if ?base then [] else ms"
  obtain ts where ts: "(if ?base then Some [] else tss) = Some ts"
    using tracks by (auto simp: tracks_def split: option.splits)
  have ok: "members_ok ?prev" "members_ok ?ms" "look ?ms = look ?prev"
    using tracks by (auto simp: tracks_def split: option.splits)
  have dom_ts: "dom (map_of ts) = dom (look ?prev)"
    using tracks ts by (cases "pz_members p"; cases tss) (simp_all add: tracks_def look_def)
  have known: "?prev \<noteq> [] \<Longrightarrow> map_of ts = map_of (pz_source_timestamps p)"
    using tracks ts by (cases "pz_members p"; cases tss) (simp_all add: tracks_def)
  from changes_replay [OF ok(1) cur ok(2,3), of k] obtain ms' where
    app: "apply_changes ?ms [] (pr_changes r) = Inr ms'" and ms': "members_ok ms'" "look ms' = look current"
    by (auto simp: r build_record_def Let_def)
  from stamps_replay [OF ok(1) cur ms'(2) dom_ts known stamps, of ?base k] obtain ts' where
    upd: "apply_timestamp_updates ms' (drop_withdrawn ts (pr_changes r)) [] (pr_source_timestamp_updates r) = Inr ts'"
    and ts': "map_of ts' = map_of stamps"
    by (cases "pz_members p") (auto simp: r build_record_def Let_def)
  have "length ms' = length current" "stop_count ms' = stop_count current"
    using ms' cur by (simp_all add: length_members stop_count_look)
  with app have "apply_presence_record ms r = Inr ms'"
    by (cases "pz_members p") (auto simp: apply_presence_record_def r build_record_def Let_def)
  moreover have "set (map fst ts') = set (map fst ms')"
    using ts' stamps(1) ms'(2) dom_look [of ms'] by (simp add: dom_map_of_conv_image_fst [symmetric])
  with upd ts have "apply_source_timestamp_record tss r ms' = Inr (Some ts')"
    by (cases "pz_members p") (auto simp: apply_source_timestamp_record_def r build_record_def Let_def)
  ultimately show ?thesis using ms' ts' by blast
qed

end
