(* ===== verification/Presence_Audit.thy ===== *)
theory Presence_Audit
  imports Presence "HOL-Library.Countable"
begin

section \<open>Auditing a day of presence evidence (bkk_collector/archive/manifests.py)\<close>

text \<open>
  \<^verbatim>\<open>_presence_stats\<close> replays the presence log of a date, checks the chain of streams and sequence
  numbers, and compares it with what the poll journal promised. The exceptions of its loop are
  values: \<open>replay_step\<close> returns the state with the updates made before the exception, as the
  function's local variables keep them. The main results say that the observer's log passes, after
  any failures and once a torn tail is repaired, and that the replay gives back what was observed.
\<close>

subsection \<open>The audit\<close>

datatype audit_error =
    BaselineSequence
  | SequenceGap
  | Replay presence_error
  | TimestampEvidenceMismatch
  | MissingPollId
  | DuplicatePollId
  | InvalidTail
  | ScanRaised log_error
  | ReadRaised gunzip_error
  | InvalidPayload

record replay_state =
  rs_members :: members
  rs_stamps :: "stamps option"
  rs_stream :: "string option"
  rs_sequence :: int
  rs_seen :: "(pyval \<times> string \<times> int) list"
  rs_count :: int
  rs_baselines :: int
  rs_timestamp_observations :: int

definition replay_init :: replay_state where
  "replay_init = \<lparr>rs_members = [], rs_stamps = None, rs_stream = None, rs_sequence = 0, rs_seen = [],
     rs_count = 0, rs_baselines = 0, rs_timestamp_observations = 0\<rparr>"

text \<open>The journal events whose presence record must exist, by poll id; the last one counts.\<close>

definition promised :: "row list \<Rightarrow> (pyval \<times> row) list" where
  "promised events = rev (map (\<lambda>e. (row_get e ''poll_id'', e))
     [e \<leftarrow> events. truthy (row_get e ''presence_required'') \<and> row_get e ''presence_ok'' = PBool True])"

definition timestamps_promise_kept :: "row list \<Rightarrow> pyval \<Rightarrow> presence_record \<Rightarrow> bool" where
  "timestamps_promise_kept events poll_id r =
     (let e = (case map_of (promised events) poll_id of Some e \<Rightarrow> e | None \<Rightarrow> []);
          v = row_get e ''presence_source_timestamps_version''
      in v = PNone \<or>
         v = (case pr_source_timestamps_version r of None \<Rightarrow> PNone | Some n \<Rightarrow> PInt n))"

definition replay_step :: "row list \<Rightarrow> replay_state \<Rightarrow> presence_record \<Rightarrow> audit_error option \<times> replay_state" where
  "replay_step events st r =
     (if pr_kind r = ''baseline'' \<and> pr_sequence r \<noteq> 1 then (Some BaselineSequence, st)
      else let st1 = (if pr_kind r = ''baseline''
                      then st\<lparr>rs_stream := Some (pr_stream_id r), rs_sequence := 0,
                              rs_baselines := rs_baselines st + 1\<rparr>
                      else st)
        in if rs_stream st1 \<noteq> Some (pr_stream_id r) \<or> pr_sequence r \<noteq> rs_sequence st1 + 1
           then (Some SequenceGap, st1)
           else case apply_presence_record (rs_members st1) r of
               Inl e \<Rightarrow> (Some (Replay e), st1)
             | Inr ms \<Rightarrow>
                 let st2 = st1\<lparr>rs_members := ms\<rparr>
                 in case apply_source_timestamp_record (rs_stamps st2) r ms of
                     Inl e \<Rightarrow> (Some (Replay e), st2)
                   | Inr ts \<Rightarrow>
                       let st3 = st2\<lparr>rs_stamps := ts, rs_timestamp_observations :=
                                       rs_timestamp_observations st2 + (if ts \<noteq> None then 1 else 0)\<rparr>
                       in case map_of (pr_context r) ''poll_id'' of
                           None \<Rightarrow> (Some MissingPollId, st3)
                         | Some poll_id \<Rightarrow>
                             if \<not> timestamps_promise_kept events poll_id r
                             then (Some TimestampEvidenceMismatch, st3)
                             else let st4 = st3\<lparr>rs_sequence := pr_sequence r\<rparr>
                               in if map_of (rs_seen st4) poll_id \<noteq> None then (Some DuplicatePollId, st4)
                                  else (None, st4\<lparr>rs_seen :=
                                          (poll_id, the (rs_stream st4), rs_sequence st4) # rs_seen st4,
                                        rs_count := rs_count st4 + 1\<rparr>))"

fun replay_payloads ::
  "(bytes \<Rightarrow> presence_record option) \<Rightarrow> row list \<Rightarrow> replay_state \<Rightarrow> (f64 \<times> bytes) list \<Rightarrow>
   audit_error option \<times> replay_state" where
  "replay_payloads dec events st [] = (None, st)"
| "replay_payloads dec events st ((ts, payload) # ps) =
     (case dec payload of
        None \<Rightarrow> (Some InvalidPayload, st)
      | Some r \<Rightarrow>
          (case replay_step events st r of
             (Some e, st') \<Rightarrow> (Some e, st')
           | (None, st') \<Rightarrow> replay_payloads dec events st' ps))"

definition replay_log ::
  "gunzip \<Rightarrow> (bytes \<Rightarrow> presence_record option) \<Rightarrow> row list \<Rightarrow> raw_file \<Rightarrow> audit_error option \<times> replay_state" where
  "replay_log gz dec events f =
     (case content f of
        None \<Rightarrow> (None, replay_init)
      | Some bs \<Rightarrow>
          (case scan_raw_log gz True bs of
             Inl e \<Rightarrow> (Some (ScanRaised e), replay_init)
           | Inr s \<Rightarrow>
               if \<not> clean s then (Some InvalidTail, replay_init)
               else (case iter_records gz bs of (rs, stop) \<Rightarrow>
                 (case replay_payloads dec events replay_init rs of
                    (Some e, st) \<Rightarrow> (Some e, st)
                  | (None, st) \<Rightarrow> (map_option ReadRaised stop, st)))))"

datatype presence_issue =
    ReplayError audit_error
  | PromiseMissing
  | UnavailablePolls int
  | RecoveredTail
  | MixedVersionDate int

record presence_stats =
  expected_observations :: int
  journal_confirmed_observations :: int
  ps_records :: int
  ps_baselines :: int
  legacy_pre_presence_polls :: int
  source_timestamp_observations :: int
  unavailable_observations :: int

definition promise_of :: "row \<Rightarrow> pyval \<times> pyval" where
  "promise_of e = (row_get e ''presence_stream_id'', row_get e ''presence_sequence'')"

definition promise_met :: "replay_state \<Rightarrow> pyval \<times> row \<Rightarrow> bool" where
  "promise_met st p =
     (case map_of (rs_seen st) (fst p) of
        None \<Rightarrow> False
      | Some (stream, sequence) \<Rightarrow> promise_of (snd p) = (PStr stream, PInt sequence))"

definition presence_stats ::
  "gunzip \<Rightarrow> (bytes \<Rightarrow> presence_record option) \<Rightarrow> row list \<Rightarrow> raw_file \<Rightarrow>
   presence_stats \<times> presence_issue list \<times> presence_issue list" where
  "presence_stats gz dec events f =
     (let ps = AList.clearjunk (promised events);
          expected = int (length [e \<leftarrow> events. truthy (row_get e ''presence_required'')
                                    \<and> truthy (row_get e ''parse_ok'')]);
          (err, st) = replay_log gz dec events f;
          unavailable = expected - int (length ps);
          legacy = int (length [e \<leftarrow> events. truthy (row_get e ''parse_ok'')
                                  \<and> \<not> truthy (row_get e ''presence_required'')])
      in (\<lparr>expected_observations = expected, journal_confirmed_observations = int (length ps),
           ps_records = rs_count st, ps_baselines = rs_baselines st, legacy_pre_presence_polls = legacy,
           source_timestamp_observations = rs_timestamp_observations st,
           unavailable_observations = unavailable\<rparr>,
          (case err of None \<Rightarrow> [] | Some e \<Rightarrow> [ReplayError e]) @
          (if list_ex (\<lambda>p. \<not> promise_met st p) ps then [PromiseMissing] else []),
          (if unavailable \<noteq> 0 then [UnavailablePolls unavailable] else []) @
          (if sidecars f \<noteq> [] then [RecoveredTail] else []) @
          (if expected \<noteq> 0 \<and> legacy \<noteq> 0 then [MixedVersionDate legacy] else [])))"


subsection \<open>The log as an evidence stream\<close>

definition promising :: "row \<Rightarrow> bool" where
  "promising e \<longleftrightarrow> truthy (row_get e ''presence_required'') \<and> row_get e ''presence_ok'' = PBool True"

definition events_ok :: "row list \<Rightarrow> bool" where
  "events_ok events \<longleftrightarrow> list_all (\<lambda>e. promising e \<longrightarrow>
     row_get e ''presence_source_timestamps_version'' = PInt SOURCE_TIMESTAMPS_VERSION) events"

text \<open>
  The observer with the poll ids used so far: it produces the record of a collected dataset under a
  new poll id, and it forgets when its members become unknown.
\<close>

type_synonym observer = "presence \<times> pyval list"

definition poll_id_of :: "presence_record \<Rightarrow> pyval" where
  "poll_id_of r = the (map_of (pr_context r) ''poll_id'')"

definition presence_produces :: "observer \<Rightarrow> presence_record \<Rightarrow> observer \<Rightarrow> bool" where
  "presence_produces s r s' \<longleftrightarrow>
     (\<exists>current stamps k run_id uuid context poll_id.
        members_ok current \<and> dom (map_of stamps) = dom (look current) \<and> stamps_ok stamps \<and>
        r = build_record k run_id uuid (fst s) context current stamps \<and>
        map_of context ''poll_id'' = Some poll_id \<and> poll_id \<notin> set (snd s) \<and> snd s' = poll_id # snd s \<and>
        pz_members (fst s') = Some current \<and> pz_source_timestamps (fst s') = stamps \<and>
        pz_stream_id (fst s') = pr_stream_id r \<and> pz_sequence (fst s') = pr_sequence r)"

definition presence_forgets :: "observer \<Rightarrow> observer \<Rightarrow> bool" where
  "presence_forgets s s' \<longleftrightarrow> pz_members (fst s') = None \<and> set (snd s) \<subseteq> set (snd s')"

definition audit_tracks :: "row list \<Rightarrow> observer \<Rightarrow> replay_state \<Rightarrow> bool" where
  "audit_tracks events s st \<longleftrightarrow>
     events_ok events \<and> tracks (fst s) (rs_members st) (rs_stamps st) \<and>
     (pz_members (fst s) = None \<or>
        rs_stream st = Some (pz_stream_id (fst s)) \<and> rs_sequence st = pz_sequence (fst s)) \<and>
     fst ` set (rs_seen st) \<subseteq> set (snd s)"

definition audit_replay :: "row list \<Rightarrow> replay_state \<Rightarrow> presence_record \<Rightarrow> replay_state option" where
  "audit_replay events st r = (case replay_step events st r of (None, st') \<Rightarrow> Some st' | (Some _, _) \<Rightarrow> None)"

lemma promise_kept:
  assumes "events_ok events" and "pr_source_timestamps_version r = Some SOURCE_TIMESTAMPS_VERSION"
  shows "timestamps_promise_kept events poll_id r"
proof (cases "map_of (promised events) poll_id")
  case None
  then show ?thesis by (simp add: timestamps_promise_kept_def row_get_def)
next
  case (Some e)
  from map_of_SomeD [OF Some] have "e \<in> set events \<and> promising e"
    by (auto simp: promised_def promising_def)
  with assms Some show ?thesis
    by (auto simp: timestamps_promise_kept_def events_ok_def list_all_iff)
qed

lemma build_record_fields [simp]:
  "pr_source_timestamps_version (build_record k run_id uuid p context current stamps) = Some SOURCE_TIMESTAMPS_VERSION"
  "pr_context (build_record k run_id uuid p context current stamps) = context"
  "pr_kind (build_record k run_id uuid p context current stamps) =
     (if pz_members p = None then ''baseline'' else ''delta'')"
  "pr_sequence (build_record k run_id uuid p context current stamps) =
     (if pz_members p = None then 1 else pz_sequence p + 1)"
  "pr_stream_id (build_record k run_id uuid p context current stamps) =
     (if pz_members p = None then uuid else pz_stream_id p)"
  by (simp_all add: build_record_def Let_def)

lemma audit_replays_record:
  assumes tr: "audit_tracks events s st" and prod: "presence_produces s r s'"
  shows "\<exists>st'. audit_replay events st r = Some st' \<and> audit_tracks events s' st' \<and>
    rs_seen st' = (poll_id_of r, pr_stream_id r, pr_sequence r) # rs_seen st"
proof -
  from prod obtain current stamps k run_id uuid ctx poll_id where
    cur: "members_ok current" "dom (map_of stamps) = dom (look current)" "stamps_ok stamps"
    and r: "r = build_record k run_id uuid (fst s) ctx current stamps"
    and pid: "map_of ctx ''poll_id'' = Some poll_id" "poll_id \<notin> set (snd s)" "snd s' = poll_id # snd s"
    and s': "pz_members (fst s') = Some current" "pz_source_timestamps (fst s') = stamps"
      "pz_stream_id (fst s') = pr_stream_id r" "pz_sequence (fst s') = pr_sequence r"
    by (auto simp: presence_produces_def)
  from tr have events: "events_ok events" and tracks: "tracks (fst s) (rs_members st) (rs_stamps st)"
    and chain: "pz_members (fst s) = None \<or>
        rs_stream st = Some (pz_stream_id (fst s)) \<and> rs_sequence st = pz_sequence (fst s)"
    and seen: "fst ` set (rs_seen st) \<subseteq> set (snd s)"
    by (auto simp: audit_tracks_def)
  from build_record_replays [OF tracks cur r] obtain ms' ts' where
    ms': "apply_presence_record (rs_members st) r = Inr ms'" "members_ok ms'" "look ms' = look current"
    and ts': "apply_source_timestamp_record (rs_stamps st) r ms' = Inr (Some ts')" "map_of ts' = map_of stamps"
    by blast
  have kept: "timestamps_promise_kept events poll_id r" by (rule promise_kept [OF events]) (simp add: r)
  have fresh: "map_of (rs_seen st) poll_id = None" using pid(2) seen by (auto simp: map_of_eq_None_iff)
  let ?base = "pz_members (fst s) = None"
  define st' where "st' = st\<lparr>rs_members := ms', rs_stamps := Some ts',
    rs_stream := Some (pr_stream_id r), rs_sequence := pr_sequence r,
    rs_seen := (poll_id, pr_stream_id r, pr_sequence r) # rs_seen st, rs_count := rs_count st + 1,
    rs_baselines := rs_baselines st + (if ?base then 1 else 0),
    rs_timestamp_observations := rs_timestamp_observations st + 1\<rparr>"
  have "replay_step events st r = (None, st')"
  proof (cases ?base)
    case True
    with ms'(1) ts'(1) kept fresh pid(1) show ?thesis
      by (simp add: replay_step_def r st'_def Let_def)
  next
    case False
    with chain have "rs_stream st = Some (pz_stream_id (fst s))" "rs_sequence st = pz_sequence (fst s)" by auto
    moreover from False obtain prev where "pz_members (fst s) = Some prev" by auto
    ultimately show ?thesis using ms'(1) ts'(1) kept fresh pid(1)
      by (simp add: replay_step_def r st'_def Let_def)
  qed
  then have "audit_replay events st r = Some st'" by (simp add: audit_replay_def)
  moreover have "audit_tracks events s' st'"
    using events s' ms' ts' cur pid(3) seen by (auto simp: audit_tracks_def tracks_def st'_def)
  moreover have "rs_seen st' = (poll_id_of r, pr_stream_id r, pr_sequence r) # rs_seen st"
    using pid(1) by (simp add: st'_def poll_id_of_def r)
  ultimately show ?thesis by blast
qed

interpretation presence_log: evidence_stream "audit_tracks events" presence_produces presence_forgets
    "audit_replay events" for events
proof
  show "\<exists>m'. audit_replay events m r = Some m' \<and> audit_tracks events s' m'"
    if "audit_tracks events s m" "presence_produces s r s'" for s m r s'
    using audit_replays_record [OF that] by blast
  show "audit_tracks events s' m" if "audit_tracks events s m" "presence_forgets s s'" for s m s'
    using that by (auto simp: audit_tracks_def presence_forgets_def tracks_def split: option.splits)
qed


lemma history_seen:
  "history presence_produces presence_forgets s rs s' \<Longrightarrow> audit_tracks events s st \<Longrightarrow>
     \<exists>st'. replay_all (audit_replay events) st rs = Some st' \<and> audit_tracks events s' st' \<and>
       rs_seen st' = rev (map (\<lambda>r. (poll_id_of r, pr_stream_id r, pr_sequence r)) rs) @ rs_seen st \<and>
       list_all (\<lambda>r. poll_id_of r \<in> set (snd s')) rs \<and> distinct (map poll_id_of rs)"
proof (induction rule: history.induct)
  case (history_produce s rs t r u)
  then obtain st1 where st1: "replay_all (audit_replay events) st rs = Some st1" "audit_tracks events t st1"
    "rs_seen st1 = rev (map (\<lambda>r. (poll_id_of r, pr_stream_id r, pr_sequence r)) rs) @ rs_seen st"
    "list_all (\<lambda>r. poll_id_of r \<in> set (snd t)) rs" "distinct (map poll_id_of rs)" by blast
  from audit_replays_record [OF st1(2) history_produce.hyps(2)] obtain st2 where
    st2: "audit_replay events st1 r = Some st2" "audit_tracks events u st2"
    "rs_seen st2 = (poll_id_of r, pr_stream_id r, pr_sequence r) # rs_seen st1" by blast
  have new: "snd u = poll_id_of r # snd t" "poll_id_of r \<notin> set (snd t)"
    using history_produce.hyps(2) by (auto simp: presence_produces_def poll_id_of_def)
  then have "list_all (\<lambda>r. poll_id_of r \<in> set (snd u)) (rs @ [r])" and "distinct (map poll_id_of (rs @ [r]))"
    using st1(4,5) by (auto simp: list_all_iff)
  with st1 st2 show ?case by (simp add: replay_all_append)
next
  case (history_forget s rs t u)
  then show ?case
    using presence_log.forgets_tracks by (fastforce simp: presence_forgets_def list_all_iff)
qed auto

subsection \<open>The collector's presence log\<close>

text \<open>
  The observer with its files, one per date, and the poll journal. \<open>observed\<close> is one poll, whatever
  becomes of its write; the journal may or may not receive the event. A crash during the write is a
  failed \<open>observed\<close> followed by \<open>restarted\<close>.
\<close>

record presence_log =
  pl_presence :: presence
  pl_files :: "string \<Rightarrow> raw_file"
  pl_used :: "pyval list"
  pl_journal :: "string \<Rightarrow> row list"

definition promise_event :: "row \<Rightarrow> pyval \<Rightarrow> presence_event \<Rightarrow> bool" where
  "promise_event e poll_id ev \<longleftrightarrow>
     row_get e ''poll_id'' = poll_id \<and> promise_of e = (PStr (ev_stream_id ev), PInt (ev_sequence ev)) \<and>
     row_get e ''presence_source_timestamps_version'' = PInt (ev_source_timestamps_version ev)"

inductive presence_log_step :: "codec \<Rightarrow> string \<Rightarrow> presence_log \<Rightarrow> presence_log \<Rightarrow> bool"
  for cd :: codec and run_id :: string where
  observed: "poll_id \<notin> set (pl_used l) \<Longrightarrow> map_of ctx ''poll_id'' = Some poll_id \<Longrightarrow> rows_stamped rows \<Longrightarrow>
    observe cd run_id uuid io rows date ts ctx (pl_presence l) (pl_files l date) = (res, p', f') \<Longrightarrow>
    (case res of Inl _ \<Rightarrow> \<not> promising e | Inr ev \<Rightarrow> promise_event e poll_id ev) \<Longrightarrow>
    presence_log_step cd run_id l \<lparr>pl_presence = p', pl_files = (pl_files l)(date := f'),
      pl_used = poll_id # pl_used l,
      pl_journal = (pl_journal l)(date := pl_journal l date @ (if journaled then [e] else []))\<rparr>"
| other_event: "\<not> promising e \<Longrightarrow>
    presence_log_step cd run_id l (l\<lparr>pl_journal := (pl_journal l)(date := pl_journal l date @ [e])\<rparr>)"
| gap: "presence_log_step cd run_id l (l\<lparr>pl_presence := invalidate (pl_presence l) reason\<rparr>)"
| restarted: "presence_log_step cd run_id l (l\<lparr>pl_presence := fresh_presence uuid\<rparr>)"

definition codec_ok :: "codec \<Rightarrow> bool" where
  "codec_ok cd \<longleftrightarrow> gzip_ok (c_compress cd) (c_gunzip cd) \<and> (\<forall>r. c_decode cd (c_encode cd r) = Some r)"

definition presence_log_init :: "codec \<Rightarrow> presence_log \<Rightarrow> bool" where
  "presence_log_init cd l \<longleftrightarrow> codec_ok cd \<and>
     (\<exists>uuid. l = \<lparr>pl_presence = fresh_presence uuid, pl_files = (\<lambda>_. empty_file), pl_used = [],
                pl_journal = (\<lambda>_. [])\<rparr>)"

definition day_view :: "string \<Rightarrow> presence \<Rightarrow> presence" where
  "day_view d p = (if pz_date p = Some d then p else p\<lparr>pz_members := None\<rparr>)"

definition log_records :: "codec \<Rightarrow> raw_frame list \<Rightarrow> presence_record list \<Rightarrow> bool" where
  "log_records cd fs recs \<longleftrightarrow> map (\<lambda>fr. c_decode cd (snd (decoded (c_gunzip cd) fr))) fs = map Some recs"

definition kept_promise :: "presence_record list \<Rightarrow> row \<Rightarrow> bool" where
  "kept_promise recs e \<longleftrightarrow> (\<exists>r \<in> set recs. row_get e ''poll_id'' = poll_id_of r \<and>
     promise_of e = (PStr (pr_stream_id r), PInt (pr_sequence r))) \<and>
     row_get e ''presence_source_timestamps_version'' = PInt SOURCE_TIMESTAMPS_VERSION"

definition day_inv :: "codec \<Rightarrow> presence_log \<Rightarrow> string \<Rightarrow> bool" where
  "day_inv cd l d \<longleftrightarrow> (\<exists>fs tail recs.
     frames_inv (c_gunzip cd) (pl_files l d) fs tail \<and> log_records cd fs recs \<and>
     history presence_produces presence_forgets (fresh_presence [], []) recs
       (day_view d (pl_presence l), pl_used l) \<and>
     (\<forall>e \<in> set (pl_journal l d). promising e \<longrightarrow> kept_promise recs e))"

definition presence_log_inv :: "codec \<Rightarrow> presence_log \<Rightarrow> bool" where
  "presence_log_inv cd l \<longleftrightarrow> codec_ok cd \<and>
     (pz_date (pl_presence l) = None \<longrightarrow> pz_members (pl_presence l) = None) \<and> (\<forall>d. day_inv cd l d)"


lemma persist_keeps_frames:
  assumes gz: "gzip_ok compress gz" and inv: "frames_inv gz f fs tail"
    and per: "persist compress gz io ts payload f = (err, f')"
  shows "\<exists>fs' tail'. frames_inv gz f' fs' tail' \<and>
    (fs' = fs \<and> err \<noteq> None \<or> fs' = fs @ [(ts, compress payload)])"
proof -
  obtain res f1 where rep: "repair_truncated_tail gz (io_budget io) f = (res, f1)" by fastforce
  from repair_keeps_frames [OF inv rep] obtain tail1 where
    f1: "frames_inv gz f1 fs tail1" "\<not> isl res \<longrightarrow> tail1 = []" by blast
  show ?thesis
  proof (cases res)
    case (Inl e)
    with rep per f1 show ?thesis by (auto simp: persist_def)
  next
    case (Inr b)
    with rep per have "append_record compress (io_append io) ts payload True f1 = (err, f')"
      by (simp add: persist_def)
    with append_keeps_frames [OF gz _ this] f1 Inr show ?thesis by fastforce
  qed
qed

lemma log_records_append:
  "codec_ok cd \<Longrightarrow> log_records cd fs recs \<Longrightarrow>
     log_records cd (fs @ [(ts, c_compress cd (c_encode cd r))]) (recs @ [r])"
  by (simp add: log_records_def codec_ok_def gzip_ok_def decoded_def)

lemma day_view_forgets: "set u \<subseteq> set u' \<Longrightarrow> pz_members p' = None \<Longrightarrow> presence_forgets (p, u) (p', u')"
  by (simp add: presence_forgets_def)

lemma day_view_same [simp]: "pz_date p = Some d \<Longrightarrow> day_view d p = p"
  by (simp add: day_view_def)

lemma day_view_other: "pz_date p \<noteq> Some d \<Longrightarrow> pz_members (day_view d p) = None"
  by (simp add: day_view_def)

lemma enter_date_view:
  "pz_date (enter_date p d) = Some d"
  "pz_members (enter_date p d) = pz_members (day_view d p)"
  "pz_source_timestamps (enter_date p d) = pz_source_timestamps p"
  "pz_stream_id (enter_date p d) = pz_stream_id p" "pz_sequence (enter_date p d) = pz_sequence p"
  by (simp_all add: enter_date_def day_view_def)

lemma build_record_enter:
  "pz_members q = None \<or> pz_source_timestamps q = pz_source_timestamps p \<and> pz_stream_id q = pz_stream_id p
     \<and> pz_sequence q = pz_sequence p \<Longrightarrow>
   pz_members q = pz_members p \<Longrightarrow> pz_baseline_reason q = pz_baseline_reason p \<or> pz_members p \<noteq> None \<Longrightarrow>
   build_record k run_id uuid q ctx current stamps = build_record k run_id uuid p ctx current stamps"
  by (cases "pz_members p") (auto simp: build_record_def Let_def)

text \<open>What one poll does to the history of its date.\<close>

lemma observe_history:
  assumes cd: "codec_ok cd" and inv: "frames_inv (c_gunzip cd) f fs tail" and recs: "log_records cd fs recs"
    and hist: "history presence_produces presence_forgets s0 recs (day_view date p, used)"
    and new: "poll_id \<notin> set used" "map_of ctx ''poll_id'' = Some poll_id" "rows_stamped rows"
    and obs: "observe cd run_id uuid io rows date ts ctx p f = (res, p', f')"
  shows "\<exists>fs' tail' recs'. frames_inv (c_gunzip cd) f' fs' tail' \<and> log_records cd fs' recs' \<and>
    set recs \<subseteq> set recs' \<and>
    history presence_produces presence_forgets s0 recs' (day_view date p', poll_id # used) \<and>
    (case res of Inl _ \<Rightarrow> pz_members p' = None
     | Inr ev \<Rightarrow> pz_date p' = Some date \<and> ev_source_timestamps_version ev = SOURCE_TIMESTAMPS_VERSION \<and>
         (\<exists>r \<in> set recs'. poll_id_of r = poll_id \<and> pr_stream_id r = ev_stream_id ev \<and> pr_sequence r = ev_sequence ev))"
proof -
  have lost: "history presence_produces presence_forgets s0 recs (q, poll_id # used)" if "pz_members q = None" for q
    using history_forget [OF hist, of "(q, poll_id # used)"] that by (simp add: presence_forgets_def subset_insertI)
  have none: "pz_members (day_view date q) = None" if "pz_members q = None" for q
    using that by (simp add: day_view_def)
  show ?thesis
  proof (cases "\<not> full_dataset ctx \<or> collect_rows [] [] rows = None")
    case True
    with obs have "f' = f" "isl res" "pz_members p' = None"
      by (cases "full_dataset ctx"; simp add: observe_def Let_def invalidate_def; force)+
    with inv recs lost none show ?thesis by (auto split: sum.split intro!: exI [of _ fs])
  next
    case False
    then obtain current stamps where full: "full_dataset ctx" and col: "collect_rows [] [] rows = Some (current, stamps)"
      by auto
    define r where "r = build_record (c_json_key cd) run_id uuid (enter_date p date) ctx current stamps"
    obtain err where per: "persist (c_compress cd) (c_gunzip cd) io ts (c_encode cd r) f = (err, f')"
      using obs full col by (auto simp: observe_def Let_def r_def split: prod.splits option.splits)
    have gz: "gzip_ok (c_compress cd) (c_gunzip cd)" using cd by (simp add: codec_ok_def)
    from persist_keeps_frames [OF gz inv per] obtain fs' tail' where
      f': "frames_inv (c_gunzip cd) f' fs' tail'"
      "fs' = fs \<and> err \<noteq> None \<or> fs' = fs @ [(ts, c_compress cd (c_encode cd r))]" by blast
    define q where "q = (enter_date p date)\<lparr>pz_members := Some current, pz_source_timestamps := stamps,
      pz_stream_id := pr_stream_id r, pz_sequence := pr_sequence r\<rparr>"
    have "members_ok current \<and> dom (map_of stamps) = dom (look current)"
      using collect_rows_ok [OF col] by simp
    moreover have "stamps_ok stamps"
      using collect_rows_stamps [OF col new(3)] by (simp add: stamps_ok_def)
    moreover have hist1: "history presence_produces presence_forgets s0 recs (enter_date p date, used)"
    proof (cases "pz_date p = Some date")
      case True
      with hist show ?thesis by (simp add: enter_date_def)
    next
      case False
      with history_forget [OF hist, of "(enter_date p date, used)"] show ?thesis
        by (simp add: presence_forgets_def enter_date_def)
    qed
    ultimately have "presence_produces (enter_date p date, used) r (q, poll_id # used)"
      using new(1,2) unfolding presence_produces_def
      by (intro exI [of _ current] exI [of _ stamps] exI [of _ "c_json_key cd"] exI [of _ run_id]
          exI [of _ uuid] exI [of _ ctx] exI [of _ poll_id]) (simp add: r_def q_def)
    from history_produce [OF hist1 this]
    have hist2: "history presence_produces presence_forgets s0 (recs @ [r]) (q, poll_id # used)" .
    show ?thesis
    proof (cases err)
      case None
      with obs full col per have p': "p' = q" and res: "\<exists>ev. res = Inr ev \<and> ev_stream_id ev = pr_stream_id r \<and>
          ev_sequence ev = pr_sequence r \<and> ev_source_timestamps_version ev = SOURCE_TIMESTAMPS_VERSION"
        by (auto simp: observe_def Let_def r_def [symmetric] q_def)
      have "poll_id_of r = poll_id" using new(2) by (simp add: poll_id_of_def r_def)
      moreover have "pz_date q = Some date" by (simp add: q_def enter_date_view)
      moreover have "fs' = fs @ [(ts, c_compress cd (c_encode cd r))]" using f'(2) None by simp
      ultimately show ?thesis
        using f'(1) log_records_append [OF cd recs] hist2 p' res
        by (intro exI [of _ fs'] exI [of _ tail'] exI [of _ "recs @ [r]"]) auto
    next
      case (Some e)
      with obs full col per have p': "pz_members p' = None" and res: "isl res"
        by (auto simp: observe_def Let_def r_def [symmetric] invalidate_def)
      from f'(2) show ?thesis
      proof
        assume "fs' = fs \<and> err \<noteq> None"
        with f'(1) recs lost [OF none [OF p']] p' res show ?thesis
          by (intro exI [of _ fs'] exI [of _ tail'] exI [of _ recs]) (auto split: sum.split)
      next
        assume "fs' = fs @ [(ts, c_compress cd (c_encode cd r))]"
        moreover have "history presence_produces presence_forgets s0 (recs @ [r]) (day_view date p', poll_id # used)"
          using none [OF p'] by (intro history_forget [OF hist2]) (simp add: presence_forgets_def)
        ultimately show ?thesis
          using f'(1) log_records_append [OF cd recs] p' res
          by (intro exI [of _ fs'] exI [of _ tail'] exI [of _ "recs @ [r]"]) (auto split: sum.split)
      qed
    qed
  qed
qed


lemma kept_promise_mono: "kept_promise recs e \<Longrightarrow> set recs \<subseteq> set recs' \<Longrightarrow> kept_promise recs' e"
  by (auto simp: kept_promise_def)

lemma day_inv_forget:
  assumes "day_inv cd l d" and "pl_files l' d = pl_files l d" and "set (pl_used l) \<subseteq> set (pl_used l')"
    and "pz_members (day_view d (pl_presence l')) = None"
    and "\<forall>e \<in> set (pl_journal l' d). promising e \<longrightarrow> e \<in> set (pl_journal l d)"
  shows "day_inv cd l' d"
proof -
  from assms(1) obtain fs tail recs where
    inv: "frames_inv (c_gunzip cd) (pl_files l d) fs tail" "log_records cd fs recs"
    and hist: "history presence_produces presence_forgets (fresh_presence [], []) recs
       (day_view d (pl_presence l), pl_used l)"
    and kept: "\<forall>e \<in> set (pl_journal l d). promising e \<longrightarrow> kept_promise recs e"
    by (auto simp: day_inv_def)
  from history_forget [OF hist, of "(day_view d (pl_presence l'), pl_used l')"]
  have "history presence_produces presence_forgets (fresh_presence [], []) recs
       (day_view d (pl_presence l'), pl_used l')"
    using assms(3,4) by (simp add: presence_forgets_def)
  with inv kept assms(2,5) show ?thesis by (auto simp: day_inv_def)
qed

lemma observe_date:
  "observe cd run_id uuid io rows date ts ctx p f = (res, p', f') \<Longrightarrow> d \<noteq> date \<Longrightarrow>
     pz_members (day_view d p') = None"
  by (auto simp: observe_def Let_def day_view_def invalidate_def enter_date_view split: if_splits option.splits prod.splits)

lemma observe_no_date:
  "observe cd run_id uuid io rows date ts ctx p f = (res, p', f') \<Longrightarrow> pz_date p' = None \<Longrightarrow> pz_members p' = None"
  by (auto simp: observe_def Let_def invalidate_def enter_date_view split: if_splits option.splits prod.splits)

lemma presence_log_step_inv:
  assumes inv: "presence_log_inv cd l" and st: "presence_log_step cd run_id l l'"
  shows "presence_log_inv cd l'"
  using st
proof cases
  case (observed poll_id ctx rows uuid io date ts res p' f' e journaled)
  have cd: "codec_ok cd" and days: "\<And>d. day_inv cd l d" using inv by (auto simp: presence_log_inv_def)
  have "day_inv cd l' d" for d
  proof (cases "d = date")
    case False
    from day_inv_forget [OF days [of d], of l'] observe_date [OF observed(5) False] False observed(1)
    show ?thesis by (auto simp: subset_insertI)
  next
    case True
    from days [of date] obtain fs tail recs where
      d: "frames_inv (c_gunzip cd) (pl_files l date) fs tail" "log_records cd fs recs"
      "history presence_produces presence_forgets (fresh_presence [], []) recs
         (day_view date (pl_presence l), pl_used l)"
      and kept: "\<forall>e \<in> set (pl_journal l date). promising e \<longrightarrow> kept_promise recs e"
      by (auto simp: day_inv_def)
    from observe_history [OF cd d observed(2-5)] obtain fs' tail' recs' where
      n: "frames_inv (c_gunzip cd) f' fs' tail'" "log_records cd fs' recs'"
        "history presence_produces presence_forgets (fresh_presence [], []) recs'
          (day_view date p', poll_id # pl_used l)"
      and more: "set recs \<subseteq> set recs'"
      and res: "case res of Inl _ \<Rightarrow> pz_members p' = None
        | Inr ev \<Rightarrow> pz_date p' = Some date \<and> ev_source_timestamps_version ev = SOURCE_TIMESTAMPS_VERSION \<and>
         (\<exists>r \<in> set recs'. poll_id_of r = poll_id \<and> pr_stream_id r = ev_stream_id ev \<and> pr_sequence r = ev_sequence ev)"
      by blast
    have "promising e \<longrightarrow> kept_promise recs' e"
    proof (cases res)
      case (Inr ev)
      with res observed(6) obtain r where "r \<in> set recs'" "poll_id_of r = poll_id"
        "pr_stream_id r = ev_stream_id ev" "pr_sequence r = ev_sequence ev"
        and "promise_event e poll_id ev" "ev_source_timestamps_version ev = SOURCE_TIMESTAMPS_VERSION" by auto
      then show ?thesis unfolding promise_event_def kept_promise_def by metis
    qed (use observed(6) in simp)
    with n kept kept_promise_mono [OF _ more] True observed(1) show ?thesis
      by (auto simp: day_inv_def intro!: exI [of _ fs'] exI [of _ tail'] exI [of _ recs'])
  qed
  with cd observe_no_date [OF observed(5)] observed(1) show ?thesis by (simp add: presence_log_inv_def)
next
  case (other_event e date)
  have "day_inv cd l' d" if "day_inv cd l d" for d
    using that other_event by (auto simp: day_inv_def)
  with inv other_event(1) show ?thesis by (auto simp: presence_log_inv_def)
next
  case (gap reason)
  have "day_inv cd l' d" if "day_inv cd l d" for d
    by (rule day_inv_forget [OF that]) (simp_all add: gap invalidate_def day_view_def)
  with inv gap show ?thesis by (auto simp: presence_log_inv_def invalidate_def)
next
  case (restarted uuid)
  have "day_inv cd l' d" if "day_inv cd l d" for d
    by (rule day_inv_forget [OF that]) (simp_all add: restarted fresh_presence_def day_view_def)
  with inv restarted show ?thesis by (auto simp: presence_log_inv_def fresh_presence_def)
qed

lemma presence_log_init_inv: "presence_log_init cd l \<Longrightarrow> presence_log_inv cd l"
proof -
  assume init: "presence_log_init cd l"
  then obtain uuid where l: "l = \<lparr>pl_presence = fresh_presence uuid, pl_files = (\<lambda>_. empty_file),
      pl_used = [], pl_journal = (\<lambda>_. [])\<rparr>" and cd: "codec_ok cd"
    by (auto simp: presence_log_init_def)
  have "history presence_produces presence_forgets (fresh_presence [], []) [] (day_view d (fresh_presence uuid), [])" for d
    by (rule history_forget [OF history_start]) (simp add: presence_forgets_def day_view_def fresh_presence_def)
  moreover have "frames_inv (c_gunzip cd) empty_file [] []"
    by (simp add: frames_inv_def empty_file_def rawf.dec_empty)
  ultimately have "day_inv cd l d" for d
    unfolding day_inv_def l by (intro exI [of _ "[]"]) (simp add: log_records_def)
  with cd l show ?thesis by (simp add: presence_log_inv_def fresh_presence_def)
qed

interpretation presence_sys: transition_system "presence_log_init cd" "presence_log_step cd run_id" "presence_log_inv cd"
  for cd run_id
  by unfold_locales (auto intro: presence_log_init_inv presence_log_step_inv)


subsection \<open>The audit of a day\<close>

lemma replay_payloads_records:
  "map (\<lambda>p. dec (snd p)) ps = map Some recs \<Longrightarrow> replay_all (audit_replay events) st recs = Some st' \<Longrightarrow>
     replay_payloads dec events st ps = (None, st')"
proof (induction ps arbitrary: recs st)
  case (Cons p ps)
  obtain ts payload where p: "p = (ts, payload)" by (cases p)
  from Cons.prems(1) p obtain r rs where recs: "recs = r # rs" "dec payload = Some r"
    "map (\<lambda>p. dec (snd p)) ps = map Some rs" by (cases recs) auto
  obtain err st1 where step: "replay_step events st r = (err, st1)" by fastforce
  have "audit_replay events st r = (if err = None then Some st1 else None)"
    by (simp add: audit_replay_def step split: option.split)
  with Cons.prems(2) recs(1) have "err = None" "replay_all (audit_replay events) st1 rs = Some st'"
    by (auto split: if_splits)
  with Cons.IH [OF recs(3)] p recs(2) step show ?case by simp
qed auto

lemma clean_log_replays:
  assumes "codec_ok cd" and inv: "frames_inv (c_gunzip cd) f fs tail" "log_records cd fs recs"
    and clean: "scan_raw_log (c_gunzip cd) True (file_data f) = Inr s" "clean s"
    and hist: "history presence_produces presence_forgets (fresh_presence [], []) recs s'"
    and events: "events_ok events"
  shows "\<exists>st. replay_log (c_gunzip cd) (c_decode cd) events f = (None, st) \<and> audit_tracks events s' st \<and>
    (\<forall>r \<in> set recs. map_of (rs_seen st) (poll_id_of r) = Some (pr_stream_id r, pr_sequence r))"
proof -
  have "audit_tracks events (fresh_presence [], []) replay_init"
    using events by (simp add: audit_tracks_def tracks_def fresh_presence_def replay_init_def)
  from history_seen [OF hist this] obtain st where
    st: "replay_all (audit_replay events) replay_init recs = Some st" "audit_tracks events s' st"
      "rs_seen st = rev (map (\<lambda>r. (poll_id_of r, pr_stream_id r, pr_sequence r)) recs)"
      "distinct (map poll_id_of recs)"
    by (auto simp: replay_init_def)
  have "map fst (rs_seen st) = rev (map poll_id_of recs)" by (simp add: st(3) rev_map)
  then have "distinct (map fst (rs_seen st))" using st(4) by simp
  moreover have "(poll_id_of r, pr_stream_id r, pr_sequence r) \<in> set (rs_seen st)" if "r \<in> set recs" for r
    using that by (simp add: st(3))
  ultimately have seen: "\<forall>r \<in> set recs. map_of (rs_seen st) (poll_id_of r) = Some (pr_stream_id r, pr_sequence r)"
    by simp
  have data: "file_data f = concat (map frame fs) @ tail"
    and ok: "list_all frame_ok fs" "list_all (readable (c_gunzip cd)) fs" "read_frame tail = None"
    using inv(1) by (auto simp: frames_inv_def)
  have it: "iter_records (c_gunzip cd) (file_data f) = (map (decoded (c_gunzip cd)) fs, None)"
    using iter_records_frames [OF ok] data by simp
  have "map (\<lambda>p. c_decode cd (snd p)) (map (decoded (c_gunzip cd)) fs) = map Some recs"
    using inv(2) by (simp add: log_records_def comp_def)
  from replay_payloads_records [OF this st(1)] it clean
  have "replay_log (c_gunzip cd) (c_decode cd) events f = (None, st)" if "content f \<noteq> None"
    using that by (auto simp: replay_log_def)
  moreover have "replay_log (c_gunzip cd) (c_decode cd) events f = (None, st)" if "content f = None"
  proof -
    from that data have "concat (map frame fs) = []" by simp
    then have "fs = []" using frame_nonempty by (cases fs) auto
    with inv(2) have "recs = []" by (simp add: log_records_def)
    with st(1) that show ?thesis by (simp add: replay_log_def)
  qed
  ultimately show ?thesis using st(2) seen by blast
qed

subsection \<open>A concrete log\<close>

text \<open>
  A codec for the witnesses: the demonstration record has a one-byte text, every other record the
  unary number that the countability of the record type gives it.
\<close>

instance pyval :: countable
  by countable_datatype

instance presence_change_ext :: (countable) countable
  by (rule countable_classI [of "\<lambda>c. to_nat (ch_trip c, ch_trip_entered c, ch_trip_withdrawn c,
        ch_entered_stops c, ch_withdrawn_stops c, presence_change.more c)"])
    (auto intro: presence_change.equality)

instance presence_record_ext :: (countable) countable
  by (rule countable_classI [of "\<lambda>r. to_nat ((pr_context r, pr_version r, pr_run_id r, pr_stream_id r,
        pr_sequence r, pr_kind r, pr_baseline_reason r), (pr_trip_identity_fields r,
        pr_stop_identity_fields r, pr_trip_count r, pr_stop_count r, pr_changes r,
        pr_source_timestamps_version r, pr_source_timestamp_updates r, presence_record.more r))"])
    (auto intro: presence_record.equality)

definition demo_rows :: "row list" where
  "demo_rows = [[(''entity_id'', PStr ''e''), (''trip_id'', PStr ''t''), (''stop_time_update_index'', PInt 0),
     (''stop_id'', PStr ''s''), (''trip_update_timestamp'', PInt 5)]]"

definition demo_context :: row where
  "demo_context = [(''poll_id'', PStr ''p'')]"

definition demo_collected :: "members \<times> stamps" where
  "demo_collected = the (collect_rows [] [] demo_rows)"

definition demo_record :: presence_record where
  "demo_record = build_record (\<lambda>_. []) ''run'' ''stream'' (enter_date (fresh_presence ''x'') ''d'') demo_context
     (fst demo_collected) (snd demo_collected)"

definition demo_codec :: codec where
  "demo_codec = \<lparr>c_compress = stored_compress, c_gunzip = stored_gunzip,
     c_encode = (\<lambda>r. if r = demo_record then [7] else replicate (to_nat r) 0),
     c_decode = (\<lambda>bs. Some (if bs = [7] then demo_record else from_nat (length bs))),
     c_json_key = (\<lambda>_. [])\<rparr>"

lemma demo_codec_ok: "codec_ok demo_codec"
proof -
  have "replicate n (0::byte) \<noteq> [7]" for n by (cases n) auto
  then show ?thesis by (simp add: codec_ok_def demo_codec_def stored_gzip_ok)
qed

definition demo_log :: presence_log where
  "demo_log = \<lparr>pl_presence = (enter_date (fresh_presence ''x'') ''d'')\<lparr>pz_members := Some (fst demo_collected),
       pz_source_timestamps := snd demo_collected, pz_stream_id := ''stream'', pz_sequence := 1\<rparr>,
     pl_files = (\<lambda>_. empty_file)(''d'' := \<lparr>content = Some (frame (0, [31, 7])), checkpoint = Some 14, sidecars = []\<rparr>),
     pl_used = [PStr ''p''],
     pl_journal = (\<lambda>_. [])(''d'' := [[(''poll_id'', PStr ''p''), (''presence_required'', PBool True),
       (''presence_ok'', PBool True), (''presence_stream_id'', PStr ''stream''), (''presence_sequence'', PInt 1),
       (''presence_source_timestamps_version'', PInt 1)]])\<rparr>"

lemma demo_collects: "collect_rows [] [] demo_rows = Some demo_collected"
proof -
  have "collect_rows [] [] demo_rows \<noteq> None"
    by (simp add: demo_rows_def collect_rows.simps(2) row_get_def Let_def)
  then show ?thesis by (simp add: demo_collected_def)
qed

lemma demo_log_reachable: "reachable (presence_log_init demo_codec) (presence_log_step demo_codec ''run'') demo_log"
proof -
  let ?l0 = "\<lparr>pl_presence = fresh_presence ''x'', pl_files = (\<lambda>_. empty_file), pl_used = [], pl_journal = (\<lambda>_. [])\<rparr>"
  let ?io = "\<lparr>io_budget = 4, io_append = \<lparr>written = 14, fsync_ok = True, checkpoint_ok = True\<rparr>\<rparr>"
  let ?ev = "\<lparr>ev_path = presence_path ''d'', ev_kind = ''baseline'', ev_stream_id = ''stream'', ev_sequence = 1,
    ev_present_trips = pr_trip_count demo_record, ev_present_stop_visits = pr_stop_count demo_record,
    ev_source_timestamps_version = SOURCE_TIMESTAMPS_VERSION\<rparr>"
  have start: "reachable (presence_log_init demo_codec) (presence_log_step demo_codec ''run'') ?l0"
    using demo_codec_ok by (intro reach_init) (auto simp: presence_log_init_def)
  have small: "frame_ok (0, stored_compress [7])" "length (frame (0, stored_compress [7])) = 14" by simp_all
  have pers: "persist stored_compress stored_gunzip ?io 0 [7] empty_file =
      (None, \<lparr>content = Some (frame (0, [31, 7])), checkpoint = Some 14, sidecars = []\<rparr>)"
    using small by (simp add: persist_def repair_truncated_tail_def repair_plan_def empty_file_def
        append_record_small Let_def stored_compress_def)
  obtain current stamps where col: "demo_collected = (current, stamps)" by (cases demo_collected)
  have r: "build_record (\<lambda>_. []) ''run'' ''stream'' (enter_date (fresh_presence ''x'') ''d'') demo_context current stamps = demo_record"
    by (simp add: demo_record_def col)
  have kind: "pr_kind demo_record = ''baseline''" "pr_stream_id demo_record = ''stream''" "pr_sequence demo_record = 1"
    by (simp_all add: demo_record_def enter_date_def fresh_presence_def)
  have obs: "observe demo_codec ''run'' ''stream'' ?io demo_rows ''d'' 0 demo_context (fresh_presence ''x'') empty_file =
      (Inr ?ev, pl_presence demo_log, pl_files demo_log ''d'')"
    using demo_collects pers kind
    by (simp add: observe_def full_dataset_def demo_context_def [symmetric] demo_codec_def Let_def col r demo_log_def)
      (simp add: demo_context_def)
  let ?e = "[(''poll_id'', PStr ''p''), (''presence_required'', PBool True),
       (''presence_ok'', PBool True), (''presence_stream_id'', PStr ''stream''), (''presence_sequence'', PInt 1),
       (''presence_source_timestamps_version'', PInt 1)]"
  have "presence_log_step demo_codec ''run'' ?l0 \<lparr>pl_presence = pl_presence demo_log,
      pl_files = (pl_files ?l0)(''d'' := pl_files demo_log ''d''), pl_used = PStr ''p'' # pl_used ?l0,
      pl_journal = (pl_journal ?l0)(''d'' := pl_journal ?l0 ''d'' @ (if True then [?e] else []))\<rparr>"
    by (rule presence_log_step.observed [where ctx = demo_context and rows = demo_rows and res = "Inr ?ev"])
      (use obs in \<open>simp_all add: demo_context_def demo_rows_def rows_stamped_def valid_timestamp_def row_get_def
        promise_event_def promise_of_def SOURCE_TIMESTAMPS_VERSION_def\<close>)
  moreover have "\<lparr>pl_presence = pl_presence demo_log,
      pl_files = (pl_files ?l0)(''d'' := pl_files demo_log ''d''), pl_used = PStr ''p'' # pl_used ?l0,
      pl_journal = (pl_journal ?l0)(''d'' := pl_journal ?l0 ''d'' @ (if True then [?e] else []))\<rparr> = demo_log"
    by (simp add: demo_log_def)
  ultimately show ?thesis using reach_step [OF start] by simp
qed

lemma demo_log_clean:
  "\<exists>s. scan_raw_log (c_gunzip demo_codec) True (file_data (pl_files demo_log ''d'')) = Inr s \<and> clean s"
proof -
  have ok: "frame_ok (0, [31, 7])" using stored_frame_ok [of 0 7] by (simp add: stored_compress_def)
  have len: "length (frame (0, [31, 7])) = 14" using stored_frame_length [of 0 7] by (simp add: stored_compress_def)
  have "frames_inv stored_gunzip (pl_files demo_log ''d'') [(0, [31, 7])] []"
    using ok len by (auto simp: frames_inv_def demo_log_def rawf.dec_empty intro!: exI [of _ 1])
  from scan_from_frames [OF this, of 0] show ?thesis
    by (simp add: scan_raw_log_from_0 demo_codec_def)
qed

subsection \<open>The audit of a reachable log\<close>

lemma frames_scan:
  "frames_inv gz f fs tail \<Longrightarrow> \<exists>s. scan_raw_log gz True (file_data f) = Inr s \<and> (clean s \<longleftrightarrow> tail = [])"
  using scan_from_frames [of gz f fs tail 0] by (simp add: scan_raw_log_from_0)

definition audit_issues :: "codec \<Rightarrow> row list \<Rightarrow> raw_file \<Rightarrow> presence_issue list" where
  "audit_issues cd events f = fst (snd (presence_stats (c_gunzip cd) (c_decode cd) events f))"

lemma audit_whole_log:
  assumes cd: "codec_ok cd" and inv: "frames_inv (c_gunzip cd) f fs []" "log_records cd fs recs"
    and hist: "history presence_produces presence_forgets (fresh_presence [], []) recs s'"
    and kept: "\<forall>e \<in> set events. promising e \<longrightarrow> kept_promise recs e"
  shows "audit_issues cd events f = []"
proof -
  from frames_scan [OF inv(1)] obtain s where scan: "scan_raw_log (c_gunzip cd) True (file_data f) = Inr s" "clean s" by auto
  have "events_ok events" using kept by (auto simp: events_ok_def kept_promise_def list_all_iff)
  from clean_log_replays [OF cd inv scan hist this] obtain st where
    st: "replay_log (c_gunzip cd) (c_decode cd) events f = (None, st)"
    and seen: "\<forall>r \<in> set recs. map_of (rs_seen st) (poll_id_of r) = Some (pr_stream_id r, pr_sequence r)"
    by blast
  have "promise_met st p" if "p \<in> set (AList.clearjunk (promised events))" for p
  proof -
    from that have "p \<in> set (promised events)"
      by (metis (no_types) map_of_clearjunk map_of_SomeD map_of_eq_Some_iff distinct_clearjunk prod.collapse)
    then have e: "snd p \<in> set events" "promising (snd p)" "fst p = row_get (snd p) ''poll_id''"
      by (auto simp: promised_def promising_def)
    with kept obtain r where "r \<in> set recs" "fst p = poll_id_of r"
      "promise_of (snd p) = (PStr (pr_stream_id r), PInt (pr_sequence r))"
      by (auto simp: kept_promise_def)
    with seen show ?thesis by (simp add: promise_met_def)
  qed
  then show ?thesis by (auto simp: audit_issues_def presence_stats_def Let_def st list_ex_iff)
qed

lemma audit_torn_log:
  assumes "scan_raw_log (c_gunzip cd) True (file_data f) = Inr s" and "\<not> clean s" and "file_data f \<noteq> []"
  shows "audit_issues cd events f = ReplayError InvalidTail # (if list_ex promising events then [PromiseMissing] else [])"
proof -
  from assms(3) have "content f \<noteq> None" by (auto split: option.splits)
  with assms(1,2) have st: "replay_log (c_gunzip cd) (c_decode cd) events f = (Some InvalidTail, replay_init)"
    by (auto simp: replay_log_def split: option.splits)
  have "list_ex (\<lambda>p. \<not> promise_met replay_init p) ps \<longleftrightarrow> ps \<noteq> []" for ps
    by (cases ps) (simp_all add: promise_met_def replay_init_def)
  moreover have "AList.clearjunk (promised events) \<noteq> [] \<longleftrightarrow> promised events \<noteq> []"
    by (cases "promised events") auto
  moreover have "promised events \<noteq> [] \<longleftrightarrow> list_ex promising events"
    by (auto simp: promised_def promising_def list_ex_iff filter_empty_conv)
  ultimately show ?thesis by (simp add: audit_issues_def presence_stats_def Let_def st)
qed

text \<open>
  Claim C28. The evidence stands up. Take any history of polls, failed writes, gaps, restarts and date
  changes, with poll ids that are never reused. For every date, the log can be scanned. When no torn tail is pending, the
  audit replays every record without an error and finds every membership observation that the poll journal promised: the list
  of issues is empty. When one is pending, the audit says so, and misses the promises because it reads no further; after the
  repair with which the next observation begins, with no file operation failing, the audit finds nothing to complain about.
\<close>

theorem presence_audit_passes:
  assumes "reachable (presence_log_init cd) (presence_log_step cd run_id) l" and "4 \<le> budget"
  shows "\<exists>s recovered f'. scan_raw_log (c_gunzip cd) True (file_data (pl_files l date)) = Inr s \<and>
    fst (snd (presence_stats (c_gunzip cd) (c_decode cd) (pl_journal l date) (pl_files l date))) =
      (if clean s then []
       else ReplayError InvalidTail # (if list_ex promising (pl_journal l date) then [PromiseMissing] else [])) \<and>
    repair_truncated_tail (c_gunzip cd) budget (pl_files l date) = (Inr recovered, f') \<and>
    fst (snd (presence_stats (c_gunzip cd) (c_decode cd) (pl_journal l date) f')) = []"
proof -
  let ?f = "pl_files l date" and ?gz = "c_gunzip cd"
  from presence_sys.reachable_inv [OF assms(1)] obtain fs tail recs where cd: "codec_ok cd"
    and inv: "frames_inv ?gz ?f fs tail" and recs: "log_records cd fs recs"
    and hist: "history presence_produces presence_forgets (fresh_presence [], []) recs
       (day_view date (pl_presence l), pl_used l)"
    and kept: "\<forall>e \<in> set (pl_journal l date). promising e \<longrightarrow> kept_promise recs e"
    unfolding presence_log_inv_def day_inv_def by blast
  note whole = audit_whole_log [OF cd _ recs hist kept]
  from frames_scan [OF inv] obtain s where scan: "scan_raw_log ?gz True (file_data ?f) = Inr s" "clean s \<longleftrightarrow> tail = []" by blast
  have torn: "file_data ?f \<noteq> []" if "\<not> clean s" using that scan(2) inv by (simp add: frames_inv_def)
  obtain res f' where rep: "repair_truncated_tail ?gz budget ?f = (res, f')" by (metis surj_pair)
  with repair_completes [OF inv assms(2)] repair_keeps_frames [OF inv rep] obtain recovered where
    "res = Inr recovered" "frames_inv ?gz f' fs []" by (cases res) auto
  with rep scan torn whole audit_torn_log [OF scan(1)] inv show ?thesis
    unfolding audit_issues_def by (intro exI [of _ s] exI [of _ recovered] exI [of _ f']) auto
qed

text \<open>The first record of a day, torn after five bytes\<close>

definition torn_log :: presence_log where
  "torn_log = \<lparr>pl_presence = invalidate (enter_date (fresh_presence ''x'') ''d'') ''presence_write_gap'',
     pl_files = (\<lambda>_. empty_file)(''d'' := empty_file\<lparr>content := Some (take 5 (frame (0, [31, 7])))\<rparr>),
     pl_used = [PStr ''p''], pl_journal = (\<lambda>_. [])\<rparr>"

lemma torn_log_reachable: "reachable (presence_log_init demo_codec) (presence_log_step demo_codec ''run'') torn_log"
proof -
  let ?l0 = "\<lparr>pl_presence = fresh_presence ''x'', pl_files = (\<lambda>_. empty_file), pl_used = [], pl_journal = (\<lambda>_. [])\<rparr>"
  let ?io = "\<lparr>io_budget = 4, io_append = \<lparr>written = 5, fsync_ok = True, checkpoint_ok = True\<rparr>\<rparr>"
  have start: "reachable (presence_log_init demo_codec) (presence_log_step demo_codec ''run'') ?l0"
    using demo_codec_ok by (intro reach_init) (auto simp: presence_log_init_def)
  have small: "frame_ok (0, stored_compress [7])" "length (frame (0, stored_compress [7])) = 14" by simp_all
  have pers: "persist stored_compress stored_gunzip ?io 0 [7] empty_file = (Some (ShortAppend 5 14), pl_files torn_log ''d'')"
    using small by (simp add: persist_def repair_truncated_tail_def repair_plan_def empty_file_def torn_log_def
        append_record_small Let_def stored_compress_def)
  obtain current stamps where col: "demo_collected = (current, stamps)" by (cases demo_collected)
  have r: "build_record (\<lambda>_. []) ''run'' ''stream'' (enter_date (fresh_presence ''x'') ''d'') demo_context current stamps = demo_record"
    by (simp add: demo_record_def col)
  have obs: "observe demo_codec ''run'' ''stream'' ?io demo_rows ''d'' 0 demo_context (fresh_presence ''x'') empty_file =
      (Inl (PresenceWriteFailed (ShortAppend 5 14)), pl_presence torn_log, pl_files torn_log ''d'')"
    using demo_collects pers
    by (simp add: observe_def full_dataset_def demo_context_def [symmetric] demo_codec_def Let_def col r)
      (simp add: demo_context_def torn_log_def)
  have "presence_log_step demo_codec ''run'' ?l0 \<lparr>pl_presence = pl_presence torn_log,
      pl_files = (pl_files ?l0)(''d'' := pl_files torn_log ''d''), pl_used = PStr ''p'' # pl_used ?l0,
      pl_journal = (pl_journal ?l0)(''d'' := pl_journal ?l0 ''d'' @ (if False then [[]] else []))\<rparr>"
    by (rule presence_log_step.observed [where ctx = demo_context and rows = demo_rows and
          res = "Inl (PresenceWriteFailed (ShortAppend 5 14))" and e = "[]"])
      (use obs in \<open>simp_all add: demo_context_def demo_rows_def rows_stamped_def valid_timestamp_def row_get_def promising_def\<close>)
  moreover have "\<lparr>pl_presence = pl_presence torn_log,
      pl_files = (pl_files ?l0)(''d'' := pl_files torn_log ''d''), pl_used = PStr ''p'' # pl_used ?l0,
      pl_journal = (pl_journal ?l0)(''d'' := pl_journal ?l0 ''d'' @ (if False then [[]] else []))\<rparr> = torn_log"
    by (simp add: torn_log_def fun_upd_idem_iff)
  ultimately show ?thesis using reach_step [OF start] by simp
qed

lemma torn_log_unclean:
  assumes "scan_raw_log (c_gunzip demo_codec) True (file_data (pl_files torn_log ''d'')) = Inr s"
  shows "\<not> clean s"
proof -
  have ok: "frame_ok (0, [31, 7])" using stored_frame_ok [of 0 7] by (simp add: stored_compress_def)
  have len: "length (frame (0, [31, 7])) = 14" using stored_frame_length [of 0 7] by (simp add: stored_compress_def)
  have "frames_inv stored_gunzip empty_file [] []"
    by (simp add: frames_inv_def empty_file_def rawf.dec_empty)
  from frames_inv_torn [OF this ok, of 5 "pl_files torn_log ''d''"] len
  have "frames_inv stored_gunzip (pl_files torn_log ''d'') [] (take 5 (frame (0, [31, 7])))"
    by (simp add: torn_log_def empty_file_def)
  from frames_scan [OF this] obtain s' where
    "scan_raw_log stored_gunzip True (file_data (pl_files torn_log ''d'')) = Inr s'" "clean s' \<longleftrightarrow> take 5 (frame (0, [31, 7])) = []"
    by blast
  moreover have "take 5 (frame (0, [31, 7])) \<noteq> []" using len by auto
  ultimately show ?thesis using assms by (simp add: demo_codec_def)
qed

lemma presence_audit_passes_witness:
  "fst (snd (presence_stats (c_gunzip demo_codec) (c_decode demo_codec) (pl_journal torn_log ''d'') (pl_files torn_log ''d''))) =
     [ReplayError InvalidTail] \<and>
   fst (snd (presence_stats (c_gunzip demo_codec) (c_decode demo_codec) (pl_journal torn_log ''d'')
     (snd (repair_truncated_tail (c_gunzip demo_codec) 4 (pl_files torn_log ''d''))))) = []"
proof -
  have "pl_journal torn_log ''d'' = []" by (simp add: torn_log_def)
  with presence_audit_passes [OF torn_log_reachable, of 4 "''d''"] torn_log_unclean show ?thesis by auto
qed

text \<open>
  What was observed can be recovered. Under the same histories, when the observer knows the
  membership of the current date (its last observation was acknowledged), replaying that date's log
  gives exactly this membership, trip by trip and stop by stop, and exactly these source timestamps.
\<close>

theorem presence_replay_recovers:
  assumes "reachable (presence_log_init cd) (presence_log_step cd run_id) l"
    and "scan_raw_log (c_gunzip cd) True (file_data (pl_files l date)) = Inr s" and "clean s"
    and "pz_date (pl_presence l) = Some date" and "pz_members (pl_presence l) = Some ms"
  shows "\<exists>st ts. replay_log (c_gunzip cd) (c_decode cd) [] (pl_files l date) = (None, st) \<and>
    (\<forall>trip. map_option set (map_of (rs_members st) trip) = map_option set (map_of ms trip)) \<and>
    rs_stamps st = Some ts \<and> map_of ts = map_of (pz_source_timestamps (pl_presence l)) \<and>
    rs_stream st = Some (pz_stream_id (pl_presence l)) \<and> rs_sequence st = pz_sequence (pl_presence l)"
proof -
  from presence_sys.reachable_inv [OF assms(1)] obtain fs tail recs where cd: "codec_ok cd"
    and inv: "frames_inv (c_gunzip cd) (pl_files l date) fs tail" "log_records cd fs recs"
    and hist: "history presence_produces presence_forgets (fresh_presence [], []) recs
       (day_view date (pl_presence l), pl_used l)"
    unfolding presence_log_inv_def day_inv_def by blast
  have "events_ok []" by (simp add: events_ok_def)
  from clean_log_replays [OF cd inv assms(2,3) hist this] obtain st where
    "replay_log (c_gunzip cd) (c_decode cd) [] (pl_files l date) = (None, st)"
    and "audit_tracks [] (pl_presence l, pl_used l) st"
    using assms(4) by auto
  with assms(5) show ?thesis
    by (auto simp: audit_tracks_def tracks_def look_def fun_eq_iff split: option.splits)
qed

lemma presence_replay_recovers_witness:
  "\<exists>st. replay_log (c_gunzip demo_codec) (c_decode demo_codec) [] (pl_files demo_log ''d'') = (None, st) \<and>
     rs_stream st = Some ''stream'' \<and>
     map_option set (map_of (rs_members st) [PStr ''e'', PStr ''t'', PNone, PNone]) = Some {[PNone, PNone, PStr ''s'']}"
proof -
  obtain s where clean: "scan_raw_log (c_gunzip demo_codec) True (file_data (pl_files demo_log ''d'')) = Inr s" "clean s"
    using demo_log_clean by blast
  have demo: "pz_date (pl_presence demo_log) = Some ''d''" "pz_members (pl_presence demo_log) = Some (fst demo_collected)"
    "pz_stream_id (pl_presence demo_log) = ''stream''"
    by (simp_all add: demo_log_def enter_date_def fresh_presence_def)
  have "map_option set (map_of (fst demo_collected) [PStr ''e'', PStr ''t'', PNone, PNone]) = Some {[PNone, PNone, PStr ''s'']}"
    by (simp add: demo_collected_def demo_rows_def collect_rows.simps(2) row_get_def Let_def
        TRIP_IDENTITY_FIELDS_def STOP_IDENTITY_FIELDS_def TRIP_UPDATE_KEY_FIELDS_def)
  with presence_replay_recovers [OF demo_log_reachable clean demo(1,2)] show ?thesis
    unfolding demo(3) by metis
qed

end
