(* ===== verification/Scheduler.thy ===== *)
theory Scheduler
  imports Interfaces "HOL-Library.Multiset"
begin

section \<open>The feed scheduler (bkk_collector/realtime/realtime\_scheduler.py)\<close>

text \<open>
  One schedule per feed on a monotonic clock, at most one request in flight per feed, and a bounded
  queue of results. \<^verbatim>\<open>step\<close> is the function the scheduler thread repeats; futures are completed by
  the executor at any time, results are taken and acknowledged by the collector's thread. The lock
  makes \<^verbatim>\<open>step\<close>, \<^verbatim>\<open>acknowledge\<close> and \<^verbatim>\<open>snapshot\<close> atomic, so an execution is a sequence of
  these operations. Clock values, wall times and poll ids come in as arguments; a scheduled time is
  kept as the Unix timestamp that \<^verbatim>\<open>utc_iso\<close> formats. \<open>'v\<close> is the type of a fetch result.
\<close>

subsection \<open>State\<close>

datatype 'v future = Running | Returned 'v | Raised string

record 'v feed_schedule =
  interval_seconds :: seconds
  next_deadline :: seconds
  future :: "'v future option"
  active_poll_id :: "string option"
  active_scheduled_for_at :: "seconds option"
  active_scheduler_lag_ms :: rat
  active_missed_before_request :: int
  in_flight_started :: "seconds option"
  result_pending :: bool
  pending_poll_id :: "string option"
  total_submitted :: int
  total_completed :: int
  total_missed_deadlines :: int
  missed_since_last_request :: int
  last_scheduler_lag_ms :: "rat option"
  last_completed :: "seconds option"
  last_missed :: "seconds option"

record 'v scheduled_result =
  sr_feed :: feed
  sr_poll_id :: string
  sr_value :: "'v option"
  sr_worker_error :: "string option"
  sr_scheduled_for_at :: seconds
  sr_scheduler_lag_ms :: rat
  sr_missed_before :: int

record 'v scheduler =
  schedules :: "(feed \<times> 'v feed_schedule) list"
  results :: "'v scheduled_result list"
  accepting :: bool

datatype scheduler_error = QueueFull | ZeroDivision

definition new_schedule :: "seconds \<Rightarrow> seconds \<Rightarrow> 'v feed_schedule" where
  "new_schedule interval start = \<lparr>interval_seconds = interval, next_deadline = start, future = None,
     active_poll_id = None, active_scheduled_for_at = None, active_scheduler_lag_ms = 0,
     active_missed_before_request = 0, in_flight_started = None, result_pending = False,
     pending_poll_id = None, total_submitted = 0, total_completed = 0, total_missed_deadlines = 0,
     missed_since_last_request = 0, last_scheduler_lag_ms = None, last_completed = None, last_missed = None\<rparr>"

definition new_scheduler :: "(feed \<times> seconds) list \<Rightarrow> seconds \<Rightarrow> 'v scheduler" where
  "new_scheduler intervals start =
     \<lparr>schedules = map (\<lambda>(f, interval). (f, new_schedule interval start)) intervals, results = [], accepting = True\<rparr>"

subsection \<open>One step\<close>

definition deadline_wall :: "seconds \<Rightarrow> seconds \<Rightarrow> seconds \<Rightarrow> seconds" where
  "deadline_wall wall deadline now = wall - max 0 (now - deadline)"

definition or_unknown :: "string option \<Rightarrow> string" where
  "or_unknown p = (case p of None \<Rightarrow> ''unknown'' | Some s \<Rightarrow> if s = [] then ''unknown'' else s)"

text \<open>The first loop: a finished request whose predecessor was acknowledged becomes a result.\<close>

definition harvest ::
  "seconds \<Rightarrow> seconds \<Rightarrow> feed \<Rightarrow> 'v feed_schedule \<Rightarrow> 'v scheduled_result list \<times> 'v feed_schedule" where
  "harvest now wall f s =
     (case future s of
        None \<Rightarrow> ([], s)
      | Some Running \<Rightarrow> ([], s)
      | Some fut \<Rightarrow>
          if result_pending s then ([], s)
          else
            ([\<lparr>sr_feed = f, sr_poll_id = or_unknown (active_poll_id s),
               sr_value = (case fut of Returned v \<Rightarrow> Some v | _ \<Rightarrow> None),
               sr_worker_error = (case fut of Raised e \<Rightarrow> Some e | _ \<Rightarrow> None),
               sr_scheduled_for_at = (case active_scheduled_for_at s of Some t \<Rightarrow> t | None \<Rightarrow> wall),
               sr_scheduler_lag_ms = active_scheduler_lag_ms s,
               sr_missed_before = active_missed_before_request s\<rparr>],
             s\<lparr>future := None, result_pending := True,
               pending_poll_id := Some (or_unknown (active_poll_id s)), in_flight_started := None,
               total_completed := total_completed s + 1, last_completed := Some now\<rparr>))"

text \<open>The second loop: deadlines that passed are missed, coalesced, or start a request.\<close>

definition due_count :: "seconds \<Rightarrow> 'v feed_schedule \<Rightarrow> int" where
  "due_count now s = \<lfloor>(now - next_deadline s) / interval_seconds s\<rfloor> + 1"

definition note_missed :: "seconds \<Rightarrow> int \<Rightarrow> 'v feed_schedule \<Rightarrow> 'v feed_schedule" where
  "note_missed now n s =
     s\<lparr>total_missed_deadlines := total_missed_deadlines s + n,
       missed_since_last_request := missed_since_last_request s + n, last_missed := Some now\<rparr>"

definition start_request :: "seconds \<Rightarrow> seconds \<Rightarrow> string \<Rightarrow> seconds \<Rightarrow> 'v feed_schedule \<Rightarrow> 'v feed_schedule" where
  "start_request now wall poll_id latest_due s =
     (let lag_ms = max 0 (now - latest_due) * 1000
      in s\<lparr>missed_since_last_request := 0, active_poll_id := Some poll_id,
           active_scheduled_for_at := Some (deadline_wall wall latest_due now),
           active_scheduler_lag_ms := lag_ms,
           active_missed_before_request := missed_since_last_request s,
           in_flight_started := Some now, last_scheduler_lag_ms := Some lag_ms,
           total_submitted := total_submitted s + 1, future := Some Running\<rparr>)"

definition submit :: "seconds \<Rightarrow> seconds \<Rightarrow> string \<Rightarrow> 'v feed_schedule \<Rightarrow> scheduler_error + 'v feed_schedule" where
  "submit now wall poll_id s =
     (if now < next_deadline s then Inr s
      else if interval_seconds s = 0 then Inl ZeroDivision
      else let n = due_count now s;
               latest_due = next_deadline s + of_int (n - 1) * interval_seconds s;
               s1 = s\<lparr>next_deadline := next_deadline s + of_int n * interval_seconds s\<rparr>
           in if future s \<noteq> None then Inr (note_missed now n s1)
              else let coalesced = max 0 (n - 1);
                       s2 = (if coalesced \<noteq> 0 then note_missed now coalesced s1 else s1)
                in Inr (start_request now wall poll_id latest_due s2))"

fun submit_all ::
  "bool \<Rightarrow> seconds \<Rightarrow> seconds \<Rightarrow> (feed \<Rightarrow> string) \<Rightarrow> (feed \<times> 'v feed_schedule) list \<Rightarrow>
   scheduler_error + (feed \<times> 'v feed_schedule) list" where
  "submit_all acc now wall uuid [] = Inr []"
| "submit_all acc now wall uuid ((f, s) # rest) =
     (if \<not> acc then Inr ((f, s) # rest)
      else case submit now wall (uuid f) s of
          Inl e \<Rightarrow> Inl e
        | Inr s' \<Rightarrow> map_sum id ((#) (f, s')) (submit_all acc now wall uuid rest))"

text \<open>\<^verbatim>\<open>queue.Queue(maxsize=n)\<close> is unbounded for \<open>n = 0\<close>; \<^verbatim>\<open>put_nowait\<close> raises when it is full.\<close>

fun put_all :: "nat \<Rightarrow> 'r list \<Rightarrow> 'r list \<Rightarrow> scheduler_error + 'r list" where
  "put_all maxsize q [] = Inr q"
| "put_all maxsize q (r # rs) =
     (if 0 < maxsize \<and> maxsize \<le> length q then Inl QueueFull else put_all maxsize (q @ [r]) rs)"

definition step :: "seconds \<Rightarrow> seconds \<Rightarrow> (feed \<Rightarrow> string) \<Rightarrow> 'v scheduler \<Rightarrow> scheduler_error + 'v scheduler" where
  "step now wall uuid sc =
     (let harvested = map (\<lambda>(f, s). (f, harvest now wall f s)) (schedules sc);
          ready = concat (map (\<lambda>(f, rs, s). rs) harvested)
      in case submit_all (accepting sc) now wall uuid (map (\<lambda>(f, rs, s). (f, s)) harvested) of
          Inl e \<Rightarrow> Inl e
        | Inr ss \<Rightarrow>
            (case put_all (length (schedules sc)) (results sc) ready of
               Inl e \<Rightarrow> Inl e
             | Inr q \<Rightarrow> Inr (sc\<lparr>schedules := ss, results := q\<rparr>)))"

subsection \<open>The other operations\<close>

definition get :: "'v scheduler \<Rightarrow> 'v scheduled_result option \<times> 'v scheduler" where
  "get sc = (case results sc of [] \<Rightarrow> (None, sc) | r # rs \<Rightarrow> (Some r, sc\<lparr>results := rs\<rparr>))"

definition on_feed :: "feed \<Rightarrow> ('v feed_schedule \<Rightarrow> 'v feed_schedule) \<Rightarrow> 'v scheduler \<Rightarrow> 'v scheduler" where
  "on_feed f g sc = sc\<lparr>schedules := map (\<lambda>(f', s). (f', if f' = f then g s else s)) (schedules sc)\<rparr>"

definition acknowledge :: "'v scheduled_result \<Rightarrow> 'v scheduler \<Rightarrow> 'v scheduler" where
  "acknowledge item sc =
     on_feed (sr_feed item)
       (\<lambda>s. if result_pending s \<and> pending_poll_id s = Some (sr_poll_id item)
            then s\<lparr>result_pending := False, pending_poll_id := None\<rparr> else s) sc"

text \<open>The executor finishes the request of a feed.\<close>

definition finish :: "feed \<Rightarrow> 'v future \<Rightarrow> 'v scheduler \<Rightarrow> 'v scheduler" where
  "finish f outcome sc = on_feed f (\<lambda>s. if future s = Some Running then s\<lparr>future := Some outcome\<rparr> else s) sc"

text \<open>How long \<^verbatim>\<open>_run\<close> waits between two steps.\<close>

definition run_timeout :: "seconds \<Rightarrow> 'v scheduler \<Rightarrow> seconds" where
  "run_timeout now sc =
     (let nearest = Min (set (map (\<lambda>(f, s). next_deadline s) (schedules sc)));
          timeout = max 0 (nearest - now);
          timeout' = (if list_ex (\<lambda>(f, s). future s \<noteq> None) (schedules sc) then min timeout (1 / 10) else timeout)
      in min timeout' 1)"

record feed_snapshot =
  ss_interval_seconds :: seconds
  ss_in_flight :: bool
  ss_completed_request_waiting :: bool
  ss_result_pending_processing :: bool
  ss_in_flight_seconds :: "seconds option"
  ss_next_deadline_in_seconds :: seconds
  ss_total_submitted :: int
  ss_total_completed :: int
  ss_total_missed_deadlines :: int
  ss_missed_since_last_request :: int
  ss_seconds_since_missed_deadline :: "seconds option"
  ss_last_scheduler_lag_ms :: "rat option"

definition feed_snapshot_of :: "seconds \<Rightarrow> 'v feed_schedule \<Rightarrow> feed_snapshot" where
  "feed_snapshot_of now s =
     \<lparr>ss_interval_seconds = interval_seconds s,
      ss_in_flight = (future s = Some Running),
      ss_completed_request_waiting = (future s \<noteq> None \<and> future s \<noteq> Some Running),
      ss_result_pending_processing = result_pending s,
      ss_in_flight_seconds = map_option (\<lambda>t. max 0 (now - t)) (in_flight_started s),
      ss_next_deadline_in_seconds = next_deadline s - now,
      ss_total_submitted = total_submitted s, ss_total_completed = total_completed s,
      ss_total_missed_deadlines = total_missed_deadlines s,
      ss_missed_since_last_request = missed_since_last_request s,
      ss_seconds_since_missed_deadline = map_option (\<lambda>t. max 0 (now - t)) (last_missed s),
      ss_last_scheduler_lag_ms = last_scheduler_lag_ms s\<rparr>"

definition snapshot :: "seconds \<Rightarrow> 'v scheduler \<Rightarrow> (feed \<times> feed_snapshot) list" where
  "snapshot now sc = map (\<lambda>(f, s). (f, feed_snapshot_of now s)) (schedules sc)"

text \<open>
  \<^verbatim>\<open>stop_and_drain\<close> after the executor's shutdown has made every future terminal: the queue is
  drained, pending marks are cleared, and one more step moves the finished requests out.
\<close>

definition stop_and_drain ::
  "seconds \<Rightarrow> seconds \<Rightarrow> (feed \<Rightarrow> string) \<Rightarrow> 'v scheduler \<Rightarrow> scheduler_error + 'v scheduled_result list \<times> 'v scheduler" where
  "stop_and_drain now wall uuid sc =
     (let cleared = map (\<lambda>(f, s). (f, s\<lparr>result_pending := False, pending_poll_id := None\<rparr>)) (schedules sc)
      in case step now wall uuid (sc\<lparr>accepting := False, results := [], schedules := cleared\<rparr>) of
          Inl e \<Rightarrow> Inl e
        | Inr sc' \<Rightarrow> Inr (results sc @ results sc', sc'\<lparr>results := []\<rparr>))"


subsection \<open>One feed\<close>

text \<open>
  What holds of every feed: deadlines lie on the grid of the start time, each of them was submitted
  or missed, the last one is not ahead of the clock by a whole interval, and the request in flight
  is the one submitted but not completed.
\<close>

definition feed_inv :: "seconds \<Rightarrow> seconds \<Rightarrow> 'v feed_schedule \<Rightarrow> bool" where
  "feed_inv start clock s \<longleftrightarrow>
     0 < interval_seconds s \<and>
     next_deadline s = start + of_int (total_submitted s + total_missed_deadlines s) * interval_seconds s \<and>
     next_deadline s \<le> clock + interval_seconds s \<and>
     total_submitted s = total_completed s + (if future s = None then 0 else 1)"

definition harvest_state :: "seconds \<Rightarrow> seconds \<Rightarrow> feed \<Rightarrow> 'v feed_schedule \<Rightarrow> 'v feed_schedule" where
  "harvest_state now wall f s = snd (harvest now wall f s)"

lemma harvest_inv: "feed_inv start clock s \<Longrightarrow> feed_inv start clock (harvest_state now wall f s)"
  by (auto simp: harvest_state_def harvest_def feed_inv_def split: option.split future.split)

lemma harvest_deadline [simp]:
  "next_deadline (harvest_state now wall f s) = next_deadline s"
  "interval_seconds (harvest_state now wall f s) = interval_seconds s"
  by (auto simp: harvest_state_def harvest_def split: option.split future.split)

lemma due_count_pos:
  assumes "feed_inv start clock s" and "next_deadline s \<le> now"
  shows "1 \<le> due_count now s"
  using assms by (auto simp: due_count_def feed_inv_def)

lemma due_count_bounds:
  assumes "feed_inv start clock s"
  shows "next_deadline s + of_int (due_count now s - 1) * interval_seconds s \<le> now"
    and "now < next_deadline s + of_int (due_count now s) * interval_seconds s"
proof -
  have pos: "0 < interval_seconds s" using assms by (simp add: feed_inv_def)
  have "of_int (due_count now s - 1) \<le> (now - next_deadline s) / interval_seconds s"
    by (simp add: due_count_def)
  then have "of_int (due_count now s - 1) * interval_seconds s \<le> now - next_deadline s"
    unfolding pos_le_divide_eq [OF pos] .
  then show "next_deadline s + of_int (due_count now s - 1) * interval_seconds s \<le> now" by linarith
  have "(now - next_deadline s) / interval_seconds s < of_int (due_count now s)"
    by (simp add: due_count_def floor_less_iff [symmetric] less_floor_iff) linarith
  then have "now - next_deadline s < of_int (due_count now s) * interval_seconds s"
    unfolding pos_divide_less_eq [OF pos] .
  then show "now < next_deadline s + of_int (due_count now s) * interval_seconds s" by linarith
qed

lemma submit_inv:
  assumes inv: "feed_inv start clock s" and clock: "clock \<le> now"
  shows "\<exists>s'. submit now wall poll_id s = Inr s' \<and> feed_inv start now s' \<and> now < next_deadline s' \<and>
    interval_seconds s' = interval_seconds s \<and> result_pending s' = result_pending s \<and>
    pending_poll_id s' = pending_poll_id s \<and> total_completed s' = total_completed s \<and>
    (if future s' = None then 0 else active_missed_before_request s') + missed_since_last_request s'
      - total_missed_deadlines s' =
    (if future s = None then 0 else active_missed_before_request s) + missed_since_last_request s
      - total_missed_deadlines s"
proof (cases "now < next_deadline s")
  case True
  with inv clock show ?thesis by (auto simp: submit_def feed_inv_def)
next
  case False
  have pos: "interval_seconds s \<noteq> 0" using inv by (simp add: feed_inv_def)
  have n: "1 \<le> due_count now s" using due_count_pos [OF inv] False by simp
  note b = due_count_bounds [OF inv, of now]
  show ?thesis
  proof (cases "future s")
    case None
    then show ?thesis using False pos n b inv clock
      by (auto simp: submit_def Let_def start_request_def note_missed_def feed_inv_def algebra_simps)
  next
    case (Some fut)
    then show ?thesis using False pos n b inv clock
      by (auto simp: submit_def Let_def note_missed_def feed_inv_def algebra_simps)
  qed
qed


subsection \<open>The scheduler with its collector\<close>

text \<open>
  An execution: ticks of the scheduler thread at times that do not go back, requests that finish,
  results that are taken and later acknowledged, and the end of accepting. \<open>sy_delivered\<close> lists all
  results that were ever put into the queue.
\<close>

record 'v sched_system =
  sy_sched :: "'v scheduler"
  sy_taken :: "'v scheduled_result list"
  sy_delivered :: "'v scheduled_result list"
  sy_clock :: seconds

definition new_results :: "'v scheduler \<Rightarrow> 'v scheduler \<Rightarrow> 'v scheduled_result list" where
  "new_results sc sc' = drop (length (results sc)) (results sc')"

inductive sched_step :: "'v sched_system \<Rightarrow> 'v sched_system \<Rightarrow> bool" where
  tick: "sy_clock y \<le> now \<Longrightarrow> step now wall uuid (sy_sched y) = Inr sc' \<Longrightarrow>
    sched_step y (y\<lparr>sy_sched := sc', sy_clock := now,
      sy_delivered := sy_delivered y @ new_results (sy_sched y) sc'\<rparr>)"
| finished: "outcome \<noteq> Running \<Longrightarrow> sched_step y (y\<lparr>sy_sched := finish f outcome (sy_sched y)\<rparr>)"
| take: "get (sy_sched y) = (Some item, sc') \<Longrightarrow>
    sched_step y (y\<lparr>sy_sched := sc', sy_taken := item # sy_taken y\<rparr>)"
| ack: "item \<in> set (sy_taken y) \<Longrightarrow>
    sched_step y (y\<lparr>sy_sched := acknowledge item (sy_sched y), sy_taken := remove1 item (sy_taken y)\<rparr>)"
| stop: "sched_step y (y\<lparr>sy_sched := (sy_sched y)\<lparr>accepting := False\<rparr>\<rparr>)"

definition sched_init :: "(feed \<times> seconds) list \<Rightarrow> seconds \<Rightarrow> 'v sched_system \<Rightarrow> bool" where
  "sched_init intervals start y \<longleftrightarrow>
     distinct (map fst intervals) \<and> list_all (\<lambda>(f, i). 0 < i) intervals \<and>
     y = \<lparr>sy_sched = new_scheduler intervals start, sy_taken = [], sy_delivered = [], sy_clock = start\<rparr>"

definition outstanding :: "'v sched_system \<Rightarrow> feed \<Rightarrow> 'v scheduled_result multiset" where
  "outstanding y f = filter_mset (\<lambda>r. sr_feed r = f) (mset (results (sy_sched y)) + mset (sy_taken y))"

definition reported_missed :: "'v scheduled_result list \<Rightarrow> feed \<Rightarrow> int" where
  "reported_missed rs f = sum_list (map sr_missed_before [r \<leftarrow> rs. sr_feed r = f])"

definition pending_matches :: "'v feed_schedule \<Rightarrow> 'v scheduled_result multiset \<Rightarrow> bool" where
  "pending_matches s rs \<longleftrightarrow>
     (if result_pending s then \<exists>r. rs = {#r#} \<and> pending_poll_id s = Some (sr_poll_id r) else rs = {#})"

definition sched_feed_inv :: "seconds \<Rightarrow> 'v sched_system \<Rightarrow> feed \<Rightarrow> 'v feed_schedule \<Rightarrow> bool" where
  "sched_feed_inv start y f s \<longleftrightarrow>
     feed_inv start (sy_clock y) s \<and>
     pending_matches s (outstanding y f) \<and>
     reported_missed (sy_delivered y) f + (if future s = None then 0 else active_missed_before_request s)
       + missed_since_last_request s = total_missed_deadlines s \<and>
     int (length [r \<leftarrow> sy_delivered y. sr_feed r = f]) = total_completed s"

definition sched_inv :: "(feed \<times> seconds) list \<Rightarrow> seconds \<Rightarrow> 'v sched_system \<Rightarrow> bool" where
  "sched_inv intervals start y \<longleftrightarrow>
     distinct (map fst intervals) \<and> start \<le> sy_clock y \<and>
     map (\<lambda>(f, s). (f, interval_seconds s)) (schedules (sy_sched y)) = intervals \<and>
     (\<forall>r \<in># mset (results (sy_sched y)) + mset (sy_taken y). sr_feed r \<in> fst ` set intervals) \<and>
     (\<forall>(f, s) \<in> set (schedules (sy_sched y)). sched_feed_inv start y f s)"

lemma sched_init_inv: "sched_init intervals start y \<Longrightarrow> sched_inv intervals start y"
  by (fastforce simp: sched_init_def sched_inv_def new_scheduler_def new_schedule_def sched_feed_inv_def
      feed_inv_def pending_matches_def outstanding_def reported_missed_def list_all_iff comp_def split_def
      map_idI)

text \<open>The results that a step makes ready: at most one per feed, and only for feeds without a pending one.\<close>

definition harvest_results :: "seconds \<Rightarrow> seconds \<Rightarrow> (feed \<times> 'v feed_schedule) list \<Rightarrow> 'v scheduled_result list" where
  "harvest_results now wall ss = concat (map (\<lambda>(f, s). fst (harvest now wall f s)) ss)"

lemma harvest_cases:
  obtains (nothing) "fst (harvest now wall f s) = []" "harvest_state now wall f s = s"
  | (result) r where "fst (harvest now wall f s) = [r]" "sr_feed r = f" "\<not> result_pending s" "future s \<noteq> None"
      "sr_missed_before r = active_missed_before_request s"
      "result_pending (harvest_state now wall f s)"
      "pending_poll_id (harvest_state now wall f s) = Some (sr_poll_id r)"
      "future (harvest_state now wall f s) = None"
      "total_completed (harvest_state now wall f s) = total_completed s + 1"
      "missed_since_last_request (harvest_state now wall f s) = missed_since_last_request s"
      "total_missed_deadlines (harvest_state now wall f s) = total_missed_deadlines s"
proof (cases "future s = None \<or> future s = Some Running \<or> result_pending s")
  case True
  then show ?thesis
    by - (rule nothing; auto simp: harvest_state_def harvest_def split: option.split future.split)
next
  case False
  then obtain fut where "future s = Some fut" "fut \<noteq> Running" "\<not> result_pending s" by auto
  then show ?thesis
    by - (rule result [of "hd (fst (harvest now wall f s))"]; cases fut; simp add: harvest_state_def harvest_def)
qed

lemma harvest_ready:
  "concat (map (\<lambda>(f, rs, s). rs) (map (\<lambda>(f, s). (f, harvest now wall f s)) ss)) = harvest_results now wall ss"
  by (simp add: harvest_results_def split_def comp_def)

lemma harvest_states:
  "map (\<lambda>(f, rs, s). (f, s)) (map (\<lambda>(f, s). (f, harvest now wall f s)) ss) =
     map (\<lambda>(f, s). (f, harvest_state now wall f s)) ss"
  by (simp add: harvest_state_def split_def comp_def)

lemma harvest_results_feed:
  assumes "distinct (map fst ss)" and "(f, s) \<in> set ss"
  shows "[r \<leftarrow> harvest_results now wall ss. sr_feed r = f] = fst (harvest now wall f s)"
  using assms
proof (induction ss)
  case (Cons p ss)
  obtain g t where p: "p = (g, t)" by (cases p)
  have same: "[r \<leftarrow> fst (harvest now wall g t). sr_feed r = h] = (if h = g then fst (harvest now wall g t) else [])" for h
    by (rule harvest_cases [of now wall g t]) auto
  have none: "[r \<leftarrow> harvest_results now wall ss. sr_feed r = h] = []" if "h \<notin> fst ` set ss" for h
    using that
  proof (induction ss)
    case (Cons q ss)
    obtain g' t' where "q = (g', t')" by (cases q)
    with Cons show ?case
      by (auto simp: harvest_results_def intro: harvest_cases [of now wall g' t'])
  qed (simp add: harvest_results_def)
  from Cons p show ?case
    by (cases "f = g") (auto simp: harvest_results_def same none [unfolded harvest_results_def] image_iff)
qed simp


definition submitted :: "bool \<Rightarrow> seconds \<Rightarrow> seconds \<Rightarrow> string \<Rightarrow> 'v feed_schedule \<Rightarrow> 'v feed_schedule" where
  "submitted acc now wall poll_id s = (if acc then projr (submit now wall poll_id s) else s)"

lemma submit_all_ok:
  "\<forall>(f, s) \<in> set ss. \<not> isl (submit now wall (uuid f) s) \<Longrightarrow>
     submit_all acc now wall uuid ss = Inr (map (\<lambda>(f, s). (f, submitted acc now wall (uuid f) s)) ss)"
proof (induction ss)
  case (Cons p ss)
  obtain f s where p: "p = (f, s)" by (cases p)
  show ?case
  proof (cases acc)
    case True
    with Cons p show ?thesis by (cases "submit now wall (uuid f) s") (auto simp: submitted_def)
  next
    case False
    then show ?thesis by (auto simp: p submitted_def intro!: map_idI [symmetric])
  qed
qed simp

lemma put_all_ok: "maxsize = 0 \<or> length q + length rs \<le> maxsize \<Longrightarrow> put_all maxsize q rs = Inr (q @ rs)"
  by (induction rs arbitrary: q) auto

lemma distinct_feeds: "\<forall>f. length [r \<leftarrow> xs. sr_feed r = f] \<le> 1 \<Longrightarrow> distinct (map sr_feed xs)"
proof (induction xs)
  case (Cons x xs)
  have "sr_feed r \<noteq> sr_feed x" if "r \<in> set xs" for r
  proof
    assume "sr_feed r = sr_feed x"
    with that have "[q \<leftarrow> xs. sr_feed q = sr_feed x] \<noteq> []" by (auto simp: filter_empty_conv)
    with Cons.prems show False by (auto dest: spec [of _ "sr_feed x"])
  qed
  moreover have "length [r \<leftarrow> xs. sr_feed r = f] \<le> 1" for f
    using Cons.prems [rule_format, of f] by (simp split: if_splits)
  ultimately show ?case using Cons.IH by (simp add: image_iff) metis
qed simp

lemma sched_inv_keys:
  assumes "sched_inv intervals start y"
  shows "map fst (schedules (sy_sched y)) = map fst intervals"
    and "distinct (map fst (schedules (sy_sched y)))"
proof -
  from assms have "map (\<lambda>(f, s). (f, interval_seconds s)) (schedules (sy_sched y)) = intervals"
    and d: "distinct (map fst intervals)" by (auto simp: sched_inv_def)
  then show eq: "map fst (schedules (sy_sched y)) = map fst intervals"
    by (auto simp: comp_def split_def)
  with d show "distinct (map fst (schedules (sy_sched y)))" by simp
qed

lemma queue_fits:
  assumes inv: "sched_inv intervals start y"
  shows "length (results (sy_sched y)) + length (harvest_results now wall (schedules (sy_sched y)))
    \<le> length (schedules (sy_sched y))"
proof -
  let ?ss = "schedules (sy_sched y)" and ?rs = "results (sy_sched y)"
  let ?all = "?rs @ harvest_results now wall ?ss"
  note keys = sched_inv_keys [OF inv]
  have known: "sr_feed r \<in> fst ` set ?ss" if "r \<in> set ?all" for r
  proof -
    have "sr_feed r \<in> fst ` set ?ss" if "r \<in> set ?rs" for r
      using inv that keys(1) by (auto simp: sched_inv_def simp flip: set_map)
    moreover have "sr_feed r \<in> fst ` set ?ss" if "r \<in> set (harvest_results now wall ?ss)" for r
    proof -
      from that obtain f s where fs: "(f, s) \<in> set ?ss" and r: "r \<in> set (fst (harvest now wall f s))"
        by (auto simp: harvest_results_def)
      have "sr_feed r = f" using r by (cases rule: harvest_cases [of now wall f s]) auto
      with fs show ?thesis by force
    qed
    ultimately show ?thesis using that by auto
  qed
  have "length [r \<leftarrow> ?all. sr_feed r = f] \<le> 1" for f
  proof (cases "f \<in> fst ` set ?ss")
    case False
    then have "[r \<leftarrow> ?all. sr_feed r = f] = []" using known by (auto simp: filter_empty_conv simp del: filter_append)
    then show ?thesis by simp
  next
    case True
    then obtain s where s: "(f, s) \<in> set ?ss" by auto
    then have m: "pending_matches s (outstanding y f)" using inv by (auto simp: sched_inv_def sched_feed_inv_def)
    have sub: "length [r \<leftarrow> ?rs. sr_feed r = f] \<le> size (outstanding y f)"
    proof -
      have "length [r \<leftarrow> ?rs. sr_feed r = f] = size (filter_mset (\<lambda>r. sr_feed r = f) (mset ?rs))"
        by (metis mset_filter size_mset)
      then show ?thesis by (simp add: outstanding_def)
    qed
    show ?thesis
      using m sub harvest_results_feed [OF keys(2) s, of now wall]
      by (cases rule: harvest_cases [of now wall f s]) (auto simp: pending_matches_def split: if_splits)
  qed
  then have "distinct (map sr_feed ?all)" by (intro distinct_feeds) blast
  then have "length ?all = card (set (map sr_feed ?all))" by (metis distinct_card length_map)
  also have "... \<le> card (set (map fst ?ss))" using known by (intro card_mono) auto
  also have "... = length ?ss" using keys(2) by (metis distinct_card length_map)
  finally show ?thesis by simp
qed

lemma step_ok:
  assumes inv: "sched_inv intervals start y" and clock: "sy_clock y \<le> now"
  shows "step now wall uuid (sy_sched y) = Inr ((sy_sched y)\<lparr>
    schedules := map (\<lambda>(f, s). (f, submitted (accepting (sy_sched y)) now wall (uuid f) (harvest_state now wall f s)))
      (schedules (sy_sched y)),
    results := results (sy_sched y) @ harvest_results now wall (schedules (sy_sched y))\<rparr>)"
proof -
  let ?ss = "schedules (sy_sched y)"
  have "\<not> isl (submit now wall (uuid f) (harvest_state now wall f s))" if "(f, s) \<in> set ?ss" for f s
  proof -
    from inv that have "feed_inv start (sy_clock y) s" by (auto simp: sched_inv_def sched_feed_inv_def)
    from submit_inv [OF harvest_inv [OF this] clock] show ?thesis by (metis sum.disc(2))
  qed
  then have sub: "submit_all (accepting (sy_sched y)) now wall uuid (map (\<lambda>(f, s). (f, harvest_state now wall f s)) ?ss) =
      Inr (map (\<lambda>(f, s). (f, submitted (accepting (sy_sched y)) now wall (uuid f) s))
        (map (\<lambda>(f, s). (f, harvest_state now wall f s)) ?ss))"
    by (intro submit_all_ok) auto
  have put: "put_all (length ?ss) (results (sy_sched y)) (harvest_results now wall ?ss) =
      Inr (results (sy_sched y) @ harvest_results now wall ?ss)"
    using queue_fits [OF inv, of now wall] by (intro put_all_ok) simp
  show ?thesis
    unfolding step_def Let_def harvest_states harvest_ready sub sum.case put by (simp add: split_def comp_def)
qed


lemma schedules_values:
  "sched_inv intervals start y \<Longrightarrow> (f, s) \<in> set (schedules (sy_sched y)) \<Longrightarrow> sched_feed_inv start y f s"
  by (auto simp: sched_inv_def)

lemma tick_feed_inv:
  assumes inv: "sched_inv intervals start y" and clock: "sy_clock y \<le> now"
    and s: "(f, s) \<in> set (schedules (sy_sched y))"
    and y': "results (sy_sched y') = results (sy_sched y) @ harvest_results now wall (schedules (sy_sched y))"
      "sy_taken y' = sy_taken y" "sy_clock y' = now"
      "sy_delivered y' = sy_delivered y @ harvest_results now wall (schedules (sy_sched y))"
  shows "sched_feed_inv start y' f (submitted acc now wall (uuid f) (harvest_state now wall f s))"
    and "interval_seconds (submitted acc now wall (uuid f) (harvest_state now wall f s)) = interval_seconds s"
proof -
  let ?h = "harvest_state now wall f s"
  from schedules_values [OF inv s] have old: "feed_inv start (sy_clock y) s" "pending_matches s (outstanding y f)"
    "reported_missed (sy_delivered y) f + (if future s = None then 0 else active_missed_before_request s)
       + missed_since_last_request s = total_missed_deadlines s"
    "int (length [r \<leftarrow> sy_delivered y. sr_feed r = f]) = total_completed s"
    by (auto simp: sched_feed_inv_def)
  note new = harvest_results_feed [OF sched_inv_keys(2) [OF inv] s, of now wall]
  have out: "outstanding y' f = outstanding y f + mset (fst (harvest now wall f s))"
    by (simp add: outstanding_def y' new flip: mset_filter)
  from submit_inv [where wall = wall and poll_id = "uuid f",
      OF harvest_inv [OF old(1), where now = now and wall = wall and f = f] clock] obtain s' where
    s': "submit now wall (uuid f) ?h = Inr s'" "feed_inv start now s'" "interval_seconds s' = interval_seconds s"
      "result_pending s' = result_pending ?h" "pending_poll_id s' = pending_poll_id ?h"
      "total_completed s' = total_completed ?h"
      "(if future s' = None then 0 else active_missed_before_request s') + missed_since_last_request s'
        - total_missed_deadlines s' =
      (if future ?h = None then 0 else active_missed_before_request ?h) + missed_since_last_request ?h
        - total_missed_deadlines ?h" by auto
  have mid: "pending_matches ?h (outstanding y' f)" "feed_inv start now ?h"
    "reported_missed (sy_delivered y') f + (if future ?h = None then 0 else active_missed_before_request ?h)
       + missed_since_last_request ?h = total_missed_deadlines ?h"
    "int (length [r \<leftarrow> sy_delivered y'. sr_feed r = f]) = total_completed ?h"
  proof -
    show "feed_inv start now ?h" using harvest_inv [OF old(1), of now wall f] clock by (auto simp: feed_inv_def)
    show "pending_matches ?h (outstanding y' f)"
      using old(2) out by (cases rule: harvest_cases [of now wall f s]) (auto simp: pending_matches_def)
    show "reported_missed (sy_delivered y') f + (if future ?h = None then 0 else active_missed_before_request ?h)
       + missed_since_last_request ?h = total_missed_deadlines ?h"
      using old(3) new y'(4)
      by (cases rule: harvest_cases [of now wall f s]) (auto simp: reported_missed_def)
    show "int (length [r \<leftarrow> sy_delivered y'. sr_feed r = f]) = total_completed ?h"
      using old(4) new y'(4) by (cases rule: harvest_cases [of now wall f s]) auto
  qed
  show "sched_feed_inv start y' f (submitted acc now wall (uuid f) ?h)"
    using mid s' by (auto simp: sched_feed_inv_def submitted_def y'(3) pending_matches_def)
  show "interval_seconds (submitted acc now wall (uuid f) ?h) = interval_seconds s"
    using s' by (simp add: submitted_def)
qed

lemma on_feed_inv:
  assumes inv: "sched_inv intervals start y"
    and y': "schedules (sy_sched y') = schedules (on_feed f g (sy_sched y))"
      "sy_clock y' = sy_clock y" "sy_delivered y' = sy_delivered y"
      "mset (results (sy_sched y')) + mset (sy_taken y') \<subseteq># mset (results (sy_sched y)) + mset (sy_taken y)"
      "\<And>f'. f' \<noteq> f \<Longrightarrow> outstanding y' f' = outstanding y f'"
    and g: "\<And>s. (f, s) \<in> set (schedules (sy_sched y)) \<Longrightarrow> sched_feed_inv start y f s \<Longrightarrow>
      sched_feed_inv start y' f (g s) \<and> interval_seconds (g s) = interval_seconds s"
  shows "sched_inv intervals start y'"
proof -
  have same: "sched_feed_inv start y' f' s" if "sched_feed_inv start y f' s" "f' \<noteq> f" for f' s
    using that y'(2,3,5) by (simp add: sched_feed_inv_def)
  have keys: "map (\<lambda>(f, s). (f, interval_seconds s)) (schedules (sy_sched y')) =
      map (\<lambda>(f, s). (f, interval_seconds s)) (schedules (sy_sched y))"
    unfolding y'(1) using g schedules_values [OF inv] by (auto simp: on_feed_def)
  have feeds: "sched_feed_inv start y' f' s" if "(f', s) \<in> set (schedules (sy_sched y'))" for f' s
    using that g same schedules_values [OF inv] unfolding y'(1) by (auto simp: on_feed_def split: if_splits)
  have items: "r \<in># mset (results (sy_sched y)) + mset (sy_taken y)"
    if "r \<in># mset (results (sy_sched y')) + mset (sy_taken y')" for r
    using mset_subset_eqD [OF y'(4) that] .
  show ?thesis
    unfolding sched_inv_def keys y'(2)
  proof (intro conjI ballI)
    show "sr_feed r \<in> fst ` set intervals" if "r \<in># mset (results (sy_sched y')) + mset (sy_taken y')" for r
      using items [OF that] inv by (simp add: sched_inv_def)
    show "case p of (f, s) \<Rightarrow> sched_feed_inv start y' f s" if "p \<in> set (schedules (sy_sched y'))" for p
      using that feeds by (auto split: prod.split)
  qed (use inv in \<open>simp_all add: sched_inv_def\<close>)
qed

lemma sched_step_inv:
  assumes inv: "sched_inv intervals start y" and st: "sched_step y y'"
  shows "sched_inv intervals start y'"
  using st
proof cases
  case (tick now wall uuid sc')
  let ?ss = "schedules (sy_sched y)" and ?acc = "accepting (sy_sched y)"
  let ?next = "\<lambda>f s. submitted ?acc now wall (uuid f) (harvest_state now wall f s)"
  from step_ok [OF inv tick(2), of wall uuid] tick(3) have sc': "sc' = (sy_sched y)\<lparr>
      schedules := map (\<lambda>(f, s). (f, ?next f s)) ?ss,
      results := results (sy_sched y) @ harvest_results now wall ?ss\<rparr>" by simp
  have y': "results (sy_sched y') = results (sy_sched y) @ harvest_results now wall ?ss" "sy_taken y' = sy_taken y"
    "sy_clock y' = now" "sy_delivered y' = sy_delivered y @ harvest_results now wall ?ss"
    "schedules (sy_sched y') = map (\<lambda>(f, s). (f, ?next f s)) ?ss"
    using tick(1) by (simp_all add: sc' new_results_def)
  note feed = tick_feed_inv [OF inv tick(2) _ y'(1-4), where acc = ?acc and uuid = uuid]
  have keys: "map (\<lambda>(f, s). (f, interval_seconds s)) (schedules (sy_sched y')) = intervals"
    using feed(2) inv unfolding y'(5) by (auto simp: sched_inv_def comp_def split_def intro!: map_cong)
  have known: "sr_feed r \<in> fst ` set intervals" if "r \<in> set (harvest_results now wall ?ss)" for r
  proof -
    from that obtain f s where fs: "(f, s) \<in> set ?ss" and r: "r \<in> set (fst (harvest now wall f s))"
      by (auto simp: harvest_results_def)
    have "sr_feed r = f" using r by (cases rule: harvest_cases [of now wall f s]) auto
    moreover have "f \<in> set (map fst intervals)" using fs unfolding sched_inv_keys(1) [OF inv, symmetric] by force
    ultimately show ?thesis by simp
  qed
  show ?thesis
    unfolding sched_inv_def keys
  proof (intro conjI ballI)
    show "sr_feed r \<in> fst ` set intervals" if "r \<in># mset (results (sy_sched y')) + mset (sy_taken y')" for r
      using that known inv by (auto simp: y' sched_inv_def)
    show "case p of (f, s) \<Rightarrow> sched_feed_inv start y' f s" if "p \<in> set (schedules (sy_sched y'))" for p
      using that feed(1) by (auto simp: y'(5))
  qed (use inv tick(2) y'(3) in \<open>simp_all add: sched_inv_def\<close>)
next
  case (finished outcome f)
  show ?thesis
    by (rule on_feed_inv [OF inv, where f = f and g = "\<lambda>s. if future s = Some Running then s\<lparr>future := Some outcome\<rparr> else s"])
      (auto simp: finished(1) finish_def on_feed_def outstanding_def sched_feed_inv_def feed_inv_def pending_matches_def)
next
  case (take item sc')
  then have q: "results (sy_sched y) = item # results sc'" and sc': "schedules sc' = schedules (sy_sched y)"
    by (auto simp: get_def split: list.splits)
  have out: "outstanding y' = outstanding y" using take(1) q by (auto simp: outstanding_def fun_eq_iff)
  have "sched_feed_inv start y' f s \<longleftrightarrow> sched_feed_inv start y f s" for f s
    unfolding sched_feed_inv_def out by (simp add: take(1))
  with inv show ?thesis unfolding sched_inv_def take(1) by (auto simp: q sc' take(1))
next
  case (ack item)
  let ?f = "sr_feed item"
  have item: "item \<in># outstanding y ?f" using ack(2) by (simp add: outstanding_def)
  show ?thesis
  proof (rule on_feed_inv [OF inv, where f = ?f and g = "\<lambda>s. if result_pending s \<and> pending_poll_id s = Some (sr_poll_id item)
            then s\<lparr>result_pending := False, pending_poll_id := None\<rparr> else s"])
    have out: "outstanding y' ?f = outstanding y ?f - {#item#}"
      using ack by (simp add: outstanding_def acknowledge_def on_feed_def)
    show "sched_feed_inv start y' ?f (if result_pending s \<and> pending_poll_id s = Some (sr_poll_id item)
            then s\<lparr>result_pending := False, pending_poll_id := None\<rparr> else s) \<and>
        interval_seconds (if result_pending s \<and> pending_poll_id s = Some (sr_poll_id item)
            then s\<lparr>result_pending := False, pending_poll_id := None\<rparr> else s) = interval_seconds s"
      if "sched_feed_inv start y ?f s" for s
    proof -
      from that item have "result_pending s" "outstanding y ?f = {#item#}" "pending_poll_id s = Some (sr_poll_id item)"
        by (auto simp: sched_feed_inv_def pending_matches_def split: if_splits)
      with that out show ?thesis
        by (auto simp: sched_feed_inv_def pending_matches_def feed_inv_def ack(1))
    qed
  qed (auto simp: ack(1) acknowledge_def on_feed_def outstanding_def)
next
  case stop
  have "sched_feed_inv start y' f s \<longleftrightarrow> sched_feed_inv start y f s" for f s
    by (simp add: sched_feed_inv_def outstanding_def stop)
  with inv show ?thesis by (simp add: sched_inv_def stop)
qed

interpretation sched_sys: transition_system "sched_init intervals start" sched_step "sched_inv intervals start"
  for intervals start
  by unfold_locales (auto intro: sched_init_inv sched_step_inv)


lemma submit_all_refused: "submit_all False now wall uuid ss = Inr ss"
  by (cases ss) auto

lemma length_harvest_results: "length (harvest_results now wall ss) \<le> length ss"
proof (induction ss)
  case (Cons p ss)
  obtain f s where p: "p = (f, s)" by (cases p)
  have "length (fst (harvest now wall f s)) \<le> 1" by (rule harvest_cases [of now wall f s]) auto
  with Cons p show ?case by (simp add: harvest_results_def)
qed (simp add: harvest_results_def)

lemma step_refused:
  assumes "\<not> accepting sc" and "results sc = []"
  shows "step now wall uuid sc = Inr (sc\<lparr>schedules := map (\<lambda>(f, s). (f, harvest_state now wall f s)) (schedules sc),
    results := harvest_results now wall (schedules sc)\<rparr>)"
proof -
  have "put_all (length (schedules sc)) [] (harvest_results now wall (schedules sc)) =
      Inr (harvest_results now wall (schedules sc))"
    by (rule put_all_ok [where q = "[]", unfolded append_Nil]) (simp add: length_harvest_results)
  with assms show ?thesis
    unfolding step_def Let_def harvest_states harvest_ready by (simp add: submit_all_refused)
qed

subsection \<open>Properties\<close>

text \<open>
  A run for the witnesses: one feed with interval 10 from time 100. The step at 100 starts a request,
  the step at 125 finds it still running and misses two deadlines, and then the request returns.
\<close>

definition demo_ids :: "feed \<Rightarrow> string" where
  "demo_ids f = ''p1''"

definition demo_start :: "nat sched_system" where
  "demo_start = \<lparr>sy_sched = new_scheduler [(Alerts, 10)] 100, sy_taken = [], sy_delivered = [], sy_clock = 100\<rparr>"

definition demo_schedule :: "nat feed_schedule" where
  "demo_schedule = (new_schedule 10 130)\<lparr>future := Some Running, active_poll_id := Some ''p1'',
     active_scheduled_for_at := Some 500, in_flight_started := Some 100, total_submitted := 1,
     total_missed_deadlines := 2, missed_since_last_request := 2, last_scheduler_lag_ms := Some 0,
     last_missed := Some 125\<rparr>"

definition demo_late :: "nat sched_system" where
  "demo_late = \<lparr>sy_sched = \<lparr>schedules = [(Alerts, demo_schedule)], results = [], accepting = True\<rparr>,
     sy_taken = [], sy_delivered = [], sy_clock = 125\<rparr>"

definition demo_done :: "nat sched_system" where
  "demo_done = demo_late\<lparr>sy_sched := finish Alerts (Returned 7) (sy_sched demo_late)\<rparr>"

lemma demo_floor: "\<lfloor>3 / 2 :: rat\<rfloor> = 1" "\<lfloor>51 / 10 :: rat\<rfloor> = 5" "\<lfloor>21 / 10 :: rat\<rfloor> = 2"
  by (rule floor_unique; simp)+

lemmas sched_demo_simps = demo_floor step_def harvest_def submit_def due_count_def start_request_def note_missed_def
  deadline_wall_def new_scheduler_def new_schedule_def demo_ids_def Let_def

definition demo_first :: "nat scheduler" where
  "demo_first = \<lparr>schedules = [(Alerts, (new_schedule 10 110)\<lparr>future := Some Running, active_poll_id := Some ''p1'',
     active_scheduled_for_at := Some 500, in_flight_started := Some 100, total_submitted := 1,
     last_scheduler_lag_ms := Some 0\<rparr>)], results = [], accepting = True\<rparr>"

lemma demo_late_reachable: "reachable (sched_init [(Alerts, 10)] 100) sched_step demo_late"
proof -
  have start: "reachable (sched_init [(Alerts, 10)] 100) sched_step demo_start"
    by (rule reach_init) (simp add: sched_init_def demo_start_def)
  have s1: "step 100 500 demo_ids (sy_sched demo_start) = Inr demo_first"
    by (simp add: demo_start_def demo_first_def sched_demo_simps)
  have s2: "step 125 525 demo_ids demo_first = Inr (sy_sched demo_late)"
    by (simp add: demo_late_def demo_first_def demo_schedule_def sched_demo_simps)
  let ?y = "\<lparr>sy_sched = demo_first, sy_taken = [], sy_delivered = [], sy_clock = 100\<rparr>"
  have none: "results demo_first = []" "results (sy_sched demo_late) = []"
    by (simp_all add: demo_first_def demo_late_def)
  have one: "sched_step demo_start ?y"
    using sched_step.tick [OF _ s1] by (simp add: demo_start_def new_results_def none)
  have "demo_late = ?y\<lparr>sy_sched := sy_sched demo_late, sy_clock := 125,
      sy_delivered := sy_delivered ?y @ new_results (sy_sched ?y) (sy_sched demo_late)\<rparr>"
    unfolding new_results_def none by (simp add: demo_late_def)
  moreover have "sched_step ?y (?y\<lparr>sy_sched := sy_sched demo_late, sy_clock := 125,
      sy_delivered := sy_delivered ?y @ new_results (sy_sched ?y) (sy_sched demo_late)\<rparr>)"
    by (rule sched_step.tick [where wall = 525 and uuid = demo_ids]) (simp_all add: s2)
  ultimately have two: "sched_step ?y demo_late" by (rule ssubst)
  show ?thesis by (rule reach_step [OF reach_step [OF start one] two])
qed

lemma demo_done_reachable: "reachable (sched_init [(Alerts, 10)] 100) sched_step demo_done"
  using reach_step [OF demo_late_reachable sched_step.finished [of "Returned 7" demo_late Alerts]]
  by (simp add: demo_done_def)

text \<open>
  Claim C30. Every deadline is accounted for. After a step of an accepting scheduler at time \<open>now\<close>, the
  deadlines of a feed from the start up to \<open>now\<close>, one per interval, are exactly those submitted plus
  those counted as missed, and the next deadline is the first grid point after \<open>now\<close>, however late
  the step came, whatever the requests and their consumer did.
\<close>

theorem deadlines_accounted:
  assumes "reachable (sched_init intervals start) sched_step y" and "sy_clock y \<le> now"
    and "accepting (sy_sched y)" and "step now wall uuid (sy_sched y) = Inr sc'"
    and "(f, s) \<in> set (schedules sc')"
  shows "total_submitted s + total_missed_deadlines s = \<lfloor>(now - start) / interval_seconds s\<rfloor> + 1 \<and>
    next_deadline s = start + of_int (\<lfloor>(now - start) / interval_seconds s\<rfloor> + 1) * interval_seconds s"
proof -
  have inv: "sched_inv intervals start y" by (rule sched_sys.reachable_inv [OF assms(1)])
  from step_ok [OF inv assms(2), of wall uuid] assms(3-5) obtain s0 where
    s0: "(f, s0) \<in> set (schedules (sy_sched y))" and s: "s = submitted True now wall (uuid f) (harvest_state now wall f s0)"
    by auto
  from schedules_values [OF inv s0] have "feed_inv start (sy_clock y) s0" by (simp add: sched_feed_inv_def)
  from submit_inv [where wall = wall and poll_id = "uuid f",
      OF harvest_inv [OF this, where now = now and wall = wall and f = f] assms(2)] s
  have n: "feed_inv start now s" "now < next_deadline s" by (auto simp: submitted_def)
  let ?k = "total_submitted s + total_missed_deadlines s"
  from n have pos: "0 < interval_seconds s" and nd: "next_deadline s = start + of_int ?k * interval_seconds s"
    and late: "next_deadline s \<le> now + interval_seconds s" by (auto simp: feed_inv_def)
  have "now - start < of_int ?k * interval_seconds s" using n(2) nd by linarith
  then have "(now - start) / interval_seconds s < of_int ?k" unfolding pos_divide_less_eq [OF pos] .
  moreover have "of_int (?k - 1) * interval_seconds s \<le> now - start"
    using late nd by (simp add: algebra_simps)
  then have "of_int (?k - 1) \<le> (now - start) / interval_seconds s" unfolding pos_le_divide_eq [OF pos] .
  ultimately have "\<lfloor>(now - start) / interval_seconds s\<rfloor> = ?k - 1" by (intro floor_unique) auto
  with nd show ?thesis by simp
qed

lemma deadlines_accounted_witness:
  "\<exists>sc' s. step 151 551 demo_ids (sy_sched demo_done) = Inr sc' \<and> (Alerts, s) \<in> set (schedules sc') \<and>
     total_submitted s + total_missed_deadlines s = 6 \<and> next_deadline s = 160"
proof -
  have "\<exists>sc' s. step 151 551 demo_ids (sy_sched demo_done) = Inr sc' \<and> (Alerts, s) \<in> set (schedules sc') \<and>
      interval_seconds s = 10"
    by (simp add: demo_done_def demo_late_def demo_schedule_def finish_def on_feed_def or_unknown_def sched_demo_simps)
  then obtain sc' s where sc': "step 151 551 demo_ids (sy_sched demo_done) = Inr sc'"
    and s: "(Alerts, s) \<in> set (schedules sc')" "interval_seconds s = 10" by blast
  have "sy_clock demo_done \<le> 151" "accepting (sy_sched demo_done)"
    by (simp_all add: demo_done_def demo_late_def finish_def on_feed_def)
  from deadlines_accounted [OF demo_done_reachable this sc' s(1)] sc' s show ?thesis by (auto simp: demo_floor)
qed

text \<open>
  Claim C32. Overload coalesces, it does not accumulate. In every reachable state no feed has more than
  one result that is queued or being processed, and a step never raises: the bounded queue has room
  for everything the step puts into it.
\<close>

theorem step_never_overflows:
  assumes "reachable (sched_init intervals start) sched_step y" and "sy_clock y \<le> now"
  shows "(\<exists>sc'. step now wall uuid (sy_sched y) = Inr sc' \<and> length (results sc') \<le> length intervals) \<and>
    size (filter_mset (\<lambda>r. sr_feed r = f) (mset (results (sy_sched y)) + mset (sy_taken y))) \<le> 1"
proof -
  have inv: "sched_inv intervals start y" by (rule sched_sys.reachable_inv [OF assms(1)])
  have len: "length (schedules (sy_sched y)) = length intervals"
    using sched_inv_keys(1) [OF inv] by (metis length_map)
  have "size (outstanding y f) \<le> 1"
  proof (cases "f \<in> fst ` set (schedules (sy_sched y))")
    case True
    then obtain s where "(f, s) \<in> set (schedules (sy_sched y))" by auto
    from schedules_values [OF inv this] show ?thesis
      by (auto simp: sched_feed_inv_def pending_matches_def split: if_splits)
  next
    case False
    then have f: "f \<notin> fst ` set intervals" using sched_inv_keys(1) [OF inv] by (metis list.set_map)
    have "sr_feed r \<noteq> f" if "r \<in># mset (results (sy_sched y)) + mset (sy_taken y)" for r
      using f inv that unfolding sched_inv_def by blast
    then have "outstanding y f = {#}"
      unfolding outstanding_def filter_mset_eq_conv by simp
    then show ?thesis by simp
  qed
  then show ?thesis
    using step_ok [OF inv assms(2), of wall uuid] queue_fits [OF inv, of now wall] len
    by (simp add: outstanding_def)
qed

lemma step_never_overflows_witness:
  "(\<exists>sc'. step 151 551 demo_ids (sy_sched demo_done) = Inr sc' \<and> length (results sc') \<le> 1) \<and>
    size (filter_mset (\<lambda>r. sr_feed r = Alerts) (mset (results (sy_sched demo_done)) + mset (sy_taken demo_done))) \<le> 1"
  using step_never_overflows [OF demo_done_reachable, of 151 551 demo_ids Alerts]
  by (simp add: demo_done_def demo_late_def)

text \<open>
  Missed deadlines are reported once. The missed deadlines of a feed are those carried by the
  results delivered so far, those that the request in flight will report, and those not yet attached to
  a request; and every completed request delivered exactly one result.
\<close>

theorem missed_deadlines_reported_once:
  assumes "reachable (sched_init intervals start) sched_step y"
    and "(f, s) \<in> set (schedules (sy_sched y))"
  shows "sum_list (map sr_missed_before [r \<leftarrow> sy_delivered y. sr_feed r = f])
      + (if future s = None then 0 else active_missed_before_request s) + missed_since_last_request s
      = total_missed_deadlines s \<and>
    int (length [r \<leftarrow> sy_delivered y. sr_feed r = f]) + (if future s = None then 0 else 1) = total_submitted s"
  using schedules_values [OF sched_sys.reachable_inv [OF assms(1)] assms(2)]
  by (auto simp: sched_feed_inv_def reported_missed_def feed_inv_def)

lemma missed_deadlines_reported_once_witness:
  "missed_since_last_request demo_schedule = 2 \<and>
   sum_list (map sr_missed_before [r \<leftarrow> sy_delivered demo_late. sr_feed r = Alerts])
      + (if future demo_schedule = None then 0 else active_missed_before_request demo_schedule)
      + missed_since_last_request demo_schedule = total_missed_deadlines demo_schedule"
  using missed_deadlines_reported_once [OF demo_late_reachable, of Alerts demo_schedule]
  by (simp add: demo_late_def) (simp add: demo_schedule_def)

text \<open>
  Claim C35. Shutdown loses no result. When the executor's shutdown has ended every request,
  \<^verbatim>\<open>stop_and_drain\<close> returns the queued results and one result for every request that was still in
  flight, nothing is submitted any more, and every submitted request is completed.
\<close>

theorem stop_and_drain_complete:
  assumes "reachable (sched_init intervals start) sched_step y"
    and "list_all (\<lambda>(f, s). future s \<noteq> Some Running) (schedules (sy_sched y))"
  shows "\<exists>drained sc'. stop_and_drain now wall uuid (sy_sched y) = Inr (drained, sc') \<and> results sc' = [] \<and>
    map (\<lambda>(f, s). (f, total_submitted s)) (schedules sc') =
      map (\<lambda>(f, s). (f, total_submitted s)) (schedules (sy_sched y)) \<and>
    list_all (\<lambda>(f, s). future s = None \<and> total_completed s = total_submitted s) (schedules sc') \<and>
    list_all (\<lambda>(f, s). length [r \<leftarrow> drained. sr_feed r = f] =
        length [r \<leftarrow> results (sy_sched y). sr_feed r = f] + (if future s = None then 0 else 1)) (schedules (sy_sched y))"
proof -
  let ?ss = "schedules (sy_sched y)"
  have inv: "sched_inv intervals start y" by (rule sched_sys.reachable_inv [OF assms(1)])
  let ?clear = "\<lambda>s. s\<lparr>result_pending := False, pending_poll_id := None\<rparr>"
  let ?cs = "map (\<lambda>(f, s). (f, ?clear s)) ?ss"
  let ?ss' = "map (\<lambda>(f, s). (f, harvest_state now wall f (?clear s))) ?ss"
  have eq: "stop_and_drain now wall uuid (sy_sched y) =
      Inr (results (sy_sched y) @ harvest_results now wall ?cs,
        (sy_sched y)\<lparr>accepting := False, results := [], schedules := ?ss'\<rparr>)"
    by (simp add: stop_and_drain_def step_refused Let_def split_def comp_def)
  have one: "fst (harvest now wall f (?clear s)) = [] \<longleftrightarrow> future s = None"
    "length (fst (harvest now wall f (?clear s))) = (if future s = None then 0 else 1)"
    "future (harvest_state now wall f (?clear s)) = None"
    "total_submitted (harvest_state now wall f (?clear s)) = total_submitted s"
    "total_completed (harvest_state now wall f (?clear s)) = total_submitted s"
    if "(f, s) \<in> set ?ss" for f s
  proof -
    from that assms(2) have "future s \<noteq> Some Running" by (auto simp: list_all_iff)
    moreover from schedules_values [OF inv that] have "feed_inv start (sy_clock y) s" by (simp add: sched_feed_inv_def)
    ultimately show "fst (harvest now wall f (?clear s)) = [] \<longleftrightarrow> future s = None"
      "length (fst (harvest now wall f (?clear s))) = (if future s = None then 0 else 1)"
      "future (harvest_state now wall f (?clear s)) = None"
      "total_submitted (harvest_state now wall f (?clear s)) = total_submitted s"
      "total_completed (harvest_state now wall f (?clear s)) = total_submitted s"
      by (auto simp: harvest_def harvest_state_def feed_inv_def split: option.split future.split)
  qed
  have "distinct (map fst ?cs)" using sched_inv_keys(2) [OF inv] by (simp add: comp_def split_def)
  then have "length [r \<leftarrow> harvest_results now wall ?cs. sr_feed r = f] = (if future s = None then 0 else 1)"
    if "(f, s) \<in> set ?ss" for f s
    using harvest_results_feed [of ?cs f "?clear s" now wall] one(2) [OF that] that by force
  with eq one(3-5) show ?thesis
    by (auto simp: list_all_iff split_def comp_def)
qed

lemma stop_and_drain_complete_witness:
  "\<exists>drained sc'. stop_and_drain 151 551 demo_ids (sy_sched demo_done) = Inr (drained, sc') \<and> results sc' = [] \<and>
     length [r \<leftarrow> drained. sr_feed r = Alerts] = 1"
proof -
  have "list_all (\<lambda>(f, s). future s \<noteq> Some Running) (schedules (sy_sched demo_done))"
    by (simp add: demo_done_def demo_late_def demo_schedule_def finish_def on_feed_def)
  from stop_and_drain_complete [OF demo_done_reachable this, of 151 551 demo_ids] show ?thesis
    by (auto simp: demo_done_def demo_late_def demo_schedule_def finish_def on_feed_def)
qed

end
