(* ===== verification/Dedup.thy ===== *)
theory Dedup
  imports Interfaces
begin

section \<open>Change-and-heartbeat filtering (bkk_collector/realtime/dedup.py)\<close>

text \<open>
  \<^verbatim>\<open>ChangeTracker\<close> lets a row through when its key is new, a tracked field changed against the last
  written row, or the heartbeat elapsed. The constructor's arguments are \<open>tracker_args\<close>, the
  fields it fixes are \<open>tracker_config\<close>, and the fields the methods assign are \<open>tracker\<close>: \<open>t_last\<close> is
  \<^verbatim>\<open>_last\<close>, from a key tuple to the exact values, the numeric values and the time they were last
  written. \<^verbatim>\<open>float("-inf")\<close> as the last expiry is \<open>None\<close>.
\<close>

subsection \<open>Construction\<close>

record tracker_args =
  a_key_fields :: "string list"
  a_value_fields :: "string list"
  a_heartbeat_seconds :: seconds
  a_numeric_tolerance_fields :: "string list"
  a_tolerance :: pynum
  a_numeric_tolerances :: "(string \<times> pynum) list"
  a_required_signal_fields :: "string list"
  a_null_guard_min_rows :: int

record tracker_config =
  key_fields :: "string list"
  value_fields :: "string list"
  heartbeat_seconds :: seconds
  numeric_tolerance_fields :: "string list"
  tolerance :: rat
  numeric_tolerances :: "(string \<times> rat) list"
  required_signal_fields :: "string list"
  null_guard_min_rows :: int

type_synonym tkey = "pyval list"
type_synonym entry = "pyval list \<times> pyval list \<times> seconds"

record tracker =
  consecutive_all_null_rows :: int
  t_last :: "tkey \<Rightarrow> entry option"
  t_day :: "string option"
  last_expiry :: "seconds option"

datatype tracker_error =
    UnknownTolerances "string list"
  | BadTolerance
  | NoTrackedFields
  | UnknownSignals "string list"
  | BadNullGuard
  | ChangeTrackerSignalError int
  | TrackerTypeError

definition fresh_tracker :: tracker where
  "fresh_tracker = \<lparr>consecutive_all_null_rows = 0, t_last = Map.empty, t_day = None, last_expiry = None\<rparr>"

text \<open>
  \<^verbatim>\<open>ChangeTracker.__init__\<close>. \<open>sort remdups\<close> is \<^verbatim>\<open>sorted(set(...))\<close>. An unusable tolerance is
  one that is not finite or negative.
\<close>

definition bad_tolerance :: "pynum \<Rightarrow> bool" where
  "bad_tolerance v \<longleftrightarrow> \<not> is_finite v \<or> num_val v < 0"

definition make_change_tracker :: "tracker_args \<Rightarrow> tracker_error + tracker_config \<times> tracker" where
  "make_change_tracker a =
     (let unknown_tolerances = [f \<leftarrow> map fst (a_numeric_tolerances a). f \<notin> set (a_numeric_tolerance_fields a)];
          tracked = a_value_fields a @ a_numeric_tolerance_fields a;
          required = (if a_required_signal_fields a \<noteq> [] then a_required_signal_fields a
                      else sort (remdups tracked));
          unknown_signals = [f \<leftarrow> required. f \<notin> set tracked]
      in if unknown_tolerances \<noteq> [] then Inl (UnknownTolerances (sort (remdups unknown_tolerances)))
         else if bad_tolerance (a_tolerance a) \<or> list_ex bad_tolerance (map snd (a_numeric_tolerances a))
         then Inl BadTolerance
         else if tracked = [] then Inl NoTrackedFields
         else if unknown_signals \<noteq> [] then Inl (UnknownSignals (sort (remdups unknown_signals)))
         else if a_null_guard_min_rows a \<le> 0 then Inl BadNullGuard
         else Inr (\<lparr>key_fields = a_key_fields a, value_fields = a_value_fields a,
                    heartbeat_seconds = a_heartbeat_seconds a,
                    numeric_tolerance_fields = a_numeric_tolerance_fields a,
                    tolerance = num_val (a_tolerance a),
                    numeric_tolerances = map (\<lambda>(f, v). (f, num_val v)) (a_numeric_tolerances a),
                    required_signal_fields = required,
                    null_guard_min_rows = a_null_guard_min_rows a\<rparr>, fresh_tracker))"

subsection \<open>Day reset and expiry\<close>

definition maybe_reset :: "tracker \<Rightarrow> string \<Rightarrow> tracker" where
  "maybe_reset t date =
     (if t_day t \<noteq> Some date
      then t\<lparr>t_last := Map.empty, t_day := Some date, last_expiry := None\<rparr>
      else t)"

definition expire_heartbeat_entries :: "tracker_config \<Rightarrow> tracker \<Rightarrow> seconds \<Rightarrow> tracker" where
  "expire_heartbeat_entries cfg t now =
     (if (case last_expiry t of None \<Rightarrow> True
          | Some e \<Rightarrow> min 60 (heartbeat_seconds cfg) \<le> now - e)
      then t\<lparr>t_last := (\<lambda>k. case t_last t k of
                 None \<Rightarrow> None
               | Some (ex, nu, ts) \<Rightarrow>
                   if heartbeat_seconds cfg \<le> now - ts then None else Some (ex, nu, ts)),
             last_expiry := Some now\<rparr>
      else t)"

subsection \<open>Comparison\<close>

text \<open>
  \<open>num_of\<close> is the number behind a value Python can subtract. \<open>None\<close> as a result of
  \<open>numeric_changed\<close> is the \<^verbatim>\<open>TypeError\<close> of subtracting anything else.
\<close>

fun num_of :: "pyval \<Rightarrow> rat option" where
  "num_of (PInt i) = Some (of_int i)"
| "num_of (PFloat q) = Some q"
| "num_of (PBool b) = Some (if b then 1 else 0)"
| "num_of _ = None"

definition py_neq :: "pyval \<Rightarrow> pyval \<Rightarrow> bool" where
  "py_neq a b = (case (num_of a, num_of b) of (Some x, Some y) \<Rightarrow> x \<noteq> y | _ \<Rightarrow> a \<noteq> b)"

definition field_tolerance :: "tracker_config \<Rightarrow> string \<Rightarrow> rat" where
  "field_tolerance cfg f = (case map_of (numeric_tolerances cfg) f of Some v \<Rightarrow> v | None \<Rightarrow> tolerance cfg)"

fun numeric_changed_loop ::
  "tracker_config \<Rightarrow> string list \<Rightarrow> pyval list \<Rightarrow> pyval list \<Rightarrow> bool option" where
  "numeric_changed_loop cfg (f # fs) (prev # ps) (new # ns) =
     (if prev = PNone \<and> new = PNone then numeric_changed_loop cfg fs ps ns
      else if prev = PNone \<or> new = PNone then Some True
      else let tol = field_tolerance cfg f in
        if tol \<le> 0
        then (if py_neq new prev then Some True else numeric_changed_loop cfg fs ps ns)
        else (case (num_of new, num_of prev) of
            (Some x, Some y) \<Rightarrow>
              if \<bar>x - y\<bar> > tol then Some True else numeric_changed_loop cfg fs ps ns
          | _ \<Rightarrow> None))"
| "numeric_changed_loop cfg _ _ _ = Some False"

definition numeric_changed :: "tracker_config \<Rightarrow> pyval list \<Rightarrow> pyval list \<Rightarrow> bool option" where
  "numeric_changed cfg prev_vals new_vals =
     numeric_changed_loop cfg (numeric_tolerance_fields cfg) prev_vals new_vals"

subsection \<open>Filtering and committing\<close>

definition row_key :: "tracker_config \<Rightarrow> row \<Rightarrow> tkey" where
  "row_key cfg row = row_tuple row (key_fields cfg)"

definition row_exact :: "tracker_config \<Rightarrow> row \<Rightarrow> pyval list" where
  "row_exact cfg row = row_tuple row (value_fields cfg)"

definition row_numeric :: "tracker_config \<Rightarrow> row \<Rightarrow> pyval list" where
  "row_numeric cfg row = row_tuple row (numeric_tolerance_fields cfg)"

text \<open>The decision for one row against the entry it is compared with; \<open>or\<close> short-circuits.\<close>

definition must_write :: "tracker_config \<Rightarrow> seconds \<Rightarrow> entry option \<Rightarrow> row \<Rightarrow> bool option" where
  "must_write cfg now prev row =
     (case prev of
        None \<Rightarrow> Some True
      | Some (prev_exact, prev_numeric, prev_ts) \<Rightarrow>
          if prev_exact \<noteq> row_exact cfg row then Some True
          else (case numeric_changed cfg prev_numeric (row_numeric cfg row) of
              None \<Rightarrow> None
            | Some True \<Rightarrow> Some True
            | Some False \<Rightarrow> Some (heartbeat_seconds cfg \<le> now - prev_ts)))"

text \<open>The loop over the rows, with the overlay \<^verbatim>\<open>prospective\<close> of this poll's changes.\<close>

fun select_rows ::
  "tracker_config \<Rightarrow> seconds \<Rightarrow> (tkey \<Rightarrow> entry option) \<Rightarrow> (tkey \<Rightarrow> entry option) \<Rightarrow> row list \<Rightarrow>
   (row list \<times> (tkey \<Rightarrow> entry option)) option" where
  "select_rows cfg now saved prospective [] = Some ([], prospective)"
| "select_rows cfg now saved prospective (row # rows) =
     (let key = row_key cfg row;
          prev = (case prospective key of Some e \<Rightarrow> Some e | None \<Rightarrow> saved key)
      in case must_write cfg now prev row of
           None \<Rightarrow> None
         | Some True \<Rightarrow>
             map_option (\<lambda>(out, p). (row # out, p))
               (select_rows cfg now saved
                  (prospective(key \<mapsto> (row_exact cfg row, row_numeric cfg row, now))) rows)
         | Some False \<Rightarrow> select_rows cfg now saved prospective rows)"

definition has_signal :: "tracker_config \<Rightarrow> row list \<Rightarrow> bool" where
  "has_signal cfg rows \<longleftrightarrow>
     list_ex (\<lambda>row. list_ex (\<lambda>f. row_get row f \<noteq> PNone) (required_signal_fields cfg)) rows"

definition count_nulls :: "tracker_config \<Rightarrow> tracker \<Rightarrow> row list \<Rightarrow> tracker" where
  "count_nulls cfg t rows =
     (if rows = [] then t
      else if has_signal cfg rows then t\<lparr>consecutive_all_null_rows := 0\<rparr>
      else t\<lparr>consecutive_all_null_rows := consecutive_all_null_rows t + int (length rows)\<rparr>)"

definition filter_rows ::
  "tracker_config \<Rightarrow> tracker \<Rightarrow> row list \<Rightarrow> string \<Rightarrow> seconds \<Rightarrow> bool \<Rightarrow>
   (tracker_error + row list) \<times> tracker" where
  "filter_rows cfg t rows date now update =
     (let t1 = count_nulls cfg (expire_heartbeat_entries cfg (maybe_reset t date) now) rows
      in if rows \<noteq> [] \<and> \<not> has_signal cfg rows \<and> null_guard_min_rows cfg \<le> consecutive_all_null_rows t1
         then (Inl (ChangeTrackerSignalError (consecutive_all_null_rows t1)), t1)
         else case select_rows cfg now (t_last t1) Map.empty rows of
             None \<Rightarrow> (Inl TrackerTypeError, t1)
           | Some (out, prospective) \<Rightarrow>
               (Inr out, if update then t1\<lparr>t_last := t_last t1 ++ prospective\<rparr> else t1))"

fun commit_rows :: "tracker_config \<Rightarrow> (tkey \<Rightarrow> entry option) \<Rightarrow> seconds \<Rightarrow> row list \<Rightarrow> (tkey \<Rightarrow> entry option)" where
  "commit_rows cfg saved now [] = saved"
| "commit_rows cfg saved now (row # rows) =
     commit_rows cfg (saved(row_key cfg row \<mapsto> (row_exact cfg row, row_numeric cfg row, now))) now rows"

definition commit :: "tracker_config \<Rightarrow> tracker \<Rightarrow> row list \<Rightarrow> string \<Rightarrow> seconds \<Rightarrow> tracker" where
  "commit cfg t rows date now =
     (let t1 = maybe_reset t date in t1\<lparr>t_last := commit_rows cfg (t_last t1) now rows\<rparr>)"


text \<open>The two phases as \<open>run_polls\<close> composes them; the context of a poll is its date and its time.\<close>

definition select_poll ::
  "tracker_config \<Rightarrow> tracker \<Rightarrow> row list \<Rightarrow> string \<times> seconds \<Rightarrow> (tracker_error + row list) \<times> tracker" where
  "select_poll cfg t rows c = filter_rows cfg t rows (fst c) (snd c) False"

definition commit_poll :: "tracker_config \<Rightarrow> tracker \<Rightarrow> row list \<Rightarrow> string \<times> seconds \<Rightarrow> tracker" where
  "commit_poll cfg t rows c = commit cfg t rows (fst c) (snd c)"

subsection \<open>Lemmas\<close>

lemma t_last_maybe_reset: "t_last (maybe_reset t date) k = (if t_day t = Some date then t_last t k else None)"
  by (simp add: maybe_reset_def)

lemma t_day_maybe_reset [simp]: "t_day (maybe_reset t date) = Some date"
  by (simp add: maybe_reset_def)

lemma maybe_reset_same [simp]: "t_day t = Some date \<Longrightarrow> maybe_reset t date = t"
  by (simp add: maybe_reset_def)

lemma t_day_expire [simp]: "t_day (expire_heartbeat_entries cfg t now) = t_day t"
  by (simp add: expire_heartbeat_entries_def)

lemma t_last_expire:
  "t_last (expire_heartbeat_entries cfg t now) k = Some e \<Longrightarrow> t_last t k = Some e"
  by (auto simp: expire_heartbeat_entries_def split: if_splits option.splits)

lemma t_last_expire_None:
  "t_last (expire_heartbeat_entries cfg t now) k = None \<Longrightarrow> t_last t k = Some (ex, nu, ts) \<Longrightarrow>
     heartbeat_seconds cfg \<le> now - ts"
  by (auto simp: expire_heartbeat_entries_def split: if_splits option.splits)

lemma t_last_count_nulls [simp]: "t_last (count_nulls cfg t rows) = t_last t"
  by (simp add: count_nulls_def)

lemma t_day_count_nulls [simp]: "t_day (count_nulls cfg t rows) = t_day t"
  by (simp add: count_nulls_def)

lemma t_day_filter: "filter_rows cfg t rows date now u = (res, t') \<Longrightarrow> t_day t' = Some date"
  by (auto simp: filter_rows_def Let_def split: if_splits option.splits prod.splits)

lemma filter_False_state:
  "filter_rows cfg t rows date now False = (res, t') \<Longrightarrow>
     t' = count_nulls cfg (expire_heartbeat_entries cfg (maybe_reset t date) now) rows"
  by (auto simp: filter_rows_def Let_def split: if_splits option.splits prod.splits)

lemma filter_Inr:
  "filter_rows cfg t rows date now False = (Inr out, t') \<Longrightarrow>
     \<exists>p. select_rows cfg now (t_last t') Map.empty rows = Some (out, p)"
  by (auto simp: filter_rows_def Let_def split: if_splits option.splits prod.splits)

lemma commit_rows_append:
  "commit_rows cfg saved now (xs @ ys) = commit_rows cfg (commit_rows cfg saved now xs) now ys"
  by (induction xs arbitrary: saved) auto

lemma commit_rows_last_with:
  "commit_rows cfg saved now rows k =
     (case last_with (row_key cfg) k rows of
        Some r \<Rightarrow> Some (row_exact cfg r, row_numeric cfg r, now)
      | None \<Rightarrow> saved k)"
  by (induction rows rule: rev_induct) (auto simp: commit_rows_append)

lemma select_rows_ConsE:
  assumes "select_rows cfg now saved p (row # rows) = Some (out, p')"
  obtains (written) out' where
      "must_write cfg now (case p (row_key cfg row) of Some e \<Rightarrow> Some e | None \<Rightarrow> saved (row_key cfg row)) row
         = Some True"
      "out = row # out'"
      "select_rows cfg now saved
         (p(row_key cfg row \<mapsto> (row_exact cfg row, row_numeric cfg row, now))) rows = Some (out', p')"
    | (skipped)
      "must_write cfg now (case p (row_key cfg row) of Some e \<Rightarrow> Some e | None \<Rightarrow> saved (row_key cfg row)) row
         = Some False"
      "select_rows cfg now saved p rows = Some (out, p')"
  using assms by (simp only: select_rows.simps Let_def) (auto split: option.splits bool.splits)

declare select_rows.simps(2) [simp del]

lemma select_rows_commit:
  "select_rows cfg now saved p rows = Some (out, p') \<Longrightarrow> p' = commit_rows cfg p now out"
  by (induction rows arbitrary: out p) (auto elim!: select_rows_ConsE)

lemma commit_rows_overlay:
  "saved ++ commit_rows cfg p now rows = commit_rows cfg (saved ++ p) now rows"
  by (induction rows arbitrary: p) auto

lemma select_rows_subset: "select_rows cfg now saved p rows = Some (out, p') \<Longrightarrow> set out \<subseteq> set rows"
  by (induction rows arbitrary: out p) (auto elim!: select_rows_ConsE, blast+)

text \<open>With distinct keys the overlay is never consulted: a row is selected on its own.\<close>

lemma select_rows_distinct:
  "select_rows cfg now saved p rows = Some (out, p') \<Longrightarrow> distinct (map (row_key cfg) rows) \<Longrightarrow>
     \<forall>k\<in>row_key cfg ` set rows. p k = None \<Longrightarrow>
     out = filter (\<lambda>row. must_write cfg now (saved (row_key cfg row)) row = Some True) rows"
proof (induction rows arbitrary: out p)
  case (Cons row rows)
  let ?k = "row_key cfg row"
  from Cons.prems(2,3) have p: "p ?k = None" and fresh: "?k \<notin> row_key cfg ` set rows"
    and rest: "distinct (map (row_key cfg) rows)" by auto
  from Cons.prems(1) show ?case
  proof (cases rule: select_rows_ConsE)
    case (written out')
    have "out' = filter (\<lambda>row. must_write cfg now (saved (row_key cfg row)) row = Some True) rows"
      by (rule Cons.IH [OF written(3) rest]) (use Cons.prems(3) fresh in \<open>simp add: image_iff, metis\<close>)
    with written p show ?thesis by simp
  next
    case skipped
    have "out = filter (\<lambda>row. must_write cfg now (saved (row_key cfg row)) row = Some True) rows"
      by (rule Cons.IH [OF skipped(2) rest]) (use Cons.prems(3) in auto)
    with skipped p show ?thesis by simp
  qed
qed simp


subsection \<open>What a row that is not selected has in common with the stored entry\<close>

text \<open>
  \<open>near\<close> is the tolerance rule of the module's docstring: \<open>None\<close> only near \<open>None\<close>, numbers within
  the tolerance, exact equality where the tolerance is zero.
\<close>

definition near :: "rat \<Rightarrow> pyval \<Rightarrow> pyval \<Rightarrow> bool" where
  "near tol a b \<longleftrightarrow>
     (if a = PNone \<or> b = PNone then a = b
      else if tol \<le> 0 then \<not> py_neq b a
      else (case (num_of a, num_of b) of (Some x, Some y) \<Rightarrow> \<bar>x - y\<bar> \<le> tol | _ \<Rightarrow> False))"

fun all_near :: "tracker_config \<Rightarrow> string list \<Rightarrow> pyval list \<Rightarrow> pyval list \<Rightarrow> bool" where
  "all_near cfg (f # fs) (a # as) (b # bs) \<longleftrightarrow> near (field_tolerance cfg f) a b \<and> all_near cfg fs as bs"
| "all_near cfg _ _ _ \<longleftrightarrow> True"

lemma py_neq_refl [simp]: "\<not> py_neq a a"
  by (cases a) (simp_all add: py_neq_def)

definition numeric_or_none :: "pyval \<Rightarrow> bool" where
  "numeric_or_none v \<longleftrightarrow> v = PNone \<or> num_of v \<noteq> None"

definition typed_row :: "tracker_config \<Rightarrow> row \<Rightarrow> bool" where
  "typed_row cfg row \<longleftrightarrow> list_all numeric_or_none (row_numeric cfg row)"

definition typed_rows :: "tracker_config \<Rightarrow> row list \<Rightarrow> bool" where
  "typed_rows cfg rows \<longleftrightarrow> list_all (typed_row cfg) rows"

lemma typed_rows_Cons [simp]: "typed_rows cfg (r # rs) \<longleftrightarrow> typed_row cfg r \<and> typed_rows cfg rs"
  by (simp add: typed_rows_def)

definition typed_store :: "tracker_config \<Rightarrow> (tkey \<Rightarrow> entry option) \<Rightarrow> bool" where
  "typed_store cfg m \<longleftrightarrow> (\<forall>k ex nu ts. m k = Some (ex, nu, ts) \<longrightarrow> list_all numeric_or_none nu)"

lemma near_refl [simp]: "numeric_or_none a \<Longrightarrow> near tol a a"
  by (auto simp: near_def numeric_or_none_def)

lemma all_near_refl: "list_all numeric_or_none as \<Longrightarrow> all_near cfg fs as as"
proof (induction fs arbitrary: as)
  case (Cons f fs)
  then show ?case by (cases as) auto
qed simp

lemma numeric_changed_loop_near:
  "list_all numeric_or_none as \<Longrightarrow> list_all numeric_or_none bs \<Longrightarrow>
     numeric_changed_loop cfg fs as bs = Some (\<not> all_near cfg fs as bs)"
proof (induction cfg fs as bs rule: numeric_changed_loop.induct)
  case (1 cfg f fs prev ps new ns)
  then show ?case
    by (cases "prev = PNone"; cases "new = PNone")
      (auto simp: near_def numeric_or_none_def Let_def abs_minus_commute)
qed auto

lemma must_write_typed:
  assumes "list_all numeric_or_none nu" and "typed_row cfg row"
  shows "must_write cfg now (Some (ex, nu, ts)) row =
    Some (ex \<noteq> row_exact cfg row \<or> \<not> all_near cfg (numeric_tolerance_fields cfg) nu (row_numeric cfg row)
      \<or> heartbeat_seconds cfg \<le> now - ts)"
  using assms by (simp add: must_write_def numeric_changed_def numeric_changed_loop_near typed_row_def
      split: bool.split)


subsection \<open>The tracker as a two-phase filter\<close>

text \<open>What the tracker holds for a key: the day and the last written values with their time.\<close>

definition stored_entry :: "tracker \<Rightarrow> tkey \<Rightarrow> (string option \<times> entry) option" where
  "stored_entry t k = map_option (\<lambda>e. (t_day t, e)) (t_last t k)"

definition written_view :: "tracker_config \<Rightarrow> row \<Rightarrow> string \<times> seconds \<Rightarrow> string option \<times> entry" where
  "written_view cfg row c = (Some (fst c), row_exact cfg row, row_numeric cfg row, snd c)"

definition represented :: "tracker_config \<Rightarrow> row \<Rightarrow> string \<times> seconds \<Rightarrow> string option \<times> entry \<Rightarrow> bool" where
  "represented cfg row c v \<longleftrightarrow>
     v = written_view cfg row c \<or>
     fst v = Some (fst c) \<and> must_write cfg (snd c) (Some (snd v)) row = Some False"

lemma select_rows_other:
  "select_rows cfg now saved p rows = Some (out, p') \<Longrightarrow> k \<notin> row_key cfg ` set rows \<Longrightarrow> p' k = p k"
  by (induction rows arbitrary: out p) (auto elim!: select_rows_ConsE)

lemma select_rows_represents:
  "select_rows cfg now saved p rows = Some (out, p') \<Longrightarrow> last_with (row_key cfg) k rows = Some r \<Longrightarrow>
     \<exists>e. (saved ++ p') k = Some e \<and>
       (e = (row_exact cfg r, row_numeric cfg r, now) \<or> must_write cfg now (Some e) r = Some False)"
proof (induction rows arbitrary: out p)
  case (Cons row rows)
  note last = last_with_Cons [of "row_key cfg" k row rows]
  show ?case
  proof (cases "last_with (row_key cfg) k rows")
    case (Some r')
    with last Cons.prems(2) have r: "last_with (row_key cfg) k rows = Some r" by simp
    from Cons.prems(1) show ?thesis
      by (cases rule: select_rows_ConsE) (use Cons.IH r in blast)+
  next
    case None
    with last Cons.prems(2) have row: "row_key cfg row = k" "row = r" by (auto split: if_splits)
    from None have other: "k \<notin> row_key cfg ` set rows" by (simp add: last_with_None)
    from Cons.prems(1) show ?thesis
    proof (cases rule: select_rows_ConsE)
      case (written out')
      with row select_rows_other [OF written(3) other] show ?thesis by (simp add: map_add_def)
    next
      case skipped
      from select_rows_other [OF skipped(2) other] have "(saved ++ p') k = (saved ++ p) k"
        by (simp add: map_add_def)
      with skipped(1) row show ?thesis
        by (cases "p k"; cases "saved k") (auto simp: map_add_def must_write_def)
    qed
  qed
qed simp

lemma stored_select:
  assumes "select_poll cfg t rows c = (res, t')" and "stored_entry t' k = Some v"
  shows "stored_entry t k = Some v"
proof -
  from assms(1) have t': "t' = count_nulls cfg (expire_heartbeat_entries cfg (maybe_reset t (fst c)) (snd c)) rows"
    by (simp add: select_poll_def filter_False_state)
  with assms(2) obtain e where
      e: "t_last (expire_heartbeat_entries cfg (maybe_reset t (fst c)) (snd c)) k = Some e"
    and v: "v = (Some (fst c), e)"
    by (auto simp: stored_entry_def)
  from t_last_expire [OF e] v show ?thesis
    by (cases e) (simp add: t_last_maybe_reset stored_entry_def split: if_splits)
qed

lemma stored_commit:
  "stored_entry (commit_poll cfg t rows c) k =
     (case last_with (row_key cfg) k rows of
        Some r \<Rightarrow> Some (written_view cfg r c)
      | None \<Rightarrow> if t_day t = Some (fst c) then stored_entry t k else None)"
  by (auto simp: stored_entry_def commit_poll_def commit_def Let_def commit_rows_last_with
      t_last_maybe_reset written_view_def split: option.split)

lemma select_represents_row:
  assumes "select_poll cfg t rows c = (Inr out, t')" and "last_with (row_key cfg) k rows = Some r"
  shows "\<exists>v. stored_entry (commit_poll cfg t' out c) k = Some v \<and> represented cfg r c v"
proof -
  obtain p where sel: "select_rows cfg (snd c) (t_last t') Map.empty rows = Some (out, p)"
    using assms(1) filter_Inr unfolding select_poll_def by blast
  have day: "t_day t' = Some (fst c)" using assms(1) by (auto simp: select_poll_def dest: t_day_filter)
  have last: "t_last (commit_poll cfg t' out c) = t_last t' ++ p"
    using select_rows_commit [OF sel] commit_rows_overlay [of "t_last t'" cfg Map.empty "snd c" out] day
    by (simp add: commit_poll_def commit_def)
  have day': "t_day (commit_poll cfg t' out c) = Some (fst c)"
    by (simp add: commit_poll_def commit_def Let_def)
  from select_rows_represents [OF sel assms(2)] last day' show ?thesis
    by (auto simp: stored_entry_def represented_def written_view_def)
qed

interpretation tracker: two_phase_filter "select_poll cfg" "commit_poll cfg" stored_entry "row_key cfg"
    "written_view cfg" "represented cfg" for cfg
proof
  show "stored_entry t k = Some v" if "select_poll cfg t rs c = (res, t')" "stored_entry t' k = Some v"
    for t rs c res t' k v
    using that by (rule stored_select)
  show "case last_with (row_key cfg) k rs of None \<Rightarrow> stored_entry t k = Some v | Some r \<Rightarrow> v = written_view cfg r c"
    if "stored_entry (commit_poll cfg t rs c) k = Some v" for t rs c k v
    using that by (auto simp: stored_commit split: option.splits if_splits)
qed (rule select_represents_row)


subsection \<open>The filter without expiry\<close>

text \<open>
  The specification of the filter: the same selection, but no entry is ever dropped before the day
  changes. \<open>hides\<close> relates the tracker to it: what the tracker forgot is at least one heartbeat old.
\<close>

definition keep_all_poll ::
  "tracker_config \<Rightarrow> tracker \<Rightarrow> row list \<Rightarrow> string \<times> seconds \<Rightarrow> (tracker_error + row list) \<times> tracker" where
  "keep_all_poll cfg t rows c =
     (let t1 = count_nulls cfg (maybe_reset t (fst c)) rows
      in if rows \<noteq> [] \<and> \<not> has_signal cfg rows \<and> null_guard_min_rows cfg \<le> consecutive_all_null_rows t1
         then (Inl (ChangeTrackerSignalError (consecutive_all_null_rows t1)), t1)
         else case select_rows cfg (snd c) (t_last t1) Map.empty rows of
             None \<Rightarrow> (Inl TrackerTypeError, t1)
           | Some (out, _) \<Rightarrow> (Inr out, t1))"

definition hides :: "tracker_config \<Rightarrow> seconds \<Rightarrow> tracker \<Rightarrow> tracker \<Rightarrow> bool" where
  "hides cfg clock t s \<longleftrightarrow>
     consecutive_all_null_rows t = consecutive_all_null_rows s \<and> t_day t = t_day s \<and>
     typed_store cfg (t_last s) \<and>
     (\<forall>k. t_last t k = t_last s k \<or>
        t_last t k = None \<and> (\<exists>ex nu ts. t_last s k = Some (ex, nu, ts) \<and> heartbeat_seconds cfg \<le> clock - ts))"

lemma hides_later: "hides cfg clock t s \<Longrightarrow> clock \<le> now \<Longrightarrow> hides cfg now t s"
  unfolding hides_def by (metis diff_right_mono order_trans)

lemma hides_reset: "hides cfg clock t s \<Longrightarrow> hides cfg clock (maybe_reset t d) (maybe_reset s d)"
  by (auto simp: hides_def maybe_reset_def typed_store_def)

lemma hides_expire:
  assumes "hides cfg now t s"
  shows "hides cfg now (expire_heartbeat_entries cfg t now) s"
proof -
  let ?t = "expire_heartbeat_entries cfg t now"
  have "t_last ?t k = t_last s k \<or>
      t_last ?t k = None \<and> (\<exists>ex nu ts. t_last s k = Some (ex, nu, ts) \<and> heartbeat_seconds cfg \<le> now - ts)" for k
  proof (cases "t_last ?t k")
    case None
    from assms have cases: "t_last t k = t_last s k \<or>
        t_last t k = None \<and> (\<exists>ex nu ts. t_last s k = Some (ex, nu, ts) \<and> heartbeat_seconds cfg \<le> now - ts)"
      unfolding hides_def by blast
    show ?thesis
    proof (cases "t_last s k")
      case (Some e)
      then obtain ex nu ts where "t_last s k = Some (ex, nu, ts)" by (cases e) auto
      with cases None t_last_expire_None [OF None, of ex nu ts] show ?thesis by auto
    qed (use None in simp)
  next
    case (Some e)
    with t_last_expire [OF Some] assms show ?thesis
      unfolding hides_def by (metis option.distinct(1))
  qed
  moreover have "consecutive_all_null_rows ?t = consecutive_all_null_rows t"
    by (simp add: expire_heartbeat_entries_def)
  ultimately show ?thesis using assms by (simp add: hides_def)
qed

lemma hides_count: "hides cfg clock t s \<Longrightarrow> hides cfg clock (count_nulls cfg t rows) (count_nulls cfg s rows)"
  by (simp add: hides_def count_nulls_def)

lemma must_write_hidden:
  assumes "hides cfg now t s" and "typed_row cfg row"
  shows "must_write cfg now (t_last t k) row = must_write cfg now (t_last s k) row"
proof (cases "t_last t k = t_last s k")
  case False
  with assms(1) obtain ex nu ts where "t_last t k = None" and s: "t_last s k = Some (ex, nu, ts)"
    and "heartbeat_seconds cfg \<le> now - ts" and "list_all numeric_or_none nu"
    unfolding hides_def typed_store_def by blast
  with must_write_typed [OF _ assms(2)] show ?thesis by (simp add: must_write_def [of _ _ None])
qed simp

lemma select_rows_hidden:
  assumes "hides cfg now t s"
  shows "typed_rows cfg rows \<Longrightarrow>
    select_rows cfg now (t_last t) p rows = select_rows cfg now (t_last s) p rows"
proof (induction rows arbitrary: p)
  case (Cons row rows)
  then have "must_write cfg now (case p k of Some e \<Rightarrow> Some e | None \<Rightarrow> t_last t k) row =
      must_write cfg now (case p k of Some e \<Rightarrow> Some e | None \<Rightarrow> t_last s k) row" for k
    using must_write_hidden [OF assms] by (simp split: option.split)
  with Cons show ?case
    by (simp add: select_rows.simps(2) Let_def cong: option.case_cong bool.case_cong)
qed simp

lemma hides_commit:
  assumes "hides cfg clock t s" and "typed_rows cfg rows"
  shows "hides cfg clock (commit_poll cfg t rows c) (commit_poll cfg s rows c)"
proof -
  from hides_reset [OF assms(1)] have h: "hides cfg clock (maybe_reset t (fst c)) (maybe_reset s (fst c))" .
  have "typed_rows cfg rows \<Longrightarrow> last_with (row_key cfg) k rows = Some r \<Longrightarrow> list_all numeric_or_none (row_numeric cfg r)" for k r
    by (auto simp: typed_rows_def typed_row_def list_all_iff dest!: last_with_SomeD)
  with h assms(2) show ?thesis
    by (auto simp: hides_def commit_poll_def commit_def Let_def commit_rows_last_with typed_store_def
        split: option.splits)
qed


lemma hides_poll:
  assumes "hides cfg clock t s" and "clock \<le> snd c" and "typed_rows cfg rows"
    and sel: "select_poll cfg t rows c = (res, t')" and keep: "keep_all_poll cfg s rows c = (res', s')"
  shows "res = res' \<and> hides cfg (snd c) t' s'"
proof -
  let ?t = "count_nulls cfg (expire_heartbeat_entries cfg (maybe_reset t (fst c)) (snd c)) rows"
  let ?s = "count_nulls cfg (maybe_reset s (fst c)) rows"
  have h: "hides cfg (snd c) ?t ?s"
    by (intro hides_count hides_expire hides_reset hides_later [OF assms(1,2)])
  then have "consecutive_all_null_rows ?t = consecutive_all_null_rows ?s" by (simp add: hides_def)
  with h select_rows_hidden [OF h assms(3)] sel keep show ?thesis
    by (auto simp: select_poll_def filter_rows_def keep_all_poll_def Let_def split: if_splits option.splits prod.splits)
qed

lemma select_poll_subset: "select_poll cfg t rows c = (Inr out, t') \<Longrightarrow> set out \<subseteq> set rows"
  by (auto simp: select_poll_def dest!: filter_Inr dest: select_rows_subset [THEN subsetD])

lemma hides_run:
  "hides cfg clock t s \<Longrightarrow> sorted (clock # map (\<lambda>p. snd (fst (snd p))) ps) \<Longrightarrow>
     list_all (typed_rows cfg) (map fst ps) \<Longrightarrow>
     snd (run_polls (select_poll cfg) (commit_poll cfg) t stream ps) =
     snd (run_polls (keep_all_poll cfg) (commit_poll cfg) s stream ps)"
proof (induction ps arbitrary: clock t s stream)
  case (Cons p ps)
  obtain rows c staged where p: "p = (rows, c, staged)" by (cases p)
  obtain res t' where sel: "select_poll cfg t rows c = (res, t')" by fastforce
  obtain res' s' where keep: "keep_all_poll cfg s rows c = (res', s')" by fastforce
  from Cons.prems p have time: "clock \<le> snd c" and typed: "typed_rows cfg rows"
    and later: "sorted (snd c # map (\<lambda>p. snd (fst (snd p))) ps)"
    and rest: "list_all (typed_rows cfg) (map fst ps)" by auto
  from hides_poll [OF Cons.prems(1) time typed sel keep] have res: "res' = res" and h: "hides cfg (snd c) t' s'"
    by auto
  show ?case
  proof (cases res)
    case (Inl e)
    with Cons.IH [OF h later rest] p sel keep res show ?thesis by simp
  next
    case (Inr out)
    with sel have "select_poll cfg t rows c = (Inr out, t')" by simp
    from select_poll_subset [OF this] typed have "typed_rows cfg out"
      by (auto simp: typed_rows_def list_all_iff)
    from Cons.IH [OF hides_commit [OF h this] later rest] Cons.IH [OF h later rest] Inr p sel keep res
    show ?thesis by simp
  qed
qed simp

lemma numeric_unchanged_near: "numeric_changed_loop cfg fs as bs = Some False \<Longrightarrow> all_near cfg fs as bs"
proof (induction cfg fs as bs rule: numeric_changed_loop.induct)
  case (1 cfg f fs prev ps new ns)
  then show ?case
    by (cases "prev = PNone"; cases "new = PNone")
      (auto simp: near_def Let_def abs_minus_commute split: if_splits option.splits)
qed auto

lemma unwritten_represents:
  "must_write cfg now (Some (ex, nu, ts)) row = Some False \<Longrightarrow>
     ex = row_exact cfg row \<and> all_near cfg (numeric_tolerance_fields cfg) nu (row_numeric cfg row) \<and>
     now - ts < heartbeat_seconds cfg"
  by (auto simp: must_write_def numeric_changed_def intro: numeric_unchanged_near
      split: if_splits option.splits bool.splits)

definition silent :: "tracker_config \<Rightarrow> row list \<Rightarrow> bool" where
  "silent cfg rows \<longleftrightarrow> rows \<noteq> [] \<and> \<not> has_signal cfg rows"

text \<open>The rows since the last poll that carried a signal; polls without rows do not count.\<close>

definition silent_rows :: "tracker_config \<Rightarrow> row list list \<Rightarrow> int" where
  "silent_rows cfg polls =
     int (sum_list (map length (takeWhile (\<lambda>rows. \<not> has_signal cfg rows) (rev polls))))"

lemma null_rows_expire [simp]:
  "consecutive_all_null_rows (expire_heartbeat_entries cfg t now) = consecutive_all_null_rows t"
  by (simp add: expire_heartbeat_entries_def)

lemma null_rows_reset [simp]: "consecutive_all_null_rows (maybe_reset t d) = consecutive_all_null_rows t"
  by (simp add: maybe_reset_def)

lemma null_rows_commit [simp]: "consecutive_all_null_rows (commit_poll cfg t rows c) = consecutive_all_null_rows t"
  by (simp add: commit_poll_def commit_def Let_def)

lemma null_rows_select:
  "select_poll cfg t rows c = (res, t') \<Longrightarrow> consecutive_all_null_rows t = silent_rows cfg polls \<Longrightarrow>
     consecutive_all_null_rows t' = silent_rows cfg (polls @ [rows])"
  by (auto simp: select_poll_def count_nulls_def silent_rows_def has_signal_def dest!: filter_False_state)

lemma null_rows_run:
  "consecutive_all_null_rows (fst (run_polls (select_poll cfg) (commit_poll cfg) fresh_tracker [] ps)) =
     silent_rows cfg (map fst ps)"
proof (induction ps rule: rev_induct)
  case Nil
  then show ?case by (simp add: fresh_tracker_def silent_rows_def)
next
  case (snoc p ps)
  obtain rows c staged where p: "p = (rows, c, staged)" by (cases p)
  obtain t stream where run: "run_polls (select_poll cfg) (commit_poll cfg) fresh_tracker [] ps = (t, stream)"
    by fastforce
  obtain res t' where sel: "select_poll cfg t rows c = (res, t')" by fastforce
  from snoc run have "consecutive_all_null_rows t = silent_rows cfg (map fst ps)" by simp
  from null_rows_select [OF sel this] p run sel show ?case
    by (cases res) (auto simp: run_polls_append)
qed


subsection \<open>Construction\<close>

lemma make_change_tracker_ok:
  assumes "set (map fst (a_numeric_tolerances a)) \<subseteq> set (a_numeric_tolerance_fields a)"
    and "list_all (\<lambda>v. is_finite v \<and> 0 \<le> num_val v) (a_tolerance a # map snd (a_numeric_tolerances a))"
    and "a_value_fields a @ a_numeric_tolerance_fields a \<noteq> []"
    and "set (a_required_signal_fields a) \<subseteq> set (a_value_fields a @ a_numeric_tolerance_fields a)"
    and "0 < a_null_guard_min_rows a"
  shows "\<exists>cfg. make_change_tracker a = Inr (cfg, fresh_tracker) \<and>
    value_fields cfg = a_value_fields a \<and> numeric_tolerance_fields cfg = a_numeric_tolerance_fields a \<and>
    heartbeat_seconds cfg = a_heartbeat_seconds a"
proof -
  have "[f \<leftarrow> map fst (a_numeric_tolerances a). f \<notin> set (a_numeric_tolerance_fields a)] = []"
    using assms(1) by (auto simp: filter_empty_conv)
  moreover have "\<not> bad_tolerance (a_tolerance a)" "\<not> list_ex bad_tolerance (map snd (a_numeric_tolerances a))"
    using assms(2) by (auto simp: bad_tolerance_def list_all_iff list_ex_iff not_less)
  moreover have "[f \<leftarrow> if a_required_signal_fields a \<noteq> [] then a_required_signal_fields a
        else sort (remdups (a_value_fields a @ a_numeric_tolerance_fields a)).
      f \<notin> set (a_value_fields a @ a_numeric_tolerance_fields a)] = []"
    using assms(4) by (auto simp: filter_empty_conv)
  ultimately show ?thesis
    using assms(3,5) by (simp add: make_change_tracker_def Let_def)
qed

subsection \<open>Properties\<close>

text \<open>
  Claim C23. Every observed row is represented in what is durable. Take any sequence of polls on a
  new tracker, staged or not, ending in a poll whose rows were selected, staged and committed. For
  the last row observed of every key, the last durable row of that key was written on the same
  date, has the same exact-compared fields, has every numeric field within its tolerance, and is
  younger than one heartbeat (or was written by this very poll).
\<close>

theorem durable_stream_represents:
  assumes "run_polls (select_poll cfg) (commit_poll cfg) fresh_tracker [] (ps @ [(rows, (date, now), True)]) = (t, stream)"
    and "\<not> isl (fst (select_poll cfg (fst (run_polls (select_poll cfg) (commit_poll cfg) fresh_tracker [] ps))
           rows (date, now)))"
    and "last_with (row_key cfg) k rows = Some r"
    and "typed_rows cfg rows"
  shows "\<exists>r' ts. last_with (row_key cfg \<circ> fst) k stream = Some (r', (date, ts)) \<and>
    row_exact cfg r' = row_exact cfg r \<and>
    all_near cfg (numeric_tolerance_fields cfg) (row_numeric cfg r') (row_numeric cfg r) \<and>
    (now - ts < heartbeat_seconds cfg \<or> ts = now)"
proof -
  have "stored_entry fresh_tracker k' = None" for k' by (simp add: stored_entry_def fresh_tracker_def)
  from tracker.stream_represents [OF this assms(1-3)] obtain r' c'
    where last: "last_with (row_key cfg \<circ> fst) k stream = Some (r', c')"
      and rep: "represented cfg r (date, now) (written_view cfg r' c')" by blast
  from assms(3,4) have "typed_row cfg r"
    by (auto simp: typed_rows_def list_all_iff dest: last_with_SomeD)
  then have "all_near cfg (numeric_tolerance_fields cfg) (row_numeric cfg r) (row_numeric cfg r)"
    by (simp add: typed_row_def all_near_refl)
  with rep have "fst c' = date \<and> row_exact cfg r' = row_exact cfg r \<and>
    all_near cfg (numeric_tolerance_fields cfg) (row_numeric cfg r') (row_numeric cfg r) \<and>
    (now - snd c' < heartbeat_seconds cfg \<or> snd c' = now)"
    by (auto simp: represented_def written_view_def dest!: unwritten_represents)
  with last show ?thesis by (cases c') auto
qed

definition demo_config :: tracker_config where
  "demo_config = \<lparr>key_fields = [''trip''], value_fields = [''status''], heartbeat_seconds = 1800,
     numeric_tolerance_fields = [''delay''], tolerance = 5, numeric_tolerances = [],
     required_signal_fields = [''delay''], null_guard_min_rows = 3\<rparr>"

definition demo_row :: "int \<Rightarrow> row" where
  "demo_row d = [(''trip'', PStr ''t1''), (''status'', PInt 0), (''delay'', PInt d)]"

lemmas demo_simps = demo_config_def demo_row_def fresh_tracker_def select_poll_def commit_poll_def
  commit_def filter_rows_def maybe_reset_def expire_heartbeat_entries_def count_nulls_def has_signal_def
  row_get_def row_key_def row_exact_def row_numeric_def must_write_def numeric_changed_def
  field_tolerance_def typed_rows_def typed_row_def numeric_or_none_def select_rows.simps(2) Let_def

text \<open>The second poll's delay moved by 3: its row is not written, the first one represents it.\<close>

lemma durable_stream_represents_witness:
  "\<exists>r' ts. last_with (row_key demo_config \<circ> fst) [PStr ''t1'']
      (snd (run_polls (select_poll demo_config) (commit_poll demo_config) fresh_tracker []
         [([demo_row 10], (''d'', 100), True), ([demo_row 13], (''d'', 110), True)])) = Some (r', (''d'', ts)) \<and>
    row_exact demo_config r' = row_exact demo_config (demo_row 13) \<and>
    all_near demo_config [''delay''] (row_numeric demo_config r') (row_numeric demo_config (demo_row 13)) \<and>
    (110 - ts < 1800 \<or> ts = 110)"
  using durable_stream_represents [of demo_config "[([demo_row 10], (''d'', 100), True)]" "[demo_row 13]" "''d''" 110
      _ _ "[PStr ''t1'']" "demo_row 13", OF surjective_pairing]
  by (simp add: demo_simps last_with_def)

text \<open>
  Claim C34. Forgetting expired entries is invisible. With timestamps that do not go backwards and
  numeric fields that hold numbers or \<^verbatim>\<open>None\<close>, the durable stream is the one of a filter that keeps
  every entry until the day changes: bounding the tracker's memory by one heartbeat writes no row
  more and no row less.
\<close>

theorem eviction_invisible:
  assumes "sorted (map (\<lambda>p. snd (fst (snd p))) ps)"
    and "list_all (typed_rows cfg) (map fst ps)"
  shows "snd (run_polls (select_poll cfg) (commit_poll cfg) fresh_tracker [] ps) =
    snd (run_polls (keep_all_poll cfg) (commit_poll cfg) fresh_tracker [] ps)"
proof (cases ps)
  case (Cons p qs)
  with assms(1) have "sorted (snd (fst (snd p)) # map (\<lambda>p. snd (fst (snd p))) ps)" by simp
  moreover have "hides cfg (snd (fst (snd p))) fresh_tracker fresh_tracker"
    by (simp add: hides_def typed_store_def fresh_tracker_def)
  ultimately show ?thesis using hides_run assms(2) by blast
qed simp

lemma eviction_invisible_witness:
  "snd (run_polls (select_poll demo_config) (commit_poll demo_config) fresh_tracker []
     [([demo_row 10], (''d'', 100), True), ([demo_row 13], (''d'', 2000), False), ([demo_row 13], (''d'', 2000), True)]) =
   snd (run_polls (keep_all_poll demo_config) (commit_poll demo_config) fresh_tracker []
     [([demo_row 10], (''d'', 100), True), ([demo_row 13], (''d'', 2000), False), ([demo_row 13], (''d'', 2000), True)])"
  by (rule eviction_invisible) (simp_all add: demo_simps)

text \<open>
  Selecting without updating and committing the selected rows is the one-phase filter:
  \<^verbatim>\<open>filter(update=False)\<close> followed by \<^verbatim>\<open>commit\<close> returns the same rows, raises the same errors
  and leaves the same tracker as \<^verbatim>\<open>filter(update=True)\<close>, on every input.
\<close>

theorem two_phase_is_one_phase:
  "filter_rows cfg t rows date now True =
     (case filter_rows cfg t rows date now False of
        (Inr out, t') \<Rightarrow> (Inr out, commit cfg t' out date now)
      | (Inl e, t') \<Rightarrow> (Inl e, t'))"
proof (cases "filter_rows cfg t rows date now False")
  case (Pair res t')
  show ?thesis
  proof (cases res)
    case (Inr out)
    with Pair obtain p where sel: "select_rows cfg now (t_last t') Map.empty rows = Some (out, p)"
      and day: "t_day t' = Some date" using filter_Inr t_day_filter by blast
    from select_rows_commit [OF sel] have "t_last t' ++ p = commit_rows cfg (t_last t') now out"
      using commit_rows_overlay [of "t_last t'" cfg Map.empty now out] by simp
    with Pair Inr sel day filter_False_state [OF Pair] show ?thesis
      by (auto simp: filter_rows_def commit_def Let_def split: if_splits)
  qed (use Pair in \<open>auto simp: filter_rows_def Let_def split: if_splits option.splits\<close>)
qed

text \<open>
  A failed write is retried. If a poll selected a row but its rows were never committed,
  a later poll of the same day that observes the row again and selects at all selects it again,
  whatever else it carries, provided its keys are distinct.
\<close>

theorem unstaged_row_selected_again:
  assumes "select_poll cfg t rows (date, now) = (Inr out, t1)"
    and "select_poll cfg t1 rows' (date, now') = (Inr out', t2)"
    and "now \<le> now'" and "distinct (map (row_key cfg) rows)" and "distinct (map (row_key cfg) rows')"
    and "r \<in> set out" and "r \<in> set rows'"
  shows "r \<in> set out'"
proof -
  let ?k = "row_key cfg r"
  have out: "r \<in> set rows \<and> must_write cfg now (t_last t1 ?k) r = Some True"
    using assms(1,4,6) select_rows_distinct [of cfg now "t_last t1" Map.empty rows out]
    by (auto simp: select_poll_def dest!: filter_Inr)
  have out': "out' = filter (\<lambda>row. must_write cfg now' (t_last t2 (row_key cfg row)) row = Some True) rows'"
    using assms(2,5) select_rows_distinct [of cfg now' "t_last t2" Map.empty rows' out']
    by (auto simp: select_poll_def dest!: filter_Inr)
  have day: "t_day t1 = Some date" using assms(1) by (auto simp: select_poll_def dest: t_day_filter)
  have "must_write cfg now' (t_last t2 ?k) r = Some True"
  proof (cases "t_last t2 ?k")
    case (Some e)
    obtain ex nu ts where e: "e = (ex, nu, ts)" by (cases e) auto
    have "t_last t1 ?k = Some e"
      using assms(2) Some day by (auto simp: select_poll_def dest!: filter_False_state dest: t_last_expire)
    with out assms(3) e Some show ?thesis
      by (auto simp: must_write_def split: if_splits option.splits bool.splits)
  qed (simp add: must_write_def)
  with out' assms(7) show ?thesis by simp
qed


lemma unstaged_row_selected_again_witness:
  "\<exists>t1 out'. select_poll demo_config fresh_tracker [demo_row 10] (''d'', 100) = (Inr [demo_row 10], t1) \<and>
     fst (select_poll demo_config t1 [demo_row 10] (''d'', 110)) = Inr out' \<and> demo_row 10 \<in> set out'"
proof -
  define t1 where "t1 = snd (select_poll demo_config fresh_tracker [demo_row 10] (''d'', 100))"
  have first: "select_poll demo_config fresh_tracker [demo_row 10] (''d'', 100) = (Inr [demo_row 10], t1)"
    by (simp add: t1_def demo_simps)
  have "fst (select_poll demo_config t1 [demo_row 10] (''d'', 110)) = Inr [demo_row 10]"
    by (simp add: t1_def demo_simps)
  then obtain t2 where second: "select_poll demo_config t1 [demo_row 10] (''d'', 110) = (Inr [demo_row 10], t2)"
    by (cases "select_poll demo_config t1 [demo_row 10] (''d'', 110)") auto
  from unstaged_row_selected_again [OF first second, of "demo_row 10"] first second show ?thesis by auto
qed

text \<open>
  The null guard counts across polls and days. After any sequence of polls on a new
  tracker, a poll raises \<^verbatim>\<open>ChangeTrackerSignalError\<close> exactly when it has rows, none of them carries a
  required signal, and the rows seen since the last poll with a signal (this one included) reach the
  guard; the error reports that number.
\<close>

theorem null_guard_exact:
  "fst (select_poll cfg (fst (run_polls (select_poll cfg) (commit_poll cfg) fresh_tracker [] ps)) rows c) =
     Inl (ChangeTrackerSignalError n)
   \<longleftrightarrow> silent cfg rows \<and> null_guard_min_rows cfg \<le> silent_rows cfg (map fst ps @ [rows]) \<and>
       n = silent_rows cfg (map fst ps @ [rows])"
proof -
  let ?t = "fst (run_polls (select_poll cfg) (commit_poll cfg) fresh_tracker [] ps)"
  obtain res t' where sel: "select_poll cfg ?t rows c = (res, t')" by fastforce
  from null_rows_select [OF sel null_rows_run]
  have count: "consecutive_all_null_rows t' = silent_rows cfg (map fst ps @ [rows])" .
  from sel have "t' = count_nulls cfg (expire_heartbeat_entries cfg (maybe_reset ?t (fst c)) (snd c)) rows"
    by (simp add: select_poll_def filter_False_state)
  with sel count show ?thesis
    by (auto simp: select_poll_def filter_rows_def silent_def Let_def split: if_splits option.splits)
qed

text \<open>
  Each day is complete on its own. At the first poll of a new date every row is selected
  when keys are distinct, whatever was written before.
\<close>

theorem new_day_selects_all:
  assumes "t_day t \<noteq> Some date" and "distinct (map (row_key cfg) rows)"
  shows "fst (select_poll cfg t rows (date, now)) = Inr rows \<or>
    (\<exists>n. fst (select_poll cfg t rows (date, now)) = Inl (ChangeTrackerSignalError n) \<and> silent cfg rows)"
proof -
  obtain res t' where sel: "select_poll cfg t rows (date, now) = (res, t')" by fastforce
  let ?t = "count_nulls cfg (expire_heartbeat_entries cfg (maybe_reset t date) now) rows"
  have empty: "t_last ?t = Map.empty"
    using assms(1) by (auto simp: maybe_reset_def expire_heartbeat_entries_def)
  have "\<exists>p'. select_rows cfg now Map.empty p rows = Some (rows, p')"
    if "\<forall>k\<in>row_key cfg ` set rows. p k = None" for p
    using that assms(2)
  proof (induction rows arbitrary: p)
    case (Cons row rows)
    let ?p = "p(row_key cfg row \<mapsto> (row_exact cfg row, row_numeric cfg row, now))"
    from Cons.prems have "\<forall>k\<in>row_key cfg ` set rows. ?p k = None" by (simp add: image_iff, metis)
    moreover from Cons.prems have "distinct (map (row_key cfg) rows)" by simp
    ultimately obtain p' where "select_rows cfg now Map.empty ?p rows = Some (rows, p')"
      using Cons.IH by blast
    with Cons.prems(1) show ?case
      by (simp add: select_rows.simps(2) must_write_def Let_def)
  qed simp
  then obtain p' where "select_rows cfg now Map.empty Map.empty rows = Some (rows, p')" by fastforce
  with sel empty show ?thesis
    by (auto simp: select_poll_def filter_rows_def silent_def Let_def split: if_splits)
qed

lemma new_day_selects_all_witness:
  "fst (select_poll demo_config fresh_tracker [demo_row 10] (''d'', 100)) = Inr [demo_row 10] \<or>
    (\<exists>n. fst (select_poll demo_config fresh_tracker [demo_row 10] (''d'', 100)) = Inl (ChangeTrackerSignalError n) \<and>
       silent demo_config [demo_row 10])"
  by (rule new_day_selects_all) (simp_all add: fresh_tracker_def)

end
