(* ===== verification/Config.thy ===== *)
theory Config
  imports Scheduler Dedup Columns
begin

section \<open>Configuration (bkk_collector/config.py)\<close>

text \<open>
  The frozen dataclasses \<^verbatim>\<open>CollectorConfig\<close> and \<^verbatim>\<open>MaintenanceConfig\<close>, their validation in
  \<^verbatim>\<open>__post_init__\<close> and their construction from the environment. The environment is a map from names to
  strings. A value that Python's \<^verbatim>\<open>float\<close> reads is finite, infinite or not a number; a finite one is exact.
  A raise is the left of a sum.
\<close>

subsection \<open>Results and text\<close>

fun bind_result :: "'e + 'a \<Rightarrow> ('a \<Rightarrow> 'e + 'b) \<Rightarrow> 'e + 'b" where
  "bind_result (Inl e) k = Inl e"
| "bind_result (Inr x) k = k x"

text \<open>Constructing a dataclass runs its \<^verbatim>\<open>__post_init__\<close>.\<close>

definition construct :: "('c \<Rightarrow> 'e option) \<Rightarrow> 'c \<Rightarrow> 'e + 'c" where
  "construct check c = (case check c of None \<Rightarrow> Inr c | Some e \<Rightarrow> Inl e)"

lemma construct_iff: "construct check c = Inr d \<longleftrightarrow> check c = None \<and> d = c"
  by (auto simp: construct_def split: option.splits)

lemma bind_result_iff: "bind_result r k = Inr y \<longleftrightarrow> (\<exists>x. r = Inr x \<and> k x = Inr y)"
  by (cases r) simp_all

definition py_space :: "char \<Rightarrow> bool" where
  "py_space c \<longleftrightarrow> (9 \<le> (of_char c :: nat) \<and> (of_char c :: nat) \<le> 13) \<or>
     (28 \<le> (of_char c :: nat) \<and> (of_char c :: nat) \<le> 32) \<or> of_char c = (133 :: nat) \<or> of_char c = (160 :: nat)"

definition py_strip :: "string \<Rightarrow> string" where
  "py_strip s = rev (dropWhile py_space (rev (dropWhile py_space s)))"

definition lower_char :: "char \<Rightarrow> char" where
  "lower_char c = (if CHR ''A'' \<le> c \<and> c \<le> CHR ''Z'' then char_of (of_char c + 32 :: nat) else c)"

definition digit :: "char \<Rightarrow> bool" where
  "digit c \<longleftrightarrow> CHR ''0'' \<le> c \<and> c \<le> CHR ''9''"

text \<open>Decimal digits, with single underscores between them removed.\<close>

fun plain_digits :: "string \<Rightarrow> string option" where
  "plain_digits [] = None"
| "plain_digits [c] = (if digit c then Some [c] else None)"
| "plain_digits (c # d # s) =
     (if \<not> digit c then None
      else map_option (Cons c) (if d = CHR ''_'' then plain_digits s else plain_digits (d # s)))"

definition digits_nat :: "string \<Rightarrow> nat" where
  "digits_nat s = foldl (\<lambda>n c. 10 * n + (of_char c - 48)) 0 s"

fun split_sign :: "string \<Rightarrow> bool \<times> string" where
  "split_sign [] = (False, [])"
| "split_sign (c # s) = (if c = CHR ''-'' then (True, s) else if c = CHR ''+'' then (False, s) else (False, c # s))"

definition parse_int :: "string \<Rightarrow> int option" where
  "parse_int s =
     (case split_sign (py_strip s) of
        (negative, t) \<Rightarrow> map_option (\<lambda>ds. if negative then - int (digits_nat ds) else int (digits_nat ds)) (plain_digits t))"

definition parse_mantissa :: "string \<Rightarrow> rat option" where
  "parse_mantissa s =
     (let a = takeWhile (\<lambda>c. c \<noteq> CHR ''.'') s;
          b = drop (Suc (length a)) s;
          part = (\<lambda>t. if t = [] then Some [] else plain_digits t)
      in if a = [] \<and> b = [] then None
         else case (part a, part b) of
             (Some x, Some y) \<Rightarrow> Some (of_nat (digits_nat (x @ y)) / 10 ^ length y)
           | _ \<Rightarrow> None)"

definition parse_decimal :: "string \<Rightarrow> rat option" where
  "parse_decimal s =
     (let m = takeWhile (\<lambda>c. lower_char c \<noteq> CHR ''e'') s
      in case parse_mantissa m of
           None \<Rightarrow> None
         | Some q \<Rightarrow>
             if length m = length s then Some q
             else case split_sign (drop (Suc (length m)) s) of
                 (negative, t) \<Rightarrow>
                   map_option (\<lambda>ds. if negative then q / 10 ^ digits_nat ds else q * 10 ^ digits_nat ds) (plain_digits t))"

text \<open>A decimal that rounds beyond the largest binary64 value is infinite.\<close>

definition binary64_limit :: rat where
  "binary64_limit = 2 ^ 1024 - 2 ^ 970"

definition parse_float :: "string \<Rightarrow> pynum option" where
  "parse_float s =
     (case split_sign (py_strip s) of
        (negative, t) \<Rightarrow>
          if map lower_char t \<in> {''inf'', ''infinity''} then Some (if negative then NegInf else PosInf)
          else if map lower_char t = ''nan'' then Some NaN
          else map_option (\<lambda>q. if q \<ge> binary64_limit then (if negative then NegInf else PosInf)
                               else Fin (if negative then - q else q)) (parse_decimal t))"

subsection \<open>The environment\<close>

datatype config_error =
    ApiKeyRequired
  | BadNumber string
  | IntervalTooShort string
  | NotPositive string
  | IsNegative string
  | DiskThresholds
  | OutOfRange string

type_synonym env = "string \<Rightarrow> string option"

definition env_or :: "env \<Rightarrow> string \<Rightarrow> string \<Rightarrow> string" where
  "env_or env name fallback = (case env name of None \<Rightarrow> fallback | Some s \<Rightarrow> s)"

definition env_bool :: "env \<Rightarrow> string \<Rightarrow> bool \<Rightarrow> bool" where
  "env_bool env name fallback =
     (case env name of
        None \<Rightarrow> fallback
      | Some s \<Rightarrow> map lower_char (py_strip s) \<in> {''1'', ''true'', ''yes'', ''on''})"

definition read_number :: "(string \<Rightarrow> 'n option) \<Rightarrow> string \<Rightarrow> string \<Rightarrow> config_error + 'n" where
  "read_number parse name s = (case parse s of None \<Rightarrow> Inl (BadNumber name) | Some v \<Rightarrow> Inr v)"

definition env_float :: "env \<Rightarrow> string \<Rightarrow> string \<Rightarrow> config_error + pynum" where
  "env_float env name fallback = read_number parse_float name (env_or env name fallback)"

definition env_int :: "env \<Rightarrow> string \<Rightarrow> string \<Rightarrow> config_error + int" where
  "env_int env name fallback = read_number parse_int name (env_or env name fallback)"

definition env_optional :: "(string \<Rightarrow> 'n option) \<Rightarrow> env \<Rightarrow> string \<Rightarrow> config_error + 'n option" where
  "env_optional parse env name =
     (case env name of None \<Rightarrow> Inr None | Some s \<Rightarrow> bind_result (read_number parse name s) (\<lambda>v. Inr (Some v)))"

fun times_60 :: "pynum \<Rightarrow> pynum" where
  "times_60 (Fin q) = (if \<bar>q * 60\<bar> \<ge> binary64_limit then (if q < 0 then NegInf else PosInf) else Fin (q * 60))"
| "times_60 v = v"

subsection \<open>The collector's configuration\<close>

record collector_config =
  api_key :: string
  data_dir :: string
  poll_interval_seconds :: "pynum option"
  vehicle_positions_interval_seconds :: "pynum option"
  trip_updates_interval_seconds :: "pynum option"
  alerts_interval_seconds :: "pynum option"
  parquet_flush_seconds :: pynum
  tripupdates_raw_archive_seconds :: pynum
  tripupdates_analysis_sample_seconds :: pynum
  delay_change_threshold_seconds :: int
  prediction_time_change_threshold_seconds :: int
  bkk_stop_distance_change_threshold :: "int option"
  change_tracker_null_guard_rows :: int
  tracker_heartbeat_seconds :: int
  disk_warn_free_gb :: pynum
  disk_critical_free_gb :: pynum
  connect_timeout_seconds :: pynum
  read_timeout_seconds :: pynum
  http_connect_retries :: int
  http_backoff_seconds :: pynum
  feed_stale_seconds :: pynum
  feed_absent_seconds :: pynum
  frozen_payload_seconds :: pynum
  alerts_frozen_payload_seconds :: pynum
  raw_fsync :: bool

definition MIN_REALTIME_INTERVAL_SECONDS :: rat where
  "MIN_REALTIME_INTERVAL_SECONDS = 5"

fun DEFAULT_FEED_INTERVALS :: "feed \<Rightarrow> pynum" where
  "DEFAULT_FEED_INTERVALS Vehiclepositions = Fin 10"
| "DEFAULT_FEED_INTERVALS Tripupdates = Fin 10"
| "DEFAULT_FEED_INTERVALS Alerts = Fin 30"

fun interval_override :: "collector_config \<Rightarrow> feed \<Rightarrow> pynum option" where
  "interval_override c Vehiclepositions = vehicle_positions_interval_seconds c"
| "interval_override c Tripupdates = trip_updates_interval_seconds c"
| "interval_override c Alerts = alerts_interval_seconds c"

definition feed_interval :: "collector_config \<Rightarrow> feed \<Rightarrow> pynum" where
  "feed_interval c f =
     (case interval_override c f of
        Some v \<Rightarrow> v
      | None \<Rightarrow> (case poll_interval_seconds c of Some v \<Rightarrow> v | None \<Rightarrow> DEFAULT_FEED_INTERVALS f))"

definition feed_intervals :: "collector_config \<Rightarrow> (feed \<times> pynum) list" where
  "feed_intervals c = map (\<lambda>f. (f, feed_interval c f)) FEED_NAMES"

fun num_less :: "pynum \<Rightarrow> pynum \<Rightarrow> bool" where
  "num_less (Fin a) (Fin b) = (a < b)"
| "num_less NaN _ = False"
| "num_less _ NaN = False"
| "num_less NegInf b = (b \<noteq> NegInf)"
| "num_less a NegInf = False"
| "num_less PosInf b = False"
| "num_less a PosInf = True"

text \<open>\<^verbatim>\<open>min(a, b)\<close> keeps its first argument unless the second is smaller.\<close>

definition raw_archive_intervals :: "collector_config \<Rightarrow> feed \<Rightarrow> pynum" where
  "raw_archive_intervals c f =
     (case f of
        Tripupdates \<Rightarrow>
          (let a = tripupdates_raw_archive_seconds c; b = tripupdates_analysis_sample_seconds c
           in if num_less (Fin 0) b \<and> num_less b a then b else a)
      | _ \<Rightarrow> Fin 0)"

definition distance_threshold :: "collector_config \<Rightarrow> int" where
  "distance_threshold c =
     (case bkk_stop_distance_change_threshold c of Some v \<Rightarrow> v | None \<Rightarrow> delay_change_threshold_seconds c)"

definition trip_update_numeric_tolerances :: "collector_config \<Rightarrow> (string \<times> pynum) list" where
  "trip_update_numeric_tolerances c =
     [(''arrival_time'', Fin (of_int (prediction_time_change_threshold_seconds c))),
      (''departure_time'', Fin (of_int (prediction_time_change_threshold_seconds c))),
      (''bkk_stop_distance'', Fin (of_int (distance_threshold c)))]"

fun interval_env_name :: "feed \<Rightarrow> string" where
  "interval_env_name Vehiclepositions = ''VEHICLE_POSITIONS_INTERVAL_SECONDS''"
| "interval_env_name Tripupdates = ''TRIP_UPDATES_INTERVAL_SECONDS''"
| "interval_env_name Alerts = ''ALERTS_INTERVAL_SECONDS''"

definition too_short :: "pynum \<Rightarrow> bool" where
  "too_short v \<longleftrightarrow> \<not> is_finite v \<or> num_val v < MIN_REALTIME_INTERVAL_SECONDS"

definition positive_fields :: "collector_config \<Rightarrow> (string \<times> pynum) list" where
  "positive_fields c =
     [(''heartbeat_seconds'', Fin (of_int (tracker_heartbeat_seconds c))),
      (''change_tracker_null_guard_rows'', Fin (of_int (change_tracker_null_guard_rows c))),
      (''connect_timeout_seconds'', connect_timeout_seconds c),
      (''read_timeout_seconds'', read_timeout_seconds c),
      (''feed_stale_seconds'', feed_stale_seconds c),
      (''feed_absent_seconds'', feed_absent_seconds c),
      (''frozen_payload_seconds'', frozen_payload_seconds c),
      (''alerts_frozen_payload_seconds'', alerts_frozen_payload_seconds c)]"

definition nonnegative_fields :: "collector_config \<Rightarrow> (string \<times> pynum) list" where
  "nonnegative_fields c =
     [(''parquet_flush_seconds'', parquet_flush_seconds c),
      (''tripupdates_raw_archive_seconds'', tripupdates_raw_archive_seconds c),
      (''tripupdates_analysis_sample_seconds'', tripupdates_analysis_sample_seconds c),
      (''delay_change_threshold_seconds'', Fin (of_int (delay_change_threshold_seconds c))),
      (''prediction_time_change_threshold_seconds'', Fin (of_int (prediction_time_change_threshold_seconds c))),
      (''bkk_stop_distance_change_threshold'', Fin (of_int (distance_threshold c))),
      (''disk_warn_free_gb'', disk_warn_free_gb c),
      (''disk_critical_free_gb'', disk_critical_free_gb c),
      (''http_connect_retries'', Fin (of_int (http_connect_retries c))),
      (''http_backoff_seconds'', http_backoff_seconds c)]"

text \<open>The first field of a dictionary that is refused.\<close>

definition first_bad :: "('v \<Rightarrow> bool) \<Rightarrow> ('k \<times> 'v) list \<Rightarrow> 'k option" where
  "first_bad bad kvs = map_option fst (find (\<lambda>(_, v). bad v) kvs)"

definition post_init :: "collector_config \<Rightarrow> config_error option" where
  "post_init c =
     (if (case poll_interval_seconds c of None \<Rightarrow> False | Some v \<Rightarrow> too_short v)
      then Some (IntervalTooShort ''POLL_INTERVAL_SECONDS'')
      else case first_bad too_short (feed_intervals c) of
          Some f \<Rightarrow> Some (IntervalTooShort (interval_env_name f))
        | None \<Rightarrow>
      (case first_bad (\<lambda>v. \<not> is_finite v \<or> num_val v \<le> 0) (positive_fields c) of
          Some n \<Rightarrow> Some (NotPositive n)
        | None \<Rightarrow>
      (case first_bad (\<lambda>v. \<not> is_finite v \<or> num_val v < 0) (nonnegative_fields c) of
          Some n \<Rightarrow> Some (IsNegative n)
        | None \<Rightarrow> if num_val (disk_warn_free_gb c) < num_val (disk_critical_free_gb c) then Some DiskThresholds else None)))"

definition from_env :: "env \<Rightarrow> config_error + collector_config" where
  "from_env env =
     (let key = py_strip (env_or env ''BKK_API_KEY'' [])
      in if key = [] then Inl ApiKeyRequired else
      bind_result (env_float env ''TRIPUPDATES_ANALYSIS_SAMPLE_SECONDS'' ''0'') (\<lambda>analysis.
      bind_result (env_optional parse_float env ''POLL_INTERVAL_SECONDS'') (\<lambda>poll.
      bind_result (env_optional parse_float env ''VEHICLE_POSITIONS_INTERVAL_SECONDS'') (\<lambda>vehicles.
      bind_result (env_optional parse_float env ''TRIP_UPDATES_INTERVAL_SECONDS'') (\<lambda>trips.
      bind_result (env_optional parse_float env ''ALERTS_INTERVAL_SECONDS'') (\<lambda>alerts.
      bind_result (env_float env ''PARQUET_FLUSH_MINUTES'' ''5'') (\<lambda>flush_minutes.
      bind_result (env_float env ''TRIPUPDATES_RAW_ARCHIVE_SECONDS'' ''300'') (\<lambda>raw_archive.
      bind_result (env_int env ''DELAY_CHANGE_THRESHOLD_SECONDS'' ''15'') (\<lambda>delay.
      bind_result (env_int env ''TRIPUPDATE_TIME_TOLERANCE_SECONDS''
                     (env_or env ''PREDICTION_TIME_CHANGE_THRESHOLD_SECONDS'' ''2'')) (\<lambda>prediction.
      bind_result (env_optional parse_int env ''BKK_STOP_DISTANCE_CHANGE_THRESHOLD'') (\<lambda>distance.
      bind_result (env_int env ''CHANGE_TRACKER_NULL_GUARD_ROWS'' ''1000'') (\<lambda>null_guard.
      bind_result (env_int env ''HEARTBEAT_SECONDS'' ''1800'') (\<lambda>heartbeat.
      bind_result (env_float env ''DISK_WARN_FREE_GB'' ''8.0'') (\<lambda>disk_warn.
      bind_result (env_float env ''DISK_CRITICAL_FREE_GB'' ''4.0'') (\<lambda>disk_critical.
      bind_result (env_float env ''HTTP_CONNECT_TIMEOUT_SECONDS'' ''5'') (\<lambda>connect_timeout.
      bind_result (env_float env ''HTTP_READ_TIMEOUT_SECONDS'' ''15'') (\<lambda>read_timeout.
      bind_result (env_int env ''HTTP_CONNECT_RETRIES'' ''1'') (\<lambda>retries.
      bind_result (env_float env ''HTTP_BACKOFF_SECONDS'' ''0.3'') (\<lambda>backoff.
      bind_result (env_float env ''FEED_STALE_SECONDS'' ''180'') (\<lambda>stale.
      bind_result (env_float env ''FEED_ABSENT_SECONDS'' ''180'') (\<lambda>absent.
      bind_result (env_float env ''FROZEN_PAYLOAD_SECONDS'' ''300'') (\<lambda>frozen.
      bind_result (env_float env ''ALERTS_FROZEN_PAYLOAD_SECONDS'' ''86400'') (\<lambda>alerts_frozen.
      construct post_init
        (\<lparr>api_key = key, data_dir = env_or env ''DATA_DIR'' ''/data'', poll_interval_seconds = poll,
                vehicle_positions_interval_seconds = vehicles, trip_updates_interval_seconds = trips,
                alerts_interval_seconds = alerts, parquet_flush_seconds = times_60 flush_minutes,
                tripupdates_raw_archive_seconds = raw_archive, tripupdates_analysis_sample_seconds = analysis,
                delay_change_threshold_seconds = delay, prediction_time_change_threshold_seconds = prediction,
                bkk_stop_distance_change_threshold = distance, change_tracker_null_guard_rows = null_guard,
                tracker_heartbeat_seconds = heartbeat, disk_warn_free_gb = disk_warn,
                disk_critical_free_gb = disk_critical, connect_timeout_seconds = connect_timeout,
                read_timeout_seconds = read_timeout, http_connect_retries = retries, http_backoff_seconds = backoff,
                feed_stale_seconds = stale, feed_absent_seconds = absent, frozen_payload_seconds = frozen,
                alerts_frozen_payload_seconds = alerts_frozen, raw_fsync = env_bool env ''RAW_FSYNC'' True\<rparr>))))))))))))))))))))))))"

subsection \<open>The maintenance configuration\<close>

record maintenance_config =
  mc_data_dir :: string
  hf_token :: string
  hf_repo_id :: string
  backup_hour_utc :: int
  backup_retry_seconds :: pynum
  backup_max_dates_per_run :: int
  backup_date_grace_minutes :: int
  prune_local_raw_after_days :: int
  prune_local_parquet_after_days :: int
  static_check_interval_seconds :: pynum
  static_retry_seconds :: pynum
  maintenance_interval_seconds :: pynum
  healthcheck_url :: string
  healthcheck_ping_interval_seconds :: pynum
  compact_parquet :: bool
  compaction_min_files :: int
  backup_stale_hours :: pynum

definition maintenance_positive_fields :: "maintenance_config \<Rightarrow> (string \<times> pynum) list" where
  "maintenance_positive_fields c =
     [(''backup_retry_seconds'', backup_retry_seconds c),
      (''backup_max_dates_per_run'', Fin (of_int (backup_max_dates_per_run c))),
      (''static_check_interval_seconds'', static_check_interval_seconds c),
      (''static_retry_seconds'', static_retry_seconds c),
      (''maintenance_interval_seconds'', maintenance_interval_seconds c),
      (''healthcheck_ping_interval_seconds'', healthcheck_ping_interval_seconds c),
      (''backup_stale_hours'', backup_stale_hours c)]"

definition maintenance_post_init :: "maintenance_config \<Rightarrow> config_error option" where
  "maintenance_post_init c =
     (if \<not> (0 \<le> backup_hour_utc c \<and> backup_hour_utc c \<le> 23) then Some (OutOfRange ''BACKUP_HOUR_UTC'')
      else case first_bad (\<lambda>v. \<not> is_finite v \<or> num_val v \<le> 0) (maintenance_positive_fields c) of
          Some n \<Rightarrow> Some (NotPositive n)
        | None \<Rightarrow>
            if backup_date_grace_minutes c < 0 then Some (IsNegative ''BACKUP_DATE_GRACE_MINUTES'')
            else if backup_date_grace_minutes c > 1439 then Some (OutOfRange ''BACKUP_DATE_GRACE_MINUTES'')
            else if prune_local_raw_after_days c < 0 then Some (IsNegative ''PRUNE_LOCAL_RAW_AFTER_DAYS'')
            else if prune_local_parquet_after_days c < 0 then Some (IsNegative ''PRUNE_LOCAL_PARQUET_AFTER_DAYS'')
            else if compaction_min_files c < 2 then Some (OutOfRange ''PARQUET_COMPACTION_MIN_FILES'')
            else None)"

definition maintenance_from_env :: "env \<Rightarrow> config_error + maintenance_config" where
  "maintenance_from_env env =
     bind_result (env_int env ''BACKUP_HOUR_UTC'' ''3'') (\<lambda>hour.
     bind_result (env_float env ''BACKUP_RETRY_SECONDS'' ''900'') (\<lambda>retry.
     bind_result (env_int env ''BACKUP_MAX_DATES_PER_RUN'' ''7'') (\<lambda>max_dates.
     bind_result (env_int env ''BACKUP_DATE_GRACE_MINUTES'' ''30'') (\<lambda>grace.
     bind_result (env_int env ''PRUNE_LOCAL_RAW_AFTER_DAYS'' ''3'') (\<lambda>raw_days.
     bind_result (env_int env ''PRUNE_LOCAL_PARQUET_AFTER_DAYS'' ''7'') (\<lambda>parquet_days.
     bind_result (env_float env ''STATIC_GTFS_CHECK_INTERVAL_SECONDS'' ''86400'') (\<lambda>static_check.
     bind_result (env_float env ''STATIC_GTFS_RETRY_SECONDS'' ''3600'') (\<lambda>static_retry.
     bind_result (env_float env ''MAINTENANCE_INTERVAL_SECONDS'' ''60'') (\<lambda>interval.
     bind_result (env_float env ''HEALTHCHECK_PING_INTERVAL_SECONDS'' ''300'') (\<lambda>ping.
     bind_result (env_int env ''PARQUET_COMPACTION_MIN_FILES'' ''12'') (\<lambda>min_files.
     bind_result (env_float env ''BACKUP_STALE_HOURS'' ''48'') (\<lambda>stale_hours.
     construct maintenance_post_init
       (\<lparr>mc_data_dir = env_or env ''DATA_DIR'' ''/data'', hf_token = py_strip (env_or env ''HF_TOKEN'' []),
               hf_repo_id = py_strip (env_or env ''HF_REPO_ID'' []), backup_hour_utc = hour,
               backup_retry_seconds = retry, backup_max_dates_per_run = max_dates,
               backup_date_grace_minutes = grace, prune_local_raw_after_days = raw_days,
               prune_local_parquet_after_days = parquet_days, static_check_interval_seconds = static_check,
               static_retry_seconds = static_retry, maintenance_interval_seconds = interval,
               healthcheck_url = py_strip (env_or env ''HEALTHCHECK_URL'' []),
               healthcheck_ping_interval_seconds = ping,
               compact_parquet = env_bool env ''PARQUET_COMPACTION_ENABLED'' True,
               compaction_min_files = min_files, backup_stale_hours = stale_hours\<rparr>)))))))))))))"

subsection \<open>What validation gives\<close>

lemma first_bad_None: "first_bad bad kvs = None \<longleftrightarrow> list_all (\<lambda>(_, v). \<not> bad v) kvs"
  by (induction kvs) (auto simp: first_bad_def)

lemma from_env_valid:
  assumes "from_env env = Inr c"
  shows "post_init c = None \<and> api_key c = py_strip (env_or env ''BKK_API_KEY'' []) \<and> api_key c \<noteq> []"
proof (cases "py_strip (env_or env ''BKK_API_KEY'' []) = []")
  case False
  with assms show ?thesis
    unfolding from_env_def Let_def by (simp only: if_False bind_result_iff construct_iff) fastforce
qed (use assms in \<open>simp add: from_env_def\<close>)

lemma maintenance_from_env_valid:
  assumes "maintenance_from_env env = Inr c"
  shows "maintenance_post_init c = None"
  using assms unfolding maintenance_from_env_def by (simp only: bind_result_iff construct_iff) blast

lemma post_init_interval:
  assumes "post_init c = None"
  shows "is_finite (feed_interval c f) \<and> 5 \<le> num_val (feed_interval c f)"
proof -
  from assms have "list_all (\<lambda>(_, v). \<not> too_short v) (feed_intervals c)"
    by (simp add: post_init_def first_bad_None [symmetric] split: if_splits option.splits)
  then show ?thesis
    by (cases f) (simp_all add: feed_intervals_def FEED_NAMES_def too_short_def MIN_REALTIME_INTERVAL_SECONDS_def)
qed

lemma post_init_fields:
  assumes "post_init c = None"
  shows "list_all (\<lambda>(_, v). is_finite v \<and> 0 < num_val v) (positive_fields c)"
    and "list_all (\<lambda>(_, v). is_finite v \<and> 0 \<le> num_val v) (nonnegative_fields c)"
    and "num_val (disk_critical_free_gb c) \<le> num_val (disk_warn_free_gb c)"
proof -
  from assms have "first_bad (\<lambda>v. \<not> is_finite v \<or> num_val v \<le> 0) (positive_fields c) = None"
    and "first_bad (\<lambda>v. \<not> is_finite v \<or> num_val v < 0) (nonnegative_fields c) = None"
    and "num_val (disk_critical_free_gb c) \<le> num_val (disk_warn_free_gb c)"
    by (auto simp: post_init_def split: if_splits option.splits)
  then show "list_all (\<lambda>(_, v). is_finite v \<and> 0 < num_val v) (positive_fields c)"
    and "list_all (\<lambda>(_, v). is_finite v \<and> 0 \<le> num_val v) (nonnegative_fields c)"
    and "num_val (disk_critical_free_gb c) \<le> num_val (disk_warn_free_gb c)"
    by (auto simp: first_bad_None list_all_iff not_less not_le)
qed

end
