(* ===== verification/Fetch.thy ===== *)
theory Fetch
  imports Config "HOL-Library.Sublist"
begin

section \<open>Fetching a feed and redacting the API key (bkk_collector/collector.py)\<close>

text \<open>
  The URL of a request carries the API key, and so do the messages of HTTP errors. \<^verbatim>\<open>_redact_text\<close>
  replaces the key, and then whatever follows \<^verbatim>\<open>key=\<close> in a query; everything that reaches the log or a
  journal as an error goes through it. \<^verbatim>\<open>fetch_feed\<close> turns the outcome of a request into a \<^verbatim>\<open>FetchResult\<close>.
\<close>

subsection \<open>Redaction\<close>

definition REDACTED :: string where
  "REDACTED = ''<redacted>''"

text \<open>\<^verbatim>\<open>message.replace(old, new)\<close> for a nonempty \<open>old\<close>.\<close>

fun replace_all :: "string \<Rightarrow> string \<Rightarrow> string \<Rightarrow> string" where
  "replace_all old new [] = []"
| "replace_all old new (c # cs) =
     (if old \<noteq> [] \<and> take (length old) (c # cs) = old
      then new @ replace_all old new (drop (length old - 1) cs)
      else c # replace_all old new cs)"

text \<open>A match of \<^verbatim>\<open>([?&]key=)[^&\s]+\<close> without regard to case: five characters, then a nonempty value.\<close>

definition value_char :: "char \<Rightarrow> bool" where
  "value_char c \<longleftrightarrow> c \<noteq> CHR ''&'' \<and> \<not> py_space c"

definition query_match :: "string \<Rightarrow> bool" where
  "query_match s \<longleftrightarrow> s \<noteq> [] \<and> hd s \<in> {CHR ''?'', CHR ''&''} \<and> map lower_char (take 4 (tl s)) = ''key='' \<and>
     drop 5 s \<noteq> [] \<and> value_char (hd (drop 5 s))"

function redact_query :: "string \<Rightarrow> string" where
  "redact_query s =
     (if s = [] then []
      else if query_match s then take 5 s @ REDACTED @ redact_query (dropWhile value_char (drop 5 s))
      else hd s # redact_query (tl s))"
  by pat_completeness auto
termination
proof (relation "measure length", goal_cases)
  case (2 s)
  have "length (dropWhile value_char (drop 5 s)) \<le> length (drop 5 s)" by (rule length_dropWhile_le)
  also have "\<dots> < length s" using 2 by simp
  finally show ?case by simp
qed auto

declare redact_query.simps [simp del]

definition redact_text :: "string \<Rightarrow> string \<Rightarrow> string" where
  "redact_text message key =
     redact_query (if key \<noteq> [] then replace_all key REDACTED message else message)"

text \<open>An exception is the name of its class and its text.\<close>

record exn =
  ex_class :: string
  ex_text :: string

definition redact_error :: "exn \<Rightarrow> string \<Rightarrow> string" where
  "redact_error e key = take 1000 (ex_class e @ '': '' @ redact_text (ex_text e) key)"

record log_record =
  lr_msg :: string
  lr_exc :: "string option"
  lr_stack :: "string option"

text \<open>\<^verbatim>\<open>if record.stack_info\<close> leaves an empty string as it is.\<close>

definition redact_log_record :: "string \<Rightarrow> log_record \<Rightarrow> log_record" where
  "redact_log_record key r =
     \<lparr>lr_msg = redact_text (lr_msg r) key, lr_exc = map_option (\<lambda>t. redact_text t key) (lr_exc r),
      lr_stack = map_option (\<lambda>t. if t = [] then t else redact_text t key) (lr_stack r)\<rparr>"

subsection \<open>Fetching\<close>

fun feed_path :: "feed \<Rightarrow> string" where
  "feed_path Vehiclepositions = ''VehiclePositions.pb''"
| "feed_path Tripupdates = ''TripUpdates.pb''"
| "feed_path Alerts = ''Alerts.pb''"

definition feed_url :: "string \<Rightarrow> feed \<Rightarrow> string" where
  "feed_url key f = ''https://go.bkk.hu/api/query/v1/ws/gtfs-rt/full/'' @ feed_path f @ ''?key='' @ key"

record fetch_result =
  fr_feed :: feed
  fr_poll_id :: string
  fr_request_started_at :: string
  fr_request_started_ts :: seconds
  fr_response_received_at :: string
  fr_response_received_ts :: seconds
  fr_latency_ms :: seconds
  fr_http_status :: "int option"
  fr_payload :: "bytes option"
  fr_error :: "string option"

text \<open>
  What the HTTP library does with the request: a response with its status and body, or an exception. The
  text of the exception that \<^verbatim>\<open>raise_for_status\<close> raises for the status codes 400 to 599 comes with the response.
\<close>

datatype http_outcome = Response int bytes string | RequestFailed exn

record fetch_clock =
  fc_started :: seconds
  fc_received :: seconds
  fc_monotonic_start :: seconds
  fc_monotonic_end :: seconds

definition fetch_feed ::
  "(seconds \<Rightarrow> string) \<Rightarrow> string \<Rightarrow> (string \<Rightarrow> http_outcome) \<Rightarrow> fetch_clock \<Rightarrow> feed \<Rightarrow> string \<Rightarrow> fetch_result" where
  "fetch_feed utc_iso key http clock f poll_id =
     (case (case http (feed_url key f) of
              Response status body text \<Rightarrow>
                if 400 \<le> status \<and> status < 600
                then (Some status, None, Some (redact_error \<lparr>ex_class = ''HTTPError'', ex_text = text\<rparr> key))
                else (Some status, Some body, None)
            | RequestFailed e \<Rightarrow> (None, None, Some (redact_error e key))) of
        (status, payload, error) \<Rightarrow>
          \<lparr>fr_feed = f, fr_poll_id = poll_id, fr_request_started_at = utc_iso (fc_started clock),
           fr_request_started_ts = fc_started clock, fr_response_received_at = utc_iso (fc_received clock),
           fr_response_received_ts = fc_received clock,
           fr_latency_ms = (fc_monotonic_end clock - fc_monotonic_start clock) * 1000,
           fr_http_status = status, fr_payload = payload, fr_error = error\<rparr>)"

subsection \<open>The key does not survive\<close>

lemma sublist_avoid:
  assumes "x \<notin> set k" and "sublist k (a @ x # b)"
  shows "sublist k a \<or> sublist k b"
proof -
  from assms(2) consider "sublist k a" | "sublist k (x # b)"
    | (mid) k1 k2 where "k = k1 @ k2" "suffix k1 a" "prefix k2 (x # b)"
    unfolding sublist_append by blast
  then show ?thesis
  proof cases
    case 2
    with assms(1) show ?thesis by (auto simp: sublist_Cons_right prefix_Cons)
  next
    case mid
    with assms(1) have "k2 = []" by (auto simp: prefix_Cons)
    with mid have "sublist k a" by (simp add: suffix_imp_sublist)
    then show ?thesis by simp
  qed simp
qed

lemma prefix_avoid: "x \<notin> set k \<Longrightarrow> prefix k (a @ x # b) \<Longrightarrow> prefix k a"
  by (auto simp: prefix_append prefix_Cons)

lemma redacted_split: "REDACTED = CHR ''<'' # ''redacted'' @ CHR ''>'' # []"
  by (simp add: REDACTED_def)

text \<open>A key without angle brackets around a marker lies before or after it.\<close>

lemma sublist_marker:
  assumes "CHR ''<'' \<notin> set k" and "CHR ''>'' \<notin> set k" and "\<not> sublist k ''redacted''"
    and "sublist k (a @ REDACTED @ b)"
  shows "sublist k a \<or> sublist k b"
proof -
  from assms(4) have "sublist k (a @ CHR ''<'' # (''redacted'' @ CHR ''>'' # b))" by (simp add: REDACTED_def)
  from sublist_avoid [OF assms(1) this] show ?thesis
    using sublist_avoid [OF assms(2), of "''redacted''" b] assms(3) by blast
qed

lemma replace_all_prefix:
  "CHR ''<'' \<notin> set k \<Longrightarrow> prefix k (replace_all old REDACTED s) \<Longrightarrow> prefix k s"
proof (induction s arbitrary: k)
  case (Cons c cs)
  show ?case
  proof (cases "old \<noteq> [] \<and> take (length old) (c # cs) = old")
    case True
    with Cons.prems have "k = []" by (auto simp: REDACTED_def prefix_Cons)
    then show ?thesis by simp
  next
    case False
    then have eq: "replace_all old REDACTED (c # cs) = c # replace_all old REDACTED cs" by auto
    show ?thesis
    proof (cases k)
      case (Cons d k')
      with Cons.prems eq Cons.IH [of k'] show ?thesis by simp
    qed simp
  qed
qed simp

lemma replace_all_clean:
  assumes "k \<noteq> []" and "CHR ''<'' \<notin> set k" and "CHR ''>'' \<notin> set k" and "\<not> sublist k ''redacted''"
  shows "\<not> sublist k (replace_all k REDACTED s)"
proof (induction s rule: length_induct)
  case (1 s)
  show ?case
  proof (cases s)
    case (Cons c cs)
    show ?thesis
    proof (cases "take (length k) s = k")
      case True
      let ?rest = "replace_all k REDACTED (drop (length k - 1) cs)"
      from True Cons assms(1) have eq: "replace_all k REDACTED s = [] @ REDACTED @ ?rest" by simp
      have "\<not> sublist k ?rest" using 1 Cons by simp
      with sublist_marker [OF assms(2-4), of "[]" ?rest] assms(1) show ?thesis unfolding eq by auto
    next
      case False
      with Cons have eq: "replace_all k REDACTED s = c # replace_all k REDACTED cs" by auto
      have "\<not> prefix k s" using False by (auto simp: prefix_def)
      with replace_all_prefix [OF assms(2), of k s] have "\<not> prefix k (replace_all k REDACTED s)" by blast
      moreover have "\<not> sublist k (replace_all k REDACTED cs)" using 1 Cons by simp
      ultimately show ?thesis unfolding eq by (simp add: sublist_Cons_right)
    qed
  qed (use assms(1) in simp)
qed

lemma redact_query_step:
  obtains (empty) "s = []" "redact_query s = []"
    | (hit) "redact_query s = take 5 s @ REDACTED @ redact_query (dropWhile value_char (drop 5 s))" "s \<noteq> []"
    | (miss) c cs where "s = c # cs" "redact_query s = c # redact_query cs"
proof (cases s)
  case (Cons c cs)
  show ?thesis
  proof (cases "query_match s")
    case True
    with Cons have "redact_query s = take 5 s @ REDACTED @ redact_query (dropWhile value_char (drop 5 s))"
      by (subst redact_query.simps) simp
    with Cons show ?thesis by (intro hit) simp_all
  next
    case False
    with Cons have "redact_query s = c # redact_query cs" by (subst redact_query.simps) simp
    with Cons show ?thesis by (rule miss)
  qed
qed (simp add: empty redact_query.simps)

lemma redact_query_prefix:
  "CHR ''<'' \<notin> set k \<Longrightarrow> prefix k (redact_query s) \<Longrightarrow> prefix k s"
proof (induction s arbitrary: k)
  case (Cons c cs)
  show ?case
  proof (cases "c # cs" rule: redact_query_step)
    case hit
    then have "redact_query (c # cs) = take 5 (c # cs) @ CHR ''<'' #
        (''redacted>'' @ redact_query (dropWhile value_char (drop 5 (c # cs))))"
      by (simp add: REDACTED_def)
    with Cons.prems have "prefix k (take 5 (c # cs))" by (metis prefix_avoid)
    then show ?thesis by (rule prefix_order.trans) (rule take_is_prefix)
  next
    case (miss d ds)
    with Cons show ?thesis by (cases k) auto
  qed simp
qed (simp add: redact_query.simps)

lemma redact_query_clean:
  assumes "k \<noteq> []" and "CHR ''<'' \<notin> set k" and "CHR ''>'' \<notin> set k" and "\<not> sublist k ''redacted''"
  shows "\<not> sublist k s \<Longrightarrow> \<not> sublist k (redact_query s)"
proof (induction s rule: length_induct)
  case (1 s)
  show ?case
  proof (cases s rule: redact_query_step)
    case empty
    then show ?thesis using assms(1) by simp
  next
    case hit
    let ?tail = "dropWhile value_char (drop 5 s)"
    have len: "length ?tail < length s"
      using length_dropWhile_le [of value_char "drop 5 s"] hit(2) by (cases s) simp_all
    have sub: "sublist ?tail s"
      by (metis sublist_drop sublist_dropWhile sublist_order.order.trans)
    with 1 have "\<not> sublist k ?tail" using sublist_order.order.trans by blast
    with 1 len have "\<not> sublist k (redact_query ?tail)" by blast
    moreover have "\<not> sublist k (take 5 s)" using 1 sublist_order.order.trans [OF _ sublist_take] by blast
    ultimately show ?thesis
      using sublist_marker [OF assms(2-4)] unfolding hit(1) by blast
  next
    case (miss c cs)
    have "\<not> prefix k (redact_query s)"
      using redact_query_prefix [OF assms(2)] 1 prefix_imp_sublist by blast
    moreover have "\<not> sublist k (redact_query cs)"
      using 1 miss(1) by (simp add: sublist_Cons_right)
    ultimately show ?thesis unfolding miss(2) by (simp add: sublist_Cons_right)
  qed
qed

text \<open>A key that redaction can hide: it has no angle bracket, and is not a part of the marker.\<close>

definition hideable :: "string \<Rightarrow> bool" where
  "hideable key \<longleftrightarrow> key \<noteq> [] \<and> list_all (\<lambda>c. c \<notin> set ''<>: '') key \<and> \<not> sublist key ''redacted''"

lemma redact_text_clean:
  assumes "hideable key"
  shows "\<not> sublist key (redact_text message key)"
proof -
  have k: "key \<noteq> []" "CHR ''<'' \<notin> set key" "CHR ''>'' \<notin> set key" "\<not> sublist key ''redacted''"
    using assms by (auto simp: hideable_def list_all_iff)
  from redact_query_clean [OF k replace_all_clean [OF k]] k(1) show ?thesis by (simp add: redact_text_def)
qed

lemma redact_error_clean:
  assumes "hideable key" and "\<not> sublist key (ex_class e)"
  shows "\<not> sublist key (redact_error e key)"
proof -
  have colon: "CHR '':'' \<notin> set key" and space: "CHR '' '' \<notin> set key" and "key \<noteq> []"
    using assms(1) by (auto simp: hideable_def list_all_iff)
  have "\<not> sublist key (ex_class e @ '': '' @ redact_text (ex_text e) key)"
    using sublist_avoid [OF colon, of "ex_class e" "'' '' @ redact_text (ex_text e) key"]
      sublist_avoid [OF space, of "[]" "redact_text (ex_text e) key"]
      assms(2) redact_text_clean [OF assms(1)] \<open>key \<noteq> []\<close> by auto
  then show ?thesis
    unfolding redact_error_def using sublist_order.order.trans [OF _ sublist_take] by blast
qed

subsection \<open>Properties\<close>

text \<open>
  Claim C27. The API key never reaches an error text. For a key that redaction can hide and exception
  classes that do not contain it, no error of a fetch contains the key, whatever the HTTP library
  reports about the URL; and a fetch has a payload exactly if it has no error.
\<close>

theorem api_key_never_leaks:
  assumes "hideable key" and "\<not> sublist key ''HTTPError''"
    and "\<And>url e. http url = RequestFailed e \<Longrightarrow> \<not> sublist key (ex_class e)"
  shows "(case fr_error (fetch_feed utc_iso key http clock f poll_id) of
      None \<Rightarrow> fr_payload (fetch_feed utc_iso key http clock f poll_id) \<noteq> None
    | Some e \<Rightarrow> \<not> sublist key e \<and> fr_payload (fetch_feed utc_iso key http clock f poll_id) = None)"
proof (cases "http (feed_url key f)")
  case (Response status body msg)
  with assms(2) redact_error_clean [OF assms(1), of "\<lparr>ex_class = ''HTTPError'', ex_text = msg\<rparr>"]
  show ?thesis by (simp add: fetch_feed_def)
next
  case (RequestFailed e)
  with assms(3) redact_error_clean [OF assms(1), of e] show ?thesis by (simp add: fetch_feed_def)
qed

definition demo_http :: "string \<Rightarrow> http_outcome" where
  "demo_http url = Response 403 [] (''403 Client Error: for url: '' @ url)"

lemma api_key_never_leaks_witness:
  "\<not> sublist ''5ecr3t-k'' (the (fr_error (fetch_feed (\<lambda>_. []) ''5ecr3t-k'' demo_http
      \<lparr>fc_started = 0, fc_received = 1, fc_monotonic_start = 0, fc_monotonic_end = 1\<rparr> Alerts ''p'')))"
proof -
  have "hideable ''5ecr3t-k''" and "\<not> sublist ''5ecr3t-k'' ''HTTPError''"
    by (simp_all add: hideable_def sublist_Cons_right)
  from api_key_never_leaks [OF this, of demo_http "\<lambda>_. []"
      "\<lparr>fc_started = 0, fc_received = 1, fc_monotonic_start = 0, fc_monotonic_end = 1\<rparr>" Alerts "''p''"]
  show ?thesis by (simp add: demo_http_def fetch_feed_def)
qed

end
