(* ===== verification/Poll_Journal.thy ===== *)
theory Poll_Journal
  imports Interfaces "HOL-Library.Sublist"
begin

section \<open>Poll journals (bkk_collector/storage/poll\_journal.py)\<close>

text \<open>
  A journal is a file of JSON lines with a checkpoint beside it, which names a length up to which the file
  is known to hold complete records. \<^verbatim>\<open>repair_jsonl_tail\<close> checks what lies behind it, moves a broken
  final line to a recovery file and refuses to touch anything else; \<^verbatim>\<open>append_poll_jsonl\<close> repairs,
  appends and checkpoints.

  \<open>is_event\<close> is a parameter: whether \<^verbatim>\<open>json.loads\<close> of a line, given without its separator, is an
  object. The file operations of a repair are listed and executed up to a budget at which one of them
  raises or the process dies; an append writes some prefix of its line.
\<close>

subsection \<open>Lines\<close>

definition NL :: byte where
  "NL = 10"

text \<open>\<^verbatim>\<open>handle.readline()\<close> and what follows it.\<close>

definition read_line :: "bytes \<Rightarrow> bytes \<times> bytes" where
  "read_line bs = (case dropWhile (\<lambda>b. b \<noteq> NL) bs of
     [] \<Rightarrow> (bs, [])
   | _ # rest \<Rightarrow> (takeWhile (\<lambda>b. b \<noteq> NL) bs @ [NL], rest))"

lemma read_line_append: "read_line bs = (line, rest) \<Longrightarrow> bs = line @ rest"
  unfolding read_line_def using takeWhile_dropWhile_id [of "\<lambda>b. b \<noteq> NL" bs] hd_dropWhile [of "\<lambda>b. b \<noteq> NL" bs]
  by (cases "dropWhile (\<lambda>b. b \<noteq> NL) bs") auto

lemma read_line_nonempty: "bs \<noteq> [] \<Longrightarrow> read_line bs = (line, rest) \<Longrightarrow> line \<noteq> []"
  unfolding read_line_def by (cases "dropWhile (\<lambda>b. b \<noteq> NL) bs") auto

lemma read_line_shrinks: "bs \<noteq> [] \<Longrightarrow> (line, rest) = read_line bs \<Longrightarrow> length rest < length bs"
  using read_line_append [of bs line rest] read_line_nonempty [of bs line rest] by auto

definition strip_separator :: "bytes \<Rightarrow> bytes" where
  "strip_separator line = (if line \<noteq> [] \<and> last line = NL then butlast line else line)"

fun rfind :: "byte \<Rightarrow> bytes \<Rightarrow> nat option" where
  "rfind b [] = None"
| "rfind b (x # xs) = (case rfind b xs of Some i \<Rightarrow> Some (Suc i) | None \<Rightarrow> if x = b then Some 0 else None)"

function last_separator :: "bytes \<Rightarrow> nat \<Rightarrow> nat" where
  "last_separator bs e =
     (if e = 0 then 0
      else let start = e - 4096; block = take (e - start) (drop start bs)
        in case rfind NL block of
            Some i \<Rightarrow> start + i + 1
          | None \<Rightarrow> last_separator bs start)"
  by pat_completeness auto
termination
  by (relation "measure snd") auto

declare last_separator.simps [simp del]

definition last_line_start :: "bytes \<Rightarrow> nat" where
  "last_line_start bs =
     last_separator bs (if bs \<noteq> [] \<and> last bs = NL then length bs - 1 else length bs)"

subsection \<open>Repair\<close>

record journal =
  j_file :: "bytes option"
  j_checkpoint :: row
  j_recovered :: "(string \<times> bytes) list"

definition empty_journal :: journal where
  "empty_journal = \<lparr>j_file = None, j_checkpoint = [], j_recovered = []\<rparr>"

text \<open>What the loop over the lines finds: interior corruption, a bad final line at a position, or nothing bad.\<close>

datatype line_scan = Interior | BadTail nat bytes | Sound bool

function scan_lines :: "(bytes \<Rightarrow> bool) \<Rightarrow> nat \<Rightarrow> bytes \<Rightarrow> bool \<Rightarrow> line_scan" where
  "scan_lines is_event pos bs add_separator =
     (if bs = [] then Sound add_separator
      else case read_line bs of (line, rest) \<Rightarrow>
        if is_event (strip_separator line)
        then scan_lines is_event (pos + length line) rest (last line \<noteq> NL)
        else if rest \<noteq> [] then Interior
        else BadTail pos line)"
  by pat_completeness auto
termination
  by (relation "measure (\<lambda>(is_event, pos, bs, a). length bs)")
    (auto intro: read_line_shrinks)

declare scan_lines.simps [simp del]

datatype journal_op =
    WriteRecovery string bytes
  | SyncDirectory
  | Truncate nat
  | WriteSeparator nat
  | WriteCheckpoint nat

definition checkpoint_of :: "nat \<Rightarrow> row" where
  "checkpoint_of n = [(''version'', PInt 1), (''valid_bytes'', PInt (int n))]"

definition checkpointed_bytes :: "row \<Rightarrow> nat \<Rightarrow> nat option" where
  "checkpointed_bytes ck len =
     (if row_get ck ''version'' = PInt 1
      then (case row_get ck ''valid_bytes'' of
              PInt v \<Rightarrow> if 0 \<le> v \<and> v \<le> int len then Some (nat v) else None
            | _ \<Rightarrow> None)
      else None)"

text \<open>\<open>None\<close> is the refusal of a destructive repair.\<close>

definition repair_ops :: "(bytes \<Rightarrow> bool) \<Rightarrow> string \<Rightarrow> journal \<Rightarrow> journal_op list option" where
  "repair_ops is_event recovery j =
     (case j_file j of
        None \<Rightarrow> Some []
      | Some bs \<Rightarrow>
          let valid = checkpointed_bytes (j_checkpoint j) (length bs) in
          if valid = Some (length bs) then Some []
          else let start = (case valid of Some v \<Rightarrow> v | None \<Rightarrow> last_line_start bs) in
            case scan_lines is_event start (drop start bs) False of
              Interior \<Rightarrow> None
            | BadTail pos line \<Rightarrow>
                Some [WriteRecovery recovery line, SyncDirectory, Truncate pos, WriteCheckpoint pos]
            | Sound True \<Rightarrow> Some [WriteSeparator (length bs), WriteCheckpoint (length bs + 1)]
            | Sound False \<Rightarrow> Some [WriteCheckpoint (length bs)])"

definition exec_journal_op :: "journal \<Rightarrow> journal_op \<Rightarrow> journal" where
  "exec_journal_op j op =
     (case op of
        WriteRecovery n line \<Rightarrow> j\<lparr>j_recovered := j_recovered j @ [(n, line)]\<rparr>
      | SyncDirectory \<Rightarrow> j
      | Truncate n \<Rightarrow> j\<lparr>j_file := map_option (take n) (j_file j)\<rparr>
      | WriteSeparator n \<Rightarrow> j\<lparr>j_file := map_option (\<lambda>bs. take n bs @ [NL]) (j_file j)\<rparr>
      | WriteCheckpoint n \<Rightarrow> j\<lparr>j_checkpoint := checkpoint_of n\<rparr>)"

text \<open>The result says whether the repair returned.\<close>

definition repair_jsonl_tail :: "(bytes \<Rightarrow> bool) \<Rightarrow> string \<Rightarrow> nat \<Rightarrow> journal \<Rightarrow> bool \<times> journal" where
  "repair_jsonl_tail is_event recovery budget j =
     (case repair_ops is_event recovery j of
        None \<Rightarrow> (False, j)
      | Some ops \<Rightarrow> (length ops \<le> budget, foldl exec_journal_op j (take budget ops)))"

subsection \<open>Appending\<close>

text \<open>
  An attempt: the name for a recovery file, the budget of the repair, the number of bytes the append
  wrote, whether its sync returned, and whether the final checkpoint was written.
\<close>

record attempt =
  a_line :: bytes
  a_recovery :: string
  a_budget :: nat
  a_written :: nat
  a_synced :: bool
  a_checkpointed :: bool

definition append_jsonl :: "attempt \<Rightarrow> journal \<Rightarrow> bool \<times> journal" where
  "append_jsonl a j =
     (let line = a_line a @ [NL]; old = (case j_file j of None \<Rightarrow> [] | Some bs \<Rightarrow> bs)
      in (length line \<le> a_written a \<and> a_synced a, j\<lparr>j_file := Some (old @ take (a_written a) line)\<rparr>))"

definition append_poll_jsonl :: "(bytes \<Rightarrow> bool) \<Rightarrow> attempt \<Rightarrow> journal \<Rightarrow> bool \<times> journal" where
  "append_poll_jsonl is_event a j =
     (case repair_jsonl_tail is_event (a_recovery a) (a_budget a) j of
        (False, j1) \<Rightarrow> (False, j1)
      | (True, j1) \<Rightarrow>
          (case append_jsonl a j1 of
             (False, j2) \<Rightarrow> (False, j2)
           | (True, j2) \<Rightarrow>
               if a_checkpointed a
               then (True, j2\<lparr>j_checkpoint := checkpoint_of (case j_file j2 of None \<Rightarrow> 0 | Some bs \<Rightarrow> length bs)\<rparr>)
               else (False, j2)))"

fun append_all :: "(bytes \<Rightarrow> bool) \<Rightarrow> attempt list \<Rightarrow> journal \<Rightarrow> bytes list \<Rightarrow> journal \<times> bytes list" where
  "append_all is_event [] j acked = (j, acked)"
| "append_all is_event (a # as) j acked =
     (case append_poll_jsonl is_event a j of
        (ok, j') \<Rightarrow> append_all is_event as j' (if ok then acked @ [a_line a] else acked))"

subsection \<open>Today's journal and the one before\<close>

text \<open>The directories are given as (date, whether its file exists), with dates that parse.\<close>

definition recent_partition_files :: "(string \<times> bool) list \<Rightarrow> string \<Rightarrow> string list" where
  "recent_partition_files dirs today =
     (let found = map fst [d \<leftarrow> dirs. fst d \<le> today \<and> snd d]; prior = [d \<leftarrow> found. d < today]
      in [d \<leftarrow> sort found. d = today \<or> (prior \<noteq> [] \<and> d = Max (set prior))])"

subsection \<open>Journals as framed files\<close>

definition event_line :: "(bytes \<Rightarrow> bool) \<Rightarrow> bytes \<Rightarrow> bool" where
  "event_line is_event l \<longleftrightarrow> is_event l \<and> NL \<notin> set l"

definition line_frame :: "bytes \<Rightarrow> bytes" where
  "line_frame l = l @ [NL]"

definition next_line :: "(bytes \<Rightarrow> bool) \<Rightarrow> bytes \<Rightarrow> (bytes \<times> bytes) option" where
  "next_line is_event bs =
     (if NL \<in> set bs \<and> is_event (takeWhile (\<lambda>b. b \<noteq> NL) bs)
      then Some (takeWhile (\<lambda>b. b \<noteq> NL) bs, tl (dropWhile (\<lambda>b. b \<noteq> NL) bs)) else None)"

lemma takeWhile_frame: "NL \<notin> set l \<Longrightarrow> takeWhile (\<lambda>b. b \<noteq> NL) (l @ NL # bs) = l"
  by (induction l) auto

lemma dropWhile_frame: "NL \<notin> set l \<Longrightarrow> dropWhile (\<lambda>b. b \<noteq> NL) (l @ NL # bs) = NL # bs"
  by (induction l) auto

lemma dropWhile_no_separator: "NL \<notin> set l \<Longrightarrow> dropWhile (\<lambda>b. b \<noteq> NL) l = []"
  by (induction l) auto

lemma split_at_separator:
  "NL \<in> set bs \<Longrightarrow> bs = takeWhile (\<lambda>b. b \<noteq> NL) bs @ NL # tl (dropWhile (\<lambda>b. b \<noteq> NL) bs)"
  by (induction bs) auto

interpretation jsonl: framing "event_line is_event" line_frame "next_line is_event" for is_event
proof unfold_locales
  fix l bs n r rest
  show "line_frame l \<noteq> []" by (simp add: line_frame_def)
  show "event_line is_event l \<Longrightarrow> next_line is_event (line_frame l @ bs) = Some (l, bs)"
    by (simp add: event_line_def line_frame_def next_line_def takeWhile_frame dropWhile_frame)
  show "event_line is_event l \<Longrightarrow> n < length (line_frame l) \<Longrightarrow> next_line is_event (take n (line_frame l)) = None"
    by (auto simp: event_line_def line_frame_def next_line_def dest: in_set_takeD)
  show "next_line is_event bs = Some (r, rest) \<Longrightarrow> event_line is_event r \<and> bs = line_frame r @ rest"
    using split_at_separator [of bs] by (auto simp: next_line_def event_line_def line_frame_def split: if_splits dest: set_takeWhileD)
qed

subsection \<open>The last line\<close>

lemma rfind_None: "rfind b xs = None \<longleftrightarrow> b \<notin> set xs"
  by (induction xs) (auto split: option.splits)

lemma rfind_Some: "rfind b xs = Some i \<Longrightarrow> i < length xs \<and> xs ! i = b \<and> b \<notin> set (drop (Suc i) xs)"
proof (induction xs arbitrary: i)
  case (Cons x xs)
  then show ?case by (cases "rfind b xs") (auto simp: rfind_None split: if_splits)
qed simp

lemma last_separator_spec:
  "e \<le> length bs \<Longrightarrow> last_separator bs e \<le> e \<and> (last_separator bs e = 0 \<or> bs ! (last_separator bs e - 1) = NL) \<and>
     NL \<notin> set (drop (last_separator bs e) (take e bs))"
proof (induction bs e rule: last_separator.induct)
  case (1 bs e)
  show ?case
  proof (cases "e = 0")
    case True
    then show ?thesis by (simp add: last_separator.simps)
  next
    case False
    let ?start = "e - 4096"
    let ?block = "take (e - ?start) (drop ?start bs)"
    have block: "take e bs = take ?start bs @ ?block"
      by (metis take_add [of ?start "e - ?start" bs] diff_le_self le_add_diff_inverse)
    show ?thesis
    proof (cases "rfind NL ?block")
      case None
      then have ls: "last_separator bs e = last_separator bs ?start"
        using False by (simp add: last_separator.simps [of bs e] Let_def)
      from 1(1) [OF False refl refl None] "1.prems" have IH: "last_separator bs ?start \<le> ?start"
        "last_separator bs ?start = 0 \<or> bs ! (last_separator bs ?start - 1) = NL"
        "NL \<notin> set (drop (last_separator bs ?start) (take ?start bs))" by auto
      have "NL \<notin> set ?block" using None by (simp add: rfind_None)
      with IH show ?thesis unfolding ls block using "1.prems" by (auto simp: drop_append dest: in_set_dropD)
    next
      case (Some i)
      then have ls: "last_separator bs e = ?start + i + 1"
        using False by (simp add: last_separator.simps [of bs e] Let_def)
      from rfind_Some [OF Some] have i: "i < length ?block" "?block ! i = NL" "NL \<notin> set (drop (Suc i) ?block)" by auto
      have "?start + i < e" using i(1) "1.prems" by simp
      moreover have "?start \<le> length bs" using "1.prems" by simp
      then have "bs ! (?start + i) = NL" using i(1,2) nth_drop [of ?start bs i] by simp
      moreover have "drop (?start + i + 1) (take e bs) = drop (Suc i) ?block"
        unfolding block using "1.prems" by (simp add: drop_append)
      ultimately show ?thesis unfolding ls using i(3) by simp
    qed
  qed
qed

lemma last_line_unique:
  assumes "k \<le> length xs" and "k = 0 \<or> xs ! (k - 1) = NL" and "NL \<notin> set (drop k xs)"
  shows "k = length xs - length (takeWhile (\<lambda>b. b \<noteq> NL) (rev xs))"
proof -
  have "takeWhile (\<lambda>b. b \<noteq> NL) (rev (take k xs)) = []"
  proof (cases k)
    case (Suc m)
    with assms(1,2) have "take k xs = take m xs @ [NL]" by (simp add: take_Suc_conv_app_nth)
    then show ?thesis by simp
  qed simp
  moreover have "takeWhile (\<lambda>b. b \<noteq> NL) (rev (drop k xs) @ ys) = rev (drop k xs) @ takeWhile (\<lambda>b. b \<noteq> NL) ys" for ys
    using assms(3) by (intro takeWhile_append2) auto
  moreover have "rev xs = rev (drop k xs) @ rev (take k xs)" by (metis append_take_drop_id rev_append)
  ultimately have "takeWhile (\<lambda>b. b \<noteq> NL) (rev xs) = rev (drop k xs)" by simp
  with assms(1) show ?thesis by simp
qed

lemma last_line_start_eq: "last_line_start bs =
    length (strip_separator bs) - length (takeWhile (\<lambda>b. b \<noteq> NL) (rev (strip_separator bs)))"
proof -
  let ?e = "length (strip_separator bs)"
  have body: "strip_separator bs = take ?e bs" by (auto simp: strip_separator_def butlast_conv_take)
  have e: "?e \<le> length bs" by (simp add: strip_separator_def)
  have "last_line_start bs = last_separator bs ?e" by (auto simp: last_line_start_def strip_separator_def)
  moreover have "last_separator bs ?e = length (strip_separator bs) - length (takeWhile (\<lambda>b. b \<noteq> NL) (rev (strip_separator bs)))"
  proof (rule last_line_unique)
    note spec = last_separator_spec [OF e]
    show "last_separator bs ?e \<le> length (strip_separator bs)" using spec by blast
    show "NL \<notin> set (drop (last_separator bs ?e) (strip_separator bs))" using spec body by metis
    show "last_separator bs ?e = 0 \<or> strip_separator bs ! (last_separator bs ?e - 1) = NL"
    proof (cases "last_separator bs ?e = 0")
      case False
      then have "last_separator bs ?e - 1 < ?e" using spec by linarith
      then have "strip_separator bs ! (last_separator bs ?e - 1) = bs ! (last_separator bs ?e - 1)"
        by (subst body) simp
      with spec show ?thesis by metis
    qed simp
  qed
  ultimately show ?thesis by simp
qed

lemma last_line_start_le: "last_line_start bs \<le> length bs"
  using last_separator_spec [of "length bs - 1" bs] last_separator_spec [of "length bs" bs]
  by (auto simp: last_line_start_def)

subsection \<open>Scanning\<close>

lemma scan_BadTail: "scan_lines is_event pos bs a = BadTail p line \<Longrightarrow> pos \<le> p \<and> drop (p - pos) bs = line \<and> p - pos \<le> length bs"
proof (induction is_event pos bs a rule: scan_lines.induct)
  case (1 is_event pos bs a)
  obtain l rest where rl: "read_line bs = (l, rest)" by (cases "read_line bs")
  from "1.prems" have ne: "bs \<noteq> []" by (auto simp: scan_lines.simps)
  note bs = read_line_append [OF rl]
  show ?case
  proof (cases "is_event (strip_separator l)")
    case True
    with "1.prems" ne rl have "scan_lines is_event (pos + length l) rest (last l \<noteq> NL) = BadTail p line"
      by (simp add: scan_lines.simps [of is_event pos bs])
    from "1.IH" [OF ne rl [symmetric] True this] have "pos + length l \<le> p" "drop (p - (pos + length l)) rest = line"
      "p - (pos + length l) \<le> length rest" by auto
    with bs show ?thesis by (auto simp: drop_append)
  next
    case False
    with "1.prems" ne rl have "rest = []" "p = pos" "line = l" by (auto simp: scan_lines.simps [of is_event pos bs] split: if_splits)
    with bs show ?thesis by simp
  qed
qed

lemma read_frame: "NL \<notin> set l \<Longrightarrow> read_line (line_frame l @ bs) = (line_frame l, bs)"
  by (simp add: read_line_def line_frame_def takeWhile_frame dropWhile_frame)

lemma strip_frame [simp]: "strip_separator (line_frame l) = l"
  by (simp add: strip_separator_def line_frame_def)

lemma last_frame [simp]: "last (line_frame l) = NL" "line_frame l \<noteq> []"
  by (simp_all add: line_frame_def)

lemma scan_frames:
  "list_all (event_line is_event) ls \<Longrightarrow> scan_lines is_event pos (concat (map line_frame ls) @ bs) a =
     scan_lines is_event (pos + length (concat (map line_frame ls))) bs (if ls = [] then a else False)"
proof (induction ls arbitrary: pos a)
  case (Cons l ls)
  from Cons.prems have l: "is_event l" "NL \<notin> set l" by (auto simp: event_line_def)
  have "scan_lines is_event pos (concat (map line_frame (l # ls)) @ bs) a =
      scan_lines is_event (pos + length (line_frame l)) (concat (map line_frame ls) @ bs) False"
    by (subst scan_lines.simps) (simp add: read_frame l)
  also have "\<dots> = scan_lines is_event (pos + length (concat (map line_frame (l # ls)))) bs False"
    using Cons by (simp add: add.assoc)
  finally show ?case by simp
qed simp

lemma scan_last_line:
  assumes "NL \<notin> set t"
  shows "scan_lines is_event pos t a = (if t = [] then Sound a else if is_event t then Sound True else BadTail pos t)"
proof (cases "t = []")
  case False
  then have "last t \<noteq> NL" using assms last_in_set [of t] by metis
  then have "read_line t = (t, [])" "last t \<noteq> NL" "strip_separator t = t"
    using assms by (auto simp: read_line_def dropWhile_no_separator strip_separator_def)
  with False show ?thesis by (simp add: scan_lines.simps)
qed (simp add: scan_lines.simps)

subsection \<open>The invariant of a journal\<close>

abbreviation frames :: "bytes list \<Rightarrow> bytes" where
  "frames ls \<equiv> concat (map line_frame ls)"

definition contents :: "journal \<Rightarrow> bytes" where
  "contents j = (case j_file j of None \<Rightarrow> [] | Some bs \<Rightarrow> bs)"

definition checkpoint_ok :: "row \<Rightarrow> bytes list \<Rightarrow> bool" where
  "checkpoint_ok ck es \<longleftrightarrow> ck = [] \<or> (\<exists>k \<le> length es. ck = checkpoint_of (length (frames (take k es))))"

text \<open>
  A line that the collector writes: an event on one line of which no proper prefix is an event. That is what
  \<^verbatim>\<open>json.dumps\<close> of a \<^verbatim>\<open>dict\<close> with compact separators gives: the text ends with the brace
  that closes the object. It says nothing of other texts; a reader that accepts white space after the object is allowed.
\<close>

definition event_text :: "(bytes \<Rightarrow> bool) \<Rightarrow> bytes \<Rightarrow> bool" where
  "event_text is_event l \<longleftrightarrow> event_line is_event l \<and> (\<forall>n < length l. \<not> is_event (take n l))"

lemma event_text_line: "event_text is_event l \<Longrightarrow> event_line is_event l"
  by (simp add: event_text_def)

lemma event_text_prefix: "event_text is_event l \<Longrightarrow> prefix t l \<Longrightarrow> is_event t \<Longrightarrow> t = l"
  unfolding event_text_def prefix_def by (metis append_eq_conv_conj append_Nil2 length_append less_add_same_cancel1 length_greater_0_conv)

definition journal_state :: "(bytes \<Rightarrow> bool) \<Rightarrow> bytes list \<Rightarrow> bytes list \<Rightarrow> bytes list \<Rightarrow> bytes \<Rightarrow> journal \<Rightarrow> bool" where
  "journal_state is_event A acked es tail j \<longleftrightarrow>
     list_all (event_line is_event) es \<and> contents j = frames es @ tail \<and> NL \<notin> set tail \<and>
     checkpoint_ok (j_checkpoint j) es \<and> subseq acked es \<and> subseq es A \<and>
     (tail \<noteq> [] \<longrightarrow> (\<exists>l. event_text is_event l \<and> prefix tail l \<and> subseq (es @ [l]) A))"

lemma valid_bytes_ok:
  assumes "checkpoint_ok ck es"
  shows "checkpointed_bytes ck (length (frames es @ tail)) = None \<and> ck = [] \<or>
    (\<exists>k \<le> length es. checkpointed_bytes ck (length (frames es @ tail)) = Some (length (frames (take k es))))"
proof -
  have "length (frames (take k es)) \<le> length (frames es @ tail)" for k
    by (metis append.assoc append_take_drop_id concat_append length_append le_add1 map_append)
  then have "checkpointed_bytes (checkpoint_of (length (frames (take k es)))) (length (frames es @ tail)) =
      Some (length (frames (take k es)))" for k
    by (simp add: checkpointed_bytes_def checkpoint_of_def row_get_def del: length_append)
  moreover have "checkpointed_bytes [] n = None" for n by (simp add: checkpointed_bytes_def row_get_def)
  ultimately show ?thesis using assms unfolding checkpoint_ok_def by (elim disjE exE conjE) (simp, metis)
qed

lemma drop_frames: "drop (length (frames (take k es))) (frames es @ tail) = frames (drop k es) @ tail"
proof -
  have "frames es @ tail = frames (take k es) @ frames (drop k es) @ tail"
    by (metis append.assoc append_take_drop_id concat_append map_append)
  then show ?thesis by simp
qed

lemma last_frame_line:
  "NL \<notin> set t \<Longrightarrow> xs = [] \<or> last xs = NL \<Longrightarrow> takeWhile (\<lambda>b. b \<noteq> NL) (rev (xs @ t)) = rev t"
  by (cases xs rule: rev_cases) (auto simp: takeWhile_tail takeWhile_append2)

lemma last_line_of_frames:
  assumes "list_all (event_line is_event) es" and "NL \<notin> set tail"
  shows "last_line_start (frames es @ tail) =
    (if tail = [] then length (frames (butlast es)) else length (frames es))"
proof -
  have ends: "frames ls = [] \<or> last (frames ls) = NL" for ls
    by (cases ls rule: rev_cases) auto
  show ?thesis
  proof (cases "tail = []")
    case False
    then have "last tail \<noteq> NL" using assms(2) last_in_set by metis
    then have "strip_separator (frames es @ tail) = frames es @ tail" using False by (simp add: strip_separator_def)
    then show ?thesis
      using False last_frame_line [OF assms(2) ends] by (simp add: last_line_start_eq)
  next
    case True
    show ?thesis
    proof (cases es rule: rev_cases)
      case Nil
      with True show ?thesis by (simp add: last_line_start_eq strip_separator_def)
    next
      case (snoc es' l)
      with assms(1) have l: "NL \<notin> set l" by (simp add: event_line_def)
      have "strip_separator (frames es) = frames es' @ l"
        by (simp add: snoc strip_separator_def line_frame_def butlast_append)
      then show ?thesis using True snoc last_frame_line [OF l ends [of es']] by (simp add: last_line_start_eq)
    qed
  qed
qed

lemma scan_from_start:
  assumes es: "list_all (event_line is_event) es" and tail: "NL \<notin> set tail"
    and start: "start = length (frames (take k es)) \<or> start = last_line_start (frames es @ tail)"
  shows "scan_lines is_event start (drop start (frames es @ tail)) False =
    (if tail = [] then Sound False else if is_event tail then Sound True else BadTail (length (frames es)) tail)"
proof -
  obtain m where m: "start = length (frames (take m es))"
  proof (cases "tail = []")
    case True
    with start that [of k] that [of "length es - 1"] last_line_of_frames [OF es, of "[]"] show ?thesis
      by (auto simp: butlast_conv_take)
  next
    case False
    with start that [of k] that [of "length es"] show ?thesis by (auto simp: last_line_of_frames [OF es tail])
  qed
  have "list_all (event_line is_event) (drop m es)" using es by (auto simp: list_all_iff dest: in_set_dropD)
  from scan_frames [OF this, of start tail False] have "scan_lines is_event start (drop start (frames es @ tail)) False =
      scan_lines is_event (start + length (frames (drop m es))) tail False"
    unfolding m drop_frames by simp
  moreover have "start + length (frames (drop m es)) = length (frames es)"
    unfolding m by (metis append_take_drop_id concat_append length_append map_append)
  ultimately show ?thesis by (simp add: scan_last_line [OF tail])
qed

lemma repair_cases:
  assumes st: "journal_state is_event A acked es tail j"
  obtains "repair_ops is_event r j = Some []" "tail = []"
  | "repair_ops is_event r j = Some [WriteCheckpoint (length (frames es))]" "tail = []" "j_file j \<noteq> None"
  | "repair_ops is_event r j = Some [WriteSeparator (length (frames es @ tail)), WriteCheckpoint (length (frames es @ tail) + 1)]"
      "tail \<noteq> []" "is_event tail" "j_file j \<noteq> None"
  | "repair_ops is_event r j = Some [WriteRecovery r tail, SyncDirectory, Truncate (length (frames es)), WriteCheckpoint (length (frames es))]"
      "tail \<noteq> []" "\<not> is_event tail" "j_file j \<noteq> None"
proof (cases "j_file j")
  case None
  with st have "tail = []" by (simp add: journal_state_def contents_def)
  with None that(1) show thesis by (simp add: repair_ops_def)
next
  case (Some bs)
  with st have bs: "bs = frames es @ tail" and es: "list_all (event_line is_event) es" and tl: "NL \<notin> set tail"
    and ck: "checkpoint_ok (j_checkpoint j) es"
    by (auto simp: journal_state_def contents_def)
  let ?v = "checkpointed_bytes (j_checkpoint j) (length bs)"
  show thesis
  proof (cases "?v = Some (length bs)")
    case True
    then obtain k where "length bs = length (frames (take k es))"
      using valid_bytes_ok [OF ck, of tail] bs by auto
    moreover have "length (frames (take k es)) \<le> length (frames es)"
      by (metis append_take_drop_id concat_append length_append le_add1 map_append)
    moreover have "length bs = length (frames es) + length tail" using bs by (simp only: length_append)
    ultimately have "length tail = 0" by linarith
    then have "tail = []" by simp
    with True that(1) Some show thesis by (simp add: repair_ops_def Let_def)
  next
    case False
    let ?start = "case ?v of Some v \<Rightarrow> v | None \<Rightarrow> last_line_start bs"
    obtain k where "?start = length (frames (take k es)) \<or> ?start = last_line_start (frames es @ tail)"
      using valid_bytes_ok [OF ck, of tail] unfolding bs [symmetric] by (elim disjE exE conjE) (simp, metis option.simps(5))
    note scan = scan_from_start [OF es tl this, folded bs]
    have "repair_ops is_event r j = (case scan_lines is_event ?start (drop ?start bs) False of
              Interior \<Rightarrow> None
            | BadTail pos line \<Rightarrow> Some [WriteRecovery r line, SyncDirectory, Truncate pos, WriteCheckpoint pos]
            | Sound True \<Rightarrow> Some [WriteSeparator (length bs), WriteCheckpoint (length bs + 1)]
            | Sound False \<Rightarrow> Some [WriteCheckpoint (length bs)])"
      using False Some by (simp add: repair_ops_def Let_def)
    with scan bs Some that(2-4) show thesis by (cases "tail = []"; cases "is_event tail") auto
  qed
qed

lemma journal_state_drop_tail:
  assumes "journal_state is_event A acked es tail j" and "contents j' = frames es"
    and "j_checkpoint j' = j_checkpoint j \<or> j_checkpoint j' = checkpoint_of (length (frames es))"
  shows "journal_state is_event A acked es [] j'"
  using assms by (auto simp: journal_state_def checkpoint_ok_def)

lemma repair_state:
  assumes st: "journal_state is_event A acked es tail j"
    and run: "repair_jsonl_tail is_event r budget j = (ok, j')"
  shows "\<exists>es' tail'. journal_state is_event A acked es' tail' j' \<and> (ok \<longrightarrow> tail' = [])"
  using st
proof (cases rule: repair_cases [where r = r])
  case 1
  with run st show ?thesis by (auto simp: repair_jsonl_tail_def)
next
  case 2
  have "journal_state is_event A acked es [] (j\<lparr>j_checkpoint := checkpoint_of (length (frames es))\<rparr>)"
    by (rule journal_state_drop_tail [OF st]) (use st 2 in \<open>auto simp: journal_state_def contents_def\<close>)
  with run st 2 show ?thesis
    by (cases budget) (auto simp: repair_jsonl_tail_def exec_journal_op_def)
next
  case 3
  from 3(2) st obtain l where whole: "event_text is_event l" and l: "prefix tail l" "subseq (es @ [l]) A"
    by (auto simp: journal_state_def)
  from event_text_prefix [OF whole l(1) 3(3)] have tail: "tail = l" .
  note l = l event_text_line [OF whole]
  have fl: "j_file j = Some (frames es @ tail)" using st 3(4) by (auto simp: journal_state_def contents_def)
  let ?j = "j\<lparr>j_file := Some (frames (es @ [l]))\<rparr>"
  have st1: "journal_state is_event A acked (es @ [l]) [] ?j"
    using st l by (auto simp: journal_state_def contents_def checkpoint_ok_def le_Suc_eq intro: list_emb_append2)
  have st2: "journal_state is_event A acked (es @ [l]) [] (?j\<lparr>j_checkpoint := checkpoint_of (length (frames (es @ [l])))\<rparr>)"
    by (rule journal_state_drop_tail [OF st1]) (simp_all add: contents_def)
  have ops: "exec_journal_op j (WriteSeparator (length (frames es @ tail))) = ?j"
    by (simp add: exec_journal_op_def fl tail line_frame_def)
  have len: "length (frames es @ tail) + 1 = length (frames (es @ [l]))" by (simp add: tail line_frame_def)
  consider "budget = 0" | "budget = 1" | "2 \<le> budget" by linarith
  then show ?thesis
  proof cases
    case b: 3
    then have "j' = ?j\<lparr>j_checkpoint := checkpoint_of (length (frames (es @ [l])))\<rparr>"
      using run 3(1) ops unfolding len by (auto simp: repair_jsonl_tail_def exec_journal_op_def)
    with st2 show ?thesis by blast
  next
    case b: 2
    then have "j' = ?j" using run 3(1) ops by (auto simp: repair_jsonl_tail_def)
    with st1 show ?thesis by blast
  next
    case b: 1
    with run 3(1) st show ?thesis by (auto simp: repair_jsonl_tail_def)
  qed
next
  case 4
  have fl: "j_file j = Some (frames es @ tail)" using st 4(4) by (auto simp: journal_state_def contents_def)
  let ?r = "j_recovered j @ [(r, tail)]"
  have st0: "journal_state is_event A acked es tail (j\<lparr>j_recovered := ?r\<rparr>)" using st by (simp add: journal_state_def contents_def)
  have st1: "journal_state is_event A acked es [] (j\<lparr>j_recovered := ?r, j_file := Some (frames es)\<rparr>)"
    by (rule journal_state_drop_tail [OF st]) (simp_all add: contents_def)
  have st2: "journal_state is_event A acked es []
      (j\<lparr>j_recovered := ?r, j_file := Some (frames es), j_checkpoint := checkpoint_of (length (frames es))\<rparr>)"
    by (rule journal_state_drop_tail [OF st]) (simp_all add: contents_def)
  consider "budget = 0" | "budget = 1" | "budget = 2" | "budget = 3" | "4 \<le> budget" by linarith
  then show ?thesis
    using run 4(1) st st0 st1 st2
    by cases (auto simp: repair_jsonl_tail_def exec_journal_op_def fl numeral_2_eq_2 numeral_3_eq_3)
qed

lemma append_state:
  assumes written: "event_text is_event (a_line a)"
    and st: "journal_state is_event A acked es tail j" and run: "append_poll_jsonl is_event a j = (ok, j')"
  shows "\<exists>es' tail'. journal_state is_event (A @ [a_line a]) (if ok then acked @ [a_line a] else acked) es' tail' j'"
proof -
  let ?l = "a_line a"
  note line = event_text_line [OF written]
  have wider: "journal_state is_event (A @ [?l]) acked es1 tail1 j1" if "journal_state is_event A acked es1 tail1 j1" for es1 tail1 j1
    using that by (fastforce simp: journal_state_def intro: subseq_order.trans [OF _ list_emb_append2] subseq_append' list_emb_prefix)
  obtain ok1 j1 where r: "repair_jsonl_tail is_event (a_recovery a) (a_budget a) j = (ok1, j1)"
    by (cases "repair_jsonl_tail is_event (a_recovery a) (a_budget a) j")
  from repair_state [OF st r] obtain es1 tail1 where st1: "journal_state is_event A acked es1 tail1 j1"
    and clean: "ok1 \<longrightarrow> tail1 = []" by blast
  show ?thesis
  proof (cases ok1)
    case False
    with run r have "ok = False" "j' = j1" by (auto simp: append_poll_jsonl_def)
    with wider [OF st1] show ?thesis by auto
  next
    case True
    with clean st1 have st1: "journal_state is_event A acked es1 [] j1" by simp
    then have c1: "contents j1 = frames es1" "subseq es1 A" "subseq acked es1" "list_all (event_line is_event) es1"
      "checkpoint_ok (j_checkpoint j1) es1" by (auto simp: journal_state_def)
    let ?w = "take (a_written a) (?l @ [NL])"
    let ?j2 = "j1\<lparr>j_file := Some (frames es1 @ ?w)\<rparr>"
    have ap: "append_jsonl a j1 = (length (?l @ [NL]) \<le> a_written a \<and> a_synced a, ?j2)"
      using c1(1) by (simp add: append_jsonl_def contents_def Let_def split: option.split_asm)
    have more: "subseq (es1 @ [?l]) (A @ [?l])" using c1(2) by simp
    show ?thesis
    proof (cases "length (?l @ [NL]) \<le> a_written a")
      case False
      then have w: "?w = take (a_written a) ?l" by simp
      have "journal_state is_event (A @ [?l]) acked es1 ?w ?j2"
        using c1 more line written unfolding w
        by (auto simp: journal_state_def contents_def event_line_def take_is_prefix dest: in_set_takeD intro!: exI [of _ ?l])
      moreover from False run r True ap have "ok = False" "j' = ?j2" by (auto simp: append_poll_jsonl_def)
      ultimately show ?thesis by auto
    next
      case full: True
      then have w: "frames es1 @ ?w = frames (es1 @ [?l])" by (simp add: line_frame_def)
      have st2: "journal_state is_event (A @ [?l]) acked2 (es1 @ [?l]) [] (?j2\<lparr>j_checkpoint := ck\<rparr>)"
        if "subseq acked2 (es1 @ [?l])" "ck = j_checkpoint j1 \<or> ck = checkpoint_of (length (frames (es1 @ [?l])))" for acked2 ck
        using that c1 more line unfolding journal_state_def w
        by (auto simp: contents_def checkpoint_ok_def le_Suc_eq w)
      have j2: "?j2 = ?j2\<lparr>j_checkpoint := j_checkpoint j1\<rparr>" by simp
      show ?thesis
      proof (cases "a_synced a \<and> a_checkpointed a")
        case True
        with run r \<open>ok1\<close> ap full have "ok" "j' = ?j2\<lparr>j_checkpoint := checkpoint_of (length (frames (es1 @ [?l])))\<rparr>"
          by (simp_all add: append_poll_jsonl_def line_frame_def)
        with st2 [of "acked @ [?l]"] c1(3) show ?thesis by auto
      next
        case False
        with run r \<open>ok1\<close> ap full have "\<not> ok" "j' = ?j2" by (auto simp: append_poll_jsonl_def split: if_splits bool.splits)
        with st2 [of acked "j_checkpoint j1"] c1(3) j2 show ?thesis by (auto intro: list_emb_append2)
      qed
    qed
  qed
qed

lemma append_all_state:
  "list_all (\<lambda>a. event_text is_event (a_line a)) as \<Longrightarrow> journal_state is_event A acked es tail j \<Longrightarrow>
     append_all is_event as j acked = (j', acked') \<Longrightarrow> \<exists>es' tail'. journal_state is_event (A @ map a_line as) acked' es' tail' j'"
proof (induction as arbitrary: A acked es tail j)
  case (Cons a as)
  obtain ok j1 where a: "append_poll_jsonl is_event a j = (ok, j1)" by (cases "append_poll_jsonl is_event a j")
  from append_state [OF _ Cons.prems(2) a] Cons.prems(1) obtain es1 tail1 where
    "journal_state is_event (A @ [a_line a]) (if ok then acked @ [a_line a] else acked) es1 tail1 j1" by auto
  from Cons.IH [OF _ this] Cons.prems(1,3) a show ?case by simp
qed auto

lemma empty_journal_state: "journal_state is_event [] [] [] [] empty_journal"
  by (simp add: journal_state_def contents_def empty_journal_def checkpoint_ok_def)

subsection \<open>Properties\<close>

text \<open>
  Claim C17. The journal keeps every acknowledged event. After any number of appends, each of which may tear
  its line, fail to sync, fail to checkpoint, or stop anywhere in its repair, the complete lines of the file
  are acknowledged events in order, with possibly some unacknowledged ones in between, and nothing but
  events that were handed to \<^verbatim>\<open>append_poll_jsonl\<close>. The lines handed over are texts of objects on
  one line of which no proper prefix is the text of an object, as \<^verbatim>\<open>json.dumps\<close> writes them; what
  else the reader accepts is left open.
\<close>

theorem journal_durable:
  assumes "list_all (\<lambda>a. event_text is_event (a_line a)) attempts"
    and "append_all is_event attempts empty_journal [] = (j, acked)"
  shows "\<exists>events tail. unframe (next_line is_event) (contents j) = (events, tail) \<and>
    subseq acked events \<and> subseq events (map a_line attempts)"
proof -
  from append_all_state [OF assms(1) empty_journal_state assms(2)] obtain es tail where
    st: "journal_state is_event (map a_line attempts) acked es tail j" by auto
  then have "next_line is_event tail = None" by (simp add: journal_state_def next_line_def)
  with st have "unframe (next_line is_event) (contents j) = (es, tail)"
    by (simp add: journal_state_def jsonl.unframe_complete)
  with st show ?thesis by (auto simp: journal_state_def)
qed

text \<open>A reader of the empty object that, like \<^verbatim>\<open>json.loads\<close>, accepts spaces around it\<close>

definition demo_event :: "bytes \<Rightarrow> bool" where
  "demo_event l \<longleftrightarrow> (let t = dropWhile (\<lambda>b. b = 0x20) l in take 2 t = [0x7B, 0x7D] \<and> list_all (\<lambda>b. b = 0x20) (drop 2 t))"

definition demo_attempts :: "attempt list" where
  "demo_attempts =
    [\<lparr>a_line = [0x7B, 0x7D], a_recovery = ''r1'', a_budget = 4, a_written = 1, a_synced = False, a_checkpointed = False\<rparr>,
     \<lparr>a_line = [0x7B, 0x7D], a_recovery = ''r2'', a_budget = 4, a_written = 3, a_synced = True, a_checkpointed = True\<rparr>]"

lemma journal_durable_witness:
  "\<exists>events tail. unframe (next_line demo_event) (contents (fst (append_all demo_event demo_attempts empty_journal []))) = (events, tail) \<and>
    subseq (snd (append_all demo_event demo_attempts empty_journal [])) events \<and> subseq events (map a_line demo_attempts)"
proof -
  have "event_text demo_event [0x7B, 0x7D]"
    by code_simp
  then have "list_all (\<lambda>a. event_text demo_event (a_line a)) demo_attempts"
    by (simp add: demo_attempts_def)
  then show ?thesis by (intro journal_durable) simp_all
qed

text \<open>
  Repair discards no byte. Whatever the file holds and wherever the repair stops, the file is
  unchanged, or has gained a final separator, or has lost a tail that a recovery file holds.
\<close>

theorem repair_keeps_bytes:
  assumes "j_file j = Some bs" and "repair_jsonl_tail is_event recovery budget j = (ok, j')"
  shows "\<exists>bs'. j_file j' = Some bs' \<and> (bs' = bs \<or> bs' = bs @ [NL] \<or>
    (\<exists>tail. bs = bs' @ tail \<and> (recovery, tail) \<in> set (j_recovered j')))"
proof -
  let ?valid = "checkpointed_bytes (j_checkpoint j) (length bs)"
  let ?start = "case ?valid of Some v \<Rightarrow> v | None \<Rightarrow> last_line_start bs"
  have start: "?start \<le> length bs"
    using last_line_start_le [of bs] by (auto simp: checkpointed_bytes_def split: option.split pyval.splits if_splits)
  consider "j' = j" | ops where "repair_ops is_event recovery j = Some ops" "j' = foldl exec_journal_op j (take budget ops)"
    "?valid \<noteq> Some (length bs)"
  proof (cases "repair_ops is_event recovery j")
    case None
    with assms(2) that(1) show thesis by (simp add: repair_jsonl_tail_def)
  next
    case (Some ops)
    with assms(2) have j': "j' = foldl exec_journal_op j (take budget ops)" by (simp add: repair_jsonl_tail_def)
    show thesis
    proof (cases "?valid = Some (length bs)")
      case True
      with Some assms(1) have "ops = []" by (simp add: repair_ops_def)
      with j' that(1) show thesis by simp
    qed (use Some j' that(2) in blast)
  qed
  then show ?thesis
  proof cases
    case 1
    with assms(1) show ?thesis by simp
  next
    case (2 ops)
    then show ?thesis
    proof (cases "scan_lines is_event ?start (drop ?start bs) False")
      case Interior
      with 2 assms(1) show ?thesis by (simp add: repair_ops_def Let_def)
    next
      case (Sound sep)
      with 2 assms(1) have "ops = (if sep then [WriteSeparator (length bs), WriteCheckpoint (length bs + 1)]
        else [WriteCheckpoint (length bs)])" by (simp add: repair_ops_def Let_def split: bool.splits)
      with 2(2) assms(1) show ?thesis
        by (cases budget; cases "budget - 1") (auto simp: exec_journal_op_def)
    next
      case (BadTail pos line)
      from scan_BadTail [OF BadTail] start have "drop pos bs = line" by auto
      then obtain pre where bs: "bs = pre @ line" "take pos bs = pre" by (metis append_take_drop_id)
      from BadTail 2 assms(1) have ops: "ops = [WriteRecovery recovery line, SyncDirectory, Truncate pos, WriteCheckpoint pos]"
        by (simp add: repair_ops_def Let_def)
      consider "budget = 0" | "budget = 1" | "budget = 2" | "budget = 3" | "4 \<le> budget" by linarith
      then show ?thesis
        using 2(2) assms(1) bs ops by cases (auto simp: exec_journal_op_def numeral_2_eq_2 numeral_3_eq_3 simp del: take_append)
    qed
  qed
qed

lemma repair_keeps_bytes_witness:
  "\<exists>bs'. j_file (snd (repair_jsonl_tail demo_event ''r'' 3 (empty_journal\<lparr>j_file := Some [0x7B]\<rparr>))) = Some bs' \<and>
    (bs' = [0x7B] \<or> bs' = [0x7B] @ [NL] \<or>
    (\<exists>tail. [0x7B] = bs' @ tail \<and>
      (''r'', tail) \<in> set (j_recovered (snd (repair_jsonl_tail demo_event ''r'' 3 (empty_journal\<lparr>j_file := Some [0x7B]\<rparr>))))))"
  by (rule repair_keeps_bytes [where bs = "[0x7B]" and ok = "fst (repair_jsonl_tail demo_event ''r'' 3 (empty_journal\<lparr>j_file := Some [0x7B]\<rparr>))"])
    simp_all

text \<open>
  Interior corruption is refused. If behind the checkpoint a complete line that is not an event is
  followed by anything, the repair raises and changes nothing, so the append raises as well.
\<close>

theorem interior_corruption_refused:
  assumes "j_file j = Some bs" and "checkpointed_bytes (j_checkpoint j) (length bs) = Some v"
    and "drop v bs = concat (map line_frame events) @ line_frame bad @ rest"
    and "list_all (event_line is_event) events" and "\<not> is_event bad" and "NL \<notin> set bad" and "rest \<noteq> []"
  shows "repair_jsonl_tail is_event (a_recovery a) (a_budget a) j = (False, j) \<and> append_poll_jsonl is_event a j = (False, j)"
proof -
  have "scan_lines is_event v (drop v bs) False = Interior"
    unfolding assms(3) scan_frames [OF assms(4)]
    by (subst scan_lines.simps) (simp add: read_frame [OF assms(6)] assms(5,7))
  moreover have "v \<noteq> length bs" using assms(3) by (auto simp: line_frame_def)
  ultimately have "repair_ops is_event (a_recovery a) j = None"
    using assms(1,2) by (simp add: repair_ops_def Let_def)
  then show ?thesis by (simp add: repair_jsonl_tail_def append_poll_jsonl_def)
qed

lemma interior_corruption_refused_witness:
  "append_poll_jsonl demo_event (hd demo_attempts)
     (empty_journal\<lparr>j_file := Some [0x7B, 0x7D, NL, 0x7B, NL, 0x7B], j_checkpoint := checkpoint_of 0\<rparr>) =
   (False, empty_journal\<lparr>j_file := Some [0x7B, 0x7D, NL, 0x7B, NL, 0x7B], j_checkpoint := checkpoint_of 0\<rparr>)"
  using interior_corruption_refused [of "empty_journal\<lparr>j_file := Some [0x7B, 0x7D, NL, 0x7B, NL, 0x7B], j_checkpoint := checkpoint_of 0\<rparr>"
      "[0x7B, 0x7D, NL, 0x7B, NL, 0x7B]" 0 "[[0x7B, 0x7D]]" "[0x7B]" "[0x7B]" demo_event "hd demo_attempts"]
  by (simp add: line_frame_def event_line_def demo_event_def NL_def checkpointed_bytes_def checkpoint_of_def row_get_def)

end
