(* ===== verification/Archive_Files.thy ===== *)
theory Archive_Files
  imports Fetch Poll_Journal Presence Raw_Log
begin

section \<open>The data directory as the maintenance process sees it\<close>

text \<open>
  The backup, retention, compaction and static-GTFS code works on whole files below one root. A path is the
  list of its parts below that root; the tree maps paths to regular files, directories and symbolic links. A link is
  a leaf: the code refuses it wherever it would follow one.

  \<open>tools\<close> holds what the source takes from elsewhere: SHA-256, JSON, time formats (\<open>tl_zoned\<close>: the text has a UTC offset), compression, the presence
  record codec, the row count of a Parquet file and the checks on a ZIP archive. A value that is \<open>None\<close> is an exception.
\<close>

subsection \<open>Files\<close>

record fobj =
  fo_bytes :: bytes
  fo_mtime :: int
  fo_id :: "int \<times> int"

datatype node = Regular fobj | Symlink | Directory

type_synonym path = "string list"
type_synonym tree = "(path \<times> node) list"

record tools =
  tl_sha :: "bytes \<Rightarrow> string"
  tl_json :: "bytes \<Rightarrow> pyval option"
  tl_dump :: "pyval \<Rightarrow> bytes"
  tl_line :: "pyval \<Rightarrow> bytes"
  tl_str :: "pyval \<Rightarrow> string"
  tl_utc_iso :: "seconds \<Rightarrow> string"
  tl_time :: "string \<Rightarrow> seconds option"
  tl_zoned :: "string \<Rightarrow> bool"
  tl_day :: "string \<Rightarrow> seconds option"
  tl_gunzip :: gunzip
  tl_presence :: "bytes \<Rightarrow> presence_record option"
  tl_rows :: "bytes \<Rightarrow> int option"
  tl_zip :: "bytes \<Rightarrow> row option"

text \<open>Concrete tools, for evaluation: the digest is the bytes themselves, times are numbers of seconds.\<close>

definition plain_tools :: tools where
  "plain_tools =
     \<lparr>tl_sha = map (\<lambda>b. char_of (unat b)), tl_json = (\<lambda>_. None), tl_dump = (\<lambda>_. []), tl_line = (\<lambda>_. []), tl_str = (\<lambda>_. []),
      tl_utc_iso = (\<lambda>_. []), tl_time = (\<lambda>s. map_option of_int (parse_int s)), tl_zoned = (\<lambda>_. True), tl_day = (\<lambda>s. map_option of_int (parse_int s)),
      tl_gunzip = Inr, tl_presence = (\<lambda>_. None), tl_rows = (\<lambda>bs. Some (int (length bs))), tl_zip = (\<lambda>_. Some [])\<rparr>"

text \<open>A date with all its digits, as \<^verbatim>\<open>%Y-%m-%d\<close> writes it\<close>

fun ascii_digit :: "char \<Rightarrow> bool" where
  "ascii_digit c = (CHR ''0'' \<le> c \<and> c \<le> CHR ''9'')"

definition date_shape :: "string \<Rightarrow> bool" where
  "date_shape d \<longleftrightarrow> length d = 10 \<and> d ! 4 = CHR ''-'' \<and> d ! 7 = CHR ''-'' \<and>
     list_all ascii_digit (take 4 d @ take 2 (drop 5 d) @ drop 8 d)"

definition exists_at :: "tree \<Rightarrow> path \<Rightarrow> bool" where
  "exists_at t p \<longleftrightarrow> map_of t p \<noteq> None"

definition regular_at :: "tree \<Rightarrow> path \<Rightarrow> fobj option" where
  "regular_at t p = (case map_of t p of Some (Regular f) \<Rightarrow> Some f | _ \<Rightarrow> None)"

text \<open>\<^verbatim>\<open>directory.iterdir()\<close>\<close>

definition children :: "tree \<Rightarrow> path \<Rightarrow> path list" where
  "children t d = [p \<leftarrow> remdups (map fst t). p \<noteq> [] \<and> butlast p = d]"

subsection \<open>Paths as text\<close>

fun join_path :: "path \<Rightarrow> string" where
  "join_path [] = []"
| "join_path [p] = p"
| "join_path (p # ps) = p @ CHR ''/'' # join_path ps"

fun split_path :: "string \<Rightarrow> path" where
  "split_path [] = [[]]"
| "split_path (c # cs) =
     (if c = CHR ''/'' then [] # split_path cs
      else case split_path cs of [] \<Rightarrow> [[c]] | p # ps \<Rightarrow> (c # p) # ps)"

definition value_error :: "string \<Rightarrow> exn" where
  "value_error s = \<lparr>ex_class = ''ValueError'', ex_text = s\<rparr>"

definition other_error :: "string \<Rightarrow> exn" where
  "other_error c = \<lparr>ex_class = c, ex_text = []\<rparr>"

text \<open>
  \<^verbatim>\<open>safe_path\<close>: a relative path is safe when it is its own normal form and has no \<^verbatim>\<open>..\<close>; then none of its
  prefixes may be a symbolic link.
\<close>

definition safe_parts :: "string \<Rightarrow> bool" where
  "safe_parts s \<longleftrightarrow> list_all (\<lambda>p. p \<noteq> [] \<and> p \<noteq> ''.'' \<and> p \<noteq> ''..'') (split_path s)"

definition prefixes_of :: "path \<Rightarrow> path list" where
  "prefixes_of p = map (\<lambda>n. take (Suc n) p) [0..<length p]"

definition safe_path :: "tree \<Rightarrow> string \<Rightarrow> exn + path" where
  "safe_path t s =
     (if \<not> safe_parts s then Inl (value_error ''unsafe artifact path'')
      else if list_ex (\<lambda>q. map_of t q = Some Symlink) (prefixes_of (split_path s))
      then Inl (value_error (''symlink in artifact path: '' @ s))
      else Inr (split_path s))"

subsection \<open>Metadata files\<close>

text \<open>\<^verbatim>\<open>read_json(path, default)\<close>\<close>

definition read_json :: "tools \<Rightarrow> tree \<Rightarrow> path \<Rightarrow> pyval \<Rightarrow> pyval" where
  "read_json tk t p fallback =
     (case regular_at t p of
        None \<Rightarrow> fallback
      | Some f \<Rightarrow> (case tl_json tk (fo_bytes f) of None \<Rightarrow> fallback | Some v \<Rightarrow> v))"

definition read_object :: "tools \<Rightarrow> tree \<Rightarrow> path \<Rightarrow> row option" where
  "read_object tk t p = (case read_json tk t p (PDict []) of PDict r \<Rightarrow> Some r | _ \<Rightarrow> None)"

text \<open>\<^verbatim>\<open>mkdir(parents=True, exist_ok=True)\<close> for the parent of a path, and an atomic write of a file.\<close>

definition make_parents :: "path \<Rightarrow> tree \<Rightarrow> tree" where
  "make_parents p t = foldl (\<lambda>t q. if map_of t q = None then AList.update q Directory t else t) t (prefixes_of (butlast p))"

type_synonym stamp = "int \<times> int \<times> int"

definition file_of :: "stamp \<Rightarrow> bytes \<Rightarrow> node" where
  "file_of st bs = Regular \<lparr>fo_bytes = bs, fo_mtime = fst st, fo_id = snd st\<rparr>"

definition write_file :: "stamp \<Rightarrow> path \<Rightarrow> bytes \<Rightarrow> tree \<Rightarrow> tree" where
  "write_file st p bs t = AList.update p (file_of st bs) (make_parents p t)"

definition write_json :: "tools \<Rightarrow> stamp \<Rightarrow> path \<Rightarrow> row \<Rightarrow> tree \<Rightarrow> tree" where
  "write_json tk st p r t = write_file st p (tl_dump tk (PDict r)) t"

text \<open>\<^verbatim>\<open>append_jsonl\<close> without a failure\<close>

definition append_line :: "tools \<Rightarrow> stamp \<Rightarrow> path \<Rightarrow> row \<Rightarrow> tree \<Rightarrow> tree" where
  "append_line tk st p r t =
     write_file st p ((case regular_at t p of None \<Rightarrow> [] | Some f \<Rightarrow> fo_bytes f) @ tl_line tk (PDict r) @ [NL]) t"

text \<open>\<^verbatim>\<open>iter_jsonl\<close>: the value of each line, \<open>None\<close> for one that is no JSON\<close>

function lines_of :: "bytes \<Rightarrow> bytes list" where
  "lines_of bs = (if bs = [] then [] else case read_line bs of (line, rest) \<Rightarrow> line # lines_of rest)"
  by pat_completeness auto
termination
  by (relation "measure length") (auto intro: read_line_shrinks)

declare lines_of.simps [simp del]

definition iter_jsonl :: "tools \<Rightarrow> bytes \<Rightarrow> pyval option list" where
  "iter_jsonl tk bs = map (\<lambda>l. tl_json tk (strip_separator l)) (lines_of bs)"

definition jsonl_at :: "tools \<Rightarrow> tree \<Rightarrow> path \<Rightarrow> pyval option list" where
  "jsonl_at tk t p = (case regular_at t p of None \<Rightarrow> [] | Some f \<Rightarrow> iter_jsonl tk (fo_bytes f))"

subsection \<open>Lemmas\<close>

lemma regular_at_Some: "regular_at t p = Some f \<longleftrightarrow> map_of t p = Some (Regular f)"
  by (auto simp: regular_at_def split: option.splits node.splits)

lemma set_children: "p \<in> set (children t d) \<longleftrightarrow> map_of t p \<noteq> None \<and> p \<noteq> [] \<and> butlast p = d"
  by (auto simp: children_def map_of_eq_None_iff)

lemma distinct_children [simp]: "distinct (children t d)"
  by (simp add: children_def)

lemma make_parents_old: "map_of t q = Some x \<Longrightarrow> map_of (make_parents p t) q = Some x"
proof -
  have "map_of t q = Some x \<Longrightarrow>
      map_of (foldl (\<lambda>t q. if map_of t q = None then AList.update q Directory t else t) t qs) q = Some x" for qs
  proof (induction qs arbitrary: t)
    case (Cons a qs)
    then have "map_of (if map_of t a = None then AList.update a Directory t else t) q = Some x"
      by (cases "q = a") (auto simp: update_conv')
    from Cons.IH [OF this] show ?case by simp
  qed simp
  then show "map_of t q = Some x \<Longrightarrow> map_of (make_parents p t) q = Some x" by (simp add: make_parents_def)
qed

lemma make_parents_new: "map_of (make_parents p t) q = map_of t q \<or> map_of (make_parents p t) q = Some Directory \<and> q \<in> set (prefixes_of (butlast p))"
proof -
  have "map_of (foldl (\<lambda>t q. if map_of t q = None then AList.update q Directory t else t) t qs) q = map_of t q \<or>
      map_of (foldl (\<lambda>t q. if map_of t q = None then AList.update q Directory t else t) t qs) q = Some Directory \<and> q \<in> set qs" for qs
  proof (induction qs arbitrary: t)
    case (Cons a qs)
    from Cons [of t] Cons [of "AList.update a Directory t"] show ?case
      by (cases "q = a") (auto simp: update_conv' split: if_splits)
  qed simp
  then show ?thesis by (simp add: make_parents_def)
qed

lemma write_file_same [simp]: "map_of (write_file st p bs t) p = Some (file_of st bs)"
  by (simp add: write_file_def update_conv')

lemma regular_at_write [simp]:
  "regular_at (write_file st p bs t) p = Some \<lparr>fo_bytes = bs, fo_mtime = fst st, fo_id = snd st\<rparr>"
  by (simp add: regular_at_def file_of_def)

lemma write_file_regular: "q \<noteq> p \<Longrightarrow> regular_at (write_file st p bs t) q = regular_at t q"
  using make_parents_new [of p t q] make_parents_old [of t q _ p]
  by (cases "map_of t q") (auto simp: write_file_def update_conv' regular_at_def)

lemma map_of_write_other:
  "q \<noteq> p \<Longrightarrow> q \<notin> set (prefixes_of (butlast p)) \<Longrightarrow> map_of (write_file st p bs t) q = map_of t q"
  using make_parents_new [of p t q] by (auto simp: write_file_def update_conv')

lemma in_prefixes: "q \<in> set (prefixes_of p) \<longleftrightarrow> q \<noteq> [] \<and> (\<exists>r. p = q @ r)"
proof
  assume "q \<in> set (prefixes_of p)"
  then obtain n where "n < length p" "q = take (Suc n) p" by (auto simp: prefixes_of_def)
  then show "q \<noteq> [] \<and> (\<exists>r. p = q @ r)" by (metis append_take_drop_id take_eq_Nil nat.simps(3) list.size(3) not_less_zero)
next
  assume "q \<noteq> [] \<and> (\<exists>r. p = q @ r)"
  then obtain r where "q \<noteq> []" "p = q @ r" by blast
  then have "0 < length q" "length q \<le> length p" by simp_all
  then have "Suc (length q - 1) = length q" "length q - 1 < length p" by linarith+
  with \<open>p = q @ r\<close> have "q = take (Suc (length q - 1)) p \<and> length q - 1 < length p" by simp
  then show "q \<in> set (prefixes_of p)" unfolding prefixes_of_def set_map set_upt by (intro image_eqI [of _ _ "length q - 1"]) auto
qed

lemma split_path_nonempty: "split_path s \<noteq> []"
  by (induction s) (auto split: list.splits)

lemma join_split: "join_path (split_path s) = s"
proof (induction s)
  case (Cons c s)
  obtain p ps where "split_path s = p # ps" using split_path_nonempty [of s] by (cases "split_path s") auto
  with Cons show ?case by (cases ps) auto
qed simp

lemma split_join: "ps \<noteq> [] \<Longrightarrow> list_all (\<lambda>p. CHR ''/'' \<notin> set p) ps \<Longrightarrow> split_path (join_path ps) = ps"
proof (induction ps rule: join_path.induct)
  case (2 p)
  then show ?case by (induction p) auto
next
  case (3 p q ps)
  then have "split_path (join_path (q # ps)) = q # ps" "CHR ''/'' \<notin> set p" by auto
  then show ?case by (induction p) auto
qed simp

end
