(* ===== verification/Static_Gtfs.thy ===== *)
theory Static_Gtfs
  imports Archive_Files
begin

section \<open>Static GTFS versions (bkk_collector/archive/static_gtfs.py)\<close>

text \<open>
  The store keeps every version of the static timetable below \<^verbatim>\<open>static_gtfs\<close>, a history of the checks in a
  JSON-lines file and its state in another. From the history it answers which version had been observed at a time and
  which versions cover a range of time.

  A line of the history that is no JSON object is treated as absent. Times as text are parsed by \<open>tl_time\<close>; times as
  numbers are exact. The outcome of a download is an argument.
\<close>

subsection \<open>Files of the store\<close>

definition gtfs_root :: path where
  "gtfs_root = [''static_gtfs'']"

definition history_path :: path where
  "history_path = [''static_gtfs'', ''history.jsonl'']"

definition gtfs_state_path :: path where
  "gtfs_state_path = [''static_gtfs'', ''state.json'']"

definition STATIC_GTFS_URL :: string where
  "STATIC_GTFS_URL = ''https://go.bkk.hu/api/static/v1/public-gtfs/budapest_gtfs.zip''"

definition gtfs_history :: "tools \<Rightarrow> tree \<Rightarrow> row list" where
  "gtfs_history tk t =
     concat (map (\<lambda>v. case v of Some (PDict r) \<Rightarrow> if r \<noteq> [] then [r] else [] | _ \<Rightarrow> []) (jsonl_at tk t history_path))"

definition gtfs_state :: "tools \<Rightarrow> tree \<Rightarrow> row" where
  "gtfs_state tk t = (case read_object tk t gtfs_state_path of None \<Rightarrow> [] | Some r \<Rightarrow> r)"

text \<open>\<^verbatim>\<open>Path(value).parts\<close> of a relative path\<close>

definition path_parts :: "string \<Rightarrow> path" where
  "path_parts s = [p \<leftarrow> split_path s. p \<noteq> [] \<and> p \<noteq> ''.'']"

definition archive_path :: "row \<Rightarrow> exn + path" where
  "archive_path event =
     (case row_get event ''version_path'' of
        PStr s \<Rightarrow>
          if s = [] then Inl (value_error ''static GTFS history event lacks version_path'')
          else if hd s = CHR ''/'' \<or> ''..'' \<in> set (path_parts s)
          then Inl (value_error (''unsafe static GTFS version path: '' @ s))
          else Inr (gtfs_root @ path_parts s)
      | _ \<Rightarrow> Inl (value_error ''static GTFS history event lacks version_path''))"

subsection \<open>When a check is due\<close>

definition num_of :: "pyval \<Rightarrow> rat option" where
  "num_of v = (case v of PInt i \<Rightarrow> Some (of_int i) | PFloat q \<Rightarrow> Some q | PBool b \<Rightarrow> Some (if b then 1 else 0)
     | PStr s \<Rightarrow> (case parse_float s of Some (Fin q) \<Rightarrow> Some q | _ \<Rightarrow> None) | _ \<Rightarrow> None)"

text \<open>\<^verbatim>\<open>float(state.get(key, 0))\<close>\<close>

definition state_time :: "row \<Rightarrow> string \<Rightarrow> rat option" where
  "state_time state key = (case map_of state key of None \<Rightarrow> Some 0 | Some v \<Rightarrow> num_of v)"

definition check_due :: "rat \<Rightarrow> rat \<Rightarrow> row \<Rightarrow> rat \<Rightarrow> exn + bool" where
  "check_due interval retry state now =
     (case (state_time state ''last_success_timestamp'', state_time state ''last_attempt_timestamp'') of
        (Some success, Some attempt) \<Rightarrow>
          if success \<noteq> 0 \<and> now - success < interval then Inr False
          else Inr (attempt = 0 \<or> now - attempt \<ge> retry)
      | _ \<Rightarrow> Inl (other_error ''TypeError''))"

definition record_check_failure :: "tools \<Rightarrow> stamp \<Rightarrow> string \<Rightarrow> seconds \<Rightarrow> tree \<Rightarrow> tree" where
  "record_check_failure tk st error now t =
     write_json tk st gtfs_state_path
       (AList.update ''last_error'' (PStr (take 1000 error))
         (AList.update ''last_attempt_at'' (PStr (tl_utc_iso tk now))
           (AList.update ''last_attempt_timestamp'' (PFloat now)
             (AList.update ''version'' (PInt 1) (gtfs_state tk t))))) t"

subsection \<open>Checking\<close>

text \<open>
  What a check does with a completed download: the steps are the archive, the history line and the state, each a tree, so
  that an interruption leaves one of them.
\<close>

definition check_event :: "tools \<Rightarrow> seconds \<Rightarrow> bytes \<Rightarrow> string \<Rightarrow> row \<Rightarrow> tree \<Rightarrow> row" where
  "check_event tk now payload relative details t =
     foldl (\<lambda>d (k, v). AList.update k v d)
       [(''version'', PInt 1), (''checked_at'', PStr (tl_utc_iso tk now)), (''sha256'', PStr (tl_sha tk payload)),
        (''size'', PInt (int (length payload))), (''version_path'', PStr relative),
        (''changed'', PBool (PStr (tl_sha tk payload) \<noteq> row_get (gtfs_state tk t) ''latest_sha256'')),
        (''source'', PStr STATIC_GTFS_URL)] details"

definition check_destination :: "tools \<Rightarrow> string \<Rightarrow> tree \<Rightarrow> exn + path" where
  "check_destination tk digest t =
     (case find (\<lambda>e. row_get e ''sha256'' = PStr digest) (rev (gtfs_history tk t)) of
        Some e \<Rightarrow> archive_path e
      | None \<Rightarrow> Inr (gtfs_root @ [''versions'', digest @ ''.zip'']))"

definition check_steps :: "tools \<Rightarrow> stamp \<Rightarrow> seconds \<Rightarrow> bytes \<Rightarrow> tree \<Rightarrow> exn + row \<times> tree list" where
  "check_steps tk st now payload t =
     (case tl_zip tk payload of
        None \<Rightarrow> Inl (value_error ''static GTFS is invalid'')
      | Some details \<Rightarrow>
          (case check_destination tk (tl_sha tk payload) t of
             Inl e \<Rightarrow> Inl e
           | Inr destination \<Rightarrow>
               let t1 = (if exists_at t destination then t else write_file st destination payload t);
                   relative = join_path (drop 1 destination);
                   event = check_event tk now payload relative details t;
                   t2 = append_line tk st history_path event t1;
                   t3 = write_json tk st gtfs_state_path
                          [(''version'', PInt 1), (''last_attempt_timestamp'', PFloat now),
                           (''last_attempt_at'', PStr (tl_utc_iso tk now)), (''last_success_timestamp'', PFloat now),
                           (''last_success_at'', PStr (tl_utc_iso tk now)), (''latest_sha256'', PStr (tl_sha tk payload)),
                           (''latest_version_path'', PStr relative), (''latest_feed_version'', row_get details ''feed_version''),
                           (''last_error'', PNone)] t2
               in Inr (event, [t, t1, t2, t3])))"

definition check_static :: "tools \<Rightarrow> stamp \<Rightarrow> seconds \<Rightarrow> exn + bytes \<Rightarrow> tree \<Rightarrow> exn + row \<times> tree" where
  "check_static tk st now download t =
     bind_result download (\<lambda>payload. bind_result (check_steps tk st now payload t) (\<lambda>(event, ts). Inr (event, last ts)))"

subsection \<open>Indexing the old archives\<close>

definition legacy_name :: "string \<Rightarrow> bool" where
  "legacy_name n \<longleftrightarrow> length n \<ge> 18 \<and> take 14 n = ''budapest_gtfs_'' \<and> drop (length n - 4) n = ''.zip''"

definition legacy_event :: "tools \<Rightarrow> string \<Rightarrow> fobj \<Rightarrow> row \<Rightarrow> row" where
  "legacy_event tk n f details =
     foldl (\<lambda>d (k, v). AList.update k v d)
       [(''version'', PInt 1),
        (''checked_at'', PStr (tl_utc_iso tk (case tl_day tk (drop 14 (take (length n - 4) n)) of
            Some day \<Rightarrow> day | None \<Rightarrow> of_int (fo_mtime f) / 1000000000))),
        (''sha256'', PStr (tl_sha tk (fo_bytes f))), (''size'', PInt (int (length (fo_bytes f)))),
        (''version_path'', PStr n), (''changed'', PBool True), (''source'', PStr ''legacy_archive_migration'')] details"

text \<open>The loop over the names, with the paths known so far and the number added.\<close>

fun index_legacy :: "tools \<Rightarrow> stamp \<Rightarrow> string list \<Rightarrow> pyval list \<Rightarrow> tree \<Rightarrow> nat \<times> tree" where
  "index_legacy tk st [] known t = (0, t)"
| "index_legacy tk st (n # ns) known t =
     (if PStr n \<in> set known then index_legacy tk st ns known t
      else case regular_at t (gtfs_root @ [n]) of
          None \<Rightarrow> index_legacy tk st ns known t
        | Some f \<Rightarrow>
            (case tl_zip tk (fo_bytes f) of
               None \<Rightarrow> index_legacy tk st ns known t
             | Some details \<Rightarrow>
                 (case index_legacy tk st ns (PStr n # known) (append_line tk st history_path (legacy_event tk n f details) t) of
                    (k, t') \<Rightarrow> (Suc k, t'))))"

text \<open>\<^verbatim>\<open>max(xs, key=...)\<close> keeps the first of the largest.\<close>

fun first_max :: "('k::linorder \<times> 'a) list \<Rightarrow> ('k \<times> 'a) option" where
  "first_max [] = None"
| "first_max (x # xs) = (case first_max xs of None \<Rightarrow> Some x | Some y \<Rightarrow> Some (if fst y > fst x then y else x))"

definition str_or_empty :: "pyval \<Rightarrow> string" where
  "str_or_empty v = (case v of PStr s \<Rightarrow> s | _ \<Rightarrow> [])"

definition migrate_legacy_archives :: "tools \<Rightarrow> stamp \<Rightarrow> tree \<Rightarrow> nat \<times> tree" where
  "migrate_legacy_archives tk st t =
     (let names = sort [last p. p \<leftarrow> children t gtfs_root, legacy_name (last p)];
          known = map (\<lambda>e. row_get e ''version_path'') (gtfs_history tk t)
      in case index_legacy tk st names known t of
        (added, t') \<Rightarrow>
          (added,
           if added = 0 then t'
           else case first_max (map (\<lambda>e. (str_or_empty (row_get e ''checked_at''), e)) (gtfs_history tk t')) of
               None \<Rightarrow> t'
             | Some (_, latest) \<Rightarrow>
                 write_json tk st gtfs_state_path
                   (AList.update ''latest_feed_version'' (row_get latest ''feed_version'')
                     (AList.update ''latest_version_path'' (row_get latest ''version_path'')
                       (AList.update ''latest_sha256'' (row_get latest ''sha256'')
                         (AList.update ''version'' (PInt 1) (gtfs_state tk t'))))) t'))"

subsection \<open>Which version had been observed\<close>

definition checked_timestamp :: "tools \<Rightarrow> row \<Rightarrow> seconds option" where
  "checked_timestamp tk event =
     (case map_of event ''checked_at'' of
        None \<Rightarrow> None
      | Some v \<Rightarrow> tl_time tk (replace_all ''Z'' ''+00:00'' (case v of PStr s \<Rightarrow> s | _ \<Rightarrow> tl_str tk v)))"

definition checked_events :: "tools \<Rightarrow> row list \<Rightarrow> (seconds \<times> row) list" where
  "checked_events tk hist = concat (map (\<lambda>e. case checked_timestamp tk e of None \<Rightarrow> [] | Some c \<Rightarrow> [(c, e)]) hist)"

definition DAY :: seconds where
  "DAY = 86400"

text \<open>The caller has parsed the date. Here a \<^verbatim>\<open>checked_at\<close> that is no text has no \<^verbatim>\<open>replace\<close>.\<close>

definition text_or_absent :: "row \<Rightarrow> string \<Rightarrow> bool" where
  "text_or_absent r k \<longleftrightarrow> (case map_of r k of None \<Rightarrow> True | Some (PStr _) \<Rightarrow> True | _ \<Rightarrow> False)"

definition applicable_version :: "tools \<Rightarrow> row list \<Rightarrow> seconds \<Rightarrow> exn + row option" where
  "applicable_version tk hist day =
     (if list_all (\<lambda>e. text_or_absent e ''checked_at'') hist
      then Inr (map_option snd (first_max [x \<leftarrow> checked_events tk hist. fst x < day + DAY]))
      else Inl (other_error ''AttributeError''))"

definition applicability_confidence :: "row \<Rightarrow> string" where
  "applicability_confidence event =
     (if row_get event ''source'' = PStr ''legacy_archive_migration'' then ''legacy_schedule_uncertain'' else ''collector_observed'')"

definition observed_version_at :: "tools \<Rightarrow> row list \<Rightarrow> seconds \<Rightarrow> row option" where
  "observed_version_at tk hist now =
     (case first_max [x \<leftarrow> checked_events tk hist. fst x \<le> now] of
        None \<Rightarrow> None
      | Some (c, event) \<Rightarrow>
          Some (AList.update ''applicability_confidence'' (PStr (applicability_confidence event))
                 (AList.update ''observed_from'' (PStr (tl_utc_iso tk c)) event)))"

subsection \<open>The timeline of a range\<close>

text \<open>A segment of the timeline before its times are rendered: from, until, and the event it stands for.\<close>

type_synonym gtfs_segment = "seconds \<times> seconds \<times> row"

definition boundaries :: "tools \<Rightarrow> row list \<Rightarrow> seconds \<Rightarrow> seconds \<Rightarrow> (seconds \<times> row) list" where
  "boundaries tk hist a b =
     (let parsed = sort_key fst (checked_events tk hist)
      in (case first_max [x \<leftarrow> parsed. fst x \<le> a] of None \<Rightarrow> [] | Some x \<Rightarrow> [x]) @ [x \<leftarrow> parsed. a < fst x \<and> fst x < b])"

fun raw_segments :: "seconds \<Rightarrow> seconds \<Rightarrow> (seconds \<times> row) list \<Rightarrow> gtfs_segment list" where
  "raw_segments a b [] = []"
| "raw_segments a b [(c, e)] = [(max a c, b, e)]"
| "raw_segments a b ((c, e) # (d, f) # xs) = (max a c, d, e) # raw_segments a b ((d, f) # xs)"

definition version_of :: "row \<Rightarrow> pyval \<times> string" where
  "version_of event = (row_get event ''sha256'', applicability_confidence event)"

fun add_segment :: "gtfs_segment list \<Rightarrow> gtfs_segment \<Rightarrow> gtfs_segment list" where
  "add_segment [] s = [s]"
| "add_segment [(a, b, e)] (c, d, f) = (if version_of e = version_of f then [(a, d, e)] else [(a, b, e), (c, d, f)])"
| "add_segment (s # s' # ss) x = s # add_segment (s' # ss) x"

definition timeline_segments :: "tools \<Rightarrow> row list \<Rightarrow> seconds \<Rightarrow> seconds \<Rightarrow> gtfs_segment list" where
  "timeline_segments tk hist a b = foldl add_segment [] (raw_segments a b (boundaries tk hist a b))"

definition segment_row :: "tools \<Rightarrow> gtfs_segment \<Rightarrow> row" where
  "segment_row tk s =
     (case s of (a, b, e) \<Rightarrow>
        [(''effective_from'', PStr (tl_utc_iso tk a)), (''effective_until'', PStr (tl_utc_iso tk b)),
         (''observed_at'', row_get e ''checked_at''), (''sha256'', row_get e ''sha256''), (''size'', row_get e ''size''),
         (''version_path'', row_get e ''version_path''), (''feed_version'', row_get e ''feed_version''),
         (''source'', row_get e ''source''), (''applicability_confidence'', PStr (applicability_confidence e))])"

definition observed_timeline :: "tools \<Rightarrow> row list \<Rightarrow> seconds \<Rightarrow> seconds \<Rightarrow> exn + row list" where
  "observed_timeline tk hist a b =
     (if b \<le> a then Inl (value_error ''static GTFS timeline end must be after start'')
      else Inr (map (segment_row tk) (timeline_segments tk hist a b)))"

subsection \<open>Lemmas\<close>

lemma first_max_None [simp]: "first_max xs = None \<longleftrightarrow> xs = []"
  by (cases xs) (auto split: option.split)

lemma first_max_Some: "first_max xs = Some m \<Longrightarrow> m \<in> set xs \<and> (\<forall>x \<in> set xs. fst x \<le> fst m)"
proof (induction xs arbitrary: m)
  case (Cons x xs)
  show ?case
  proof (cases "first_max xs")
    case None
    with Cons.prems show ?thesis by auto
  next
    case (Some y)
    with Cons.IH [OF Some] Cons.prems show ?thesis by (auto split: if_splits)
  qed
qed simp

lemma first_max_eq:
  assumes "distinct (map fst xs)" and "m \<in> set xs" and "\<And>x. x \<in> set xs \<Longrightarrow> fst x \<le> fst m"
  shows "first_max xs = Some m"
proof -
  from assms(2) have "xs \<noteq> []" by auto
  then obtain y where y: "first_max xs = Some y" by (cases "first_max xs") auto
  from first_max_Some [OF y] assms(2,3) have "fst y = fst m" "y \<in> set xs" by (meson antisym)+
  with assms(1,2) have "y = m" by (auto simp: distinct_map dest: inj_onD)
  with y show ?thesis by simp
qed

abbreviation covers :: "seconds \<Rightarrow> gtfs_segment \<Rightarrow> bool" where
  "covers s x \<equiv> fst x \<le> s \<and> s < fst (snd x)"

abbreviation event_of :: "gtfs_segment \<Rightarrow> row" where
  "event_of x \<equiv> snd (snd x)"

lemma raw_segments_covers:
  assumes "sorted_wrt (\<lambda>x y. fst x < fst y) xs" and "\<forall>x \<in> set (tl xs). a < fst x" and "\<forall>x \<in> set xs. fst x < b"
    and "a \<le> s" and "s < b"
  shows "map event_of (filter (covers s) (raw_segments a b xs)) = (if [x \<leftarrow> xs. fst x \<le> s] = [] then [] else [snd (last [x \<leftarrow> xs. fst x \<le> s])])"
  using assms
proof (induction a b xs rule: raw_segments.induct)
  case (3 a b c e d f xs)
  have IH: "map event_of (filter (covers s) (raw_segments a b ((d, f) # xs))) =
      (if [x \<leftarrow> (d, f) # xs. fst x \<le> s] = [] then [] else [snd (last [x \<leftarrow> (d, f) # xs. fst x \<le> s])])"
    using 3 by (intro "3.IH") auto
  show ?case
  proof (cases "d \<le> s")
    case True
    with IH 3 show ?thesis by auto
  next
    case False
    with 3 have "[x \<leftarrow> (d, f) # xs. fst x \<le> s] = []" by (force simp: filter_empty_conv)
    with IH False 3 show ?thesis by auto
  qed
qed (auto simp: max_def)

fun chained :: "gtfs_segment list \<Rightarrow> bool" where
  "chained [] = True"
| "chained [x] = (fst x \<le> fst (snd x))"
| "chained (x # y # xs) = (fst x \<le> fst (snd x) \<and> fst (snd x) = fst y \<and> chained (y # xs))"

lemma chained_raw:
  assumes "sorted_wrt (\<lambda>x y. fst x < fst y) xs" and "\<forall>x \<in> set (tl xs). a < fst x" and "\<forall>x \<in> set xs. fst x < b" and "a < b"
  shows "chained (raw_segments a b xs)"
  using assms
proof (induction a b xs rule: raw_segments.induct)
  case (3 a b c e d f xs)
  then have "chained (raw_segments a b ((d, f) # xs))" by (intro "3.IH") auto
  with 3 show ?case by (cases xs) (auto simp: max_def)
qed (auto simp: max_def)

definition versions_at :: "seconds \<Rightarrow> gtfs_segment list \<Rightarrow> (pyval \<times> string) list" where
  "versions_at s xs = map (\<lambda>x. version_of (event_of x)) (filter (covers s) xs)"

lemma versions_at_simps [simp]:
  "versions_at s [] = []"
  "versions_at s (x # xs) = (if covers s x then [version_of (event_of x)] else []) @ versions_at s xs"
  "versions_at s (xs @ ys) = versions_at s xs @ versions_at s ys"
  by (auto simp: versions_at_def)

lemma versions_at_events: "versions_at s xs = map version_of (map event_of (filter (covers s) xs))"
  by (simp add: versions_at_def comp_def)

lemma add_segment_chained:
  "chained (acc @ x # xs) \<Longrightarrow> chained (add_segment acc x @ xs) \<and> versions_at s (add_segment acc x) = versions_at s (acc @ [x])"
proof (induction acc x rule: add_segment.induct)
  case (2 a b e c d f)
  then show ?case by (cases xs) auto
next
  case (3 y y' ys x)
  then have IH: "chained (add_segment (y' # ys) x @ xs)"
    "versions_at s (add_segment (y' # ys) x) = versions_at s ((y' # ys) @ [x])" by auto
  have "\<exists>z zs. add_segment (y' # ys) x = z # zs \<and> fst z = fst y'"
    by (cases "(y' # ys, x)" rule: add_segment.cases) auto
  then obtain z zs where z: "add_segment (y' # ys) x = z # zs" "fst z = fst y'" by blast
  with 3 IH(1) have "chained (add_segment (y # y' # ys) x @ xs)" by simp
  moreover have "versions_at s (add_segment (y # y' # ys) x) = versions_at s ((y # y' # ys) @ [x])"
    using IH(2) by (simp del: versions_at_simps(2) add: versions_at_simps(2) [of s y])
  ultimately show ?case by blast
qed simp

lemma add_segments_covers:
  "chained (acc @ xs) \<Longrightarrow> chained (foldl add_segment acc xs) \<and> versions_at s (foldl add_segment acc xs) = versions_at s (acc @ xs)"
proof (induction xs arbitrary: acc)
  case (Cons x xs)
  from add_segment_chained [OF Cons.prems, of s] Cons.IH [of "add_segment acc x"] show ?case by simp
qed simp

lemma boundaries_ok:
  assumes "distinct (map fst (checked_events tk hist))" and "a < b"
  shows "sorted_wrt (\<lambda>x y. fst x < fst y) (boundaries tk hist a b)"
    and "\<forall>x \<in> set (tl (boundaries tk hist a b)). a < fst x" and "\<forall>x \<in> set (boundaries tk hist a b). fst x < b"
proof -
  let ?p = "sort_key fst (checked_events tk hist)"
  have "sorted_wrt (<) (map fst ?p)" unfolding strict_sorted_iff using assms(1) by (simp add: distinct_map)
  then have "sorted_wrt (\<lambda>x y. fst x < fst y) ?p" unfolding sorted_wrt_map .
  then have later: "sorted_wrt (\<lambda>x y. fst x < fst y) [x \<leftarrow> ?p. a < fst x \<and> fst x < b]" by (rule sorted_wrt_filter)
  obtain firsts where firsts: "boundaries tk hist a b = firsts @ [x \<leftarrow> ?p. a < fst x \<and> fst x < b]"
      "firsts = [] \<or> (\<exists>m. firsts = [m] \<and> fst m \<le> a)"
  proof (cases "first_max [x \<leftarrow> ?p. fst x \<le> a]")
    case None
    then show ?thesis by (intro that [of "[]"]) (auto simp: boundaries_def)
  next
    case (Some m)
    with first_max_Some [OF this] show ?thesis by (intro that [of "[m]"]) (auto simp: boundaries_def)
  qed
  show "sorted_wrt (\<lambda>x y. fst x < fst y) (boundaries tk hist a b)"
    using firsts(2) later unfolding firsts(1) by (auto dest: le_less_trans)
  show "\<forall>x \<in> set (tl (boundaries tk hist a b)). a < fst x"
  proof (cases "firsts = []")
    case True
    then have "boundaries tk hist a b = [x \<leftarrow> ?p. a < fst x \<and> fst x < b]" using firsts(1) by simp
    then have "set (boundaries tk hist a b) \<subseteq> {x. a < fst x}" by auto
    moreover have "set (tl (boundaries tk hist a b)) \<subseteq> set (boundaries tk hist a b)"
      by (cases "boundaries tk hist a b") auto
    ultimately show ?thesis by blast
  next
    case False
    with firsts(2) show ?thesis unfolding firsts(1) by auto
  qed
  show "\<forall>x \<in> set (boundaries tk hist a b). fst x < b"
    using firsts(2) assms(2) unfolding firsts(1) by (auto dest: le_less_trans)
qed

lemma boundaries_members:
  "x \<in> set (boundaries tk hist a b) \<Longrightarrow> x \<in> set (checked_events tk hist)"
  by (cases "first_max [x \<leftarrow> sort_key fst (checked_events tk hist). fst x \<le> a]")
    (auto simp: boundaries_def Let_def dest: first_max_Some)

lemma last_observed:
  assumes "distinct (map fst (checked_events tk hist))" and "a < b" and "a \<le> s" and "s < b"
    and "first_max [x \<leftarrow> checked_events tk hist. fst x \<le> s] = Some m"
  shows "m \<in> set (boundaries tk hist a b)"
proof (cases "a < fst m")
  case True
  with first_max_Some [OF assms(5)] assms(4) show ?thesis by (auto simp: boundaries_def Let_def)
next
  case False
  let ?old = "[x \<leftarrow> sort_key fst (checked_events tk hist). fst x \<le> a]"
  have "distinct (map fst ?old)" using assms(1) by (simp add: distinct_map inj_on_def)
  moreover have "m \<in> set ?old" "\<And>x. x \<in> set ?old \<Longrightarrow> fst x \<le> fst m"
    using first_max_Some [OF assms(5)] False assms(3) by auto
  ultimately have "first_max ?old = Some m" by (rule first_max_eq)
  then show ?thesis by (simp add: boundaries_def Let_def)
qed

lemma last_is_greatest:
  assumes "sorted_wrt (\<lambda>x y. fst x < (fst y :: seconds)) xs" and "x \<in> set xs"
  shows "fst x \<le> fst (last xs)"
  using assms by (induction xs) (auto simp: less_imp_le dest: last_in_set)

lemma last_boundary:
  assumes "distinct (map fst (checked_events tk hist))" and "a < b" and "a \<le> s" and "s < b"
  shows "first_max [x \<leftarrow> checked_events tk hist. fst x \<le> s] =
    (if [x \<leftarrow> boundaries tk hist a b. fst x \<le> s] = [] then None else Some (last [x \<leftarrow> boundaries tk hist a b. fst x \<le> s]))"
proof (cases "first_max [x \<leftarrow> checked_events tk hist. fst x \<le> s]")
  case None
  then have "[x \<leftarrow> checked_events tk hist. fst x \<le> s] = []" by simp
  with boundaries_members [of _ tk hist a b] have "[x \<leftarrow> boundaries tk hist a b. fst x \<le> s] = []"
    unfolding filter_empty_conv by blast
  with None show ?thesis by simp
next
  case (Some m)
  let ?past = "[x \<leftarrow> boundaries tk hist a b. fst x \<le> s]"
  note m = first_max_Some [OF Some]
  with last_observed [OF assms Some] have in_past: "m \<in> set ?past" by simp
  then have "?past \<noteq> []" by (metis list.set(1) empty_iff)
  then have "last ?past \<in> set ?past" by (rule last_in_set)
  then have known: "last ?past \<in> set [x \<leftarrow> checked_events tk hist. fst x \<le> s]" using boundaries_members by fastforce
  have "sorted_wrt (\<lambda>x y. fst x < fst y) ?past" by (rule sorted_wrt_filter [OF boundaries_ok(1) [OF assms(1,2)]])
  from last_is_greatest [OF this in_past] m known have "fst m = fst (last ?past)" by (meson antisym)
  with m known assms(1) have "m = last ?past" by (fastforce simp: distinct_map dest: inj_onD)
  moreover from in_past have "?past \<noteq> []" by force
  ultimately show ?thesis using Some by simp
qed

lemma version_of_observed:
  assumes "observed_version_at tk hist s = Some r" and "first_max [x \<leftarrow> checked_events tk hist. fst x \<le> s] = Some m"
  shows "version_of (snd m) = (row_get r ''sha256'', str_or_empty (row_get r ''applicability_confidence''))"
  using assms by (cases m) (auto simp: observed_version_at_def version_of_def row_get_def update_conv' str_or_empty_def)

subsection \<open>Properties\<close>

text \<open>
  Claim C31. The timeline and the point query agree: at every time of the range, the timeline has exactly one segment
  when a version had been observed by then and none before, and the segment has the digest and the confidence that
  \<^verbatim>\<open>observed_version_at\<close> answers for that time; the segments follow each other without a gap. The checks of the history
  are assumed to have different times.
\<close>

theorem timeline_agrees:
  assumes "a < b" and "distinct (map fst (checked_events tk hist))" and "a \<le> s" and "s < b"
  shows "chained (timeline_segments tk hist a b) \<and>
    versions_at s (timeline_segments tk hist a b) =
      (case observed_version_at tk hist s of
         None \<Rightarrow> []
       | Some r \<Rightarrow> [(row_get r ''sha256'', str_or_empty (row_get r ''applicability_confidence''))])"
proof -
  note ok = boundaries_ok [OF assms(2,1)]
  let ?raw = "raw_segments a b (boundaries tk hist a b)" and ?past = "[x \<leftarrow> boundaries tk hist a b. fst x \<le> s]"
  from add_segments_covers [of "[]" ?raw s] chained_raw [OF ok assms(1)]
  have segs: "chained (timeline_segments tk hist a b)" "versions_at s (timeline_segments tk hist a b) = versions_at s ?raw"
    by (simp_all add: timeline_segments_def)
  have raw: "versions_at s ?raw = (if ?past = [] then [] else [version_of (snd (last ?past))])"
    using versions_at_events [of s ?raw] raw_segments_covers [OF ok assms(3,4)] by simp
  note newest = last_boundary [OF assms(2,1,3,4)]
  show ?thesis
  proof (cases "?past = []")
    case True
    with newest segs raw show ?thesis by (simp add: observed_version_at_def)
  next
    case False
    with newest have found: "first_max [x \<leftarrow> checked_events tk hist. fst x \<le> s] = Some (last ?past)" by simp
    then obtain r where "observed_version_at tk hist s = Some r" by (cases "last ?past") (simp add: observed_version_at_def)
    with version_of_observed [OF this found] segs raw False show ?thesis by simp
  qed
qed

definition sample_checks :: "row list" where
  "sample_checks = [[(''checked_at'', PStr ''10''), (''sha256'', PStr ''a'')], [(''checked_at'', PStr ''20''), (''sha256'', PStr ''b'')]]"

lemma timeline_agrees_witness:
  "versions_at 25 (timeline_segments plain_tools sample_checks 15 30) =
     (case observed_version_at plain_tools sample_checks 25 of
         None \<Rightarrow> []
       | Some r \<Rightarrow> [(row_get r ''sha256'', str_or_empty (row_get r ''applicability_confidence''))])"
proof -
  have "map fst (checked_events plain_tools sample_checks) = [10, 20]"
    by (simp add: sample_checks_def checked_events_def checked_timestamp_def plain_tools_def) code_simp
  then show ?thesis using timeline_agrees [of 15 30 plain_tools sample_checks 25] by simp
qed

end
