(* ===== verification/Messages.thy ===== *)
theory Messages
  imports Base
begin

section \<open>GTFS-Realtime messages\<close>

text \<open>
  The protobuf messages as the parsers read them: \<^verbatim>\<open>HasField\<close> is \<open>\<noteq> None\<close>, a repeated field is a list, and
  a field that is only read as \<^verbatim>\<open>message.field or None\<close> is its value with the default for an unset one. A
  field that the installed bindings do not know is never set. An integer field is a word of its width in the
  protobuf definition; an unsigned one is read with \<open>uint\<close>, a signed one and the number of an enum value with
  \<open>sint\<close>. Messages that are only rendered as JSON are the dictionary \<^verbatim>\<open>MessageToDict\<close> gives.
  The extension messages are those that \<^verbatim>\<open>bkk_collector/realtime/realcity.py\<close> registers.
\<close>

type_synonym uint32 = "32 word"
type_synonym uint64 = "64 word"
type_synonym int32 = "32 word"
type_synonym int64 = "64 word"
type_synonym enum_number = "32 word"

record translation =
  tl_text :: string
  tl_language :: "string option"

type_synonym translated = "translation list"

record trip_descriptor =
  td_trip_id :: string
  td_route_id :: string
  td_direction_id :: "uint32 option"
  td_start_time :: string
  td_start_date :: string
  td_schedule_relationship :: "enum_number option"
  td_modified_trip :: "pyval option"

record realcity_vehicle =
  rv_vehicle_model :: "string option"
  rv_deviated :: "bool option"
  rv_vehicle_type :: "int32 option"
  rv_door_open :: "bool option"
  rv_stop_distance :: "int32 option"

record vehicle_descriptor =
  vd_id :: string
  vd_label :: string
  vd_license_plate :: "string option"
  vd_wheelchair_accessible :: "enum_number option"
  vd_realcity :: "realcity_vehicle option"

record position =
  po_latitude :: "rat option"
  po_longitude :: "rat option"
  po_bearing :: "rat option"
  po_odometer :: "rat option"
  po_speed :: "rat option"

record vehicle_position =
  vp_trip :: "trip_descriptor option"
  vp_vehicle :: "vehicle_descriptor option"
  vp_position :: "position option"
  vp_timestamp :: "uint64 option"
  vp_current_stop_sequence :: "uint32 option"
  vp_stop_id :: string
  vp_current_status :: "enum_number option"
  vp_congestion_level :: "enum_number option"
  vp_occupancy_status :: "enum_number option"
  vp_occupancy_percentage :: "uint32 option"
  vp_multi_carriage_details :: "pyval list"

record stop_event =
  se_delay :: "int32 option"
  se_time :: "int64 option"
  se_uncertainty :: "int32 option"
  se_scheduled_time :: "int64 option"

record realcity_stop_update =
  rs_scheduled_arrival :: "stop_event option"
  rs_scheduled_departure :: "stop_event option"

record stop_time_update =
  su_stop_sequence :: "uint32 option"
  su_stop_id :: string
  su_schedule_relationship :: "enum_number option"
  su_departure_occupancy_status :: "enum_number option"
  su_stop_time_properties :: "pyval option"
  su_arrival :: "stop_event option"
  su_departure :: "stop_event option"
  su_realcity :: "realcity_stop_update option"

record trip_update =
  tu_trip :: "trip_descriptor option"
  tu_vehicle :: "vehicle_descriptor option"
  tu_timestamp :: "uint64 option"
  tu_delay :: "int32 option"
  tu_trip_properties :: "pyval option"
  tu_stop_time_updates :: "stop_time_update list"

record selector =
  es_agency_id :: string
  es_route_id :: string
  es_route_type :: "int32 option"
  es_stop_id :: string
  es_direction_id :: "uint32 option"
  es_trip :: "trip_descriptor option"

record time_range =
  tr_start :: "uint64 option"
  tr_end :: "uint64 option"

record realcity_route =
  rr_route_id :: string
  rr_header_text :: "translated option"
  rr_cause :: "enum_number option"
  rr_effect :: "enum_number option"
  rr_effect_type :: "enum_number option"

record realcity_alert =
  ra_start_text :: "translated option"
  ra_end_text :: "translated option"
  ra_modified_time :: "uint64 option"
  ra_routes :: "realcity_route list"

record alert_message =
  al_cause :: "enum_number option"
  al_effect :: "enum_number option"
  al_severity_level :: "enum_number option"
  al_header_text :: "translated option"
  al_description_text :: "translated option"
  al_url :: "translated option"
  al_tts_header_text :: "translated option"
  al_tts_description_text :: "translated option"
  al_image :: "pyval option"
  al_image_alternative_text :: "translated option"
  al_cause_detail :: "pyval option"
  al_effect_detail :: "pyval option"
  al_active_periods :: "time_range list"
  al_communication_periods :: "time_range list"
  al_impact_periods :: "time_range list"
  al_informed_entities :: "selector list"
  al_realcity :: "realcity_alert option"

text \<open>
  An entity: \<open>en_other\<close> names the other message fields that are set (\<^verbatim>\<open>shape\<close>, \<^verbatim>\<open>stop\<close>,
  \<^verbatim>\<open>trip_modifications\<close> or one the program does not know), and \<open>en_bytes\<close> and \<open>en_deterministic\<close> are its two
  serializations.
\<close>

record entity =
  en_id :: string
  en_is_deleted :: "bool option"
  en_vehicle :: "vehicle_position option"
  en_trip_update :: "trip_update option"
  en_alert :: "alert_message option"
  en_other :: "string list"
  en_bytes :: bytes
  en_deterministic :: bytes

record feed_message =
  fm_timestamp :: "uint64 option"
  fm_feed_version :: "string option"
  fm_gtfs_realtime_version :: string
  fm_incrementality :: "enum_number option"
  fm_entities :: "entity list"

end
