(* ===== verification/Spool_Codec.thy ===== *)
theory Spool_Codec
  imports Columns "HOL-Library.Sublist"
begin

section \<open>Rows on their way to Parquet\<close>

text \<open>
  The codecs that a row passes: the shared strings of wide spool segments
  (\<^verbatim>\<open>bkk_collector/storage/spool_codec.py\<close>), the size guard of the alert spool, and the dictionary
  encoding and batching of the Parquet writer (\<^verbatim>\<open>bkk_collector/storage/parquet_store.py\<close>). Each
  comes with its round trip. A row is an association list; Python compares dictionaries without
  regard to the order of their keys.
\<close>

subsection \<open>Shared strings\<close>

definition SHARED_STRING_MIN_CHARS :: nat where
  "SHARED_STRING_MIN_CHARS = 4096"

definition REFERENCE_KEY :: string where
  "REFERENCE_KEY = ''$shared_string''"

type_synonym shared = "string list \<times> (string \<times> nat) list"

definition is_large :: "pyval \<Rightarrow> bool" where
  "is_large v = (case v of PStr s \<Rightarrow> SHARED_STRING_MIN_CHARS \<le> length s | _ \<Rightarrow> False)"

definition share_value :: "pyval \<Rightarrow> shared \<Rightarrow> pyval \<times> shared" where
  "share_value v sh =
     (case v of
        PStr s \<Rightarrow>
          if SHARED_STRING_MIN_CHARS \<le> length s
          then (case map_of (snd sh) s of
                  Some i \<Rightarrow> (PDict [(REFERENCE_KEY, PInt (int i))], sh)
                | None \<Rightarrow> (PDict [(REFERENCE_KEY, PInt (int (length (fst sh))))],
                           (fst sh @ [s], (s, length (fst sh)) # snd sh)))
          else (v, sh)
      | _ \<Rightarrow> (v, sh))"

fun share_row :: "row \<Rightarrow> shared \<Rightarrow> row \<times> shared" where
  "share_row [] sh = ([], sh)"
| "share_row ((field, v) # rest) sh =
     (let (v', sh') = share_value v sh; (rest', sh'') = share_row rest sh'
      in ((field, v') # rest', sh''))"

fun share_rows :: "row list \<Rightarrow> shared \<Rightarrow> row list \<times> shared" where
  "share_rows [] sh = ([], sh)"
| "share_rows (r # rs) sh =
     (let (r', sh') = share_row r sh; (rs', sh'') = share_rows rs sh' in (r' # rs', sh''))"

definition share_large_strings :: "row list \<Rightarrow> row list \<times> string list" where
  "share_large_strings rows =
     (case share_rows rows ([], []) of (encoded, strings, _) \<Rightarrow>
        if strings \<noteq> [] then (encoded, strings) else (rows, []))"

text \<open>\<open>None\<close> is the \<^verbatim>\<open>ValueError\<close> of an invalid reference or of invalid shared strings.\<close>

definition restore_value :: "string list \<Rightarrow> pyval \<Rightarrow> pyval option" where
  "restore_value strings v =
     (case v of
        PDict d \<Rightarrow>
          (case map_of d REFERENCE_KEY of
             None \<Rightarrow> Some v
           | Some ref \<Rightarrow>
               if set (map fst d) \<noteq> {REFERENCE_KEY} then None
               else (case ref of
                   PInt i \<Rightarrow> if 0 \<le> i \<and> i < int (length strings) then Some (PStr (strings ! nat i)) else None
                 | _ \<Rightarrow> None))
      | _ \<Rightarrow> Some v)"

fun map_option_list :: "('a \<Rightarrow> 'b option) \<Rightarrow> 'a list \<Rightarrow> 'b list option" where
  "map_option_list f [] = Some []"
| "map_option_list f (x # xs) =
     (case f x of None \<Rightarrow> None | Some y \<Rightarrow> map_option ((#) y) (map_option_list f xs))"

definition restore_row :: "string list \<Rightarrow> row \<Rightarrow> row option" where
  "restore_row strings r = map_option_list (\<lambda>(f, v). map_option (Pair f) (restore_value strings v)) r"

definition restore_shared_strings :: "row list \<Rightarrow> string list option \<Rightarrow> row list option" where
  "restore_shared_strings rows strings =
     (case strings of None \<Rightarrow> None | Some ss \<Rightarrow> map_option_list (restore_row ss) rows)"

subsection \<open>The size guard\<close>

definition MAX_ALERT_SPOOL_STRING_BYTES :: int where
  "MAX_ALERT_SPOOL_STRING_BYTES = 128 * 1024 * 1024"

definition row_string_bytes :: "row \<Rightarrow> int" where
  "row_string_bytes r = 4 * sum_list (map (\<lambda>(_, v). case v of PStr s \<Rightarrow> int (length s) | _ \<Rightarrow> 0) r)"

fun alert_size_ok :: "int \<Rightarrow> row list \<Rightarrow> bool" where
  "alert_size_ok acc [] = True"
| "alert_size_ok acc (r # rs) =
     (let t = acc + row_string_bytes r
      in if t > MAX_ALERT_SPOOL_STRING_BYTES then False else alert_size_ok t rs)"

definition check_alert_spool_size :: "row list \<Rightarrow> bool" where
  "check_alert_spool_size rows = alert_size_ok 0 rows"

subsection \<open>Columns of the Parquet writer\<close>

text \<open>
  \<^verbatim>\<open>rows_to_table\<close>: one list of values per column of the schema. With \<^verbatim>\<open>dictionary_strings\<close> a
  string column is stored as its distinct values and the index of each value among them.
\<close>

datatype column = Plain "pyval list" | Dictionary "pyval list" "nat option list"

fun dictionary_encode ::
  "pyval list \<Rightarrow> (pyval \<times> nat) list \<Rightarrow> pyval list \<Rightarrow> pyval list \<times> nat option list" where
  "dictionary_encode dict seen [] = (dict, [])"
| "dictionary_encode dict seen (v # vs) =
     (if v = PNone then (case dictionary_encode dict seen vs of (d, is) \<Rightarrow> (d, None # is))
      else case map_of seen v of
          Some i \<Rightarrow> (case dictionary_encode dict seen vs of (d, is) \<Rightarrow> (d, Some i # is))
        | None \<Rightarrow>
            (case dictionary_encode (dict @ [v]) ((v, length dict) # seen) vs of
               (d, is) \<Rightarrow> (d, Some (length dict) # is)))"

definition rows_to_table :: "feed \<Rightarrow> row list \<Rightarrow> bool \<Rightarrow> (string \<times> column) list" where
  "rows_to_table f rows dictionary_strings =
     map (\<lambda>(name, ty).
       let values = map (\<lambda>r. row_get r name) rows
       in (name, if dictionary_strings \<and> ty = StringType
                 then (case dictionary_encode [] [] values of (d, is) \<Rightarrow> Dictionary d is)
                 else Plain values)) (parquet_schema f)"

text \<open>What a Parquet reader gives back for a column, and for the record batches of a file.\<close>

fun column_values :: "column \<Rightarrow> pyval list" where
  "column_values (Plain vs) = vs"
| "column_values (Dictionary d is) = map (\<lambda>i. case i of None \<Rightarrow> PNone | Some j \<Rightarrow> d ! j) is"

definition PARQUET_WRITE_BATCH_ROWS :: nat where
  "PARQUET_WRITE_BATCH_ROWS = 4096"

function batches :: "nat \<Rightarrow> 'a list \<Rightarrow> 'a list list" where
  "batches n xs = (if xs = [] \<or> n = 0 then [] else take n xs # batches n (drop n xs))"
  by pat_completeness auto
termination
  by (relation "measure (\<lambda>(n, xs). length xs)") auto

declare batches.simps [simp del]

definition parquet_batches :: "feed \<Rightarrow> row list \<Rightarrow> (string \<times> column) list list" where
  "parquet_batches f rows =
     map (\<lambda>b. rows_to_table f b (f = Alerts)) (batches PARQUET_WRITE_BATCH_ROWS rows)"

subsection \<open>Lemmas\<close>

definition shared_ok :: "shared \<Rightarrow> bool" where
  "shared_ok sh \<longleftrightarrow> (\<forall>s i. map_of (snd sh) s = Some i \<longrightarrow> i < length (fst sh) \<and> fst sh ! i = s)"

definition plain_value :: "pyval \<Rightarrow> bool" where
  "plain_value v = (case v of PDict d \<Rightarrow> map_of d REFERENCE_KEY = None | _ \<Rightarrow> True)"

definition plain_rows :: "row list \<Rightarrow> bool" where
  "plain_rows rows \<longleftrightarrow> list_all (list_all (\<lambda>(_, v). plain_value v)) rows"

lemma share_value_ok:
  assumes "shared_ok sh" and "plain_value v" and "share_value v sh = (v', sh')"
  shows "shared_ok sh' \<and> prefix (fst sh) (fst sh') \<and> (\<forall>ext. restore_value (fst sh' @ ext) v' = Some v)"
proof (cases "is_large v")
  case False
  with assms show ?thesis
    by (cases v) (auto simp: share_value_def is_large_def restore_value_def plain_value_def split: option.splits)
next
  case True
  then obtain s where v: "v = PStr s" "SHARED_STRING_MIN_CHARS \<le> length s"
    by (auto simp: is_large_def split: pyval.splits)
  show ?thesis
  proof (cases "map_of (snd sh) s")
    case None
    with assms(3) v have "v' = PDict [(REFERENCE_KEY, PInt (int (length (fst sh))))]"
      "sh' = (fst sh @ [s], (s, length (fst sh)) # snd sh)" by (auto simp: share_value_def)
    with assms(1) v(1) show ?thesis
      by (auto simp: shared_ok_def restore_value_def nth_append less_Suc_eq)
  next
    case (Some i)
    with assms(1) have "i < length (fst sh)" "fst sh ! i = s" by (auto simp: shared_ok_def)
    moreover from Some assms(3) v have "v' = PDict [(REFERENCE_KEY, PInt (int i))]" "sh' = sh"
      by (auto simp: share_value_def)
    ultimately show ?thesis using assms(1) v(1) by (simp add: restore_value_def nth_append)
  qed
qed

lemma share_row_ok:
  "shared_ok sh \<Longrightarrow> list_all (\<lambda>(_, v). plain_value v) r \<Longrightarrow> share_row r sh = (r', sh') \<Longrightarrow>
     shared_ok sh' \<and> prefix (fst sh) (fst sh') \<and> (\<forall>ext. restore_row (fst sh' @ ext) r' = Some r)"
proof (induction r arbitrary: sh r' sh')
  case (Cons p r)
  obtain f v where p: "p = (f, v)" by (cases p)
  obtain v' sh1 where v': "share_value v sh = (v', sh1)" by (cases "share_value v sh")
  obtain r1 sh2 where r1: "share_row r sh1 = (r1, sh2)" by (cases "share_row r sh1")
  from Cons.prems p v' r1 have eq: "r' = (f, v') # r1" "sh' = sh2" by auto
  from Cons.prems p have pl: "plain_value v" "list_all (\<lambda>(_, v). plain_value v) r" by auto
  from share_value_ok [OF Cons.prems(1) pl(1) v'] have one: "shared_ok sh1" "prefix (fst sh) (fst sh1)"
    "\<And>ext. restore_value (fst sh1 @ ext) v' = Some v" by auto
  from Cons.IH [OF one(1) pl(2) r1] eq have two: "shared_ok sh'" "prefix (fst sh1) (fst sh')"
    "\<And>ext. restore_row (fst sh' @ ext) r1 = Some r" by auto
  from two(2) obtain zs where "fst sh' = fst sh1 @ zs" by (auto elim: prefixE)
  with one two eq p show ?case by (auto simp: restore_row_def intro: prefix_order.trans)
qed (auto simp: restore_row_def)

lemma share_rows_ok:
  "shared_ok sh \<Longrightarrow> plain_rows rs \<Longrightarrow> share_rows rs sh = (rs', sh') \<Longrightarrow>
     shared_ok sh' \<and> prefix (fst sh) (fst sh') \<and>
     (\<forall>ext. map_option_list (restore_row (fst sh' @ ext)) rs' = Some rs)"
proof (induction rs arbitrary: sh rs' sh')
  case (Cons r rs)
  obtain r' sh1 where r': "share_row r sh = (r', sh1)" by (cases "share_row r sh")
  obtain rs1 sh2 where rs1: "share_rows rs sh1 = (rs1, sh2)" by (cases "share_rows rs sh1")
  from Cons.prems r' rs1 have eq: "rs' = r' # rs1" "sh' = sh2" by auto
  from Cons.prems have pl: "list_all (\<lambda>(_, v). plain_value v) r" "plain_rows rs" by (auto simp: plain_rows_def)
  from share_row_ok [OF Cons.prems(1) pl(1) r'] have one: "shared_ok sh1" "prefix (fst sh) (fst sh1)"
    "\<And>ext. restore_row (fst sh1 @ ext) r' = Some r" by auto
  from Cons.IH [OF one(1) pl(2) rs1] eq have two: "shared_ok sh'" "prefix (fst sh1) (fst sh')"
    "\<And>ext. map_option_list (restore_row (fst sh' @ ext)) rs1 = Some rs" by auto
  from two(2) obtain zs where "fst sh' = fst sh1 @ zs" by (auto elim: prefixE)
  with one two eq show ?case by (auto intro: prefix_order.trans)
qed auto


definition dict_ok :: "pyval list \<Rightarrow> (pyval \<times> nat) list \<Rightarrow> bool" where
  "dict_ok dict seen \<longleftrightarrow> (\<forall>v i. map_of seen v = Some i \<longrightarrow> i < length dict \<and> dict ! i = v) \<and>
     set dict \<subseteq> fst ` set seen \<and> distinct dict"

lemma dict_ok_add:
  assumes "dict_ok dict seen" and "map_of seen v = None"
  shows "dict_ok (dict @ [v]) ((v, length dict) # seen)"
proof -
  have "v \<notin> set dict" using assms by (auto simp: dict_ok_def map_of_eq_None_iff)
  with assms show ?thesis by (auto simp: dict_ok_def nth_append less_Suc_eq)
qed

lemma dictionary_encode_ok:
  "dict_ok dict seen \<Longrightarrow> dictionary_encode dict seen vs = (d, ixs) \<Longrightarrow>
     prefix dict d \<and> distinct d \<and> column_values (Dictionary d ixs) = vs"
proof (induction vs arbitrary: dict seen d ixs)
  case (Cons v vs)
  consider "v = PNone" | i where "v \<noteq> PNone" "map_of seen v = Some i" | "v \<noteq> PNone" "map_of seen v = None"
    by (cases "map_of seen v") auto
  then show ?case
  proof cases
    case 1
    obtain ixs' where rec: "dictionary_encode dict seen vs = (d, ixs')" "ixs = None # ixs'"
      using Cons.prems(2) 1 by (auto split: prod.splits)
    from Cons.IH [OF Cons.prems(1) rec(1)] rec(2) 1 show ?thesis by simp
  next
    case (2 i)
    obtain ixs' where rec: "dictionary_encode dict seen vs = (d, ixs')" "ixs = Some i # ixs'"
      using Cons.prems(2) 2 by (auto split: prod.splits)
    from Cons.prems(1) 2(2) have i: "i < length dict" "dict ! i = v" by (auto simp: dict_ok_def)
    from Cons.IH [OF Cons.prems(1) rec(1)] obtain zs where "d = dict @ zs" by (auto elim: prefixE)
    with Cons.IH [OF Cons.prems(1) rec(1)] rec(2) i show ?thesis by (simp add: nth_append)
  next
    case 3
    obtain ixs' where rec: "dictionary_encode (dict @ [v]) ((v, length dict) # seen) vs = (d, ixs')"
        "ixs = Some (length dict) # ixs'"
      using Cons.prems(2) 3 by (auto split: prod.splits)
    note IH = Cons.IH [OF dict_ok_add [OF Cons.prems(1) 3(2)] rec(1)]
    then obtain zs where "d = dict @ v # zs" by (auto elim: prefixE)
    with IH rec(2) show ?thesis by (auto simp: nth_append)
  qed
qed (auto simp: dict_ok_def)

lemma concat_batches: "0 < n \<Longrightarrow> concat (batches n xs) = xs"
proof (induction n xs rule: batches.induct)
  case (1 n xs)
  then show ?case by (subst batches.simps) auto
qed

lemma batches_bound: "b \<in> set (batches n xs) \<Longrightarrow> b \<noteq> [] \<and> length b \<le> n"
proof (induction n xs rule: batches.induct)
  case (1 n xs)
  from "1.prems" have "xs \<noteq> [] \<and> n \<noteq> 0 \<and> (b = take n xs \<or> b \<in> set (batches n (drop n xs)))"
    by (simp add: batches.simps [of n xs] split: if_splits)
  with "1.IH" show ?case by auto
qed

lemma column_of_rows:
  assumes "name \<in> set (PARQUET_COLUMNS f)"
  shows "map_option column_values (map_of (rows_to_table f rows dict) name) = Some (map (\<lambda>r. row_get r name) rows)"
proof -
  let ?col = "\<lambda>name. let values = map (\<lambda>r. row_get r name) rows
    in if dict \<and> column_type name = StringType
       then (case dictionary_encode [] [] values of (d, ixs) \<Rightarrow> Dictionary d ixs) else Plain values"
  have "rows_to_table f rows dict = map (\<lambda>name. (name, ?col name)) (PARQUET_COLUMNS f)"
    by (simp add: rows_to_table_def parquet_schema_def comp_def Let_def)
  then have "map_of (rows_to_table f rows dict) name = Some (?col name)"
    using assms by (simp add: map_of_map_restrict)
  moreover have "column_values (?col name) = map (\<lambda>r. row_get r name) rows"
    using dictionary_encode_ok [of "[]" "[]"] by (auto simp: Let_def dict_ok_def split: prod.split)
  ultimately show ?thesis by simp
qed

lemma parquet_batches_column:
  assumes "name \<in> set (PARQUET_COLUMNS f)"
  shows "concat (map (\<lambda>t. column_values (the (map_of t name))) (parquet_batches f rows)) =
    map (\<lambda>r. row_get r name) rows"
proof -
  have "column_values (the (map_of (rows_to_table f b dict) name)) = map (\<lambda>r. row_get r name) b" for b dict
    using column_of_rows [OF assms, of b dict] by (auto simp del: column_values.simps)
  then have "concat (map (\<lambda>t. column_values (the (map_of t name))) (parquet_batches f rows)) =
      map (\<lambda>r. row_get r name) (concat (batches PARQUET_WRITE_BATCH_ROWS rows))"
    by (simp add: parquet_batches_def comp_def map_concat)
  then show ?thesis by (simp add: concat_batches PARQUET_WRITE_BATCH_ROWS_def)
qed

lemma shared_roundtrip:
  assumes "plain_rows rows" and "share_large_strings rows = (encoded, strings)"
  shows "if strings = [] then encoded = rows else restore_shared_strings encoded (Some strings) = Some rows"
proof -
  obtain enc sh where sh: "share_rows rows ([], []) = (enc, sh)" by (cases "share_rows rows ([], [])")
  have "shared_ok ([], [])" by (simp add: shared_ok_def)
  from share_rows_ok [OF this assms(1) sh] have "map_option_list (restore_row (fst sh @ [])) enc = Some rows"
    by blast
  with assms(2) sh show ?thesis
    by (cases sh) (auto simp: share_large_strings_def restore_shared_strings_def split: if_splits)
qed

subsection \<open>Properties\<close>

text \<open>
  Claim C36. Sharing large strings loses nothing. What \<^verbatim>\<open>share_large_strings\<close> returns is restored to
  the original rows, provided that no value is a dictionary with the reserved reference key.
\<close>

theorem shared_strings_roundtrip:
  assumes "plain_rows rows" and "share_large_strings rows = (encoded, strings)"
  shows "if strings = [] then encoded = rows else restore_shared_strings encoded (Some strings) = Some rows"
  using shared_roundtrip [OF assms] .

lemma shared_strings_roundtrip_witness:
  "restore_shared_strings [[(''a'', PDict [(REFERENCE_KEY, PInt 0)]), (''b'', PDict [(REFERENCE_KEY, PInt 0)])]]
     (Some [replicate 4096 CHR ''x'']) =
   Some [[(''a'', PStr (replicate 4096 CHR ''x'')), (''b'', PStr (replicate 4096 CHR ''x''))]]"
proof -
  let ?s = "replicate 4096 CHR ''x''"
  let ?rows = "[[(''a'', PStr ?s), (''b'', PStr ?s)]]"
  have "share_large_strings ?rows = ([[(''a'', PDict [(REFERENCE_KEY, PInt 0)]), (''b'', PDict [(REFERENCE_KEY, PInt 0)])]], [?s])"
    by (simp add: share_large_strings_def share_value_def SHARED_STRING_MIN_CHARS_def Let_def)
  moreover have "plain_rows ?rows" by (simp add: plain_rows_def plain_value_def)
  ultimately show ?thesis using shared_strings_roundtrip [of ?rows] by (auto split: if_splits)
qed

text \<open>
  The Parquet writer keeps every value. For each column of a feed's schema, the record
  batches that are written, dictionary-encoded for alerts, read back as the values of that field of all
  rows, in order.
\<close>

theorem parquet_columns_roundtrip:
  "list_all (\<lambda>name. concat (map (\<lambda>t. column_values (the (map_of t name))) (parquet_batches f rows)) =
     map (\<lambda>r. row_get r name) rows) (PARQUET_COLUMNS f)"
  using parquet_batches_column by (auto simp: list_all_iff)

end
