(* ===== verification/Spool.thy ===== *)
theory Spool
  imports Spool_Codec Interfaces "HOL-Library.AList" "HOL-Library.Multiset"
begin

section \<open>The durable spool and its Parquet commits (bkk_collector/storage/parquet\_store.py)\<close>

text \<open>
  Polls are staged as small immutable segment files and later committed in batches to Parquet files. A
  commit writes a marker that names its sources and its output, writes the output, checks its row
  count, and only then deletes the sources and the marker; \<^verbatim>\<open>_recover_commits\<close> finishes or
  discards what an interruption left.

  A key is a feed name with a date: one directory of segments and markers, one of Parquet files. A
  segment or Parquet file that cannot be read is \<open>None\<close>; a marker is its JSON object (\<open>[]\<close>, the default
  of \<^verbatim>\<open>read_json\<close>, when it cannot be read). The file operations of a commit are listed in order and
  executed up to a budget, at which one raises or the process dies. \<open>digest\<close>, the first 20 hexadecimal
  digits of SHA-256, and the fresh \<^verbatim>\<open>uuid\<close>s are parameters.
\<close>

subsection \<open>State\<close>

type_synonym key = "string \<times> string"

record segment =
  sg_version :: int
  sg_feed :: string
  sg_date :: string
  sg_poll_id :: string
  sg_rows :: "row list"
  sg_shared :: "string list option"

record spool_dir =
  d_segments :: "(string \<times> segment option) list"
  d_markers :: "(string \<times> row) list"
  d_parquet :: "(string \<times> row list option) list"

definition empty_dir :: spool_dir where
  "empty_dir = \<lparr>d_segments = [], d_markers = [], d_parquet = []\<rparr>"

datatype spool_error =
    UnknownFeed string
  | AlertExpansion
  | CorruptSegment
  | InvalidMarker
  | UnreadableParquet
  | MissingSources
  | SpoolOsError

subsection \<open>Staging and reading\<close>

definition alnum :: "char \<Rightarrow> bool" where
  "alnum c \<longleftrightarrow> (CHR ''a'' \<le> c \<and> c \<le> CHR ''z'') \<or> (CHR ''A'' \<le> c \<and> c \<le> CHR ''Z'') \<or> (CHR ''0'' \<le> c \<and> c \<le> CHR ''9'')"

definition segment_name :: "string \<Rightarrow> string \<Rightarrow> string" where
  "segment_name poll_id uuid =
     ''batch-'' @ [c \<leftarrow> poll_id. alnum c \<or> c \<in> set ''-_''] @ ''-'' @ uuid @ ''.json.gz''"

definition build_segment :: "key \<Rightarrow> string \<Rightarrow> row list \<Rightarrow> spool_error + segment" where
  "build_segment key poll_id rows =
     (let (stored, strings) = (if fst key = ''alerts'' then share_large_strings rows else (rows, []))
      in if fst key = ''alerts'' \<and>
            \<not> (check_alert_spool_size stored \<and>
               check_alert_spool_size (map (\<lambda>s. [(''value'', PStr s)]) strings))
         then Inl AlertExpansion
         else Inr \<lparr>sg_version = (if strings \<noteq> [] then 2 else 1), sg_feed = fst key, sg_date = snd key,
                   sg_poll_id = poll_id, sg_rows = stored,
                   sg_shared = (if strings \<noteq> [] then Some strings else None)\<rparr>)"

text \<open>
  \<^verbatim>\<open>atomic_write_bytes\<close> replaces the file and then syncs the directory: it can raise before or after
  the file is in place.
\<close>

datatype write_outcome = Written | NotWritten | WrittenThenRaised

definition stage ::
  "write_outcome \<Rightarrow> string \<Rightarrow> key \<Rightarrow> string \<Rightarrow> row list \<Rightarrow> (key \<Rightarrow> spool_dir) \<Rightarrow>
   (spool_error + string option) \<times> (key \<Rightarrow> spool_dir)" where
  "stage outcome uuid key poll_id rows sp =
     (if rows = [] then (Inr None, sp)
      else if fst key \<notin> set (map feed_name FEED_NAMES) then (Inl (UnknownFeed (fst key)), sp)
      else case build_segment key poll_id rows of
          Inl e \<Rightarrow> (Inl e, sp)
        | Inr seg \<Rightarrow>
            let name = segment_name poll_id uuid;
                sp' = sp(key := (sp key)\<lparr>d_segments := AList.update name (Some seg) (d_segments (sp key))\<rparr>)
            in case outcome of
                Written \<Rightarrow> (Inr (Some name), sp')
              | NotWritten \<Rightarrow> (Inl SpoolOsError, sp)
              | WrittenThenRaised \<Rightarrow> (Inl SpoolOsError, sp'))"

definition read_segment :: "segment option \<Rightarrow> row list option" where
  "read_segment s =
     (case s of
        None \<Rightarrow> None
      | Some seg \<Rightarrow>
          if sg_version seg \<notin> {1, 2} then None
          else if sg_version seg = 2 then restore_shared_strings (sg_rows seg) (sg_shared seg)
          else Some (sg_rows seg))"

subsection \<open>File operations\<close>

datatype spool_op =
    WriteMarker string row
  | WriteParquet string "row list"
  | CheckRows string int
  | UnlinkSegment string
  | UnlinkSegmentIfExists string
  | UnlinkMarker string

text \<open>\<^verbatim>\<open>output.exists() and parquet_row_count(output) == expected\<close>; \<open>None\<close> when the count raises.\<close>

definition row_count_is :: "spool_dir \<Rightarrow> string \<Rightarrow> int \<Rightarrow> bool option" where
  "row_count_is d out expected =
     (case map_of (d_parquet d) out of
        None \<Rightarrow> Some False
      | Some None \<Rightarrow> None
      | Some (Some rows) \<Rightarrow> Some (int (length rows) = expected))"

definition exec_spool_op :: "spool_dir \<Rightarrow> spool_op \<Rightarrow> spool_dir option" where
  "exec_spool_op d op =
     (case op of
        WriteMarker n m \<Rightarrow> Some (d\<lparr>d_markers := AList.update n m (d_markers d)\<rparr>)
      | WriteParquet n rows \<Rightarrow> Some (d\<lparr>d_parquet := AList.update n (Some rows) (d_parquet d)\<rparr>)
      | CheckRows n expected \<Rightarrow>
          if row_count_is d n expected = Some True \<and> map_of (d_parquet d) n \<noteq> None then Some d else None
      | UnlinkSegment n \<Rightarrow>
          if map_of (d_segments d) n = None then None
          else Some (d\<lparr>d_segments := AList.delete n (d_segments d)\<rparr>)
      | UnlinkSegmentIfExists n \<Rightarrow> Some (d\<lparr>d_segments := AList.delete n (d_segments d)\<rparr>)
      | UnlinkMarker n \<Rightarrow>
          if map_of (d_markers d) n = None then None
          else Some (d\<lparr>d_markers := AList.delete n (d_markers d)\<rparr>))"

fun run_spool_ops :: "nat \<Rightarrow> spool_op list \<Rightarrow> spool_dir \<Rightarrow> bool \<times> spool_dir" where
  "run_spool_ops budget [] d = (True, d)"
| "run_spool_ops budget (op # ops) d =
     (if budget = 0 then (False, d)
      else case exec_spool_op d op of
          None \<Rightarrow> (False, d)
        | Some d' \<Rightarrow> run_spool_ops (budget - 1) ops d')"

subsection \<open>Committing a batch\<close>

definition MAX_SEGMENTS_PER_COMMIT :: nat where
  "MAX_SEGMENTS_PER_COMMIT = 20"

fun join_lines :: "string list \<Rightarrow> string" where
  "join_lines [] = []"
| "join_lines [x] = x"
| "join_lines (x # xs) = x @ CHR 0x0A # join_lines xs"

text \<open>\<^verbatim>\<open>Path.stem\<close> drops the last suffix: characters 6 to 22 of it start the output's name.\<close>

definition output_name :: "(string \<Rightarrow> string) \<Rightarrow> string list \<Rightarrow> string" where
  "output_name digest names =
     ''part-'' @ take 16 (drop 6 (butlast (butlast (butlast (hd names))))) @ ''-'' @
     digest (join_lines names) @ ''.parquet''"

definition marker_name :: "(string \<Rightarrow> string) \<Rightarrow> string list \<Rightarrow> string" where
  "marker_name digest names = ''commit-'' @ digest (join_lines names) @ ''.json''"

definition marker_of :: "(string \<Rightarrow> string) \<Rightarrow> key \<Rightarrow> string list \<Rightarrow> int \<Rightarrow> row" where
  "marker_of digest key names expected =
     [(''version'', PInt 1), (''feed'', PStr (fst key)), (''date'', PStr (snd key)),
      (''sources'', PList (map PStr names)), (''output'', PStr (output_name digest names)),
      (''expected_rows'', PInt expected)]"

definition segment_rows :: "spool_dir \<Rightarrow> string \<Rightarrow> row list option" where
  "segment_rows d name = (case map_of (d_segments d) name of None \<Rightarrow> None | Some s \<Rightarrow> read_segment s)"

definition commit_plan :: "(string \<Rightarrow> string) \<Rightarrow> key \<Rightarrow> string list \<Rightarrow> spool_dir \<Rightarrow> spool_error + spool_op list \<times> int" where
  "commit_plan digest key names d =
     (case map_option_list (segment_rows d) names of
        None \<Rightarrow> Inl CorruptSegment
      | Some rowss \<Rightarrow>
          let rows = concat rowss; expected = int (length rows);
              out = output_name digest names; marker = marker_name digest names
          in Inr ([WriteMarker marker (marker_of digest key names expected)] @
                  (case row_count_is d out expected of
                     Some False \<Rightarrow> [WriteParquet out rows]
                   | _ \<Rightarrow> []) @
                  [CheckRows out expected] @ map UnlinkSegment names @ [UnlinkMarker marker], expected))"

subsection \<open>Recovery\<close>

text \<open>\<^verbatim>\<open>Path(name).name == name\<close> on a POSIX path.\<close>

definition plain_name :: "string \<Rightarrow> bool" where
  "plain_name s \<longleftrightarrow> CHR ''/'' \<notin> set s \<and> s \<noteq> ''.''"

definition marker_fields :: "string \<Rightarrow> row \<Rightarrow> (string list \<times> string \<times> int) option" where
  "marker_fields feed m =
     (case (row_get m ''sources'', row_get m ''output'', row_get m ''expected_rows'') of
        (PList sources, PStr out, PInt expected) \<Rightarrow>
          (case map_option_list (\<lambda>v. case v of PStr s \<Rightarrow> Some s | _ \<Rightarrow> None) sources of
             None \<Rightarrow> None
           | Some names \<Rightarrow>
               if row_get m ''version'' = PInt 1 \<and> feed \<in> set (map feed_name FEED_NAMES) \<and> names \<noteq> [] \<and>
                  list_all plain_name names \<and> plain_name out \<and> 0 \<le> expected
               then Some (names, out, expected) else None)
      | _ \<Rightarrow> None)"

definition recover_plan :: "key \<Rightarrow> string \<Rightarrow> spool_dir \<Rightarrow> spool_error + spool_op list" where
  "recover_plan key name d =
     (case marker_fields (fst key) (case map_of (d_markers d) name of None \<Rightarrow> [] | Some m \<Rightarrow> m) of
        None \<Rightarrow> Inl InvalidMarker
      | Some (sources, out, expected) \<Rightarrow>
          (case row_count_is d out expected of
             None \<Rightarrow> Inl UnreadableParquet
           | Some True \<Rightarrow> Inr (map UnlinkSegmentIfExists sources @ [UnlinkMarker name])
           | Some False \<Rightarrow>
               if list_all (\<lambda>s. map_of (d_segments d) s \<noteq> None) sources then Inr [UnlinkMarker name]
               else Inl MissingSources))"

subsection \<open>Flush\<close>

record flush_result =
  fr_files :: "(key \<times> string) list"
  fr_rows :: int
  fr_errors :: "(key \<times> spool_error) list"

definition no_result :: flush_result where
  "no_result = \<lparr>fr_files = [], fr_rows = 0, fr_errors = []\<rparr>"

definition add_error :: "key \<Rightarrow> spool_error \<Rightarrow> flush_result \<Rightarrow> flush_result" where
  "add_error key e r = r\<lparr>fr_errors := fr_errors r @ [(key, e)]\<rparr>"

text \<open>
  Each marker and each batch takes the next budget from a list; at the end of the list the process dies.
  \<open>None\<close> in the list of the batches is \<^verbatim>\<open>should_stop()\<close> answering yes.
\<close>

fun recover_commits ::
  "(key \<times> string) list \<Rightarrow> nat list \<Rightarrow> (key \<Rightarrow> spool_dir) \<Rightarrow> key set \<Rightarrow> flush_result \<Rightarrow>
   bool \<times> (key \<Rightarrow> spool_dir) \<times> key set \<times> flush_result" where
  "recover_commits [] ios sp blocked res = (True, sp, blocked, res)"
| "recover_commits (_ # _) [] sp blocked res = (False, sp, blocked, res)"
| "recover_commits ((key, name) # ms) (io # ios) sp blocked res =
     (case recover_plan key name (sp key) of
        Inl e \<Rightarrow> recover_commits ms ios sp (insert key blocked) (add_error key e res)
      | Inr ops \<Rightarrow>
          (case run_spool_ops io ops (sp key) of
             (True, d) \<Rightarrow> recover_commits ms ios (sp(key := d)) blocked res
           | (False, d) \<Rightarrow>
               recover_commits ms ios (sp(key := d)) (insert key blocked) (add_error key SpoolOsError res)))"

fun commit_batches ::
  "(string \<Rightarrow> string) \<Rightarrow> key \<Rightarrow> string list list \<Rightarrow> nat option list \<Rightarrow> (key \<Rightarrow> spool_dir) \<Rightarrow> flush_result \<Rightarrow>
   bool \<times> nat option list \<times> (key \<Rightarrow> spool_dir) \<times> flush_result" where
  "commit_batches digest key [] ios sp res = (True, ios, sp, res)"
| "commit_batches digest key (_ # _) [] sp res = (False, [], sp, res)"
| "commit_batches digest key (_ # _) (None # ios) sp res = (False, ios, sp, res)"
| "commit_batches digest key (names # bs) (Some io # ios) sp res =
     (case commit_plan digest key names (sp key) of
        Inl e \<Rightarrow> (True, ios, sp, add_error key e res)
      | Inr (ops, expected) \<Rightarrow>
          (case run_spool_ops io ops (sp key) of
             (True, d) \<Rightarrow>
               commit_batches digest key bs ios (sp(key := d))
                 (res\<lparr>fr_files := fr_files res @ [(key, output_name digest names)],
                     fr_rows := fr_rows res + expected\<rparr>)
           | (False, d) \<Rightarrow> (True, ios, sp(key := d), add_error key SpoolOsError res)))"

fun commit_groups ::
  "(string \<Rightarrow> string) \<Rightarrow> (key \<times> string list) list \<Rightarrow> key set \<Rightarrow> nat option list \<Rightarrow> (key \<Rightarrow> spool_dir) \<Rightarrow>
   flush_result \<Rightarrow> bool \<times> (key \<Rightarrow> spool_dir) \<times> flush_result" where
  "commit_groups digest [] blocked ios sp res = (True, sp, res)"
| "commit_groups digest ((key, names) # gs) blocked ios sp res =
     (if key \<in> blocked then commit_groups digest gs blocked ios sp res
      else case commit_batches digest key (batches MAX_SEGMENTS_PER_COMMIT names) ios sp res of
          (True, ios', sp', res') \<Rightarrow> commit_groups digest gs blocked ios' sp' res'
        | (False, ios', sp', res') \<Rightarrow> (False, sp', res'))"

definition pending_markers :: "key list \<Rightarrow> (key \<Rightarrow> spool_dir) \<Rightarrow> (key \<times> string) list" where
  "pending_markers keys sp = concat (map (\<lambda>k. map (Pair k) (sort (map fst (d_markers (sp k))))) (sort keys))"

definition pending_by_feed_date :: "key list \<Rightarrow> (key \<Rightarrow> spool_dir) \<Rightarrow> (key \<times> string list) list" where
  "pending_by_feed_date keys sp =
     [(k, ns) \<leftarrow> map (\<lambda>k. (k, sort (map fst (d_segments (sp k))))) (sort keys). ns \<noteq> []]"

text \<open>
  \<open>now\<close> is \<^verbatim>\<open>time.monotonic()\<close> at the test and \<open>finish\<close> at the end; the second component is the new
  \<^verbatim>\<open>_last_flush\<close>.
\<close>

definition flush ::
  "(string \<Rightarrow> string) \<Rightarrow> seconds \<Rightarrow> bool \<Rightarrow> seconds \<Rightarrow> seconds \<Rightarrow> seconds \<Rightarrow> key list \<Rightarrow> nat list \<Rightarrow>
   nat option list \<Rightarrow> (key \<Rightarrow> spool_dir) \<Rightarrow> (key \<Rightarrow> spool_dir) \<times> seconds \<times> flush_result" where
  "flush digest flush_seconds force now finish last_flush keys recover_ios ios sp =
     (case recover_commits (pending_markers keys sp) recover_ios sp {} no_result of
        (alive, sp1, blocked, res) \<Rightarrow>
          if \<not> alive \<or> (\<not> force \<and> now - last_flush < flush_seconds) then (sp1, last_flush, res)
          else case commit_groups digest (pending_by_feed_date keys sp1) blocked ios sp1 res of
              (completed, sp2, res2) \<Rightarrow>
                (sp2, if completed \<and> fr_errors res2 = [] then finish else last_flush, res2))"

end
