(* ===== verification/Spool_Safety.thy ===== *)
theory Spool_Safety
  imports Spool
begin

section \<open>The spool stores every staged row exactly once\<close>

text \<open>
  The spool as a transition system: polls are staged at any time, also between two file operations of a
  running commit, and the process may die before each of them. The invariant gives the phase of each
  directory: quiet, a marker whose output is still missing, or a marker whose output exists.
\<close>

subsection \<open>The system\<close>

record spool_sys =
  sy_spool :: "key \<Rightarrow> spool_dir"
  sy_plan :: "(key \<times> spool_op list) option"
  sy_staged :: "key \<Rightarrow> (string \<times> row list) list"

definition spool_init :: "spool_sys \<Rightarrow> bool" where
  "spool_init s \<longleftrightarrow> s = \<lparr>sy_spool = (\<lambda>_. empty_dir), sy_plan = None, sy_staged = (\<lambda>_. [])\<rparr>"

text \<open>\<open>sy_staged\<close> lists the polls whose segment file came into existence, also when \<open>stage\<close> raised.\<close>

definition staged_now :: "key \<Rightarrow> string \<Rightarrow> row list \<Rightarrow> (key \<Rightarrow> spool_dir) \<Rightarrow> (key \<Rightarrow> (string \<times> row list) list) \<Rightarrow>
    key \<Rightarrow> (string \<times> row list) list" where
  "staged_now key name rows sp' g =
     (if map_of (d_segments (sp' key)) name = None then g else g(key := g key @ [(name, rows)]))"

inductive spool_step :: "(string \<Rightarrow> string) \<Rightarrow> string set \<Rightarrow> spool_sys \<Rightarrow> spool_sys \<Rightarrow> bool"
  for digest :: "string \<Rightarrow> string" and N :: "string set" where
  step_stage: "segment_name poll_id uuid \<in> N \<Longrightarrow> CHR ''/'' \<notin> set uuid \<Longrightarrow>
     segment_name poll_id uuid \<notin> fst ` set (sy_staged s key) \<Longrightarrow> plain_rows rows \<Longrightarrow>
     stage outcome uuid key poll_id rows (sy_spool s) = (res, sp') \<Longrightarrow>
     spool_step digest N s (s\<lparr>sy_spool := sp',
       sy_staged := staged_now key (segment_name poll_id uuid) rows sp' (sy_staged s)\<rparr>)"
| step_recover: "sy_plan s = None \<Longrightarrow> name \<in> fst ` set (d_markers (sy_spool s key)) \<Longrightarrow>
     recover_plan key name (sy_spool s key) = Inr ops \<Longrightarrow>
     spool_step digest N s (s\<lparr>sy_plan := Some (key, ops)\<rparr>)"
| step_commit: "sy_plan s = None \<Longrightarrow> d_markers (sy_spool s key) = [] \<Longrightarrow> names \<noteq> [] \<Longrightarrow> distinct names \<Longrightarrow>
     set names \<subseteq> fst ` set (d_segments (sy_spool s key)) \<Longrightarrow>
     commit_plan digest key names (sy_spool s key) = Inr (ops, expected) \<Longrightarrow>
     spool_step digest N s (s\<lparr>sy_plan := Some (key, ops)\<rparr>)"
| step_op: "sy_plan s = Some (key, op # ops) \<Longrightarrow> exec_spool_op (sy_spool s key) op = Some d \<Longrightarrow>
     spool_step digest N s (s\<lparr>sy_spool := (sy_spool s)(key := d), sy_plan := Some (key, ops)\<rparr>)"
| step_stop: "spool_step digest N s (s\<lparr>sy_plan := None\<rparr>)"

text \<open>
  What SHA-256 is relied on for: 20 hexadecimal digits, and no collision among the batches of the
  segment names \<open>N\<close> that ever occur.
\<close>

definition digest_ok :: "(string \<Rightarrow> string) \<Rightarrow> string set \<Rightarrow> bool" where
  "digest_ok digest N \<longleftrightarrow> (\<forall>s. length (digest s) = 20 \<and> CHR ''/'' \<notin> set (digest s)) \<and>
     inj_on (\<lambda>b. digest (join_lines b)) {b. b \<noteq> [] \<and> distinct b \<and> set b \<subseteq> N}"

text \<open>
  The rows that are durable in a directory: those of the Parquet files, and those of the segments
  that are not awaiting deletion by a marker whose output has been validated.
\<close>

definition awaiting_deletion :: "string \<Rightarrow> spool_dir \<Rightarrow> string \<Rightarrow> bool" where
  "awaiting_deletion feed d n \<longleftrightarrow> list_ex (\<lambda>(_, m).
     case marker_fields feed m of
       None \<Rightarrow> False
     | Some (sources, out, expected) \<Rightarrow> n \<in> set sources \<and> row_count_is d out expected = Some True) (d_markers d)"

definition parquet_rows :: "spool_dir \<Rightarrow> row list" where
  "parquet_rows d = concat (map (\<lambda>(_, c). case c of None \<Rightarrow> [] | Some rows \<Rightarrow> rows) (d_parquet d))"

definition spooled_rows :: "string \<Rightarrow> spool_dir \<Rightarrow> row list" where
  "spooled_rows feed d = concat (map (\<lambda>(n, s). case read_segment s of None \<Rightarrow> [] | Some rows \<Rightarrow> rows)
     (filter (\<lambda>(n, s). \<not> awaiting_deletion feed d n) (d_segments d)))"

subsection \<open>The invariant\<close>

datatype phase = Quiet | Intent "string list" | Output "string list"

definition rows_of :: "(string \<times> row list) list \<Rightarrow> string list \<Rightarrow> row list" where
  "rows_of g b = concat (map (\<lambda>n. the (map_of g n)) b)"

definition marker_entry :: "(string \<Rightarrow> string) \<Rightarrow> key \<Rightarrow> (string \<times> row list) list \<Rightarrow> string list \<Rightarrow> string \<times> row" where
  "marker_entry digest key g b = (marker_name digest b, marker_of digest key b (int (length (rows_of g b))))"

fun phase_markers :: "(string \<Rightarrow> string) \<Rightarrow> key \<Rightarrow> (string \<times> row list) list \<Rightarrow> phase \<Rightarrow> (string \<times> row) list" where
  "phase_markers digest key g Quiet = []"
| "phase_markers digest key g (Intent b) = [marker_entry digest key g b]"
| "phase_markers digest key g (Output b) = [marker_entry digest key g b]"

definition batch_ok :: "(string \<times> row list) list \<Rightarrow> string list \<Rightarrow> bool" where
  "batch_ok g b \<longleftrightarrow> b \<noteq> [] \<and> distinct b \<and> set b \<subseteq> fst ` set g"

fun phase_ok :: "(string \<times> row list) list \<Rightarrow> string list list \<Rightarrow> string set \<Rightarrow> phase \<Rightarrow> bool" where
  "phase_ok g cs A Quiet \<longleftrightarrow> A = fst ` set g - set (concat cs)"
| "phase_ok g cs A (Intent b) \<longleftrightarrow> A = fst ` set g - set (concat cs) \<and> batch_ok g b \<and> set b \<subseteq> A"
| "phase_ok g cs A (Output b) \<longleftrightarrow> b \<in> set cs \<and> A - set b = fst ` set g - set (concat cs)"

definition dir_ok :: "(string \<Rightarrow> string) \<Rightarrow> string set \<Rightarrow> key \<Rightarrow> (string \<times> row list) list \<Rightarrow> spool_dir \<Rightarrow>
    string list list \<Rightarrow> phase \<Rightarrow> bool" where
  "dir_ok digest N key g d cs ph \<longleftrightarrow>
     distinct (map fst g) \<and> fst ` set g \<subseteq> N \<and> (\<forall>n \<in> fst ` set g. plain_name n) \<and>
     (g \<noteq> [] \<longrightarrow> fst key \<in> set (map feed_name FEED_NAMES)) \<and>
     list_all (batch_ok g) cs \<and> distinct (concat cs) \<and>
     d_parquet d = map (\<lambda>b. (output_name digest b, Some (rows_of g b))) cs \<and>
     d_markers d = phase_markers digest key g ph \<and>
     map fst (d_segments d) = filter (\<lambda>n. n \<in> fst ` set (d_segments d)) (map fst g) \<and>
     (\<forall>(n, s) \<in> set (d_segments d). \<exists>rows. map_of g n = Some rows \<and> read_segment s = Some rows) \<and>
     phase_ok g cs (fst ` set (d_segments d)) ph"

definition commit_tail :: "(string \<Rightarrow> string) \<Rightarrow> (string \<times> row list) list \<Rightarrow> string list \<Rightarrow> spool_op list" where
  "commit_tail digest g b = [CheckRows (output_name digest b) (int (length (rows_of g b)))] @
     map UnlinkSegment b @ [UnlinkMarker (marker_name digest b)]"

inductive plan_ok :: "(string \<Rightarrow> string) \<Rightarrow> key \<Rightarrow> (string \<times> row list) list \<Rightarrow> string list list \<Rightarrow> string set \<Rightarrow>
    phase \<Rightarrow> spool_op list \<Rightarrow> bool"
  for digest :: "string \<Rightarrow> string" and key :: key and g :: "(string \<times> row list) list" and
      cs :: "string list list" and A :: "string set" where
  plan_start: "batch_ok g b \<Longrightarrow> set b \<subseteq> A \<Longrightarrow> plan_ok digest key g cs A Quiet
     (WriteMarker (marker_name digest b) (marker_of digest key b (int (length (rows_of g b)))) #
      WriteParquet (output_name digest b) (rows_of g b) # commit_tail digest g b)"
| plan_write: "plan_ok digest key g cs A (Intent b)
     (WriteParquet (output_name digest b) (rows_of g b) # commit_tail digest g b)"
| plan_check: "set b \<subseteq> A \<Longrightarrow> plan_ok digest key g cs A (Output b) (commit_tail digest g b)"
| plan_unlink: "distinct us \<Longrightarrow> set us = set b \<inter> A \<Longrightarrow>
     plan_ok digest key g cs A (Output b) (map UnlinkSegment us @ [UnlinkMarker (marker_name digest b)])"
| plan_clean: "set b \<inter> A \<subseteq> set us \<Longrightarrow> set us \<subseteq> set b \<Longrightarrow>
     plan_ok digest key g cs A (Output b) (map UnlinkSegmentIfExists us @ [UnlinkMarker (marker_name digest b)])"
| plan_discard: "plan_ok digest key g cs A (Intent b) [UnlinkMarker (marker_name digest b)]"
| plan_end: "plan_ok digest key g cs A Quiet []"

definition spool_inv :: "(string \<Rightarrow> string) \<Rightarrow> string set \<Rightarrow> spool_sys \<Rightarrow> bool" where
  "spool_inv digest N s \<longleftrightarrow> (\<forall>key. \<exists>cs ph. dir_ok digest N key (sy_staged s key) (sy_spool s key) cs ph \<and>
     (\<forall>ops. sy_plan s = Some (key, ops) \<longrightarrow>
        plan_ok digest key (sy_staged s key) cs (fst ` set (d_segments (sy_spool s key))) ph ops))"

subsection \<open>Names\<close>

lemma append_suffix_eq: "xs @ ys = zs @ ts \<Longrightarrow> length ys = length ts \<Longrightarrow> ys = ts"
  by (metis append_eq_append_conv)

lemma digest_inject:
  assumes "digest_ok digest N" and "b \<noteq> []" "distinct b" "set b \<subseteq> N" and "b' \<noteq> []" "distinct b'" "set b' \<subseteq> N"
    and "digest (join_lines b) = digest (join_lines b')"
  shows "b = b'"
  using assms by (auto simp: digest_ok_def inj_on_def)

lemma output_name_inject:
  assumes ok: "digest_ok digest N" and "b \<noteq> []" "distinct b" "set b \<subseteq> N" and "b' \<noteq> []" "distinct b'" "set b' \<subseteq> N"
    and eq: "output_name digest b = output_name digest b'"
  shows "b = b'"
proof -
  have len: "length (digest x) = 20" for x using ok by (simp add: digest_ok_def)
  from eq have "(''part-'' @ take 16 (drop 6 (butlast (butlast (butlast (hd b))))) @ ''-'') @ (digest (join_lines b) @ ''.parquet'') =
    (''part-'' @ take 16 (drop 6 (butlast (butlast (butlast (hd b'))))) @ ''-'') @ (digest (join_lines b') @ ''.parquet'')"
    by (simp add: output_name_def)
  from append_suffix_eq [OF this] have "digest (join_lines b) = digest (join_lines b')" by (simp add: len)
  from digest_inject [OF ok assms(2-7) this] show ?thesis .
qed

lemma set_butlast_subset: "x \<in> set (butlast xs) \<Longrightarrow> x \<in> set xs"
  by (rule in_set_butlastD)

lemma plain_output_name:
  assumes "digest_ok digest N" and "b \<noteq> []" and "\<forall>n \<in> set b. plain_name n"
  shows "plain_name (output_name digest b)"
proof -
  have "CHR ''/'' \<notin> set (hd b)" using assms(2,3) by (auto simp: plain_name_def)
  then have "CHR ''/'' \<notin> set (take 16 (drop 6 (butlast (butlast (butlast (hd b))))))"
    by (auto dest!: in_set_takeD in_set_dropD in_set_butlastD)
  with assms(1) show ?thesis by (auto simp: plain_name_def output_name_def digest_ok_def)
qed

lemma plain_segment_name: "CHR ''/'' \<notin> set uuid \<Longrightarrow> plain_name (segment_name poll_id uuid)"
  by (auto simp: plain_name_def segment_name_def alnum_def less_eq_char_def)

lemma marker_fields_marker_of:
  assumes "feed \<in> set (map feed_name FEED_NAMES)" and "names \<noteq> []" and "\<forall>n \<in> set names. plain_name n"
    and "plain_name (output_name digest names)"
  shows "marker_fields feed (marker_of digest (feed, date) names (int k)) =
    Some (names, output_name digest names, int k)"
proof -
  have "map_option_list (\<lambda>v. case v of PStr s \<Rightarrow> Some s | _ \<Rightarrow> None) (map PStr names) = Some names" for names
    by (induction names) auto
  with assms show ?thesis by (simp add: marker_fields_def marker_of_def row_get_def list_all_iff)
qed

subsection \<open>Staging\<close>

lemma read_staged_segment:
  assumes "plain_rows rows" and "build_segment key poll_id rows = Inr seg"
  shows "read_segment (Some seg) = Some rows"
proof (cases "fst key = ''alerts''")
  case False
  with assms(2) show ?thesis by (auto simp: build_segment_def read_segment_def)
next
  case True
  obtain enc strings where sh: "share_large_strings rows = (enc, strings)" by (cases "share_large_strings rows")
  from shared_roundtrip [OF assms(1) sh] assms(2) sh True show ?thesis
    by (auto simp: build_segment_def read_segment_def split: if_splits)
qed

lemma stage_cases:
  assumes "stage outcome uuid key poll_id rows sp = (res, sp')" and "plain_rows rows"
  obtains "sp' = sp"
  | seg where "rows \<noteq> []" "fst key \<in> set (map feed_name FEED_NAMES)" "read_segment (Some seg) = Some rows"
      "sp' = sp(key := (sp key)\<lparr>d_segments := AList.update (segment_name poll_id uuid) (Some seg) (d_segments (sp key))\<rparr>)"
proof (cases "rows = [] \<or> fst key \<notin> set (map feed_name FEED_NAMES) \<or> isl (build_segment key poll_id rows) \<or> outcome = NotWritten")
  case True
  with assms(1) have "sp' = sp"
    by (auto simp: stage_def Let_def simp del: set_map split: if_splits sum.splits write_outcome.splits)
  then show ?thesis by (rule that(1))
next
  case False
  then obtain seg where seg: "build_segment key poll_id rows = Inr seg" by (cases "build_segment key poll_id rows") auto
  from seg False assms(1) have "sp' = sp(key := (sp key)\<lparr>d_segments := AList.update (segment_name poll_id uuid) (Some seg) (d_segments (sp key))\<rparr>)"
    by (auto simp: stage_def Let_def simp del: set_map split: if_splits sum.splits write_outcome.splits)
  from that(2) [OF _ _ read_staged_segment [OF assms(2) seg] this] False show ?thesis by auto
qed

subsection \<open>Preservation\<close>

lemma dir_okD:
  assumes "dir_ok digest N key g d cs ph"
  shows "distinct (map fst g)" "fst ` set g \<subseteq> N" "\<forall>n \<in> fst ` set g. plain_name n"
    "g \<noteq> [] \<Longrightarrow> fst key \<in> set (map feed_name FEED_NAMES)" "list_all (batch_ok g) cs" "distinct (concat cs)"
    "d_parquet d = map (\<lambda>b. (output_name digest b, Some (rows_of g b))) cs"
    "d_markers d = phase_markers digest key g ph"
    "map fst (d_segments d) = filter (\<lambda>n. n \<in> fst ` set (d_segments d)) (map fst g)"
    "\<And>n s. (n, s) \<in> set (d_segments d) \<Longrightarrow> \<exists>rows. map_of g n = Some rows \<and> read_segment s = Some rows"
    "phase_ok g cs (fst ` set (d_segments d)) ph"
  using assms by (auto simp: dir_ok_def simp del: set_map)

lemma rows_of_append: "set b \<subseteq> fst ` set g \<Longrightarrow> rows_of (g @ h) b = rows_of g b"
  unfolding rows_of_def by (rule arg_cong [where f = concat]) (auto simp: map_add_def map_of_eq_None_iff subset_iff split: option.split)

lemma rows_of_append_batch: "batch_ok g b \<Longrightarrow> rows_of (g @ h) b = rows_of g b"
  by (simp add: batch_ok_def rows_of_append)

lemma segments_subset: "dir_ok digest N key g d cs ph \<Longrightarrow> fst ` set (d_segments d) \<subseteq> fst ` set g"
  by (force dest!: dir_okD(10) dest: map_of_SomeD)

lemma distinct_segments: "dir_ok digest N key g d cs ph \<Longrightarrow> distinct (map fst (d_segments d))"
  using dir_okD(1,9) by (metis distinct_filter)

lemma phase_batch: "dir_ok digest N key g d cs (Intent b) \<Longrightarrow> batch_ok g b"
  "dir_ok digest N key g d cs (Output b) \<Longrightarrow> batch_ok g b"
  by (drule dir_okD(11), simp, frule dir_okD(5), drule dir_okD(11), simp add: list_all_iff)

lemma segment_rows_eq:
  assumes ok: "dir_ok digest N key g d cs ph" and n: "n \<in> fst ` set (d_segments d)"
  shows "segment_rows d n = map_of g n \<and> map_of g n \<noteq> None"
proof -
  from n have "map_of (d_segments d) n \<noteq> None" by (simp add: map_of_eq_None_iff)
  then obtain s where s: "map_of (d_segments d) n = Some s" by auto
  from dir_okD(10) [OF ok map_of_SomeD [OF s]] s show ?thesis by (auto simp: segment_rows_def)
qed

lemma dir_ok_stage:
  assumes ok: "dir_ok digest N key g d cs ph" and new: "name \<notin> fst ` set g" "name \<in> N" "plain_name name"
    and feed: "fst key \<in> set (map feed_name FEED_NAMES)" and seg: "read_segment seg = Some rows"
  shows "dir_ok digest N key (g @ [(name, rows)]) (d\<lparr>d_segments := d_segments d @ [(name, seg)]\<rparr>) cs ph"
proof -
  note D = dir_okD [OF ok]
  have batch: "batch_ok g b \<Longrightarrow> batch_ok (g @ [(name, rows)]) b" for b by (auto simp: batch_ok_def)
  have cs: "\<And>b. b \<in> set cs \<Longrightarrow> batch_ok g b" using D(5) by (simp add: list_all_iff)
  have sub: "set (concat cs) \<subseteq> fst ` set g" using cs by (fastforce simp: batch_ok_def)
  have old: "fst ` set (d_segments d) \<subseteq> fst ` set g" by (rule segments_subset [OF ok])
  have ph: "phase_ok (g @ [(name, rows)]) cs (insert name (fst ` set (d_segments d))) ph"
    using D(11) new(1) sub batch phase_batch [of digest N key g d cs] ok by (cases ph) (auto simp: batch_ok_def)
  have mk: "phase_markers digest key (g @ [(name, rows)]) ph = phase_markers digest key g ph"
    using phase_batch [of digest N key g d cs] ok by (cases ph) (auto simp: marker_entry_def rows_of_append_batch)
  have segs: "filter (\<lambda>n. n = name \<or> n \<in> fst ` set (d_segments d)) (map fst g) = map fst (d_segments d)"
    by (subst D(9)) (rule filter_cong, use new(1) in auto)
  have readable: "\<exists>rows'. map_of (g @ [(name, rows)]) n = Some rows' \<and> read_segment s = Some rows'"
    if "(n, s) \<in> set (d_segments d @ [(name, seg)])" for n s
  proof (cases "(n, s) \<in> set (d_segments d)")
    case True
    with D(10) obtain rows' where "map_of g n = Some rows'" "read_segment s = Some rows'" by blast
    then show ?thesis by (auto simp: map_add_def dest: map_of_SomeD)
  next
    case False
    with that have "n = name" "s = seg" by auto
    moreover have "map_of g name = None" using new(1) by (simp add: map_of_eq_None_iff)
    ultimately show ?thesis using seg by (simp add: map_add_def)
  qed
  have parquet: "d_parquet d = map (\<lambda>b. (output_name digest b, Some (rows_of (g @ [(name, rows)]) b))) cs"
    using D(7) cs by (auto simp: rows_of_append_batch)
  show ?thesis
    unfolding dir_ok_def
  proof (intro conjI)
    show "list_all (batch_ok (g @ [(name, rows)])) cs" using batch cs by (simp add: list_all_iff)
    show "\<forall>(n, s)\<in>set (d_segments (d\<lparr>d_segments := d_segments d @ [(name, seg)]\<rparr>)).
        \<exists>rowsa. map_of (g @ [(name, rows)]) n = Some rowsa \<and> read_segment s = Some rowsa"
      using readable by auto
  qed (use D(1-3,6,8) new feed ph mk segs parquet in simp_all)
qed

lemma plan_ok_stage:
  assumes "plan_ok digest key g cs A ph ops" and "dir_ok digest N key g d cs ph" and "name \<notin> fst ` set g"
  shows "plan_ok digest key (g @ [(name, rows)]) cs (insert name A) ph ops"
  using assms
proof (induction rule: plan_ok.induct)
  case (plan_start b)
  then have "batch_ok (g @ [(name, rows)]) b" "set b \<subseteq> insert name A" by (auto simp: batch_ok_def)
  from plan_ok.plan_start [OF this] plan_start.hyps(1) show ?case
    by (simp add: commit_tail_def rows_of_append_batch)
next
  case (plan_write b)
  from plan_ok.plan_write [of digest key "g @ [(name, rows)]" cs "insert name A" b] phase_batch(1) [OF plan_write(1)]
  show ?case by (simp add: commit_tail_def rows_of_append_batch)
next
  case (plan_check b)
  then have "set b \<subseteq> insert name A" by auto
  from plan_ok.plan_check [OF this, of digest key "g @ [(name, rows)]" cs] phase_batch(2) [OF plan_check(2)]
  show ?case by (simp add: commit_tail_def rows_of_append_batch)
next
  case (plan_unlink us b)
  from phase_batch(2) [OF plan_unlink(3)] plan_unlink(4) have "name \<notin> set b" by (auto simp: batch_ok_def)
  with plan_unlink(1,2) show ?case by (intro plan_ok.plan_unlink) auto
next
  case (plan_clean b us)
  from phase_batch(2) [OF plan_clean(3)] plan_clean(4) have "name \<notin> set b" by (auto simp: batch_ok_def)
  with plan_clean(1,2) show ?case by (intro plan_ok.plan_clean) auto
qed (auto intro: plan_ok.intros)

subsection \<open>The steps of a plan\<close>

lemma batch_names: "dir_ok digest N key g d cs ph \<Longrightarrow> batch_ok g b \<Longrightarrow> b \<noteq> [] \<and> distinct b \<and> set b \<subseteq> N \<and> (\<forall>n \<in> set b. plain_name n)"
  by (frule dir_okD(2), drule dir_okD(3)) (auto simp: batch_ok_def)

lemma output_inject:
  assumes ok: "digest_ok digest N" and dir: "dir_ok digest N key g d cs ph" and b: "batch_ok g b" "batch_ok g b'"
  shows "output_name digest b = output_name digest b' \<longleftrightarrow> b = b'"
  using output_name_inject [OF ok, of b b'] batch_names [OF dir b(1)] batch_names [OF dir b(2)] by auto

lemma parquet_lookup:
  assumes ok: "digest_ok digest N" and dir: "dir_ok digest N key g d cs ph" and b: "batch_ok g b"
  shows "map_of (d_parquet d) (output_name digest b) = (if b \<in> set cs then Some (Some (rows_of g b)) else None)"
proof -
  have "map_of (map (\<lambda>b. (output_name digest b, Some (rows_of g b))) bs) (output_name digest b) =
      (if b \<in> set bs then Some (Some (rows_of g b)) else None)" if "set bs \<subseteq> set cs" for bs
    using that
  proof (induction bs)
    case (Cons b' bs)
    with dir_okD(5) [OF dir] have "batch_ok g b'" by (simp add: list_all_iff)
    from output_inject [OF ok dir b this] Cons show ?case by auto
  qed simp
  then show ?thesis by (simp add: dir_okD(7) [OF dir])
qed

lemma output_row_count:
  assumes "digest_ok digest N" and "dir_ok digest N key g d cs ph" and "batch_ok g b"
  shows "row_count_is d (output_name digest b) (int (length (rows_of g b))) = Some (b \<in> set cs)"
  using parquet_lookup [OF assms] by (simp add: row_count_is_def)

lemma marker_entry_fields:
  assumes ok: "digest_ok digest N" and dir: "dir_ok digest N key g d cs ph" and b: "batch_ok g b"
  shows "marker_fields (fst key) (snd (marker_entry digest key g b)) =
    Some (b, output_name digest b, int (length (rows_of g b)))"
proof -
  obtain feed date where key: "key = (feed, date)" by (cases key)
  from b have "g \<noteq> []" by (auto simp: batch_ok_def)
  from dir_okD(4) [OF dir this] batch_names [OF dir b] plain_output_name [OF ok, of b]
  show ?thesis
    unfolding marker_entry_def key by (simp add: marker_fields_marker_of del: set_map)
qed

lemma exec_WriteMarker:
  assumes "dir_ok digest N key g d cs Quiet" and "batch_ok g b" and "set b \<subseteq> fst ` set (d_segments d)"
  shows "\<exists>d'. exec_spool_op d (WriteMarker (marker_name digest b) (marker_of digest key b (int (length (rows_of g b))))) = Some d' \<and>
    dir_ok digest N key g d' cs (Intent b) \<and> d_segments d' = d_segments d"
  using assms by (auto simp: exec_spool_op_def dir_ok_def marker_entry_def)

lemma exec_WriteParquet:
  assumes ok: "digest_ok digest N" and dir: "dir_ok digest N key g d cs (Intent b)"
  shows "\<exists>d'. exec_spool_op d (WriteParquet (output_name digest b) (rows_of g b)) = Some d' \<and>
    dir_ok digest N key g d' (cs @ [b]) (Output b) \<and> d_segments d' = d_segments d"
proof -
  note D = dir_okD [OF dir]
  have b: "batch_ok g b" "set b \<subseteq> fst ` set (d_segments d)" "set b \<inter> set (concat cs) = {}"
    using D(11) by auto
  then have "b \<notin> set cs" by (cases b) (auto simp: batch_ok_def)
  with parquet_lookup [OF ok dir b(1)] have new: "output_name digest b \<notin> fst ` set (d_parquet d)"
    by (simp add: map_of_eq_None_iff)
  let ?d = "d\<lparr>d_parquet := d_parquet d @ [(output_name digest b, Some (rows_of g b))]\<rparr>"
  have "distinct b" using b(1) by (simp add: batch_ok_def)
  then have "dir_ok digest N key g ?d (cs @ [b]) (Output b)"
    using D b unfolding dir_ok_def by (auto simp del: set_map)
  then show ?thesis by (simp add: exec_spool_op_def update_fresh [OF new])
qed

lemma delete_names: "fst ` set (AList.delete n al) = fst ` set al - {n}"
  by (auto simp: AList.delete_eq)

lemma dir_ok_delete:
  assumes dir: "dir_ok digest N key g d cs (Output b)" and n: "n \<in> set b"
  shows "dir_ok digest N key g (d\<lparr>d_segments := AList.delete n (d_segments d)\<rparr>) cs (Output b)"
proof -
  note D = dir_okD [OF dir]
  let ?S = "fst ` set (d_segments d)"
  have keys: "fst ` set (AList.delete n (d_segments d)) = ?S - {n}" by (auto simp: AList.delete_eq)
  have "map fst (AList.delete n (d_segments d)) = filter (\<lambda>m. m \<noteq> n) (map fst (d_segments d))"
    by (auto simp: AList.delete_eq filter_map comp_def case_prod_beta intro!: arg_cong [where f = "map fst"] filter_cong)
  also have "\<dots> = filter (\<lambda>m. m \<in> ?S - {n}) (map fst g)"
    by (subst D(9)) (auto simp: conj_commute intro: filter_cong)
  finally have names: "map fst (AList.delete n (d_segments d)) = filter (\<lambda>m. m \<in> ?S - {n}) (map fst g)" .
  have ph: "?S - {n} - set b = fst ` set g - set (concat cs)" using D(11) n by auto
  show ?thesis
    unfolding dir_ok_def
  proof (intro conjI)
    show "\<forall>(m, s)\<in>set (d_segments (d\<lparr>d_segments := AList.delete n (d_segments d)\<rparr>)).
        \<exists>rows. map_of g m = Some rows \<and> read_segment s = Some rows"
      using D(10) by (auto simp: AList.delete_eq)
  qed (use D ph names keys in \<open>simp_all del: set_map\<close>)
qed

lemma exec_UnlinkSegment:
  assumes dir: "dir_ok digest N key g d cs (Output b)" and n: "n \<in> set b"
  shows "n \<in> fst ` set (d_segments d) \<Longrightarrow> exec_spool_op d (UnlinkSegment n) = Some (d\<lparr>d_segments := AList.delete n (d_segments d)\<rparr>)"
    and "exec_spool_op d (UnlinkSegmentIfExists n) = Some (d\<lparr>d_segments := AList.delete n (d_segments d)\<rparr>)"
  by (auto simp: exec_spool_op_def map_of_eq_None_iff)

lemma exec_UnlinkMarker:
  assumes dir: "dir_ok digest N key g d cs ph" and "ph = Intent b \<or> ph = Output b \<and> set b \<inter> fst ` set (d_segments d) = {}"
  shows "\<exists>d'. exec_spool_op d (UnlinkMarker (marker_name digest b)) = Some d' \<and> dir_ok digest N key g d' cs Quiet \<and>
    d_segments d' = d_segments d"
proof -
  note D = dir_okD [OF dir]
  have "d_markers d = [marker_entry digest key g b]" using D(8) assms(2) by auto
  then have ex: "exec_spool_op d (UnlinkMarker (marker_name digest b)) = Some (d\<lparr>d_markers := []\<rparr>)"
    by (simp add: exec_spool_op_def marker_entry_def)
  have "fst ` set (d_segments d) = fst ` set g - set (concat cs)"
    using assms(2)
  proof (elim disjE conjE)
    assume "ph = Intent b"
    with D(11) show ?thesis by simp
  next
    assume "ph = Output b" and none: "set b \<inter> fst ` set (d_segments d) = {}"
    with D(11) have "fst ` set (d_segments d) - set b = fst ` set g - set (concat cs)" by simp
    with none show ?thesis by blast
  qed
  then have "phase_ok g cs (fst ` set (d_segments d)) Quiet" by simp
  with dir have "dir_ok digest N key g (d\<lparr>d_markers := []\<rparr>) cs Quiet"
    unfolding dir_ok_def by (auto simp del: set_map phase_ok.simps)
  with ex show ?thesis by simp
qed

text \<open>Progress and preservation: in a directory that matches the plan every operation succeeds.\<close>

lemma plan_step:
  assumes ok: "digest_ok digest N" and dir: "dir_ok digest N key g d cs ph"
    and plan: "plan_ok digest key g cs (fst ` set (d_segments d)) ph (op # ops)"
  shows "\<exists>d' cs' ph'. exec_spool_op d op = Some d' \<and> dir_ok digest N key g d' cs' ph' \<and>
    plan_ok digest key g cs' (fst ` set (d_segments d')) ph' ops"
  using plan
proof (cases rule: plan_ok.cases)
  case (plan_start b)
  with exec_WriteMarker [of digest N key g d cs b] dir show ?thesis by (auto intro: plan_ok.plan_write)
next
  case (plan_write b)
  from exec_WriteParquet [OF ok, of key g d cs b] dir plan_write(1) obtain d' where
    d': "exec_spool_op d op = Some d'" "dir_ok digest N key g d' (cs @ [b]) (Output b)" "d_segments d' = d_segments d"
    using plan_write by auto
  from dir_okD(11) [OF dir] plan_write(1) have "set b \<subseteq> fst ` set (d_segments d)"
    by (metis phase_ok.simps(2))
  with d' plan_write show ?thesis by (auto intro!: plan_ok.plan_check)
next
  case (plan_check b)
  from dir_okD(11) [of digest N key g d cs "Output b"] dir plan_check(1) have b: "b \<in> set cs" by simp
  have bo: "batch_ok g b" using phase_batch(2) dir plan_check(1) by blast
  from output_row_count [OF ok dir bo] parquet_lookup [OF ok dir bo] b plan_check
  have "exec_spool_op d op = Some d" by (auto simp: exec_spool_op_def commit_tail_def)
  moreover have "plan_ok digest key g cs (fst ` set (d_segments d)) ph ops"
    using plan_check bo by (auto simp: commit_tail_def batch_ok_def intro!: plan_ok.plan_unlink)
  ultimately show ?thesis using dir by blast
next
  case (plan_unlink us b)
  show ?thesis
  proof (cases us)
    case Nil
    with plan_unlink dir exec_UnlinkMarker [OF dir, of b] show ?thesis by (auto intro: plan_ok.plan_end)
  next
    case (Cons u us')
    let ?d = "d\<lparr>d_segments := AList.delete u (d_segments d)\<rparr>"
    have u: "u \<in> set b" "u \<in> fst ` set (d_segments d)" using plan_unlink(4) Cons by auto
    from exec_UnlinkSegment(1) [of digest N key g d cs b, OF _ u] dir_ok_delete [of digest N key g d cs b, OF _ u(1)]
      dir plan_unlink Cons
    have "exec_spool_op d op = Some ?d" "dir_ok digest N key g ?d cs (Output b)"
      by auto
    moreover have "distinct us'" "set us' = set b \<inter> (fst ` set (d_segments d) - {u})"
    proof -
      from plan_unlink(3) Cons show "distinct us'" by simp
      from plan_unlink(3) Cons have "u \<notin> set us'" by simp
      moreover from plan_unlink(4) Cons have "insert u (set us') = set b \<inter> fst ` set (d_segments d)" by simp
      ultimately show "set us' = set b \<inter> (fst ` set (d_segments d) - {u})" by blast
    qed
    then have "plan_ok digest key g cs (fst ` set (d_segments ?d)) (Output b) ops"
      using plan_unlink(2) Cons by (auto simp: delete_names intro: plan_ok.plan_unlink)
    ultimately show ?thesis by blast
  qed
next
  case (plan_clean b us)
  show ?thesis
  proof (cases us)
    case Nil
    with plan_clean dir exec_UnlinkMarker [OF dir, of b] show ?thesis by (auto intro: plan_ok.plan_end)
  next
    case (Cons u us')
    let ?d = "d\<lparr>d_segments := AList.delete u (d_segments d)\<rparr>"
    have u: "u \<in> set b" using plan_clean(4) Cons by auto
    from exec_UnlinkSegment(2) [of digest N key g d cs b, OF _ u] dir_ok_delete [of digest N key g d cs b, OF _ u]
      dir plan_clean Cons
    have "exec_spool_op d op = Some ?d" "dir_ok digest N key g ?d cs (Output b)"
      by auto
    moreover have "plan_ok digest key g cs (fst ` set (d_segments ?d)) (Output b) ops"
      using plan_clean Cons by (auto simp: delete_names intro!: plan_ok.plan_clean)
    ultimately show ?thesis by blast
  qed
next
  case (plan_discard b)
  with dir exec_UnlinkMarker [OF dir, of b] show ?thesis by (auto intro: plan_ok.plan_end)
qed

lemma rows_of_segments:
  assumes dir: "dir_ok digest N key g d cs ph" and "set b \<subseteq> fst ` set (d_segments d)"
  shows "\<exists>rowss. map_option_list (segment_rows d) b = Some rowss \<and> concat rowss = rows_of g b"
  using assms(2)
proof (induction b)
  case (Cons n b)
  from Cons.prems segment_rows_eq [OF dir, of n] obtain rows where
    n: "segment_rows d n = Some rows" "map_of g n = Some rows" by auto
  from Cons obtain rowss where "map_option_list (segment_rows d) b = Some rowss" "concat rowss = rows_of g b" by auto
  with n show ?case by (simp add: rows_of_def)
qed (simp add: rows_of_def)

lemma commit_plan_ok:
  assumes ok: "digest_ok digest N" and dir: "dir_ok digest N key g d cs Quiet"
    and b: "b \<noteq> []" "distinct b" "set b \<subseteq> fst ` set (d_segments d)"
  shows "\<exists>ops. commit_plan digest key b d = Inr (ops, int (length (rows_of g b))) \<and>
    plan_ok digest key g cs (fst ` set (d_segments d)) Quiet ops \<and> length ops = length b + 4"
proof -
  have bo: "batch_ok g b" using b segments_subset [OF dir] by (auto simp: batch_ok_def)
  have "b \<notin> set cs" using dir_okD(11) [OF dir] b by (cases b) auto
  with output_row_count [OF ok dir bo] have rc: "row_count_is d (output_name digest b) (int (length (rows_of g b))) = Some False"
    by simp
  from rows_of_segments [OF dir b(3)] rc have "commit_plan digest key b d =
      Inr (WriteMarker (marker_name digest b) (marker_of digest key b (int (length (rows_of g b)))) #
        WriteParquet (output_name digest b) (rows_of g b) # commit_tail digest g b, int (length (rows_of g b)))"
    by (auto simp: commit_plan_def commit_tail_def Let_def)
  with plan_ok.plan_start [OF bo b(3)] show ?thesis by (auto simp: commit_tail_def)
qed

lemma recover_plan_ok:
  assumes ok: "digest_ok digest N" and dir: "dir_ok digest N key g d cs ph"
    and name: "name \<in> fst ` set (d_markers d)"
  shows "\<exists>ops. recover_plan key name d = Inr ops \<and> plan_ok digest key g cs (fst ` set (d_segments d)) ph ops"
proof -
  note D = dir_okD [OF dir]
  have "ph \<noteq> Quiet" using D(8) name by auto
  then obtain b where b: "ph = Intent b \<or> ph = Output b" by (cases ph) auto
  then have bo: "batch_ok g b" using phase_batch dir by blast
  have mk: "d_markers d = [marker_entry digest key g b]" using D(8) b by auto
  then have nm: "name = marker_name digest b" using name by (simp add: marker_entry_def)
  have lk: "map_of (d_markers d) name = Some (snd (marker_entry digest key g b))"
    by (simp add: mk nm marker_entry_def)
  note rc = output_row_count [OF ok dir bo]
  show ?thesis
  proof (cases "ph = Output b")
    case True
    with D(11) rc have "row_count_is d (output_name digest b) (int (length (rows_of g b))) = Some True" by simp
    then have "recover_plan key name d = Inr (map UnlinkSegmentIfExists b @ [UnlinkMarker name])"
      by (simp add: recover_plan_def lk marker_entry_fields [OF ok dir bo])
    with True nm show ?thesis by (auto intro!: plan_ok.plan_clean)
  next
    case False
    with b have ph: "ph = Intent b" by simp
    with D(11) have sub: "set b \<subseteq> fst ` set (d_segments d)" "set b \<inter> set (concat cs) = {}" by auto
    then have "b \<notin> set cs" using bo by (cases b) (auto simp: batch_ok_def)
    with rc have "row_count_is d (output_name digest b) (int (length (rows_of g b))) = Some False" by simp
    moreover have "list_all (\<lambda>s. map_of (d_segments d) s \<noteq> None) b"
      using sub(1) by (auto simp: list_all_iff map_of_eq_None_iff)
    ultimately have "recover_plan key name d = Inr [UnlinkMarker name]"
      by (simp add: recover_plan_def lk marker_entry_fields [OF ok dir bo])
    with ph nm show ?thesis by (auto intro!: plan_ok.plan_discard)
  qed
qed

subsection \<open>The invariant holds\<close>

lemma spool_inv_init: "spool_init s \<Longrightarrow> spool_inv digest N s"
proof -
  assume "spool_init s"
  moreover have "dir_ok digest N key [] empty_dir [] Quiet" for key
    by (simp add: dir_ok_def empty_dir_def)
  ultimately show ?thesis unfolding spool_inv_def spool_init_def by fastforce
qed

lemma spool_inv_plan:
  assumes "spool_inv digest N s"
    and "\<And>cs ph. dir_ok digest N key (sy_staged s key) (sy_spool s key) cs ph \<Longrightarrow>
      plan_ok digest key (sy_staged s key) cs (fst ` set (d_segments (sy_spool s key))) ph ops"
  shows "spool_inv digest N (s\<lparr>sy_plan := Some (key, ops)\<rparr>)"
  using assms unfolding spool_inv_def by (metis (no_types, lifting) option.inject prod.inject select_convs(1-3)
    surjective update_convs(2))

lemma spool_inv_update:
  assumes inv: "spool_inv digest N s" and "dir_ok digest N key g d cs ph"
    and "\<forall>ops. sy_plan s = Some (key, ops) \<longrightarrow> plan_ok digest key g cs (fst ` set (d_segments d)) ph ops"
  shows "spool_inv digest N (s\<lparr>sy_spool := (sy_spool s)(key := d), sy_staged := (sy_staged s)(key := g)\<rparr>)"
  unfolding spool_inv_def
proof
  fix k
  show "\<exists>cs ph. dir_ok digest N k (sy_staged (s\<lparr>sy_spool := (sy_spool s)(key := d), sy_staged := (sy_staged s)(key := g)\<rparr>) k)
        (sy_spool (s\<lparr>sy_spool := (sy_spool s)(key := d), sy_staged := (sy_staged s)(key := g)\<rparr>) k) cs ph \<and>
      (\<forall>ops. sy_plan (s\<lparr>sy_spool := (sy_spool s)(key := d), sy_staged := (sy_staged s)(key := g)\<rparr>) = Some (k, ops) \<longrightarrow>
        plan_ok digest k (sy_staged (s\<lparr>sy_spool := (sy_spool s)(key := d), sy_staged := (sy_staged s)(key := g)\<rparr>) k) cs
          (fst ` set (d_segments (sy_spool (s\<lparr>sy_spool := (sy_spool s)(key := d), sy_staged := (sy_staged s)(key := g)\<rparr>) k))) ph ops)"
  proof (cases "k = key")
    case True
    with assms(2,3) show ?thesis by (intro exI [of _ cs] exI [of _ ph]) simp
  next
    case False
    from inv have "\<exists>cs ph. dir_ok digest N k (sy_staged s k) (sy_spool s k) cs ph \<and> (\<forall>ops. sy_plan s = Some (k, ops) \<longrightarrow>
        plan_ok digest k (sy_staged s k) cs (fst ` set (d_segments (sy_spool s k))) ph ops)"
      unfolding spool_inv_def by blast
    with False show ?thesis by simp
  qed
qed

lemma spool_inv_step:
  assumes ok: "digest_ok digest N" and inv: "spool_inv digest N s" and step: "spool_step digest N s t"
  shows "spool_inv digest N t"
  using step
proof cases
  case (step_recover name key ops)
  show ?thesis unfolding step_recover(1)
  proof (rule spool_inv_plan [OF inv])
    fix cs ph
    assume "dir_ok digest N key (sy_staged s key) (sy_spool s key) cs ph"
    from recover_plan_ok [OF ok this step_recover(3)] step_recover(4)
    show "plan_ok digest key (sy_staged s key) cs (fst ` set (d_segments (sy_spool s key))) ph ops" by auto
  qed
next
  case (step_commit key names ops expected)
  show ?thesis unfolding step_commit(1)
  proof (rule spool_inv_plan [OF inv])
    fix cs ph
    assume dir: "dir_ok digest N key (sy_staged s key) (sy_spool s key) cs ph"
    with dir_okD(8) [OF dir] step_commit(3) have ph: "ph = Quiet" by (cases ph) auto
    from commit_plan_ok [OF ok dir [unfolded ph] step_commit(4-6)] step_commit(7) ph
    show "plan_ok digest key (sy_staged s key) cs (fst ` set (d_segments (sy_spool s key))) ph ops" by auto
  qed
next
  case (step_op key op ops d)
  from inv step_op(2) obtain cs ph where dir: "dir_ok digest N key (sy_staged s key) (sy_spool s key) cs ph"
    and plan: "plan_ok digest key (sy_staged s key) cs (fst ` set (d_segments (sy_spool s key))) ph (op # ops)"
    unfolding spool_inv_def by blast
  from plan_step [OF ok dir plan] step_op(3) obtain cs' ph' where
    "dir_ok digest N key (sy_staged s key) d cs' ph'" "plan_ok digest key (sy_staged s key) cs' (fst ` set (d_segments d)) ph' ops"
    by auto
  with inv show ?thesis unfolding spool_inv_def step_op(1) by (fastforce split: if_splits)
next
  case step_stop
  show ?thesis unfolding spool_inv_def step_stop
  proof
    fix key
    from inv obtain cs ph where "dir_ok digest N key (sy_staged s key) (sy_spool s key) cs ph"
      unfolding spool_inv_def by blast
    then show "\<exists>cs ph. dir_ok digest N key (sy_staged (s\<lparr>sy_plan := None\<rparr>) key) (sy_spool (s\<lparr>sy_plan := None\<rparr>) key) cs ph \<and>
      (\<forall>ops. sy_plan (s\<lparr>sy_plan := None\<rparr>) = Some (key, ops) \<longrightarrow> plan_ok digest key (sy_staged (s\<lparr>sy_plan := None\<rparr>) key) cs
        (fst ` set (d_segments (sy_spool (s\<lparr>sy_plan := None\<rparr>) key))) ph ops)"
      by (intro exI [of _ cs] exI [of _ ph]) simp
  qed
next
  case (step_stage poll_id uuid key rows outcome res sp')
  let ?n = "segment_name poll_id uuid"
  from inv obtain cs ph where dir: "dir_ok digest N key (sy_staged s key) (sy_spool s key) cs ph"
    and plan: "\<forall>ops. sy_plan s = Some (key, ops) \<longrightarrow>
      plan_ok digest key (sy_staged s key) cs (fst ` set (d_segments (sy_spool s key))) ph ops"
    unfolding spool_inv_def by blast
  from segments_subset [OF dir] step_stage(4) have fresh: "?n \<notin> fst ` set (d_segments (sy_spool s key))" by blast
  show ?thesis
    using step_stage(6,5)
  proof (cases rule: stage_cases)
    case 1
    with fresh have "staged_now key ?n rows sp' (sy_staged s) = sy_staged s"
      by (simp add: staged_now_def map_of_eq_None_iff)
    with 1 inv step_stage(1) show ?thesis by (simp add: spool_inv_def)
  next
    case (2 seg)
    let ?d = "(sy_spool s key)\<lparr>d_segments := d_segments (sy_spool s key) @ [(?n, Some seg)]\<rparr>"
    let ?g = "sy_staged s key @ [(?n, rows)]"
    from update_fresh [OF fresh] 2(4) have sp': "sp' = (sy_spool s)(key := ?d)" by simp
    then have g: "staged_now key ?n rows sp' (sy_staged s) = (sy_staged s)(key := ?g)"
      by (simp add: staged_now_def map_of_eq_None_iff)
    have "dir_ok digest N key ?g ?d cs ph"
      by (rule dir_ok_stage [OF dir step_stage(4,2) plain_segment_name [OF step_stage(3)] 2(2,3)])
    moreover have "\<forall>ops. sy_plan s = Some (key, ops) \<longrightarrow> plan_ok digest key ?g cs (fst ` set (d_segments ?d)) ph ops"
      using plan plan_ok_stage [OF _ dir step_stage(4)] by auto
    ultimately show ?thesis unfolding step_stage(1) g unfolding sp' by (rule spool_inv_update [OF inv])
  qed
qed

interpretation spool_system: transition_system spool_init "spool_step digest N"
    "\<lambda>s. digest_ok digest N \<longrightarrow> spool_inv digest N s" for digest N
  by unfold_locales (auto intro: spool_inv_init spool_inv_step)

subsection \<open>Durable rows\<close>

lemma mset_rows_of_sum: "mset (rows_of g xs) = sum_mset (image_mset (\<lambda>n. mset (the (map_of g n))) (mset xs))"
  by (induction xs) (simp_all add: rows_of_def)

lemma mset_rows_of: "mset xs = mset ys \<Longrightarrow> mset (rows_of g xs) = mset (rows_of g ys)"
  by (simp add: mset_rows_of_sum)

lemma rows_of_append_names: "rows_of g (xs @ ys) = rows_of g xs @ rows_of g ys"
  by (simp add: rows_of_def)

lemma rows_of_all: "distinct (map fst g) \<Longrightarrow> rows_of g (map fst g) = concat (map snd g)"
  unfolding rows_of_def by (rule arg_cong [where f = concat]) (auto simp: comp_def)

lemma rows_of_concat: "rows_of g (concat cs) = concat (map (rows_of g) cs)"
  by (induction cs) (auto simp: rows_of_def)

lemma awaiting_deletion_phase:
  assumes ok: "digest_ok digest N" and dir: "dir_ok digest N key g d cs ph"
  shows "awaiting_deletion (fst key) d n \<longleftrightarrow> (case ph of Output b \<Rightarrow> n \<in> set b | _ \<Rightarrow> False)"
proof -
  note D = dir_okD [OF dir]
  show ?thesis
  proof (cases ph)
    case Quiet
    with D(8) show ?thesis by (simp add: awaiting_deletion_def)
  next
    case (Intent b)
    then have bo: "batch_ok g b" using phase_batch dir by blast
    from Intent D(11) have "set b \<inter> set (concat cs) = {}" by auto
    then have "b \<notin> set cs" using bo by (cases b) (auto simp: batch_ok_def)
    with Intent D(8) output_row_count [OF ok dir bo] marker_entry_fields [OF ok dir bo] show ?thesis
      by (simp add: awaiting_deletion_def case_prod_beta)
  next
    case (Output b)
    then have bo: "batch_ok g b" using phase_batch dir by blast
    from Output D(11) have "b \<in> set cs" by simp
    with Output D(8) output_row_count [OF ok dir bo] marker_entry_fields [OF ok dir bo] show ?thesis
      by (simp add: awaiting_deletion_def case_prod_beta)
  qed
qed

lemma uncommitted_segments:
  assumes ok: "digest_ok digest N" and dir: "dir_ok digest N key g d cs ph"
  shows "map fst (filter (\<lambda>(n, s). \<not> awaiting_deletion (fst key) d n) (d_segments d)) =
    filter (\<lambda>n. n \<notin> set (concat cs)) (map fst g)"
proof -
  note D = dir_okD [OF dir]
  let ?S = "fst ` set (d_segments d)" and ?aw = "awaiting_deletion (fst key) d"
  have same: "(n \<in> ?S \<and> \<not> ?aw n) = (n \<notin> set (concat cs))" if "n \<in> fst ` set g" for n
  proof (cases ph)
    case (Output b)
    with D(11) have "b \<in> set cs" "?S - set b = fst ` set g - set (concat cs)" by auto
    with that show ?thesis unfolding awaiting_deletion_phase [OF ok dir] Output by auto
  qed (use that D(11) awaiting_deletion_phase [OF ok dir, of n] in auto)
  have "map fst (filter (\<lambda>(n, s). \<not> ?aw n) (d_segments d)) = filter (\<lambda>n. \<not> ?aw n) (map fst (d_segments d))"
    by (simp add: filter_map comp_def case_prod_unfold)
  also have "\<dots> = filter (\<lambda>n. n \<in> ?S \<and> \<not> ?aw n) (map fst g)" by (subst D(9)) (simp add: conj_commute)
  also have "\<dots> = filter (\<lambda>n. n \<notin> set (concat cs)) (map fst g)" using same by (intro filter_cong) (simp_all only: set_map)
  finally show ?thesis .
qed

lemma spooled_rows_eq:
  assumes ok: "digest_ok digest N" and dir: "dir_ok digest N key g d cs ph"
  shows "spooled_rows (fst key) d = rows_of g (filter (\<lambda>n. n \<notin> set (concat cs)) (map fst g))"
proof -
  have "(case read_segment s of None \<Rightarrow> [] | Some rows \<Rightarrow> rows) = the (map_of g n)" if "(n, s) \<in> set (d_segments d)" for n s
    using dir_okD(10) [OF dir that] by auto
  then have "spooled_rows (fst key) d =
      concat (map (\<lambda>(n, s). the (map_of g n)) (filter (\<lambda>(n, s). \<not> awaiting_deletion (fst key) d n) (d_segments d)))"
    unfolding spooled_rows_def by (intro arg_cong [where f = concat] map_cong) auto
  also have "\<dots> = rows_of g (map fst (filter (\<lambda>(n, s). \<not> awaiting_deletion (fst key) d n) (d_segments d)))"
    by (simp add: rows_of_def comp_def case_prod_unfold)
  finally show ?thesis by (simp only: uncommitted_segments [OF ok dir])
qed

lemma durable_rows:
  assumes ok: "digest_ok digest N" and dir: "dir_ok digest N key g d cs ph"
  shows "mset (parquet_rows d) + mset (spooled_rows (fst key) d) = mset (concat (map snd g))"
proof -
  note D = dir_okD [OF dir]
  have "parquet_rows d = rows_of g (concat cs)" by (simp add: parquet_rows_def D(7) rows_of_concat comp_def)
  moreover have "set (concat cs) \<subseteq> fst ` set g" using D(5) by (fastforce simp: list_all_iff batch_ok_def)
  then have "mset (concat cs @ filter (\<lambda>n. n \<notin> set (concat cs)) (map fst g)) = mset (map fst g)"
    using D(1,6) by (subst set_eq_iff_mset_eq_distinct [symmetric]) auto
  from mset_rows_of [OF this, of g] have "mset (rows_of g (concat cs)) +
      mset (rows_of g (filter (\<lambda>n. n \<notin> set (concat cs)) (map fst g))) = mset (concat (map snd g))"
    by (simp only: rows_of_append_names mset_append rows_of_all [OF D(1)])
  ultimately show ?thesis by (simp add: spooled_rows_eq [OF ok dir])
qed

subsection \<open>Runs of flush\<close>

definition idle :: "(string \<Rightarrow> string) \<Rightarrow> string set \<Rightarrow> (key \<Rightarrow> (string \<times> row list) list) \<Rightarrow> (key \<Rightarrow> spool_dir) \<Rightarrow> bool" where
  "idle digest N g sp \<longleftrightarrow> reachable spool_init (spool_step digest N)
     \<lparr>sy_spool = sp, sy_plan = None, sy_staged = g\<rparr>"

fun unlinked :: "spool_op list \<Rightarrow> string set" where
  "unlinked [] = {}"
| "unlinked (UnlinkSegment n # ops) = insert n (unlinked ops)"
| "unlinked (UnlinkSegmentIfExists n # ops) = insert n (unlinked ops)"
| "unlinked (_ # ops) = unlinked ops"

lemma unlinked_append [simp]: "unlinked (xs @ ys) = unlinked xs \<union> unlinked ys"
  by (induction xs rule: unlinked.induct) auto

lemma unlinked_map [simp]: "unlinked (map UnlinkSegment ns) = set ns"
  by (induction ns) auto

lemma exec_segments: "exec_spool_op d op = Some d' \<Longrightarrow> fst ` set (d_segments d') = fst ` set (d_segments d) - unlinked [op]"
proof (cases op)
  case (UnlinkSegment n)
  moreover assume "exec_spool_op d op = Some d'"
  ultimately have "d' = d\<lparr>d_segments := AList.delete n (d_segments d)\<rparr>" by (simp add: exec_spool_op_def split: if_splits)
  with UnlinkSegment show ?thesis by (simp add: delete_names)
next
  case (UnlinkSegmentIfExists n)
  moreover assume "exec_spool_op d op = Some d'"
  ultimately have "d' = d\<lparr>d_segments := AList.delete n (d_segments d)\<rparr>" by (simp add: exec_spool_op_def)
  with UnlinkSegmentIfExists show ?thesis by (simp add: delete_names)
qed (auto simp: exec_spool_op_def split: if_splits)

lemma unlinked_Cons: "unlinked (op # ops) = unlinked [op] \<union> unlinked ops"
  by (cases op) auto

lemma reachable_dir:
  assumes "digest_ok digest N" and "reachable spool_init (spool_step digest N) s"
  shows "\<exists>cs ph. dir_ok digest N key (sy_staged s key) (sy_spool s key) cs ph \<and> (\<forall>ops. sy_plan s = Some (key, ops) \<longrightarrow>
    plan_ok digest key (sy_staged s key) cs (fst ` set (d_segments (sy_spool s key))) ph ops)"
  using spool_system.reachable_inv [OF assms(2)] assms(1) unfolding spool_inv_def by blast

lemma idle_dir:
  assumes "digest_ok digest N" and "idle digest N g sp"
  obtains cs ph where "dir_ok digest N key (g key) (sp key) cs ph"
  using reachable_dir [OF assms(1) assms(2) [unfolded idle_def], of key] by auto

inductive_simps plan_ok_Nil: "plan_ok digest key g cs A ph []"

lemma run_ops:
  assumes ok: "digest_ok digest N"
  shows "reachable spool_init (spool_step digest N) \<lparr>sy_spool = sp, sy_plan = Some (key, ops), sy_staged = g\<rparr> \<Longrightarrow>
    run_spool_ops io ops (sp key) = (b, d) \<Longrightarrow>
    idle digest N g (sp(key := d)) \<and> (length ops \<le> io \<longrightarrow> b) \<and>
    (b \<longrightarrow> d_markers d = [] \<and> fst ` set (d_segments d) = fst ` set (d_segments (sp key)) - unlinked ops)"
proof (induction ops arbitrary: sp io)
  case Nil
  from reachable_dir [OF ok Nil.prems(1), of key] obtain cs ph where
    "dir_ok digest N key (g key) (sp key) cs ph"
    "plan_ok digest key (g key) cs (fst ` set (d_segments (sp key))) ph []"
    by auto
  moreover from this have "ph = Quiet" by (simp add: plan_ok_Nil commit_tail_def)
  ultimately have "d_markers (sp key) = []" by (auto dest: dir_okD(8))
  moreover have "idle digest N g sp" using reach_step [OF Nil.prems(1) step_stop] by (simp add: idle_def)
  moreover from Nil.prems(2) have "d = sp key" "b" by auto
  ultimately show ?case by simp
next
  case (Cons op ops)
  let ?s = "\<lparr>sy_spool = sp, sy_plan = Some (key, op # ops), sy_staged = g\<rparr>"
  have stop: "idle digest N g sp" using reach_step [OF Cons.prems(1) step_stop] by (simp add: idle_def)
  from reachable_dir [OF ok Cons.prems(1), of key] obtain cs ph where
    dir: "dir_ok digest N key (g key) (sp key) cs ph" and
    plan: "plan_ok digest key (g key) cs (fst ` set (d_segments (sp key))) ph (op # ops)"
    by auto
  from plan_step [OF ok dir plan] obtain d1 where d1: "exec_spool_op (sp key) op = Some d1" by blast
  show ?case
  proof (cases io)
    case 0
    with Cons.prems(2) have "sp(key := d) = sp" "\<not> b" by auto
    with stop 0 show ?thesis by simp
  next
    case (Suc io')
    have "spool_step digest N ?s \<lparr>sy_spool = sp(key := d1), sy_plan = Some (key, ops), sy_staged = g\<rparr>"
      using spool_step.step_op [of ?s key op ops d1 digest N] d1 by simp
    note reach = reach_step [OF Cons.prems(1) this]
    have "run_spool_ops io' ops ((sp(key := d1)) key) = (b, d)" using Cons.prems(2) Suc d1 by simp
    note IH = Cons.IH [OF reach this]
    from IH have "idle digest N g (sp(key := d))" by (simp only: fun_upd_upd)
    moreover from IH Suc have "length (op # ops) \<le> io \<longrightarrow> b" by simp
    moreover from IH have "b \<longrightarrow> d_markers d = [] \<and> fst ` set (d_segments d) = fst ` set (d_segments d1) - unlinked ops"
      by simp
    then have "b \<longrightarrow> d_markers d = [] \<and> fst ` set (d_segments d) = fst ` set (d_segments (sp key)) - unlinked (op # ops)"
      unfolding exec_segments [OF d1] unlinked_Cons [of op ops] by blast
    ultimately show ?thesis by blast
  qed
qed

lemma run_commit:
  assumes ok: "digest_ok digest N" and idle: "idle digest N g sp" and quiet: "d_markers (sp key) = []"
    and b: "b \<noteq> []" "distinct b" "set b \<subseteq> fst ` set (d_segments (sp key))"
  obtains ops where "commit_plan digest key b (sp key) = Inr (ops, int (length (rows_of (g key) b)))"
    and "length ops = length b + 4"
    and "\<And>io r d. run_spool_ops io ops (sp key) = (r, d) \<Longrightarrow> idle digest N g (sp(key := d)) \<and> (length ops \<le> io \<longrightarrow> r) \<and>
      (r \<longrightarrow> d_markers d = [] \<and> fst ` set (d_segments d) = fst ` set (d_segments (sp key)) - set b)"
proof -
  obtain cs ph where dir: "dir_ok digest N key (g key) (sp key) cs ph" using idle_dir [OF ok idle] .
  with dir_okD(8) [OF dir] quiet have ph: "ph = Quiet" by (cases ph) auto
  from commit_plan_ok [OF ok dir [unfolded ph] b] obtain ops where
    ops: "commit_plan digest key b (sp key) = Inr (ops, int (length (rows_of (g key) b)))" "length ops = length b + 4"
    by blast
  have "spool_step digest N \<lparr>sy_spool = sp, sy_plan = None, sy_staged = g\<rparr>
      \<lparr>sy_spool = sp, sy_plan = Some (key, ops), sy_staged = g\<rparr>"
    using spool_step.step_commit [of "\<lparr>sy_spool = sp, sy_plan = None, sy_staged = g\<rparr>" key b digest ops] quiet b ops
    by simp
  note reach = reach_step [OF idle [unfolded idle_def] this]
  have "unlinked ops = set b"
    using ops by (auto simp: commit_plan_def Let_def split: option.splits bool.splits)
  with that [OF ops] run_ops [OF ok reach] show thesis by auto
qed

lemma run_recover:
  assumes ok: "digest_ok digest N" and idle: "idle digest N g sp" and name: "name \<in> fst ` set (d_markers (sp key))"
  obtains ops where "recover_plan key name (sp key) = Inr ops" and "length ops \<le> length (g key) + 1"
    and "\<And>io r d. run_spool_ops io ops (sp key) = (r, d) \<Longrightarrow> idle digest N g (sp(key := d)) \<and> (length ops \<le> io \<longrightarrow> r) \<and>
      (r \<longrightarrow> d_markers d = [])"
proof -
  obtain cs ph where dir: "dir_ok digest N key (g key) (sp key) cs ph" using idle_dir [OF ok idle] .
  note D = dir_okD [OF dir]
  have "ph \<noteq> Quiet" using D(8) name by auto
  then obtain b where b: "ph = Intent b \<or> ph = Output b" by (cases ph) auto
  then have bo: "batch_ok (g key) b" using phase_batch dir by blast
  have mk: "d_markers (sp key) = [marker_entry digest key (g key) b]" using D(8) b by auto
  then have lk: "map_of (d_markers (sp key)) name = Some (snd (marker_entry digest key (g key) b))"
    using name by (simp add: marker_entry_def)
  from recover_plan_ok [OF ok dir name] obtain ops where ops: "recover_plan key name (sp key) = Inr ops" by blast
  have "length b \<le> length (g key)"
  proof -
    have "card (set b) \<le> card (set (map fst (g key)))" using bo by (intro card_mono) (auto simp: batch_ok_def)
    with D(1) bo show ?thesis by (simp add: distinct_card batch_ok_def del: set_map)
  qed
  with ops have len: "length ops \<le> length (g key) + 1"
    by (auto simp: recover_plan_def lk marker_entry_fields [OF ok dir bo] split: option.splits bool.splits if_splits)
  have "spool_step digest N \<lparr>sy_spool = sp, sy_plan = None, sy_staged = g\<rparr>
      \<lparr>sy_spool = sp, sy_plan = Some (key, ops), sy_staged = g\<rparr>"
    using spool_step.step_recover [of "\<lparr>sy_spool = sp, sy_plan = None, sy_staged = g\<rparr>" name key ops] name ops by simp
  note reach = reach_step [OF idle [unfolded idle_def] this]
  from that [OF ops len] run_ops [OF ok reach] show thesis by blast
qed

lemma recover_commits_run:
  assumes ok: "digest_ok digest N"
  shows "idle digest N g sp \<Longrightarrow> distinct (map fst ms) \<Longrightarrow> \<forall>(k, name) \<in> set ms. name \<in> fst ` set (d_markers (sp k)) \<Longrightarrow>
    recover_commits ms ios sp blocked res = (alive, sp', blocked', res') \<Longrightarrow>
    idle digest N g sp' \<and> blocked \<subseteq> blocked' \<and> (\<forall>k. k \<notin> fst ` set ms \<longrightarrow> sp' k = sp k) \<and>
    (alive \<longrightarrow> (\<forall>k \<in> fst ` set ms. k \<notin> blocked' \<longrightarrow> d_markers (sp' k) = [])) \<and>
    (length ms \<le> length ios \<and> (\<forall>io \<in> set ios. \<forall>k \<in> fst ` set ms. length (g k) + 1 \<le> io) \<longrightarrow>
       alive \<and> blocked' = blocked \<and> res' = res)"
proof (induction ms arbitrary: ios sp blocked res)
  case (Cons m ms)
  obtain key name where m: "m = (key, name)" by (cases m)
  note prems = Cons.prems [unfolded m]
  show ?case
  proof (cases ios)
    case Nil
    with prems show ?thesis by (simp add: m)
  next
  case ios: (Cons io ios')
  from prems(3) have "name \<in> fst ` set (d_markers (sp key))" by simp
  from run_recover [OF ok prems(1) this] obtain ops where ops: "recover_plan key name (sp key) = Inr ops"
    and len: "length ops \<le> length (g key) + 1"
    and run: "\<And>io r d. run_spool_ops io ops (sp key) = (r, d) \<Longrightarrow> idle digest N g (sp(key := d)) \<and> (length ops \<le> io \<longrightarrow> r) \<and>
      (r \<longrightarrow> d_markers d = [])" by blast
  obtain r d where rd: "run_spool_ops io ops (sp key) = (r, d)" by (cases "run_spool_ops io ops (sp key)")
  from run [OF rd] have idle': "idle digest N g (sp(key := d))" and fin: "length ops \<le> io \<longrightarrow> r"
    and cl: "r \<longrightarrow> d_markers d = []" by auto
  have key: "key \<notin> fst ` set ms" and dist: "distinct (map fst ms)" using prems(2) by auto
  have mk: "\<forall>(k, name) \<in> set ms. name \<in> fst ` set (d_markers ((sp(key := d)) k))"
    using prems(3) key by (force simp: image_iff)
  note IH = Cons.IH [OF idle' dist mk]
  show ?thesis
  proof (cases r)
    case True
    with prems(4) ops rd ios have "recover_commits ms ios' (sp(key := d)) blocked res = (alive, sp', blocked', res')" by simp
    from IH [OF this] have I: "idle digest N g sp'" "blocked \<subseteq> blocked'" "\<forall>k. k \<notin> fst ` set ms \<longrightarrow> sp' k = (sp(key := d)) k"
      "alive \<longrightarrow> (\<forall>k \<in> fst ` set ms. k \<notin> blocked' \<longrightarrow> d_markers (sp' k) = [])"
      "length ms \<le> length ios' \<and> (\<forall>io \<in> set ios'. \<forall>k \<in> fst ` set ms. length (g k) + 1 \<le> io) \<longrightarrow>
       alive \<and> blocked' = blocked \<and> res' = res" by blast+
    from I(3) key cl True have "d_markers (sp' key) = []" by (metis fun_upd_same)
    with I key show ?thesis by (simp add: m ios)
  next
    case False
    with prems(4) ops rd ios have "recover_commits ms ios' (sp(key := d)) (insert key blocked) (add_error key SpoolOsError res) =
      (alive, sp', blocked', res')" by simp
    from IH [OF this] have I: "idle digest N g sp'" "insert key blocked \<subseteq> blocked'" "\<forall>k. k \<notin> fst ` set ms \<longrightarrow> sp' k = (sp(key := d)) k"
      "alive \<longrightarrow> (\<forall>k \<in> fst ` set ms. k \<notin> blocked' \<longrightarrow> d_markers (sp' k) = [])" by blast+
    from False fin len have "io < length (g key) + 1" by auto
    with I key show ?thesis by (auto simp: m ios)
  qed
  qed
qed auto

lemma commit_batches_run:
  assumes ok: "digest_ok digest N"
  shows "idle digest N g sp \<Longrightarrow> d_markers (sp key) = [] \<Longrightarrow> distinct (concat bs) \<Longrightarrow> [] \<notin> set bs \<Longrightarrow>
    set (concat bs) \<subseteq> fst ` set (d_segments (sp key)) \<Longrightarrow>
    commit_batches digest key bs ios sp res = (alive, ios', sp', res') \<Longrightarrow>
    idle digest N g sp' \<and> (\<forall>k. k \<noteq> key \<longrightarrow> sp' k = sp k) \<and>
    (length bs \<le> length ios \<and> (\<forall>io \<in> set ios. \<exists>n. io = Some n \<and> (\<forall>b \<in> set bs. length b + 4 \<le> n)) \<longrightarrow>
       alive \<and> ios' = drop (length bs) ios \<and> fr_errors res' = fr_errors res \<and> d_markers (sp' key) = [] \<and>
       fst ` set (d_segments (sp' key)) = fst ` set (d_segments (sp key)) - set (concat bs))"
proof (induction bs arbitrary: ios sp res)
  case (Cons names bs)
  note prems = Cons.prems
  have b: "names \<noteq> []" "distinct names" "set names \<subseteq> fst ` set (d_segments (sp key))" using prems(3-5) by auto
  from run_commit [OF ok prems(1,2) b] obtain ops where
    plan: "commit_plan digest key names (sp key) = Inr (ops, int (length (rows_of (g key) names)))"
    and len: "length ops = length names + 4"
    and run: "\<And>io r d. run_spool_ops io ops (sp key) = (r, d) \<Longrightarrow> idle digest N g (sp(key := d)) \<and> (length ops \<le> io \<longrightarrow> r) \<and>
      (r \<longrightarrow> d_markers d = [] \<and> fst ` set (d_segments d) = fst ` set (d_segments (sp key)) - set names)" by blast
  show ?case
  proof (cases "ios = [] \<or> hd ios = None")
    case True
    with prems(1,6) show ?thesis by (cases ios) auto
  next
  case False
  then obtain io ios1 where ios: "ios = Some io # ios1" by (cases ios) auto
  obtain r d where rd: "run_spool_ops io ops (sp key) = (r, d)" by (cases "run_spool_ops io ops (sp key)")
  note R = run [OF rd]
  show ?thesis
  proof (cases r)
    case False
    with prems(6) plan rd ios have "sp' = sp(key := d)" "alive" by auto
    moreover from False R len have "io < length names + 4" by auto
    moreover have "idle digest N g (sp(key := d))" using R by blast
    ultimately have "idle digest N g sp'" "\<forall>k. k \<noteq> key \<longrightarrow> sp' k = sp k" "io < length names + 4" by simp_all
    then show ?thesis by (simp add: ios)
  next
    case True
    have segs: "fst ` set (d_segments d) = fst ` set (d_segments (sp key)) - set names" and mk: "d_markers d = []"
      using R True by blast+
    have sub: "set (concat bs) \<subseteq> fst ` set (d_segments ((sp(key := d)) key))"
      using prems(3,5) by (auto simp: segs)
    have cb: "commit_batches digest key bs ios1 (sp(key := d)) (res\<lparr>fr_files := fr_files res @ [(key, output_name digest names)],
        fr_rows := fr_rows res + int (length (rows_of (g key) names))\<rparr>) = (alive, ios', sp', res')"
      using prems(6) plan rd True ios by simp
    have mk': "d_markers ((sp(key := d)) key) = []" and dist: "distinct (concat bs)" and ne: "[] \<notin> set bs"
      using mk prems(3,4) by auto
    have idle': "idle digest N g (sp(key := d))" using R by blast
    have I: "idle digest N g sp'" "\<forall>k. k \<noteq> key \<longrightarrow> sp' k = (sp(key := d)) k"
      "length bs \<le> length ios1 \<and> (\<forall>io \<in> set ios1. \<exists>n. io = Some n \<and> (\<forall>b \<in> set bs. length b + 4 \<le> n)) \<longrightarrow>
       alive \<and> ios' = drop (length bs) ios1 \<and> fr_errors res' = fr_errors res \<and> d_markers (sp' key) = [] \<and>
       fst ` set (d_segments (sp' key)) = fst ` set (d_segments d) - set (concat bs)"
      using Cons.IH [OF idle' mk' dist ne sub cb] by simp_all
    then show ?thesis by (auto simp: ios segs)
  qed
  qed
qed auto

lemma length_batches: "length (batches n xs) \<le> length xs"
proof (induction n xs rule: batches.induct)
  case (1 n xs)
  show ?case
  proof (cases "xs = [] \<or> n = 0")
    case False
    with 1 have "length (batches n (drop n xs)) \<le> length xs - n" by simp
    moreover from False have "0 < length xs" "0 < n" by auto
    ultimately have "length (batches n (drop n xs)) < length xs" by linarith
    with False show ?thesis by (simp add: batches.simps [of n xs])
  qed (auto simp: batches.simps [of n xs])
qed

definition drained :: "(key \<Rightarrow> spool_dir) \<Rightarrow> (key \<Rightarrow> spool_dir) \<Rightarrow> (key \<times> string list) list \<Rightarrow> bool" where
  "drained sp sp' gs \<longleftrightarrow> list_all (\<lambda>(k, ns). d_markers (sp' k) = [] \<and>
     fst ` set (d_segments (sp' k)) = fst ` set (d_segments (sp k)) - set ns) gs"

lemma drained_Nil [simp]: "drained sp sp' []"
  by (simp add: drained_def)

lemma drained_Cons: "drained sp sp' ((k, ns) # gs) \<longleftrightarrow> (d_markers (sp' k) = [] \<and>
    fst ` set (d_segments (sp' k)) = fst ` set (d_segments (sp k)) - set ns) \<and> drained sp sp' gs"
  by (simp add: drained_def)

lemma drainedD: "drained sp sp' gs \<Longrightarrow> (k, ns) \<in> set gs \<Longrightarrow> d_markers (sp' k) = [] \<and>
    fst ` set (d_segments (sp' k)) = fst ` set (d_segments (sp k)) - set ns"
  unfolding drained_def list_all_iff by fastforce

lemma drained_cong: "(\<And>k ns. (k, ns) \<in> set gs \<Longrightarrow> sp1 k = sp k) \<Longrightarrow> drained sp1 sp' gs \<longleftrightarrow> drained sp sp' gs"
proof (induction gs)
  case (Cons grp gs)
  obtain k ns where grp: "grp = (k, ns)" by (cases grp)
  from Cons.prems [of k ns] have "sp1 k = sp k" by (simp add: grp)
  moreover have "drained sp1 sp' gs \<longleftrightarrow> drained sp sp' gs" by (rule Cons.IH) (rule Cons.prems, rule list.set_intros(2))
  ultimately show ?case unfolding grp drained_Cons by simp
qed simp

lemma sum_list_sort: "sum_list (map f (sort xs)) = (sum_list (map f xs) :: nat)"
  by (simp flip: sum_mset_sum_list)

lemma commit_groups_run:
  assumes ok: "digest_ok digest N"
  shows "idle digest N g sp \<Longrightarrow> distinct (map fst gs) \<Longrightarrow>
    \<forall>(k, ns) \<in> set gs. distinct ns \<and> set ns \<subseteq> fst ` set (d_segments (sp k)) \<and> (k \<notin> blocked \<longrightarrow> d_markers (sp k) = []) \<Longrightarrow>
    commit_groups digest gs blocked ios sp res = (completed, sp', res') \<Longrightarrow>
    idle digest N g sp' \<and> (\<forall>k. k \<notin> fst ` set gs \<longrightarrow> sp' k = sp k) \<and>
    (blocked = {} \<and> sum_list (map (\<lambda>(k, ns). length ns) gs) \<le> length ios \<and>
     (\<forall>io \<in> set ios. \<exists>n. io = Some n \<and> MAX_SEGMENTS_PER_COMMIT + 4 \<le> n) \<longrightarrow>
       completed \<and> fr_errors res' = fr_errors res \<and> drained sp sp' gs)"
proof (induction gs arbitrary: ios sp res)
  case (Cons grp gs)
  obtain key ns where grp: "grp = (key, ns)" by (cases grp)
  note prems = Cons.prems [unfolded grp]
  have key: "key \<notin> fst ` set gs" and dist: "distinct (map fst gs)" using prems(2) by auto
  show ?case
  proof (cases "key \<in> blocked")
    case True
    with prems have "commit_groups digest gs blocked ios sp res = (completed, sp', res')"
      "\<forall>(k, ns) \<in> set gs. distinct ns \<and> set ns \<subseteq> fst ` set (d_segments (sp k)) \<and> (k \<notin> blocked \<longrightarrow> d_markers (sp k) = [])" by auto
    moreover from True have "blocked \<noteq> {}" by blast
    ultimately show ?thesis using Cons.IH [OF prems(1) dist, of ios res] unfolding grp by simp
  next
    case False
    let ?bs = "batches MAX_SEGMENTS_PER_COMMIT ns"
    have cc: "concat ?bs = ns" by (rule concat_batches) (simp add: MAX_SEGMENTS_PER_COMMIT_def)
    have ne: "[] \<notin> set ?bs" and small: "\<forall>b \<in> set ?bs. length b \<le> MAX_SEGMENTS_PER_COMMIT"
      using batches_bound by blast+
    from prems(3) False have ns: "distinct ns" "set ns \<subseteq> fst ` set (d_segments (sp key))" "d_markers (sp key) = []" by auto
    obtain alive ios1 sp1 res1 where cb: "commit_batches digest key ?bs ios sp res = (alive, ios1, sp1, res1)"
      by (cases "commit_batches digest key ?bs ios sp res")
    have B: "idle digest N g sp1" "\<forall>k. k \<noteq> key \<longrightarrow> sp1 k = sp k"
      "length ?bs \<le> length ios \<and> (\<forall>io \<in> set ios. \<exists>n. io = Some n \<and> (\<forall>b \<in> set ?bs. length b + 4 \<le> n)) \<longrightarrow>
       alive \<and> ios1 = drop (length ?bs) ios \<and> fr_errors res1 = fr_errors res \<and> d_markers (sp1 key) = [] \<and>
       fst ` set (d_segments (sp1 key)) = fst ` set (d_segments (sp key)) - set ns"
      using commit_batches_run [OF ok prems(1) ns(3) _ ne _ cb] ns unfolding cc by simp_all
    have rich: "alive \<and> ios1 = drop (length ?bs) ios \<and> fr_errors res1 = fr_errors res \<and> d_markers (sp1 key) = [] \<and>
       fst ` set (d_segments (sp1 key)) = fst ` set (d_segments (sp key)) - set ns"
      if "length ns \<le> length ios" "\<forall>io \<in> set ios. \<exists>n. io = Some n \<and> MAX_SEGMENTS_PER_COMMIT + 4 \<le> n"
      using B(3) that small length_batches [of MAX_SEGMENTS_PER_COMMIT ns] by force
    show ?thesis
    proof (cases alive)
      case dead: False
      with prems(4) cb False have "sp' = sp1" by simp
      with B(1,2) rich dead show ?thesis unfolding grp by auto
    next
      case True
      with prems(4) cb False have run: "commit_groups digest gs blocked ios1 sp1 res1 = (completed, sp', res')" by simp
      have keep: "sp1 k = sp k" if "(k, ns') \<in> set gs" for k ns' using B(2) key that by (metis fst_conv image_eqI)
      have "\<forall>(k, ns) \<in> set gs. distinct ns \<and> set ns \<subseteq> fst ` set (d_segments (sp1 k)) \<and> (k \<notin> blocked \<longrightarrow> d_markers (sp1 k) = [])"
      proof (intro ballI case_prodI2)
        fix p k ns'
        assume "p \<in> set gs" "p = (k, ns')"
        then have m: "(k, ns') \<in> set gs" by simp
        with prems(3) have "distinct ns' \<and> set ns' \<subseteq> fst ` set (d_segments (sp k)) \<and> (k \<notin> blocked \<longrightarrow> d_markers (sp k) = [])"
          by fastforce
        with keep [OF m] show "distinct ns' \<and> set ns' \<subseteq> fst ` set (d_segments (sp1 k)) \<and> (k \<notin> blocked \<longrightarrow> d_markers (sp1 k) = [])"
          by simp
      qed
      note I = Cons.IH [OF B(1) dist this run]
      from I key have same: "sp' key = sp1 key" by blast
      from I B(2) have others: "\<forall>k. k \<notin> fst ` set (grp # gs) \<longrightarrow> sp' k = sp k" by (simp add: grp)
      have "completed \<and> fr_errors res' = fr_errors res \<and> drained sp sp' (grp # gs)"
        if R: "blocked = {}" "sum_list (map (\<lambda>(k, ns). length ns) (grp # gs)) \<le> length ios"
          "\<forall>io \<in> set ios. \<exists>n. io = Some n \<and> MAX_SEGMENTS_PER_COMMIT + 4 \<le> n"
      proof -
        have r: "ios1 = drop (length ?bs) ios \<and> fr_errors res1 = fr_errors res \<and> d_markers (sp1 key) = [] \<and>
          fst ` set (d_segments (sp1 key)) = fst ` set (d_segments (sp key)) - set ns"
          using rich R(2,3) by (simp add: grp)
        have "sum_list (map (\<lambda>(k, ns). length ns) gs) \<le> length ios1"
          using R(2) r length_batches [of MAX_SEGMENTS_PER_COMMIT ns] by (simp add: grp)
        moreover have "\<forall>io \<in> set ios1. \<exists>n. io = Some n \<and> MAX_SEGMENTS_PER_COMMIT + 4 \<le> n"
          using R(3) r by (auto dest: in_set_dropD)
        ultimately have "completed \<and> fr_errors res' = fr_errors res1 \<and> drained sp1 sp' gs" using I R(1) by blast
        moreover from this have "drained sp sp' gs" using drained_cong [of gs sp1 sp sp'] keep by blast
        ultimately show ?thesis using r same by (simp add: grp drained_Cons)
      qed
      with I others show ?thesis by blast
    qed
  qed
qed auto

lemma one_marker:
  assumes "digest_ok digest N" and "idle digest N g sp"
  shows "length (d_markers (sp k)) \<le> 1"
proof -
  obtain cs ph where "dir_ok digest N k (g k) (sp k) cs ph" using idle_dir [OF assms] .
  from dir_okD(8) [OF this] show ?thesis by (cases ph) auto
qed

lemma pending_markers_distinct:
  "distinct ks \<Longrightarrow> \<forall>k. length (d_markers (sp k)) \<le> 1 \<Longrightarrow>
     distinct (map fst (concat (map (\<lambda>k. map (Pair k) (sort (map fst (d_markers (sp k))))) ks))) \<and>
     length (concat (map (\<lambda>k. map (Pair k) (sort (map fst (d_markers (sp k))))) ks)) \<le> length ks"
proof (induction ks)
  case (Cons k ks)
  from Cons.prems have "length (d_markers (sp k)) = 0 \<or> length (d_markers (sp k)) = 1" by (metis le_Suc_eq le_zero_eq One_nat_def)
  moreover from Cons have "k \<notin> set ks" by simp
  ultimately show ?case using Cons by (auto simp: length_Suc_conv image_iff)
qed simp

lemma pending_markers_ok:
  assumes "digest_ok digest N" and "idle digest N g sp" and "distinct keys"
  shows "distinct (map fst (pending_markers keys sp))" and "length (pending_markers keys sp) \<le> length keys"
    and "\<forall>(k, name) \<in> set (pending_markers keys sp). name \<in> fst ` set (d_markers (sp k))"
    and "fst ` set (pending_markers keys sp) = {k \<in> set keys. d_markers (sp k) \<noteq> []}"
proof -
  have "distinct (sort keys)" using assms(3) by simp
  from pending_markers_distinct [OF this, of sp] one_marker [OF assms(1,2)]
  show "distinct (map fst (pending_markers keys sp))" and "length (pending_markers keys sp) \<le> length keys"
    by (simp_all add: pending_markers_def)
  show "\<forall>(k, name) \<in> set (pending_markers keys sp). name \<in> fst ` set (d_markers (sp k))"
    by (auto simp: pending_markers_def)
  show "fst ` set (pending_markers keys sp) = {k \<in> set keys. d_markers (sp k) \<noteq> []}"
  proof (intro set_eqI iffI)
    fix k
    assume "k \<in> {k \<in> set keys. d_markers (sp k) \<noteq> []}"
    then obtain m ms where "k \<in> set keys" "d_markers (sp k) = m # ms" by (auto simp: neq_Nil_conv)
    then have "(k, fst m) \<in> set (pending_markers keys sp)" by (force simp: pending_markers_def)
    then show "k \<in> fst ` set (pending_markers keys sp)" by force
  qed (auto simp: pending_markers_def)
qed

lemma pending_groups:
  assumes ok: "digest_ok digest N" and idle: "idle digest N g sp" and keys: "distinct keys"
  shows "distinct (map fst (pending_by_feed_date keys sp))"
    and "sum_list (map (\<lambda>(k, ns). length ns) (pending_by_feed_date keys sp)) \<le> sum_list (map (\<lambda>k. length (g k)) keys)"
    and "\<And>k ns. (k, ns) \<in> set (pending_by_feed_date keys sp) \<Longrightarrow> k \<in> set keys \<and> distinct ns \<and> set ns = fst ` set (d_segments (sp k))"
    and "\<And>k. k \<in> set keys \<Longrightarrow> d_segments (sp k) \<noteq> [] \<Longrightarrow> k \<in> fst ` set (pending_by_feed_date keys sp)"
proof -
  have "distinct ks \<Longrightarrow> distinct (map fst (filter P (map (\<lambda>k. (k, f k)) ks)))" for ks :: "key list" and P and f :: "key \<Rightarrow> string list"
    by (induction ks) auto
  then show "distinct (map fst (pending_by_feed_date keys sp))" using keys by (simp add: pending_by_feed_date_def)
  have seg: "length (d_segments (sp k)) \<le> length (g k) \<and> distinct (map fst (d_segments (sp k)))" for k
  proof -
    obtain cs ph where dir: "dir_ok digest N k (g k) (sp k) cs ph" using idle_dir [OF ok idle] .
    have "length (map fst (d_segments (sp k))) \<le> length (map fst (g k))"
      by (subst dir_okD(9) [OF dir]) (rule length_filter_le)
    with distinct_segments [OF dir] show ?thesis by simp
  qed
  have "sum_list (map (\<lambda>(k, ns). length ns) (filter P (map (\<lambda>k. (k, sort (map fst (d_segments (sp k))))) ks))) \<le>
      sum_list (map (\<lambda>k. length (g k)) ks)" for ks P
  proof (induction ks)
    case (Cons k ks)
    with seg [of k] show ?case by auto
  qed simp
  then show "sum_list (map (\<lambda>(k, ns). length ns) (pending_by_feed_date keys sp)) \<le> sum_list (map (\<lambda>k. length (g k)) keys)"
    unfolding pending_by_feed_date_def sum_list_sort [of "\<lambda>k. length (g k)" keys, symmetric] by blast
  show "\<And>k ns. (k, ns) \<in> set (pending_by_feed_date keys sp) \<Longrightarrow> k \<in> set keys \<and> distinct ns \<and> set ns = fst ` set (d_segments (sp k))"
  proof -
    fix k ns
    assume "(k, ns) \<in> set (pending_by_feed_date keys sp)"
    then have "k \<in> set keys" "ns = sort (map fst (d_segments (sp k)))" by (auto simp: pending_by_feed_date_def)
    with seg [of k] show "k \<in> set keys \<and> distinct ns \<and> set ns = fst ` set (d_segments (sp k))" by simp
  qed
  show "\<And>k. k \<in> set keys \<Longrightarrow> d_segments (sp k) \<noteq> [] \<Longrightarrow> k \<in> fst ` set (pending_by_feed_date keys sp)"
  proof -
    fix k
    assume "k \<in> set keys" "d_segments (sp k) \<noteq> []"
    then have "(k, sort (map fst (d_segments (sp k)))) \<in> set (pending_by_feed_date keys sp)"
      by (simp add: pending_by_feed_date_def) (metis length_0_conv length_map length_sort)
    then show "k \<in> fst ` set (pending_by_feed_date keys sp)" by (rule image_eqI [rotated]) simp
  qed
qed

definition no_failures :: "(key \<Rightarrow> (string \<times> row list) list) \<Rightarrow> key list \<Rightarrow> nat list \<Rightarrow> nat option list \<Rightarrow> bool" where
  "no_failures g keys recover_ios ios \<longleftrightarrow>
     length keys \<le> length recover_ios \<and> (\<forall>io \<in> set recover_ios. \<forall>k \<in> set keys. length (g k) + 1 \<le> io) \<and>
     sum_list (map (\<lambda>k. length (g k)) keys) \<le> length ios \<and>
     (\<forall>io \<in> set ios. \<exists>n. io = Some n \<and> MAX_SEGMENTS_PER_COMMIT + 4 \<le> n)"

lemma flush_run:
  assumes ok: "digest_ok digest N" and idle: "idle digest N g sp" and keys: "distinct keys"
    and flush: "flush digest fs force now finish prev keys recover_ios ios sp = (sp', last', res)"
  shows "idle digest N g sp'"
    and "no_failures g keys recover_ios ios \<Longrightarrow> force \<or> fs \<le> now - prev \<Longrightarrow>
      fr_errors res = [] \<and> last' = finish \<and> (\<forall>k \<in> set keys. d_markers (sp' k) = [] \<and> d_segments (sp' k) = [])"
proof -
  obtain alive sp1 blocked res1 where rc: "recover_commits (pending_markers keys sp) recover_ios sp {} no_result = (alive, sp1, blocked, res1)"
    by (cases "recover_commits (pending_markers keys sp) recover_ios sp {} no_result")
  note P = pending_markers_ok [OF ok idle keys]
  note R = recover_commits_run [OF ok idle P(1,3) rc]
  have quiet: "d_markers (sp1 k) = []" if "alive" "k \<in> set keys" "k \<notin> blocked" for k
  proof (cases "k \<in> fst ` set (pending_markers keys sp)")
    case True
    with R that(1,3) show ?thesis by blast
  next
    case False
    with R have "sp1 k = sp k" by blast
    moreover from False P(4) that(2) have "d_markers (sp k) = []" by blast
    ultimately show ?thesis by simp
  qed
  let ?gs = "pending_by_feed_date keys sp1"
  have idle1: "idle digest N g sp1" using R by blast
  note G = pending_groups [OF ok idle1 keys]
  obtain completed sp2 res2 where cg: "commit_groups digest ?gs blocked ios sp1 res1 = (completed, sp2, res2)"
    by (cases "commit_groups digest ?gs blocked ios sp1 res1")
  have run: "idle digest N g sp2 \<and> (\<forall>k. k \<notin> fst ` set ?gs \<longrightarrow> sp2 k = sp1 k) \<and>
    (blocked = {} \<and> sum_list (map (\<lambda>(k, ns). length ns) ?gs) \<le> length ios \<and>
     (\<forall>io \<in> set ios. \<exists>n. io = Some n \<and> MAX_SEGMENTS_PER_COMMIT + 4 \<le> n) \<longrightarrow>
       completed \<and> fr_errors res2 = fr_errors res1 \<and> drained sp1 sp2 ?gs)" if alive
    using G(3) quiet [OF that] by (intro commit_groups_run [OF ok idle1 G(1) _ cg]) blast
  show "idle digest N g sp'"
    using flush rc cg idle1 run by (auto simp: flush_def split: if_splits)
  assume nf: "no_failures g keys recover_ios ios" and due: "force \<or> fs \<le> now - prev"
  have "length (pending_markers keys sp) \<le> length recover_ios"
    "\<forall>io \<in> set recover_ios. \<forall>k \<in> fst ` set (pending_markers keys sp). length (g k) + 1 \<le> io"
    using P(2) nf unfolding P(4) by (auto simp: no_failures_def)
  with R have "alive" "blocked = {}" "res1 = no_result" by blast+
  moreover have "sum_list (map (\<lambda>(k, ns). length ns) ?gs) \<le> length ios" using G(2) nf by (simp add: no_failures_def)
  moreover have "\<forall>io \<in> set ios. \<exists>n. io = Some n \<and> MAX_SEGMENTS_PER_COMMIT + 4 \<le> n" using nf by (simp add: no_failures_def)
  ultimately have "completed \<and> fr_errors res2 = fr_errors res1 \<and> drained sp1 sp2 ?gs" using run by blast
  then have C: "completed" "fr_errors res2 = []" "drained sp1 sp2 ?gs"
    using \<open>res1 = no_result\<close> by (simp_all add: no_result_def)
  have same: "sp2 k = sp1 k" if "k \<notin> fst ` set ?gs" for k using run \<open>alive\<close> that by blast
  have res: "sp' = sp2" "last' = finish" "res = res2"
    using flush rc cg \<open>alive\<close> due C(1,2) by (auto simp: flush_def split: if_splits)
  have "d_markers (sp2 k) = [] \<and> d_segments (sp2 k) = []" if k: "k \<in> set keys" for k
  proof (cases "k \<in> fst ` set ?gs")
    case True
    then obtain ns where ns: "(k, ns) \<in> set ?gs" by auto
    from drainedD [OF C(3) ns] G(3) [OF ns] show ?thesis by simp
  next
    case False
    with same [of k] G(4) [OF k] quiet [OF \<open>alive\<close> k] \<open>blocked = {}\<close> show ?thesis by auto
  qed
  with res C(2) show "fr_errors res = [] \<and> last' = finish \<and> (\<forall>k \<in> set keys. d_markers (sp' k) = [] \<and> d_segments (sp' k) = [])"
    by simp
qed

subsection \<open>Properties\<close>

definition demo_key :: key where
  "demo_key = (''tripupdates'', ''2026-01-01'')"

definition demo_rows :: "row list" where
  "demo_rows = [[(''trip_id'', PStr ''t1'')], [(''trip_id'', PStr ''t2'')]]"

definition demo_digest :: "string \<Rightarrow> string" where
  "demo_digest s = replicate 20 CHR ''0''"

definition demo_name :: string where
  "demo_name = segment_name ''20260101T000000'' ''ab''"

definition demo_spool :: "key \<Rightarrow> spool_dir" where
  "demo_spool = snd (stage Written ''ab'' demo_key ''20260101T000000'' demo_rows (\<lambda>_. empty_dir))"

definition demo_staged :: "key \<Rightarrow> (string \<times> row list) list" where
  "demo_staged = (\<lambda>_. [])(demo_key := [(demo_name, demo_rows)])"

lemma demo_digest_ok: "digest_ok demo_digest {demo_name}"
proof -
  have "b = [demo_name]" if "b \<noteq> []" "distinct b" "set b \<subseteq> {demo_name}" for b
    using that by (cases b; cases "tl b") auto
  then show ?thesis by (auto simp: digest_ok_def demo_digest_def inj_on_def)
qed

lemma demo_idle: "idle demo_digest {demo_name} demo_staged demo_spool"
proof -
  let ?s = "\<lparr>sy_spool = (\<lambda>_. empty_dir), sy_plan = None, sy_staged = (\<lambda>_. [])\<rparr>"
  obtain res where st: "stage Written ''ab'' demo_key ''20260101T000000'' demo_rows (\<lambda>_. empty_dir) = (res, demo_spool)"
    by (cases "stage Written ''ab'' demo_key ''20260101T000000'' demo_rows (\<lambda>_. empty_dir)") (simp add: demo_spool_def)
  have seg: "map_of (d_segments (demo_spool demo_key)) demo_name \<noteq> None"
    by (simp add: demo_spool_def stage_def build_segment_def demo_key_def demo_rows_def demo_name_def FEED_NAMES_def empty_dir_def Let_def)
  have "plain_rows demo_rows" by (simp add: plain_rows_def demo_rows_def plain_value_def)
  then have step: "spool_step demo_digest {demo_name} ?s
      (?s\<lparr>sy_spool := demo_spool, sy_staged := staged_now demo_key demo_name demo_rows demo_spool (\<lambda>_. [])\<rparr>)"
    using step_stage [of "''20260101T000000''" "''ab''" "{demo_name}" ?s demo_key demo_rows Written res demo_spool demo_digest] st
    by (simp add: demo_name_def)
  have "reachable spool_init (spool_step demo_digest {demo_name}) ?s" by (rule reach_init) (simp add: spool_init_def)
  from reach_step [OF this step] have "reachable spool_init (spool_step demo_digest {demo_name})
      (?s\<lparr>sy_spool := demo_spool, sy_staged := staged_now demo_key demo_name demo_rows demo_spool (\<lambda>_. [])\<rparr>)" .
  moreover from seg obtain y where "map_of (d_segments (demo_spool demo_key)) demo_name = Some y" by auto
  then have "staged_now demo_key demo_name demo_rows demo_spool (\<lambda>_. []) = demo_staged"
    by (simp add: staged_now_def demo_staged_def)
  ultimately show ?thesis by (simp add: idle_def)
qed

text \<open>
  Claim C1. The spool stores every staged row exactly once. In every state that staging, commits,
  recoveries and interruptions at any file operation can reach, the rows of the Parquet files and of
  the segments not awaiting deletion are, as a multiset, the rows of all polls ever staged: an
  interruption neither loses nor duplicates a row.
\<close>

theorem spool_exactly_once:
  assumes "digest_ok digest N" and "reachable spool_init (spool_step digest N) s"
  shows "mset (parquet_rows (sy_spool s key)) + mset (spooled_rows (fst key) (sy_spool s key)) =
    mset (concat (map snd (sy_staged s key)))"
  using reachable_dir [OF assms, of key] durable_rows [OF assms(1)] by blast

lemma spool_exactly_once_witness:
  "mset (parquet_rows (demo_spool demo_key)) + mset (spooled_rows (fst demo_key) (demo_spool demo_key)) = mset demo_rows"
  using spool_exactly_once [OF demo_digest_ok demo_idle [unfolded idle_def], of demo_key] by (simp add: demo_staged_def)

text \<open>
  Claim C10. \<^verbatim>\<open>flush\<close> is a run of that system: whatever operation fails or whenever the process dies in a
  marker or a batch, the state it leaves is reachable, and no commit starts in a directory that still has a marker.
\<close>

theorem flush_is_a_run:
  assumes "digest_ok digest N" and "idle digest N g sp" and "distinct keys"
    and "flush digest flush_seconds force now finish prev keys recover_ios ios sp = (sp', prev', res)"
  shows "idle digest N g sp'"
  using flush_run(1) [OF assms] .

lemma flush_is_a_run_witness:
  "idle demo_digest {demo_name} demo_staged (fst (flush demo_digest 60 True 0 1 0 [demo_key] [] [Some 3] demo_spool))"
  using flush_is_a_run [OF demo_digest_ok demo_idle, of "[demo_key]" 60 True 0 1 0 "[]" "[Some 3]"]
  by (cases "flush demo_digest 60 True 0 1 0 [demo_key] [] [Some 3] demo_spool") simp

text \<open>
  Claim C2. A due flush without failures drains the spool: it reports no error, remembers its time,
  leaves no segment and no marker for the keys it visits, and the Parquet files hold all staged rows.
\<close>

theorem flush_drains:
  assumes "digest_ok digest N" and "idle digest N g sp" and "distinct keys" and "no_failures g keys recover_ios ios"
    and "force \<or> flush_seconds \<le> now - prev" and "key \<in> set keys"
    and "flush digest flush_seconds force now finish prev keys recover_ios ios sp = (sp', prev', res)"
  shows "fr_errors res = [] \<and> prev' = finish \<and> d_segments (sp' key) = [] \<and> d_markers (sp' key) = [] \<and>
    mset (parquet_rows (sp' key)) = mset (concat (map snd (g key)))"
proof -
  note R = flush_run [OF assms(1-3,7)]
  from R(2) [OF assms(4,5)] assms(6) have E: "fr_errors res = []" "prev' = finish" "d_segments (sp' key) = []" "d_markers (sp' key) = []"
    by auto
  obtain cs ph where "dir_ok digest N key (g key) (sp' key) cs ph" using idle_dir [OF assms(1) R(1)] .
  from durable_rows [OF assms(1) this] E show ?thesis by (simp add: spooled_rows_def)
qed

lemma flush_drains_witness:
  "d_segments (fst (flush demo_digest 60 True 0 1 0 [demo_key] [24] [Some 24] demo_spool) demo_key) = [] \<and>
   mset (parquet_rows (fst (flush demo_digest 60 True 0 1 0 [demo_key] [24] [Some 24] demo_spool) demo_key)) = mset demo_rows"
proof -
  have "no_failures demo_staged [demo_key] [24] [Some 24]"
    by (simp add: no_failures_def demo_staged_def MAX_SEGMENTS_PER_COMMIT_def)
  from flush_drains [OF demo_digest_ok demo_idle _ this, of True 60 0 0 demo_key 1] show ?thesis
    by (cases "flush demo_digest 60 True 0 1 0 [demo_key] [24] [Some 24] demo_spool") (simp add: demo_staged_def)
qed

end
