(* ===== verification/Commit_Worker.thy ===== *)
theory Commit_Worker
  imports Spool_Safety
begin

section \<open>The background commit worker (bkk_collector/storage/parquet\_worker.py)\<close>

text \<open>
  One thread that flushes the spool again and again and publishes how the last flush went. The thread is
  modelled by its iterations: the critical sections before and after a flush, the flush, and the wait.
\<close>

record worker =
  w_stop :: bool
  w_thread :: "bool option"
  w_active_started_monotonic :: seconds
  w_running :: bool
  w_errors :: "(key \<times> spool_error) list option"
  w_last_started_at :: "seconds option"
  w_last_finished_at :: "seconds option"
  w_last_duration_seconds :: "seconds option"
  w_last_rows_written :: int
  w_last_files_written :: nat

text \<open>\<open>w_thread\<close> is \<open>None\<close> before \<^verbatim>\<open>start\<close> and then says whether the thread is alive; \<open>w_errors = None\<close>
  stands for the one message of an exception that escaped from \<^verbatim>\<open>flush\<close>.\<close>

definition new_worker :: worker where
  "new_worker = \<lparr>w_stop = False, w_thread = None, w_active_started_monotonic = 0, w_running = False,
     w_errors = Some [], w_last_started_at = None, w_last_finished_at = None,
     w_last_duration_seconds = None, w_last_rows_written = 0, w_last_files_written = 0\<rparr>"

definition start_worker :: "worker \<Rightarrow> worker option" where
  "start_worker w = (if w_thread w \<noteq> None then None else Some (w\<lparr>w_thread := Some True\<rparr>))"

definition begin_flush :: "seconds \<Rightarrow> seconds \<Rightarrow> worker \<Rightarrow> worker" where
  "begin_flush now wall w = w\<lparr>w_active_started_monotonic := now, w_running := True, w_last_started_at := Some wall\<rparr>"

definition end_flush :: "seconds \<Rightarrow> seconds \<Rightarrow> flush_result option \<Rightarrow> worker \<Rightarrow> worker" where
  "end_flush now wall res w =
     w\<lparr>w_running := False, w_errors := map_option fr_errors res, w_last_finished_at := Some wall,
       w_last_duration_seconds := Some (now - w_active_started_monotonic w),
       w_last_rows_written := (case res of None \<Rightarrow> 0 | Some r \<Rightarrow> fr_rows r),
       w_last_files_written := (case res of None \<Rightarrow> 0 | Some r \<Rightarrow> length (fr_files r))\<rparr>"

definition retry_wait :: "seconds \<Rightarrow> worker \<Rightarrow> seconds" where
  "retry_wait flush_seconds w = (if w_errors w \<noteq> Some [] then 30 else max 1 flush_seconds)"

text \<open>
  What an iteration depends on: the clock before, during and after the flush, the directories that exist
  and the budgets of the file operations.
\<close>

record iteration =
  i_started :: seconds
  i_started_wall :: seconds
  i_finish :: seconds
  i_finished :: seconds
  i_finished_wall :: seconds
  i_keys :: "key list"
  i_recover_ios :: "nat list"
  i_ios :: "nat option list"

definition worker_iteration ::
  "(string \<Rightarrow> string) \<Rightarrow> seconds \<Rightarrow> iteration \<Rightarrow> (key \<Rightarrow> spool_dir) \<times> seconds \<times> worker \<Rightarrow>
   (key \<Rightarrow> spool_dir) \<times> seconds \<times> worker" where
  "worker_iteration digest flush_seconds i s =
     (case s of (sp, last_flush, w) \<Rightarrow>
        if w_stop w then s
        else case flush digest flush_seconds True (i_started i) (i_finish i) last_flush (i_keys i) (i_recover_ios i) (i_ios i) sp of
            (sp', last', res) \<Rightarrow>
              (sp', last', end_flush (i_finished i) (i_finished_wall i) (Some res)
                             (begin_flush (i_started i) (i_started_wall i) w)))"

record worker_status =
  ws_running :: bool
  ws_error_count :: nat
  ws_active_seconds :: seconds
  ws_alive :: bool

definition worker_snapshot :: "seconds \<Rightarrow> worker \<Rightarrow> worker_status" where
  "worker_snapshot now w =
     \<lparr>ws_running = w_running w,
      ws_error_count = (case w_errors w of None \<Rightarrow> 1 | Some es \<Rightarrow> length es),
      ws_active_seconds = (if w_running w then max 0 (now - w_active_started_monotonic w) else 0),
      ws_alive = (w_thread w = Some True)\<rparr>"

text \<open>\<open>ends\<close> says whether the thread ends within the timeout of \<^verbatim>\<open>join\<close>.\<close>

definition stop_worker :: "bool \<Rightarrow> seconds \<Rightarrow> worker \<Rightarrow> bool \<times> worker" where
  "stop_worker ends now w =
     (let w' = w\<lparr>w_stop := True, w_thread := (if w_thread w = Some True \<and> ends then Some False else w_thread w)\<rparr>
      in (\<not> ws_alive (worker_snapshot now w'), w'))"

subsection \<open>Properties\<close>

text \<open>
  The worker keeps the spool sound. After any number of iterations, with failures or an
  interruption in any of them, the spool is in a reachable state, so each staged row is stored exactly once.
\<close>

theorem worker_keeps_spool:
  assumes "digest_ok digest N" and "idle digest N g sp" and "list_all (\<lambda>i. distinct (i_keys i)) is"
    and "fold (worker_iteration digest flush_seconds) is (sp, last_flush, w) = (sp', last_flush', w')"
  shows "idle digest N g sp' \<and>
    mset (parquet_rows (sp' key)) + mset (spooled_rows (fst key) (sp' key)) = mset (concat (map snd (g key)))"
proof -
  have "idle digest N g sp'"
    using assms(2-4)
  proof (induction "is" arbitrary: sp last_flush w)
    case (Cons i "is")
    obtain sp1 l1 w1 where it: "worker_iteration digest flush_seconds i (sp, last_flush, w) = (sp1, l1, w1)"
      by (cases "worker_iteration digest flush_seconds i (sp, last_flush, w)")
    obtain sp2 l2 res where fl: "flush digest flush_seconds True (i_started i) (i_finish i) last_flush (i_keys i)
        (i_recover_ios i) (i_ios i) sp = (sp2, l2, res)"
      by (cases "flush digest flush_seconds True (i_started i) (i_finish i) last_flush (i_keys i) (i_recover_ios i) (i_ios i) sp")
    have "distinct (i_keys i)" using Cons.prems(2) by simp
    from flush_run(1) [OF assms(1) Cons.prems(1) this fl] have "idle digest N g sp1"
      using it fl Cons.prems(1) by (auto simp: worker_iteration_def split: if_splits)
    from Cons.IH [OF this] Cons.prems(2,3) it show ?case by simp
  qed simp
  moreover from this obtain cs ph where "dir_ok digest N key (g key) (sp' key) cs ph" using idle_dir [OF assms(1)] by blast
  ultimately show ?thesis using durable_rows [OF assms(1)] by blast
qed

definition demo_iteration :: iteration where
  "demo_iteration = \<lparr>i_started = 0, i_started_wall = 0, i_finish = 1, i_finished = 1, i_finished_wall = 1,
     i_keys = [demo_key], i_recover_ios = [], i_ios = [Some 2]\<rparr>"

lemma worker_keeps_spool_witness:
  "idle demo_digest {demo_name} demo_staged
     (fst (fold (worker_iteration demo_digest 60) [demo_iteration, demo_iteration] (demo_spool, 0, new_worker)))"
  using worker_keeps_spool [OF demo_digest_ok demo_idle, of "[demo_iteration, demo_iteration]" 60 0 new_worker]
  by (cases "fold (worker_iteration demo_digest 60) [demo_iteration, demo_iteration] (demo_spool, 0, new_worker)")
    (simp add: demo_iteration_def)

end
