(* ===== verification/Monitoring.thy ===== *)
theory Monitoring
  imports Messages Scheduler Commit_Worker
begin

section \<open>Freshness and health (bkk_collector/monitoring.py)\<close>

text \<open>
  The health monitor keeps one record per feed. \<^verbatim>\<open>record_success\<close> and \<^verbatim>\<open>record_failure\<close> update it after
  each poll; \<^verbatim>\<open>write_status\<close> turns the records, the scheduler's snapshot, the disk and the commit
  worker into reasons, which make the collector unhealthy, and warnings, which do not. A field that the
  dictionary of a feed may lack is an option. The rendering of a time as text (\<^verbatim>\<open>utc_iso\<close>) is a parameter.
\<close>

subsection \<open>Entities of a feed\<close>

definition entity_timestamps :: "feed \<Rightarrow> entity \<Rightarrow> uint64 list" where
  "entity_timestamps f e =
     (case f of
        Vehiclepositions \<Rightarrow> (case Option.bind (en_vehicle e) vp_timestamp of Some t \<Rightarrow> [t] | None \<Rightarrow> [])
      | Tripupdates \<Rightarrow> (case Option.bind (en_trip_update e) tu_timestamp of Some t \<Rightarrow> [t] | None \<Rightarrow> [])
      | Alerts \<Rightarrow>
          (case Option.bind (Option.bind (en_alert e) al_realcity) ra_modified_time of Some t \<Rightarrow> [t] | None \<Rightarrow> []))"

definition entity_timestamp_range :: "feed \<Rightarrow> entity list \<Rightarrow> int option \<times> int option" where
  "entity_timestamp_range f es =
     (let values = map uint (concat (map (entity_timestamps f) es))
      in if values \<noteq> [] then (Some (Min (set values)), Some (Max (set values))) else (None, None))"

subsection \<open>State\<close>

record health_config =
  hc_stale_seconds :: seconds
  hc_absent_seconds :: seconds
  hc_frozen_seconds :: seconds
  hc_alerts_frozen_seconds :: seconds

record feed_health =
  fh_content_sha256 :: "string option"
  fh_payload_sha256 :: "string option"
  fh_payload_unchanged_since :: "seconds option"
  fh_header_unchanged_since :: "seconds option"
  fh_header_timestamp :: "int option"
  fh_last_success_timestamp :: "seconds option"
  fh_last_attempt_at :: string
  fh_last_http_status :: "int option"
  fh_last_payload_size :: "int option"
  fh_entity_range :: "int option \<times> int option"
  fh_entity_count :: "int option"
  fh_consecutive_failures :: int
  fh_evidence_ok :: "(string \<times> bool) list"
  fh_change_tracking_failure_flag :: "string option"
  fh_freshness_flags :: "string list"
  fh_last_error :: "string option"
  fh_poll_journal_ok :: "bool option"

definition no_health :: feed_health where
  "no_health = \<lparr>fh_content_sha256 = None, fh_payload_sha256 = None, fh_payload_unchanged_since = None,
     fh_header_unchanged_since = None, fh_header_timestamp = None, fh_last_success_timestamp = None,
     fh_last_attempt_at = [], fh_last_http_status = None, fh_last_payload_size = None,
     fh_entity_range = (None, None), fh_entity_count = None, fh_consecutive_failures = 0,
     fh_evidence_ok = [], fh_change_tracking_failure_flag = None, fh_freshness_flags = [],
     fh_last_error = None, fh_poll_journal_ok = None\<rparr>"

text \<open>The monitor in memory, and what \<^verbatim>\<open>freshness_state.json\<close> holds.\<close>

record monitor =
  m_feeds :: "feed \<Rightarrow> feed_health"
  m_saved :: "(feed \<Rightarrow> feed_health) option"

definition load_monitor :: "(feed \<Rightarrow> feed_health) option \<Rightarrow> monitor" where
  "load_monitor saved =
     \<lparr>m_feeds = (case saved of None \<Rightarrow> (\<lambda>_. no_health) | Some fs \<Rightarrow> fs), m_saved = saved\<rparr>"

record poll_report =
  rp_now :: seconds
  rp_header_timestamp :: "int option"
  rp_content_sha256 :: string
  rp_entity_range :: "int option \<times> int option"
  rp_parse_ok :: bool
  rp_presence_ok :: bool
  rp_change_tracking_ok :: bool
  rp_change_tracking_failure_flag :: "string option"
  rp_raw_ok :: bool
  rp_spool_ok :: bool
  rp_entity_count :: "int option"
  rp_response_received_at :: string
  rp_http_status :: "int option"
  rp_payload_size :: int

subsection \<open>Operations\<close>

definition evaluate_freshness ::
  "seconds \<Rightarrow> int option \<Rightarrow> seconds \<Rightarrow> seconds \<Rightarrow> seconds \<Rightarrow> seconds \<Rightarrow> string list" where
  "evaluate_freshness now header_timestamp header_unchanged_since payload_unchanged_since stale frozen =
     (case header_timestamp of
        None \<Rightarrow> []
      | Some t \<Rightarrow> if now - of_int t > stale then [''source_timestamp_stale''] else []) @
     (if now - payload_unchanged_since > frozen then [''payload_frozen''] else []) @
     (if now - header_unchanged_since > frozen then [''source_timestamp_frozen''] else [])"

text \<open>The alert feed is event-driven: its unchanged timestamps and payloads are advisory.\<close>

definition alert_flags :: "int option \<Rightarrow> string list \<Rightarrow> string list" where
  "alert_flags entity_count flags =
     (let stale = [''source_timestamp_stale'', ''source_timestamp_frozen''];
          flags1 = [f \<leftarrow> flags. f \<notin> set stale] @
                   (if list_ex (\<lambda>f. f \<in> set flags) stale then [''source_timestamp_unchanged_warning''] else [])
      in if ''payload_frozen'' \<in> set flags1
         then [f \<leftarrow> flags1. f \<noteq> ''payload_frozen''] @
              (case entity_count of
                 Some n \<Rightarrow> if n \<noteq> 0 then [''payload_unchanged_warning''] else []
               | None \<Rightarrow> [])
         else flags1)"

definition evidence_flags :: "health_config \<Rightarrow> feed \<Rightarrow> poll_report \<Rightarrow> string list" where
  "evidence_flags cfg f r =
     (if \<not> rp_parse_ok r then [''protobuf_parse_failed''] else []) @
     (if \<not> rp_change_tracking_ok r
      then [case rp_change_tracking_failure_flag r of
              None \<Rightarrow> ''change_tracker_failed''
            | Some flag \<Rightarrow> if flag = [] then ''change_tracker_failed'' else flag] else []) @
     (if f \<noteq> Alerts \<and> (case snd (rp_entity_range r) of None \<Rightarrow> False
                         | Some t \<Rightarrow> rp_now r - of_int t > hc_stale_seconds cfg)
      then [''entity_timestamp_stale''] else []) @
     (if \<not> rp_raw_ok r then [''raw_archive_failed''] else []) @
     (if \<not> rp_spool_ok r then [''derived_spool_failed''] else []) @
     (if \<not> rp_presence_ok r then [''tripupdates_presence_failed''] else [])"

definition update_timers :: "poll_report \<Rightarrow> feed_health \<Rightarrow> feed_health" where
  "update_timers r s =
     (let previous = (case fh_content_sha256 s of None \<Rightarrow> fh_payload_sha256 s | Some h \<Rightarrow> Some h);
          s1 = (if previous \<noteq> Some (rp_content_sha256 r)
                then s\<lparr>fh_payload_unchanged_since := Some (rp_now r)\<rparr> else s);
          s2 = (if fh_header_timestamp s1 \<noteq> rp_header_timestamp r
                then s1\<lparr>fh_header_unchanged_since := Some (rp_now r)\<rparr> else s1);
          s3 = (if fh_payload_unchanged_since s2 = None
                then s2\<lparr>fh_payload_unchanged_since := Some (rp_now r)\<rparr> else s2)
      in if fh_header_unchanged_since s3 = None
         then s3\<lparr>fh_header_unchanged_since := Some (rp_now r)\<rparr> else s3)"

definition since :: "seconds option \<Rightarrow> seconds" where
  "since t = (case t of None \<Rightarrow> 0 | Some x \<Rightarrow> x)"

definition success_flags :: "health_config \<Rightarrow> feed \<Rightarrow> poll_report \<Rightarrow> feed_health \<Rightarrow> string list" where
  "success_flags cfg f r s =
     (let frozen = (if f = Alerts then hc_alerts_frozen_seconds cfg else hc_frozen_seconds cfg);
          flags = evaluate_freshness (rp_now r) (rp_header_timestamp r) (since (fh_header_unchanged_since s))
                    (since (fh_payload_unchanged_since s)) (hc_stale_seconds cfg) frozen
      in sort (remdups ((if f = Alerts then alert_flags (rp_entity_count r) flags else flags) @ evidence_flags cfg f r)))"

text \<open>\<open>save_ok\<close> says whether writing the state file succeeds; otherwise the call raises after its update.\<close>

definition record_success ::
  "health_config \<Rightarrow> (seconds \<Rightarrow> string) \<Rightarrow> bool \<Rightarrow> feed \<Rightarrow> poll_report \<Rightarrow> monitor \<Rightarrow> string list option \<times> monitor" where
  "record_success cfg utc_iso save_ok f r m =
     (let s = update_timers r (m_feeds m f);
          flags = success_flags cfg f r s;
          s' = s\<lparr>fh_last_success_timestamp := Some (rp_now r),
                 fh_last_attempt_at := (if rp_response_received_at r \<noteq> [] then rp_response_received_at r else utc_iso (rp_now r)),
                 fh_last_http_status := rp_http_status r, fh_last_payload_size := Some (rp_payload_size r),
                 fh_header_timestamp := rp_header_timestamp r, fh_content_sha256 := Some (rp_content_sha256 r),
                 fh_entity_range := rp_entity_range r, fh_entity_count := rp_entity_count r,
                 fh_consecutive_failures := 0,
                 fh_evidence_ok := [(''parse_ok'', rp_parse_ok r), (''presence_ok'', rp_presence_ok r),
                    (''change_tracking_ok'', rp_change_tracking_ok r), (''raw_ok'', rp_raw_ok r), (''spool_ok'', rp_spool_ok r)],
                 fh_change_tracking_failure_flag := rp_change_tracking_failure_flag r,
                 fh_freshness_flags := flags\<rparr>;
          feeds = (m_feeds m)(f := s')
      in if save_ok then (Some flags, m\<lparr>m_feeds := feeds, m_saved := Some feeds\<rparr>)
         else (None, m\<lparr>m_feeds := feeds\<rparr>))"

definition record_failure ::
  "(seconds \<Rightarrow> string) \<Rightarrow> bool \<Rightarrow> feed \<Rightarrow> seconds \<Rightarrow> string \<Rightarrow> int option \<Rightarrow> monitor \<Rightarrow> bool \<times> monitor" where
  "record_failure utc_iso save_ok f now error http_status m =
     (let s = m_feeds m f;
          s' = s\<lparr>fh_last_attempt_at := utc_iso now, fh_last_error := Some error, fh_last_http_status := http_status,
                 fh_consecutive_failures := fh_consecutive_failures s + 1\<rparr>;
          feeds = (m_feeds m)(f := s')
      in (save_ok, if save_ok then m\<lparr>m_feeds := feeds, m_saved := Some feeds\<rparr> else m\<lparr>m_feeds := feeds\<rparr>))"

definition set_poll_journal_ok :: "feed \<Rightarrow> bool \<Rightarrow> monitor \<Rightarrow> monitor" where
  "set_poll_journal_ok f ok m = m\<lparr>m_feeds := (m_feeds m)(f := (m_feeds m f)\<lparr>fh_poll_journal_ok := Some ok\<rparr>)\<rparr>"

subsection \<open>The status\<close>

definition about :: "feed \<Rightarrow> string \<Rightarrow> string" where
  "about f s = feed_name f @ '':'' @ s"

definition is_warning :: "string \<Rightarrow> bool" where
  "is_warning flag \<longleftrightarrow> drop (length flag - length ''_warning'') flag = ''_warning''"

definition absence_limit :: "health_config \<Rightarrow> feed_snapshot option \<Rightarrow> seconds" where
  "absence_limit cfg sched =
     max (hc_absent_seconds cfg) (case sched of None \<Rightarrow> 0 | Some s \<Rightarrow> ss_interval_seconds s * 3)"

definition seconds_since_success :: "seconds \<Rightarrow> feed_health \<Rightarrow> seconds option" where
  "seconds_since_success now s = map_option (\<lambda>t. max 0 (now - t)) (fh_last_success_timestamp s)"

definition schedule_reasons :: "feed \<Rightarrow> feed_snapshot \<Rightarrow> string list" where
  "schedule_reasons f s =
     (let interval = ss_interval_seconds s in
      (case ss_in_flight_seconds s of
         None \<Rightarrow> []
       | Some t \<Rightarrow> if interval \<noteq> 0 \<and> t > max (interval * 3) 60 then [about f ''request_stuck''] else []) @
      (if interval \<noteq> 0 \<and> ss_next_deadline_in_seconds s < - interval then [about f ''scheduler_overdue''] else []))"

definition schedule_warnings :: "feed \<Rightarrow> feed_snapshot \<Rightarrow> string list" where
  "schedule_warnings f s =
     (let interval = ss_interval_seconds s in
      (case ss_in_flight_seconds s of
         None \<Rightarrow> []
       | Some t \<Rightarrow> if interval \<noteq> 0 \<and> t > interval then [about f ''request_exceeds_cadence''] else []) @
      (if ss_missed_since_last_request s \<noteq> 0 \<or>
          (case ss_seconds_since_missed_deadline s of None \<Rightarrow> False | Some t \<Rightarrow> t < 300)
       then [about f ''scheduler_missed_deadline''] else []))"

definition feed_reasons :: "health_config \<Rightarrow> seconds \<Rightarrow> feed_snapshot option \<Rightarrow> feed \<Rightarrow> feed_health \<Rightarrow> string list" where
  "feed_reasons cfg now sched f s =
     (if (case seconds_since_success now s of None \<Rightarrow> True | Some absence \<Rightarrow> absence > absence_limit cfg sched)
      then [about f ''absent''] else []) @
     (if fh_consecutive_failures s \<noteq> 0 then [about f ''http_failed''] else []) @
     (if fh_poll_journal_ok s = Some False then [about f ''poll_journal_failed''] else []) @
     map (about f) [flag \<leftarrow> fh_freshness_flags s. \<not> is_warning flag] @
     (case sched of None \<Rightarrow> [] | Some sc \<Rightarrow> schedule_reasons f sc)"

definition feed_warnings :: "feed_snapshot option \<Rightarrow> feed \<Rightarrow> feed_health \<Rightarrow> string list" where
  "feed_warnings sched f s =
     map (about f) [flag \<leftarrow> fh_freshness_flags s. is_warning flag] @
     (case sched of None \<Rightarrow> [] | Some sc \<Rightarrow> schedule_warnings f sc)"

record status =
  st_healthy :: bool
  st_reasons :: "string list"
  st_warnings :: "string list"
  st_feeds :: "(feed \<times> feed_health \<times> seconds option \<times> seconds) list"

record status_inputs =
  si_now :: seconds
  si_disk_free :: int
  si_disk_warn :: int
  si_disk_critical :: int
  si_parquet_flush_errors :: "string list"
  si_cycle_errors :: "string list"
  si_scheduler :: "(feed \<times> feed_snapshot) list"
  si_worker :: "worker_status option"

text \<open>An absent scheduler argument is the empty list: a feed without an entry has no schedule.\<close>

definition global_reasons :: "status_inputs \<Rightarrow> string list" where
  "global_reasons i =
     (if si_disk_free i < si_disk_critical i then [''disk:critical'']
      else if si_disk_free i < si_disk_warn i then [''disk:low''] else []) @
     (if si_parquet_flush_errors i \<noteq> [] then [''parquet_flush_failed''] else []) @
     (if si_cycle_errors i \<noteq> [] then [''cycle_storage_error''] else []) @
     (case si_worker i of
        None \<Rightarrow> []
      | Some w \<Rightarrow> (if \<not> ws_alive w then [''parquet_worker_stopped''] else []) @
                  (if ws_active_seconds w > 600 then [''parquet_worker_stuck''] else []))"

definition write_status :: "health_config \<Rightarrow> status_inputs \<Rightarrow> monitor \<Rightarrow> status" where
  "write_status cfg i m =
     (let sched = map_of (si_scheduler i);
          reasons = concat (map (\<lambda>f. feed_reasons cfg (si_now i) (sched f) f (m_feeds m f)) FEED_NAMES) @ global_reasons i;
          warnings = concat (map (\<lambda>f. feed_warnings (sched f) f (m_feeds m f)) FEED_NAMES)
      in \<lparr>st_healthy = (reasons = []), st_reasons = sort (remdups reasons), st_warnings = sort (remdups warnings),
          st_feeds = map (\<lambda>f. (f, m_feeds m f, seconds_since_success (si_now i) (m_feeds m f),
                               absence_limit cfg (sched f))) FEED_NAMES\<rparr>)"

text \<open>\<open>data_poll_success\<close> reads a journal event: every piece of evidence on the normal path succeeded.\<close>

definition not_false :: "row \<Rightarrow> string \<Rightarrow> bool" where
  "not_false event field \<longleftrightarrow> map_of event field \<noteq> Some (PBool False)"

definition data_poll_success :: "row \<Rightarrow> bool" where
  "data_poll_success event \<longleftrightarrow>
     truthy (row_get event ''success'') \<and> truthy (row_get event ''parse_ok'') \<and>
     list_all (not_false event) [''raw_ok'', ''spool_ok'', ''change_tracking_ok''] \<and>
     (\<not> truthy (row_get event ''presence_required'') \<or> row_get event ''presence_ok'' = PBool True)"

subsection \<open>Histories of operations\<close>

datatype health_op =
    Succeeded feed poll_report bool
  | Failed feed seconds string "int option" bool
  | Journalled feed bool

fun apply_health_op :: "health_config \<Rightarrow> (seconds \<Rightarrow> string) \<Rightarrow> health_op \<Rightarrow> monitor \<Rightarrow> monitor" where
  "apply_health_op cfg utc_iso (Succeeded f r save_ok) m = snd (record_success cfg utc_iso save_ok f r m)"
| "apply_health_op cfg utc_iso (Failed f now error http save_ok) m = snd (record_failure utc_iso save_ok f now error http m)"
| "apply_health_op cfg utc_iso (Journalled f ok) m = set_poll_journal_ok f ok m"

definition health_after :: "health_config \<Rightarrow> (seconds \<Rightarrow> string) \<Rightarrow> health_op list \<Rightarrow> monitor" where
  "health_after cfg utc_iso ops = fold (apply_health_op cfg utc_iso) ops (load_monitor None)"

fun is_poll_of :: "feed \<Rightarrow> health_op \<Rightarrow> bool" where
  "is_poll_of f (Succeeded g r b) \<longleftrightarrow> g = f"
| "is_poll_of f (Failed g t e h b) \<longleftrightarrow> g = f"
| "is_poll_of f (Journalled g ok) \<longleftrightarrow> False"

fun report_of :: "feed \<Rightarrow> health_op \<Rightarrow> poll_report option" where
  "report_of f (Succeeded g r b) = (if g = f then Some r else None)"
| "report_of f _ = None"

definition reports_of :: "feed \<Rightarrow> health_op list \<Rightarrow> poll_report list" where
  "reports_of f ops = List.map_filter (report_of f) ops"

definition evidence_ok :: "poll_report \<Rightarrow> bool" where
  "evidence_ok r \<longleftrightarrow> rp_parse_ok r \<and> rp_change_tracking_ok r \<and> rp_raw_ok r \<and> rp_spool_ok r \<and> rp_presence_ok r"

text \<open>The first of the last reports that agree in \<open>key\<close>: when the current value was first seen.\<close>

definition run_start :: "('r \<Rightarrow> 'k) \<Rightarrow> 'r list \<Rightarrow> 'r" where
  "run_start key rs = last (takeWhile (\<lambda>r. key r = key (last rs)) (rev rs))"

lemma run_start_single: "run_start key [r] = r"
  by (simp add: run_start_def)

lemma run_start_snoc:
  "rs \<noteq> [] \<Longrightarrow> run_start key (rs @ [r]) = (if key (last rs) = key r then run_start key rs else r)"
  by (cases rs rule: rev_cases) (auto simp: run_start_def)

lemma health_after_snoc: "health_after cfg utc_iso (ops @ [op]) = apply_health_op cfg utc_iso op (health_after cfg utc_iso ops)"
  by (simp add: health_after_def)

lemma reports_of_snoc: "reports_of f (ops @ [op]) = reports_of f ops @ (case report_of f op of None \<Rightarrow> [] | Some r \<Rightarrow> [r])"
  by (simp add: reports_of_def List.map_filter_def split: option.split)

lemma record_success_other: "g \<noteq> f \<Longrightarrow> m_feeds (snd (record_success cfg utc_iso b g r m)) f = m_feeds m f"
  by (simp add: record_success_def Let_def)

lemma record_failure_feed:
  "m_feeds (snd (record_failure utc_iso b g t e h m)) f =
    (if g = f then (m_feeds m f)\<lparr>fh_last_attempt_at := utc_iso t, fh_last_error := Some e, fh_last_http_status := h,
       fh_consecutive_failures := fh_consecutive_failures (m_feeds m f) + 1\<rparr> else m_feeds m f)"
  by (simp add: record_failure_def Let_def)

lemma set_poll_journal_feed:
  "m_feeds (set_poll_journal_ok g ok m) f = (if g = f then (m_feeds m f)\<lparr>fh_poll_journal_ok := Some ok\<rparr> else m_feeds m f)"
  by (simp add: set_poll_journal_ok_def)

definition timers_ok :: "poll_report list \<Rightarrow> feed_health \<Rightarrow> bool" where
  "timers_ok rs s \<longleftrightarrow>
     (if rs = [] then fh_content_sha256 s = None \<and> fh_payload_sha256 s = None \<and> fh_header_timestamp s = None \<and>
        fh_payload_unchanged_since s = None \<and> fh_header_unchanged_since s = None
      else fh_content_sha256 s = Some (rp_content_sha256 (last rs)) \<and> fh_header_timestamp s = rp_header_timestamp (last rs) \<and>
        fh_payload_unchanged_since s = Some (rp_now (run_start rp_content_sha256 rs)) \<and>
        fh_header_unchanged_since s = Some (rp_now (run_start rp_header_timestamp rs)))"

lemma timers_success:
  assumes "timers_ok rs (m_feeds m f)"
  shows "timers_ok (rs @ [r]) (m_feeds (snd (record_success cfg utc_iso save_ok f r m)) f)"
  using assms
  by (cases "rs = []") (auto simp: timers_ok_def record_success_def update_timers_def Let_def run_start_single run_start_snoc)

lemma timers_after: "timers_ok (reports_of f ops) (m_feeds (health_after cfg utc_iso ops) f)"
proof (induction ops rule: rev_induct)
  case Nil
  show ?case by (simp add: health_after_def load_monitor_def no_health_def timers_ok_def reports_of_def List.map_filter_def)
next
  case (snoc op ops)
  show ?case
  proof (cases op)
    case (Succeeded g r b)
    show ?thesis
    proof (cases "g = f")
      case True
      with snoc.IH timers_success show ?thesis by (simp add: Succeeded health_after_snoc reports_of_snoc)
    next
      case False
      with snoc.IH show ?thesis by (simp add: Succeeded health_after_snoc reports_of_snoc record_success_other)
    qed
  next
    case (Failed g t e h b)
    with snoc.IH show ?thesis
      by (simp add: health_after_snoc reports_of_snoc record_failure_feed timers_ok_def)
  next
    case (Journalled g ok)
    with snoc.IH show ?thesis
      by (simp add: health_after_snoc reports_of_snoc set_poll_journal_feed timers_ok_def)
  qed
qed

text \<open>What the record of a feed says about its last poll.\<close>

definition last_poll_ok :: "health_config \<Rightarrow> feed \<Rightarrow> health_op list \<Rightarrow> feed_health \<Rightarrow> bool" where
  "last_poll_ok cfg f polls s \<longleftrightarrow> 0 \<le> fh_consecutive_failures s \<and>
     (if polls = [] then fh_last_success_timestamp s = None
      else case last polls of
          Succeeded g r b \<Rightarrow> g = f \<and> fh_last_success_timestamp s = Some (rp_now r) \<and>
            set (evidence_flags cfg f r) \<subseteq> set (fh_freshness_flags s)
        | _ \<Rightarrow> 0 < fh_consecutive_failures s)"

lemma last_poll_after:
  "last_poll_ok cfg f (filter (is_poll_of f) ops) (m_feeds (health_after cfg utc_iso ops) f)"
proof (induction ops rule: rev_induct)
  case Nil
  show ?case by (simp add: health_after_def load_monitor_def no_health_def last_poll_ok_def)
next
  case (snoc op ops)
  show ?case
  proof (cases op)
    case (Succeeded g r b)
    show ?thesis
    proof (cases "g = f")
      case True
      then show ?thesis
        by (auto simp: Succeeded health_after_snoc last_poll_ok_def record_success_def success_flags_def Let_def)
    next
      case False
      with snoc.IH show ?thesis by (simp add: Succeeded health_after_snoc record_success_other)
    qed
  next
    case (Failed g t e h b)
    with snoc.IH show ?thesis
      by (simp add: health_after_snoc record_failure_feed last_poll_ok_def split: health_op.splits)
  next
    case (Journalled g ok)
    with snoc.IH show ?thesis
      by (simp add: health_after_snoc set_poll_journal_feed last_poll_ok_def split: health_op.splits)
  qed
qed

lemma feed_reasons_none:
  assumes "feed_reasons cfg now sched f s = []" and "last_poll_ok cfg f polls s"
  shows "\<exists>r b. polls \<noteq> [] \<and> last polls = Succeeded f r b \<and> now - rp_now r \<le> absence_limit cfg sched \<and>
    list_all is_warning (evidence_flags cfg f r)"
proof -
  from assms(1) have absent: "case seconds_since_success now s of None \<Rightarrow> False | Some a \<Rightarrow> a \<le> absence_limit cfg sched"
    and http: "fh_consecutive_failures s = 0" and flags: "list_all is_warning (fh_freshness_flags s)"
    by (auto simp: feed_reasons_def filter_empty_conv list_all_iff not_less split: option.splits if_splits)
  from absent assms(2) have ne: "polls \<noteq> []" by (auto simp: last_poll_ok_def seconds_since_success_def)
  with assms(2) http obtain r b where last: "last polls = Succeeded f r b"
    "fh_last_success_timestamp s = Some (rp_now r)" "set (evidence_flags cfg f r) \<subseteq> set (fh_freshness_flags s)"
    by (auto simp: last_poll_ok_def split: health_op.splits)
  with absent flags ne show ?thesis by (auto simp: seconds_since_success_def list_all_iff)
qed

lemma evidence_flags_ok:
  assumes "list_all is_warning (evidence_flags cfg f r)"
    and "case rp_change_tracking_failure_flag r of None \<Rightarrow> True | Some flag \<Rightarrow> \<not> is_warning flag"
  shows "evidence_ok r"
  using assms by (auto simp: evidence_flags_def evidence_ok_def is_warning_def split: if_splits option.splits)

lemma evidence_flags_none:
  "evidence_ok r \<Longrightarrow> f = Alerts \<or> (case snd (rp_entity_range r) of None \<Rightarrow> True | Some t \<Rightarrow> rp_now r - of_int t \<le> hc_stale_seconds cfg) \<Longrightarrow>
     evidence_flags cfg f r = []"
  by (auto simp: evidence_flags_def evidence_ok_def split: option.splits)

lemma alert_flags_warnings:
  "set flags \<subseteq> {''source_timestamp_stale'', ''payload_frozen'', ''source_timestamp_frozen''} \<Longrightarrow>
     list_all is_warning (alert_flags entity_count flags)"
  by (auto simp: alert_flags_def Let_def list_all_iff is_warning_def split: option.splits if_splits)

lemma evaluate_freshness_subset:
  "set (evaluate_freshness now h hs ps st fr) \<subseteq> {''source_timestamp_stale'', ''payload_frozen'', ''source_timestamp_frozen''}"
  by (auto simp: evaluate_freshness_def split: option.splits)

subsection \<open>Properties\<close>

text \<open>
  Claim C20. Healthy means that every feed is well. After any sequence of successes, failures and
  journal results, a healthy status implies for each feed that its last poll succeeded, with all
  evidence intact, within the absence limit, and neither disk, commits nor cycle report an error.
\<close>

theorem healthy_sound:
  assumes "st_healthy (write_status cfg i (health_after cfg utc_iso ops))"
    and "\<forall>f r b. Succeeded f r b \<in> set ops \<longrightarrow>
      (case rp_change_tracking_failure_flag r of None \<Rightarrow> True | Some flag \<Rightarrow> \<not> is_warning flag)"
  shows "(\<exists>r b. filter (is_poll_of f) ops \<noteq> [] \<and> last (filter (is_poll_of f) ops) = Succeeded f r b \<and> evidence_ok r \<and>
      si_now i - rp_now r \<le> absence_limit cfg (map_of (si_scheduler i) f)) \<and>
    si_disk_warn i \<le> si_disk_free i \<and> si_parquet_flush_errors i = [] \<and> si_cycle_errors i = []"
proof -
  let ?m = "health_after cfg utc_iso ops"
  from assms(1) have none: "feed_reasons cfg (si_now i) (map_of (si_scheduler i) f) f (m_feeds ?m f) = []"
    and glob: "global_reasons i = []"
    by (auto simp: write_status_def Let_def)
  from feed_reasons_none [OF none last_poll_after] obtain r b where
    r: "filter (is_poll_of f) ops \<noteq> []" "last (filter (is_poll_of f) ops) = Succeeded f r b"
      "si_now i - rp_now r \<le> absence_limit cfg (map_of (si_scheduler i) f)" "list_all is_warning (evidence_flags cfg f r)"
    by blast
  from last_in_set [OF r(1)] r(2) have "Succeeded f r b \<in> set ops" by (metis filter_is_subset subsetD)
  with evidence_flags_ok [OF r(4)] assms(2) have "evidence_ok r" by blast
  with r glob show ?thesis by (auto simp: global_reasons_def split: if_splits)
qed

definition demo_health :: health_config where
  "demo_health = \<lparr>hc_stale_seconds = 180, hc_absent_seconds = 180, hc_frozen_seconds = 300, hc_alerts_frozen_seconds = 86400\<rparr>"

definition demo_report :: poll_report where
  "demo_report = \<lparr>rp_now = 1000, rp_header_timestamp = Some 990, rp_content_sha256 = ''ab'', rp_entity_range = (None, None),
     rp_parse_ok = True, rp_presence_ok = True, rp_change_tracking_ok = True, rp_change_tracking_failure_flag = None,
     rp_raw_ok = True, rp_spool_ok = True, rp_entity_count = Some 1, rp_response_received_at = ''t'',
     rp_http_status = Some 200, rp_payload_size = 10\<rparr>"

definition demo_inputs :: status_inputs where
  "demo_inputs = \<lparr>si_now = 1010, si_disk_free = 10, si_disk_warn = 8, si_disk_critical = 4, si_parquet_flush_errors = [],
     si_cycle_errors = [], si_scheduler = [], si_worker = None\<rparr>"

definition demo_ops :: "health_op list" where
  "demo_ops = [Failed Alerts 900 ''e'' None True, Succeeded Vehiclepositions demo_report True,
     Succeeded Tripupdates demo_report True, Succeeded Alerts demo_report True, Journalled Alerts True]"

lemma demo_healthy: "st_healthy (write_status demo_health demo_inputs (health_after demo_health (\<lambda>_. []) demo_ops))"
  by (simp add: write_status_def Let_def health_after_def demo_ops_def demo_inputs_def demo_report_def demo_health_def
    FEED_NAMES_def load_monitor_def no_health_def record_failure_def record_success_def update_timers_def
    set_poll_journal_ok_def success_flags_def evaluate_freshness_def since_def alert_flags_def evidence_flags_def
    feed_reasons_def seconds_since_success_def absence_limit_def global_reasons_def)

lemma healthy_sound_witness:
  "\<exists>r b. last (filter (is_poll_of Alerts) demo_ops) = Succeeded Alerts r b \<and> evidence_ok r"
proof -
  have "\<forall>f r b. Succeeded f r b \<in> set demo_ops \<longrightarrow>
      (case rp_change_tracking_failure_flag r of None \<Rightarrow> True | Some flag \<Rightarrow> \<not> is_warning flag)"
    by (simp add: demo_ops_def demo_report_def)
  from healthy_sound [OF demo_healthy this, of Alerts] show ?thesis by blast
qed

text \<open>
  Staleness degrades every feed but the alerts. When all evidence of a poll is intact, the flags it
  leaves are only warnings exactly if the feed is the alert feed or the source timestamp, the payload,
  the header and the newest entity are all recent enough.
\<close>

theorem freshness_degrades_iff:
  assumes "evidence_ok r"
  shows "list_all is_warning (fh_freshness_flags (m_feeds (snd (record_success cfg utc_iso save_ok f r m)) f)) \<longleftrightarrow>
    f = Alerts \<or>
    (let s = update_timers r (m_feeds m f) in
      (case rp_header_timestamp r of None \<Rightarrow> True | Some t \<Rightarrow> rp_now r - of_int t \<le> hc_stale_seconds cfg) \<and>
      rp_now r - since (fh_payload_unchanged_since s) \<le> hc_frozen_seconds cfg \<and>
      rp_now r - since (fh_header_unchanged_since s) \<le> hc_frozen_seconds cfg \<and>
      (case snd (rp_entity_range r) of None \<Rightarrow> True | Some t \<Rightarrow> rp_now r - of_int t \<le> hc_stale_seconds cfg))"
proof -
  have flags: "fh_freshness_flags (m_feeds (snd (record_success cfg utc_iso save_ok f r m)) f) =
      success_flags cfg f r (update_timers r (m_feeds m f))"
    by (simp add: record_success_def Let_def)
  have srt: "list_all is_warning (sort (remdups xs)) \<longleftrightarrow> list_all is_warning xs" for xs
    by (simp add: list_all_iff)
  show ?thesis
  proof (cases "f = Alerts")
    case True
    with assms show ?thesis
      unfolding flags by (simp add: success_flags_def Let_def srt evidence_flags_none alert_flags_warnings [OF evaluate_freshness_subset])
  next
    case False
    have ef: "list_all is_warning (evidence_flags cfg f r) \<longleftrightarrow>
        (case snd (rp_entity_range r) of None \<Rightarrow> True | Some t \<Rightarrow> rp_now r - of_int t \<le> hc_stale_seconds cfg)"
      using assms False by (auto simp: evidence_flags_def evidence_ok_def is_warning_def split: option.splits)
    show ?thesis
      unfolding flags using False by (auto simp: success_flags_def Let_def srt ef evaluate_freshness_def is_warning_def split: option.splits)
  qed
qed

lemma freshness_degrades_iff_witness:
  "list_all is_warning (fh_freshness_flags (m_feeds (snd (record_success demo_health (\<lambda>_. []) True Alerts demo_report (load_monitor None))) Alerts)) \<longleftrightarrow>
    Alerts = Alerts \<or> (let s = update_timers demo_report (m_feeds (load_monitor None) Alerts) in
      (case rp_header_timestamp demo_report of None \<Rightarrow> True | Some t \<Rightarrow> rp_now demo_report - of_int t \<le> hc_stale_seconds demo_health) \<and>
      rp_now demo_report - since (fh_payload_unchanged_since s) \<le> hc_frozen_seconds demo_health \<and>
      rp_now demo_report - since (fh_header_unchanged_since s) \<le> hc_frozen_seconds demo_health \<and>
      (case snd (rp_entity_range demo_report) of None \<Rightarrow> True | Some t \<Rightarrow> rp_now demo_report - of_int t \<le> hc_stale_seconds demo_health))"
  by (rule freshness_degrades_iff) (simp add: evidence_ok_def demo_report_def)

text \<open>
  Claim C37. The freeze timers tell since when a feed is unchanged. After any sequence of operations they
  hold the time of the first of the last reports of the feed that agree in content, and in header timestamp.
\<close>

theorem freeze_timers_correct:
  assumes "reports_of f ops \<noteq> []"
  shows "fh_payload_unchanged_since (m_feeds (health_after cfg utc_iso ops) f) =
      Some (rp_now (run_start rp_content_sha256 (reports_of f ops))) \<and>
    fh_header_unchanged_since (m_feeds (health_after cfg utc_iso ops) f) =
      Some (rp_now (run_start rp_header_timestamp (reports_of f ops)))"
  using timers_after [of f ops cfg utc_iso] assms by (simp add: timers_ok_def)

lemma freeze_timers_correct_witness:
  "fh_payload_unchanged_since (m_feeds (health_after demo_health (\<lambda>_. []) demo_ops) Alerts) = Some 1000"
  using freeze_timers_correct [of Alerts demo_ops demo_health "\<lambda>_. []"]
  by (simp add: reports_of_def List.map_filter_def demo_ops_def demo_report_def run_start_single)

end
