(* ===== verification/Gtfs_Parse.thy ===== *)
theory Gtfs_Parse
  imports Messages Policy Presence Spool_Codec
begin

section \<open>Parsing the feeds into rows (bkk_collector/realtime/gtfs\_rt\_parse.py)\<close>

text \<open>
  The parsers flatten a feed message into rows: one per vehicle, one per stop of a trip update (or one for
  a trip without stops), one per selector of an alert. Structures that repeat or evolve are kept as JSON.
  Two things are parameters: \<open>json\<close>, the canonical JSON text of a value, and the names of the enum values
  (\<open>enums t n\<close> for the number \<open>n\<close> of the enum type \<open>t\<close>), which the protobuf bindings hold.
\<close>

record renderer =
  re_json :: "pyval \<Rightarrow> string"
  re_enum :: "string \<Rightarrow> int \<Rightarrow> string option"

definition SCHEMA_VERSION :: int where
  "SCHEMA_VERSION = 2"

subsection \<open>Fields\<close>

definition opt_int :: "int option \<Rightarrow> pyval" where
  "opt_int x = (case x of None \<Rightarrow> PNone | Some i \<Rightarrow> PInt i)"

text \<open>A signed field and an unsigned one\<close>

definition opt_signed :: "'a::len word option \<Rightarrow> pyval" where
  "opt_signed x = opt_int (map_option sint x)"

definition opt_unsigned :: "'a::len word option \<Rightarrow> pyval" where
  "opt_unsigned x = opt_int (map_option uint x)"

definition opt_float :: "rat option \<Rightarrow> pyval" where
  "opt_float x = (case x of None \<Rightarrow> PNone | Some q \<Rightarrow> PFloat q)"

definition opt_bool :: "bool option \<Rightarrow> pyval" where
  "opt_bool x = (case x of None \<Rightarrow> PNone | Some b \<Rightarrow> PBool b)"

definition opt_str :: "string option \<Rightarrow> pyval" where
  "opt_str x = (case x of None \<Rightarrow> PNone | Some s \<Rightarrow> PStr s)"

text \<open>\<^verbatim>\<open>message.field or None\<close>\<close>

definition or_none :: "string \<Rightarrow> pyval" where
  "or_none s = (if s = [] then PNone else PStr s)"

definition py_or :: "pyval \<Rightarrow> pyval \<Rightarrow> pyval" where
  "py_or a b = (if truthy a then a else b)"

fun nat_text :: "nat \<Rightarrow> string" where
  "nat_text n = (if n < 10 then [char_of (48 + n)] else nat_text (n div 10) @ [char_of (48 + n mod 10)])"

declare nat_text.simps [simp del]

definition int_text :: "int \<Rightarrow> string" where
  "int_text i = (if i < 0 then CHR ''-'' # nat_text (nat (- i)) else nat_text (nat i))"

definition enum_name :: "renderer \<Rightarrow> string \<Rightarrow> enum_number option \<Rightarrow> pyval" where
  "enum_name re t x =
     (case x of
        None \<Rightarrow> PNone
      | Some w \<Rightarrow> PStr (case re_enum re t (sint w) of Some s \<Rightarrow> s | None \<Rightarrow> int_text (sint w)))"

definition message_json :: "renderer \<Rightarrow> pyval option \<Rightarrow> pyval" where
  "message_json re x = (case x of None \<Rightarrow> PNone | Some d \<Rightarrow> PStr (re_json re d))"

definition translation_list :: "translated option \<Rightarrow> pyval list" where
  "translation_list v =
     (case v of
        None \<Rightarrow> []
      | Some ts \<Rightarrow> map (\<lambda>t. PDict [(''text'', PStr (tl_text t)),
                                   (''language'', case tl_language t of None \<Rightarrow> PNone | Some l \<Rightarrow> or_none l)]) ts)"

definition translations_json :: "renderer \<Rightarrow> translated option \<Rightarrow> pyval" where
  "translations_json re v = PStr (re_json re (PList (translation_list v)))"

definition first_translation :: "translated option \<Rightarrow> pyval" where
  "first_translation v = (case v of Some (t # _) \<Rightarrow> PStr (tl_text t) | _ \<Rightarrow> PNone)"

text \<open>A dictionary display with spreads: a later key overrides the value of an earlier one in its place.\<close>

definition dict_merge :: "row \<Rightarrow> row \<Rightarrow> row" where
  "dict_merge a b = foldl (\<lambda>d (k, v). AList.update k v d) a b"

definition dict_of :: "row list \<Rightarrow> row" where
  "dict_of parts = foldl dict_merge [] parts"

subsection \<open>Parts of a row\<close>

definition str_context :: "string \<Rightarrow> row" where
  "str_context s = [(''poll_id'', PNone), (''request_started_at'', PStr s), (''response_received_at'', PStr s)]"

definition poll_context :: "renderer \<Rightarrow> feed_message \<Rightarrow> row \<Rightarrow> row" where
  "poll_context re fm ctx =
     (let received = py_or (row_get ctx ''response_received_at'') (row_get ctx ''fetched_at'')
      in [(''schema_version'', PInt SCHEMA_VERSION),
          (''poll_id'', row_get ctx ''poll_id''),
          (''request_started_at'', py_or (row_get ctx ''request_started_at'') received),
          (''response_received_at'', received),
          (''fetched_at'', received),
          (''feed_header_timestamp'', opt_unsigned (fm_timestamp fm)),
          (''feed_header_version'', opt_str (fm_feed_version fm)),
          (''feed_incrementality'', opt_signed (fm_incrementality fm)),
          (''feed_incrementality_name'', enum_name re ''FeedHeader.Incrementality'' (fm_incrementality fm))])"

definition entity_context :: "entity \<Rightarrow> row" where
  "entity_context e = [(''entity_id'', or_none (en_id e)), (''entity_is_deleted'', opt_bool (en_is_deleted e))]"

definition trip_desc :: "renderer \<Rightarrow> trip_descriptor \<Rightarrow> row" where
  "trip_desc re t =
     [(''trip_id'', or_none (td_trip_id t)), (''route_id'', or_none (td_route_id t)),
      (''direction_id'', opt_unsigned (td_direction_id t)), (''start_time'', or_none (td_start_time t)),
      (''start_date'', or_none (td_start_date t)),
      (''schedule_relationship'', opt_signed (td_schedule_relationship t)),
      (''schedule_relationship_name'', enum_name re ''TripDescriptor.ScheduleRelationship'' (td_schedule_relationship t)),
      (''modified_trip_json'', message_json re (td_modified_trip t))]"

definition TRIP_FIELDS :: "string list" where
  "TRIP_FIELDS = [''trip_id'', ''route_id'', ''direction_id'', ''start_time'', ''start_date'',
     ''schedule_relationship'', ''schedule_relationship_name'', ''modified_trip_json'']"

definition trip_fields :: "renderer \<Rightarrow> trip_descriptor option \<Rightarrow> row" where
  "trip_fields re t = (case t of Some d \<Rightarrow> trip_desc re d | None \<Rightarrow> map (\<lambda>f. (f, PNone)) TRIP_FIELDS)"

definition realcity_vehicle_fields :: "realcity_vehicle option \<Rightarrow> row" where
  "realcity_vehicle_fields v =
     (case v of
        None \<Rightarrow> [(''bkk_vehicle_model'', PNone), (''bkk_deviated'', PNone), (''bkk_vehicle_type'', PNone),
                 (''bkk_door_open'', PNone), (''bkk_stop_distance'', PNone)]
      | Some x \<Rightarrow> [(''bkk_vehicle_model'', opt_str (rv_vehicle_model x)),
                   (''bkk_deviated'', PBool (case rv_deviated x of Some b \<Rightarrow> b | None \<Rightarrow> False)),
                   (''bkk_vehicle_type'', opt_signed (rv_vehicle_type x)),
                   (''bkk_door_open'', opt_bool (rv_door_open x)),
                   (''bkk_stop_distance'', opt_signed (rv_stop_distance x))])"

definition vehicle_desc :: "renderer \<Rightarrow> vehicle_descriptor option \<Rightarrow> row" where
  "vehicle_desc re v =
     (case v of
        None \<Rightarrow> [(''vehicle_id'', PNone), (''vehicle_label'', PNone), (''vehicle_license_plate'', PNone),
                 (''vehicle_wheelchair_accessible'', PNone), (''vehicle_wheelchair_accessible_name'', PNone)] @
                realcity_vehicle_fields None
      | Some d \<Rightarrow> [(''vehicle_id'', or_none (vd_id d)), (''vehicle_label'', or_none (vd_label d)),
                   (''vehicle_license_plate'', opt_str (vd_license_plate d)),
                   (''vehicle_wheelchair_accessible'', opt_signed (vd_wheelchair_accessible d)),
                   (''vehicle_wheelchair_accessible_name'',
                      enum_name re ''VehicleDescriptor.WheelchairAccessible'' (vd_wheelchair_accessible d))] @
                  realcity_vehicle_fields (vd_realcity d))"

definition stop_event_fields :: "stop_event option \<Rightarrow> string \<Rightarrow> row" where
  "stop_event_fields event pre =
     [(pre @ ''_delay'', opt_signed (Option.bind event se_delay)),
      (pre @ ''_time'', opt_signed (Option.bind event se_time)),
      (pre @ ''_uncertainty'', opt_signed (Option.bind event se_uncertainty)),
      (pre @ ''_scheduled_time'', opt_signed (Option.bind event se_scheduled_time))]"

definition realcity_stop_fields :: "realcity_stop_update option \<Rightarrow> row" where
  "realcity_stop_fields x =
     stop_event_fields (Option.bind x rs_scheduled_arrival) ''bkk_scheduled_arrival'' @
     stop_event_fields (Option.bind x rs_scheduled_departure) ''bkk_scheduled_departure''"

subsection \<open>Vehicle positions\<close>

text \<open>An entity without the expected payload gives a row only if it is a deletion.\<close>

definition tombstone :: "renderer \<Rightarrow> feed_message \<Rightarrow> row \<Rightarrow> entity \<Rightarrow> row list" where
  "tombstone re fm ctx e =
     (if en_is_deleted e = Some True then [dict_of [poll_context re fm ctx, entity_context e]] else [])"

definition vehicle_row :: "renderer \<Rightarrow> row \<Rightarrow> entity \<Rightarrow> vehicle_position \<Rightarrow> row" where
  "vehicle_row re poll e v =
     dict_of [poll, entity_context e, [(''vehicle_timestamp'', opt_unsigned (vp_timestamp v))],
       vehicle_desc re (vp_vehicle v),
       [(''latitude'', opt_float (Option.bind (vp_position v) po_latitude)),
        (''longitude'', opt_float (Option.bind (vp_position v) po_longitude)),
        (''bearing'', opt_float (Option.bind (vp_position v) po_bearing)),
        (''odometer'', opt_float (Option.bind (vp_position v) po_odometer)),
        (''speed'', opt_float (Option.bind (vp_position v) po_speed)),
        (''current_stop_sequence'', opt_unsigned (vp_current_stop_sequence v)),
        (''stop_id'', or_none (vp_stop_id v)),
        (''current_status'', opt_signed (vp_current_status v)),
        (''current_status_name'', enum_name re ''VehiclePosition.VehicleStopStatus'' (vp_current_status v)),
        (''congestion_level'', opt_signed (vp_congestion_level v)),
        (''congestion_level_name'', enum_name re ''VehiclePosition.CongestionLevel'' (vp_congestion_level v)),
        (''occupancy_status'', opt_signed (vp_occupancy_status v)),
        (''occupancy_status_name'', enum_name re ''VehiclePosition.OccupancyStatus'' (vp_occupancy_status v)),
        (''occupancy_percentage'', opt_unsigned (vp_occupancy_percentage v)),
        (''multi_carriage_details_json'', PStr (re_json re (PList (vp_multi_carriage_details v))))],
       trip_fields re (vp_trip v)]"

definition parse_vehicle_positions :: "renderer \<Rightarrow> feed_message \<Rightarrow> row \<Rightarrow> row list" where
  "parse_vehicle_positions re fm ctx =
     concat (map (\<lambda>e. case en_vehicle e of
         None \<Rightarrow> tombstone re fm ctx e
       | Some v \<Rightarrow> [vehicle_row re (poll_context re fm ctx) e v]) (fm_entities fm))"

subsection \<open>Trip updates\<close>

definition trip_head :: "renderer \<Rightarrow> trip_update \<Rightarrow> row" where
  "trip_head re u =
     [(''trip_update_timestamp'', opt_unsigned (tu_timestamp u)), (''trip_delay'', opt_signed (tu_delay u)),
      (''trip_properties_json'', message_json re (tu_trip_properties u))]"

definition trip_base :: "renderer \<Rightarrow> row \<Rightarrow> entity \<Rightarrow> trip_update \<Rightarrow> row" where
  "trip_base re poll e u =
     dict_of [poll, entity_context e, trip_head re u, vehicle_desc re (tu_vehicle u), trip_fields re (tu_trip u)]"

definition no_stop_head :: row where
  "no_stop_head =
     [(''stop_time_update_index'', PNone), (''stop_visit_fallback_index'', PNone), (''stop_sequence'', PNone),
      (''stop_id'', PNone), (''stop_schedule_relationship'', PNone), (''stop_schedule_relationship_name'', PNone),
      (''departure_occupancy_status'', PNone), (''departure_occupancy_status_name'', PNone),
      (''stop_time_properties_json'', PNone)]"

definition no_stop_fields :: row where
  "no_stop_fields =
     dict_of [no_stop_head, stop_event_fields None ''arrival'', stop_event_fields None ''departure'',
       realcity_stop_fields None]"

definition stop_head :: "renderer \<Rightarrow> nat \<Rightarrow> stop_time_update \<Rightarrow> row" where
  "stop_head re i s =
     [(''stop_time_update_index'', PInt (int i)),
      (''stop_visit_fallback_index'', if su_stop_sequence s = None then PInt (int i) else PNone),
      (''stop_sequence'', opt_unsigned (su_stop_sequence s)),
      (''stop_id'', or_none (su_stop_id s)),
      (''stop_schedule_relationship'', opt_signed (su_schedule_relationship s)),
      (''stop_schedule_relationship_name'',
         enum_name re ''StopTimeUpdate.ScheduleRelationship'' (su_schedule_relationship s)),
      (''departure_occupancy_status'', opt_signed (su_departure_occupancy_status s)),
      (''departure_occupancy_status_name'',
         enum_name re ''VehiclePosition.OccupancyStatus'' (su_departure_occupancy_status s)),
      (''stop_time_properties_json'', message_json re (su_stop_time_properties s))]"

definition stop_fields :: "renderer \<Rightarrow> nat \<Rightarrow> stop_time_update \<Rightarrow> row" where
  "stop_fields re i s =
     dict_of [stop_head re i s, stop_event_fields (su_arrival s) ''arrival'',
       stop_event_fields (su_departure s) ''departure'', realcity_stop_fields (su_realcity s)]"

definition trip_rows :: "renderer \<Rightarrow> row \<Rightarrow> entity \<Rightarrow> trip_update \<Rightarrow> row list" where
  "trip_rows re poll e u =
     (let base = trip_base re poll e u
      in if tu_stop_time_updates u = [] then [dict_merge base no_stop_fields]
         else map (\<lambda>(i, s). dict_merge base (stop_fields re i s)) (enumerate 0 (tu_stop_time_updates u)))"

definition parse_trip_updates :: "renderer \<Rightarrow> feed_message \<Rightarrow> row \<Rightarrow> row list" where
  "parse_trip_updates re fm ctx =
     concat (map (\<lambda>e. case en_trip_update e of
         None \<Rightarrow> tombstone re fm ctx e
       | Some u \<Rightarrow> trip_rows re (poll_context re fm ctx) e u) (fm_entities fm))"

subsection \<open>Alerts\<close>

definition selector_fields :: "renderer \<Rightarrow> selector \<Rightarrow> row" where
  "selector_fields re s =
     [(''agency_id'', or_none (es_agency_id s)), (''route_id'', or_none (es_route_id s)),
      (''route_type'', opt_signed (es_route_type s)), (''stop_id'', or_none (es_stop_id s)),
      (''direction_id'', opt_unsigned (es_direction_id s)), (''trip'', PDict (trip_fields re (es_trip s)))]"

definition period :: "time_range \<Rightarrow> pyval" where
  "period p = PDict [(''start'', opt_unsigned (tr_start p)), (''end'', opt_unsigned (tr_end p))]"

definition route_detail :: "renderer \<Rightarrow> realcity_route \<Rightarrow> pyval" where
  "route_detail re r =
     PDict [(''route_id'', PStr (rr_route_id r)), (''header_text'', PList (translation_list (rr_header_text r))),
       (''cause'', opt_signed (rr_cause r)), (''cause_name'', enum_name re ''Alert.Cause'' (rr_cause r)),
       (''effect'', opt_signed (rr_effect r)), (''effect_name'', enum_name re ''Alert.Effect'' (rr_effect r)),
       (''effect_type'', opt_signed (rr_effect_type r)),
       (''effect_type_name'', enum_name re ''RouteDetail.EffectType'' (rr_effect_type r))]"

text \<open>Without the extension the three lists are the text \<^verbatim>\<open>[]\<close>, whatever the JSON renderer does.\<close>

definition realcity_alert_fields :: "renderer \<Rightarrow> realcity_alert option \<Rightarrow> row" where
  "realcity_alert_fields re a =
     (case a of
        None \<Rightarrow> [(''bkk_start_text_json'', PStr ''[]''), (''bkk_end_text_json'', PStr ''[]''),
                 (''bkk_modified_time'', PNone), (''bkk_route_details_json'', PStr ''[]'')]
      | Some x \<Rightarrow> [(''bkk_start_text_json'', translations_json re (ra_start_text x)),
                   (''bkk_end_text_json'', translations_json re (ra_end_text x)),
                   (''bkk_modified_time'', opt_unsigned (ra_modified_time x)),
                   (''bkk_route_details_json'', PStr (re_json re (PList (map (route_detail re) (ra_routes x)))))])"

definition alert_head :: "renderer \<Rightarrow> alert_message \<Rightarrow> row" where
  "alert_head re a =
     [(''cause'', opt_signed (al_cause a)), (''cause_name'', enum_name re ''Alert.Cause'' (al_cause a)),
      (''effect'', opt_signed (al_effect a)), (''effect_name'', enum_name re ''Alert.Effect'' (al_effect a)),
      (''severity_level'', opt_signed (al_severity_level a)),
      (''severity_level_name'', enum_name re ''Alert.SeverityLevel'' (al_severity_level a)),
      (''header_text'', first_translation (al_header_text a)),
      (''description_text'', first_translation (al_description_text a)),
      (''url'', first_translation (al_url a)),
      (''header_text_json'', translations_json re (al_header_text a)),
      (''description_text_json'', translations_json re (al_description_text a)),
      (''url_json'', translations_json re (al_url a)),
      (''tts_header_text_json'', translations_json re (al_tts_header_text a)),
      (''tts_description_text_json'', translations_json re (al_tts_description_text a)),
      (''image_json'', message_json re (al_image a)),
      (''image_alternative_text_json'', translations_json re (al_image_alternative_text a)),
      (''cause_detail_json'', message_json re (al_cause_detail a)),
      (''effect_detail_json'', message_json re (al_effect_detail a)),
      (''active_period_start'', case al_active_periods a of [] \<Rightarrow> PNone | p # _ \<Rightarrow> opt_unsigned (tr_start p)),
      (''active_period_end'', case al_active_periods a of [] \<Rightarrow> PNone | p # _ \<Rightarrow> opt_unsigned (tr_end p)),
      (''active_periods_json'', PStr (re_json re (PList (map period (al_active_periods a))))),
      (''communication_periods_json'', PStr (re_json re (PList (map period (al_communication_periods a))))),
      (''impact_periods_json'', PStr (re_json re (PList (map period (al_impact_periods a))))),
      (''informed_entities_json'',
         PStr (re_json re (PList (map (\<lambda>s. PDict (selector_fields re s)) (al_informed_entities a)))))]"

definition alert_base :: "renderer \<Rightarrow> row \<Rightarrow> entity \<Rightarrow> alert_message \<Rightarrow> row" where
  "alert_base re poll e a =
     dict_of [poll, entity_context e, alert_head re a, realcity_alert_fields re (al_realcity a)]"

definition affected_fields :: "renderer \<Rightarrow> selector option \<Rightarrow> row" where
  "affected_fields re s =
     (let f = (\<lambda>name. case s of None \<Rightarrow> PNone | Some x \<Rightarrow> row_get (selector_fields re x) name);
          trip = trip_fields re (Option.bind s es_trip)
      in [(''affected_agency_id'', f ''agency_id''), (''affected_route_id'', f ''route_id''),
          (''affected_route_type'', f ''route_type''), (''affected_stop_id'', f ''stop_id''),
          (''affected_direction_id'', f ''direction_id''),
          (''affected_trip_id'', row_get trip ''trip_id''),
          (''affected_trip_route_id'', row_get trip ''route_id''),
          (''affected_trip_direction_id'', row_get trip ''direction_id''),
          (''affected_trip_start_time'', row_get trip ''start_time''),
          (''affected_trip_start_date'', row_get trip ''start_date''),
          (''affected_trip_schedule_relationship'', row_get trip ''schedule_relationship''),
          (''affected_trip_schedule_relationship_name'', row_get trip ''schedule_relationship_name'')])"

definition alert_rows :: "renderer \<Rightarrow> row \<Rightarrow> entity \<Rightarrow> alert_message \<Rightarrow> row list" where
  "alert_rows re poll e a =
     (let base = alert_base re poll e a
      in map (\<lambda>s. dict_merge base (affected_fields re s))
           (if al_informed_entities a = [] then [None] else map Some (al_informed_entities a)))"

definition parse_alerts :: "renderer \<Rightarrow> feed_message \<Rightarrow> row \<Rightarrow> row list" where
  "parse_alerts re fm ctx =
     concat (map (\<lambda>e. case en_alert e of
         None \<Rightarrow> tombstone re fm ctx e
       | Some a \<Rightarrow> alert_rows re (poll_context re fm ctx) e a) (fm_entities fm))"

fun PARSERS :: "feed \<Rightarrow> renderer \<Rightarrow> feed_message \<Rightarrow> row \<Rightarrow> row list" where
  "PARSERS Vehiclepositions = parse_vehicle_positions"
| "PARSERS Tripupdates = parse_trip_updates"
| "PARSERS Alerts = parse_alerts"

subsection \<open>The columns of a row and the kinds of their values\<close>

text \<open>The kind of a value; the range of an integer comes below.\<close>

fun has_kind :: "arrow_type \<Rightarrow> pyval \<Rightarrow> bool" where
  "has_kind t PNone = True"
| "has_kind t (PBool _) = (t = BoolType)"
| "has_kind t (PInt _) = (t = Int64 \<or> t = Int16)"
| "has_kind t (PFloat _) = (t = Float64)"
| "has_kind t (PStr _) = (t = StringType)"
| "has_kind t _ = False"

definition kinded :: "row \<Rightarrow> bool" where
  "kinded row \<longleftrightarrow> list_all (\<lambda>(k, v). has_kind (column_type k) v) row"

text \<open>A row has each column of the list exactly once, and nothing else.\<close>

definition has_columns :: "string list \<Rightarrow> row \<Rightarrow> bool" where
  "has_columns cols row \<longleftrightarrow> distinct (map fst row) \<and> set (map fst row) = set cols"

lemma has_kind_values [simp]:
  "has_kind t (opt_int i) \<longleftrightarrow> i = None \<or> t = Int64 \<or> t = Int16"
  "has_kind t (opt_signed x) \<longleftrightarrow> x = None \<or> t = Int64 \<or> t = Int16"
  "has_kind t (opt_unsigned x) \<longleftrightarrow> x = None \<or> t = Int64 \<or> t = Int16"
  "has_kind t (opt_float q) \<longleftrightarrow> q = None \<or> t = Float64"
  "has_kind t (opt_bool b) \<longleftrightarrow> b = None \<or> t = BoolType"
  "has_kind t (opt_str s) \<longleftrightarrow> s = None \<or> t = StringType"
  by (auto simp: opt_int_def opt_signed_def opt_unsigned_def opt_float_def opt_bool_def opt_str_def split: option.split)

lemma has_kind_strings [simp]:
  "has_kind StringType (or_none s)" "has_kind StringType (enum_name re e x)"
  "has_kind StringType (message_json re d)" "has_kind StringType (translations_json re v)"
  "has_kind StringType (first_translation v)"
  by (auto simp: or_none_def enum_name_def message_json_def translations_json_def first_translation_def
    split: option.split list.split)

lemma int_types: "list_all (\<lambda>k. column_type k = Int64) INT_COLUMNS"
  by code_simp

lemma bool_types: "list_all (\<lambda>k. column_type k = BoolType) BOOL_COLUMNS"
  by code_simp

lemma float_types: "list_all (\<lambda>k. column_type k = Float64) FLOAT_COLUMNS"
  by code_simp

lemma string_types:
  "list_all (\<lambda>k. column_type k = StringType)
     [''poll_id'', ''request_started_at'', ''response_received_at'', ''fetched_at'', ''feed_header_version'',
      ''feed_incrementality_name'', ''entity_id'', ''trip_id'', ''route_id'', ''start_time'', ''start_date'',
      ''schedule_relationship_name'', ''modified_trip_json'', ''vehicle_id'', ''vehicle_label'',
      ''vehicle_license_plate'', ''vehicle_wheelchair_accessible_name'', ''bkk_vehicle_model'', ''stop_id'',
      ''current_status_name'', ''congestion_level_name'', ''occupancy_status_name'',
      ''multi_carriage_details_json'', ''trip_properties_json'', ''stop_schedule_relationship_name'',
      ''departure_occupancy_status_name'', ''stop_time_properties_json'', ''cause_name'', ''effect_name'',
      ''severity_level_name'', ''header_text'', ''description_text'', ''url'', ''header_text_json'',
      ''description_text_json'', ''url_json'', ''tts_header_text_json'', ''tts_description_text_json'',
      ''image_json'', ''image_alternative_text_json'', ''cause_detail_json'', ''effect_detail_json'',
      ''active_periods_json'', ''communication_periods_json'', ''impact_periods_json'',
      ''informed_entities_json'', ''bkk_start_text_json'', ''bkk_end_text_json'', ''bkk_route_details_json'',
      ''affected_agency_id'', ''affected_route_id'', ''affected_stop_id'', ''affected_trip_id'',
      ''affected_trip_route_id'', ''affected_trip_start_time'', ''affected_trip_start_date'',
      ''affected_trip_schedule_relationship_name'']"
  by code_simp

lemma schema_version_type: "column_type ''schema_version'' = Int16"
  by code_simp

lemmas column_types = schema_version_type
  int_types [unfolded INT_COLUMNS_def list.pred_inject] bool_types [unfolded BOOL_COLUMNS_def list.pred_inject]
  float_types [unfolded FLOAT_COLUMNS_def list.pred_inject] string_types [unfolded list.pred_inject]

lemma kinded_append [simp]: "kinded (a @ b) \<longleftrightarrow> kinded a \<and> kinded b"
  by (simp add: kinded_def)

lemma dict_merge_fresh: "distinct (map fst (a @ b)) \<Longrightarrow> dict_merge a b = a @ b"
proof (induction b arbitrary: a)
  case (Cons p b)
  obtain k v where p: "p = (k, v)" by (cases p)
  have "dict_merge a (p # b) = dict_merge (a @ [p]) b"
    using Cons.prems by (simp add: dict_merge_def p update_fresh)
  also have "\<dots> = (a @ [p]) @ b" by (rule Cons.IH) (use Cons.prems in simp)
  finally show ?case by simp
qed (simp add: dict_merge_def)

lemma dict_of_fresh: "distinct (map fst (concat parts)) \<Longrightarrow> dict_of parts = concat parts"
proof (induction parts rule: rev_induct)
  case (snoc b parts)
  then have "dict_of parts = concat parts" by (simp add: distinct_append)
  then have "dict_of (parts @ [b]) = dict_merge (concat parts) b" by (simp add: dict_of_def)
  with snoc.prems show ?case by (simp add: dict_merge_fresh)
qed (simp add: dict_of_def)

subsection \<open>The parts and their keys\<close>

lemma part_keys [simp]:
  "map fst (poll_context re fm ctx) = take 9 COMMON_COLUMNS"
  "map fst (entity_context e) = drop 9 COMMON_COLUMNS"
  "map fst (trip_fields re t) = TRIP_FIELDS"
  "map fst (vehicle_desc re v) = VEHICLE_COLUMNS"
  by (auto simp: poll_context_def entity_context_def trip_fields_def trip_desc_def vehicle_desc_def
    realcity_vehicle_fields_def COMMON_COLUMNS_def TRIP_FIELDS_def VEHICLE_COLUMNS_def Let_def split: option.split)

lemma stop_event_keys [simp]:
  "map fst (stop_event_fields ev p) = [p @ ''_delay'', p @ ''_time'', p @ ''_uncertainty'', p @ ''_scheduled_time'']"
  by (simp add: stop_event_fields_def)

lemma kinded_parts:
  "kinded (entity_context e)" "kinded (trip_fields re t)" "kinded (vehicle_desc re v)" "kinded (realcity_stop_fields x)"
  by (auto simp: kinded_def entity_context_def trip_fields_def trip_desc_def vehicle_desc_def TRIP_FIELDS_def
    realcity_vehicle_fields_def realcity_stop_fields_def stop_event_fields_def column_types split: option.split)

text \<open>The context that the collector passes to a parser.\<close>

definition collector_context :: "string \<Rightarrow> string \<Rightarrow> string \<Rightarrow> row" where
  "collector_context poll_id started received =
     [(''poll_id'', PStr poll_id), (''request_started_at'', PStr started), (''response_received_at'', PStr received)]"

lemma kinded_poll: "kinded (poll_context re fm (collector_context p s r))"
  by (auto simp: kinded_def poll_context_def collector_context_def row_get_def py_or_def column_types Let_def)

lemma kinded_py_or: "has_kind t a \<Longrightarrow> has_kind t b \<Longrightarrow> has_kind t (py_or a b)"
  by (simp add: py_or_def)

text \<open>A dictionary display with disjoint parts.\<close>

lemma dict_of_columns:
  assumes "map fst (concat parts) = ks" and "distinct ks" and "set ks = set cols" and "list_all kinded parts"
  shows "has_columns cols (dict_of parts)" and "kinded (dict_of parts)" and "dict_of parts = concat parts"
proof -
  have eq: "dict_of parts = concat parts" using assms(1,2) by (simp add: dict_of_fresh)
  then show "has_columns cols (dict_of parts)" using assms(1-3) by (simp add: has_columns_def)
  from assms(4) have "kinded (concat parts)" by (induction parts) (simp_all add: kinded_def)
  with eq show "kinded (dict_of parts)" "dict_of parts = concat parts" by simp_all
qed

lemma common_split [simp]: "take n xs @ drop n xs @ ys = xs @ ys"
  by (metis append_assoc append_take_drop_id)

lemma tombstone_ok:
  assumes "row \<in> set (tombstone re fm (collector_context p s r) e)"
  shows "kinded row \<and> has_columns COMMON_COLUMNS row \<and> row_get row ''entity_is_deleted'' = PBool True"
proof -
  let ?parts = "[poll_context re fm (collector_context p s r), entity_context e]"
  from assms have e: "en_is_deleted e = Some True" and row: "row = dict_of ?parts"
    by (auto simp: tombstone_def split: if_splits)
  have "map fst (concat ?parts) = COMMON_COLUMNS" by simp
  moreover have "distinct COMMON_COLUMNS" by code_simp
  moreover have "list_all kinded ?parts" by (simp add: kinded_poll kinded_parts)
  ultimately have row_kinded: "has_columns COMMON_COLUMNS row" "kinded row" "row = concat ?parts"
    using dict_of_columns [of ?parts COMMON_COLUMNS COMMON_COLUMNS] row by simp_all
  have "row_get row ''entity_is_deleted'' = PBool True"
    unfolding row_kinded(3) by (simp add: row_get_def poll_context_def entity_context_def Let_def e opt_bool_def)
  with row_kinded show ?thesis by simp
qed

definition vehicle_keys :: "string list" where
  "vehicle_keys = COMMON_COLUMNS @ ''vehicle_timestamp'' # VEHICLE_COLUMNS @
     [''latitude'', ''longitude'', ''bearing'', ''odometer'', ''speed'', ''current_stop_sequence'', ''stop_id'',
      ''current_status'', ''current_status_name'', ''congestion_level'', ''congestion_level_name'',
      ''occupancy_status'', ''occupancy_status_name'', ''occupancy_percentage'', ''multi_carriage_details_json''] @
     TRIP_FIELDS"

lemma vehicle_keys_ok: "distinct vehicle_keys" "set vehicle_keys = set (PARQUET_COLUMNS Vehiclepositions)"
  by code_simp+

lemma vehicle_row_ok:
  assumes "poll = poll_context re fm (collector_context p s r)"
  shows "kinded (vehicle_row re poll e v) \<and> has_columns (PARQUET_COLUMNS Vehiclepositions) (vehicle_row re poll e v)"
  unfolding vehicle_row_def
  by (intro conjI dict_of_columns [OF _ vehicle_keys_ok])
    (simp_all add: assms kinded_poll kinded_parts vehicle_keys_def,
     simp_all add: kinded_def column_types)

definition trip_base_keys :: "string list" where
  "trip_base_keys = COMMON_COLUMNS @ [''trip_update_timestamp'', ''trip_delay'', ''trip_properties_json''] @
     VEHICLE_COLUMNS @ TRIP_FIELDS"

definition stop_keys :: "string list" where
  "stop_keys =
     [''stop_time_update_index'', ''stop_visit_fallback_index'', ''stop_sequence'', ''stop_id'',
      ''stop_schedule_relationship'', ''stop_schedule_relationship_name'',
      ''departure_occupancy_status'', ''departure_occupancy_status_name'', ''stop_time_properties_json''] @
     concat (map (\<lambda>p. [p @ ''_delay'', p @ ''_time'', p @ ''_uncertainty'', p @ ''_scheduled_time''])
       [''arrival'', ''departure'', ''bkk_scheduled_arrival'', ''bkk_scheduled_departure''])"

lemma trip_keys: "trip_base_keys @ stop_keys = PARQUET_COLUMNS Tripupdates"
  by (simp add: trip_base_keys_def stop_keys_def TRIP_FIELDS_def TRIP_COLUMNS_def)

lemma trip_keys_ok: "distinct (trip_base_keys @ stop_keys)"
    "set (trip_base_keys @ stop_keys) = set (PARQUET_COLUMNS Tripupdates)"
  using schema_distinct by (simp_all only: trip_keys)

lemma stop_keys_ok: "distinct stop_keys"
  using trip_keys_ok(1) by (simp only: distinct_append)

text \<open>The columns of a stop, whichever of the two displays gives them.\<close>

lemma stop_display:
  assumes "map fst h = take 9 stop_keys" and "kinded h"
    and "row = dict_of [h, stop_event_fields a ''arrival'', stop_event_fields d ''departure'', realcity_stop_fields x]"
  shows "kinded row \<and> map fst row = stop_keys \<and>
    row = h @ stop_event_fields a ''arrival'' @ stop_event_fields d ''departure'' @ realcity_stop_fields x"
proof -
  let ?parts = "[h, stop_event_fields a ''arrival'', stop_event_fields d ''departure'', realcity_stop_fields x]"
  have "map fst (stop_event_fields a ''arrival'' @ stop_event_fields d ''departure'' @ realcity_stop_fields x) =
      drop 9 stop_keys"
    by (simp add: realcity_stop_fields_def stop_keys_def)
  with assms(1) have keys: "map fst (concat ?parts) = stop_keys" by simp
  have "kinded (stop_event_fields a ''arrival'')" "kinded (stop_event_fields d ''departure'')"
    by (simp_all add: kinded_def stop_event_fields_def column_types)
  with assms(2) have "list_all kinded ?parts" by (simp add: kinded_parts)
  from dict_of_columns [OF keys stop_keys_ok refl this] keys assms(3) show ?thesis by simp
qed

lemma heads_ok:
  "kinded no_stop_head" "map fst no_stop_head = take 9 stop_keys"
  "kinded (stop_head re i st)" "map fst (stop_head re i st) = take 9 stop_keys"
  "kinded (trip_head re u)"
  "map fst (trip_head re u) = [''trip_update_timestamp'', ''trip_delay'', ''trip_properties_json'']"
  by (simp_all add: kinded_def no_stop_head_def stop_head_def trip_head_def stop_keys_def column_types)

lemma no_stop_ok: "kinded no_stop_fields \<and> map fst no_stop_fields = stop_keys"
  using stop_display [OF heads_ok(2,1) no_stop_fields_def] by blast

lemma stop_ok: "kinded (stop_fields re i st) \<and> map fst (stop_fields re i st) = stop_keys"
  using stop_display [OF heads_ok(4,3) stop_fields_def] by blast

lemma trip_base_ok:
  assumes "poll = poll_context re fm (collector_context p s r)"
  shows "kinded (trip_base re poll e u) \<and> map fst (trip_base re poll e u) = trip_base_keys"
proof -
  let ?parts = "[poll, entity_context e, trip_head re u, vehicle_desc re (tu_vehicle u), trip_fields re (tu_trip u)]"
  have keys: "map fst (concat ?parts) = trip_base_keys"
    by (simp add: assms trip_base_keys_def heads_ok)
  have "distinct trip_base_keys" using trip_keys_ok(1) by (simp only: distinct_append)
  moreover have "list_all kinded ?parts" by (simp add: assms kinded_poll kinded_parts heads_ok)
  ultimately show ?thesis
    using dict_of_columns [OF keys _ refl] keys unfolding trip_base_def by metis
qed

text \<open>Two groups of columns without overlap make up the row.\<close>

lemma merged_row_ok:
  assumes "kinded a \<and> map fst a = ks" and "kinded b \<and> map fst b = ls" and "distinct (ks @ ls)"
    and "set (ks @ ls) = set cols"
  shows "kinded (dict_merge a b) \<and> has_columns cols (dict_merge a b) \<and> dict_merge a b = a @ b"
proof -
  have "dict_merge a b = a @ b" using assms(1-3) by (simp add: dict_merge_fresh)
  with assms show ?thesis by (simp add: has_columns_def)
qed

lemma trip_rows_ok:
  assumes "poll = poll_context re fm (collector_context p s r)"
  shows "list_all (\<lambda>row. kinded row \<and> has_columns (PARQUET_COLUMNS Tripupdates) row) (trip_rows re poll e u)"
proof -
  have "kinded (dict_merge (trip_base re poll e u) b) \<and> has_columns (PARQUET_COLUMNS Tripupdates) (dict_merge (trip_base re poll e u) b)"
    if "kinded b \<and> map fst b = stop_keys" for b
    using merged_row_ok [OF trip_base_ok [OF assms] that trip_keys_ok] by blast
  with no_stop_ok stop_ok show ?thesis
    by (simp add: trip_rows_def Let_def list_all_iff split_def)
qed

definition alert_head_keys :: "string list" where
  "alert_head_keys = take 24 (drop 11 (PARQUET_COLUMNS Alerts))"

definition affected_keys :: "string list" where
  "affected_keys = drop 39 (PARQUET_COLUMNS Alerts)"

lemma alert_keys: "COMMON_COLUMNS @ alert_head_keys @ [''bkk_start_text_json'', ''bkk_end_text_json'',
    ''bkk_modified_time'', ''bkk_route_details_json''] @ affected_keys = PARQUET_COLUMNS Alerts"
  by (simp add: alert_head_keys_def affected_keys_def COMMON_COLUMNS_def)

lemma alert_keys_ok: "distinct (PARQUET_COLUMNS Alerts)"
  by code_simp

lemma alert_parts:
  "kinded (alert_head re a)" "map fst (alert_head re a) = alert_head_keys"
  "kinded (realcity_alert_fields re x)"
  "map fst (realcity_alert_fields re x) =
     [''bkk_start_text_json'', ''bkk_end_text_json'', ''bkk_modified_time'', ''bkk_route_details_json'']"
  by (auto simp: kinded_def alert_head_def alert_head_keys_def realcity_alert_fields_def COMMON_COLUMNS_def
    column_types split: option.split list.split)

lemma has_kind_field:
  "kinded row \<Longrightarrow> has_kind (column_type k) (row_get row k)"
  by (induction row) (auto simp: kinded_def row_get_def split: option.splits)

lemma affected_ok: "kinded (affected_fields re s) \<and> map fst (affected_fields re s) = affected_keys"
proof -
  have trip: "has_kind (column_type k) (row_get (trip_fields re t) k)" for k t
    by (rule has_kind_field) (rule kinded_parts(2))
  note trips = trip [of "''trip_id''"] trip [of "''route_id''"] trip [of "''direction_id''"] trip [of "''start_time''"]
    trip [of "''start_date''"] trip [of "''schedule_relationship''"] trip [of "''schedule_relationship_name''"]
  have "kinded (affected_fields re s)"
    using trips by (auto simp: affected_fields_def kinded_def Let_def column_types selector_fields_def row_get_def split: option.split)
  moreover have "map fst (affected_fields re s) = affected_keys"
    by (simp add: affected_fields_def Let_def affected_keys_def COMMON_COLUMNS_def)
  ultimately show ?thesis ..
qed

lemma alert_rows_ok:
  assumes "poll = poll_context re fm (collector_context p s r)"
  shows "list_all (\<lambda>row. kinded row \<and> has_columns (PARQUET_COLUMNS Alerts) row) (alert_rows re poll e a)"
proof -
  let ?parts = "[poll, entity_context e, alert_head re a, realcity_alert_fields re (al_realcity a)]"
  let ?ks = "COMMON_COLUMNS @ alert_head_keys @
    [''bkk_start_text_json'', ''bkk_end_text_json'', ''bkk_modified_time'', ''bkk_route_details_json'']"
  have keys: "map fst (concat ?parts) = ?ks" by (simp add: assms alert_parts)
  have cols: "?ks @ affected_keys = PARQUET_COLUMNS Alerts" using alert_keys by (simp only: append_assoc)
  then have all: "distinct (?ks @ affected_keys)" "set (?ks @ affected_keys) = set (PARQUET_COLUMNS Alerts)"
    using alert_keys_ok by (simp_all only:)
  then have "distinct ?ks" by (simp only: distinct_append)
  moreover have "list_all kinded ?parts" by (simp add: assms kinded_poll kinded_parts alert_parts)
  ultimately have "kinded (alert_base re poll e a) \<and> map fst (alert_base re poll e a) = ?ks"
    using dict_of_columns [OF keys _ refl] keys unfolding alert_base_def by metis
  from merged_row_ok [OF this affected_ok all]
  have "kinded (dict_merge (alert_base re poll e a) (affected_fields re s)) \<and>
      has_columns (PARQUET_COLUMNS Alerts) (dict_merge (alert_base re poll e a) (affected_fields re s))" for s
    by blast
  then show ?thesis
    by (simp add: alert_rows_def Let_def list_all_iff del: PARQUET_COLUMNS.simps)
qed

text \<open>A value of the right kind in every column of the feed's schema, or the tombstone of a deleted entity\<close>

definition row_kinded :: "feed \<Rightarrow> row \<Rightarrow> bool" where
  "row_kinded f row \<longleftrightarrow> kinded row \<and>
     (has_columns (PARQUET_COLUMNS f) row \<or>
      has_columns COMMON_COLUMNS row \<and> row_get row ''entity_is_deleted'' = PBool True)"

lemma concat_entities:
  assumes "\<And>e. x e = None \<Longrightarrow> list_all P (none e)" and "\<And>e v. x e = Some v \<Longrightarrow> list_all P (some e v)"
  shows "list_all P (concat (map (\<lambda>e. case x e of None \<Rightarrow> none e | Some v \<Rightarrow> some e v) es))"
  using assms by (induction es) (auto split: option.split)

lemma tombstones_ok: "list_all (row_kinded f) (tombstone re fm (collector_context p s r) e)"
  using tombstone_ok by (fastforce simp: list_all_iff row_kinded_def)

lemma parsers_row_kinded:
  "list_all (row_kinded f) (PARSERS f re fm (collector_context poll_id started received))"
proof (cases f)
  case Vehiclepositions
  show ?thesis
    unfolding Vehiclepositions PARSERS.simps parse_vehicle_positions_def
    by (rule concat_entities) (simp_all add: tombstones_ok row_kinded_def vehicle_row_ok [OF refl] del: PARQUET_COLUMNS.simps)
next
  case Tripupdates
  have "list_all (row_kinded Tripupdates) (trip_rows re (poll_context re fm (collector_context poll_id started received)) e u)" for e u
    using trip_rows_ok [OF refl] by (fastforce simp: list_all_iff row_kinded_def)
  then show ?thesis
    unfolding Tripupdates PARSERS.simps parse_trip_updates_def
    by (intro concat_entities) (simp_all add: tombstones_ok)
next
  case Alerts
  have "list_all (row_kinded Alerts) (alert_rows re (poll_context re fm (collector_context poll_id started received)) e a)" for e a
    using alert_rows_ok [OF refl] by (fastforce simp: list_all_iff row_kinded_def)
  then show ?thesis
    unfolding Alerts PARSERS.simps parse_alerts_def
    by (intro concat_entities) (simp_all add: tombstones_ok)
qed

subsection \<open>The ranges of the integers\<close>

text \<open>
  A column of unsigned 64-bit fields of the message is an \<^verbatim>\<open>int64\<close> column of the schema, so that the upper half of
  its values is not one of the column's type.
\<close>

definition UINT64_COLUMNS :: "string list" where
  "UINT64_COLUMNS = [''feed_header_timestamp'', ''vehicle_timestamp'', ''trip_update_timestamp'', ''active_period_start'',
     ''active_period_end'', ''bkk_modified_time'']"

definition in_range :: "string \<Rightarrow> pyval \<Rightarrow> bool" where
  "in_range k v \<longleftrightarrow> (case v of
       PInt i \<Rightarrow> if k = ''schema_version'' then i = SCHEMA_VERSION
                else - (2 ^ 63) \<le> i \<and> i < (if k \<in> set UINT64_COLUMNS then 2 ^ 64 else 2 ^ 63)
     | _ \<Rightarrow> True)"

definition ranged :: "row \<Rightarrow> bool" where
  "ranged row \<longleftrightarrow> list_all (\<lambda>(k, v). in_range k v) row"

lemma word_ranges:
  "- (2 ^ 63) \<le> sint (w :: 32 word)" "sint w < 2 ^ 63" "- (2 ^ 63) \<le> sint (x :: 64 word)" "sint x < 2 ^ 63"
  "- (2 ^ 63) \<le> uint w" "uint w < 2 ^ 63" "- (2 ^ 63) \<le> uint x" "uint x < 2 ^ 64"
  using sint_ge [of w] sint_lt [of w] sint_ge [of x] sint_lt [of x] uint_lt2p [of w] uint_lt2p [of x]
  by (simp_all add: order_trans [OF _ uint_ge_0])

lemma in_range_plain [simp]:
  "in_range k PNone" "in_range k (PStr s)" "in_range k (PBool b)" "in_range k (opt_str z)" "in_range k (opt_bool y)" "in_range k (opt_float q)"
  "in_range k (or_none s)" "in_range k (enum_name re e n)" "in_range k (message_json re d)" "in_range k (translations_json re tr)"
  "in_range k (first_translation tr)" "in_range ''schema_version'' (PInt SCHEMA_VERSION)"
  by (simp_all add: in_range_def opt_str_def opt_bool_def opt_float_def or_none_def enum_name_def message_json_def translations_json_def
      first_translation_def split: option.split list.split)

lemma in_range_index: "k \<noteq> ''schema_version'' \<Longrightarrow> i < 2 ^ 31 \<Longrightarrow> in_range k (PInt (int i))"
  by (simp add: in_range_def)

lemma in_range_fields [simp]:
  "k \<noteq> ''schema_version'' \<Longrightarrow> in_range k (opt_signed (x :: 32 word option))"
  "k \<noteq> ''schema_version'' \<Longrightarrow> in_range k (opt_signed (y :: 64 word option))"
  "k \<noteq> ''schema_version'' \<Longrightarrow> in_range k (opt_unsigned x)"
  "k \<noteq> ''schema_version'' \<Longrightarrow> k \<in> set UINT64_COLUMNS \<Longrightarrow> in_range k (opt_unsigned y)"
proof -
  show "k \<noteq> ''schema_version'' \<Longrightarrow> in_range k (opt_signed x)"
    using word_ranges(1,2) [of "the x"] by (cases x) (auto simp: in_range_def opt_signed_def opt_int_def)
  show "k \<noteq> ''schema_version'' \<Longrightarrow> in_range k (opt_signed y)"
    using word_ranges(3,4) [of "the y"] by (cases y) (auto simp: in_range_def opt_signed_def opt_int_def)
  show "k \<noteq> ''schema_version'' \<Longrightarrow> in_range k (opt_unsigned x)"
    using word_ranges(5,6) [of "the x"] by (cases x) (auto simp: in_range_def opt_unsigned_def opt_int_def)
  show "k \<noteq> ''schema_version'' \<Longrightarrow> k \<in> set UINT64_COLUMNS \<Longrightarrow> in_range k (opt_unsigned y)"
    using word_ranges(7,8) [of "the y"] by (cases y) (auto simp: in_range_def opt_unsigned_def opt_int_def)
qed

lemma uint64_members [simp]:
  "''feed_header_timestamp'' \<in> set UINT64_COLUMNS" "''vehicle_timestamp'' \<in> set UINT64_COLUMNS"
  "''trip_update_timestamp'' \<in> set UINT64_COLUMNS" "''active_period_start'' \<in> set UINT64_COLUMNS"
  "''active_period_end'' \<in> set UINT64_COLUMNS" "''bkk_modified_time'' \<in> set UINT64_COLUMNS"
  by (simp_all add: UINT64_COLUMNS_def)

lemma ranged_simps [simp]:
  "ranged []" "ranged ((k, v) # row) \<longleftrightarrow> in_range k v \<and> ranged row" "ranged (a @ b) \<longleftrightarrow> ranged a \<and> ranged b"
  by (simp_all add: ranged_def)

lemma ranged_update: "ranged a \<Longrightarrow> in_range k v \<Longrightarrow> ranged (AList.update k v a)"
  by (induction a) auto

lemma ranged_merge: "ranged a \<Longrightarrow> ranged b \<Longrightarrow> ranged (dict_merge a b)"
proof (induction b arbitrary: a)
  case (Cons p b)
  then show ?case using ranged_update [of a "fst p" "snd p"] by (cases p) (simp add: dict_merge_def)
qed (simp add: dict_merge_def)

lemma ranged_dict_of: "list_all ranged parts \<Longrightarrow> ranged (dict_of parts)"
  by (induction parts rule: rev_induct) (simp_all add: dict_of_def ranged_merge)

lemma ranged_parts:
  "ranged (poll_context re fm (collector_context p s r))" "ranged (entity_context e)" "ranged (trip_fields re t)"
  "ranged (vehicle_desc re v)" "ranged (trip_head re u)" "ranged no_stop_head" "ranged (alert_head re a)" "ranged (realcity_alert_fields re b)"
  by (auto simp: poll_context_def collector_context_def row_get_def py_or_def entity_context_def trip_fields_def trip_desc_def
      TRIP_FIELDS_def vehicle_desc_def realcity_vehicle_fields_def trip_head_def no_stop_head_def alert_head_def realcity_alert_fields_def
      Let_def split: option.split list.split)

lemma ranged_stop_events:
  "ranged (stop_event_fields ev ''arrival'')" "ranged (stop_event_fields ev ''departure'')" "ranged (realcity_stop_fields x)"
  by (simp_all add: stop_event_fields_def realcity_stop_fields_def)

lemma ranged_stops: "ranged no_stop_fields" "i < 2 ^ 31 \<Longrightarrow> ranged (stop_fields re i st)"
proof -
  show "ranged no_stop_fields"
    unfolding no_stop_fields_def by (rule ranged_dict_of) (simp add: ranged_parts ranged_stop_events)
  have "ranged (stop_head re i st)" if "i < 2 ^ 31"
    using that by (simp add: stop_head_def in_range_index)
  then show "i < 2 ^ 31 \<Longrightarrow> ranged (stop_fields re i st)"
    unfolding stop_fields_def by (intro ranged_dict_of) (simp add: ranged_stop_events)
qed

lemma ranged_affected: "ranged (affected_fields re s)"
  by (auto simp: affected_fields_def selector_fields_def trip_fields_def trip_desc_def TRIP_FIELDS_def row_get_def Let_def split: option.split)

text \<open>A protobuf message is shorter than two gigabytes, and so is every repeated field in it.\<close>

definition message_bounded :: "feed_message \<Rightarrow> bool" where
  "message_bounded fm \<longleftrightarrow>
     list_all (\<lambda>e. case en_trip_update e of None \<Rightarrow> True | Some u \<Rightarrow> length (tu_stop_time_updates u) < 2 ^ 31) (fm_entities fm)"

lemma ranged_trip_rows:
  assumes "length (tu_stop_time_updates u) < 2 ^ 31"
  shows "list_all ranged (trip_rows re (poll_context re fm (collector_context p s r)) e u)"
proof -
  have base: "ranged (trip_base re (poll_context re fm (collector_context p s r)) e u)"
    unfolding trip_base_def by (rule ranged_dict_of) (simp add: ranged_parts)
  have "ranged (stop_fields re i st)" if "(i, st) \<in> set (enumerate 0 (tu_stop_time_updates u))" for i st
    using that assms by (intro ranged_stops(2)) (auto simp: in_set_enumerate_eq)
  with base show ?thesis
    by (auto simp: trip_rows_def Let_def list_all_iff intro!: ranged_merge ranged_stops(1))
qed

lemma ranged_entity_rows:
  "list_all ranged (tombstone re fm (collector_context p s r) e)"
  "ranged (vehicle_row re (poll_context re fm (collector_context p s r)) e v)"
  "list_all ranged (alert_rows re (poll_context re fm (collector_context p s r)) e a)"
proof -
  show "list_all ranged (tombstone re fm (collector_context p s r) e)"
    by (simp add: tombstone_def ranged_dict_of ranged_parts)
  show "ranged (vehicle_row re (poll_context re fm (collector_context p s r)) e v)"
    unfolding vehicle_row_def by (rule ranged_dict_of) (simp add: ranged_parts)
  have "ranged (alert_base re (poll_context re fm (collector_context p s r)) e a)"
    unfolding alert_base_def by (rule ranged_dict_of) (simp add: ranged_parts)
  then show "list_all ranged (alert_rows re (poll_context re fm (collector_context p s r)) e a)"
    by (auto simp: alert_rows_def Let_def list_all_iff intro!: ranged_merge ranged_affected)
qed

lemma parsers_ranged:
  assumes "message_bounded fm"
  shows "list_all ranged (PARSERS f re fm (collector_context p s r))"
proof -
  let ?rows = "\<lambda>e. case f of
      Vehiclepositions \<Rightarrow> (case en_vehicle e of None \<Rightarrow> tombstone re fm (collector_context p s r) e
        | Some v \<Rightarrow> [vehicle_row re (poll_context re fm (collector_context p s r)) e v])
    | Tripupdates \<Rightarrow> (case en_trip_update e of None \<Rightarrow> tombstone re fm (collector_context p s r) e
        | Some u \<Rightarrow> trip_rows re (poll_context re fm (collector_context p s r)) e u)
    | Alerts \<Rightarrow> (case en_alert e of None \<Rightarrow> tombstone re fm (collector_context p s r) e
        | Some a \<Rightarrow> alert_rows re (poll_context re fm (collector_context p s r)) e a)"
  have "list_all ranged (?rows e)" if "e \<in> set (fm_entities fm)" for e
    using that assms ranged_entity_rows ranged_trip_rows
    by (cases f) (auto simp: message_bounded_def list_all_iff split: option.split)
  moreover have "PARSERS f re fm (collector_context p s r) = concat (map ?rows (fm_entities fm))"
    by (cases f) (simp_all add: parse_vehicle_positions_def parse_trip_updates_def parse_alerts_def)
  ultimately show ?thesis by (auto simp: list_all_iff)
qed

subsection \<open>Properties\<close>

text \<open>The values that a column of the Parquet schema holds; its integers have 64 bits, those of one column 16.\<close>

fun has_type :: "arrow_type \<Rightarrow> pyval \<Rightarrow> bool" where
  "has_type t PNone = True"
| "has_type t (PBool _) = (t = BoolType)"
| "has_type t (PInt i) = (t = Int64 \<and> - (2 ^ 63) \<le> i \<and> i < 2 ^ 63 \<or> t = Int16 \<and> - (2 ^ 15) \<le> i \<and> i < 2 ^ 15)"
| "has_type t (PFloat _) = (t = Float64)"
| "has_type t (PStr _) = (t = StringType)"
| "has_type t _ = False"

definition too_late :: "string \<Rightarrow> pyval \<Rightarrow> bool" where
  "too_late k v \<longleftrightarrow> k \<in> set UINT64_COLUMNS \<and> (case v of PInt i \<Rightarrow> 2 ^ 63 \<le> i \<and> i < 2 ^ 64 | _ \<Rightarrow> False)"

text \<open>A row that the parsers may produce\<close>

definition row_ok :: "feed \<Rightarrow> row \<Rightarrow> bool" where
  "row_ok f row \<longleftrightarrow> list_all (\<lambda>(k, v). has_type (column_type k) v \<or> too_late k v) row \<and>
     (has_columns (PARQUET_COLUMNS f) row \<or>
      has_columns COMMON_COLUMNS row \<and> row_get row ''entity_is_deleted'' = PBool True)"

lemma kind_and_range:
  assumes "has_kind (column_type k) v" and "in_range k v"
  shows "has_type (column_type k) v \<or> too_late k v"
proof (cases v)
  case (PInt i)
  have "column_type k = Int16 \<longleftrightarrow> k = ''schema_version''" by (simp add: column_type_def)
  with assms show ?thesis by (auto simp: PInt in_range_def too_late_def SCHEMA_VERSION_def split: if_splits)
qed (use assms in simp_all)

lemma parsers_row_ok:
  assumes "message_bounded fm"
  shows "list_all (row_ok f) (PARSERS f re fm (collector_context p s r))"
proof -
  have "row_ok f row" if "row_kinded f row" "ranged row" for row
    using that kind_and_range by (fastforce simp: row_ok_def row_kinded_def kinded_def ranged_def list_all_iff)
  with parsers_row_kinded [of f re fm p s r] parsers_ranged [OF assms, of f re p s r] show ?thesis by (auto simp: list_all_iff)
qed

text \<open>
  Claim C11. Parsed rows have the types of the schema. Every row of every feed, whatever the message, has each column of the
  feed's Parquet schema exactly once, with nothing else and with a null or a value of the column's type, integers within the 64
  bits of theirs; the only other rows are the tombstones of deleted entities, which have the common columns. One kind of value
  is excepted: a time that the message gives as an unsigned number of 2 to the power of 63 or more is put as it is into its column of signed
  64-bit integers, which cannot hold it. Assumed is that no trip of the message has 2 to the power of 31 stops, which the length limit of
  protobuf messages excludes.
\<close>

theorem parsed_rows_typed:
  assumes "message_bounded fm"
  shows "list_all (row_ok f) (PARSERS f re fm (collector_context poll_id started received))"
  by (rule parsers_row_ok [OF assms])

text \<open>A deletion in a feed whose header carries the greatest time: the row is the tombstone, and its time is too late.\<close>

definition late_message :: feed_message where
  "late_message = \<lparr>fm_timestamp = Some (- 1), fm_feed_version = None, fm_gtfs_realtime_version = ''2.0'', fm_incrementality = Some 0,
     fm_entities = [\<lparr>en_id = ''v'', en_is_deleted = Some True, en_vehicle = None, en_trip_update = None, en_alert = None,
       en_other = [], en_bytes = [], en_deterministic = []\<rparr>]\<rparr>"

definition plain_renderer :: renderer where
  "plain_renderer = \<lparr>re_json = (\<lambda>_. ''{}''), re_enum = (\<lambda>_ _. None)\<rparr>"

lemma late_rows:
  "map (\<lambda>row. row_get row ''feed_header_timestamp'') (PARSERS Vehiclepositions plain_renderer late_message (collector_context ''p'' ''s'' ''r'')) =
     [PInt (2 ^ 64 - 1)]"
proof -
  have "uint (- 1 :: 64 word) = 2 ^ 64 - 1" by (simp add: unsigned_minus_1_eq_mask mask_eq_exp_minus_1)
  then show ?thesis
    by (simp add: late_message_def parse_vehicle_positions_def tombstone_def dict_of_def dict_merge_def poll_context_def collector_context_def
      entity_context_def row_get_def py_or_def opt_unsigned_def opt_int_def Let_def)
qed

lemma parsed_rows_typed_witness:
  "list_all (row_ok Vehiclepositions) (PARSERS Vehiclepositions plain_renderer late_message (collector_context ''p'' ''s'' ''r'')) \<and>
   map (\<lambda>row. row_get row ''feed_header_timestamp'') (PARSERS Vehiclepositions plain_renderer late_message (collector_context ''p'' ''s'' ''r'')) =
     [PInt (2 ^ 64 - 1)] \<and> too_late ''feed_header_timestamp'' (PInt (2 ^ 64 - 1))"
proof -
  have "message_bounded late_message" by (simp add: message_bounded_def late_message_def)
  from parsed_rows_typed [OF this] late_rows show ?thesis by (simp add: too_late_def del: PARSERS.simps)
qed

end
