(* ===== verification/Manifest.thy ===== *)
theory Manifest
  imports Static_Gtfs Presence_Audit Monitoring Gtfs_Parse
begin

section \<open>Daily manifests (bkk_collector/archive/manifests.py)\<close>

text \<open>
  A manifest gathers, for a completed date, the evidence of every feed: its poll journal, its raw log, its Parquet files,
  the pending spool, for TripUpdates the presence log, and the static timetable that applied. It lists what is missing in
  \<^verbatim>\<open>completeness_errors\<close>, what is doubtful in \<^verbatim>\<open>quality_flags\<close>, and every file as an artifact with size and digest.

  Error and quality texts are the constructors of \<open>manifest_issue\<close>, rendered by \<open>me_text\<close>. Journals are split at
  line feeds: the JSON the collector writes has no other line break. A link is taken to point to a file.
\<close>

subsection \<open>Values of journal events\<close>

text \<open>\<^verbatim>\<open>int(v)\<close> and \<^verbatim>\<open>float(v)\<close>\<close>

definition int_of :: "pyval \<Rightarrow> exn + int" where
  "int_of v =
     (case v of PInt i \<Rightarrow> Inr i | PBool b \<Rightarrow> Inr (if b then 1 else 0)
      | PFloat q \<Rightarrow> Inr (if q < 0 then \<lceil>q\<rceil> else \<lfloor>q\<rfloor>)
      | PStr s \<Rightarrow> (case parse_int s of Some i \<Rightarrow> Inr i | None \<Rightarrow> Inl (value_error ''invalid literal for int() with base 10''))
      | _ \<Rightarrow> Inl (other_error ''TypeError''))"

definition float_of :: "pyval \<Rightarrow> exn + pynum" where
  "float_of v =
     (case v of PInt i \<Rightarrow> if \<bar>of_int i\<bar> \<ge> binary64_limit then Inl (other_error ''OverflowError'') else Inr (Fin (of_int i))
      | PBool b \<Rightarrow> Inr (Fin (if b then 1 else 0)) | PFloat q \<Rightarrow> Inr (Fin q)
      | PStr s \<Rightarrow> (case parse_float s of Some x \<Rightarrow> Inr x | None \<Rightarrow> Inl (value_error ''could not convert string to float''))
      | _ \<Rightarrow> Inl (other_error ''TypeError''))"

text \<open>\<^verbatim>\<open>sum(int(v or 0) ...)\<close>\<close>

fun sum_ints :: "pyval list \<Rightarrow> exn + int" where
  "sum_ints [] = Inr 0"
| "sum_ints (v # vs) = bind_result (if truthy v then int_of v else Inr 0) (\<lambda>i. map_sum id (\<lambda>j. i + j) (sum_ints vs))"

definition round_even :: "rat \<Rightarrow> int" where
  "round_even y = (let n = \<lfloor>y\<rfloor>; d = y - of_int n in if d < 1 / 2 \<or> (d = 1 / 2 \<and> even n) then n else n + 1)"

text \<open>\<^verbatim>\<open>parse_iso_timestamp\<close>\<close>

definition parse_iso_timestamp :: "tools \<Rightarrow> pyval \<Rightarrow> exn + seconds option" where
  "parse_iso_timestamp tk v =
     (if \<not> truthy v then Inr None
      else case v of
          PStr s \<Rightarrow> Inr (let u = replace_all ''Z'' ''+00:00'' s in if tl_zoned tk u then tl_time tk u else None)
        | _ \<Rightarrow> Inl (other_error ''AttributeError''))"

fun map_result :: "('a \<Rightarrow> 'e + 'b) \<Rightarrow> 'a list \<Rightarrow> 'e + 'b list" where
  "map_result f [] = Inr []"
| "map_result f (x # xs) = bind_result (f x) (\<lambda>y. map_sum id (\<lambda>ys. y # ys) (map_result f xs))"

subsection \<open>Issues\<close>

datatype manifest_issue =
    MissingJournal feed | NoAttempts feed | NoResponses feed | NoParsed feed | NoRawSnapshots feed | CorruptLines feed nat
  | RawTailInvalid feed | RawCountBelow feed nat nat | RawScanFailed feed log_error | RawMissing feed
  | EmptyParquetFailed feed exn | UnreadableParquet feed string | NoParquet feed | ParquetBelow feed int int
  | PendingSpool feed nat | PresenceIssue presence_issue
  | NoApplicableStatic | StaticMissing pyval | StaticChecksum | BadStaticPath exn | ArchiveChecksum pyval
  | InvalidRunId | MissingRun string
  | FewPolls feed nat int | MissedDeadlines feed int | CadenceChanged feed | RecoveredJournal feed | FailedPolls feed nat
  | ParseFailures feed nat | EvidenceFailures feed nat | FreshnessIncidents feed nat | FewRawSnapshots feed nat int
  | NoTimeline | TimelineStartsLate | LegacyApplicability

record manifest_env =
  me_stamp :: stamp
  me_empty :: "feed \<Rightarrow> exn + bytes"
  me_text :: "manifest_issue \<Rightarrow> string"
  me_today :: seconds
  me_now :: seconds
  me_version :: string
  me_commit :: string

subsection \<open>Artifacts\<close>

definition artifact :: "tools \<Rightarrow> tree \<Rightarrow> path \<Rightarrow> string \<Rightarrow> exn + row" where
  "artifact tk t p kind =
     (case map_of t p of
        Some (Regular f) \<Rightarrow>
          Inr [(''path'', PStr (join_path p)), (''kind'', PStr kind), (''size'', PInt (int (length (fo_bytes f)))),
               (''mtime_ns'', PInt (fo_mtime f)), (''sha256'', PStr (tl_sha tk (fo_bytes f)))]
      | Some Symlink \<Rightarrow> Inl (value_error ''refusing symlinked artifact'')
      | _ \<Rightarrow> Inl (other_error ''OSError''))"

definition is_file :: "tree \<Rightarrow> path \<Rightarrow> bool" where
  "is_file t p \<longleftrightarrow> (case map_of t p of Some (Regular _) \<Rightarrow> True | Some Symlink \<Rightarrow> True | _ \<Rightarrow> False)"

definition ends_with :: "string \<Rightarrow> string \<Rightarrow> bool" where
  "ends_with s x \<longleftrightarrow> length x \<le> length s \<and> drop (length s - length x) s = x"

definition starts_with :: "string \<Rightarrow> string \<Rightarrow> bool" where
  "starts_with s x \<longleftrightarrow> take (length x) s = x"

definition partition_dir :: "string \<Rightarrow> feed \<Rightarrow> string \<Rightarrow> path" where
  "partition_dir kind feed date = [kind, feed_name feed, ''date='' @ date]"

definition journal_dir :: "feed \<Rightarrow> string \<Rightarrow> path" where
  "journal_dir feed date = [''metadata'', ''polls'', feed_name feed, ''date='' @ date]"

definition poll_journal_path :: "feed \<Rightarrow> string \<Rightarrow> path" where
  "poll_journal_path feed date = journal_dir feed date @ [''polls.jsonl'']"

definition presence_dir :: "string \<Rightarrow> path" where
  "presence_dir date = [''metadata'', ''tripupdates_presence'', ''date='' @ date]"

definition manifest_path :: "string \<Rightarrow> path" where
  "manifest_path date = [''metadata'', ''manifests'', ''date='' @ date @ ''.json'']"

text \<open>\<^verbatim>\<open>sorted(directory.glob(pattern))\<close>, the pattern as a predicate on the name\<close>

definition glob :: "tree \<Rightarrow> path \<Rightarrow> (string \<Rightarrow> bool) \<Rightarrow> path list" where
  "glob t d P = sort [p \<leftarrow> children t d. P (last p)]"

subsection \<open>The poll journal of a feed\<close>

record poll_summary =
  su_missing :: bool
  su_corrupt :: nat
  su_events :: "row list"
  su_emitted :: int
  su_selected :: int
  su_parsed :: int
  su_intervals :: "rat list"
  su_misses :: int

definition responses :: "row list \<Rightarrow> row list" where
  "responses es = [e \<leftarrow> es. truthy (row_get e ''success'')]"

definition parse_successes :: "row list \<Rightarrow> row list" where
  "parse_successes es = [e \<leftarrow> responses es. truthy (row_get e ''parse_ok'')]"

definition raw_events :: "row list \<Rightarrow> row list" where
  "raw_events es = [e \<leftarrow> responses es. truthy (row_get e ''raw_archived'')]"

definition data_successes :: "row list \<Rightarrow> row list" where
  "data_successes es = [e \<leftarrow> responses es. data_poll_success e]"

text \<open>Lines that hold \<^verbatim>\<open>null\<close> or no JSON count as corrupt; another value that is no object has no \<^verbatim>\<open>get\<close>.\<close>

definition journal_events :: "pyval option list \<Rightarrow> exn + row list" where
  "journal_events vs =
     map_result (\<lambda>v. case v of Some (PDict r) \<Rightarrow> Inr r | _ \<Rightarrow> Inl (other_error ''AttributeError''))
       [v \<leftarrow> vs. v \<noteq> None \<and> v \<noteq> Some PNone]"

definition selected_of :: "row \<Rightarrow> pyval" where
  "selected_of e = (case map_of e ''selected_rows'' of Some v \<Rightarrow> v | None \<Rightarrow> row_get e ''emitted_rows'')"

text \<open>The observed intervals: \<^verbatim>\<open>TypeError\<close> and \<^verbatim>\<open>ValueError\<close> skip an event.\<close>

fun observed_intervals :: "row list \<Rightarrow> exn + rat list" where
  "observed_intervals [] = Inr []"
| "observed_intervals (e # es) =
     (case float_of (row_get e ''poll_interval_seconds'') of
        Inr (Fin q) \<Rightarrow> map_sum id (\<lambda>qs. if q \<ge> MIN_REALTIME_INTERVAL_SECONDS then q # qs else qs) (observed_intervals es)
      | Inr _ \<Rightarrow> observed_intervals es
      | Inl x \<Rightarrow> if ex_class x \<in> {''TypeError'', ''ValueError''} then observed_intervals es else Inl x)"

definition summarize :: "tools \<Rightarrow> tree \<Rightarrow> path \<Rightarrow> exn + poll_summary" where
  "summarize tk t journal =
     (let vs = jsonl_at tk t journal in
      bind_result (journal_events vs) (\<lambda>es.
      bind_result (sum_ints (map (\<lambda>e. row_get e ''emitted_rows'') (parse_successes es))) (\<lambda>emitted.
      bind_result (sum_ints (map selected_of (parse_successes es))) (\<lambda>selected.
      bind_result (sum_ints (map (\<lambda>e. row_get e ''parsed_rows'') (parse_successes es))) (\<lambda>parsed.
      bind_result (observed_intervals es) (\<lambda>intervals.
      bind_result (sum_ints (map (\<lambda>e. row_get e ''missed_deadlines_before_request'') es)) (\<lambda>misses.
      Inr \<lparr>su_missing = (regular_at t journal = None), su_corrupt = length [v \<leftarrow> vs. v = None \<or> v = Some PNone],
           su_events = es, su_emitted = emitted, su_selected = selected, su_parsed = parsed,
           su_intervals = sort intervals, su_misses = misses\<rparr>)))))))"

definition expected_interval :: "feed \<Rightarrow> rat list \<Rightarrow> rat" where
  "expected_interval feed intervals =
     (if intervals \<noteq> [] then intervals ! (length intervals div 2) else num_val (DEFAULT_FEED_INTERVALS feed))"

definition expected_count :: "rat \<Rightarrow> int" where
  "expected_count interval = max 1 (round_even (86400 / interval))"

definition journal_errors :: "feed \<Rightarrow> poll_summary \<Rightarrow> manifest_issue list" where
  "journal_errors feed su =
     (let es = su_events su in
      (if su_missing su then [MissingJournal feed] else []) @
      (if es = [] then [NoAttempts feed] else []) @
      (if responses es = [] then [NoResponses feed] else []) @
      (if responses es \<noteq> [] \<and> parse_successes es = [] then [NoParsed feed] else []) @
      (if raw_events es = [] then [NoRawSnapshots feed] else []) @
      (if su_corrupt su \<noteq> 0 then [CorruptLines feed (su_corrupt su)] else []))"

text \<open>\<^verbatim>\<open>any(... for flag in event.get("freshness_flags", []))\<close>\<close>

fun any_text :: "(string \<Rightarrow> bool) \<Rightarrow> pyval list \<Rightarrow> exn + bool" where
  "any_text P [] = Inr False"
| "any_text P (PStr s # vs) = (if P s then Inr True else any_text P vs)"
| "any_text P (v # vs) = Inl (other_error ''AttributeError'')"

definition any_flag :: "(string \<Rightarrow> bool) \<Rightarrow> row \<Rightarrow> exn + bool" where
  "any_flag P e =
     (case map_of e ''freshness_flags'' of
        None \<Rightarrow> Inr False
      | Some (PList vs) \<Rightarrow> any_text P vs
      | Some (PStr s) \<Rightarrow> any_text P (map (\<lambda>c. PStr [c]) s)
      | Some (PDict r) \<Rightarrow> any_text P (map (\<lambda>x. PStr (fst x)) r)
      | _ \<Rightarrow> Inl (other_error ''TypeError''))"

definition count_flagged :: "(string \<Rightarrow> bool) \<Rightarrow> row list \<Rightarrow> exn + nat" where
  "count_flagged P es = map_sum id (\<lambda>bs. length (filter id bs)) (map_result (any_flag P) es)"

definition journal_quality :: "tree \<Rightarrow> feed \<Rightarrow> string \<Rightarrow> poll_summary \<Rightarrow> nat \<Rightarrow> manifest_issue list" where
  "journal_quality t feed date su stale =
     (let es = su_events su; expected = expected_count (expected_interval feed (su_intervals su));
          failed = length es - length (responses es);
          parse_failures = length (responses es) - length (parse_successes es);
          lost = length (parse_successes es) - length (data_successes es) in
      (if int (length es) < expected - 1 then [FewPolls feed (length es) expected] else []) @
      (if su_misses su \<noteq> 0 then [MissedDeadlines feed (su_misses su)] else []) @
      (if length (remdups (su_intervals su)) > 1 then [CadenceChanged feed] else []) @
      (if glob t (journal_dir feed date) (\<lambda>n. starts_with n ''polls.jsonl.corrupt-tail-'') \<noteq> [] then [RecoveredJournal feed] else []) @
      (if failed \<noteq> 0 then [FailedPolls feed failed] else []) @
      (if parse_failures \<noteq> 0 then [ParseFailures feed parse_failures] else []) @
      (if length (data_successes es) < length (parse_successes es) then [EvidenceFailures feed lost] else []) @
      (if stale \<noteq> 0 then [FreshnessIncidents feed stale] else []))"

subsection \<open>Gaps between observations\<close>

definition round6 :: "rat \<Rightarrow> rat" where
  "round6 x = of_int (round_even (x * 1000000)) / 1000000"

definition response_times :: "tools \<Rightarrow> row list \<Rightarrow> seconds \<Rightarrow> exn + seconds list" where
  "response_times tk es day =
     map_sum id (\<lambda>xs. sort (concat (map (\<lambda>x. case x of Some s \<Rightarrow> if day \<le> s \<and> s < day + DAY then [s] else [] | None \<Rightarrow> []) xs)))
       (map_result (\<lambda>e. parse_iso_timestamp tk (row_get e ''response_received_at'')) es)"

definition gap_row :: "tools \<Rightarrow> seconds \<Rightarrow> rat \<Rightarrow> seconds list \<Rightarrow> row" where
  "gap_row tk day interval ts =
     (let pairs = zip ts (drop 1 ts); gaps = [(a, b) \<leftarrow> pairs. b - a > interval * (3 / 2)]; spans = map (\<lambda>(a, b). b - a) pairs in
      [(''successful_observation_gap_count'', PInt (int (length gaps))),
       (''max_successful_observation_gap_seconds'', case spans of [] \<Rightarrow> PNone | x # xs \<Rightarrow> PFloat (foldl max x xs)),
       (''start_boundary_without_success_seconds'', if ts = [] then PInt 86400 else PFloat (hd ts - day)),
       (''end_boundary_without_success_seconds'', if ts = [] then PInt 86400 else PFloat (day + DAY - last ts)),
       (''gap_samples'', PList (map (\<lambda>(a, b). PDict [(''previous_response_at'', PStr (tl_utc_iso tk a)),
          (''next_response_at'', PStr (tl_utc_iso tk b)), (''seconds'', PFloat (round6 (b - a)))]) (take 20 gaps))),
       (''gap_interpretation'', PStr ''response intervals, not inferred exact lost-poll counts; HTTP/parse/storage failures and scheduler misses are separate'')])"

definition observation_gaps :: "tools \<Rightarrow> row list \<Rightarrow> seconds \<Rightarrow> rat \<Rightarrow> exn + row" where
  "observation_gaps tk es day interval = map_sum id (gap_row tk day interval) (response_times tk es day)"

subsection \<open>Raw and Parquet evidence\<close>

definition expected_raw :: "rat \<Rightarrow> row list \<Rightarrow> exn + int" where
  "expected_raw interval es =
     (case find (\<lambda>e. row_get e ''raw_archive_interval_seconds'' \<noteq> PNone) (responses es) of
        None \<Rightarrow> Inr (expected_count interval)
      | Some e \<Rightarrow> map_sum id (\<lambda>x. case x of Fin q \<Rightarrow> expected_count (if q \<le> 0 then interval else max interval q)
                              | PosInf \<Rightarrow> 1 | _ \<Rightarrow> expected_count interval)
          (float_of (row_get e ''raw_archive_interval_seconds'')))"

definition raw_log_path :: "feed \<Rightarrow> string \<Rightarrow> path" where
  "raw_log_path feed date = partition_dir ''raw'' feed date @ [feed_name feed @ ''.rawlog'']"

definition raw_evidence :: "tools \<Rightarrow> tree \<Rightarrow> feed \<Rightarrow> string \<Rightarrow> nat \<Rightarrow> nat \<times> bool \<times> manifest_issue list" where
  "raw_evidence tk t feed date journalled =
     (case regular_at t (raw_log_path feed date) of
        None \<Rightarrow> (0, False, [RawMissing feed])
      | Some f \<Rightarrow>
          if fo_bytes f = [] then (0, False, [RawMissing feed])
          else case scan_raw_log (tl_gunzip tk) True (fo_bytes f) of
              Inl e \<Rightarrow> (0, False, [RawScanFailed feed e])
            | Inr sc \<Rightarrow>
                (complete_records sc, clean sc,
                 (if clean sc then [] else [RawTailInvalid feed]) @
                 (if complete_records sc < journalled then [RawCountBelow feed (complete_records sc) journalled] else [])))"

definition ensure_empty_parquet :: "stamp \<Rightarrow> exn + bytes \<Rightarrow> feed \<Rightarrow> string \<Rightarrow> tree \<Rightarrow> (exn + path) \<times> tree" where
  "ensure_empty_parquet st outcome feed date t =
     (let out = partition_dir ''parquet'' feed date @ [''part-empty.parquet''] in
      if exists_at t out then (Inr out, t)
      else case outcome of Inl e \<Rightarrow> (Inl e, t) | Inr bs \<Rightarrow> (Inr out, write_file st out bs t))"

definition parquet_files :: "tree \<Rightarrow> feed \<Rightarrow> string \<Rightarrow> path list" where
  "parquet_files t feed date = glob t (partition_dir ''parquet'' feed date) (\<lambda>n. ends_with n ''.parquet'')"

definition find_parquet :: "manifest_env \<Rightarrow> tree \<Rightarrow> feed \<Rightarrow> string \<Rightarrow> bool \<Rightarrow> (path list \<times> manifest_issue list) \<times> tree" where
  "find_parquet env t feed date create =
     (if parquet_files t feed date = [] \<and> create
      then case ensure_empty_parquet (me_stamp env) (me_empty env feed) feed date t of
          (Inr p, t') \<Rightarrow> (([p], []), t')
        | (Inl e, t') \<Rightarrow> (([], [EmptyParquetFailed feed e]), t')
      else ((parquet_files t feed date, []), t))"

definition row_count :: "tools \<Rightarrow> tree \<Rightarrow> path \<Rightarrow> int option" where
  "row_count tk t p = (case regular_at t p of None \<Rightarrow> None | Some f \<Rightarrow> tl_rows tk (fo_bytes f))"

definition parquet_rows :: "tools \<Rightarrow> tree \<Rightarrow> path list \<Rightarrow> int" where
  "parquet_rows tk t ps = sum_list (map (\<lambda>p. case row_count tk t p of None \<Rightarrow> 0 | Some n \<Rightarrow> n) ps)"

definition parquet_errors :: "tools \<Rightarrow> tree \<Rightarrow> feed \<Rightarrow> path list \<Rightarrow> int \<Rightarrow> manifest_issue list" where
  "parquet_errors tk t feed ps emitted =
     [UnreadableParquet feed (last p). p \<leftarrow> ps, row_count tk t p = None] @
     (if ps = [] then [NoParquet feed]
      else if parquet_rows tk t ps < emitted then [ParquetBelow feed (parquet_rows tk t ps) emitted] else [])"

definition pending_spool :: "tree \<Rightarrow> feed \<Rightarrow> string \<Rightarrow> path list" where
  "pending_spool t feed date =
     glob t (partition_dir ''spool'' feed date) (\<lambda>n. starts_with n ''batch-'' \<and> ends_with n ''.json.gz'' \<and> length n \<ge> 14)"

subsection \<open>Presence evidence\<close>

definition presence_file :: "tree \<Rightarrow> string \<Rightarrow> raw_file" where
  "presence_file t date =
     \<lparr>content = map_option fo_bytes (regular_at t (presence_dir date @ [''presence.jsonlog''])), checkpoint = None,
      sidecars = concat (map (\<lambda>p. case regular_at t p of Some f \<Rightarrow> [fo_bytes f] | None \<Rightarrow> [[]])
        (glob t (presence_dir date) (\<lambda>n. starts_with n ''presence.jsonlog.corrupt-tail-'')))\<rparr>"

definition presence_row :: "presence_stats \<Rightarrow> row" where
  "presence_row ps =
     [(''expected_observations'', PInt (expected_observations ps)),
      (''journal_confirmed_observations'', PInt (journal_confirmed_observations ps)),
      (''records'', PInt (ps_records ps)), (''baselines'', PInt (ps_baselines ps)),
      (''legacy_pre_presence_polls'', PInt (legacy_pre_presence_polls ps)),
      (''source_timestamp_observations'', PInt (source_timestamp_observations ps)),
      (''unavailable_observations'', PInt (unavailable_observations ps))]"

definition presence_evidence ::
  "tools \<Rightarrow> tree \<Rightarrow> string \<Rightarrow> row list \<Rightarrow> exn + row \<times> manifest_issue list \<times> manifest_issue list" where
  "presence_evidence tk t date es =
     (if list_ex (\<lambda>e. promising e \<and> map_of e ''poll_id'' = None) es then Inl (other_error ''KeyError'')
      else case presence_stats (tl_gunzip tk) (tl_presence tk) es (presence_file t date) of
        (ps, errors, quality) \<Rightarrow> Inr (presence_row ps, map PresenceIssue errors, map PresenceIssue quality))"

subsection \<open>The statistics of a feed\<close>

text \<open>\<^verbatim>\<open>min(timestamps)\<close> and \<^verbatim>\<open>max(timestamps)\<close>: several values are compared as texts, anything else does not compare.\<close>

fun texts_of :: "pyval list \<Rightarrow> exn + string list" where
  "texts_of [] = Inr []"
| "texts_of (PStr s # vs) = map_sum id (\<lambda>xs. s # xs) (texts_of vs)"
| "texts_of (v # vs) = Inl (other_error ''TypeError'')"

definition extreme :: "(string \<Rightarrow> string \<Rightarrow> string) \<Rightarrow> pyval list \<Rightarrow> exn + pyval" where
  "extreme f vs =
     (case vs of [] \<Rightarrow> Inr PNone | [v] \<Rightarrow> Inr v
      | _ \<Rightarrow> map_sum id (\<lambda>xs. case xs of [] \<Rightarrow> PNone | x # ys \<Rightarrow> PStr (foldl f x ys)) (texts_of vs))"

record late_stats =
  ls_gaps :: row
  ls_incidents :: nat
  ls_warnings :: nat
  ls_raw_expected :: int

definition late_evidence :: "tools \<Rightarrow> feed \<Rightarrow> poll_summary \<Rightarrow> seconds \<Rightarrow> exn + late_stats" where
  "late_evidence tk feed su day =
     (let es = su_events su; interval = expected_interval feed (su_intervals su) in
      bind_result (observation_gaps tk (data_successes es) day interval) (\<lambda>gaps.
      bind_result (count_flagged (\<lambda>f. \<not> is_warning f) (responses es)) (\<lambda>incidents.
      bind_result (count_flagged is_warning (responses es)) (\<lambda>warnings.
      map_sum id (\<lambda>n. \<lparr>ls_gaps = gaps, ls_incidents = incidents, ls_warnings = warnings, ls_raw_expected = n\<rparr>)
        (expected_raw interval es)))))"

definition processing_with_raw :: "row list \<Rightarrow> nat" where
  "processing_with_raw es =
     length [e \<leftarrow> responses es. truthy (row_get e ''raw_archived'')
       \<and> truthy (case map_of e ''raw_ok'' of None \<Rightarrow> PBool True | Some v \<Rightarrow> v) \<and> \<not> data_poll_success e]"

definition feed_row ::
  "feed \<Rightarrow> poll_summary \<Rightarrow> late_stats \<Rightarrow> nat \<times> bool \<Rightarrow> int \<Rightarrow> nat \<Rightarrow> nat \<Rightarrow> nat \<Rightarrow> pyval \<times> pyval \<times> string list \<Rightarrow> row" where
  "feed_row feed su ls raw rows files pending tails shown =
     (let es = su_events su; interval = expected_interval feed (su_intervals su); expected = expected_count interval;
          count = (\<lambda>n. PInt (int n)) in
      [(''configured_poll_interval_seconds'', PFloat interval), (''expected_polls'', PInt expected),
       (''attempted_polls'', count (length es)), (''successful_http_polls'', count (length (responses es))),
       (''failed_http_polls'', count (length es - length (responses es))),
       (''successful_parse_polls'', count (length (parse_successes es))),
       (''parse_failures'', count (length (responses es) - length (parse_successes es))),
       (''successful_data_polls'', count (length (data_successes es))),
       (''failed_processing_polls_with_raw_evidence'', count (processing_with_raw es)),
       (''journalled_poll_count_ratio'', PFloat (of_nat (length es) / of_int expected)),
       (''successful_data_poll_count_ratio'', PFloat (of_nat (length (data_successes es)) / of_int expected)),
       (''poll_count_shortfall'', PInt (max 0 (expected - int (length es))))] @
      ls_gaps ls @
      [(''first_success_at'', fst shown), (''last_success_at'', fst (snd shown)),
       (''raw_snapshots'', count (fst raw)), (''expected_raw_snapshots'', PInt (ls_raw_expected ls)),
       (''journal_raw_snapshots'', count (length (raw_events es))), (''raw_log_clean'', PBool (snd raw)),
       (''parsed_rows_seen'', PInt (su_parsed su)), (''event_rows_selected'', PInt (su_selected su)),
       (''event_rows_emitted'', PInt (su_emitted su)), (''parquet_rows'', PInt rows), (''parquet_files'', count files),
       (''stale_feed_polls'', count (ls_incidents ls)), (''freshness_warning_polls'', count (ls_warnings ls)),
       (''corrupt_journal_lines'', count (su_corrupt su)), (''recovered_journal_tail_files'', count tails),
       (''collector_run_ids'', PList (map PStr (snd (snd shown)))),
       (''pending_spool_segments'', count pending), (''scheduler_missed_deadlines'', PInt (su_misses su))])"

text \<open>What is read after the Parquet files: the first and last response, the run ids, the presence evidence.\<close>

definition shown_evidence :: "row list \<Rightarrow> exn + pyval \<times> pyval \<times> string list" where
  "shown_evidence es =
     (let stamps = [v \<leftarrow> map (\<lambda>e. row_get e ''response_received_at'') (responses es). truthy v] in
      bind_result (extreme min stamps) (\<lambda>first.
      bind_result (extreme max stamps) (\<lambda>latest.
      map_sum id (\<lambda>ids. (first, latest, sort (remdups ids)))
        (texts_of [v \<leftarrow> map (\<lambda>e. row_get e ''run_id'') es. truthy v]))))"

record feed_result =
  fs_stats :: row
  fs_errors :: "manifest_issue list"
  fs_quality :: "manifest_issue list"

definition feed_presence ::
  "tools \<Rightarrow> tree \<Rightarrow> feed \<Rightarrow> string \<Rightarrow> row list \<Rightarrow> exn + row \<times> manifest_issue list \<times> manifest_issue list" where
  "feed_presence tk t feed date es =
     (if feed = Tripupdates
      then map_sum id (\<lambda>(r, errors, quality). ([(''presence'', PDict r)], errors, quality)) (presence_evidence tk t date es)
      else Inr ([], [], []))"

definition finish_feed ::
  "tools \<Rightarrow> tree \<Rightarrow> feed \<Rightarrow> string \<Rightarrow> poll_summary \<Rightarrow> late_stats \<Rightarrow> path list \<times> manifest_issue list \<Rightarrow> exn + feed_result" where
  "finish_feed tk t feed date su ls found =
     (let es = su_events su; ps = fst found; pending = length (pending_spool t feed date);
          tails = length (glob t (journal_dir feed date) (\<lambda>n. starts_with n ''polls.jsonl.corrupt-tail-'')) in
      case raw_evidence tk t feed date (length (raw_events es)) of
        (records, intact, raw_issues) \<Rightarrow>
          bind_result (shown_evidence es) (\<lambda>shown.
          map_sum id (\<lambda>(presence, errors, quality).
              \<lparr>fs_stats = feed_row feed su ls (records, intact) (parquet_rows tk t ps) (length ps) pending tails shown @ presence,
               fs_errors = journal_errors feed su @ raw_issues @ snd found @ parquet_errors tk t feed ps (su_emitted su) @
                 (if pending \<noteq> 0 then [PendingSpool feed pending] else []) @ errors,
               fs_quality = journal_quality t feed date su (ls_incidents ls) @
                 (if of_nat records < of_int (ls_raw_expected ls) * (9 / 10 :: rat)
                  then [FewRawSnapshots feed records (ls_raw_expected ls)] else []) @ quality\<rparr>)
            (feed_presence tk t feed date es)))"

definition feed_stats :: "manifest_env \<Rightarrow> tools \<Rightarrow> feed \<Rightarrow> string \<Rightarrow> seconds \<Rightarrow> bool \<Rightarrow> tree \<Rightarrow> (exn + feed_result) \<times> tree" where
  "feed_stats env tk feed date day create t =
     (case bind_result (summarize tk t (poll_journal_path feed date)) (\<lambda>su. map_sum id (Pair su) (late_evidence tk feed su day)) of
        Inl e \<Rightarrow> (Inl e, t)
      | Inr (su, ls) \<Rightarrow>
          (case find_parquet env t feed date (create \<and> parse_successes (su_events su) \<noteq> [] \<and> su_emitted su = 0) of
             (found, t') \<Rightarrow> (finish_feed tk t' feed date su ls found, t')))"

fun all_feed_stats ::
  "manifest_env \<Rightarrow> tools \<Rightarrow> string \<Rightarrow> seconds \<Rightarrow> bool \<Rightarrow> feed list \<Rightarrow> tree \<Rightarrow> (exn + (feed \<times> feed_result) list) \<times> tree" where
  "all_feed_stats env tk date day create [] t = (Inr [], t)"
| "all_feed_stats env tk date day create (feed # feeds) t =
     (case feed_stats env tk feed date day create t of
        (Inl e, t') \<Rightarrow> (Inl e, t')
      | (Inr r, t') \<Rightarrow>
          (case all_feed_stats env tk date day create feeds t' of (rs, t'') \<Rightarrow> (map_sum id (\<lambda>xs. (feed, r) # xs) rs, t'')))"

subsection \<open>Static timetable evidence\<close>

definition static_errors :: "tools \<Rightarrow> tree \<Rightarrow> row option \<Rightarrow> exn + manifest_issue list" where
  "static_errors tk t applicable =
     (case applicable of
        None \<Rightarrow> Inr [NoApplicableStatic]
      | Some e \<Rightarrow> bind_result (archive_path e) (\<lambda>p.
          if \<not> exists_at t p then Inr [StaticMissing (row_get e ''version_path'')]
          else case regular_at t p of
              None \<Rightarrow> Inl (other_error ''OSError'')
            | Some f \<Rightarrow> Inr (if PStr (tl_sha tk (fo_bytes f)) \<noteq> row_get e ''sha256'' then [StaticChecksum] else [])))"

definition static_quality :: "tools \<Rightarrow> seconds \<Rightarrow> row list \<Rightarrow> manifest_issue list" where
  "static_quality tk day timeline =
     (case timeline of
        [] \<Rightarrow> [NoTimeline]
      | r # _ \<Rightarrow>
          (if row_get r ''effective_from'' \<noteq> PStr (tl_utc_iso tk day) then [TimelineStartsLate] else []) @
          (if list_ex (\<lambda>x. row_get x ''applicability_confidence'' = PStr ''legacy_schedule_uncertain'') timeline
           then [LegacyApplicability] else []))"

text \<open>Every distinct version known locally; a set of digests does not take a list or an object.\<close>

fun static_artifacts :: "tools \<Rightarrow> tree \<Rightarrow> row list \<Rightarrow> pyval list \<Rightarrow> exn + row list \<times> manifest_issue list" where
  "static_artifacts tk t [] seen = Inr ([], [])"
| "static_artifacts tk t (e # es) seen =
     (let digest = row_get e ''sha256''; version = row_get e ''version_path'' in
      if \<not> truthy digest \<or> \<not> truthy version then static_artifacts tk t es seen
      else if (case digest of PList _ \<Rightarrow> True | PDict _ \<Rightarrow> True | _ \<Rightarrow> False) then Inl (other_error ''TypeError'')
      else if digest \<in> set seen then static_artifacts tk t es seen
      else case archive_path e of
          Inl x \<Rightarrow> map_sum id (\<lambda>(as, is). (as, BadStaticPath x # is)) (static_artifacts tk t es seen)
        | Inr p \<Rightarrow>
            if \<not> exists_at t p then static_artifacts tk t es seen
            else bind_result (artifact tk t p ''static_gtfs'') (\<lambda>a.
              if row_get a ''sha256'' \<noteq> digest
              then map_sum id (\<lambda>(as, is). (as, ArchiveChecksum version # is)) (static_artifacts tk t es seen)
              else map_sum id (\<lambda>(as, is). (a # as, is)) (static_artifacts tk t es (digest # seen))))"

definition if_exists :: "tools \<Rightarrow> tree \<Rightarrow> path \<Rightarrow> string \<Rightarrow> exn + row list" where
  "if_exists tk t p kind = (if exists_at t p then map_sum id (\<lambda>a. [a]) (artifact tk t p kind) else Inr [])"

definition static_evidence :: "tools \<Rightarrow> tree \<Rightarrow> row option \<Rightarrow> exn + row list \<times> manifest_issue list" where
  "static_evidence tk t applicable =
     (case applicable of
        None \<Rightarrow> Inr ([], [])
      | Some e \<Rightarrow>
          bind_result (static_artifacts tk t (e # gtfs_history tk t) []) (\<lambda>(archives, issues).
          bind_result (if_exists tk t history_path ''static_gtfs_history'') (\<lambda>history.
          map_sum id (\<lambda>state. (archives @ history @ state, issues)) (if_exists tk t gtfs_state_path ''static_gtfs_state''))))"

subsection \<open>The artifacts of the day\<close>

definition file_artifacts :: "tools \<Rightarrow> tree \<Rightarrow> path list \<Rightarrow> string \<Rightarrow> exn + row list" where
  "file_artifacts tk t ps kind = map_result (\<lambda>p. artifact tk t p kind) ps"

definition feed_artifacts :: "tools \<Rightarrow> tree \<Rightarrow> string \<Rightarrow> feed \<Rightarrow> exn + row list" where
  "feed_artifacts tk t date feed =
     bind_result (file_artifacts tk t (filter (is_file t) (glob t (partition_dir ''raw'' feed date) (\<lambda>_. True))) ''raw'') (\<lambda>raw.
     bind_result (file_artifacts tk t (parquet_files t feed date) ''parquet'') (\<lambda>parquet.
     map_sum id (\<lambda>journal. raw @ parquet @ journal)
       (file_artifacts tk t (filter (is_file t) (glob t (journal_dir feed date) (\<lambda>n. starts_with n ''polls.jsonl''))) ''poll_metadata'')))"

definition hex_digit :: "char \<Rightarrow> bool" where
  "hex_digit c \<longleftrightarrow> (CHR ''0'' \<le> c \<and> c \<le> CHR ''9'') \<or> (CHR ''a'' \<le> c \<and> c \<le> CHR ''f'')"

definition hex_text :: "nat \<Rightarrow> string \<Rightarrow> bool" where
  "hex_text n s \<longleftrightarrow> length s = n \<and> list_all hex_digit s"

fun run_artifacts :: "tools \<Rightarrow> tree \<Rightarrow> string list \<Rightarrow> exn + row list \<times> manifest_issue list" where
  "run_artifacts tk t [] = Inr ([], [])"
| "run_artifacts tk t (i # ids) =
     (if \<not> hex_text 32 i then map_sum id (\<lambda>(as, is). (as, InvalidRunId # is)) (run_artifacts tk t ids)
      else let p = [''metadata'', ''collector_runs'', i @ ''.json''] in
        if \<not> is_file t p then map_sum id (\<lambda>(as, is). (as, MissingRun i # is)) (run_artifacts tk t ids)
        else bind_result (artifact tk t p ''collector_run_metadata'') (\<lambda>a.
          map_sum id (\<lambda>(as, is). (a # as, is)) (run_artifacts tk t ids)))"

definition run_ids_of :: "(feed \<times> feed_result) list \<Rightarrow> string list" where
  "run_ids_of rs = sort (remdups (concat (map (\<lambda>(f, r).
     case row_get (fs_stats r) ''collector_run_ids'' of PList vs \<Rightarrow> [s. PStr s \<leftarrow> vs] | _ \<Rightarrow> []) rs)))"

definition day_artifacts ::
  "tools \<Rightarrow> tree \<Rightarrow> string \<Rightarrow> (feed \<times> feed_result) list \<Rightarrow> row option \<Rightarrow> exn + row list \<times> manifest_issue list" where
  "day_artifacts tk t date rs applicable =
     bind_result (map_result (feed_artifacts tk t date) FEED_NAMES) (\<lambda>feeds.
     bind_result (file_artifacts tk t (filter (is_file t) (glob t (presence_dir date) (\<lambda>_. True))) ''tripupdates_presence'') (\<lambda>presence.
     bind_result (run_artifacts tk t (run_ids_of rs)) (\<lambda>(runs, run_issues).
     map_sum id (\<lambda>(static, static_issues). (concat feeds @ presence @ runs @ static, run_issues @ static_issues))
       (static_evidence tk t applicable))))"

subsection \<open>The manifest\<close>

definition manifest_row ::
  "manifest_env \<Rightarrow> tools \<Rightarrow> string \<Rightarrow> manifest_issue list \<Rightarrow> manifest_issue list \<Rightarrow> (feed \<times> feed_result) list \<Rightarrow> row option \<Rightarrow> row list \<Rightarrow> row list \<Rightarrow> row" where
  "manifest_row env tk date errors quality rs applicable timeline artifacts =
     [(''manifest_version'', PInt 1), (''date'', PStr date), (''generated_at'', PStr (tl_utc_iso tk (me_now env))),
      (''collector_schema_version'', PInt 2), (''collector_version'', PStr (me_version env)),
      (''collector_git_commit'', PStr (me_commit env)), (''complete'', PBool (errors = [])),
      (''completeness_errors'', PList (map (\<lambda>x. PStr (me_text env x)) errors)), (''quality_ok'', PBool (quality = [])),
      (''quality_flags'', PList (map (\<lambda>x. PStr (me_text env x)) quality)),
      (''feeds'', PDict (map (\<lambda>(f, r). (feed_name f, PDict (fs_stats r))) rs)),
      (''static_gtfs'', case applicable of None \<Rightarrow> PNone | Some e \<Rightarrow> PDict e),
      (''static_gtfs_timeline'', PList (map PDict timeline)), (''artifacts'', PList (map PDict artifacts))]"

definition assemble_manifest ::
  "manifest_env \<Rightarrow> tools \<Rightarrow> string \<Rightarrow> seconds \<Rightarrow> (feed \<times> feed_result) list \<Rightarrow> tree \<Rightarrow> exn + row" where
  "assemble_manifest env tk date day rs t =
     bind_result (applicable_version tk (gtfs_history tk t) day) (\<lambda>applicable.
      bind_result (observed_timeline tk (gtfs_history tk t) day (day + DAY)) (\<lambda>timeline.
      bind_result (static_errors tk t applicable) (\<lambda>missing.
      map_sum id (\<lambda>(artifacts, issues).
          manifest_row env tk date (concat (map (\<lambda>x. fs_errors (snd x)) rs) @ missing @ issues)
            (concat (map (\<lambda>x. fs_quality (snd x)) rs) @ static_quality tk day timeline) rs applicable timeline artifacts)
        (day_artifacts tk t date rs applicable))))"

definition build_daily_manifest :: "manifest_env \<Rightarrow> tools \<Rightarrow> string \<Rightarrow> bool \<Rightarrow> tree \<Rightarrow> (exn + row) \<times> tree" where
  "build_daily_manifest env tk date create t =
     (case tl_day tk date of
        None \<Rightarrow> (Inl (value_error ''time data does not match format''), t)
      | Some day \<Rightarrow>
          if day \<ge> me_today env then (Inl (value_error ''daily manifests can only finalize completed UTC dates''), t)
          else (case all_feed_stats env tk date day create FEED_NAMES t of
              (Inl e, t') \<Rightarrow> (Inl e, t')
            | (Inr rs, t') \<Rightarrow>
                (case assemble_manifest env tk date day rs t' of
                   Inl e \<Rightarrow> (Inl e, t')
                 | Inr m \<Rightarrow> (Inr m, write_json tk (me_stamp env) (manifest_path date) m t'))))"

definition discover_completed_dates :: "tools \<Rightarrow> string \<Rightarrow> tree \<Rightarrow> string list" where
  "discover_completed_dates tk today t =
     sort (remdups [drop 5 (last p). p \<leftarrow> map fst t,
       \<exists>root \<in> {[''raw''], [''parquet''], [''metadata'', ''polls'']}. length p = length root + 2 \<and> take (length root) p = root,
       starts_with (last p) ''date='', tl_day tk (drop 5 (last p)) \<noteq> None, drop 5 (last p) < today])"

end
