(* ===== verification/Backup.thy ===== *)
theory Backup
  imports Manifest "HOL-Library.Code_Target_Nat"
begin

section \<open>Backup (bkk_collector/archive/backup.py)\<close>

text \<open>
  A date is backed up by uploading every artifact of its manifest and verifying all of them at one immutable revision of
  the remote repository; only then is a receipt written, uploaded, verified and renamed into place. The receipt is what
  later authorises pruning.

  The remote repository is a record of calls on a state of any type, so that its content may change between two calls.
  An object it answers with is a row of its attributes. Local writes succeed; a crash between two of them leaves one of
  the trees of the trace that \<open>backup_date\<close> returns.
\<close>

subsection \<open>Calls to the repository\<close>

type_synonym ('h, 'a) call = "'h \<Rightarrow> (exn + 'a) \<times> 'h"

definition and_then :: "('h, 'a) call \<Rightarrow> ('a \<Rightarrow> ('h, 'b) call) \<Rightarrow> ('h, 'b) call" where
  "and_then m f h = (case m h of (Inl e, h') \<Rightarrow> (Inl e, h') | (Inr x, h') \<Rightarrow> f x h')"

definition lift :: "exn + 'a \<Rightarrow> ('h, 'a) call" where
  "lift r h = (r, h)"

record 'h hub =
  hub_infos :: "string option \<Rightarrow> string list \<Rightarrow> ('h, row list) call"
  hub_download :: "string \<Rightarrow> string \<Rightarrow> ('h, bytes) call"
  hub_head :: "('h, pyval) call"
  hub_create :: "('h, unit) call"
  hub_upload :: "string \<Rightarrow> bytes \<Rightarrow> ('h, unit) call"

record backup_config =
  bk_repo_id :: string
  bk_token :: string

definition backup_enabled :: "backup_config \<Rightarrow> bool" where
  "backup_enabled cfg \<longleftrightarrow> bk_repo_id cfg \<noteq> [] \<and> bk_token cfg \<noteq> []"

subsection \<open>Receipts and pending dates\<close>

definition receipts_dir :: path where
  "receipts_dir = [''backup_receipts'']"

definition receipt_path :: "string \<Rightarrow> path" where
  "receipt_path date = receipts_dir @ [''date='' @ date @ ''.json'']"

definition dated_name :: "string \<Rightarrow> bool" where
  "dated_name n \<longleftrightarrow> starts_with n ''date='' \<and> ends_with n ''.json'' \<and> length n \<ge> 10"

definition date_of_name :: "string \<Rightarrow> string" where
  "date_of_name n = drop 5 (take (length n - 5) n)"

definition receipt_counts :: "backup_config \<Rightarrow> string \<Rightarrow> pyval \<Rightarrow> bool" where
  "receipt_counts cfg date v =
     (case v of
        PDict r \<Rightarrow>
          row_get r ''version'' = PInt 2 \<and> row_get r ''remote_verified'' = PBool True \<and>
          row_get r ''repo_id'' = PStr (bk_repo_id cfg) \<and> row_get r ''date'' = PStr date \<and>
          (case row_get r ''artifacts'' of PList xs \<Rightarrow> xs \<noteq> [] | _ \<Rightarrow> False)
      | _ \<Rightarrow> False)"

definition confirmed_dates :: "tools \<Rightarrow> backup_config \<Rightarrow> tree \<Rightarrow> string list" where
  "confirmed_dates tk cfg t =
     [date_of_name (last p). p \<leftarrow> children t receipts_dir, dated_name (last p),
        receipt_counts cfg (date_of_name (last p)) (read_json tk t p (PDict []))]"

definition legacy_handled :: "pyval \<Rightarrow> string list" where
  "legacy_handled item =
     (case item of
        PDict r \<Rightarrow>
          if row_get r ''inventory_complete'' = PBool True \<and> row_get r ''legacy_handled'' = PBool True
             \<and> row_get r ''classification'' \<noteq> PStr ''v2_complete''
          then (case row_get r ''date'' of PStr d \<Rightarrow> [d] | _ \<Rightarrow> []) else []
      | _ \<Rightarrow> [])"

definition handled_legacy :: "tools \<Rightarrow> tree \<Rightarrow> exn + string list" where
  "handled_legacy tk t =
     (case read_json tk t [''metadata'', ''legacy_inventory.json''] (PDict []) of
        PDict r \<Rightarrow>
          if row_get r ''inventory_version'' = PInt 1 \<and> row_get r ''inventory_complete'' = PBool True
          then (case map_of r ''dates'' of
              None \<Rightarrow> Inr []
            | Some (PList items) \<Rightarrow> Inr (concat (map legacy_handled items))
            | Some (PStr _) \<Rightarrow> Inr [] | Some (PDict _) \<Rightarrow> Inr []
            | _ \<Rightarrow> Inl (other_error ''TypeError''))
          else Inr []
      | _ \<Rightarrow> Inl (other_error ''AttributeError''))"

definition pending_dates :: "tools \<Rightarrow> backup_config \<Rightarrow> string \<Rightarrow> tree \<Rightarrow> exn + string list" where
  "pending_dates tk cfg today t =
     map_sum id (\<lambda>handled. [d \<leftarrow> discover_completed_dates tk today t. d \<notin> set (confirmed_dates tk cfg t) \<and> d \<notin> set handled])
       (handled_legacy tk t)"

subsection \<open>Local artifacts\<close>

text \<open>\<^verbatim>\<open>artifact[key]\<close>; a path is a text.\<close>

definition item :: "row \<Rightarrow> string \<Rightarrow> exn + pyval" where
  "item r k = (case map_of r k of None \<Rightarrow> Inl (other_error ''KeyError'') | Some v \<Rightarrow> Inr v)"

definition text_item :: "row \<Rightarrow> string \<Rightarrow> exn + string" where
  "text_item r k = bind_result (item r k) (\<lambda>v. case v of PStr s \<Rightarrow> Inr s | _ \<Rightarrow> Inl (other_error ''TypeError''))"

definition rows_of :: "pyval \<Rightarrow> exn + row list" where
  "rows_of v =
     (case v of PList vs \<Rightarrow> map_result (\<lambda>x. case x of PDict r \<Rightarrow> Inr r | _ \<Rightarrow> Inl (other_error ''TypeError'')) vs
      | _ \<Rightarrow> Inl (other_error ''TypeError''))"

text \<open>\<^verbatim>\<open>{artifact["path"]: artifact for artifact in artifacts}\<close>\<close>

definition by_path :: "row list \<Rightarrow> exn + (string \<times> row) list" where
  "by_path as = map_sum id (foldl (\<lambda>d (p, a). AList.update p a d) []) (map_result (\<lambda>a. map_sum id (\<lambda>p. (p, a)) (text_item a ''path'')) as)"

definition manifest_artifact :: "tools \<Rightarrow> tree \<Rightarrow> string \<Rightarrow> exn + row" where
  "manifest_artifact tk t date =
     (case regular_at t (manifest_path date) of
        None \<Rightarrow> Inl (other_error ''FileNotFoundError'')
      | Some f \<Rightarrow> Inr [(''path'', PStr (join_path (manifest_path date))), (''kind'', PStr ''daily_manifest''),
                       (''size'', PInt (int (length (fo_bytes f)))), (''sha256'', PStr (tl_sha tk (fo_bytes f)))])"

definition local_artifacts :: "tools \<Rightarrow> tree \<Rightarrow> string \<Rightarrow> row \<Rightarrow> exn + row list" where
  "local_artifacts tk t date manifest =
     bind_result (item manifest ''artifacts'') (\<lambda>v.
     bind_result (rows_of v) (\<lambda>as.
     bind_result (manifest_artifact tk t date) (\<lambda>m.
     map_sum id (\<lambda>d. map snd (sort_key fst d)) (by_path (as @ [m])))))"

definition validate_artifact :: "tools \<Rightarrow> tree \<Rightarrow> bool \<Rightarrow> row \<Rightarrow> exn + unit" where
  "validate_artifact tk t verify_hashes a =
     bind_result (text_item a ''path'') (\<lambda>s.
       if (s \<noteq> [] \<and> hd s = CHR ''/'') \<or> ''..'' \<in> set (path_parts s) then Inl (value_error (''unsafe backup artifact path: '' @ s))
       else bind_result (safe_path t s) (\<lambda>p.
         case regular_at t p of
           None \<Rightarrow> Inl (other_error ''FileNotFoundError'')
         | Some f \<Rightarrow>
             bind_result (item a ''size'') (\<lambda>n.
               if PInt (int (length (fo_bytes f))) \<noteq> n then Inl (other_error ''OSError'')
               else if verify_hashes
               then bind_result (item a ''sha256'') (\<lambda>d. if PStr (tl_sha tk (fo_bytes f)) \<noteq> d then Inl (other_error ''OSError'') else Inr ())
               else Inr ())))"

fun validate_local :: "tools \<Rightarrow> tree \<Rightarrow> bool \<Rightarrow> row list \<Rightarrow> exn + unit" where
  "validate_local tk t verify_hashes [] = Inr ()"
| "validate_local tk t verify_hashes (a # as) =
     bind_result (validate_artifact tk t verify_hashes a) (\<lambda>_. validate_local tk t verify_hashes as)"

subsection \<open>The manifest as authorisation\<close>

definition refuse :: "bool \<Rightarrow> string \<Rightarrow> exn + unit" where
  "refuse bad reason = (if bad then Inl (value_error reason) else Inr ())"

definition get_or :: "row \<Rightarrow> string \<Rightarrow> pyval \<Rightarrow> pyval" where
  "get_or r k v = (case map_of r k of None \<Rightarrow> v | Some x \<Rightarrow> x)"

text \<open>The chain of \<^verbatim>\<open>int(stats.get(key, 0)) < 1 or ...\<close>, each count with the test that makes it bad\<close>

fun bad_count :: "row \<Rightarrow> (string \<times> (int \<Rightarrow> bool)) list \<Rightarrow> exn + bool" where
  "bad_count stats [] = Inr False"
| "bad_count stats ((k, bad) # ks) =
     bind_result (int_of (get_or stats k (PInt 0))) (\<lambda>i. if bad i then Inr True else bad_count stats ks)"

definition required_counts :: "(string \<times> (int \<Rightarrow> bool)) list" where
  "required_counts =
     [(''successful_http_polls'', \<lambda>i. i < 1), (''successful_parse_polls'', \<lambda>i. i < 1), (''raw_snapshots'', \<lambda>i. i < 1),
      (''parquet_files'', \<lambda>i. i < 1), (''pending_spool_segments'', \<lambda>i. i \<noteq> 0)]"

definition py_less :: "pyval \<Rightarrow> pyval \<Rightarrow> exn + bool" where
  "py_less a b =
     (case (a, b) of
        (PStr x, PStr y) \<Rightarrow> Inr (x < y)
      | (PStr _, _) \<Rightarrow> Inl (other_error ''TypeError'') | (_, PStr _) \<Rightarrow> Inl (other_error ''TypeError'')
      | _ \<Rightarrow> (case (num_of a, num_of b) of (Some x, Some y) \<Rightarrow> Inr (x < y) | _ \<Rightarrow> Inl (other_error ''TypeError'')))"

definition validate_presence :: "string \<Rightarrow> row \<Rightarrow> string list \<Rightarrow> exn + unit" where
  "validate_presence date stats paths =
     (case get_or stats ''presence'' (PDict []) of
        PDict presence \<Rightarrow>
          if truthy (get_or presence ''journal_confirmed_observations'' (PInt 0))
          then bind_result (py_less (get_or presence ''records'' (PInt 0)) (row_get presence ''journal_confirmed_observations'')) (\<lambda>fewer.
            refuse (fewer \<or> join_path (presence_dir date @ [''presence.jsonlog'']) \<notin> set paths)
              ''daily manifest lacks promised TripUpdates presence evidence'')
          else Inr ()
      | _ \<Rightarrow> Inl (other_error ''AttributeError''))"

definition validate_feed :: "string \<Rightarrow> row \<Rightarrow> string list \<Rightarrow> feed \<Rightarrow> exn + unit" where
  "validate_feed date feeds paths feed =
     (case row_get feeds (feed_name feed) of
        PDict stats \<Rightarrow>
          bind_result (bad_count stats required_counts) (\<lambda>bad.
          bind_result (refuse (bad \<or> row_get stats ''raw_log_clean'' \<noteq> PBool True) ''daily manifest has incomplete evidence'') (\<lambda>_.
          bind_result (refuse (join_path (raw_log_path feed date) \<notin> set paths \<or> join_path (poll_journal_path feed date) \<notin> set paths)
            ''daily manifest lacks required raw/poll artifacts'') (\<lambda>_.
          bind_result (refuse (\<not> list_ex (\<lambda>p. starts_with p (join_path (partition_dir ''parquet'' feed date) @ ''/'') \<and> ends_with p ''.parquet'') paths)
            ''daily manifest lacks required Parquet artifact'') (\<lambda>_.
          if feed = Tripupdates then validate_presence date stats paths else Inr ()))))
      | _ \<Rightarrow> Inl (value_error ''daily manifest lacks statistics''))"

definition static_listed :: "string list \<Rightarrow> pyval \<Rightarrow> bool" where
  "static_listed paths v =
     (case v of PDict r \<Rightarrow> (case row_get r ''version_path'' of PStr s \<Rightarrow> ''static_gtfs/'' @ s \<in> set paths | _ \<Rightarrow> False) | _ \<Rightarrow> False)"

fun first_failure :: "('a \<Rightarrow> exn + unit) \<Rightarrow> 'a list \<Rightarrow> exn + unit" where
  "first_failure f [] = Inr ()"
| "first_failure f (x # xs) = bind_result (f x) (\<lambda>_. first_failure f xs)"

definition artifact_paths :: "pyval list \<Rightarrow> string list" where
  "artifact_paths as = concat (map (\<lambda>a. case a of PDict r \<Rightarrow> (case row_get r ''path'' of PStr s \<Rightarrow> [s] | _ \<Rightarrow> []) | _ \<Rightarrow> []) as)"

definition validate_manifest :: "string \<Rightarrow> row \<Rightarrow> exn + unit" where
  "validate_manifest date m =
     (if row_get m ''manifest_version'' \<noteq> PInt 1 \<or> row_get m ''date'' \<noteq> PStr date
      then Inl (value_error ''daily manifest version/date is invalid'')
      else case (row_get m ''feeds'', row_get m ''artifacts'', row_get m ''static_gtfs'', row_get m ''static_gtfs_timeline'') of
          (PDict feeds, PList as, PDict static, PList (segment # segments)) \<Rightarrow>
            bind_result (first_failure (validate_feed date feeds (artifact_paths as)) FEED_NAMES) (\<lambda>_.
            bind_result (refuse (\<not> static_listed (artifact_paths as) (PDict static))
              ''daily manifest lacks its applicable static GTFS archive'') (\<lambda>_.
            refuse (\<not> list_all (static_listed (artifact_paths as)) (segment # segments))
              ''daily manifest lacks an archive from its static GTFS timeline''))
        | _ \<Rightarrow> Inl (value_error ''daily manifest is missing feed, artifact, or static GTFS evidence''))"

subsection \<open>Verifying the remote copy\<close>

text \<open>\<^verbatim>\<open>_remote_path\<close>, \<^verbatim>\<open>_remote_size\<close>, \<^verbatim>\<open>_remote_lfs_sha\<close>\<close>

definition remote_path :: "row \<Rightarrow> pyval" where
  "remote_path info = (if truthy (row_get info ''path'') then row_get info ''path'' else row_get info ''rfilename'')"

definition remote_size :: "row \<Rightarrow> pyval" where
  "remote_size info = row_get info ''size''"

definition remote_lfs_sha :: "row \<Rightarrow> pyval" where
  "remote_lfs_sha info = (case row_get info ''lfs'' of PDict r \<Rightarrow> row_get r ''sha256'' | _ \<Rightarrow> PNone)"

definition revision_text :: "pyval \<Rightarrow> string option" where
  "revision_text v = (case v of PStr s \<Rightarrow> if hex_text 40 s then Some s else None | _ \<Rightarrow> None)"

definition remote_revision :: "'h hub \<Rightarrow> ('h, string) call" where
  "remote_revision hub =
     and_then (hub_head hub) (\<lambda>v. lift (case revision_text v of
        Some s \<Rightarrow> Inr s | None \<Rightarrow> Inl (value_error ''HF did not return an immutable commit revision'')))"

definition download_sha256 :: "tools \<Rightarrow> 'h hub \<Rightarrow> string \<Rightarrow> string \<Rightarrow> ('h, string) call" where
  "download_sha256 tk hub revision p h =
     (case hub_download hub revision p h of
        (Inr bs, h') \<Rightarrow> (Inr (tl_sha tk bs), h')
      | (Inl e, h') \<Rightarrow> (Inl \<lparr>ex_class = ''OSError'', ex_text = ''remote download failed: '' @ ex_class e\<rparr>, h'))"

text \<open>\<^verbatim>\<open>paths[start : start + n] for start in range(0, len(paths), n)\<close>, for positive \<open>n\<close>\<close>

fun chunks :: "nat \<Rightarrow> 'a list \<Rightarrow> 'a list list" where
  "chunks n [] = []"
| "chunks n (x # xs) = (x # take (n - 1) xs) # chunks n (drop (n - 1) xs)"

fun all_infos :: "'h hub \<Rightarrow> string option \<Rightarrow> string list list \<Rightarrow> ('h, row list) call" where
  "all_infos hub revision [] = lift (Inr [])"
| "all_infos hub revision (ps # pss) =
     and_then (hub_infos hub revision ps) (\<lambda>is. and_then (all_infos hub revision pss) (\<lambda>js. lift (Inr (is @ js))))"

definition latest_info :: "row list \<Rightarrow> string \<Rightarrow> row option" where
  "latest_info is p = find (\<lambda>i. remote_path i = PStr p \<and> p \<noteq> []) (rev is)"

definition verify_artifact :: "tools \<Rightarrow> 'h hub \<Rightarrow> string \<Rightarrow> row list \<Rightarrow> string \<times> row \<Rightarrow> ('h, unit) call" where
  "verify_artifact tk hub revision is pa =
     (case latest_info is (fst pa) of
        None \<Rightarrow> lift (Inl (other_error ''OSError''))
      | Some info \<Rightarrow>
          and_then (lift (item (snd pa) ''size'')) (\<lambda>n.
            if remote_size info \<noteq> n then lift (Inl (other_error ''OSError''))
            else and_then (if truthy (remote_lfs_sha info) then lift (Inr (remote_lfs_sha info))
                           else and_then (download_sha256 tk hub revision (fst pa)) (\<lambda>d. lift (Inr (PStr d)))) (\<lambda>digest.
              and_then (lift (item (snd pa) ''sha256'')) (\<lambda>d.
                if digest \<noteq> d then lift (Inl (other_error ''OSError'')) else lift (Inr ())))))"

fun each_call :: "('a \<Rightarrow> ('h, unit) call) \<Rightarrow> 'a list \<Rightarrow> ('h, unit) call" where
  "each_call f [] = lift (Inr ())"
| "each_call f (x # xs) = and_then (f x) (\<lambda>_. each_call f xs)"

definition verify_remote :: "tools \<Rightarrow> 'h hub \<Rightarrow> row list \<Rightarrow> string option \<Rightarrow> ('h, unit) call" where
  "verify_remote tk hub as revision =
     and_then (case revision of Some r \<Rightarrow> lift (Inr r) | None \<Rightarrow> remote_revision hub) (\<lambda>r.
     and_then (lift (by_path as)) (\<lambda>expected.
     and_then (all_infos hub (Some r) (chunks 100 (map fst expected))) (\<lambda>is.
     each_call (verify_artifact tk hub r is) expected)))"

text \<open>Paths whose content the remote already has, by its LFS digest\<close>

definition lfs_match :: "(string \<times> row) list \<Rightarrow> row \<Rightarrow> exn + string list" where
  "lfs_match expected info =
     (case remote_path info of
        PStr p \<Rightarrow>
          (case map_of expected p of
             None \<Rightarrow> Inr []
           | Some a \<Rightarrow>
               bind_result (item a ''size'') (\<lambda>n. if remote_size info \<noteq> n then Inr []
                 else map_sum id (\<lambda>d. if remote_lfs_sha info = d then [p] else []) (item a ''sha256'')))
      | _ \<Rightarrow> Inr [])"

definition remote_lfs_matches :: "'h hub \<Rightarrow> row list \<Rightarrow> ('h, string list) call" where
  "remote_lfs_matches hub as =
     and_then (lift (map_result (\<lambda>a. text_item a ''path'') as)) (\<lambda>paths.
     and_then (lift (by_path as)) (\<lambda>expected.
     and_then (all_infos hub None (chunks 100 paths)) (\<lambda>is.
     lift (map_sum id concat (map_result (lfs_match expected) is)))))"

subsection \<open>Backing up a date\<close>

definition upload_artifact :: "'h hub \<Rightarrow> tree \<Rightarrow> string list \<Rightarrow> row \<Rightarrow> ('h, unit) call" where
  "upload_artifact hub t matched a =
     and_then (lift (text_item a ''path'')) (\<lambda>p.
       if p \<in> set matched then lift (Inr ())
       else case regular_at t (split_path p) of
           None \<Rightarrow> lift (Inl (other_error ''FileNotFoundError''))
         | Some f \<Rightarrow> hub_upload hub p (fo_bytes f))"

definition receipt_row :: "tools \<Rightarrow> backup_config \<Rightarrow> string \<Rightarrow> seconds \<Rightarrow> string \<Rightarrow> pyval \<Rightarrow> row list \<Rightarrow> row" where
  "receipt_row tk cfg date now revision manifest_sha as =
     [(''version'', PInt 2), (''date'', PStr date), (''confirmed_at'', PStr (tl_utc_iso tk now)),
      (''repo_id'', PStr (bk_repo_id cfg)), (''remote_verified'', PBool True),
      (''verification'', PStr ''size and SHA-256 for every artifact at remote_revision (LFS hash or streamed download)''),
      (''remote_revision'', PStr revision), (''manifest_sha256'', manifest_sha), (''artifacts'', PList (map PDict as))]"

definition pending_receipt :: "string \<Rightarrow> path" where
  "pending_receipt date = receipts_dir @ [''.date='' @ date @ ''.pending.json'']"

definition backup_history_path :: path where
  "backup_history_path = [''backup_history.jsonl'']"

definition backup_status_path :: path where
  "backup_status_path = [''backup_status.json'']"

text \<open>\<^verbatim>\<open>os.replace\<close> of a regular file\<close>

definition rename_file :: "path \<Rightarrow> path \<Rightarrow> tree \<Rightarrow> tree" where
  "rename_file p q t = (case map_of t p of None \<Rightarrow> t | Some x \<Rightarrow> AList.update q x (AList.delete p t))"

record backup_io =
  bo_stamp :: stamp
  bo_now :: seconds
  bo_later :: "tree \<Rightarrow> tree"

text \<open>
  Everything from the manifest to the verification of its artifacts. \<open>bo_later\<close> is what other processes do to the
  data directory during the transfer.
\<close>

definition verified_upload ::
  "tools \<Rightarrow> 'h hub \<Rightarrow> backup_io \<Rightarrow> string \<Rightarrow> row \<Rightarrow> tree \<Rightarrow> ('h, row list \<times> string) call" where
  "verified_upload tk hub io date manifest t =
     and_then (lift (validate_manifest date manifest)) (\<lambda>_.
     and_then (lift (local_artifacts tk t date manifest)) (\<lambda>as.
     and_then (lift (validate_local tk t True as)) (\<lambda>_.
     and_then (hub_create hub) (\<lambda>_.
     and_then (remote_lfs_matches hub as) (\<lambda>matched.
     and_then (each_call (upload_artifact hub t matched) as) (\<lambda>_.
     and_then (remote_revision hub) (\<lambda>revision.
     and_then (verify_remote tk hub as (Some revision)) (\<lambda>_.
     and_then (lift (validate_local tk (bo_later io t) True as)) (\<lambda>_.
     lift (Inr (as, revision)))))))))))"

definition manifest_digest :: "row list \<Rightarrow> exn + pyval" where
  "manifest_digest as =
     (case find (\<lambda>a. row_get a ''kind'' = PStr ''daily_manifest'') as of
        None \<Rightarrow> Inl (other_error ''StopIteration'') | Some a \<Rightarrow> item a ''sha256'')"

definition publish_receipt :: "tools \<Rightarrow> 'h hub \<Rightarrow> string \<Rightarrow> bytes \<Rightarrow> ('h, unit) call" where
  "publish_receipt tk hub date bs =
     and_then (hub_upload hub (join_path (receipt_path date)) bs) (\<lambda>_.
     verify_remote tk hub [[(''path'', PStr (join_path (receipt_path date))), (''kind'', PStr ''backup_receipt''),
       (''size'', PInt (int (length bs))), (''sha256'', PStr (tl_sha tk bs))]] None)"

subsection \<open>Status and reasons\<close>

definition record_status :: "tools \<Rightarrow> backup_io \<Rightarrow> string \<Rightarrow> bool \<Rightarrow> string \<Rightarrow> tree \<Rightarrow> exn + tree" where
  "record_status tk io date success reason t =
     (case read_json tk t backup_status_path (PDict [(''version'', PInt 1), (''dates'', PDict [])]) of
        PDict state \<Rightarrow>
          (case get_or state ''dates'' (PDict []) of
             PDict dates \<Rightarrow>
               (case get_or dates date (PDict []) of
                  PDict previous \<Rightarrow>
                    map_sum id (\<lambda>n. write_json tk (bo_stamp io) backup_status_path
                        (AList.update ''updated_at'' (PStr (tl_utc_iso tk (bo_now io)))
                          (AList.update ''dates'' (PDict (AList.update date (PDict
                            [(''last_attempt_at'', PStr (tl_utc_iso tk (bo_now io))), (''success'', PBool success),
                             (''reason'', PStr (take 2000 reason)), (''attempts'', PInt (n + 1))]) dates)) state)) t)
                      (int_of (get_or previous ''attempts'' (PInt 0)))
                | _ \<Rightarrow> Inl (other_error ''AttributeError''))
           | _ \<Rightarrow> Inl (other_error ''AttributeError''))
      | _ \<Rightarrow> Inl (other_error ''AttributeError''))"

definition url_start :: "string \<Rightarrow> nat" where
  "url_start s = (if starts_with s ''https://'' then 8 else if starts_with s ''http://'' then 7 else 0)"

text \<open>\<^verbatim>\<open>re.sub(r"https?://\S+", "<redacted-url>", s)\<close>\<close>

function redact_urls :: "string \<Rightarrow> string" where
  "redact_urls s =
     (if s = [] then []
      else let n = url_start s; body = takeWhile (\<lambda>c. \<not> py_space c) (drop n s) in
        if n > 0 \<and> body \<noteq> [] then ''<redacted-url>'' @ redact_urls (drop (n + length body) s)
        else hd s # redact_urls (drop 1 s))"
  by pat_completeness auto
termination
  by (relation "measure length") auto

declare redact_urls.simps [simp del]

definition failure_reason :: "backup_config \<Rightarrow> exn \<Rightarrow> string" where
  "failure_reason cfg e =
     (let s = redact_urls (ex_class e @ '': '' @ ex_text e) in
      if bk_token cfg = [] then s else replace_all (bk_token cfg) ''<redacted>'' s)"

record backup_result =
  br_date :: string
  br_success :: bool
  br_reason :: string

subsection \<open>The whole operation\<close>

text \<open>
  The body of the \<^verbatim>\<open>try\<close> as the trees it goes through, latest last, with the exception that ended it or the result. The
  manifest is the one given or is built.
\<close>

definition incomplete_reason :: "row \<Rightarrow> exn + string" where
  "incomplete_reason m =
     bind_result (item m ''completeness_errors'') (\<lambda>v.
       case v of PList vs \<Rightarrow> map_sum id (\<lambda>xs. ''local date is incomplete: '' @ concat (case xs of [] \<Rightarrow> [] | x # ys \<Rightarrow> x # map (\<lambda>y. ''; '' @ y) ys))
           (texts_of vs)
       | _ \<Rightarrow> Inl (other_error ''TypeError''))"

type_synonym attempt_end = "exn + bool \<times> string"

definition store_receipt ::
  "tools \<Rightarrow> backup_config \<Rightarrow> 'h hub \<Rightarrow> backup_io \<Rightarrow> string \<Rightarrow> row list \<times> string \<Rightarrow> tree \<Rightarrow> 'h \<Rightarrow> attempt_end \<times> tree list \<times> 'h" where
  "store_receipt tk cfg hub io date verified t h =
     (case manifest_digest (fst verified) of
        Inl e \<Rightarrow> (Inl e, [t], h)
      | Inr d \<Rightarrow>
          let receipt = receipt_row tk cfg date (bo_now io) (snd verified) d (fst verified);
              t1 = write_json tk (bo_stamp io) (pending_receipt date) receipt t in
          (case publish_receipt tk hub date (tl_dump tk (PDict receipt)) h of
             (Inl e, h') \<Rightarrow> (Inl e, [t, t1], h')
           | (Inr _, h') \<Rightarrow>
               let t2 = rename_file (pending_receipt date) (receipt_path date) t1;
                   t3 = append_line tk (bo_stamp io) backup_history_path
                     [(''date'', PStr date), (''confirmed_at'', PStr (tl_utc_iso tk (bo_now io))), (''version'', PInt 2)] t2 in
               (case record_status tk io date True ''remote artifacts verified'' t3 of
                  Inl e \<Rightarrow> (Inl e, [t, t1, t2, t3], h')
                | Inr t4 \<Rightarrow> (Inr (True, ''remote artifacts verified''), [t, t1, t2, t3, t4], h'))))"

definition with_manifest ::
  "tools \<Rightarrow> backup_config \<Rightarrow> 'h hub \<Rightarrow> backup_io \<Rightarrow> string \<Rightarrow> row \<Rightarrow> tree \<Rightarrow> 'h \<Rightarrow> attempt_end \<times> tree list \<times> 'h" where
  "with_manifest tk cfg hub io date m t h =
     (case item m ''complete'' of
        Inl e \<Rightarrow> (Inl e, [t], h)
      | Inr flag \<Rightarrow>
          if \<not> truthy flag
          then (case bind_result (incomplete_reason m) (\<lambda>reason. map_sum id (Pair reason) (record_status tk io date False reason t)) of
              Inl e \<Rightarrow> (Inl e, [t], h)
            | Inr (reason, t1) \<Rightarrow> (Inr (False, reason), [t, t1], h))
          else (case verified_upload tk hub io date m t h of
              (Inl e, h') \<Rightarrow> (Inl e, [t, bo_later io t], h')
            | (Inr verified, h') \<Rightarrow>
                (case store_receipt tk cfg hub io date verified (bo_later io t) h' of (r, ts, h'') \<Rightarrow> (r, t # ts, h''))))"

definition try_backup ::
  "manifest_env \<Rightarrow> tools \<Rightarrow> backup_config \<Rightarrow> 'h hub \<Rightarrow> backup_io \<Rightarrow> string \<Rightarrow> row option \<Rightarrow> tree \<Rightarrow> 'h \<Rightarrow> attempt_end \<times> tree list \<times> 'h" where
  "try_backup env tk cfg hub io date manifest t h =
     (if date \<in> set (confirmed_dates tk cfg t) then (Inr (True, ''immutable receipt already exists''), [t], h)
      else case manifest of
          Some m \<Rightarrow> with_manifest tk cfg hub io date m t h
        | None \<Rightarrow>
            (case build_daily_manifest env tk date True t of
               (Inl e, t') \<Rightarrow> (Inl e, [t, t'], h)
             | (Inr m, t') \<Rightarrow> (case with_manifest tk cfg hub io date m t' h of (r, ts, h') \<Rightarrow> (r, t # ts, h'))))"

definition backup_date ::
  "manifest_env \<Rightarrow> tools \<Rightarrow> backup_config \<Rightarrow> 'h hub \<Rightarrow> backup_io \<Rightarrow> string \<Rightarrow> row option \<Rightarrow> tree \<Rightarrow> 'h \<Rightarrow>
     (exn + backup_result) \<times> tree list \<times> 'h" where
  "backup_date env tk cfg hub io date manifest t h =
     (case try_backup env tk cfg hub io date manifest t h of
        (Inr (success, reason), ts, h') \<Rightarrow> (Inr \<lparr>br_date = date, br_success = success, br_reason = reason\<rparr>, ts, h')
      | (Inl e, ts, h') \<Rightarrow>
          let reason = failure_reason cfg e in
          (case record_status tk io date False reason (last ts) of
             Inl e' \<Rightarrow> (Inl e', ts, h')
           | Inr t' \<Rightarrow> (Inr \<lparr>br_date = date, br_success = False, br_reason = reason\<rparr>, ts @ [t'], h')))"

subsection \<open>The backlog\<close>

text \<open>A stored manifest is used again when each of its artifacts still has its size and modification time.\<close>

definition artifact_current :: "tree \<Rightarrow> pyval \<Rightarrow> exn + bool" where
  "artifact_current t v =
     (case v of
        PDict a \<Rightarrow>
          map_sum id (\<lambda>s. case regular_at t (path_parts s) of
              None \<Rightarrow> False
            | Some f \<Rightarrow> hd (s @ [CHR '' '']) \<noteq> CHR ''/'' \<and> row_get a ''size'' = PInt (int (length (fo_bytes f))) \<and>
                row_get a ''mtime_ns'' = PInt (fo_mtime f)) (text_item a ''path'')
      | _ \<Rightarrow> Inl (other_error ''TypeError''))"

fun all_current :: "tree \<Rightarrow> pyval list \<Rightarrow> exn + bool" where
  "all_current t [] = Inr True"
| "all_current t (v # vs) = bind_result (artifact_current t v) (\<lambda>ok. if ok then all_current t vs else Inr False)"

definition load_or_build_manifest :: "manifest_env \<Rightarrow> tools \<Rightarrow> string \<Rightarrow> tree \<Rightarrow> (exn + row) \<times> tree" where
  "load_or_build_manifest env tk date t =
     (case read_json tk t (manifest_path date) (PDict []) of
        PDict m \<Rightarrow>
          if truthy (row_get m ''complete'') \<and> truthy (row_get m ''artifacts'') \<and> truthy (row_get m ''static_gtfs_timeline'')
          then (case row_get m ''artifacts'' of
              PList vs \<Rightarrow>
                (case all_current t vs of
                   Inl e \<Rightarrow> (Inl e, t)
                 | Inr True \<Rightarrow> (Inr m, t)
                 | Inr False \<Rightarrow> build_daily_manifest env tk date True t)
            | _ \<Rightarrow> (Inl (other_error ''TypeError''), t))
          else build_daily_manifest env tk date True t
      | _ \<Rightarrow> (Inl (other_error ''AttributeError''), t))"

text \<open>
  The loop over the pending dates: a manifest that cannot be built or is incomplete is passed over, a failed backup ends
  the loop. The outcome of each backup comes with the calls' state.
\<close>

type_synonym 'h backlog = "(exn + backup_result list) \<times> tree \<times> 'h"

definition add_result :: "backup_result \<Rightarrow> 'h backlog \<Rightarrow> 'h backlog" where
  "add_result r b = (case b of (rs, x) \<Rightarrow> (map_sum id (\<lambda>xs. r # xs) rs, x))"

fun backlog_loop ::
  "manifest_env \<Rightarrow> tools \<Rightarrow> backup_config \<Rightarrow> 'h hub \<Rightarrow> backup_io \<Rightarrow> int \<Rightarrow> string list \<Rightarrow> int \<Rightarrow> tree \<Rightarrow> 'h \<Rightarrow> 'h backlog" where
  "backlog_loop env tk cfg hub io limit [] attempts t h = (Inr [], t, h)"
| "backlog_loop env tk cfg hub io limit (d # ds) attempts t h =
     (case load_or_build_manifest env tk d t of
        (Inl e, t1) \<Rightarrow>
          add_result \<lparr>br_date = d, br_success = False, br_reason = ''manifest failed: '' @ ex_text e\<rparr>
            (backlog_loop env tk cfg hub io limit ds attempts t1 h)
      | (Inr m, t1) \<Rightarrow>
          (case item m ''complete'' of
             Inl e \<Rightarrow> (Inl e, t1, h)
           | Inr flag \<Rightarrow>
               if \<not> truthy flag
               then (case bind_result (incomplete_reason m) (\<lambda>reason. map_sum id (Pair reason) (record_status tk io d False reason t1)) of
                   Inl e \<Rightarrow> (Inl e, t1, h)
                 | Inr (reason, t2) \<Rightarrow>
                     add_result \<lparr>br_date = d, br_success = False, br_reason = reason\<rparr>
                       (backlog_loop env tk cfg hub io limit ds attempts t2 h))
               else if attempts \<ge> limit then (Inr [], t1, h)
               else (case backup_date env tk cfg hub io d (Some m) t1 h of
                   (Inl e, ts, h') \<Rightarrow> (Inl e, last ts, h')
                 | (Inr r, ts, h') \<Rightarrow>
                     if br_success r then add_result r (backlog_loop env tk cfg hub io limit ds (attempts + 1) (last ts) h')
                     else (Inr [r], last ts, h'))))"

definition run_backlog ::
  "manifest_env \<Rightarrow> tools \<Rightarrow> backup_config \<Rightarrow> 'h hub \<Rightarrow> backup_io \<Rightarrow> string \<Rightarrow> int \<Rightarrow> tree \<Rightarrow> 'h \<Rightarrow> 'h backlog" where
  "run_backlog env tk cfg hub io today limit t h =
     (case pending_dates tk cfg today t of
        Inl e \<Rightarrow> (Inl e, t, h) | Inr ds \<Rightarrow> backlog_loop env tk cfg hub io limit ds 0 t h)"

subsection \<open>Lemmas\<close>

lemma map_sum_Inr: "map_sum id f r = Inr y \<longleftrightarrow> (\<exists>x. r = Inr x \<and> y = f x)"
  by (cases r) auto

lemma and_then_Inr: "and_then m f h = (Inr y, h2) \<longleftrightarrow> (\<exists>x h1. m h = (Inr x, h1) \<and> f x h1 = (Inr y, h2))"
  by (auto simp: and_then_def split: prod.splits sum.splits)

lemma lift_Inr: "lift r h = (Inr x, h1) \<longleftrightarrow> r = Inr x \<and> h1 = h"
  by (auto simp: lift_def)

lemma refuse_Inr: "refuse bad reason = Inr u \<longleftrightarrow> \<not> bad"
  by (simp add: refuse_def)

lemma first_failure_Inr: "first_failure f xs = Inr u \<longleftrightarrow> (\<forall>x \<in> set xs. f x = Inr ())"
  by (induction xs) (auto simp: bind_result_iff)

lemma each_call_Inr: "each_call f xs h = (Inr u, h1) \<Longrightarrow> x \<in> set xs \<Longrightarrow> \<exists>h2 h3. f x h2 = (Inr (), h3)"
  by (induction xs arbitrary: h) (auto simp: and_then_Inr)

lemma validate_local_Inr: "validate_local tk t v as = Inr u \<longleftrightarrow> (\<forall>a \<in> set as. validate_artifact tk t v a = Inr ())"
  by (induction as) (auto simp: bind_result_iff)

lemma item_Inr: "item r k = Inr v \<Longrightarrow> row_get r k = v"
  by (auto simp: item_def row_get_def split: option.splits)

lemma text_item_Inr: "text_item r k = Inr s \<Longrightarrow> row_get r k = PStr s"
proof -
  assume "text_item r k = Inr s"
  then obtain v where "item r k = Inr v" "(case v of PStr s \<Rightarrow> Inr s | _ \<Rightarrow> Inl (other_error ''TypeError'')) = Inr s"
    by (auto simp only: text_item_def bind_result_iff)
  with item_Inr [of r k v] show ?thesis by (cases v) auto
qed

lemma safe_path_Inr: "safe_path t s = Inr p \<Longrightarrow> p = split_path s \<and> safe_parts s"
  by (auto simp: safe_path_def split: if_splits)

lemma map_result_Inr: "map_result f xs = Inr ys \<longleftrightarrow> list_all2 (\<lambda>x y. f x = Inr y) xs ys"
  by (induction xs arbitrary: ys) (auto simp: bind_result_iff map_sum_Inr list_all2_Cons1)

text \<open>An artifact is what a file of the tree holds.\<close>

definition matches_local :: "tools \<Rightarrow> tree \<Rightarrow> row \<Rightarrow> bool" where
  "matches_local tk t a \<longleftrightarrow> (\<exists>s f. row_get a ''path'' = PStr s \<and> safe_parts s \<and> regular_at t (split_path s) = Some f \<and>
     row_get a ''size'' = PInt (int (length (fo_bytes f))) \<and> row_get a ''sha256'' = PStr (tl_sha tk (fo_bytes f)))"

lemma validate_artifact_matches:
  assumes "validate_artifact tk t True a = Inr ()"
  shows "matches_local tk t a"
proof -
  from assms obtain s where s: "text_item a ''path'' = Inr s" by (auto simp: validate_artifact_def bind_result_iff)
  with assms obtain p where p: "safe_path t s = Inr p" by (auto simp: validate_artifact_def bind_result_iff split: if_splits)
  with s assms obtain f where f: "regular_at t p = Some f"
    by (auto simp: validate_artifact_def bind_result_iff split: if_splits option.splits)
  from safe_path_Inr [OF p] f text_item_Inr [OF s] s p assms show ?thesis
    by (auto simp: validate_artifact_def matches_local_def bind_result_iff dest!: item_Inr split: if_splits)
qed

text \<open>What the repository stores at a revision, and what its answers promise about it.\<close>

type_synonym remote_store = "string \<Rightarrow> string \<Rightarrow> bytes option"

definition hub_truthful :: "tools \<Rightarrow> 'h hub \<Rightarrow> remote_store \<Rightarrow> bool" where
  "hub_truthful tk hub store \<longleftrightarrow>
     (\<forall>rv ps h is h' i p. hub_infos hub (Some rv) ps h = (Inr is, h') \<longrightarrow> i \<in> set is \<longrightarrow> remote_path i = PStr p \<longrightarrow>
        (\<exists>bs. store rv p = Some bs \<and> remote_size i = PInt (int (length bs)) \<and>
           (truthy (remote_lfs_sha i) \<longrightarrow> remote_lfs_sha i = PStr (tl_sha tk bs)))) \<and>
     (\<forall>rv p h bs h'. hub_download hub rv p h = (Inr bs, h') \<longrightarrow> store rv p = Some bs)"

definition matches_remote :: "tools \<Rightarrow> remote_store \<Rightarrow> string \<Rightarrow> row \<Rightarrow> bool" where
  "matches_remote tk store rv a \<longleftrightarrow> (\<exists>s bs. row_get a ''path'' = PStr s \<and> store rv s = Some bs \<and>
     row_get a ''size'' = PInt (int (length bs)) \<and> row_get a ''sha256'' = PStr (tl_sha tk bs))"

lemma all_infos_from:
  "all_infos hub rv pss h = (Inr infos, h') \<Longrightarrow> i \<in> set infos \<Longrightarrow> \<exists>ps h1 js h2. hub_infos hub rv ps h1 = (Inr js, h2) \<and> i \<in> set js"
proof (induction pss arbitrary: h infos)
  case Nil
  then show ?case by (auto simp: lift_def)
next
  case (Cons ps pss)
  from Cons.prems(1) obtain js h1 ks where
    "hub_infos hub rv ps h = (Inr js, h1)" "all_infos hub rv pss h1 = (Inr ks, h')" "infos = js @ ks"
    by (auto simp: and_then_Inr lift_Inr)
  with Cons.IH [of h1 ks] Cons.prems(2) show ?case by (cases "i \<in> set js") auto
qed

lemma latest_info_Some: "latest_info infos p = Some i \<Longrightarrow> i \<in> set infos \<and> remote_path i = PStr p"
proof -
  assume "latest_info infos p = Some i"
  then have "i \<in> set (rev infos) \<and> remote_path i = PStr p" unfolding latest_info_def find_Some_iff by (metis nth_mem)
  then show ?thesis by simp
qed

lemma download_truthful:
  assumes "hub_truthful tk hub store" and "download_sha256 tk hub rv p h = (Inr d, h')"
  shows "\<exists>bs. store rv p = Some bs \<and> d = tl_sha tk bs"
proof -
  obtain r h1 where "hub_download hub rv p h = (r, h1)" by (metis surj_pair)
  with assms(2) obtain bs where "hub_download hub rv p h = (Inr bs, h1)" "d = tl_sha tk bs"
    by (cases r) (auto simp: download_sha256_def)
  with assms(1) show ?thesis unfolding hub_truthful_def by blast
qed

lemma verify_artifact_matches:
  assumes "hub_truthful tk hub store" and "\<And>i. i \<in> set infos \<Longrightarrow> \<exists>ps h1 js h2. hub_infos hub (Some rv) ps h1 = (Inr js, h2) \<and> i \<in> set js"
    and "row_get a ''path'' = PStr p" and "verify_artifact tk hub rv infos (p, a) h = (Inr (), h')"
  shows "matches_remote tk store rv a"
proof -
  from assms(4) obtain info where info: "latest_info infos p = Some info"
    by (cases "latest_info infos p") (auto simp: verify_artifact_def lift_Inr)
  note found = latest_info_Some [OF info]
  from assms(2) found obtain ps h1 js h2 where "hub_infos hub (Some rv) ps h1 = (Inr js, h2)" "info \<in> set js" by blast
  with assms(1) found obtain bs where bs: "store rv p = Some bs" "remote_size info = PInt (int (length bs))"
      "truthy (remote_lfs_sha info) \<Longrightarrow> remote_lfs_sha info = PStr (tl_sha tk bs)"
    unfolding hub_truthful_def by blast
  from assms(4) info obtain n where n: "item a ''size'' = Inr n" "remote_size info = n"
    by (auto simp: verify_artifact_def and_then_Inr lift_Inr split: if_splits)
  have "item a ''sha256'' = Inr (PStr (tl_sha tk bs))"
  proof (cases "truthy (remote_lfs_sha info)")
    case True
    with assms(4) info n bs(3) show ?thesis by (auto simp: verify_artifact_def and_then_Inr lift_Inr split: if_splits)
  next
    case False
    with assms(4) info n obtain d h3 h4 where "download_sha256 tk hub rv p h3 = (Inr d, h4)" "item a ''sha256'' = Inr (PStr d)"
      by (auto simp: verify_artifact_def and_then_Inr lift_Inr split: if_splits)
    with download_truthful [OF assms(1)] bs(1) show ?thesis by fastforce
  qed
  with n bs assms(3) show ?thesis by (auto simp: matches_remote_def dest!: item_Inr)
qed

text \<open>A dictionary by path\<close>

lemma foldl_update_fresh:
  "distinct (map fst (d @ ps)) \<Longrightarrow> foldl (\<lambda>d (p, a). AList.update p a d) d ps = d @ ps"
  by (induction ps arbitrary: d) (auto simp: update_fresh)

lemma foldl_update_keys:
  "distinct (map fst d) \<Longrightarrow> distinct (map fst (foldl (\<lambda>d (p, a). AList.update p a d) d ps)) \<and>
     set (foldl (\<lambda>d (p, a). AList.update p a d) d ps) \<subseteq> set d \<union> set ps \<and>
     fst ` set (foldl (\<lambda>d (p, a). AList.update p a d) d ps) = fst ` set d \<union> fst ` set ps"
proof (induction ps arbitrary: d)
  case (Cons x ps)
  obtain p a where x: "x = (p, a)" by (cases x)
  have "set (AList.update p a d) \<subseteq> insert x (set d)" by (induction d) (auto simp: x)
  with Cons.IH [of "AList.update p a d"] Cons.prems show ?case by (auto simp: x distinct_update dom_update)
qed simp

lemma by_path_Inr:
  assumes "by_path as = Inr d"
  shows "distinct (map fst d)" and "\<And>p a. (p, a) \<in> set d \<Longrightarrow> a \<in> set as \<and> row_get a ''path'' = PStr p"
    and "\<And>a p. a \<in> set as \<Longrightarrow> row_get a ''path'' = PStr p \<Longrightarrow> p \<in> fst ` set d"
    and "distinct (map (\<lambda>a. row_get a ''path'') as) \<Longrightarrow> map snd d = as"
proof -
  from assms obtain ps where ps: "map_result (\<lambda>a. map_sum id (\<lambda>p. (p, a)) (text_item a ''path'')) as = Inr ps"
      "d = foldl (\<lambda>d (p, a). AList.update p a d) [] ps"
    by (auto simp: by_path_def map_sum_Inr)
  have pairs: "list_all2 (\<lambda>a x. snd x = a \<and> row_get a ''path'' = PStr (fst x)) as ps"
    using ps(1) unfolding map_result_Inr by (rule list_all2_mono) (auto simp: map_sum_Inr dest: text_item_Inr)
  then have as: "as = map snd ps" "map (\<lambda>a. row_get a ''path'') as = map (\<lambda>x. PStr (fst x)) ps"
    by (induction rule: list_all2_induct) auto
  have path: "row_get a ''path'' = PStr p" if "(p, a) \<in> set ps" for p a
    using pairs that by (induction rule: list_all2_induct) auto
  note keys = foldl_update_keys [of "[]" ps]
  show "distinct (map fst d)" using keys by (simp add: ps(2))
  show "a \<in> set as \<and> row_get a ''path'' = PStr p" if "(p, a) \<in> set d" for p a
    using that keys path by (force simp: as ps(2))
  show "p \<in> fst ` set d" if "a \<in> set as" "row_get a ''path'' = PStr p" for a p
  proof -
    from that(1) obtain x where "x \<in> set ps" "a = snd x" by (auto simp: as)
    with path [of "fst x" a] that(2) have "p \<in> fst ` set ps" by force
    with keys show ?thesis by (simp add: ps(2))
  qed
  show "map snd d = as" if "distinct (map (\<lambda>a. row_get a ''path'') as)"
  proof -
    have "distinct (map fst ps)" using that by (simp add: as(2) distinct_map inj_on_def)
    then show ?thesis using foldl_update_fresh [of "[]" ps] by (simp add: ps(2) as(1))
  qed
qed

lemma verify_remote_matches:
  assumes "hub_truthful tk hub store" and "verify_remote tk hub as (Some rv) h = (Inr (), h')"
    and "a \<in> set as" and "distinct (map (\<lambda>a. row_get a ''path'') as)"
  shows "matches_remote tk store rv a"
proof -
  from assms(2) obtain d infos h1 h2 where d: "by_path as = Inr d"
      "all_infos hub (Some rv) (chunks 100 (map fst d)) h1 = (Inr infos, h2)"
      "each_call (verify_artifact tk hub rv infos) d h2 = (Inr (), h')"
    by (auto simp: verify_remote_def and_then_Inr lift_Inr)
  from by_path_Inr(4) [OF d(1) assms(4)] assms(3) obtain p where p: "(p, a) \<in> set d" by fastforce
  from each_call_Inr [OF d(3) p] obtain h3 h4 where "verify_artifact tk hub rv infos (p, a) h3 = (Inr (), h4)" by blast
  with verify_artifact_matches [OF assms(1) all_infos_from [OF d(2)]] by_path_Inr(2) [OF d(1) p] show ?thesis by blast
qed

lemma local_artifacts_paths:
  assumes "local_artifacts tk t date m = Inr as"
  shows "distinct (map (\<lambda>a. row_get a ''path'') as)" and "set (artifact_paths (map PDict as)) \<supseteq> set (case row_get m ''artifacts'' of PList vs \<Rightarrow> artifact_paths vs | _ \<Rightarrow> [])"
proof -
  from assms obtain v rs x d where v: "item m ''artifacts'' = Inr v" "rows_of v = Inr rs" "by_path (rs @ [x]) = Inr d"
      "as = map snd (sort_key fst d)"
    by (auto simp: local_artifacts_def bind_result_iff map_sum_Inr)
  note d = by_path_Inr [OF v(3)]
  have paths: "map (\<lambda>a. row_get a ''path'') as = map (\<lambda>q. PStr (fst q)) (sort_key fst d)"
    using d(2) by (auto simp: v(4))
  have "distinct (map fst (sort_key fst d))" using d(1) by (simp add: distinct_map)
  then show "distinct (map (\<lambda>a. row_get a ''path'') as)" unfolding paths by (simp add: distinct_map inj_on_def)
  have entry: "(case x of PDict r \<Rightarrow> Inr r | _ \<Rightarrow> Inl (other_error ''TypeError'')) = Inr y \<Longrightarrow> x = PDict y" for x y
    by (cases x) auto
  from v(1,2) obtain vs where vs: "row_get m ''artifacts'' = PList vs"
      "list_all2 (\<lambda>x y. (case x of PDict r \<Rightarrow> Inr r | _ \<Rightarrow> Inl (other_error ''TypeError'')) = Inr y) vs rs"
    by (cases v) (auto dest!: item_Inr simp: rows_of_def map_result_Inr)
  have vs2: "list_all2 (\<lambda>x y. x = PDict y) vs rs" using vs(2) by (rule list_all2_mono) (rule entry)
  from vs2 have vs': "vs = map PDict rs" by (induction rule: list_all2_induct) auto
  have "p \<in> set (artifact_paths (map PDict as))" if p: "p \<in> set (artifact_paths vs)" for p
  proof -
    from p obtain a where "a \<in> set rs" "row_get a ''path'' = PStr p"
      by (auto simp: vs' artifact_paths_def split: pyval.splits)
    with d(3) [of a p] obtain b where "(p, b) \<in> set d" by auto
    with d(2) [OF this] have "b \<in> set as" "row_get b ''path'' = PStr p" by (auto simp: v(4) rev_image_eqI)
    then show ?thesis by (force simp: artifact_paths_def)
  qed
  with vs(1) show "set (artifact_paths (map PDict as)) \<supseteq> set (case row_get m ''artifacts'' of PList vs \<Rightarrow> artifact_paths vs | _ \<Rightarrow> [])"
    by auto
qed

text \<open>What a receipt asserts: its artifacts, those of a manifest that validates, are stored remotely and were local files.\<close>

definition evidence ::
  "tools \<Rightarrow> remote_store \<Rightarrow> string \<Rightarrow> row \<Rightarrow> tree \<Rightarrow> string \<Rightarrow> row list \<Rightarrow> bool" where
  "evidence tk store date m t rv as \<longleftrightarrow>
     validate_manifest date m = Inr () \<and> hex_text 40 rv \<and>
     list_all (\<lambda>a. matches_local tk t a \<and> matches_remote tk store rv a) as \<and>
     set (case row_get m ''artifacts'' of PList vs \<Rightarrow> artifact_paths vs | _ \<Rightarrow> []) \<subseteq> set (artifact_paths (map PDict as))"

lemma verified_upload_evidence:
  assumes "hub_truthful tk hub store" and "verified_upload tk hub io date m t h = (Inr (as, rv), h')"
  shows "evidence tk store date m (bo_later io t) rv as"
proof -
  from assms(2) obtain h1 h2 h3 h4 where u: "validate_manifest date m = Inr ()" "local_artifacts tk t date m = Inr as"
      "remote_revision hub h1 = (Inr rv, h2)" "verify_remote tk hub as (Some rv) h3 = (Inr (), h4)"
      "validate_local tk (bo_later io t) True as = Inr ()"
    by (auto simp: verified_upload_def and_then_Inr lift_Inr)
  note paths = local_artifacts_paths [OF u(2)]
  have "hex_text 40 rv" using u(3)
    by (auto simp: remote_revision_def and_then_Inr lift_Inr revision_text_def split: option.splits pyval.splits if_splits)
  moreover have "matches_remote tk store rv a" if "a \<in> set as" for a
    by (rule verify_remote_matches [OF assms(1) u(4) that paths(1)])
  moreover have "matches_local tk (bo_later io t) a" if "a \<in> set as" for a
    using u(5) that unfolding validate_local_Inr by (blast intro: validate_artifact_matches)
  ultimately show ?thesis using u(1) paths(2) by (auto simp: evidence_def list_all_iff)
qed

text \<open>Which files change\<close>

lemma record_status_regular: "record_status tk io date b reason t = Inr t' \<Longrightarrow> q \<noteq> backup_status_path \<Longrightarrow> regular_at t' q = regular_at t q"
  by (auto simp: record_status_def write_json_def map_sum_Inr write_file_regular split: pyval.splits)

lemma rename_file_regular:
  assumes "p \<noteq> q"
  shows "regular_at (rename_file p q t) r = (if map_of t p = None then regular_at t r else if r = q then regular_at t p else if r = p then None else regular_at t r)"
  using assms by (cases "map_of t p") (auto simp: rename_file_def regular_at_def update_conv' delete_conv')

lemma receipt_paths [simp]:
  "receipt_path date \<noteq> backup_status_path" "receipt_path date \<noteq> backup_history_path" "receipt_path date \<noteq> pending_receipt date"
  "receipt_path date \<noteq> manifest_path d" "pending_receipt date \<noteq> receipt_path date"
  by (simp_all add: receipt_path_def backup_status_path_def backup_history_path_def pending_receipt_def receipts_dir_def manifest_path_def)

lemma feed_stats_regular:
  assumes "hd q \<noteq> ''parquet''"
  shows "regular_at (snd (feed_stats env tk feed date day create t)) q = regular_at t q"
proof -
  have "q \<noteq> partition_dir ''parquet'' feed date @ [''part-empty.parquet'']" using assms by (auto simp: partition_dir_def)
  then have "regular_at (snd (ensure_empty_parquet st r feed date t)) q = regular_at t q" for st r
    by (cases r) (simp_all add: ensure_empty_parquet_def Let_def write_file_regular)
  note made = this
  have found: "regular_at (snd (find_parquet env t feed date c)) q = regular_at t q" for c
  proof -
    obtain r t1 where e: "ensure_empty_parquet (me_stamp env) (me_empty env feed) feed date t = (r, t1)" by (metis surj_pair)
    from made [of "me_stamp env" "me_empty env feed"] have "regular_at t1 q = regular_at t q" by (simp add: e)
    then show ?thesis by (cases r) (simp_all add: find_parquet_def e)
  qed
  show ?thesis
  proof (cases "bind_result (summarize tk t (poll_journal_path feed date)) (\<lambda>su. map_sum id (Pair su) (late_evidence tk feed su day))")
    case (Inl e)
    then show ?thesis by (simp add: feed_stats_def)
  next
    case (Inr x)
    obtain su ls where x: "x = (su, ls)" by (cases x)
    let ?c = "create \<and> parse_successes (su_events su) \<noteq> [] \<and> su_emitted su = 0"
    obtain fp t1 where f: "find_parquet env t feed date ?c = (fp, t1)" by (metis surj_pair)
    from found [of ?c] show ?thesis by (simp add: feed_stats_def Inr x f)
  qed
qed

lemma all_feed_stats_regular:
  assumes "hd q \<noteq> ''parquet''"
  shows "regular_at (snd (all_feed_stats env tk date day create feeds t)) q = regular_at t q"
proof (induction feeds arbitrary: t)
  case (Cons feed feeds)
  obtain r t1 where r: "feed_stats env tk feed date day create t = (r, t1)" by (metis surj_pair)
  with feed_stats_regular [OF assms, of env tk feed date day create t] have "regular_at t1 q = regular_at t q" by simp
  with r Cons [of t1] show ?case by (auto split: sum.split prod.split)
qed simp

lemma build_daily_manifest_regular:
  assumes "hd q \<noteq> ''parquet''" and "q \<noteq> manifest_path date"
  shows "regular_at (snd (build_daily_manifest env tk date create t)) q = regular_at t q"
proof -
  have "regular_at (snd (all_feed_stats env tk date day create FEED_NAMES t)) q = regular_at t q" for day
    by (rule all_feed_stats_regular [OF assms(1)])
  note stats = this
  show ?thesis
  proof (cases "tl_day tk date")
    case (Some day)
    obtain r t1 where r: "all_feed_stats env tk date day create FEED_NAMES t = (r, t1)" by (metis surj_pair)
    from stats [of day] have "regular_at t1 q = regular_at t q" by (simp add: r)
    then show ?thesis using assms(2)
      by (cases r) (auto simp: build_daily_manifest_def Some r write_json_def write_file_regular split: sum.split)
  qed (simp add: build_daily_manifest_def)
qed

lemma store_receipt_writes:
  assumes "store_receipt tk cfg hub io date (as, rv) t h = (r, ts, h')" and "u \<in> set ts"
    and "regular_at u (receipt_path date) = Some f" and "regular_at t (receipt_path date) \<noteq> Some f"
  shows "\<exists>d. fo_bytes f = tl_dump tk (PDict (receipt_row tk cfg date (bo_now io) rv d as))"
proof -
  from assms obtain d where d: "manifest_digest as = Inr d" by (cases "manifest_digest as") (auto simp: store_receipt_def)
  let ?bs = "tl_dump tk (PDict (receipt_row tk cfg date (bo_now io) rv d as))"
  let ?t1 = "write_json tk (bo_stamp io) (pending_receipt date) (receipt_row tk cfg date (bo_now io) rv d as) t"
  let ?t2 = "rename_file (pending_receipt date) (receipt_path date) ?t1"
  let ?t3 = "append_line tk (bo_stamp io) backup_history_path
      [(''date'', PStr date), (''confirmed_at'', PStr (tl_utc_iso tk (bo_now io))), (''version'', PInt 2)] ?t2"
  obtain q h1 where q: "publish_receipt tk hub date ?bs h = (q, h1)" by (metis surj_pair)
  have t1: "regular_at ?t1 (receipt_path date) = regular_at t (receipt_path date)"
    by (simp add: write_json_def write_file_regular)
  have t2: "\<exists>f. regular_at ?t2 (receipt_path date) = Some f \<and> fo_bytes f = ?bs"
    by (simp add: rename_file_regular write_json_def)
  have t3: "regular_at ?t3 (receipt_path date) = regular_at ?t2 (receipt_path date)"
    by (simp add: append_line_def write_file_regular)
  have t4: "record_status tk io date b reason ?t3 = Inr t4 \<Longrightarrow> regular_at t4 (receipt_path date) = regular_at ?t3 (receipt_path date)" for b reason t4
    by (rule record_status_regular) simp_all
  have "ts \<in> {[t, ?t1], [t, ?t1, ?t2, ?t3]} \<or> (\<exists>t4. record_status tk io date True ''remote artifacts verified'' ?t3 = Inr t4 \<and> ts = [t, ?t1, ?t2, ?t3, t4])"
    using assms(1) by (cases q) (auto simp: store_receipt_def d q Let_def split: sum.splits)
  with assms(2) have "u \<in> {t, ?t1, ?t2, ?t3} \<or> record_status tk io date True ''remote artifacts verified'' ?t3 = Inr u" by auto
  then have "regular_at u (receipt_path date) = regular_at t (receipt_path date) \<or> regular_at u (receipt_path date) = regular_at ?t2 (receipt_path date)"
    using t1 t3 t4 by auto
  with assms(3,4) t2 show ?thesis by auto
qed

definition receipt_backed :: "tools \<Rightarrow> backup_config \<Rightarrow> backup_io \<Rightarrow> remote_store \<Rightarrow> string \<Rightarrow> tree list \<Rightarrow> fobj \<Rightarrow> bool" where
  "receipt_backed tk cfg io store date ts f \<longleftrightarrow>
     (\<exists>m rv d as. fo_bytes f = tl_dump tk (PDict (receipt_row tk cfg date (bo_now io) rv d as)) \<and>
       (\<exists>u \<in> set ts. evidence tk store date m u rv as))"

lemma store_receipt_first: "store_receipt tk cfg hub io date v t h = (r, ts, h') \<Longrightarrow> t \<in> set ts"
  by (auto simp: store_receipt_def Let_def split: sum.splits prod.splits)

lemma with_manifest_backed:
  assumes "hub_truthful tk hub store" and "\<And>x. regular_at (bo_later io x) (receipt_path date) = regular_at x (receipt_path date)"
    and "with_manifest tk cfg hub io date m t h = (r, ts, h')" and "u \<in> set ts"
    and "regular_at u (receipt_path date) = Some f" and "regular_at t (receipt_path date) \<noteq> Some f"
  shows "receipt_backed tk cfg io store date ts f"
proof -
  have status: "record_status tk io date b reason t = Inr t1 \<Longrightarrow> regular_at t1 (receipt_path date) = regular_at t (receipt_path date)" for b reason t1
    by (rule record_status_regular) simp_all
  from assms(3-6) obtain flag where flag: "item m ''complete'' = Inr flag"
    by (cases "item m ''complete''") (auto simp: with_manifest_def)
  have "truthy flag"
  proof (rule ccontr)
    assume "\<not> truthy flag"
    with assms(3) flag have "ts = [t] \<or> (\<exists>reason t1. ts = [t, t1] \<and> record_status tk io date False reason t = Inr t1)"
      by (auto simp: with_manifest_def bind_result_iff map_sum_Inr split: sum.splits)
    with assms(4-6) status show False by auto
  qed
  obtain q h1 where q: "verified_upload tk hub io date m t h = (q, h1)" by (metis surj_pair)
  show ?thesis
  proof (cases q)
    case (Inl e)
    with assms(2-6) flag \<open>truthy flag\<close> q show ?thesis by (auto simp: with_manifest_def)
  next
    case (Inr v)
    obtain as rv where v: "v = (as, rv)" by (cases v)
    obtain r' ts' h2 where st: "store_receipt tk cfg hub io date (as, rv) (bo_later io t) h1 = (r', ts', h2)" by (metis surj_pair)
    with assms(3) flag \<open>truthy flag\<close> q Inr v have ts: "ts = t # ts'" by (auto simp: with_manifest_def)
    with assms(4-6) have u: "u \<in> set ts'" by auto
    from assms(2,6) have "regular_at (bo_later io t) (receipt_path date) \<noteq> Some f" by simp
    from store_receipt_writes [OF st u assms(5) this]
    have "\<exists>d. fo_bytes f = tl_dump tk (PDict (receipt_row tk cfg date (bo_now io) rv d as))" .
    moreover have "evidence tk store date m (bo_later io t) rv as"
      using verified_upload_evidence [OF assms(1)] q Inr v by blast
    moreover have "bo_later io t \<in> set ts" using store_receipt_first [OF st] ts by simp
    ultimately show ?thesis unfolding receipt_backed_def by blast
  qed
qed

lemma receipt_backed_mono: "receipt_backed tk cfg io store date ts f \<Longrightarrow> set ts \<subseteq> set us \<Longrightarrow> receipt_backed tk cfg io store date us f"
  unfolding receipt_backed_def by blast

lemma try_backup_backed:
  assumes "hub_truthful tk hub store" and "\<And>x. regular_at (bo_later io x) (receipt_path date) = regular_at x (receipt_path date)"
    and "try_backup env tk cfg hub io date manifest t h = (r, ts, h')" and "u \<in> set ts"
    and "regular_at u (receipt_path date) = Some f" and "regular_at t (receipt_path date) \<noteq> Some f"
  shows "receipt_backed tk cfg io store date ts f"
proof (cases "date \<in> set (confirmed_dates tk cfg t)")
  case True
  with assms(3-6) show ?thesis by (auto simp: try_backup_def)
next
  case False
  show ?thesis
  proof (cases manifest)
    case (Some m)
    with False assms(3) have "with_manifest tk cfg hub io date m t h = (r, ts, h')" by (simp add: try_backup_def)
    from with_manifest_backed [OF assms(1,2) this assms(4-6)] show ?thesis .
  next
    case None
    obtain b t1 where b: "build_daily_manifest env tk date True t = (b, t1)" by (metis surj_pair)
    have "hd (receipt_path date) \<noteq> ''parquet''" by (simp add: receipt_path_def receipts_dir_def)
    from build_daily_manifest_regular [OF this, of date env tk True t]
    have same: "regular_at t1 (receipt_path date) = regular_at t (receipt_path date)" by (simp add: b)
    show ?thesis
    proof (cases b)
      case (Inl e)
      with None False assms(3-6) b same show ?thesis by (auto simp: try_backup_def)
    next
      case (Inr m)
      obtain r' ts' h1 where w: "with_manifest tk cfg hub io date m t1 h = (r', ts', h1)" by (metis surj_pair)
      with None False Inr b assms(3) have ts: "ts = t # ts'" by (auto simp: try_backup_def)
      with assms(4-6) have "u \<in> set ts'" by auto
      from with_manifest_backed [OF assms(1,2) w this assms(5)] assms(6) same
      have "receipt_backed tk cfg io store date ts' f" by simp
      then show ?thesis by (rule receipt_backed_mono) (auto simp: ts)
    qed
  qed
qed

subsection \<open>Properties\<close>

text \<open>
  Claim C5. A receipt means a verified backup. If a run of \<^verbatim>\<open>backup_date\<close>, interrupted anywhere, leaves a receipt for
  the date that was not there before, then the receipt lists artifacts and a revision for which, at the time of the last local
  check, the manifest validated, every artifact of the manifest was listed, each listed file was present locally with its size
  and digest, and the repository stores at that immutable revision content of the same size and digest. The repository
  may change between the calls; its answers about a revision are taken to be true, and other processes leave receipts alone.
\<close>

theorem receipt_means_verified:
  assumes "hub_truthful tk hub store" and "\<And>x. regular_at (bo_later io x) (receipt_path date) = regular_at x (receipt_path date)"
    and "backup_date env tk cfg hub io date manifest t h = (r, ts, h')" and "u \<in> set ts"
    and "regular_at u (receipt_path date) = Some f" and "regular_at t (receipt_path date) \<noteq> Some f"
  shows "receipt_backed tk cfg io store date ts f"
proof -
  obtain r' ts' h1 where b: "try_backup env tk cfg hub io date manifest t h = (r', ts', h1)" by (metis surj_pair)
  have status: "record_status tk io date c reason x = Inr y \<Longrightarrow> regular_at y (receipt_path date) = regular_at x (receipt_path date)" for c reason x y
    by (rule record_status_regular) simp_all
  from assms(3) b have ts: "ts = ts' \<or> (\<exists>y reason. ts = ts' @ [y] \<and> record_status tk io date False reason (last ts') = Inr y)"
    by (auto simp: backup_date_def Let_def split: sum.splits)
  have "ts' \<noteq> []" using b
    by (auto simp: try_backup_def with_manifest_def Let_def split: if_splits option.splits sum.splits prod.splits)
  with ts assms(4,5) status obtain v where "v \<in> set ts'" "regular_at v (receipt_path date) = Some f"
    by (metis Un_iff last_in_set set_append set_ConsD list.set(1) empty_iff)
  from try_backup_backed [OF assms(1,2) b this assms(6)] have "receipt_backed tk cfg io store date ts' f" .
  then show ?thesis by (rule receipt_backed_mono) (use ts in auto)
qed

subsection \<open>A backup run\<close>

definition demo_day :: string where
  "demo_day = ''1''"

definition demo_feed_stats :: row where
  "demo_feed_stats =
     [(''successful_http_polls'', PInt 1), (''successful_parse_polls'', PInt 1), (''raw_snapshots'', PInt 1), (''parquet_files'', PInt 1),
      (''pending_spool_segments'', PInt 0), (''raw_log_clean'', PBool True)]"

definition demo_files :: "path list" where
  "demo_files =
     concat (map (\<lambda>f. [raw_log_path f demo_day, poll_journal_path f demo_day, partition_dir ''parquet'' f demo_day @ [''a.parquet'']]) FEED_NAMES) @
     [[''static_gtfs'', ''g.zip'']]"

definition demo_manifest :: row where
  "demo_manifest =
     [(''manifest_version'', PInt 1), (''date'', PStr demo_day), (''complete'', PBool True),
      (''feeds'', PDict (map (\<lambda>f. (feed_name f, PDict demo_feed_stats)) FEED_NAMES)),
      (''static_gtfs'', PDict [(''version_path'', PStr ''g.zip'')]),
      (''static_gtfs_timeline'', PList [PDict [(''version_path'', PStr ''g.zip'')]]),
      (''artifacts'', PList (map (\<lambda>p. PDict [(''path'', PStr (join_path p)), (''size'', PInt 1), (''sha256'', PStr [CHR ''a''])]) demo_files))]"

definition demo_tree :: tree where
  "demo_tree = map (\<lambda>p. (p, Regular \<lparr>fo_bytes = [97], fo_mtime = 0, fo_id = (0, 0)\<rparr>)) (manifest_path demo_day # demo_files)"

definition demo_remote :: remote_store where
  "demo_remote revision p = Some (if p = join_path (receipt_path demo_day) then [] else [97])"

definition demo_revision :: string where
  "demo_revision = replicate 40 CHR ''0''"

definition demo_hub :: "unit hub" where
  "demo_hub =
     \<lparr>hub_infos = (\<lambda>revision ps. lift (Inr (map (\<lambda>p. [(''path'', PStr p), (''size'', PInt (case demo_remote [] p of None \<Rightarrow> 0 | Some bs \<Rightarrow> int (length bs)))]) ps))),
      hub_download = (\<lambda>revision p. lift (Inr (case demo_remote revision p of None \<Rightarrow> [] | Some bs \<Rightarrow> bs))),
      hub_head = lift (Inr (PStr demo_revision)), hub_create = lift (Inr ()), hub_upload = (\<lambda>p bs. lift (Inr ()))\<rparr>"

definition demo_env :: manifest_env where
  "demo_env = \<lparr>me_stamp = (0, 0, 0), me_empty = (\<lambda>_. Inr []), me_text = (\<lambda>_. []), me_today = 2, me_now = 2, me_version = ''2'', me_commit = []\<rparr>"

definition demo_backup_io :: backup_io where
  "demo_backup_io = \<lparr>bo_stamp = (0, 0, 0), bo_now = 2, bo_later = id\<rparr>"

definition demo_backup :: "(exn + backup_result) \<times> tree list \<times> unit" where
  "demo_backup =
     backup_date demo_env plain_tools \<lparr>bk_repo_id = ''r'', bk_token = ''k''\<rparr> demo_hub demo_backup_io demo_day (Some demo_manifest) demo_tree ()"

lemma demo_hub_truthful: "hub_truthful plain_tools demo_hub demo_remote"
  by (auto simp: hub_truthful_def demo_hub_def lift_def demo_remote_def remote_path_def remote_size_def remote_lfs_sha_def row_get_def)

lemma demo_backup_receipt:
  "map_option fo_bytes (regular_at (last (fst (snd demo_backup))) (receipt_path demo_day)) = Some []"
  "regular_at demo_tree (receipt_path demo_day) = None"
  by code_simp+

lemma receipt_means_verified_witness:
  "\<exists>f. regular_at (last (fst (snd demo_backup))) (receipt_path demo_day) = Some f \<and>
     receipt_backed plain_tools \<lparr>bk_repo_id = ''r'', bk_token = ''k''\<rparr> demo_backup_io demo_remote demo_day (fst (snd demo_backup)) f"
proof -
  obtain f where f: "regular_at (last (fst (snd demo_backup))) (receipt_path demo_day) = Some f"
    using demo_backup_receipt(1) by (cases "regular_at (last (fst (snd demo_backup))) (receipt_path demo_day)") auto
  obtain r ts h where run: "demo_backup = (r, ts, h)" by (metis surj_pair)
  have "ts \<noteq> []" using f run demo_backup_receipt(2)
    by (auto simp: demo_backup_def backup_date_def try_backup_def with_manifest_def Let_def split: if_splits option.splits sum.splits prod.splits)
  then have "last (fst (snd demo_backup)) \<in> set (fst (snd demo_backup))" unfolding run by simp
  from receipt_means_verified [OF demo_hub_truthful _ _ this f, of demo_backup_io demo_env
      "\<lparr>bk_repo_id = ''r'', bk_token = ''k''\<rparr>" "Some demo_manifest" demo_tree "()"]
  show ?thesis using f run demo_backup_receipt(2) by (auto simp: demo_backup_def demo_backup_io_def)
qed

end
