(* ===== verification/Manifest_Accepted.thy ===== *)
theory Manifest_Accepted
  imports Backup
begin

section \<open>A complete manifest is accepted for backup\<close>

text \<open>
  \<^verbatim>\<open>build_daily_manifest\<close> decides whether a date is complete; \<^verbatim>\<open>BackupManager._validate_manifest\<close> checks the manifest again
  before anything is uploaded, from its content alone. The two agree on complete manifests when the history of the static
  timetable is consistent.
\<close>

subsection \<open>Presence\<close>

definition counted :: "replay_state \<Rightarrow> bool" where
  "counted st \<longleftrightarrow> rs_count st = int (length (rs_seen st))"

lemma replay_step_counted:
  assumes "counted st"
  shows "counted (snd (replay_step events st r))"
proof -
  define st1 where "st1 = (if pr_kind r = ''baseline''
    then st\<lparr>rs_stream := Some (pr_stream_id r), rs_sequence := 0, rs_baselines := rs_baselines st + 1\<rparr> else st)"
  have 1: "counted st1" using assms by (simp add: counted_def st1_def)
  show ?thesis
  proof (cases "apply_presence_record (rs_members st1) r")
    case (Inl e)
    with 1 assms show ?thesis by (simp add: replay_step_def flip: st1_def)
  next
    case (Inr ms)
    show ?thesis
    proof (cases "apply_source_timestamp_record (rs_stamps st1) r ms")
      case Inl': (Inl e)
      with 1 Inr assms show ?thesis by (simp add: replay_step_def counted_def flip: st1_def)
    next
      case Inr': (Inr ts)
      from 1 Inr Inr' assms show ?thesis
        by (cases "map_of (pr_context r) ''poll_id''") (simp_all add: replay_step_def Let_def counted_def flip: st1_def)
    qed
  qed
qed

lemma replay_payloads_counted: "counted st \<Longrightarrow> counted (snd (replay_payloads dec events st ps))"
proof (induction ps arbitrary: st)
  case (Cons x ps)
  obtain a payload where x: "x = (a, payload)" by (cases x)
  show ?case
  proof (cases "dec payload")
    case (Some r)
    obtain err st1 where step: "replay_step events st r = (err, st1)" by (metis surj_pair)
    with replay_step_counted [OF Cons.prems, of events r] have "counted st1" by simp
    with Cons.IH [OF this] show ?thesis by (cases err) (simp_all add: x Some step)
  qed (simp add: x Cons.prems)
qed simp

lemma replay_log_counted: "counted (snd (replay_log gz dec events f))"
proof -
  have init: "counted replay_init" by (simp add: counted_def replay_init_def)
  show ?thesis
  proof (cases "content f")
    case (Some bs)
    show ?thesis
    proof (cases "scan_raw_log gz True bs")
      case (Inr s)
      obtain rs stop where rs: "iter_records gz bs = (rs, stop)" by (metis surj_pair)
      obtain err st where "replay_payloads dec events replay_init rs = (err, st)" by (metis surj_pair)
      with replay_payloads_counted [OF init, of dec events rs] Some Inr rs init show ?thesis
        by (cases err) (simp_all add: replay_log_def)
    qed (simp add: replay_log_def Some init)
  qed (simp add: replay_log_def init)
qed

lemma presence_complete:
  assumes "presence_stats gz dec es f = (ps, [], quality)" and "journal_confirmed_observations ps \<noteq> 0"
  shows "content f \<noteq> None" and "journal_confirmed_observations ps \<le> ps_records ps"
proof -
  obtain err st where st: "replay_log gz dec es f = (err, st)" by (metis surj_pair)
  let ?ps = "AList.clearjunk (promised es)"
  have "fst (presence_stats gz dec es f) = ps" "fst (snd (presence_stats gz dec es f)) = []" by (simp_all add: assms(1))
  then have ps: "journal_confirmed_observations ps = int (length ?ps)" "ps_records ps = rs_count st"
      and met: "\<forall>p \<in> set ?ps. promise_met st p"
    unfolding presence_stats_def Let_def st prod.case by (auto simp: list_ex_iff split: if_splits)
  have seen: "fst ` set ?ps \<subseteq> fst ` set (rs_seen st)"
  proof (rule image_subsetI)
    fix p assume "p \<in> set ?ps"
    with met have "promise_met st p" by blast
    then have "map_of (rs_seen st) (fst p) \<noteq> None" by (auto simp: promise_met_def split: option.splits)
    then show "fst p \<in> fst ` set (rs_seen st)" by (simp add: map_of_eq_None_iff)
  qed
  have "length ?ps = card (fst ` set ?ps)" using distinct_clearjunk [of "promised es"]
    by (metis distinct_card length_map list.set_map)
  also have "\<dots> \<le> card (fst ` set (rs_seen st))" using seen by (intro card_mono) auto
  also have "\<dots> \<le> length (rs_seen st)" by (metis card_length length_map list.set_map)
  finally have "int (length ?ps) \<le> rs_count st" using replay_log_counted [of gz dec es f] st by (simp add: counted_def)
  then show "journal_confirmed_observations ps \<le> ps_records ps" by (simp add: ps)
  show "content f \<noteq> None"
  proof
    assume "content f = None"
    with st have "rs_seen st = []" by (auto simp: replay_log_def replay_init_def)
    with seen assms(2) ps show False by simp
  qed
qed

subsection \<open>Files stay while a manifest is built\<close>

definition grown :: "tree \<Rightarrow> tree \<Rightarrow> bool" where
  "grown t t' \<longleftrightarrow> (\<forall>p x. map_of t p = Some x \<longrightarrow> map_of t' p = Some x)"

lemma grown_refl [simp]: "grown t t"
  by (simp add: grown_def)

lemma grown_trans: "grown t u \<Longrightarrow> grown u v \<Longrightarrow> grown t v"
  by (simp add: grown_def)

lemma grown_regular: "grown t t' \<Longrightarrow> regular_at t p = Some f \<Longrightarrow> regular_at t' p = Some f"
  by (simp add: grown_def regular_at_Some)

lemma grown_exists: "grown t t' \<Longrightarrow> map_of t p \<noteq> None \<Longrightarrow> map_of t' p \<noteq> None"
  by (auto simp: grown_def)

lemma grown_write: "map_of t p = None \<Longrightarrow> grown t (write_file st p bs t)"
proof -
  assume none: "map_of t p = None"
  show ?thesis unfolding grown_def
  proof (intro allI impI)
    fix q x assume "map_of t q = Some x"
    moreover from this none have "q \<noteq> p" by auto
    ultimately show "map_of (write_file st p bs t) q = Some x"
      using make_parents_old [of t q x p] by (simp add: write_file_def update_conv')
  qed
qed

lemma grown_find_parquet: "grown t (snd (find_parquet env t feed date c))"
  using grown_write [of t "partition_dir ''parquet'' feed date @ [''part-empty.parquet'']" "me_stamp env"]
  by (cases "me_empty env feed") (simp_all add: find_parquet_def ensure_empty_parquet_def Let_def exists_at_def)

lemma find_parquet_listed:
  assumes "find_parquet env t feed date c = ((ps, is), t')" and "ps \<noteq> []"
  shows "\<exists>p. p \<in> set (parquet_files t' feed date)"
proof (cases "parquet_files t feed date = [] \<and> c")
  case False
  with assms have "t' = t" "ps = parquet_files t feed date" unfolding find_parquet_def by (auto split: if_splits)
  with assms(2) have "last ps \<in> set (parquet_files t' feed date)" by simp
  then show ?thesis by blast
next
  case True
  let ?out = "partition_dir ''parquet'' feed date @ [''part-empty.parquet'']"
  obtain r t1 where e: "ensure_empty_parquet (me_stamp env) (me_empty env feed) feed date t = (r, t1)" by (metis surj_pair)
  with True assms obtain q where r: "r = Inr q" "t1 = t'" by (cases r) (auto simp: find_parquet_def)
  with e have "map_of t' ?out \<noteq> None"
    by (auto simp: ensure_empty_parquet_def Let_def exists_at_def split: if_splits sum.splits)
  then have "?out \<in> set (parquet_files t' feed date)"
    by (simp add: parquet_files_def glob_def set_children ends_with_def)
  then show ?thesis by blast
qed

lemma grown_feed_stats: "grown t (snd (feed_stats env tk feed date day create t))"
proof (cases "bind_result (summarize tk t (poll_journal_path feed date)) (\<lambda>su. map_sum id (Pair su) (late_evidence tk feed su day))")
  case (Inr x)
  obtain su ls where x: "x = (su, ls)" by (cases x)
  from grown_find_parquet [of t env feed date "create \<and> parse_successes (su_events su) \<noteq> [] \<and> su_emitted su = 0"] show ?thesis
    by (cases "find_parquet env t feed date (create \<and> parse_successes (su_events su) \<noteq> [] \<and> su_emitted su = 0)")
      (simp add: feed_stats_def Inr x)
qed (simp add: feed_stats_def)

lemma all_feed_stats_split:
  assumes "all_feed_stats env tk date day create feeds t = (Inr rs, t')"
  shows "grown t t' \<and> map fst rs = feeds \<and>
    (\<forall>(feed, r) \<in> set rs. \<exists>u v. feed_stats env tk feed date day create u = (Inr r, v) \<and> grown v t')"
  using assms
proof (induction feeds arbitrary: t rs)
  case (Cons feed feeds)
  obtain q t1 where q: "feed_stats env tk feed date day create t = (q, t1)" by (metis surj_pair)
  with Cons.prems obtain r where r: "q = Inr r" by (cases q) auto
  obtain qs t2 where qs: "all_feed_stats env tk date day create feeds t1 = (qs, t2)" by (metis surj_pair)
  with Cons.prems q r obtain xs where xs: "qs = Inr xs" "rs = (feed, r) # xs" "t2 = t'" by (cases qs) auto
  with Cons.IH [of t1 xs] qs have IH: "grown t1 t'" "map fst xs = feeds"
      "\<forall>(feed, r) \<in> set xs. \<exists>u v. feed_stats env tk feed date day create u = (Inr r, v) \<and> grown v t'" by auto
  from grown_feed_stats [of t env tk feed date day create] q IH(1) have "grown t t'" by (auto intro: grown_trans)
  with IH q r show ?case by (auto simp: xs)
qed simp

subsection \<open>What the artifacts list\<close>

definition listed :: "row list \<Rightarrow> path \<Rightarrow> bool" where
  "listed as p \<longleftrightarrow> join_path p \<in> set (artifact_paths (map PDict as))"

lemma artifact_paths_row: "s \<in> set (artifact_paths (map PDict as)) \<longleftrightarrow> (\<exists>a \<in> set as. row_get a ''path'' = PStr s)"
  by (auto simp: artifact_paths_def split: pyval.splits) force

lemma listed_row: "a \<in> set as \<Longrightarrow> row_get a ''path'' = PStr (join_path p) \<Longrightarrow> listed as p"
  by (auto simp: listed_def artifact_paths_row)

lemma artifact_paths_append [simp]: "artifact_paths (xs @ ys) = artifact_paths xs @ artifact_paths ys"
  by (simp add: artifact_paths_def)

lemma listed_append [simp]: "listed (as @ bs) p \<longleftrightarrow> listed as p \<or> listed bs p"
  by (simp add: listed_def)

lemma listed_concat: "listed (concat xs) p \<longleftrightarrow> (\<exists>as \<in> set xs. listed as p)"
proof (induction xs)
  case Nil
  show ?case by (simp add: listed_def artifact_paths_def)
qed simp

lemma map_result_member: "map_result f xs = Inr ys \<Longrightarrow> x \<in> set xs \<Longrightarrow> \<exists>y \<in> set ys. f x = Inr y"
  by (induction xs arbitrary: ys) (auto simp: bind_result_iff map_sum_Inr)

lemma artifact_row:
  assumes "artifact tk t p kind = Inr a"
  shows "row_get a ''path'' = PStr (join_path p)"
    and "\<exists>f. regular_at t p = Some f \<and> row_get a ''sha256'' = PStr (tl_sha tk (fo_bytes f))"
  using assms by (auto simp: artifact_def row_get_def regular_at_def split: option.splits node.splits)

lemma file_artifacts_listed: "file_artifacts tk t ps kind = Inr as \<Longrightarrow> p \<in> set ps \<Longrightarrow> listed as p"
  unfolding file_artifacts_def by (metis artifact_row(1) listed_row map_result_member)

lemma feed_artifacts_listed:
  assumes "feed_artifacts tk t date feed = Inr as"
  shows "regular_at t (raw_log_path feed date) \<noteq> None \<Longrightarrow> listed as (raw_log_path feed date)"
    and "regular_at t (poll_journal_path feed date) \<noteq> None \<Longrightarrow> listed as (poll_journal_path feed date)"
    and "p \<in> set (parquet_files t feed date) \<Longrightarrow> listed as p"
proof -
  from assms obtain raw parquet journal where fs:
      "file_artifacts tk t (filter (is_file t) (glob t (partition_dir ''raw'' feed date) (\<lambda>_. True))) ''raw'' = Inr raw"
      "file_artifacts tk t (parquet_files t feed date) ''parquet'' = Inr parquet"
      "file_artifacts tk t (filter (is_file t) (glob t (journal_dir feed date) (\<lambda>n. starts_with n ''polls.jsonl''))) ''poll_metadata'' = Inr journal"
      "as = raw @ parquet @ journal"
    by (auto simp: feed_artifacts_def bind_result_iff map_sum_Inr)
  have regular: "regular_at t q \<noteq> None \<Longrightarrow> map_of t q \<noteq> None \<and> is_file t q" for q
    by (auto simp: regular_at_Some is_file_def)
  show "regular_at t (raw_log_path feed date) \<noteq> None \<Longrightarrow> listed as (raw_log_path feed date)"
    using file_artifacts_listed [OF fs(1), of "raw_log_path feed date"] regular [of "raw_log_path feed date"]
    by (simp add: fs(4) glob_def set_children raw_log_path_def)
  show "regular_at t (poll_journal_path feed date) \<noteq> None \<Longrightarrow> listed as (poll_journal_path feed date)"
    using file_artifacts_listed [OF fs(3), of "poll_journal_path feed date"] regular [of "poll_journal_path feed date"]
    by (simp add: fs(4) glob_def set_children poll_journal_path_def starts_with_def)
  show "p \<in> set (parquet_files t feed date) \<Longrightarrow> listed as p"
    using file_artifacts_listed [OF fs(2), of p] by (simp add: fs(4))
qed

subsection \<open>The static archives\<close>

text \<open>
  What a consistent history gives for a version: its path is relative and normal, the archive is there and has the digest of
  the history, and one digest has one path.
\<close>

definition archive_name :: "string \<Rightarrow> string" where
  "archive_name s = ''static_gtfs/'' @ s"

lemma static_listed_row: "static_listed paths (PDict r) \<longleftrightarrow> (\<exists>s. row_get r ''version_path'' = PStr s \<and> archive_name s \<in> set paths)"
  by (cases "row_get r ''version_path''") (simp_all add: static_listed_def archive_name_def)

definition archived_version :: "tools \<Rightarrow> tree \<Rightarrow> row \<Rightarrow> bool" where
  "archived_version tk t e \<longleftrightarrow> (\<exists>s f. row_get e ''version_path'' = PStr s \<and> archive_path e = Inr (gtfs_root @ path_parts s) \<and>
     s \<noteq> [] \<and> join_path (gtfs_root @ path_parts s) = archive_name s \<and> regular_at t (gtfs_root @ path_parts s) = Some f \<and>
     row_get e ''sha256'' = PStr (tl_sha tk (fo_bytes f)) \<and> tl_sha tk (fo_bytes f) \<noteq> [])"

definition consistent_history :: "tools \<Rightarrow> tree \<Rightarrow> row list \<Rightarrow> bool" where
  "consistent_history tk t hist \<longleftrightarrow>
     list_all (\<lambda>x. archived_version tk t (snd x)) (checked_events tk hist) \<and>
     list_all (\<lambda>e. list_all (\<lambda>e'. row_get e ''sha256'' = row_get e' ''sha256'' \<longrightarrow> row_get e ''version_path'' = row_get e' ''version_path'') hist) hist"

definition version_listed :: "row list \<Rightarrow> row \<Rightarrow> bool" where
  "version_listed as e \<longleftrightarrow> static_listed (artifact_paths (map PDict as)) (PDict e)"

lemma version_listed_append [simp]: "version_listed (as @ bs) e \<longleftrightarrow> version_listed as e \<or> version_listed bs e"
  by (auto simp: version_listed_def static_listed_row)

lemma version_listed_Cons: "version_listed as e \<Longrightarrow> version_listed (a # as) e"
  using version_listed_append [of "[a]" as e] by simp

lemma static_artifacts_step:
  assumes "static_artifacts tk t (x # es) seen = Inr (as, [])"
  shows "\<exists>seen' as'. static_artifacts tk t es seen' = Inr (as', []) \<and> (seen' = seen \<or> seen' = row_get x ''sha256'' # seen) \<and>
    (as = as' \<or> (\<exists>a. as = a # as'))"
proof (cases "\<not> truthy (row_get x ''sha256'') \<or> \<not> truthy (row_get x ''version_path'') \<or> row_get x ''sha256'' \<in> set seen")
  case True
  with assms show ?thesis by (auto simp: Let_def split: if_splits)
next
  case False
  then have step: "static_artifacts tk t es seen = Inr (as, []) \<or>
      (\<exists>p a. artifact tk t p ''static_gtfs'' = Inr a \<and>
        map_sum id (\<lambda>(as, is). (a # as, is)) (static_artifacts tk t es (row_get x ''sha256'' # seen)) = Inr (as, []))"
    using assms by (auto simp: Let_def bind_result_iff map_sum_Inr split: if_splits sum.splits)
  then show ?thesis by (auto simp: map_sum_Inr)
qed

lemma static_artifacts_listed:
  assumes "static_artifacts tk t es seen = Inr (as, [])" and "e \<in> set es" and "archived_version tk t e"
    and "row_get e ''sha256'' \<notin> set seen"
    and "\<And>e'. e' \<in> set es \<Longrightarrow> row_get e' ''sha256'' = row_get e ''sha256'' \<Longrightarrow> row_get e' ''version_path'' = row_get e ''version_path''"
  shows "version_listed as e"
  using assms
proof (induction es arbitrary: as seen)
  case (Cons x es)
  from Cons.prems(3) obtain s f where e: "row_get e ''version_path'' = PStr s" "archive_path e = Inr (gtfs_root @ path_parts s)"
      "s \<noteq> []" "join_path (gtfs_root @ path_parts s) = archive_name s" "regular_at t (gtfs_root @ path_parts s) = Some f"
      "row_get e ''sha256'' = PStr (tl_sha tk (fo_bytes f))" "tl_sha tk (fo_bytes f) \<noteq> []"
    unfolding archived_version_def by blast
  have step: "version_listed as e" if "static_artifacts tk t es seen' = Inr (as', [])" "e \<in> set es"
      "row_get e ''sha256'' \<notin> set seen'" "as = as' \<or> (\<exists>a. as = a # as')" for as' seen'
    using Cons.IH [OF that(1,2) Cons.prems(3) that(3)] Cons.prems(5) that(4) by (auto intro: version_listed_Cons)
  show ?case
  proof (cases "row_get x ''sha256'' = row_get e ''sha256''")
    case True
    with Cons.prems(5) [of x] have x: "row_get x ''version_path'' = row_get e ''version_path''" by simp
    with e have path: "archive_path x = Inr (gtfs_root @ path_parts s)" by (simp add: archive_path_def)
    obtain a where a: "artifact tk t (gtfs_root @ path_parts s) ''static_gtfs'' = Inr a"
      using e(5) by (simp add: artifact_def regular_at_Some)
    with artifact_row(2) [OF a] e(5,6) have "row_get a ''sha256'' = row_get e ''sha256''" by simp
    moreover have "exists_at t (gtfs_root @ path_parts s)" using e(5) by (simp add: exists_at_def regular_at_Some)
    ultimately have step: "static_artifacts tk t (x # es) seen =
        map_sum id (\<lambda>(as, is). (a # as, is)) (static_artifacts tk t es (row_get e ''sha256'' # seen))"
      using True x path a e(1,3,6,7) Cons.prems(4) by simp
    from step [symmetric] Cons.prems(1) have
      "map_sum id (\<lambda>(as, is). (a # as, is)) (static_artifacts tk t es (row_get e ''sha256'' # seen)) = Inr (as, [])" by (rule trans)
    then have "a \<in> set as" by (auto simp: map_sum_Inr)
    moreover have "row_get a ''path'' = PStr (archive_name s)" using artifact_row(1) [OF a] e(4) by simp
    ultimately show ?thesis using e(1) by (auto simp: version_listed_def static_listed_row artifact_paths_row)
  next
    case False
    with Cons.prems(2) have "e \<in> set es" by auto
    moreover have "\<exists>seen' as'. static_artifacts tk t es seen' = Inr (as', []) \<and> row_get e ''sha256'' \<notin> set seen' \<and>
        (as = as' \<or> (\<exists>a. as = a # as'))"
      using static_artifacts_step [OF Cons.prems(1)] False Cons.prems(4) by (metis insert_iff list.simps(15))
    ultimately show ?thesis using step by blast
  qed
qed simp

subsection \<open>The timeline\<close>

lemma raw_segments_events: "event_of ` set (raw_segments a b xs) = snd ` set xs"
  by (induction a b xs rule: raw_segments.induct) auto

lemma add_segment_events: "event_of ` set (add_segment acc x) \<subseteq> event_of ` set acc \<union> {event_of x}"
  by (induction acc x rule: add_segment.induct) auto

lemma add_segments_events: "event_of ` set (foldl add_segment acc xs) \<subseteq> event_of ` set acc \<union> event_of ` set xs"
proof (induction xs arbitrary: acc)
  case (Cons x xs)
  from Cons.IH [of "add_segment acc x"] add_segment_events [of acc x] show ?case by auto
qed simp

lemma add_segment_nonempty [simp]: "add_segment acc x \<noteq> []"
  by (induction acc x rule: add_segment.induct) auto

lemma add_segments_nonempty: "xs \<noteq> [] \<or> acc \<noteq> [] \<Longrightarrow> foldl add_segment acc xs \<noteq> []"
  by (induction xs arbitrary: acc) auto

lemma timeline_events:
  assumes "x \<in> set (timeline_segments tk hist a b)"
  shows "event_of x \<in> snd ` set (checked_events tk hist)"
proof -
  have "event_of x \<in> snd ` set (boundaries tk hist a b)"
    using assms add_segments_events [of "[]" "raw_segments a b (boundaries tk hist a b)"]
    unfolding raw_segments_events timeline_segments_def by auto
  then show ?thesis using boundaries_members by fastforce
qed

lemma applicable_event:
  assumes "applicable_version tk hist day = Inr (Some e)"
  obtains c where "(c, e) \<in> set (checked_events tk hist)" and "c < day + DAY"
proof -
  from assms obtain m where m: "first_max [x \<leftarrow> checked_events tk hist. fst x < day + DAY] = Some m" "e = snd m"
    by (auto simp: applicable_version_def split: if_splits)
  with first_max_Some [OF m(1)] that [of "fst m"] show thesis by simp
qed

lemma timeline_nonempty:
  assumes "(c, e) \<in> set (checked_events tk hist)" and "c < b"
  shows "timeline_segments tk hist a b \<noteq> []"
proof -
  have "boundaries tk hist a b \<noteq> []"
  proof (cases "c \<le> a")
    case True
    with assms have "(c, e) \<in> set [x \<leftarrow> sort_key fst (checked_events tk hist). fst x \<le> a]" by simp
    then have "[x \<leftarrow> sort_key fst (checked_events tk hist). fst x \<le> a] \<noteq> []" by (metis list.set(1) empty_iff)
    then obtain m where "first_max [x \<leftarrow> sort_key fst (checked_events tk hist). fst x \<le> a] = Some m"
      by (cases "first_max [x \<leftarrow> sort_key fst (checked_events tk hist). fst x \<le> a]") auto
    then show ?thesis by (simp add: boundaries_def Let_def)
  next
    case False
    with assms have "(c, e) \<in> set (boundaries tk hist a b)" by (auto simp: boundaries_def Let_def)
    then show ?thesis by auto
  qed
  then have "raw_segments a b (boundaries tk hist a b) \<noteq> []" using raw_segments_events [of a b "boundaries tk hist a b"] by fastforce
  then show ?thesis unfolding timeline_segments_def by (intro add_segments_nonempty) simp
qed

lemma checked_in_history: "x \<in> set (checked_events tk hist) \<Longrightarrow> snd x \<in> set hist"
  by (auto simp: checked_events_def split: option.splits)

lemma static_evidence_listed:
  assumes "consistent_history tk t (gtfs_history tk t)" and "static_evidence tk t (Some e) = Inr (as, [])"
    and "e \<in> snd ` set (checked_events tk (gtfs_history tk t))" and "e' \<in> snd ` set (checked_events tk (gtfs_history tk t))"
  shows "version_listed as e'"
proof -
  let ?hist = "gtfs_history tk t"
  from assms(2) obtain archives rest where a: "static_artifacts tk t (e # ?hist) [] = Inr (archives, [])" "as = archives @ rest"
    by (auto simp: static_evidence_def bind_result_iff map_sum_Inr)
  from assms(3,4) checked_in_history have known: "e \<in> set ?hist" "e' \<in> set ?hist" by blast+
  from assms(1,4) have good: "archived_version tk t e'" by (auto simp: consistent_history_def list_all_iff)
  have same: "row_get x ''version_path'' = row_get e' ''version_path''"
    if "x \<in> set (e # ?hist)" "row_get x ''sha256'' = row_get e' ''sha256''" for x
  proof -
    have "x \<in> set ?hist" using that(1) known(1) by (cases "x = e") auto
    with assms(1) known(2) that(2) show ?thesis unfolding consistent_history_def list_all_iff by blast
  qed
  have "e' \<in> set (e # ?hist)" "row_get e' ''sha256'' \<notin> set []" using known(2) by simp_all
  from static_artifacts_listed [OF a(1) this(1) good this(2) same] have "version_listed archives e'" .
  then show ?thesis by (simp add: a(2))
qed

subsection \<open>The feeds\<close>

lemma late_evidence_gaps:
  assumes "late_evidence tk feed su day = Inr ls"
  shows "\<exists>i ts. ls_gaps ls = gap_row tk day i ts"
  using assms by (auto simp: late_evidence_def Let_def observation_gaps_def bind_result_iff map_sum_Inr) blast

lemma feed_row_fields:
  assumes "late_evidence tk feed su day = Inr ls" and "r = feed_row feed su ls raw rows files pending tails shown @ extra"
  shows "map_of r ''successful_http_polls'' = Some (PInt (int (length (responses (su_events su)))))"
    and "map_of r ''successful_parse_polls'' = Some (PInt (int (length (parse_successes (su_events su)))))"
    and "map_of r ''raw_snapshots'' = Some (PInt (int (fst raw)))" and "map_of r ''raw_log_clean'' = Some (PBool (snd raw))"
    and "map_of r ''parquet_files'' = Some (PInt (int files))" and "map_of r ''pending_spool_segments'' = Some (PInt (int pending))"
    and "map_of r ''presence'' = map_of extra ''presence''"
  using late_evidence_gaps [OF assms(1)]
  by (auto simp: assms(2) feed_row_def Let_def gap_row_def map_add_def)

lemma raw_evidence_ok:
  assumes "raw_evidence tk t feed date n = (records, intact, [])"
  shows "regular_at t (raw_log_path feed date) \<noteq> None" and "intact" and "n \<le> records"
  using assms by (auto simp: raw_evidence_def split: option.splits if_splits sum.splits)

lemma journal_errors_ok:
  assumes "journal_errors feed su = []"
  shows "\<not> su_missing su" and "responses (su_events su) \<noteq> []" and "parse_successes (su_events su) \<noteq> []" and "raw_events (su_events su) \<noteq> []"
  using assms by (auto simp: journal_errors_def Let_def split: if_splits)

lemma finish_feed_ok:
  assumes "finish_feed tk t feed date su ls found = Inr r" and "fs_errors r = []" and "late_evidence tk feed su day = Inr ls"
  shows "\<not> su_missing su" and "regular_at t (raw_log_path feed date) \<noteq> None" and "fst found \<noteq> []" and "snd found = []"
    and "bad_count (fs_stats r) required_counts = Inr False" and "row_get (fs_stats r) ''raw_log_clean'' = PBool True"
    and "\<exists>presence quality. feed_presence tk t feed date (su_events su) = Inr (presence, [], quality) \<and>
      map_of (fs_stats r) ''presence'' = map_of presence ''presence''"
proof -
  obtain records intact issues where raw: "raw_evidence tk t feed date (length (raw_events (su_events su))) = (records, intact, issues)"
    by (metis surj_pair)
  let ?pending = "length (pending_spool t feed date)"
  from assms(1,2) raw obtain shown presence quality rows tails where r:
      "fs_stats r = feed_row feed su ls (records, intact) rows (length (fst found)) ?pending tails shown @ presence"
      "feed_presence tk t feed date (su_events su) = Inr (presence, [], quality)" "journal_errors feed su = []" "issues = []"
      "snd found = []" "parquet_errors tk t feed (fst found) (su_emitted su) = []" "?pending = 0"
    by (auto simp: finish_feed_def Let_def bind_result_iff map_sum_Inr split: if_splits)
  note fields = feed_row_fields [OF assms(3) r(1)]
  note journal = journal_errors_ok [OF r(3)]
  note evidence = raw_evidence_ok [OF raw [unfolded r(4)]]
  show "\<not> su_missing su" "regular_at t (raw_log_path feed date) \<noteq> None" "snd found = []" by (rule journal evidence r(5))+
  show found: "fst found \<noteq> []" using r(6) by (auto simp: parquet_errors_def)
  show "row_get (fs_stats r) ''raw_log_clean'' = PBool True" using fields(4) evidence(2) by (simp add: row_get_def)
  have "length (raw_events (su_events su)) \<ge> 1" using journal(4) by (simp add: Suc_le_eq)
  with evidence(3) have "records \<ge> 1" by linarith
  then show "bad_count (fs_stats r) required_counts = Inr False"
    using fields r(7) journal(2,3) found by (simp add: required_counts_def get_or_def int_of_def)
  show "\<exists>presence quality. feed_presence tk t feed date (su_events su) = Inr (presence, [], quality) \<and>
      map_of (fs_stats r) ''presence'' = map_of presence ''presence''"
    using r(2) fields(7) by blast
qed

lemma partition_dir_regular:
  assumes "grown u t" and "feed_stats env tk feed date day create v = (Inr r, u)" and "fs_errors r = []"
  obtains es where "regular_at t (raw_log_path feed date) \<noteq> None" and "regular_at t (poll_journal_path feed date) \<noteq> None"
    and "\<exists>p. p \<in> set (parquet_files t feed date)"
    and "bad_count (fs_stats r) required_counts = Inr False" and "row_get (fs_stats r) ''raw_log_clean'' = PBool True"
    and "\<exists>presence quality. feed_presence tk u feed date es = Inr (presence, [], quality) \<and>
      map_of (fs_stats r) ''presence'' = map_of presence ''presence''"
proof -
  from assms(2) obtain su ls found where f: "summarize tk v (poll_journal_path feed date) = Inr su"
      "late_evidence tk feed su day = Inr ls" "finish_feed tk u feed date su ls found = Inr r"
      "find_parquet env v feed date (create \<and> parse_successes (su_events su) \<noteq> [] \<and> su_emitted su = 0) = (found, u)"
    by (auto simp: feed_stats_def bind_result_iff map_sum_Inr split: sum.splits prod.splits)
  note ok = finish_feed_ok [OF f(3) assms(3) f(2)]
  obtain ps where ps: "found = (ps, [])" "ps \<noteq> []" using ok(3,4) by (cases found) auto
  have vu: "grown v u" using grown_find_parquet f(4) by (metis snd_conv)
  from f(1) ok(1) have "regular_at v (poll_journal_path feed date) \<noteq> None"
    by (auto simp: summarize_def Let_def bind_result_iff)
  then have journal: "regular_at t (poll_journal_path feed date) \<noteq> None"
    using grown_regular [OF grown_trans [OF vu assms(1)]] by auto
  have raw: "regular_at t (raw_log_path feed date) \<noteq> None" using ok(2) grown_regular [OF assms(1)] by auto
  obtain p where "p \<in> set (parquet_files u feed date)" using find_parquet_listed f(4) ps by metis
  then have "p \<in> set (parquet_files t feed date)" using grown_exists [OF assms(1)]
    by (auto simp: parquet_files_def glob_def set_children)
  with that [OF raw journal _ ok(5,6,7)] show thesis by blast
qed

lemma join_snoc: "ps \<noteq> [] \<Longrightarrow> join_path (ps @ [n]) = join_path ps @ ''/'' @ n"
proof (induction ps rule: join_path.induct)
  case (3 p q ps)
  then show ?case by simp
qed auto

lemma ends_with_append: "ends_with n x \<Longrightarrow> ends_with (s @ n) x"
  by (auto simp: ends_with_def)

lemma parquet_listed:
  assumes "p \<in> set (parquet_files t feed date)" and "listed as p"
  shows "list_ex (\<lambda>s. starts_with s (join_path (partition_dir ''parquet'' feed date) @ ''/'') \<and> ends_with s ''.parquet'') (artifact_paths (map PDict as))"
proof -
  from assms(1) have p: "p = partition_dir ''parquet'' feed date @ [last p]" "ends_with (last p) ''.parquet''"
    by (auto simp: parquet_files_def glob_def set_children) (metis append_butlast_last_id)
  have "partition_dir ''parquet'' feed date \<noteq> []" by (simp add: partition_dir_def)
  then have path: "join_path p = (join_path (partition_dir ''parquet'' feed date) @ ''/'') @ last p"
    by (subst p(1)) (simp add: join_snoc)
  have "starts_with (join_path p) (join_path (partition_dir ''parquet'' feed date) @ ''/'')" unfolding path starts_with_def by simp
  moreover have "ends_with (join_path p) ''.parquet''" unfolding path by (rule ends_with_append [OF p(2)])
  ultimately show ?thesis using assms(2) unfolding listed_def list_ex_iff by blast
qed

lemma presence_accepted:
  assumes "feed_presence tk u Tripupdates date es = Inr (presence, [], quality)" and "map_of stats ''presence'' = map_of presence ''presence''"
    and "regular_at u (presence_dir date @ [''presence.jsonlog'']) \<noteq> None \<Longrightarrow> join_path (presence_dir date @ [''presence.jsonlog'']) \<in> set paths"
  shows "validate_presence date stats paths = Inr ()"
proof -
  obtain ps errors q where st: "presence_stats (tl_gunzip tk) (tl_presence tk) es (presence_file u date) = (ps, errors, q)"
    by (metis surj_pair)
  with assms(1) have "errors = []" and p: "presence = [(''presence'', PDict (presence_row ps))]"
    by (auto simp: feed_presence_def presence_evidence_def map_sum_Inr split: if_splits)
  from p assms(2) have stats: "map_of stats ''presence'' = Some (PDict (presence_row ps))" by simp
  show ?thesis
  proof (cases "journal_confirmed_observations ps = 0")
    case True
    then show ?thesis by (simp add: validate_presence_def stats get_or_def presence_row_def)
  next
    case False
    from presence_complete [OF st [unfolded \<open>errors = []\<close>] False]
    have "regular_at u (presence_dir date @ [''presence.jsonlog'']) \<noteq> None" "journal_confirmed_observations ps \<le> ps_records ps"
      by (auto simp: presence_file_def)
    with assms(3) False show ?thesis
      by (simp add: validate_presence_def stats get_or_def presence_row_def py_less_def num_of_def row_get_def refuse_def)
  qed
qed

lemma row_get_feeds:
  assumes "map fst rs = FEED_NAMES"
  shows "\<exists>r. (feed, r) \<in> set rs \<and> row_get (map (\<lambda>(f, r). (feed_name f, PDict (fs_stats r))) rs) (feed_name feed) = PDict (fs_stats r)"
proof -
  have "feed \<in> fst ` set rs" using assms set_FEED_NAMES [of feed] by (metis list.set_map)
  then have "\<exists>r. (feed, r) \<in> set rs \<and> map_of (map (\<lambda>(f, r). (feed_name f, PDict (fs_stats r))) rs) (feed_name feed) = Some (PDict (fs_stats r))"
    by (induction rs) auto
  then show ?thesis by (auto simp: row_get_def)
qed

lemma day_artifacts_listed:
  assumes "day_artifacts tk t date rs applicable = Inr (as, [])"
  shows "\<exists>fs. feed_artifacts tk t date feed = Inr fs \<and> set (artifact_paths (map PDict fs)) \<subseteq> set (artifact_paths (map PDict as))"
    and "regular_at t (presence_dir date @ [''presence.jsonlog'']) \<noteq> None \<Longrightarrow> listed as (presence_dir date @ [''presence.jsonlog''])"
    and "\<exists>ss. static_evidence tk t applicable = Inr (ss, []) \<and> set (artifact_paths (map PDict ss)) \<subseteq> set (artifact_paths (map PDict as))"
proof -
  from assms obtain feeds presence runs static where d: "map_result (feed_artifacts tk t date) FEED_NAMES = Inr feeds"
      "file_artifacts tk t (filter (is_file t) (glob t (presence_dir date) (\<lambda>_. True))) ''tripupdates_presence'' = Inr presence"
      "static_evidence tk t applicable = Inr (static, [])" "as = concat feeds @ presence @ runs @ static"
    by (auto simp: day_artifacts_def bind_result_iff map_sum_Inr)
  from map_result_member [OF d(1) set_FEED_NAMES] obtain fs where fs: "fs \<in> set feeds" "feed_artifacts tk t date feed = Inr fs" by blast
  have "set (artifact_paths (map PDict fs)) \<subseteq> set (artifact_paths (map PDict (concat feeds)))"
    using fs(1) unfolding subset_iff artifact_paths_row set_concat by blast
  with fs(2) show "\<exists>fs. feed_artifacts tk t date feed = Inr fs \<and> set (artifact_paths (map PDict fs)) \<subseteq> set (artifact_paths (map PDict as))"
    by (auto simp: d(4))
  show "\<exists>ss. static_evidence tk t applicable = Inr (ss, []) \<and> set (artifact_paths (map PDict ss)) \<subseteq> set (artifact_paths (map PDict as))"
    using d(3) by (auto simp: d(4))
  show "listed as (presence_dir date @ [''presence.jsonlog''])" if "regular_at t (presence_dir date @ [''presence.jsonlog'']) \<noteq> None"
  proof -
    from that have "presence_dir date @ [''presence.jsonlog''] \<in> set (filter (is_file t) (glob t (presence_dir date) (\<lambda>_. True)))"
      by (auto simp: glob_def set_children is_file_def regular_at_Some)
    from file_artifacts_listed [OF d(2) this] show ?thesis by (simp add: d(4))
  qed
qed

lemma feed_accepted:
  assumes "all_feed_stats env tk date day create FEED_NAMES t0 = (Inr rs, t)" and "\<forall>x \<in> set rs. fs_errors (snd x) = []"
    and "day_artifacts tk t date rs applicable = Inr (as, [])"
  shows "validate_feed date (map (\<lambda>(f, r). (feed_name f, PDict (fs_stats r))) rs) (artifact_paths (map PDict as)) feed = Inr ()"
proof -
  note split = all_feed_stats_split [OF assms(1)]
  from row_get_feeds split obtain r where r: "(feed, r) \<in> set rs"
      "row_get (map (\<lambda>(f, r). (feed_name f, PDict (fs_stats r))) rs) (feed_name feed) = PDict (fs_stats r)" by blast
  with split obtain v u where vu: "feed_stats env tk feed date day create v = (Inr r, u)" "grown u t" by blast
  from assms(2) r(1) have "fs_errors r = []" by force
  from partition_dir_regular [OF vu(2,1) this] obtain es p where ok: "regular_at t (raw_log_path feed date) \<noteq> None"
      "regular_at t (poll_journal_path feed date) \<noteq> None" "p \<in> set (parquet_files t feed date)"
      "bad_count (fs_stats r) required_counts = Inr False" "row_get (fs_stats r) ''raw_log_clean'' = PBool True"
      "\<exists>presence quality. feed_presence tk u feed date es = Inr (presence, [], quality) \<and>
        map_of (fs_stats r) ''presence'' = map_of presence ''presence''" by metis
  from day_artifacts_listed(1) [OF assms(3)] obtain fs where fs: "feed_artifacts tk t date feed = Inr fs"
      "set (artifact_paths (map PDict fs)) \<subseteq> set (artifact_paths (map PDict as))" by blast
  note list = feed_artifacts_listed [OF fs(1)]
  have paths: "join_path (raw_log_path feed date) \<in> set (artifact_paths (map PDict as))"
      "join_path (poll_journal_path feed date) \<in> set (artifact_paths (map PDict as))" "listed as p"
    using list(1) [OF ok(1)] list(2) [OF ok(2)] list(3) [OF ok(3)] fs(2) unfolding listed_def by blast+
  have presence: "feed = Tripupdates \<Longrightarrow> validate_presence date (fs_stats r) (artifact_paths (map PDict as)) = Inr ()"
  proof -
    assume [simp]: "feed = Tripupdates"
    have "join_path (presence_dir date @ [''presence.jsonlog'']) \<in> set (artifact_paths (map PDict as))"
      if "regular_at u (presence_dir date @ [''presence.jsonlog'']) \<noteq> None"
      using day_artifacts_listed(2) [OF assms(3)] grown_regular [OF vu(2)] that unfolding listed_def by auto
    with ok(6) show ?thesis using presence_accepted by auto
  qed
  show ?thesis using ok(4,5) paths(1,2) parquet_listed [OF ok(3) paths(3)] presence
    by (simp add: validate_feed_def r(2) refuse_def)
qed

subsection \<open>Properties\<close>

text \<open>
  Claim C12. A manifest that \<^verbatim>\<open>build_daily_manifest\<close> declares complete passes the validation that stands before every
  upload and every pruning, from its content alone, when the history of the static timetable is consistent: every checked
  version has its archive below its recorded path with its recorded digest, and equal digests have equal paths. So a complete
  date is never refused by \<^verbatim>\<open>_validate_manifest\<close>.
\<close>

theorem complete_manifest_accepted:
  assumes "build_daily_manifest env tk date create t = (Inr m, t')" and "row_get m ''complete'' = PBool True"
    and "consistent_history tk t (gtfs_history tk t)"
  shows "validate_manifest date m = Inr ()"
proof -
  from assms(1) obtain day rs u where b: "all_feed_stats env tk date day create FEED_NAMES t = (Inr rs, u)"
      "assemble_manifest env tk date day rs u = Inr m"
    by (auto simp: build_daily_manifest_def split: option.splits if_splits prod.splits sum.splits)
  have static_files: "regular_at u q = regular_at t q" if "hd q = ''static_gtfs''" for q
    using all_feed_stats_regular [of q env tk date day create FEED_NAMES t] that by (simp add: b(1))
  have hist: "gtfs_history tk u = gtfs_history tk t"
    by (simp add: gtfs_history_def jsonl_at_def static_files history_path_def)
  have consistent: "consistent_history tk u (gtfs_history tk u)"
    using assms(3) by (simp add: consistent_history_def archived_version_def hist static_files gtfs_root_def)
  let ?hist = "gtfs_history tk u"
  from b(2) obtain applicable timeline missing as issues where d: "applicable_version tk ?hist day = Inr applicable"
      "observed_timeline tk ?hist day (day + DAY) = Inr timeline" "static_errors tk u applicable = Inr missing"
      "day_artifacts tk u date rs applicable = Inr (as, issues)"
      "m = manifest_row env tk date (concat (map (\<lambda>x. fs_errors (snd x)) rs) @ missing @ issues)
        (concat (map (\<lambda>x. fs_quality (snd x)) rs) @ static_quality tk day timeline) rs applicable timeline as"
    by (auto simp: assemble_manifest_def bind_result_iff map_sum_Inr)
  have "concat (map (\<lambda>x. fs_errors (snd x)) rs) @ missing @ issues = []"
    using assms(2) by (simp add: d(5) manifest_row_def row_get_def)
  then have none: "\<forall>x \<in> set rs. fs_errors (snd x) = []" "missing = []" "issues = []" by auto
  from d(3) none(2) obtain e where e: "applicable = Some e" by (cases applicable) (auto simp: static_errors_def)
  from applicable_event [OF d(1) [unfolded e]] obtain c where c: "(c, e) \<in> set (checked_events tk ?hist)" "c < day + DAY" .
  have artifacts: "day_artifacts tk u date rs (Some e) = Inr (as, [])" using d(4) none(3) e by simp
  have versions: "static_listed (artifact_paths (map PDict as)) (PDict e')" if "e' \<in> snd ` set (checked_events tk ?hist)" for e'
  proof -
    from day_artifacts_listed(3) [OF artifacts] obtain ss where ss: "static_evidence tk u (Some e) = Inr (ss, [])"
        "set (artifact_paths (map PDict ss)) \<subseteq> set (artifact_paths (map PDict as))" by blast
    have "e \<in> snd ` set (checked_events tk ?hist)" using c(1) by force
    from static_evidence_listed [OF consistent ss(1) this that] ss(2) show ?thesis
      unfolding version_listed_def static_listed_row by blast
  qed
  have timeline: "timeline = map (segment_row tk) (timeline_segments tk ?hist day (day + DAY))"
    using d(2) by (simp add: observed_timeline_def DAY_def split: if_splits)
  have segments: "static_listed (artifact_paths (map PDict as)) (PDict r)" if "r \<in> set timeline" for r
  proof -
    from that obtain x where x: "x \<in> set (timeline_segments tk ?hist day (day + DAY))" "r = segment_row tk x" by (auto simp: timeline)
    have "row_get r ''version_path'' = row_get (event_of x) ''version_path''" by (cases x) (simp add: x(2) segment_row_def row_get_def)
    with versions [OF timeline_events [OF x(1)]] show ?thesis unfolding static_listed_row by simp
  qed
  obtain r rest where rows: "timeline = r # rest" using timeline_nonempty [OF c] timeline by (cases timeline) auto
  have feeds: "first_failure (validate_feed date (map (\<lambda>(f, r). (feed_name f, PDict (fs_stats r))) rs) (artifact_paths (map PDict as))) FEED_NAMES = Inr ()"
    unfolding first_failure_Inr using feed_accepted [OF b(1) none(1) artifacts] by blast
  have static: "static_listed (artifact_paths (map PDict as)) (PDict e)" using c(1) by (intro versions) force
  have "list_all (static_listed (artifact_paths (map PDict as))) (map PDict timeline)" using segments by (auto simp: list_all_iff)
  with feeds static show ?thesis
    by (simp add: validate_manifest_def d(5) manifest_row_def e rows row_get_def refuse_def)
qed

definition day_poll :: row where
  "day_poll = [(''success'', PBool True), (''parse_ok'', PBool True), (''raw_archived'', PBool True), (''emitted_rows'', PInt 1)]"

definition day_version :: row where
  "day_version = [(''checked_at'', PStr ''0''), (''sha256'', PStr ''a''), (''version_path'', PStr ''g.zip'')]"

definition day_tools :: tools where
  "day_tools = plain_tools\<lparr>tl_json := (\<lambda>bs. if bs = [1] then Some (PDict day_poll) else if bs = [2] then Some (PDict day_version) else None)\<rparr>"

definition day_tree :: tree where
  "day_tree =
     map (\<lambda>(p, bs). (p, Regular \<lparr>fo_bytes = bs, fo_mtime = 0, fo_id = (0, 0)\<rparr>))
       (concat (map (\<lambda>f. [(raw_log_path f demo_day, replicate 12 0), (poll_journal_path f demo_day, [1]),
           (partition_dir ''parquet'' f demo_day @ [''a.parquet''], [7])]) FEED_NAMES) @
        [([''static_gtfs'', ''g.zip''], [97]), (history_path, [2])])"

lemma day_manifest_complete:
  "case fst (build_daily_manifest demo_env day_tools demo_day True day_tree) of
     Inr m \<Rightarrow> row_get m ''complete'' = PBool True | Inl _ \<Rightarrow> False"
  by code_simp

lemma day_history:
  "consistent_history day_tools day_tree (gtfs_history day_tools day_tree)"
proof -
  have hist: "gtfs_history day_tools day_tree = [day_version]" by code_simp
  have checked: "map snd (checked_events day_tools [day_version]) = [day_version]" by code_simp
  have stored: "regular_at day_tree [''static_gtfs'', ''g.zip''] = Some \<lparr>fo_bytes = [97], fo_mtime = 0, fo_id = (0, 0)\<rparr>" by code_simp
  have "archived_version day_tools day_tree day_version"
    unfolding archived_version_def
    by (rule exI [of _ "''g.zip''"], rule exI [of _ "\<lparr>fo_bytes = [97], fo_mtime = 0, fo_id = (0, 0)\<rparr>"])
      (simp add: gtfs_root_def path_parts_def stored archive_name_def archive_path_def day_version_def row_get_def day_tools_def plain_tools_def char_of_def bit_iff_odd)
  then have "\<forall>x \<in> set (checked_events day_tools [day_version]). archived_version day_tools day_tree (snd x)"
    using checked by (cases "checked_events day_tools [day_version]") auto
  then show ?thesis by (simp add: consistent_history_def hist list_all_iff)
qed

lemma complete_manifest_accepted_witness:
  "case fst (build_daily_manifest demo_env day_tools demo_day True day_tree) of
     Inr m \<Rightarrow> validate_manifest demo_day m = Inr () | Inl _ \<Rightarrow> False"
proof -
  obtain m t' where run: "build_daily_manifest demo_env day_tools demo_day True day_tree = (Inr m, t')"
    using day_manifest_complete
    by (cases "build_daily_manifest demo_env day_tools demo_day True day_tree") (auto split: sum.splits)
  with day_manifest_complete have "row_get m ''complete'' = PBool True" by simp
  from complete_manifest_accepted [OF run this day_history] show ?thesis by (simp add: run)
qed

text \<open>
  Without a consistent history the two disagree: here a version checked during the day has lost its archive. The loop over the
  history passes over an archive that does not exist, so the manifest is complete, and its timeline still names the version,
  so the validation refuses it. \<^verbatim>\<open>run_backlog\<close> then stops at this date on every run and reaches no later one.
\<close>

definition lost_tools :: tools where
  "lost_tools = day_tools\<lparr>tl_json := (\<lambda>bs. if bs = [3]
     then Some (PDict [(''checked_at'', PStr ''2''), (''sha256'', PStr ''b''), (''version_path'', PStr ''h.zip'')])
     else if bs = [2] then Some (PDict (AList.update ''checked_at'' (PStr ''5'') day_version)) else tl_json day_tools bs)\<rparr>"

definition lost_tree :: tree where
  "lost_tree = AList.update history_path (Regular \<lparr>fo_bytes = [3, NL, 2], fo_mtime = 0, fo_id = (0, 0)\<rparr>) day_tree"

lemma lost_archive_refused:
  "case fst (build_daily_manifest demo_env lost_tools demo_day True lost_tree) of
     Inr m \<Rightarrow> row_get m ''complete'' = PBool True \<and> validate_manifest demo_day m \<noteq> Inr () | Inl _ \<Rightarrow> False"
  by code_simp

end
