(* ===== verification/Retention.thy ===== *)
theory Retention
  imports Backup
begin

section \<open>Pruning (bkk_collector/archive/retention.py)\<close>

text \<open>
  Local raw or Parquet partitions of a date are deleted only under a receipt. Everything is checked before the first
  deletion, locally, remotely and locally again; the intent is written first, so that an interrupted run is resumed.

  The run is a trace of trees, one after each write or deletion: a crash leaves one of them. \<open>fails\<close> is the number of the
  deletion that raises, if one does.
\<close>

subsection \<open>The inventory\<close>

definition entries :: "tree \<Rightarrow> path \<Rightarrow> exn + path list" where
  "entries t d = (case map_of t d of Some (Regular _) \<Rightarrow> Inl (other_error ''NotADirectoryError'') | _ \<Rightarrow> Inr (children t d))"

type_synonym file_stat = "(int \<times> int) \<times> int \<times> int"

definition stat_of :: "fobj \<Rightarrow> file_stat" where
  "stat_of f = (fo_id f, int (length (fo_bytes f)), fo_mtime f)"

text \<open>\<^verbatim>\<open>path.suffix == ".parquet"\<close>\<close>

definition parquet_name :: "string \<Rightarrow> bool" where
  "parquet_name n \<longleftrightarrow> ends_with n ''.parquet'' \<and> length n > 8"

definition inventory_entry :: "tree \<Rightarrow> string \<Rightarrow> path \<Rightarrow> exn + string \<times> file_stat" where
  "inventory_entry t kind p =
     (case regular_at t p of
        None \<Rightarrow> Inl (value_error (''unexpected directory/symlink: '' @ last p))
      | Some f \<Rightarrow>
          if kind = ''parquet'' \<and> \<not> parquet_name (last p) then Inl (value_error (''unexpected Parquet partition entry: '' @ last p))
          else Inr (join_path p, stat_of f))"

definition feed_inventory :: "tree \<Rightarrow> string \<Rightarrow> string \<Rightarrow> feed \<Rightarrow> exn + (string \<times> file_stat) list" where
  "feed_inventory t kind date feed =
     bind_result (safe_path t (join_path (partition_dir kind feed date))) (\<lambda>dir.
     bind_result (safe_path t (join_path (partition_dir ''spool'' feed date))) (\<lambda>spool.
     bind_result (entries t spool) (\<lambda>pending.
     if pending \<noteq> [] then Inl (value_error ''pending spool/recovery work'')
     else bind_result (entries t dir) (map_result (inventory_entry t kind)))))"

definition inventory :: "tree \<Rightarrow> string \<Rightarrow> string \<Rightarrow> exn + (string \<times> file_stat) list" where
  "inventory t kind date = map_sum id concat (map_result (feed_inventory t kind date) FEED_NAMES)"

subsection \<open>What the receipt authorises\<close>

definition prune_receipt :: "tools \<Rightarrow> backup_config \<Rightarrow> tree \<Rightarrow> string \<Rightarrow> exn + row" where
  "prune_receipt tk cfg t date =
     bind_result (safe_path t (join_path (receipt_path date))) (\<lambda>p.
       case read_json tk t p (PDict []) of
         PDict r \<Rightarrow>
           if row_get r ''version'' = PInt 2 \<and> row_get r ''date'' = PStr date \<and> row_get r ''remote_verified'' = PBool True
              \<and> row_get r ''repo_id'' = PStr (bk_repo_id cfg)
           then Inr r else Inl (value_error ''missing or unverified v2 receipt'')
       | _ \<Rightarrow> Inl (other_error ''AttributeError''))"

definition good_artifact :: "row \<Rightarrow> exn + bool" where
  "good_artifact a =
     (case get_or a ''sha256'' (PStr []) of
        PStr d \<Rightarrow> Inr ((case row_get a ''size'' of PInt n \<Rightarrow> n \<ge> 0 | _ \<Rightarrow> False) \<and> hex_text 64 d)
      | _ \<Rightarrow> Inl (other_error ''TypeError''))"

text \<open>The receipt's artifacts by name, in its order; a name may not occur twice.\<close>

fun index_artifacts :: "tree \<Rightarrow> (string \<times> row) list \<Rightarrow> pyval list \<Rightarrow> exn + (string \<times> row) list" where
  "index_artifacts t known [] = Inr known"
| "index_artifacts t known (PDict a # vs) =
     bind_result (text_item a ''path'') (\<lambda>name.
     bind_result (safe_path t name) (\<lambda>_.
     bind_result (good_artifact a) (\<lambda>good.
       if \<not> good \<or> name \<in> set (map fst known) then Inl (value_error ''invalid/duplicate receipt artifact'')
       else index_artifacts t (known @ [(name, a)]) vs)))"
| "index_artifacts t known (v # vs) = Inl (other_error ''TypeError'')"

definition receipt_artifacts :: "tree \<Rightarrow> row \<Rightarrow> exn + (string \<times> row) list" where
  "receipt_artifacts t receipt =
     (case row_get receipt ''artifacts'' of
        PList (v # vs) \<Rightarrow> index_artifacts t [] (v # vs)
      | _ \<Rightarrow> Inl (value_error ''receipt lacks artifacts''))"

definition authenticate_manifest :: "tools \<Rightarrow> tree \<Rightarrow> string \<Rightarrow> row \<Rightarrow> (string \<times> row) list \<Rightarrow> exn + unit" where
  "authenticate_manifest tk t date receipt indexed =
     (case map_of indexed (join_path (manifest_path date)) of
        None \<Rightarrow> Inl (value_error ''receipt lacks authenticated daily manifest'')
      | Some a \<Rightarrow>
          bind_result (item a ''sha256'') (\<lambda>d.
          bind_result (refuse (d \<noteq> row_get receipt ''manifest_sha256'') ''receipt lacks authenticated daily manifest'') (\<lambda>_.
          bind_result (validate_local tk t True [a]) (\<lambda>_.
          case read_json tk t (manifest_path date) (PDict []) of
            PDict m \<Rightarrow>
              if row_get m ''complete'' \<noteq> PBool True then Inl (value_error ''manifest is incomplete'') else validate_manifest date m
          | _ \<Rightarrow> Inl (other_error ''AttributeError'')))))"

definition artifact_place :: "string \<Rightarrow> string \<Rightarrow> string \<Rightarrow> bool" where
  "artifact_place kind date name \<longleftrightarrow>
     (case path_parts name of
        [k, f, d, n] \<Rightarrow> k = kind \<and> f \<in> set (map feed_name FEED_NAMES) \<and> d = ''date='' @ date \<and>
          (kind = ''parquet'' \<longrightarrow> ends_with name ''.parquet'')
      | _ \<Rightarrow> False)"

definition expected_files :: "string \<Rightarrow> string \<Rightarrow> (string \<times> row) list \<Rightarrow> exn + (string \<times> row) list" where
  "expected_files kind date indexed =
     (let expected = [x \<leftarrow> indexed. row_get (snd x) ''kind'' = PStr kind] in
      bind_result (refuse (\<exists>feed \<in> set FEED_NAMES. \<not> list_ex (\<lambda>x. starts_with (fst x) (join_path (partition_dir kind feed date) @ ''/'')) expected)
        ''receipt lacks evidence'') (\<lambda>_.
      bind_result (refuse (\<not> list_all (\<lambda>x. artifact_place kind date (fst x)) expected)
        ''receipt artifact is outside the requested date/kind'') (\<lambda>_. Inr expected)))"

definition prune_state_path :: "string \<Rightarrow> string \<Rightarrow> path" where
  "prune_state_path kind date = [''maintenance'', ''prune-'' @ kind @ ''-'' @ date @ ''.json'']"

definition prune_history_path :: path where
  "prune_history_path = [''prune_history.jsonl'']"

text \<open>Files of the receipt are missing: only a matching intent explains that.\<close>

definition resumable :: "tools \<Rightarrow> tree \<Rightarrow> string \<Rightarrow> string \<Rightarrow> string \<Rightarrow> (string \<times> row) list \<Rightarrow> exn + unit" where
  "resumable tk t kind date receipt_sha expected =
     (case read_json tk t (prune_state_path kind date) (PDict []) of
        PDict p \<Rightarrow>
          refuse (row_get p ''receipt_sha256'' \<noteq> PStr receipt_sha \<or> row_get p ''operation'' \<noteq> PStr (kind @ ''_prune'')
              \<or> row_get p ''date'' \<noteq> PStr date \<or> row_get p ''planned_files'' \<noteq> PList (map PStr (sort (map fst expected))))
            ''missing local files without matching prune recovery intent''
      | _ \<Rightarrow> Inl (other_error ''AttributeError''))"

definition receipt_file :: "tree \<Rightarrow> string \<Rightarrow> exn + bytes" where
  "receipt_file t date =
     (case regular_at t (receipt_path date) of None \<Rightarrow> Inl (other_error ''FileNotFoundError'') | Some f \<Rightarrow> Inr (fo_bytes f))"

record prune_plan =
  pl_actual :: "(string \<times> file_stat) list"
  pl_receipt :: row
  pl_receipt_bytes :: bytes
  pl_expected :: "(string \<times> row) list"
  pl_candidates :: "row list"

definition plan_candidates :: "(string \<times> file_stat) list \<Rightarrow> (string \<times> row) list \<Rightarrow> row list" where
  "plan_candidates actual expected = concat (map (\<lambda>n. case map_of expected n of Some a \<Rightarrow> [a] | None \<Rightarrow> []) (sort (map fst actual)))"

text \<open>The checks before the network, for the inventory \<open>actual\<close> of a date that has files.\<close>

definition plan_prune :: "tools \<Rightarrow> backup_config \<Rightarrow> string \<Rightarrow> string \<Rightarrow> tree \<Rightarrow> (string \<times> file_stat) list \<Rightarrow> exn + prune_plan" where
  "plan_prune tk cfg kind date t actual =
     bind_result (prune_receipt tk cfg t date) (\<lambda>receipt.
     bind_result (receipt_artifacts t receipt) (\<lambda>indexed.
     bind_result (authenticate_manifest tk t date receipt indexed) (\<lambda>_.
     bind_result (expected_files kind date indexed) (\<lambda>expected.
     bind_result (refuse (\<not> set (map fst actual) \<subseteq> set (map fst expected)) ''unexpected files absent from receipt'') (\<lambda>_.
     bind_result (receipt_file t date) (\<lambda>bs.
     bind_result (if set (map fst expected) \<subseteq> set (map fst actual) then Inr ()
                  else resumable tk t kind date (tl_sha tk bs) expected) (\<lambda>_.
     bind_result (validate_local tk t True (plan_candidates actual expected)) (\<lambda>_.
     Inr \<lparr>pl_actual = actual, pl_receipt = receipt, pl_receipt_bytes = bs, pl_expected = expected,
          pl_candidates = plan_candidates actual expected\<rparr>))))))))"

subsection \<open>The remote checks and the second local ones\<close>

definition receipt_revision :: "row \<Rightarrow> string \<Rightarrow> exn + string" where
  "receipt_revision receipt head =
     (case revision_text (get_or receipt ''remote_revision'' (PStr head)) of
        None \<Rightarrow> Inl (value_error ''invalid receipt revision'') | Some r \<Rightarrow> Inr r)"

definition verify_plan :: "tools \<Rightarrow> 'h hub \<Rightarrow> string \<Rightarrow> prune_plan \<Rightarrow> ('h, string) call" where
  "verify_plan tk hub date pl =
     and_then (remote_revision hub) (\<lambda>head.
     and_then (lift (receipt_revision (pl_receipt pl) head)) (\<lambda>revision.
     and_then (verify_remote tk hub [[(''path'', PStr (join_path (receipt_path date))),
         (''size'', PInt (int (length (pl_receipt_bytes pl)))), (''sha256'', PStr (tl_sha tk (pl_receipt_bytes pl)))]] (Some head)) (\<lambda>_.
     and_then (verify_remote tk hub (map snd (pl_expected pl)) (Some revision)) (\<lambda>_.
     lift (Inr revision)))))"

definition same_inventory :: "(string \<times> file_stat) list \<Rightarrow> (string \<times> file_stat) list \<Rightarrow> bool" where
  "same_inventory xs ys \<longleftrightarrow> set xs = set ys"

definition recheck :: "tools \<Rightarrow> tree \<Rightarrow> string \<Rightarrow> string \<Rightarrow> prune_plan \<Rightarrow> exn + unit" where
  "recheck tk t kind date pl =
     bind_result (validate_local tk t True (pl_candidates pl)) (\<lambda>_.
     bind_result (inventory t kind date) (\<lambda>again.
       if \<not> same_inventory (pl_actual pl) again then Inl (value_error ''date changed during prune validation'')
       else bind_result (receipt_file t date) (\<lambda>bs.
         refuse (tl_sha tk bs \<noteq> tl_sha tk (pl_receipt_bytes pl)) ''date changed during prune validation'')))"

text \<open>\<open>None\<close>: there is nothing to delete.\<close>

definition authorise ::
  "tools \<Rightarrow> backup_config \<Rightarrow> 'h hub \<Rightarrow> backup_io \<Rightarrow> string \<Rightarrow> string \<Rightarrow> tree \<Rightarrow> ('h, (prune_plan \<times> string) option) call" where
  "authorise tk cfg hub io kind date t =
     and_then (lift (inventory t kind date)) (\<lambda>actual.
       if actual = [] then lift (Inr None)
       else and_then (lift (plan_prune tk cfg kind date t actual)) (\<lambda>pl.
         and_then (verify_plan tk hub date pl) (\<lambda>revision.
         and_then (lift (recheck tk (bo_later io t) kind date pl)) (\<lambda>_.
         lift (Inr (Some (pl, revision)))))))"

subsection \<open>Deleting\<close>

definition intent_row ::
  "tools \<Rightarrow> seconds \<Rightarrow> string \<Rightarrow> string \<Rightarrow> prune_plan \<Rightarrow> string \<Rightarrow> string \<Rightarrow> string list \<Rightarrow> int \<Rightarrow> row" where
  "intent_row tk now kind date pl revision status deleted bytes =
     [(''version'', PInt 2), (''operation'', PStr (kind @ ''_prune'')), (''date'', PStr date), (''timestamp'', PStr (tl_utc_iso tk now)),
      (''receipt_sha256'', PStr (tl_sha tk (pl_receipt_bytes pl))), (''remote_revision'', PStr revision),
      (''planned_files'', PList (map PStr (sort (map fst (pl_expected pl))))), (''status'', PStr status),
      (''files_deleted'', PList (map PStr deleted)), (''bytes_deleted'', PInt bytes)]"

definition write_intent :: "tools \<Rightarrow> backup_io \<Rightarrow> string \<Rightarrow> string \<Rightarrow> row \<Rightarrow> tree \<Rightarrow> tree list" where
  "write_intent tk io kind date intent t =
     (let t1 = write_json tk (bo_stamp io) (prune_state_path kind date) intent t
      in [t1, append_line tk (bo_stamp io) prune_history_path intent t1])"

definition unlink :: "string \<Rightarrow> tree \<Rightarrow> tree" where
  "unlink name t = AList.delete (split_path name) t"

fun unlink_steps :: "string list \<Rightarrow> tree \<Rightarrow> tree list" where
  "unlink_steps [] t = []"
| "unlink_steps (n # ns) t = unlink n t # unlink_steps ns (unlink n t)"

definition artifact_name :: "row \<Rightarrow> string" where
  "artifact_name a = str_or_empty (row_get a ''path'')"

definition artifact_size :: "row \<Rightarrow> int" where
  "artifact_size a = (case row_get a ''size'' of PInt n \<Rightarrow> n | _ \<Rightarrow> 0)"

text \<open>The run after authorisation: the intent, the deletions up to the one that raises, the closing intent.\<close>

definition execute_prune ::
  "tools \<Rightarrow> backup_io \<Rightarrow> string \<Rightarrow> string \<Rightarrow> nat option \<Rightarrow> prune_plan \<Rightarrow> string \<Rightarrow> tree \<Rightarrow> (exn + string list) \<times> tree list" where
  "execute_prune tk io kind date fails pl revision t =
     (let todo = (case fails of None \<Rightarrow> pl_candidates pl | Some n \<Rightarrow> take n (pl_candidates pl));
          complete = (length todo = length (pl_candidates pl));
          names = map artifact_name todo;
          opening = write_intent tk io kind date (intent_row tk (bo_now io) kind date pl revision ''validated'' [] 0) t;
          deletions = unlink_steps names (last opening);
          closing = write_intent tk io kind date
            (intent_row tk (bo_now io) kind date pl revision (if complete then ''complete'' else ''interrupted'') names
              (sum_list (map artifact_size todo))) (last (opening @ deletions))
      in (if complete then Inr names else Inl (other_error ''OSError''), opening @ deletions @ closing))"

definition prune_date ::
  "tools \<Rightarrow> backup_config \<Rightarrow> 'h hub \<Rightarrow> backup_io \<Rightarrow> string \<Rightarrow> nat option \<Rightarrow> string \<Rightarrow> tree \<Rightarrow> 'h \<Rightarrow> (exn + string list) \<times> tree list \<times> 'h" where
  "prune_date tk cfg hub io kind fails date t h =
     (case authorise tk cfg hub io kind date t h of
        (Inl e, h') \<Rightarrow> (Inl e, [t, bo_later io t], h')
      | (Inr None, h') \<Rightarrow> (Inr [], [t], h')
      | (Inr (Some (pl, revision)), h') \<Rightarrow>
          (case execute_prune tk io kind date fails pl revision (bo_later io t) of (r, ts) \<Rightarrow> (r, [t, bo_later io t] @ ts, h')))"

subsection \<open>All confirmed dates\<close>

text \<open>
  \<open>today\<close> is the start of the current day, \<open>fails\<close> and \<open>io\<close> are given by date. A refused date is passed over; its files and
  those of every later date are unaffected by the exception.
\<close>

fun prune_dates ::
  "tools \<Rightarrow> backup_config \<Rightarrow> 'h hub \<Rightarrow> (string \<Rightarrow> backup_io) \<Rightarrow> string \<Rightarrow> (string \<Rightarrow> nat option) \<Rightarrow> seconds \<Rightarrow> string list \<Rightarrow> tree \<Rightarrow> 'h
     \<Rightarrow> string list \<times> tree \<times> 'h" where
  "prune_dates tk cfg hub io kind fails cutoff [] t h = ([], t, h)"
| "prune_dates tk cfg hub io kind fails cutoff (d # ds) t h =
     (case tl_day tk d of
        None \<Rightarrow> prune_dates tk cfg hub io kind fails cutoff ds t h
      | Some day \<Rightarrow>
          if day \<ge> cutoff then prune_dates tk cfg hub io kind fails cutoff ds t h
          else (case prune_date tk cfg hub (io d) kind (fails d) d t h of
              (r, ts, h') \<Rightarrow>
                (case prune_dates tk cfg hub io kind fails cutoff ds (last ts) h' of
                   (removed, t', h'') \<Rightarrow> ((case r of Inr xs \<Rightarrow> xs | Inl _ \<Rightarrow> []) @ removed, t', h''))))"

definition prune_confirmed ::
  "tools \<Rightarrow> backup_config \<Rightarrow> 'h hub \<Rightarrow> (string \<Rightarrow> backup_io) \<Rightarrow> string \<Rightarrow> (string \<Rightarrow> nat option) \<Rightarrow> seconds \<Rightarrow> bool \<Rightarrow> int \<Rightarrow> tree \<Rightarrow> 'h
     \<Rightarrow> exn + string list \<times> tree \<times> 'h" where
  "prune_confirmed tk cfg hub io kind fails today locked after_days t h =
     (if kind \<notin> {''raw'', ''parquet''} then Inl (value_error ''unsupported prune operation'')
      else if after_days \<le> 0 \<or> \<not> backup_enabled cfg then Inr ([], t, h)
      else if locked then Inr ([], make_parents [''maintenance'', ''retention.lock''] t, h)
      else Inr (prune_dates tk cfg hub io kind fails (today - of_int after_days * DAY) (sort (confirmed_dates tk cfg t))
        (make_parents [''maintenance'', ''retention.lock''] t) h))"

end
