(* ===== verification/Retention_Safety.thy ===== *)
theory Retention_Safety
  imports Retention
begin

section \<open>What pruning may delete, and that it can be resumed\<close>

text \<open>
  Safety: a file that disappears is a file of the date and kind, and the repository holds its content at the revision that
  was verified. Liveness: whatever point a run is interrupted at, a later run deletes what is left.
\<close>

subsection \<open>The receipt\<close>

lemma index_artifacts_Inr:
  assumes "index_artifacts t known vs = Inr d"
    and "distinct (map fst known)" and "\<forall>(n, a) \<in> set known. row_get a ''path'' = PStr n \<and> safe_path t n = Inr (split_path n)"
  shows "distinct (map fst d) \<and> (\<forall>(n, a) \<in> set d. row_get a ''path'' = PStr n \<and> safe_path t n = Inr (split_path n))"
  using assms
proof (induction t known vs rule: index_artifacts.induct)
  case (2 t known a vs)
  from "2.prems"(1) obtain name p good where s: "text_item a ''path'' = Inr name" "safe_path t name = Inr p" "good_artifact a = Inr good"
      "good" "name \<notin> set (map fst known)" "index_artifacts t (known @ [(name, a)]) vs = Inr d"
    by (auto simp: bind_result_iff split: if_splits)
  have "row_get a ''path'' = PStr name" "safe_path t name = Inr (split_path name)"
    using text_item_Inr [OF s(1)] safe_path_Inr [OF s(2)] s(2) by simp_all
  with s(5) "2.prems"(2,3) have "distinct (map fst (known @ [(name, a)]))"
      "\<forall>(n, a) \<in> set (known @ [(name, a)]). row_get a ''path'' = PStr n \<and> safe_path t n = Inr (split_path n)" by auto
  from "2.IH" [where xaa = good, OF _ s(6) this] s(4,5) show ?case by simp
qed auto

lemma plan_prune_Inr:
  assumes "plan_prune tk cfg kind date t actual = Inr pl"
  obtains indexed where "receipt_artifacts t (pl_receipt pl) = Inr indexed" and "expected_files kind date indexed = Inr (pl_expected pl)"
    and "set (map fst actual) \<subseteq> set (map fst (pl_expected pl))" and "pl_actual pl = actual"
    and "pl_candidates pl = plan_candidates actual (pl_expected pl)"
  using assms by (auto simp: plan_prune_def bind_result_iff refuse_Inr)

lemma receipt_artifacts_Inr:
  assumes "receipt_artifacts t receipt = Inr d"
  shows "distinct (map fst d)" and "\<And>n a. (n, a) \<in> set d \<Longrightarrow> row_get a ''path'' = PStr n \<and> safe_path t n = Inr (split_path n)"
proof -
  from assms obtain v vs where "index_artifacts t [] (v # vs) = Inr d"
    by (auto simp: receipt_artifacts_def split: pyval.splits list.splits)
  from index_artifacts_Inr [OF this] show "distinct (map fst d)"
    and "\<And>n a. (n, a) \<in> set d \<Longrightarrow> row_get a ''path'' = PStr n \<and> safe_path t n = Inr (split_path n)" by auto
qed

lemma expected_files_Inr:
  assumes "expected_files kind date indexed = Inr d"
  shows "d = [x \<leftarrow> indexed. row_get (snd x) ''kind'' = PStr kind]" and "\<And>n a. (n, a) \<in> set d \<Longrightarrow> artifact_place kind date n"
proof -
  from assms show d: "d = [x \<leftarrow> indexed. row_get (snd x) ''kind'' = PStr kind]"
    by (auto simp: expected_files_def Let_def bind_result_iff)
  from assms show "\<And>n a. (n, a) \<in> set d \<Longrightarrow> artifact_place kind date n"
    by (auto simp: expected_files_def Let_def bind_result_iff refuse_Inr list_all_iff)
qed

lemma plan_expected:
  assumes "plan_prune tk cfg kind date t actual = Inr pl"
  shows "distinct (map fst (pl_expected pl))"
    and "\<And>n a. (n, a) \<in> set (pl_expected pl) \<Longrightarrow> row_get a ''path'' = PStr n \<and> safe_path t n = Inr (split_path n) \<and> artifact_place kind date n"
proof -
  from plan_prune_Inr [OF assms] obtain indexed where i: "receipt_artifacts t (pl_receipt pl) = Inr indexed"
      "expected_files kind date indexed = Inr (pl_expected pl)" by blast
  note r = receipt_artifacts_Inr [OF i(1)] and e = expected_files_Inr [OF i(2)]
  show "distinct (map fst (pl_expected pl))" using r(1) unfolding e(1) by (simp add: distinct_map_filter)
  show "row_get a ''path'' = PStr n \<and> safe_path t n = Inr (split_path n) \<and> artifact_place kind date n" if "(n, a) \<in> set (pl_expected pl)" for n a
    using r(2) [of n a] e(2) [of n a] that by (auto simp: e(1))
qed

lemma plan_candidates_members:
  assumes "distinct (map fst expected)"
  shows "set (plan_candidates actual expected) = {a. \<exists>n. n \<in> set (map fst actual) \<and> (n, a) \<in> set expected}"
  using assms by (auto simp: plan_candidates_def split: option.splits dest: map_of_SomeD) 

lemma candidate_expected:
  assumes "plan_prune tk cfg kind date t actual = Inr pl" and "a \<in> set (pl_candidates pl)"
  obtains n where "(n, a) \<in> set (pl_expected pl)" and "row_get a ''path'' = PStr n" and "artifact_place kind date n"
    and "n \<in> set (map fst actual)" and "artifact_name a = n"
proof -
  from plan_prune_Inr [OF assms(1)] have "pl_candidates pl = plan_candidates actual (pl_expected pl)" by blast
  with assms(2) plan_candidates_members [OF plan_expected(1) [OF assms(1)]] obtain n where
    n: "n \<in> set (map fst actual)" "(n, a) \<in> set (pl_expected pl)" by auto
  with plan_expected(2) [OF assms(1) n(2)] that [of n] show thesis by (simp add: artifact_name_def str_or_empty_def)
qed

lemma artifact_place_path:
  assumes "artifact_place kind date n" and "safe_parts n"
  obtains feed name where "split_path n = partition_dir kind feed date @ [name]"
proof -
  have "path_parts n = split_path n"
    using assms(2) unfolding path_parts_def safe_parts_def by (simp add: filter_id_conv list_all_iff)
  with assms(1) obtain f m where "split_path n = [kind, f, ''date='' @ date, m]" "f \<in> set (map feed_name FEED_NAMES)"
    by (auto simp: artifact_place_def split: list.splits)
  then obtain feed where "split_path n = [kind, feed_name feed, ''date='' @ date, m]" by auto
  with that [of feed m] show thesis by (simp add: partition_dir_def)
qed

subsection \<open>The trees of a run\<close>

lemma unlink_regular: "regular_at (unlink n t) q = (if q = split_path n then None else regular_at t q)"
  by (simp add: unlink_def regular_at_def delete_conv')

lemma unlink_steps_regular:
  "u \<in> set (unlink_steps ns t) \<Longrightarrow> regular_at u q = regular_at t q \<or> (regular_at u q = None \<and> q \<in> split_path ` set ns)"
proof (induction ns arbitrary: t)
  case (Cons n ns)
  then consider "u = unlink n t" | "u \<in> set (unlink_steps ns (unlink n t))" by auto
  then show ?case
  proof cases
    case 1
    then show ?thesis by (auto simp: unlink_regular)
  next
    case 2
    from Cons.IH [OF this] show ?thesis by (auto simp: unlink_regular)
  qed
qed simp

lemma write_intent_regular:
  assumes "u \<in> set (write_intent tk io kind date intent t)" and "regular_at u q = None"
  shows "regular_at t q = None"
proof (cases "q = prune_state_path kind date \<or> q = prune_history_path")
  case False
  with assms show ?thesis by (auto simp: write_intent_def Let_def write_json_def append_line_def write_file_regular)
next
  case True
  have "prune_state_path kind date \<noteq> prune_history_path" by (simp add: prune_state_path_def prune_history_path_def)
  with True assms show ?thesis by (auto simp: write_intent_def Let_def write_json_def append_line_def write_file_regular)
qed

lemma last_of: "xs \<noteq> [] \<Longrightarrow> last xs \<in> set xs"
  by simp

lemma execute_prune_regular:
  assumes "execute_prune tk io kind date fails pl revision t = (r, ts)" and "u \<in> set ts" and "regular_at u q = None"
  shows "regular_at t q = None \<or> q \<in> split_path ` artifact_name ` set (pl_candidates pl)"
proof -
  define todo where "todo = (case fails of None \<Rightarrow> pl_candidates pl | Some n \<Rightarrow> take n (pl_candidates pl))"
  define opn where "opn = write_intent tk io kind date (intent_row tk (bo_now io) kind date pl revision ''validated'' [] 0) t"
  define deletions where "deletions = unlink_steps (map artifact_name todo) (last opn)"
  obtain intent where ts: "ts = opn @ deletions @ write_intent tk io kind date intent (last (opn @ deletions))"
    using assms(1) by (auto simp: execute_prune_def Let_def opn_def deletions_def todo_def)
  have todo: "set todo \<subseteq> set (pl_candidates pl)" by (auto simp: todo_def split: option.splits dest: in_set_takeD)
  have "opn \<noteq> []" by (simp add: opn_def write_intent_def Let_def)
  have 1: "regular_at t q = None" if "v \<in> set opn" "regular_at v q = None" for v
    using that unfolding opn_def by (rule write_intent_regular)
  have 2: "regular_at t q = None \<or> q \<in> split_path ` artifact_name ` set (pl_candidates pl)"
    if "v \<in> set deletions" "regular_at v q = None" for v
    using unlink_steps_regular [OF that(1) [unfolded deletions_def], of q] 1 [of "last opn"] that(2) todo \<open>opn \<noteq> []\<close> by auto
  have "last (opn @ deletions) \<in> set (opn @ deletions)" using \<open>opn \<noteq> []\<close> by (intro last_of) simp
  with 1 2 have closing: "regular_at t q = None \<or> q \<in> split_path ` artifact_name ` set (pl_candidates pl)"
    if "regular_at (last (opn @ deletions)) q = None" using that unfolding set_append by blast
  from assms(2) ts consider "u \<in> set opn" | "u \<in> set deletions"
    | "u \<in> set (write_intent tk io kind date intent (last (opn @ deletions)))" by auto
  then show ?thesis
  proof cases
    case 3
    from closing [OF write_intent_regular [OF this assms(3)]] show ?thesis .
  qed (use 1 2 assms(3) in blast)+
qed

subsection \<open>Only verified files are deleted\<close>

lemma authorise_Inr:
  assumes "authorise tk cfg hub io kind date t h = (Inr (Some (pl, revision)), h')"
  obtains h1 h2 where "inventory t kind date = Inr (pl_actual pl)" and "pl_actual pl \<noteq> []"
    and "plan_prune tk cfg kind date t (pl_actual pl) = Inr pl" and "verify_plan tk hub date pl h1 = (Inr revision, h2)"
    and "recheck tk (bo_later io t) kind date pl = Inr ()"
proof -
  from assms obtain actual pl' h2 where a: "inventory t kind date = Inr actual" "actual \<noteq> []"
      "plan_prune tk cfg kind date t actual = Inr pl'" "verify_plan tk hub date pl' h = (Inr revision, h2)"
      "recheck tk (bo_later io t) kind date pl' = Inr ()" "pl' = pl"
    by (auto simp: authorise_def and_then_Inr lift_Inr split: if_splits)
  from plan_prune_Inr [OF a(3)] have "pl_actual pl' = actual" by blast
  with a that show thesis by blast
qed

lemma verify_plan_matches:
  assumes "hub_truthful tk hub store" and "verify_plan tk hub date pl h = (Inr revision, h')"
    and "distinct (map fst (pl_expected pl))" and "\<And>n a. (n, a) \<in> set (pl_expected pl) \<Longrightarrow> row_get a ''path'' = PStr n"
    and "(n, a) \<in> set (pl_expected pl)"
  shows "matches_remote tk store revision a"
proof -
  from assms(2) obtain h1 h2 where v: "verify_remote tk hub (map snd (pl_expected pl)) (Some revision) h1 = (Inr (), h2)"
    by (auto simp: verify_plan_def and_then_Inr lift_Inr)
  have "map (\<lambda>a. row_get a ''path'') (map snd (pl_expected pl)) = map (\<lambda>x. PStr (fst x)) (pl_expected pl)"
    using assms(4) by auto
  then have "distinct (map (\<lambda>a. row_get a ''path'') (map snd (pl_expected pl)))"
    using assms(3) by (simp add: distinct_map inj_on_def)
  with verify_remote_matches [OF assms(1) v] assms(5) show ?thesis by force
qed

subsection \<open>A steady repository\<close>

text \<open>Calls whose answers do not depend on when they are made.\<close>

definition steady :: "('h, 'a) call \<Rightarrow> bool" where
  "steady m \<longleftrightarrow> (\<forall>h h'. fst (m h) = fst (m h'))"

definition hub_steady :: "'h hub \<Rightarrow> bool" where
  "hub_steady hub \<longleftrightarrow> (\<forall>rv ps. steady (hub_infos hub rv ps)) \<and> (\<forall>rv p. steady (hub_download hub rv p)) \<and> steady (hub_head hub)"

lemma steady_lift [simp]: "steady (lift r)"
  by (simp add: steady_def lift_def)

lemma fst_and_then: "fst (and_then m f h) = (case fst (m h) of Inl e \<Rightarrow> Inl e | Inr x \<Rightarrow> fst (f x (snd (m h))))"
  by (simp add: and_then_def split: prod.split sum.split)

lemma steady_and_then: "steady m \<Longrightarrow> (\<And>x. steady (f x)) \<Longrightarrow> steady (and_then m f)"
  unfolding steady_def fst_and_then by (metis (no_types, lifting) sum.case_cong)

lemma steady_each: "(\<And>x. steady (f x)) \<Longrightarrow> steady (each_call f xs)"
  by (induction xs) (simp_all add: steady_and_then)

lemma steady_infos: "hub_steady hub \<Longrightarrow> steady (all_infos hub rv pss)"
  by (induction pss) (simp_all add: steady_and_then hub_steady_def)

lemma steady_download: "hub_steady hub \<Longrightarrow> steady (download_sha256 tk hub rv p)"
proof -
  assume "hub_steady hub"
  then have d: "steady (hub_download hub rv p)" by (simp add: hub_steady_def)
  have "fst (download_sha256 tk hub rv p h) = (case fst (hub_download hub rv p h) of Inr bs \<Rightarrow> Inr (tl_sha tk bs)
      | Inl e \<Rightarrow> Inl \<lparr>ex_class = ''OSError'', ex_text = ''remote download failed: '' @ ex_class e\<rparr>)" for h
    by (simp add: download_sha256_def split: prod.split sum.split)
  with d show ?thesis unfolding steady_def by metis
qed

lemma steady_verify_artifact: "hub_steady hub \<Longrightarrow> steady (verify_artifact tk hub rv infos pa)"
  by (simp add: verify_artifact_def steady_and_then steady_download split: option.split)

lemma steady_verify_remote: "hub_steady hub \<Longrightarrow> steady (verify_remote tk hub as rv)"
  unfolding verify_remote_def remote_revision_def
  by (intro steady_and_then steady_each steady_infos steady_verify_artifact steady_lift)
    (auto simp: hub_steady_def steady_and_then split: option.split)

lemma steady_verify_plan: "hub_steady hub \<Longrightarrow> steady (verify_plan tk hub date pl)"
  unfolding verify_plan_def remote_revision_def
  by (intro steady_and_then steady_verify_remote steady_lift) (auto simp: hub_steady_def)

lemma steady_again: "steady m \<Longrightarrow> m h = (Inr x, h1) \<Longrightarrow> \<exists>h2. m h' = (Inr x, h2)"
  unfolding steady_def by (metis fst_conv prod.collapse)

subsection \<open>The inventory of a tree\<close>

definition dir_of :: "string \<Rightarrow> feed \<Rightarrow> string \<Rightarrow> path" where
  "dir_of kind feed date = split_path (join_path (partition_dir kind feed date))"

definition inventory_set :: "tree \<Rightarrow> string \<Rightarrow> string \<Rightarrow> (string \<times> file_stat) set" where
  "inventory_set t kind date = {(join_path p, stat_of f) |p f feed. p \<in> set (children t (dir_of kind feed date)) \<and> regular_at t p = Some f}"

definition inventory_good :: "tree \<Rightarrow> string \<Rightarrow> string \<Rightarrow> bool" where
  "inventory_good t kind date \<longleftrightarrow> (\<forall>feed. safe_path t (join_path (partition_dir kind feed date)) = Inr (dir_of kind feed date) \<and>
     safe_path t (join_path (partition_dir ''spool'' feed date)) = Inr (dir_of ''spool'' feed date) \<and>
     (\<forall>f. map_of t (dir_of ''spool'' feed date) \<noteq> Some (Regular f)) \<and> set (children t (dir_of ''spool'' feed date)) = {} \<and>
     (\<forall>f. map_of t (dir_of kind feed date) \<noteq> Some (Regular f)) \<and>
     (\<forall>p \<in> set (children t (dir_of kind feed date)). regular_at t p \<noteq> None \<and> (kind = ''parquet'' \<longrightarrow> parquet_name (last p))))"

lemma entries_Inr: "entries t d = Inr ps \<longleftrightarrow> (\<forall>f. map_of t d \<noteq> Some (Regular f)) \<and> ps = children t d"
  by (auto simp: entries_def split: option.splits node.splits)

lemma inventory_entry_Inr:
  "inventory_entry t kind p = Inr x \<longleftrightarrow> (\<exists>f. regular_at t p = Some f \<and> (kind = ''parquet'' \<longrightarrow> parquet_name (last p)) \<and> x = (join_path p, stat_of f))"
  by (auto simp: inventory_entry_def split: option.splits)

lemma map_result_exists: "(\<exists>ys. map_result f xs = Inr ys) \<longleftrightarrow> (\<forall>x \<in> set xs. \<exists>y. f x = Inr y)"
  by (induction xs) (auto simp: bind_result_iff map_sum_Inr)

lemma map_result_set: "map_result f xs = Inr ys \<Longrightarrow> set ys = {y. \<exists>x \<in> set xs. f x = Inr y}"
  by (induction xs arbitrary: ys) (auto simp: bind_result_iff map_sum_Inr)

lemma feed_inventory_Inr:
  "feed_inventory t kind date feed = Inr xs \<longleftrightarrow>
     safe_path t (join_path (partition_dir kind feed date)) = Inr (dir_of kind feed date) \<and>
     safe_path t (join_path (partition_dir ''spool'' feed date)) = Inr (dir_of ''spool'' feed date) \<and>
     (\<forall>f. map_of t (dir_of ''spool'' feed date) \<noteq> Some (Regular f)) \<and> children t (dir_of ''spool'' feed date) = [] \<and>
     (\<forall>f. map_of t (dir_of kind feed date) \<noteq> Some (Regular f)) \<and>
     map_result (inventory_entry t kind) (children t (dir_of kind feed date)) = Inr xs"
  by (auto simp: feed_inventory_def bind_result_iff entries_Inr dir_of_def dest: safe_path_Inr split: if_splits)

lemma inventory_exists: "(\<exists>xs. inventory t kind date = Inr xs) \<longleftrightarrow> inventory_good t kind date"
proof -
  have "(\<exists>xs. inventory t kind date = Inr xs) \<longleftrightarrow> (\<forall>feed. \<exists>xs. feed_inventory t kind date feed = Inr xs)"
    unfolding inventory_def map_sum_Inr using map_result_exists [of "feed_inventory t kind date" FEED_NAMES] by auto
  also have "\<dots> \<longleftrightarrow> inventory_good t kind date"
  proof -
    have entry: "(\<exists>xs. map_result (inventory_entry t kind) ps = Inr xs) \<longleftrightarrow>
        (\<forall>p \<in> set ps. regular_at t p \<noteq> None \<and> (kind = ''parquet'' \<longrightarrow> parquet_name (last p)))" for ps
      unfolding map_result_exists inventory_entry_Inr by (metis not_None_eq)
    show ?thesis unfolding inventory_good_def feed_inventory_Inr set_empty using entry by blast
  qed
  finally show ?thesis .
qed

lemma inventory_set_Inr: "inventory t kind date = Inr xs \<Longrightarrow> set xs = inventory_set t kind date"
proof -
  assume "inventory t kind date = Inr xs"
  then obtain xss where xss: "map_result (feed_inventory t kind date) FEED_NAMES = Inr xss" "xs = concat xss"
    by (auto simp: inventory_def map_sum_Inr)
  define S where "S feed = {(join_path p, stat_of f) |p f. p \<in> set (children t (dir_of kind feed date)) \<and> regular_at t p = Some f}" for feed
  have part: "set ys = S feed" if "feed_inventory t kind date feed = Inr ys" for feed ys
  proof -
    from that have m: "map_result (inventory_entry t kind) (children t (dir_of kind feed date)) = Inr ys"
      unfolding feed_inventory_Inr by blast
    then have parquet: "kind = ''parquet'' \<longrightarrow> parquet_name (last p)" if "p \<in> set (children t (dir_of kind feed date))" for p
      using that map_result_exists [of "inventory_entry t kind" "children t (dir_of kind feed date)"] unfolding inventory_entry_Inr by blast
    show ?thesis unfolding map_result_set [OF m] inventory_entry_Inr S_def using parquet by blast
  qed
  have all: "\<exists>ys. feed_inventory t kind date feed = Inr ys" for feed
    using map_result_exists [of "feed_inventory t kind date" FEED_NAMES] xss(1) by auto
  have "set xs = (\<Union>ys \<in> set xss. set ys)" by (simp add: xss(2))
  also have "\<dots> = (\<Union>feed. S feed)"
  proof (intro set_eqI iffI)
    fix x assume "x \<in> (\<Union>ys \<in> set xss. set ys)"
    then show "x \<in> (\<Union>feed. S feed)" unfolding map_result_set [OF xss(1)] using part by auto
  next
    fix x assume "x \<in> (\<Union>feed. S feed)"
    then obtain feed where x: "x \<in> S feed" by blast
    obtain ys where ys: "feed_inventory t kind date feed = Inr ys" using all by blast
    then have "ys \<in> set xss" unfolding map_result_set [OF xss(1)] using set_FEED_NAMES by blast
    with x part [OF ys] show "x \<in> (\<Union>ys \<in> set xss. set ys)" by blast
  qed
  also have "\<dots> = inventory_set t kind date" by (auto simp: S_def inventory_set_def)
  finally show ?thesis .
qed

subsection \<open>The tree of an interrupted run\<close>

text \<open>Some files of the date are gone, the run's own files are written, nothing else has changed.\<close>

definition own_paths :: "string \<Rightarrow> string \<Rightarrow> path set" where
  "own_paths kind date = {[''maintenance''], prune_state_path kind date, prune_history_path}"

definition later_tree :: "string \<Rightarrow> string \<Rightarrow> path set \<Rightarrow> tree \<Rightarrow> tree \<Rightarrow> bool" where
  "later_tree kind date gone t u \<longleftrightarrow>
     (\<forall>p. p \<notin> own_paths kind date \<longrightarrow> map_of u p = (if p \<in> gone then None else map_of t p)) \<and>
     (\<forall>p. map_of u p = Some Symlink \<longrightarrow> map_of t p = Some Symlink)"

lemma later_same: "later_tree kind date gone t u \<Longrightarrow> p \<notin> own_paths kind date \<Longrightarrow> p \<notin> gone \<Longrightarrow> map_of u p = map_of t p"
  by (simp add: later_tree_def)

lemma later_regular: "later_tree kind date gone t u \<Longrightarrow> p \<notin> own_paths kind date \<Longrightarrow> p \<notin> gone \<Longrightarrow> regular_at u p = regular_at t p"
  using later_same by (simp add: regular_at_def)

lemma later_write:
  assumes "later_tree kind date gone t u" and "p \<in> {prune_state_path kind date, prune_history_path}"
  shows "later_tree kind date gone t (write_file st p bs u)"
proof -
  have parents: "set (prefixes_of (butlast p)) \<subseteq> {[''maintenance'']}"
    using assms(2) by (auto simp: prune_state_path_def prune_history_path_def prefixes_of_def)
  have "map_of (write_file st p bs u) q = map_of u q" if "q \<notin> own_paths kind date" for q
    using make_parents_new [of p u q] that parents assms(2) by (auto simp: own_paths_def write_file_def update_conv')
  moreover have "map_of u q = Some Symlink" if "map_of (write_file st p bs u) q = Some Symlink" for q
    using make_parents_new [of p u q] that by (cases "q = p") (auto simp: write_file_def update_conv' file_of_def)
  ultimately show ?thesis using assms(1) unfolding later_tree_def by metis
qed

lemma later_intent:
  assumes "later_tree kind date gone t u" and "v \<in> set (write_intent tk io kind date intent u)"
  shows "later_tree kind date gone t v \<and>
    regular_at v (prune_state_path kind date) = Some \<lparr>fo_bytes = tl_dump tk (PDict intent), fo_mtime = fst (bo_stamp io), fo_id = snd (bo_stamp io)\<rparr>"
proof -
  have "prune_state_path kind date \<noteq> prune_history_path" by (simp add: prune_state_path_def prune_history_path_def)
  moreover have "later_tree kind date gone t (write_json tk (bo_stamp io) (prune_state_path kind date) intent u)"
    unfolding write_json_def by (rule later_write [OF assms(1)]) simp
  moreover have "later_tree kind date gone t (append_line tk (bo_stamp io) prune_history_path intent
      (write_json tk (bo_stamp io) (prune_state_path kind date) intent u))"
    unfolding append_line_def by (rule later_write [OF calculation(2)]) simp
  ultimately show ?thesis using assms(2)
    by (auto simp: write_intent_def Let_def write_json_def append_line_def write_file_regular)
qed

lemma later_unlink: "later_tree kind date gone t u \<Longrightarrow> later_tree kind date (insert (split_path n) gone) t (unlink n u)"
  by (auto simp: later_tree_def unlink_def delete_conv' split: if_splits)

lemma later_unlinks:
  assumes "later_tree kind date gone t u" and "prune_state_path kind date \<notin> split_path ` set ns"
  shows "(\<forall>v \<in> set (unlink_steps ns u). \<exists>g. gone \<subseteq> g \<and> g \<subseteq> gone \<union> split_path ` set ns \<and> later_tree kind date g t v \<and>
      regular_at v (prune_state_path kind date) = regular_at u (prune_state_path kind date)) \<and>
    later_tree kind date (gone \<union> split_path ` set ns) t (last (u # unlink_steps ns u)) \<and>
    regular_at (last (u # unlink_steps ns u)) (prune_state_path kind date) = regular_at u (prune_state_path kind date)"
  using assms
proof (induction ns arbitrary: gone u)
  case (Cons n ns)
  note u = later_unlink [OF Cons.prems(1), of n]
  have n: "regular_at (unlink n u) (prune_state_path kind date) = regular_at u (prune_state_path kind date)"
    using Cons.prems(2) by (simp add: unlink_regular)
  note IH = Cons.IH [OF u]
  have "\<exists>g. gone \<subseteq> g \<and> g \<subseteq> gone \<union> split_path ` set (n # ns) \<and> later_tree kind date g t v \<and>
      regular_at v (prune_state_path kind date) = regular_at u (prune_state_path kind date)"
    if "v \<in> set (unlink_steps (n # ns) u)" for v
  proof (cases "v = unlink n u")
    case True
    with u n show ?thesis by (intro exI [of _ "insert (split_path n) gone"]) auto
  next
    case False
    with that IH Cons.prems(2) obtain g where "insert (split_path n) gone \<subseteq> g" "g \<subseteq> insert (split_path n) gone \<union> split_path ` set ns"
        "later_tree kind date g t v" "regular_at v (prune_state_path kind date) = regular_at (unlink n u) (prune_state_path kind date)"
      by auto
    with n show ?thesis by (intro exI [of _ g]) auto
  qed
  with IH n Cons.prems(2) show ?case by (auto simp: insert_is_Un [symmetric])
qed simp

lemma later_refl: "later_tree kind date {} t t"
  by (simp add: later_tree_def)

definition intent_stored :: "tools \<Rightarrow> backup_io \<Rightarrow> string \<Rightarrow> string \<Rightarrow> prune_plan \<Rightarrow> string \<Rightarrow> tree \<Rightarrow> bool" where
  "intent_stored tk io kind date pl revision u \<longleftrightarrow> (\<exists>f status names bytes. regular_at u (prune_state_path kind date) = Some f \<and>
     fo_bytes f = tl_dump tk (PDict (intent_row tk (bo_now io) kind date pl revision status names bytes)))"

lemma execute_prune_trace:
  assumes "execute_prune tk io kind date fails pl revision t = (r, ts)"
    and "prune_state_path kind date \<notin> split_path ` artifact_name ` set (pl_candidates pl)"
  shows "u \<in> set ts \<Longrightarrow> \<exists>g. g \<subseteq> split_path ` artifact_name ` set (pl_candidates pl) \<and> later_tree kind date g t u \<and>
      intent_stored tk io kind date pl revision u"
    and "fails = None \<Longrightarrow> r = Inr (map artifact_name (pl_candidates pl)) \<and>
      later_tree kind date (split_path ` artifact_name ` set (pl_candidates pl)) t (last ts)"
proof -
  define todo where "todo = (case fails of None \<Rightarrow> pl_candidates pl | Some n \<Rightarrow> take n (pl_candidates pl))"
  define opn where "opn = write_intent tk io kind date (intent_row tk (bo_now io) kind date pl revision ''validated'' [] 0) t"
  define dels where "dels = unlink_steps (map artifact_name todo) (last opn)"
  obtain status names bytes where ts: "ts = opn @ dels @ write_intent tk io kind date
      (intent_row tk (bo_now io) kind date pl revision status names bytes) (last (opn @ dels))"
      and r: "fails = None \<Longrightarrow> r = Inr (map artifact_name (pl_candidates pl))"
    using assms(1) by (auto simp: execute_prune_def Let_def opn_def dels_def todo_def)
  have todo: "set todo \<subseteq> set (pl_candidates pl)" by (auto simp: todo_def split: option.splits dest: in_set_takeD)
  have opn: "opn \<noteq> []" "\<And>v. v \<in> set opn \<Longrightarrow> later_tree kind date {} t v \<and> intent_stored tk io kind date pl revision v"
  proof -
    show "opn \<noteq> []" by (simp add: opn_def write_intent_def Let_def)
    fix v assume "v \<in> set opn"
    from later_intent [OF later_refl this [unfolded opn_def]]
    show "later_tree kind date {} t v \<and> intent_stored tk io kind date pl revision v" by (auto simp: intent_stored_def)
  qed
  have last_opn: "later_tree kind date {} t (last opn)" "intent_stored tk io kind date pl revision (last opn)"
    using opn(2) last_in_set [OF opn(1)] by blast+
  have "prune_state_path kind date \<notin> split_path ` set (map artifact_name todo)" using assms(2) todo by auto
  note steps = later_unlinks [OF last_opn(1) this, folded dels_def]
  have dels: "\<exists>g. g \<subseteq> split_path ` artifact_name ` set (pl_candidates pl) \<and> later_tree kind date g t v \<and> intent_stored tk io kind date pl revision v"
    if "v \<in> set dels" for v
  proof -
    from steps that obtain g where "g \<subseteq> split_path ` set (map artifact_name todo)" "later_tree kind date g t v"
        "regular_at v (prune_state_path kind date) = regular_at (last opn) (prune_state_path kind date)" by auto
    moreover have "split_path ` set (map artifact_name todo) \<subseteq> split_path ` artifact_name ` set (pl_candidates pl)" using todo by auto
    ultimately show ?thesis using last_opn(2) unfolding intent_stored_def by (intro exI [of _ g]) auto
  qed
  have final: "last (opn @ dels) = last (last opn # dels)" using opn(1) by (cases dels) auto
  have closing: "later_tree kind date (split_path ` artifact_name ` set todo) t v \<and> intent_stored tk io kind date pl revision v"
    if "v \<in> set (write_intent tk io kind date (intent_row tk (bo_now io) kind date pl revision status names bytes) (last (opn @ dels)))" for v
  proof -
    from steps final have "later_tree kind date (split_path ` artifact_name ` set todo) t (last (opn @ dels))" by (simp add: image_image)
    from later_intent [OF this that] show ?thesis by (auto simp: intent_stored_def)
  qed
  show "\<exists>g. g \<subseteq> split_path ` artifact_name ` set (pl_candidates pl) \<and> later_tree kind date g t u \<and> intent_stored tk io kind date pl revision u"
    if "u \<in> set ts"
  proof -
    from that ts consider "u \<in> set opn" | "u \<in> set dels"
      | "u \<in> set (write_intent tk io kind date (intent_row tk (bo_now io) kind date pl revision status names bytes) (last (opn @ dels)))" by auto
    then show ?thesis
    proof cases
      case 1
      with opn(2) show ?thesis by blast
    next
      case 2
      then show ?thesis by (rule dels)
    next
      case 3
      from closing [OF this] todo show ?thesis by (intro exI [of _ "split_path ` artifact_name ` set todo"]) auto
    qed
  qed
  assume none: "fails = None"
  have "last ts \<in> set (write_intent tk io kind date (intent_row tk (bo_now io) kind date pl revision status names bytes) (last (opn @ dels)))"
    by (simp add: ts write_intent_def Let_def)
  from closing [OF this] r [OF none] show "r = Inr (map artifact_name (pl_candidates pl)) \<and>
      later_tree kind date (split_path ` artifact_name ` set (pl_candidates pl)) t (last ts)"
    by (simp add: todo_def none)
qed

subsection \<open>The checks again, on the tree of an interrupted run\<close>

definition untouched :: "string \<Rightarrow> path \<Rightarrow> bool" where
  "untouched kind p \<longleftrightarrow> hd p \<notin> {kind, ''maintenance'', ''prune_history.jsonl''}"

text \<open>The files that go are files of the date, and the kinds do not clash with the run's own paths.\<close>

definition run_of :: "string \<Rightarrow> string \<Rightarrow> path set \<Rightarrow> tree \<Rightarrow> tree \<Rightarrow> bool" where
  "run_of kind date gone t u \<longleftrightarrow> later_tree kind date gone t u \<and> (\<forall>p \<in> gone. \<exists>feed n. p = partition_dir kind feed date @ [n]) \<and>
     kind \<in> {''raw'', ''parquet''}"

lemma run_regular:
  assumes "run_of kind date gone t u" and "untouched kind p"
  shows "regular_at u p = regular_at t p"
proof -
  have "p \<notin> gone" using assms by (auto simp: run_of_def untouched_def partition_dir_def)
  moreover have "p \<notin> own_paths kind date" using assms(2) by (auto simp: own_paths_def untouched_def prune_state_path_def prune_history_path_def)
  ultimately show ?thesis using later_regular assms(1) unfolding run_of_def by blast
qed

lemma run_safe_path: "run_of kind date gone t u \<Longrightarrow> safe_path t s = Inr p \<Longrightarrow> safe_path u s = Inr p"
  by (auto simp: safe_path_def run_of_def later_tree_def list_ex_iff split: if_splits)

lemma run_read_json: "run_of kind date gone t u \<Longrightarrow> untouched kind p \<Longrightarrow> read_json tk u p d = read_json tk t p d"
  by (simp add: read_json_def run_regular)

lemma run_index_artifacts: "run_of kind date gone t u \<Longrightarrow> index_artifacts t known vs = Inr d \<Longrightarrow> index_artifacts u known vs = Inr d"
proof (induction t known vs rule: index_artifacts.induct)
  case (2 t known a vs)
  from "2.prems"(2) obtain name p good where s: "text_item a ''path'' = Inr name" "safe_path t name = Inr p" "good_artifact a = Inr good"
      "good" "name \<notin> set (map fst known)" "index_artifacts t (known @ [(name, a)]) vs = Inr d"
    by (auto simp: bind_result_iff split: if_splits)
  from "2.IH" [where xaa = good, OF _ "2.prems"(1) s(6)] s(4,5) have "index_artifacts u (known @ [(name, a)]) vs = Inr d" by simp
  with s run_safe_path [OF "2.prems"(1) s(2)] show ?case by simp
qed auto

lemma validate_artifact_same:
  assumes "run_of kind date gone t u" and "validate_artifact tk t v a = Inr ()" and "row_get a ''path'' = PStr s"
    and "regular_at u (split_path s) = regular_at t (split_path s)"
  shows "validate_artifact tk u v a = Inr ()"
proof -
  from assms(2) obtain s' where "text_item a ''path'' = Inr s'" by (auto simp: validate_artifact_def bind_result_iff)
  with text_item_Inr [OF this] assms(3) have s: "text_item a ''path'' = Inr s" by simp
  with assms(2) obtain p where p: "safe_path t s = Inr p" by (auto simp: validate_artifact_def bind_result_iff split: if_splits)
  with safe_path_Inr [OF p] s assms(2,4) run_safe_path [OF assms(1) p] show ?thesis
    by (auto simp: validate_artifact_def split: if_splits)
qed

lemma hd_split_join: "CHR ''/'' \<notin> set x \<Longrightarrow> hd (split_path (x @ CHR ''/'' # y)) = x"
proof (induction x)
  case (Cons c x)
  then show ?case using split_path_nonempty [of "x @ CHR ''/'' # y"] by (cases "split_path (x @ CHR ''/'' # y)") auto
qed simp

lemma untouched_metadata:
  assumes "kind \<in> {''raw'', ''parquet''}"
  shows "untouched kind (split_path (join_path (receipt_path date)))" and "untouched kind (split_path (join_path (manifest_path date)))"
    and "untouched kind (receipt_path date)" and "untouched kind (manifest_path date)"
proof -
  have paths: "join_path (receipt_path date) = ''backup_receipts'' @ CHR ''/'' # ''date='' @ date @ ''.json''"
    "join_path (manifest_path date) = ''metadata'' @ CHR ''/'' # ''manifests/date='' @ date @ ''.json''"
    by (simp_all add: receipt_path_def receipts_dir_def manifest_path_def)
  have "hd (split_path (join_path (receipt_path date))) = ''backup_receipts''" unfolding paths(1) by (rule hd_split_join) simp
  moreover have "hd (split_path (join_path (manifest_path date))) = ''metadata''" unfolding paths(2) by (rule hd_split_join) simp
  ultimately show "untouched kind (split_path (join_path (receipt_path date)))" "untouched kind (split_path (join_path (manifest_path date)))"
    "untouched kind (receipt_path date)" "untouched kind (manifest_path date)"
    using assms by (auto simp: untouched_def receipt_path_def receipts_dir_def manifest_path_def)
qed

lemma run_prune_receipt:
  assumes "run_of kind date gone t u" and "prune_receipt tk cfg t date = Inr r"
  shows "prune_receipt tk cfg u date = Inr r"
proof -
  have kind: "kind \<in> {''raw'', ''parquet''}" using assms(1) by (simp add: run_of_def)
  from assms(2) obtain p where p: "safe_path t (join_path (receipt_path date)) = Inr p" by (auto simp: prune_receipt_def bind_result_iff)
  with safe_path_Inr [OF p] have "untouched kind p" using untouched_metadata(1) [OF kind] by simp
  from run_read_json [OF assms(1) this] run_safe_path [OF assms(1) p] p assms(2) show ?thesis by (simp add: prune_receipt_def)
qed

lemma run_authenticate:
  assumes "run_of kind date gone t u" and "authenticate_manifest tk t date receipt indexed = Inr ()"
    and "\<And>n a. (n, a) \<in> set indexed \<Longrightarrow> row_get a ''path'' = PStr n"
  shows "authenticate_manifest tk u date receipt indexed = Inr ()"
proof -
  have kind: "kind \<in> {''raw'', ''parquet''}" using assms(1) by (simp add: run_of_def)
  from assms(2) obtain a where a: "map_of indexed (join_path (manifest_path date)) = Some a"
    by (auto simp: authenticate_manifest_def split: option.splits)
  with assms(2) have v: "validate_artifact tk t True a = Inr ()" by (auto simp: authenticate_manifest_def bind_result_iff)
  have "row_get a ''path'' = PStr (join_path (manifest_path date))" using a assms(3) by (auto dest: map_of_SomeD)
  from validate_artifact_same [OF assms(1) v this] run_regular [OF assms(1) untouched_metadata(2) [OF kind]]
  have "validate_artifact tk u True a = Inr ()" by simp
  with a v assms(2) run_read_json [OF assms(1) untouched_metadata(4) [OF kind]] show ?thesis
    by (simp add: authenticate_manifest_def)
qed

definition plain_paths :: "tree \<Rightarrow> bool" where
  "plain_paths t \<longleftrightarrow> list_all (\<lambda>x. list_all (\<lambda>s. CHR ''/'' \<notin> set s) (fst x)) t"

lemma plain_path: "plain_paths t \<Longrightarrow> map_of t p \<noteq> None \<Longrightarrow> p \<noteq> [] \<Longrightarrow> split_path (join_path p) = p"
  by (intro split_join) (auto simp: plain_paths_def list_all_iff map_of_eq_None_iff)

lemma hd_dir_of:
  assumes "CHR ''/'' \<notin> set kind"
  shows "hd (dir_of kind feed date) = kind" and "dir_of kind feed date \<noteq> []"
proof -
  have "join_path (partition_dir kind feed date) = kind @ CHR ''/'' # feed_name feed @ CHR ''/'' # ''date='' @ date"
    by (simp add: partition_dir_def)
  then show "hd (dir_of kind feed date) = kind" using hd_split_join [OF assms] by (simp add: dir_of_def)
  show "dir_of kind feed date \<noteq> []" by (simp add: dir_of_def split_path_nonempty)
qed

lemma run_kind: "run_of kind date gone t u \<Longrightarrow> CHR ''/'' \<notin> set kind \<and> kind \<noteq> ''maintenance'' \<and> kind \<noteq> ''prune_history.jsonl'' \<and> kind \<noteq> ''spool''"
  by (auto simp: run_of_def)

lemma own_hd: "p \<in> own_paths kind date \<Longrightarrow> hd p = ''maintenance'' \<or> hd p = ''prune_history.jsonl''"
  by (auto simp: own_paths_def prune_state_path_def prune_history_path_def)

lemma gone_hd: "run_of kind date gone t u \<Longrightarrow> p \<in> gone \<Longrightarrow> hd p = kind"
proof -
  assume "run_of kind date gone t u" "p \<in> gone"
  then obtain feed n where "p = partition_dir kind feed date @ [n]" unfolding run_of_def by blast
  then show ?thesis by (simp add: partition_dir_def)
qed

lemma hd_butlast: "butlast p = d \<Longrightarrow> d \<noteq> [] \<Longrightarrow> hd p = hd d"
  by (cases p) (auto split: if_splits)

lemma run_children:
  assumes "run_of kind date gone t u" and "p \<in> set (children u (dir_of kind feed date))"
  shows "p \<in> set (children t (dir_of kind feed date))" and "p \<notin> gone" and "regular_at u p = regular_at t p"
proof -
  note kind = run_kind [OF assms(1)]
  have "hd p = kind" using assms(2) hd_butlast [of p] hd_dir_of kind by (auto simp: set_children)
  then have own: "p \<notin> own_paths kind date" using kind own_hd by metis
  from assms have "map_of u p = (if p \<in> gone then None else map_of t p)" using own by (simp add: run_of_def later_tree_def)
  with assms(2) show gone: "p \<notin> gone" and "p \<in> set (children t (dir_of kind feed date))" by (auto simp: set_children split: if_splits)
  from assms(1) own gone show "regular_at u p = regular_at t p" by (auto simp: run_of_def intro: later_regular)
qed

lemma run_inventory:
  assumes "run_of kind date gone t u" and "inventory t kind date = Inr xs"
  obtains ys where "inventory u kind date = Inr ys" and "set ys = inventory_set u kind date" and "set ys \<subseteq> set xs"
proof -
  note kind = run_kind [OF assms(1)]
  from assms(2) inventory_exists have good: "inventory_good t kind date" by blast
  have "inventory_good u kind date" unfolding inventory_good_def
  proof (intro allI conjI ballI impI)
    fix feed
    show "safe_path u (join_path (partition_dir kind feed date)) = Inr (dir_of kind feed date)"
      "safe_path u (join_path (partition_dir ''spool'' feed date)) = Inr (dir_of ''spool'' feed date)"
      using good run_safe_path [OF assms(1)] unfolding inventory_good_def by blast+
    have same: "map_of u p = map_of t p" if "hd p = ''spool''" for p
    proof -
      have "p \<notin> own_paths kind date" using that own_hd [of p kind date] by auto
      moreover have "p \<notin> gone" using that gone_hd [OF assms(1)] kind by metis
      ultimately show ?thesis using assms(1) later_same unfolding run_of_def by blast
    qed
    have hd_spool: "hd (dir_of ''spool'' feed date) = ''spool''" "dir_of ''spool'' feed date \<noteq> []" using hd_dir_of [of "''spool''"] by simp_all
    show "map_of u (dir_of ''spool'' feed date) \<noteq> Some (Regular f)" for f
      using good same [OF hd_spool(1)] unfolding inventory_good_def by simp
    show "set (children u (dir_of ''spool'' feed date)) = {}"
    proof (rule ccontr)
      assume "set (children u (dir_of ''spool'' feed date)) \<noteq> {}"
      then obtain p where "p \<in> set (children u (dir_of ''spool'' feed date))" by (metis all_not_in_conv)
      then have p: "map_of u p \<noteq> None" "p \<noteq> []" "butlast p = dir_of ''spool'' feed date" unfolding set_children by blast+
      with hd_butlast [OF p(3) hd_spool(2)] hd_spool(1) same [of p] have "p \<in> set (children t (dir_of ''spool'' feed date))"
        by (simp add: set_children)
      with good show False unfolding inventory_good_def by (metis empty_iff)
    qed
    have own: "dir_of kind feed date \<notin> own_paths kind date"
      using hd_dir_of(1) [of kind feed date] kind own_hd by metis
    show "map_of u (dir_of kind feed date) \<noteq> Some (Regular f)" for f
      using good own assms(1) unfolding inventory_good_def run_of_def later_tree_def by auto
    fix p assume p: "p \<in> set (children u (dir_of kind feed date))"
    show "regular_at u p \<noteq> None" using run_children [OF assms(1) p] good unfolding inventory_good_def by simp
    show "parquet_name (last p)" if "kind = ''parquet''"
      using run_children [OF assms(1) p] good that unfolding inventory_good_def by blast
  qed
  then obtain ys where ys: "inventory u kind date = Inr ys" using inventory_exists by blast
  have "inventory_set u kind date \<subseteq> inventory_set t kind date"
    using run_children [OF assms(1)] unfolding inventory_set_def by fastforce
  with ys that inventory_set_Inr [OF ys] inventory_set_Inr [OF assms(2)] show thesis by simp
qed

text \<open>A stored intent reads back with what the next run looks at.\<close>

definition intent_readable :: "tools \<Rightarrow> backup_io \<Rightarrow> string \<Rightarrow> string \<Rightarrow> prune_plan \<Rightarrow> string \<Rightarrow> bool" where
  "intent_readable tk io kind date pl revision \<longleftrightarrow> (\<forall>status names bytes. \<exists>r.
     tl_json tk (tl_dump tk (PDict (intent_row tk (bo_now io) kind date pl revision status names bytes))) = Some (PDict r) \<and>
     (\<forall>k \<in> {''receipt_sha256'', ''operation'', ''date'', ''planned_files''}.
        row_get r k = row_get (intent_row tk (bo_now io) kind date pl revision status names bytes) k))"

lemma stored_intent_resumes:
  assumes "intent_readable tk io kind date pl revision" and "intent_stored tk io kind date pl revision u"
  shows "resumable tk u kind date (tl_sha tk (pl_receipt_bytes pl)) (pl_expected pl) = Inr ()"
proof -
  from assms(2) obtain f status names bytes where f: "regular_at u (prune_state_path kind date) = Some f"
      "fo_bytes f = tl_dump tk (PDict (intent_row tk (bo_now io) kind date pl revision status names bytes))"
    unfolding intent_stored_def by blast
  from assms(1) obtain r where r: "tl_json tk (fo_bytes f) = Some (PDict r)"
      "row_get r ''receipt_sha256'' = PStr (tl_sha tk (pl_receipt_bytes pl))" "row_get r ''operation'' = PStr (kind @ ''_prune'')"
      "row_get r ''date'' = PStr date" "row_get r ''planned_files'' = PList (map PStr (sort (map fst (pl_expected pl))))"
    unfolding intent_readable_def f(2) by (force simp: intent_row_def row_get_def)
  show ?thesis by (simp add: resumable_def read_json_def f(1) r refuse_def)
qed

lemma run_candidates:
  assumes "run_of kind date gone t u" and "plain_paths t" and "plan_prune tk cfg kind date t actual = Inr pl"
    and "validate_local tk t True (pl_candidates pl) = Inr ()"
    and "set actual' = inventory_set u kind date" and "set actual' \<subseteq> set actual"
  shows "validate_local tk u True (plan_candidates actual' (pl_expected pl)) = Inr ()"
  unfolding validate_local_Inr
proof
  fix a assume "a \<in> set (plan_candidates actual' (pl_expected pl))"
  with plan_candidates_members [OF plan_expected(1) [OF assms(3)]] obtain n where
    n: "n \<in> set (map fst actual')" "(n, a) \<in> set (pl_expected pl)" by auto
  from plan_prune_Inr [OF assms(3)] have "pl_candidates pl = plan_candidates actual (pl_expected pl)" by blast
  moreover have "n \<in> set (map fst actual)" using n(1) assms(6) by auto
  ultimately have "a \<in> set (pl_candidates pl)"
    using n(2) plan_candidates_members [OF plan_expected(1) [OF assms(3)]] by auto
  with assms(4) have v: "validate_artifact tk t True a = Inr ()" unfolding validate_local_Inr by blast
  from n(1) obtain st where "(n, st) \<in> set actual'" by auto
  then obtain p f feed where p: "n = join_path p" "p \<in> set (children u (dir_of kind feed date))"
    unfolding assms(5) inventory_set_def by blast
  note same = run_children [OF assms(1) p(2)]
  have "split_path n = p" using plain_path [OF assms(2)] same(1) p(1) unfolding set_children by simp
  with same(3) validate_artifact_same [OF assms(1) v] plan_expected(2) [OF assms(3) n(2)]
  show "validate_artifact tk u True a = Inr ()" by simp
qed

lemma plan_prune_parts:
  "plan_prune tk cfg kind date t actual = Inr pl \<longleftrightarrow>
     (\<exists>indexed. prune_receipt tk cfg t date = Inr (pl_receipt pl) \<and> receipt_artifacts t (pl_receipt pl) = Inr indexed \<and>
        authenticate_manifest tk t date (pl_receipt pl) indexed = Inr () \<and> expected_files kind date indexed = Inr (pl_expected pl) \<and>
        set (map fst actual) \<subseteq> set (map fst (pl_expected pl)) \<and> receipt_file t date = Inr (pl_receipt_bytes pl) \<and>
        (set (map fst (pl_expected pl)) \<subseteq> set (map fst actual) \<or>
           resumable tk t kind date (tl_sha tk (pl_receipt_bytes pl)) (pl_expected pl) = Inr ()) \<and>
        validate_local tk t True (plan_candidates actual (pl_expected pl)) = Inr () \<and>
        pl_actual pl = actual \<and> pl_candidates pl = plan_candidates actual (pl_expected pl))"
proof -
  have "pl = \<lparr>pl_actual = a, pl_receipt = r, pl_receipt_bytes = b, pl_expected = e, pl_candidates = c\<rparr> \<longleftrightarrow>
      pl_actual pl = a \<and> pl_receipt pl = r \<and> pl_receipt_bytes pl = b \<and> pl_expected pl = e \<and> pl_candidates pl = c" for a r b e c
    by (cases pl) auto
  then show ?thesis
    unfolding plan_prune_def bind_result_iff refuse_Inr by (auto simp: eq_commute [of _ pl] split: if_splits)
qed

lemma run_plan:
  assumes "run_of kind date gone t u" and "plain_paths t" and "plan_prune tk cfg kind date t actual = Inr pl"
    and "set actual' = inventory_set u kind date" and "set actual' \<subseteq> set actual"
    and "resumable tk u kind date (tl_sha tk (pl_receipt_bytes pl)) (pl_expected pl) = Inr ()"
  shows "plan_prune tk cfg kind date u actual' = Inr (pl\<lparr>pl_actual := actual', pl_candidates := plan_candidates actual' (pl_expected pl)\<rparr>)"
proof -
  have kind: "kind \<in> {''raw'', ''parquet''}" using assms(1) by (simp add: run_of_def)
  from assms(3) obtain indexed where p: "prune_receipt tk cfg t date = Inr (pl_receipt pl)"
      "receipt_artifacts t (pl_receipt pl) = Inr indexed" "authenticate_manifest tk t date (pl_receipt pl) indexed = Inr ()"
      "expected_files kind date indexed = Inr (pl_expected pl)" "set (map fst actual) \<subseteq> set (map fst (pl_expected pl))"
      "receipt_file t date = Inr (pl_receipt_bytes pl)" "validate_local tk t True (pl_candidates pl) = Inr ()"
    unfolding plan_prune_parts by auto
  have "receipt_artifacts u (pl_receipt pl) = Inr indexed" using p(2) run_index_artifacts [OF assms(1)]
    by (auto simp: receipt_artifacts_def split: pyval.splits list.splits)
  moreover have "authenticate_manifest tk u date (pl_receipt pl) indexed = Inr ()"
    using run_authenticate [OF assms(1) p(3)] receipt_artifacts_Inr(2) [OF p(2)] by blast
  moreover have "receipt_file u date = Inr (pl_receipt_bytes pl)"
    using p(6) run_regular [OF assms(1) untouched_metadata(3) [OF kind]] by (simp add: receipt_file_def)
  moreover have "set (map fst actual') \<subseteq> set (map fst (pl_expected pl))" using p(5) assms(5) by auto
  ultimately show ?thesis
    using run_prune_receipt [OF assms(1) p(1)] p(4) assms(6) run_candidates [OF assms(1,2,3) p(7) assms(4,5)]
    unfolding plan_prune_parts by auto
qed

lemma candidate_paths:
  assumes "plan_prune tk cfg kind date t actual = Inr pl"
  shows "split_path ` artifact_name ` set (pl_candidates pl) = split_path ` set (map fst actual)"
proof -
  note expected = plan_expected [OF assms]
  from plan_prune_Inr [OF assms] have c: "pl_candidates pl = plan_candidates actual (pl_expected pl)"
      "set (map fst actual) \<subseteq> set (map fst (pl_expected pl))" by blast+
  have "artifact_name ` set (pl_candidates pl) = set (map fst actual)"
  proof (intro set_eqI iffI)
    fix n assume "n \<in> artifact_name ` set (pl_candidates pl)"
    then obtain a where "a \<in> set (pl_candidates pl)" "n = artifact_name a" by blast
    with candidate_expected [OF assms] show "n \<in> set (map fst actual)" by metis
  next
    fix n assume n: "n \<in> set (map fst actual)"
    with c(2) obtain a where a: "(n, a) \<in> set (pl_expected pl)" by auto
    then have "artifact_name a = n" using expected(2) by (simp add: artifact_name_def str_or_empty_def)
    moreover have "a \<in> set (pl_candidates pl)" using n a unfolding c(1) plan_candidates_members [OF expected(1)] by blast
    ultimately show "n \<in> artifact_name ` set (pl_candidates pl)" by blast
  qed
  then show ?thesis by simp
qed

lemma candidate_form:
  assumes "plan_prune tk cfg kind date t actual = Inr pl"
  shows "\<forall>p \<in> split_path ` artifact_name ` set (pl_candidates pl). \<exists>feed n. p = partition_dir kind feed date @ [n]"
proof
  fix p assume "p \<in> split_path ` artifact_name ` set (pl_candidates pl)"
  then obtain a where a: "a \<in> set (pl_candidates pl)" "p = split_path (artifact_name a)" by blast
  from candidate_expected [OF assms a(1)] obtain n where n: "(n, a) \<in> set (pl_expected pl)" "artifact_place kind date n" "artifact_name a = n"
    by blast
  have "safe_parts n" using plan_expected(2) [OF assms n(1)] safe_path_Inr by blast
  from artifact_place_path [OF n(2) this] show "\<exists>feed n. p = partition_dir kind feed date @ [n]" using a(2) n(3) by metis
qed

lemma run_of_candidates:
  assumes "plan_prune tk cfg kind date t actual = Inr pl" and "kind \<in> {''raw'', ''parquet''}"
    and "later_tree kind date g t u" and "g \<subseteq> split_path ` artifact_name ` set (pl_candidates pl)"
  shows "run_of kind date g t u"
  unfolding run_of_def
proof (intro conjI ballI)
  fix p assume "p \<in> g"
  with assms(4) have "p \<in> split_path ` artifact_name ` set (pl_candidates pl)" by (rule subsetD)
  with candidate_form [OF assms(1)] show "\<exists>feed n. p = partition_dir kind feed date @ [n]" by (rule bspec)
qed (rule assms)+

lemma state_not_candidate:
  assumes "plan_prune tk cfg kind date t actual = Inr pl" and "kind \<in> {''raw'', ''parquet''}"
  shows "prune_state_path kind date \<notin> split_path ` artifact_name ` set (pl_candidates pl)"
proof
  assume "prune_state_path kind date \<in> split_path ` artifact_name ` set (pl_candidates pl)"
  with candidate_form [OF assms(1)] obtain feed n where "prune_state_path kind date = partition_dir kind feed date @ [n]" by blast
  then show False by (simp add: partition_dir_def prune_state_path_def)
qed

lemma all_gone:
  assumes "run_of kind date gone t u" and "\<And>p feed. p \<in> set (children t (dir_of kind feed date)) \<Longrightarrow> split_path (join_path p) = p"
    and "inventory t kind date = Inr actual" and "split_path ` set (map fst actual) \<subseteq> gone"
  shows "inventory u kind date = Inr []"
proof -
  from run_inventory [OF assms(1,3)] obtain ys where ys: "inventory u kind date = Inr ys" "set ys = inventory_set u kind date"
      "set ys \<subseteq> set actual" .
  have "inventory_set u kind date = {}"
  proof (rule ccontr)
    assume "inventory_set u kind date \<noteq> {}"
    then obtain x where "x \<in> inventory_set u kind date" by (metis all_not_in_conv)
    then obtain p f feed where p: "p \<in> set (children u (dir_of kind feed date))" "regular_at u p = Some f"
      unfolding inventory_set_def mem_Collect_eq by metis
    note same = run_children [OF assms(1) p(1)]
    from same(3) p(2) have "regular_at t p = Some f" by simp
    with same(1) have "(join_path p, stat_of f) \<in> set actual" unfolding inventory_set_Inr [OF assms(3)] inventory_set_def by blast
    then have "join_path p \<in> set (map fst actual)" by (metis image_eqI fst_conv list.set_map)
    with assms(2) [OF same(1)] assms(4) have "p \<in> gone" by (metis image_eqI subsetD)
    with same(2) show False by contradiction
  qed
  with ys show ?thesis by simp
qed

lemma recheck_again:
  assumes "plan_prune tk cfg kind date u actual = Inr pl" and "inventory u kind date = Inr actual"
  shows "recheck tk u kind date pl = Inr ()"
  using assms unfolding plan_prune_parts recheck_def bind_result_iff
  by (auto simp: same_inventory_def refuse_def)

text \<open>
  Claim C7. Pruning deletes only what is verified to be stored elsewhere. If a file is there when the checks end and is gone
  in any later tree of the run, however the run ends, then it is a file of the date's partition of the kind being pruned, and
  the repository holds at the verified revision content of its size and its digest.
\<close>

theorem pruned_only_verified:
  assumes "hub_truthful tk hub store" and "prune_date tk cfg hub io kind fails date t h = (r, ts, h')"
    and "regular_at (bo_later io t) q = Some f" and "u \<in> set (drop 1 ts)" and "regular_at u q = None"
  shows "\<exists>feed n revision bs. q = partition_dir kind feed date @ [n] \<and> store revision (join_path q) = Some bs \<and>
    length bs = length (fo_bytes f) \<and> tl_sha tk bs = tl_sha tk (fo_bytes f)"
proof -
  obtain d h1 where auth: "authorise tk cfg hub io kind date t h = (d, h1)" by (metis surj_pair)
  with assms(2-5) obtain pl revision where pl: "d = Inr (Some (pl, revision))"
    by (auto simp: prune_date_def split: sum.splits option.splits)
  obtain r' ts' where run: "execute_prune tk io kind date fails pl revision (bo_later io t) = (r', ts')" by (metis surj_pair)
  with assms(2-5) auth pl have "u \<in> set ts'" by (auto simp: prune_date_def)
  from execute_prune_regular [OF run this assms(5)] assms(3) obtain a where a: "a \<in> set (pl_candidates pl)" "q = split_path (artifact_name a)"
    by auto
  from authorise_Inr [OF auth [unfolded pl]] obtain h2 h3 where z: "plan_prune tk cfg kind date t (pl_actual pl) = Inr pl"
      "verify_plan tk hub date pl h2 = (Inr revision, h3)" "recheck tk (bo_later io t) kind date pl = Inr ()" by blast
  from candidate_expected [OF z(1) a(1)] obtain n where n: "(n, a) \<in> set (pl_expected pl)" "row_get a ''path'' = PStr n"
      "artifact_place kind date n" "artifact_name a = n" by blast
  have "matches_remote tk store revision a"
    using verify_plan_matches [OF assms(1) z(2) plan_expected(1) [OF z(1)] _ n(1)] plan_expected(2) [OF z(1)] by blast
  then obtain bs where bs: "store revision n = Some bs" "row_get a ''size'' = PInt (int (length bs))"
      "row_get a ''sha256'' = PStr (tl_sha tk bs)" using n(2) by (auto simp: matches_remote_def)
  have "matches_local tk (bo_later io t) a" using z(3) a(1) unfolding recheck_def bind_result_iff validate_local_Inr
    by (blast intro: validate_artifact_matches)
  then have here: "safe_parts n" "length bs = length (fo_bytes f)" "tl_sha tk bs = tl_sha tk (fo_bytes f)"
    using n(2,4) a(2) assms(3) bs by (auto simp: matches_local_def)
  from artifact_place_path [OF n(3) here(1)] obtain feed name where "split_path n = partition_dir kind feed date @ [name]" by blast
  moreover have "join_path q = n" using a(2) n(4) by (simp add: join_split)
  ultimately show ?thesis using a(2) n(4) bs(1) here(2,3) by auto
qed

text \<open>
  Claim C9. A run that was authorised can be finished after any interruption. Take any tree it can leave, a crash after any of
  its writes and deletions or the exception of a deletion included. If the repository gives the same answers, nothing else
  changes the directory and the stored intent reads back, then the next run succeeds and no file of the date's partitions is left.
\<close>

theorem prune_resumes:
  assumes "authorise tk cfg hub io kind date t h = (Inr (Some (pl, revision)), h0)"
    and "u \<in> set (snd (execute_prune tk io kind date fails pl revision t))"
    and "hub_steady hub" and "\<And>x. bo_later io x = x" and "\<And>x. bo_later io2 x = x"
    and "kind \<in> {''raw'', ''parquet''}" and "plain_paths t" and "intent_readable tk io kind date pl revision"
  shows "\<exists>removed ts h3. prune_date tk cfg hub io2 kind None date u h2 = (Inr removed, ts, h3) \<and> inventory (last ts) kind date = Inr []"
proof -
  from authorise_Inr [OF assms(1)] obtain h4 h5 where a: "inventory t kind date = Inr (pl_actual pl)"
      "plan_prune tk cfg kind date t (pl_actual pl) = Inr pl" "verify_plan tk hub date pl h4 = (Inr revision, h5)" by blast
  obtain r ts where run: "execute_prune tk io kind date fails pl revision t = (r, ts)" by (metis surj_pair)
  from execute_prune_trace(1) [OF run state_not_candidate [OF a(2) assms(6)]] assms(2) run
  obtain g where g: "g \<subseteq> split_path ` artifact_name ` set (pl_candidates pl)" "later_tree kind date g t u"
      "intent_stored tk io kind date pl revision u" by auto
  have u: "run_of kind date g t u" by (rule run_of_candidates [OF a(2) assms(6) g(2,1)])
  from run_inventory [OF u a(1)] obtain ys where ys: "inventory u kind date = Inr ys" "set ys = inventory_set u kind date"
      "set ys \<subseteq> set (pl_actual pl)" .
  show ?thesis
  proof (cases "ys = []")
    case True
    with ys have "prune_date tk cfg hub io2 kind None date u h2 = (Inr [], [u], h2)"
      by (simp add: prune_date_def authorise_def and_then_def lift_def)
    with True ys(1) show ?thesis by simp
  next
    case False
    define pl' where "pl' = pl\<lparr>pl_actual := ys, pl_candidates := plan_candidates ys (pl_expected pl)\<rparr>"
    from run_plan [OF u assms(7) a(2) ys(2,3) stored_intent_resumes [OF assms(8) g(3)]]
    have plan: "plan_prune tk cfg kind date u ys = Inr pl'" by (simp add: pl'_def)
    have "verify_plan tk hub date pl' = verify_plan tk hub date pl" by (simp add: verify_plan_def pl'_def)
    with steady_again [OF steady_verify_plan [OF assms(3)] a(3)] obtain h6 where v: "verify_plan tk hub date pl' h2 = (Inr revision, h6)" by metis
    have auth: "authorise tk cfg hub io2 kind date u h2 = (Inr (Some (pl', revision)), h6)"
      using ys(1) False plan v recheck_again [OF plan ys(1)] by (simp add: authorise_def and_then_def lift_def assms(5))
    obtain r2 ts2 where run2: "execute_prune tk io2 kind date None pl' revision u = (r2, ts2)" by (metis surj_pair)
    note fin = execute_prune_trace(2) [OF run2 state_not_candidate [OF plan assms(6)] refl]
    have ts2: "ts2 \<noteq> []" using run2 by (auto simp: execute_prune_def Let_def write_intent_def)
    have last: "run_of kind date (split_path ` artifact_name ` set (pl_candidates pl')) u (last ts2)"
      by (rule run_of_candidates [OF plan assms(6) _ order_refl]) (use fin in simp)
    have "split_path (join_path p) = p" if "p \<in> set (children u (dir_of kind feed date))" for p feed
      using run_children(1) [OF u that] plain_path [OF assms(7)] unfolding set_children by blast
    from all_gone [OF last this ys(1)] candidate_paths [OF plan] have "inventory (last ts2) kind date = Inr []" by simp
    moreover have "prune_date tk cfg hub io2 kind None date u h2 = (r2, [u, u] @ ts2, h6)"
      by (simp add: prune_date_def auth run2 assms(5))
    ultimately show ?thesis using fin ts2 by simp
  qed
qed

subsection \<open>A pruning run\<close>

definition raw_names :: "string list" where
  "raw_names = map (\<lambda>f. join_path (raw_log_path f demo_day)) [Alerts, Tripupdates, Vehiclepositions]"

definition demo_sha :: "bytes \<Rightarrow> string" where
  "demo_sha bs = replicate 63 CHR ''0'' @ (if bs = [2] then ''2'' else ''1'')"

definition demo_artifact :: "string \<Rightarrow> string \<Rightarrow> bytes \<Rightarrow> pyval" where
  "demo_artifact name kind bs = PDict [(''path'', PStr name), (''kind'', PStr kind), (''size'', PInt (int (length bs))), (''sha256'', PStr (demo_sha bs))]"

definition demo_receipt :: row where
  "demo_receipt =
     [(''version'', PInt 2), (''date'', PStr demo_day), (''repo_id'', PStr ''r''), (''remote_verified'', PBool True),
      (''remote_revision'', PStr demo_revision), (''manifest_sha256'', PStr (demo_sha [2])),
      (''artifacts'', PList (demo_artifact (join_path (manifest_path demo_day)) ''daily_manifest'' [2] #
         map (\<lambda>n. demo_artifact n ''raw'' [97]) raw_names))]"

definition demo_intent :: row where
  "demo_intent =
     [(''receipt_sha256'', PStr (demo_sha [1])), (''operation'', PStr ''raw_prune''), (''date'', PStr demo_day),
      (''planned_files'', PList (map PStr raw_names))]"

definition prune_tools :: tools where
  "prune_tools = plain_tools\<lparr>tl_sha := demo_sha, tl_dump := (\<lambda>_. [3]), tl_json := (\<lambda>bs.
     if bs = [1] then Some (PDict demo_receipt) else if bs = [2] then Some (PDict demo_manifest)
     else if bs = [3] then Some (PDict demo_intent) else None)\<rparr>"

definition prune_store :: remote_store where
  "prune_store revision p = Some (if p = join_path (receipt_path demo_day) then [1] else if p = join_path (manifest_path demo_day) then [2] else [97])"

definition prune_hub :: "unit hub" where
  "prune_hub = demo_hub\<lparr>
     hub_infos := (\<lambda>revision ps. lift (Inr (map (\<lambda>p. [(''path'', PStr p), (''size'', PInt 1)]) ps))),
     hub_download := (\<lambda>revision p. lift (Inr (case prune_store revision p of None \<Rightarrow> [] | Some bs \<Rightarrow> bs)))\<rparr>"

definition prune_tree :: tree where
  "prune_tree =
     map (\<lambda>(p, bs). (p, Regular \<lparr>fo_bytes = bs, fo_mtime = 0, fo_id = (0, 0)\<rparr>))
       ((receipt_path demo_day, [1]) # (manifest_path demo_day, [2]) # map (\<lambda>f. (raw_log_path f demo_day, [97])) FEED_NAMES)"

definition demo_prune :: "nat option \<Rightarrow> (exn + string list) \<times> tree list \<times> unit" where
  "demo_prune fails =
     prune_date prune_tools \<lparr>bk_repo_id = ''r'', bk_token = ''k''\<rparr> prune_hub demo_backup_io ''raw'' fails demo_day prune_tree ()"

lemma prune_hub_truthful: "hub_truthful prune_tools prune_hub prune_store"
  by (auto simp: hub_truthful_def prune_hub_def lift_def prune_store_def remote_path_def remote_size_def remote_lfs_sha_def row_get_def)

lemma demo_prune_deletes:
  "regular_at (last (fst (snd (demo_prune None)))) (raw_log_path Alerts demo_day) = None \<and> length (fst (snd (demo_prune None))) > 1"
  by code_simp

lemma demo_prune_authorised:
  "case fst (authorise prune_tools \<lparr>bk_repo_id = ''r'', bk_token = ''k''\<rparr> prune_hub demo_backup_io ''raw'' demo_day prune_tree ()) of
     Inr (Some (pl, revision)) \<Rightarrow> pl_receipt_bytes pl = [1] \<and> sort (map fst (pl_expected pl)) = raw_names
   | _ \<Rightarrow> False"
  by code_simp

lemma pruned_only_verified_witness:
  "\<exists>feed n revision bs. raw_log_path Alerts demo_day = partition_dir ''raw'' feed demo_day @ [n] \<and>
     prune_store revision (join_path (raw_log_path Alerts demo_day)) = Some bs \<and> length bs = 1 \<and> demo_sha bs = demo_sha [97]"
proof -
  obtain r ts h where run: "demo_prune None = (r, ts, h)" by (metis surj_pair)
  with demo_prune_deletes have gone: "regular_at (last ts) (raw_log_path Alerts demo_day) = None" "length ts > 1" by simp_all
  then have "last ts \<in> set (drop 1 ts)" by (metis last_drop last_in_set length_drop length_greater_0_conv zero_less_diff)
  moreover have "regular_at (bo_later demo_backup_io prune_tree) (raw_log_path Alerts demo_day) =
      Some \<lparr>fo_bytes = [97], fo_mtime = 0, fo_id = (0, 0)\<rparr>" by code_simp
  ultimately show ?thesis
    using pruned_only_verified [OF prune_hub_truthful run [unfolded demo_prune_def], of "raw_log_path Alerts demo_day" _ "last ts"] gone(1)
    by (simp add: prune_tools_def)
qed

lemma prune_hub_steady: "hub_steady prune_hub"
  by (simp add: hub_steady_def prune_hub_def demo_hub_def)

lemma prune_resumes_witness:
  "\<exists>pl revision removed ts h. authorise prune_tools \<lparr>bk_repo_id = ''r'', bk_token = ''k''\<rparr> prune_hub demo_backup_io ''raw'' demo_day prune_tree () =
       (Inr (Some (pl, revision)), ()) \<and>
     prune_date prune_tools \<lparr>bk_repo_id = ''r'', bk_token = ''k''\<rparr> prune_hub demo_backup_io ''raw'' None demo_day
       (last (snd (execute_prune prune_tools demo_backup_io ''raw'' demo_day (Some 1) pl revision prune_tree))) () = (Inr removed, ts, h) \<and>
     inventory (last ts) ''raw'' demo_day = Inr []"
proof -
  obtain pl revision where auth: "authorise prune_tools \<lparr>bk_repo_id = ''r'', bk_token = ''k''\<rparr> prune_hub demo_backup_io ''raw'' demo_day prune_tree () =
      (Inr (Some (pl, revision)), ())" "pl_receipt_bytes pl = [1]" "sort (map fst (pl_expected pl)) = raw_names"
    using demo_prune_authorised
    by (cases "authorise prune_tools \<lparr>bk_repo_id = ''r'', bk_token = ''k''\<rparr> prune_hub demo_backup_io ''raw'' demo_day prune_tree ()")
      (auto split: sum.splits option.splits)
  have readable: "intent_readable prune_tools demo_backup_io ''raw'' demo_day pl revision"
    using auth(2,3) by (simp add: intent_readable_def prune_tools_def demo_intent_def intent_row_def row_get_def)
  have "last (snd (execute_prune prune_tools demo_backup_io ''raw'' demo_day (Some 1) pl revision prune_tree)) \<in>
      set (snd (execute_prune prune_tools demo_backup_io ''raw'' demo_day (Some 1) pl revision prune_tree))"
    by (rule last_in_set) (simp add: execute_prune_def Let_def write_intent_def)
  moreover have "plain_paths prune_tree" by code_simp
  ultimately show ?thesis
    using prune_resumes [OF auth(1) _ prune_hub_steady _ _ _ _ readable, of _ "Some 1" demo_backup_io "()"] auth(1)
    by (fastforce simp: demo_backup_io_def)
qed

end
