(* ===== verification/Parsed_Presence.thy ===== *)
theory Parsed_Presence
  imports Gtfs_Parse
begin

section \<open>What presence sees of a TripUpdates message\<close>

text \<open>
  The presence of a feed is read from the parsed rows. Here it is related to the message itself: which
  trips it names, and which stops of each.
\<close>

subsection \<open>Identities\<close>

definition trip_identity :: "entity \<Rightarrow> trip_update \<Rightarrow> ident" where
  "trip_identity e u =
     [or_none (en_id e),
      (case tu_trip u of None \<Rightarrow> PNone | Some t \<Rightarrow> or_none (td_trip_id t)),
      (case tu_trip u of None \<Rightarrow> PNone | Some t \<Rightarrow> or_none (td_start_date t)),
      (case tu_trip u of None \<Rightarrow> PNone | Some t \<Rightarrow> or_none (td_start_time t))]"

text \<open>The position of a stop identifies it only when the message gives no sequence number.\<close>

definition stop_identity :: "nat \<Rightarrow> stop_time_update \<Rightarrow> ident" where
  "stop_identity i s =
     [opt_unsigned (su_stop_sequence s), if su_stop_sequence s = None then PInt (int i) else PNone, or_none (su_stop_id s)]"

definition stop_identities :: "trip_update \<Rightarrow> ident list" where
  "stop_identities u = map (\<lambda>(i, s). stop_identity i s) (enumerate 0 (tu_stop_time_updates u))"

text \<open>The abstract view: a trip is present if an entity has it, with the stops of all such entities.\<close>

definition present_trips :: "feed_message \<Rightarrow> (ident \<times> ident list) list" where
  "present_trips fm =
     List.map_filter (\<lambda>e. map_option (\<lambda>u. (trip_identity e u, stop_identities u)) (en_trip_update e)) (fm_entities fm)"

definition feed_presence :: "feed_message \<Rightarrow> ident \<Rightarrow> ident set option" where
  "feed_presence fm t =
     (let ss = [p \<leftarrow> present_trips fm. fst p = t]
      in if ss = [] then None else Some (set (concat (map snd ss))))"

subsection \<open>Collecting\<close>

definition visit_of :: "row \<Rightarrow> ident \<times> ident option" where
  "visit_of row = (row_tuple row TRIP_IDENTITY_FIELDS,
     if row_get row ''stop_time_update_index'' \<noteq> PNone then Some (row_tuple row STOP_IDENTITY_FIELDS) else None)"

definition add_visit :: "(ident \<Rightarrow> ident set option) \<Rightarrow> ident \<times> ident option \<Rightarrow> (ident \<Rightarrow> ident set option)" where
  "add_visit m v = m(fst v \<mapsto> (case m (fst v) of None \<Rightarrow> {} | Some S \<Rightarrow> S) \<union> set_option (snd v))"

lemma collect_rows_visits:
  assumes "list_all (\<lambda>row. \<not> truthy (row_get row ''entity_is_deleted'')) rows"
  shows "\<exists>current' stamps'. collect_rows current stamps rows = Some (current', stamps') \<and>
    look current' = foldl add_visit (look current) (map visit_of rows)"
  using assms
proof (induction rows arbitrary: current stamps)
  case (Cons row rows)
  let ?t = "row_tuple row TRIP_IDENTITY_FIELDS"
  let ?stops = "if row_get row ''stop_time_update_index'' \<noteq> PNone
    then List.insert (row_tuple row STOP_IDENTITY_FIELDS) (stops_of current ?t) else stops_of current ?t"
  let ?stamps = "AList.update ?t (row_get row ''trip_update_timestamp'') stamps"
  from Cons.prems have here: "\<not> truthy (row_get row ''entity_is_deleted'')"
    and rest: "list_all (\<lambda>row. \<not> truthy (row_get row ''entity_is_deleted'')) rows" by simp_all
  have step: "look (AList.update ?t ?stops current) = add_visit (look current) (visit_of row)"
    by (auto simp: add_visit_def visit_of_def set_stops_of)
  from Cons.IH [OF rest, of "AList.update ?t ?stops current" ?stamps] obtain current' stamps' where
      rec: "collect_rows (AList.update ?t ?stops current) ?stamps rows = Some (current', stamps')"
    and seen: "look current' = foldl add_visit (look (AList.update ?t ?stops current)) (map visit_of rows)" by blast
  from here rec have "collect_rows current stamps (row # rows) = Some (current', stamps')"
    by (intro collect_rows_Cons [THEN iffD2] conjI)
  moreover from seen have "look current' = foldl add_visit (look current) (map visit_of (row # rows))"
    unfolding step by simp
  ultimately show ?case by blast
qed simp

lemma foldl_visits:
  "foldl add_visit m vs t =
     (let ws = [v \<leftarrow> vs. fst v = t]
      in if ws = [] then m t
         else Some ((case m t of None \<Rightarrow> {} | Some S \<Rightarrow> S) \<union> (\<Union>v \<in> set ws. set_option (snd v))))"
proof (induction vs arbitrary: m)
  case (Cons v vs)
  show ?case
    unfolding foldl.simps Cons by (cases "fst v = t") (auto simp: add_visit_def Let_def filter_empty_conv split: option.split)
qed simp

subsection \<open>The rows of a trip\<close>

lemma row_get_append: "row_get (a @ b) k = (if k \<in> fst ` set a then row_get a k else row_get b k)"
  by (auto simp: row_get_def map_add_def dom_map_of_conv_image_fst [symmetric] split: option.split)

lemmas identity_fields =
  TRIP_IDENTITY_FIELDS_def STOP_IDENTITY_FIELDS_def TRIP_UPDATE_KEY_FIELDS_def

text \<open>The rows of a trip are the trip's columns followed by those of a stop.\<close>

lemma trip_row_split:
  assumes "poll = poll_context re fm (collector_context p s r)" and "kinded b \<and> map fst b = stop_keys"
  shows "dict_merge (trip_base re poll e u) b =
    poll @ entity_context e @ trip_head re u @ vehicle_desc re (tu_vehicle u) @ trip_fields re (tu_trip u) @ b"
proof -
  let ?parts = "[poll, entity_context e, trip_head re u, vehicle_desc re (tu_vehicle u), trip_fields re (tu_trip u)]"
  have "trip_base re poll e u = concat ?parts"
  proof -
    have "map fst (concat ?parts) = trip_base_keys"
      by (simp add: assms(1) trip_base_keys_def heads_ok)
    moreover have "distinct trip_base_keys" using trip_keys_ok(1) by (simp only: distinct_append)
    ultimately show ?thesis unfolding trip_base_def by (metis dict_of_fresh)
  qed
  moreover have "dict_merge (trip_base re poll e u) b = trip_base re poll e u @ b"
    using merged_row_ok [OF trip_base_ok [OF assms(1)] assms(2) trip_keys_ok] by blast
  ultimately show ?thesis by simp
qed

lemma part_fields:
  "fst ` set (poll_context re fm ctx) = set (take 9 COMMON_COLUMNS)"
  "fst ` set (entity_context e) = set (drop 9 COMMON_COLUMNS)"
  "fst ` set (trip_fields re t) = set TRIP_FIELDS"
  "fst ` set (vehicle_desc re v) = set VEHICLE_COLUMNS"
  "fst ` set (trip_head re u) = {''trip_update_timestamp'', ''trip_delay'', ''trip_properties_json''}"
  using part_keys [THEN arg_cong, of set] heads_ok(6) [THEN arg_cong, of set] by (simp_all del: part_keys)

lemma trip_row_fields:
  assumes "poll = poll_context re fm (collector_context p s r)" and "kinded b \<and> map fst b = stop_keys"
  shows "visit_of (dict_merge (trip_base re poll e u) b) =
      (trip_identity e u,
       if row_get b ''stop_time_update_index'' \<noteq> PNone then Some (row_tuple b STOP_IDENTITY_FIELDS) else None)"
    and "row_get (dict_merge (trip_base re poll e u) b) ''entity_is_deleted'' = opt_bool (en_is_deleted e)"
    and "row_get (dict_merge (trip_base re poll e u) b) ''trip_update_timestamp'' = opt_unsigned (tu_timestamp u)"
proof -
  note get = trip_row_split [OF refl assms(2)] row_get_append assms(1) part_fields COMMON_COLUMNS_def VEHICLE_COLUMNS_def TRIP_FIELDS_def
  have entity: "row_get (entity_context e) ''entity_id'' = or_none (en_id e)"
      "row_get (entity_context e) ''entity_is_deleted'' = opt_bool (en_is_deleted e)"
    by (simp_all add: entity_context_def row_get_def)
  have trip: "row_get (trip_fields re t) ''trip_id'' = (case t of None \<Rightarrow> PNone | Some d \<Rightarrow> or_none (td_trip_id d))"
      "row_get (trip_fields re t) ''start_date'' = (case t of None \<Rightarrow> PNone | Some d \<Rightarrow> or_none (td_start_date d))"
      "row_get (trip_fields re t) ''start_time'' = (case t of None \<Rightarrow> PNone | Some d \<Rightarrow> or_none (td_start_time d))" for t
    by (simp_all add: trip_fields_def trip_desc_def TRIP_FIELDS_def row_get_def split: option.split)
  have stamp: "row_get (trip_head re u) ''trip_update_timestamp'' = opt_unsigned (tu_timestamp u)"
    by (simp add: trip_head_def row_get_def)
  show "visit_of (dict_merge (trip_base re poll e u) b) =
      (trip_identity e u,
       if row_get b ''stop_time_update_index'' \<noteq> PNone then Some (row_tuple b STOP_IDENTITY_FIELDS) else None)"
    unfolding visit_of_def by (simp add: get identity_fields trip_identity_def entity trip)
  show "row_get (dict_merge (trip_base re poll e u) b) ''entity_is_deleted'' = opt_bool (en_is_deleted e)"
    by (simp add: get entity)
  show "row_get (dict_merge (trip_base re poll e u) b) ''trip_update_timestamp'' = opt_unsigned (tu_timestamp u)"
    by (simp add: get stamp)
qed

lemma stop_identity_fields:
  "row_get no_stop_fields ''stop_time_update_index'' = PNone"
  "row_get (stop_fields re i st) ''stop_time_update_index'' = PInt (int i)"
  "row_tuple (stop_fields re i st) STOP_IDENTITY_FIELDS = stop_identity i st"
proof -
  have none: "no_stop_fields = no_stop_head @ stop_event_fields None ''arrival'' @ stop_event_fields None ''departure'' @
      realcity_stop_fields None"
    using stop_display [OF heads_ok(2,1) no_stop_fields_def] by blast
  have some: "stop_fields re i st = stop_head re i st @ stop_event_fields (su_arrival st) ''arrival'' @
      stop_event_fields (su_departure st) ''departure'' @ realcity_stop_fields (su_realcity st)"
    using stop_display [OF heads_ok(4,3) stop_fields_def] by blast
  show "row_get no_stop_fields ''stop_time_update_index'' = PNone"
    by (simp add: none no_stop_head_def row_get_def)
  show "row_get (stop_fields re i st) ''stop_time_update_index'' = PInt (int i)"
    by (simp add: some stop_head_def row_get_def)
  show "row_tuple (stop_fields re i st) STOP_IDENTITY_FIELDS = stop_identity i st"
    by (simp add: some stop_head_def row_get_def identity_fields stop_identity_def)
qed

lemma trip_rows_visits:
  assumes "poll = poll_context re fm (collector_context p s r)"
  shows "map visit_of (trip_rows re poll e u) =
    (if tu_stop_time_updates u = [] then [(trip_identity e u, None)]
     else map (\<lambda>x. (trip_identity e u, Some x)) (stop_identities u))"
  by (simp add: trip_rows_def Let_def trip_row_fields(1) [OF assms no_stop_ok] trip_row_fields(1) [OF assms stop_ok]
    stop_identity_fields stop_identities_def split_def comp_def)

lemma trip_rows_flags:
  assumes "poll = poll_context re fm (collector_context p s r)"
  shows "list_all (\<lambda>row. row_get row ''entity_is_deleted'' = opt_bool (en_is_deleted e) \<and>
    valid_timestamp (row_get row ''trip_update_timestamp'')) (trip_rows re poll e u)"
  by (auto simp: trip_rows_def Let_def list_all_iff trip_row_fields(2,3) [OF assms no_stop_ok]
    trip_row_fields(2,3) [OF assms stop_ok] opt_unsigned_def opt_int_def valid_timestamp_def split: option.split)

subsection \<open>The rows of a message\<close>

definition entity_visits :: "entity \<Rightarrow> (ident \<times> ident option) list" where
  "entity_visits e =
     (case en_trip_update e of
        None \<Rightarrow> []
      | Some u \<Rightarrow> if tu_stop_time_updates u = [] then [(trip_identity e u, None)]
                  else map (\<lambda>x. (trip_identity e u, Some x)) (stop_identities u))"

lemma message_visits:
  assumes "list_all (\<lambda>e. en_is_deleted e \<noteq> Some True) (fm_entities fm)"
  shows "map visit_of (parse_trip_updates re fm (collector_context p s r)) = concat (map entity_visits (fm_entities fm))"
proof -
  have "map visit_of (case en_trip_update e of None \<Rightarrow> tombstone re fm (collector_context p s r) e
      | Some u \<Rightarrow> trip_rows re (poll_context re fm (collector_context p s r)) e u) = entity_visits e"
    if "en_is_deleted e \<noteq> Some True" for e
    using that by (simp add: entity_visits_def tombstone_def trip_rows_visits [OF refl] split: option.split)
  with assms show ?thesis
    by (simp add: parse_trip_updates_def map_concat comp_def list_all_iff cong: map_cong)
qed

lemma stop_identities_Nil [simp]: "stop_identities u = [] \<longleftrightarrow> tu_stop_time_updates u = []"
  by (simp add: stop_identities_def enumerate_eq_zip)

lemma set_map_filter_iff: "y \<in> set (List.map_filter f xs) \<longleftrightarrow> (\<exists>x \<in> set xs. f x = Some y)"
  by (induction xs) (auto simp: map_filter_simps split: option.split)

lemma named_iff: "[v \<leftarrow> xs. fst v = t] = [] \<longleftrightarrow> \<not> (\<exists>x. (t, x) \<in> set xs)"
  by (force simp: filter_empty_conv)

lemma present_trips_iff:
  "(t, ss) \<in> set (present_trips fm) \<longleftrightarrow>
     (\<exists>e u. e \<in> set (fm_entities fm) \<and> en_trip_update e = Some u \<and> t = trip_identity e u \<and> ss = stop_identities u)"
  unfolding present_trips_def set_map_filter_iff by (simp add: map_option_eq_Some) blast

lemma entity_visits_iff:
  "(t, x) \<in> set (entity_visits e) \<longleftrightarrow>
     (\<exists>u. en_trip_update e = Some u \<and> t = trip_identity e u \<and>
       (if tu_stop_time_updates u = [] then x = None else \<exists>y \<in> set (stop_identities u). x = Some y))"
proof (cases "en_trip_update e")
  case (Some u)
  then show ?thesis by (cases "tu_stop_time_updates u = []") (auto simp: entity_visits_def)
qed (simp add: entity_visits_def)

lemma visits_feed_presence:
  "foldl add_visit Map.empty (concat (map entity_visits (fm_entities fm))) = feed_presence fm"
proof
  fix t
  let ?vs = "concat (map entity_visits (fm_entities fm))"
  have named: "(\<exists>x. (t, x) \<in> set ?vs) \<longleftrightarrow> (\<exists>ss. (t, ss) \<in> set (present_trips fm))"
  proof
    assume "\<exists>ss. (t, ss) \<in> set (present_trips fm)"
    then obtain e u where e: "e \<in> set (fm_entities fm)" "en_trip_update e = Some u" "t = trip_identity e u"
      unfolding present_trips_iff by blast
    have "\<exists>x. (t, x) \<in> set (entity_visits e)"
    proof (cases "tu_stop_time_updates u = []")
      case False
      then obtain y ys where "stop_identities u = y # ys" by (metis stop_identities_Nil list.exhaust)
      with e False show ?thesis by (auto simp: entity_visits_iff)
    qed (use e in \<open>auto simp: entity_visits_iff\<close>)
    with e(1) show "\<exists>x. (t, x) \<in> set ?vs" by auto
  qed (auto simp: entity_visits_iff present_trips_iff)
  have stops: "(t, Some y) \<in> set ?vs \<longleftrightarrow> (\<exists>ss. (t, ss) \<in> set (present_trips fm) \<and> y \<in> set ss)" for y
  proof -
    have "(t, Some y) \<in> set ?vs \<longleftrightarrow> (\<exists>e \<in> set (fm_entities fm). (t, Some y) \<in> set (entity_visits e))" by simp
    also have "\<dots> \<longleftrightarrow> (\<exists>e \<in> set (fm_entities fm). \<exists>u. en_trip_update e = Some u \<and> t = trip_identity e u \<and>
        y \<in> set (stop_identities u))"
      unfolding entity_visits_iff by (intro bex_cong ex_cong) (auto simp flip: stop_identities_Nil)
    finally show ?thesis unfolding present_trips_iff by blast
  qed
  have empty: "[v \<leftarrow> ?vs. fst v = t] = [] \<longleftrightarrow> [v \<leftarrow> present_trips fm. fst v = t] = []"
    unfolding named_iff named ..
  have "(\<Union>v \<in> set [v \<leftarrow> ?vs. fst v = t]. set_option (snd v)) = {y. (t, Some y) \<in> set ?vs}"
    by force
  also have "\<dots> = set (concat (map snd [v \<leftarrow> present_trips fm. fst v = t]))"
    unfolding stops by force
  finally show "foldl add_visit Map.empty ?vs t = feed_presence fm t"
    unfolding foldl_visits feed_presence_def Let_def empty by simp
qed

text \<open>A deleted entity leaves a row that says so.\<close>

lemma message_flags:
  "list_all (\<lambda>row. valid_timestamp (row_get row ''trip_update_timestamp'')) (parse_trip_updates re fm (collector_context p s r))"
  "list_ex (\<lambda>row. truthy (row_get row ''entity_is_deleted'')) (parse_trip_updates re fm (collector_context p s r)) \<longleftrightarrow>
     list_ex (\<lambda>e. en_is_deleted e = Some True) (fm_entities fm)"
proof -
  let ?ctx = "collector_context p s r"
  let ?rows = "\<lambda>e. case en_trip_update e of None \<Rightarrow> tombstone re fm ?ctx e
      | Some u \<Rightarrow> trip_rows re (poll_context re fm ?ctx) e u"
  have rows: "parse_trip_updates re fm ?ctx = concat (map ?rows (fm_entities fm))"
    by (simp add: parse_trip_updates_def)
  have tomb: "list_all (\<lambda>row. valid_timestamp (row_get row ''trip_update_timestamp'')) (tombstone re fm ?ctx e)" for e
  proof -
    have "row_get row ''trip_update_timestamp'' = PNone" if "has_columns COMMON_COLUMNS row" for row
    proof -
      have "''trip_update_timestamp'' \<notin> set COMMON_COLUMNS" by (simp add: COMMON_COLUMNS_def)
      with that have "''trip_update_timestamp'' \<notin> fst ` set row" by (simp add: has_columns_def)
      then have "map_of row ''trip_update_timestamp'' = None" by (simp add: map_of_eq_None_iff)
      then show ?thesis by (simp add: row_get_def)
    qed
    with tombstone_ok [of _ re fm p s r e] show ?thesis by (fastforce simp: list_all_iff valid_timestamp_def)
  qed
  have "list_all (\<lambda>row. valid_timestamp (row_get row ''trip_update_timestamp'')) (?rows e)" for e
    using tomb trip_rows_flags [OF refl] by (fastforce simp: list_all_iff split: option.split)
  then show "list_all (\<lambda>row. valid_timestamp (row_get row ''trip_update_timestamp'')) (parse_trip_updates re fm ?ctx)"
    by (simp add: rows list_all_iff)
  have "list_ex (\<lambda>row. truthy (row_get row ''entity_is_deleted'')) (?rows e) \<longleftrightarrow> en_is_deleted e = Some True" for e
  proof (cases "en_trip_update e")
    case None
    have "row_get row ''entity_is_deleted'' = PBool True" if "row \<in> set (tombstone re fm ?ctx e)" for row
      using tombstone_ok [OF that] by blast
    moreover have "tombstone re fm ?ctx e \<noteq> [] \<longleftrightarrow> en_is_deleted e = Some True" by (simp add: tombstone_def)
    ultimately show ?thesis using None by (cases "tombstone re fm ?ctx e") (auto simp: list_ex_iff)
  next
    case (Some u)
    have "trip_rows re (poll_context re fm ?ctx) e u \<noteq> []"
      by (simp add: trip_rows_def Let_def enumerate_eq_zip)
    moreover have "row_get row ''entity_is_deleted'' = opt_bool (en_is_deleted e)"
      if "row \<in> set (trip_rows re (poll_context re fm ?ctx) e u)" for row
      using trip_rows_flags [OF refl] that by (fastforce simp: list_all_iff)
    ultimately show ?thesis
      using Some by (cases "trip_rows re (poll_context re fm ?ctx) e u")
        (auto simp: list_ex_iff opt_bool_def split: option.splits)
  qed
  then show "list_ex (\<lambda>row. truthy (row_get row ''entity_is_deleted'')) (parse_trip_updates re fm ?ctx) \<longleftrightarrow>
      list_ex (\<lambda>e. en_is_deleted e = Some True) (fm_entities fm)"
    by (simp add: rows list_ex_iff)
qed

lemma collect_rows_deleted:
  "list_ex (\<lambda>row. truthy (row_get row ''entity_is_deleted'')) rows \<Longrightarrow> collect_rows current stamps rows = None"
  by (induction rows arbitrary: current stamps) (auto simp: collect_rows.simps(2) Let_def)

subsection \<open>Properties\<close>

text \<open>
  Claim C22. Presence is read off the message. The parsed rows of a TripUpdates message are refused exactly if
  one of its entities is a deletion; otherwise the trips present are exactly those the entities name, each with
  exactly the stops they list, and every source timestamp is a null or not negative.
\<close>

theorem presence_sees_the_feed:
  "(case collect_rows [] [] (parse_trip_updates re fm (collector_context poll_id started received)) of
      None \<Rightarrow> list_ex (\<lambda>e. en_is_deleted e = Some True) (fm_entities fm)
    | Some (current, stamps) \<Rightarrow>
        list_all (\<lambda>e. en_is_deleted e \<noteq> Some True) (fm_entities fm) \<and> look current = feed_presence fm) \<and>
   rows_stamped (parse_trip_updates re fm (collector_context poll_id started received))"
proof (cases "list_ex (\<lambda>e. en_is_deleted e = Some True) (fm_entities fm)")
  case True
  with message_flags(2) have "collect_rows [] [] (parse_trip_updates re fm (collector_context poll_id started received)) = None"
    by (blast intro: collect_rows_deleted)
  with True message_flags(1) show ?thesis by (simp add: rows_stamped_def)
next
  case False
  then have none: "list_all (\<lambda>e. en_is_deleted e \<noteq> Some True) (fm_entities fm)" by (simp add: list_all_iff list_ex_iff)
  from False have "list_all (\<lambda>row. \<not> truthy (row_get row ''entity_is_deleted''))
      (parse_trip_updates re fm (collector_context poll_id started received))"
    using message_flags(2) [of re fm poll_id started received] by (simp add: list_all_iff list_ex_iff)
  from collect_rows_visits [OF this, of "[]" "[]"] obtain current stamps where
    "collect_rows [] [] (parse_trip_updates re fm (collector_context poll_id started received)) = Some (current, stamps)"
    "look current = feed_presence fm"
    by (auto simp: message_visits [OF none] visits_feed_presence)
  with none message_flags(1) show ?thesis by (simp add: rows_stamped_def)
qed

end
