(* ===== verification/Collector.thy ===== *)
theory Collector
  imports Fetch Parsed_Presence Monitoring Poll_Journal Raw_Log
begin

section \<open>The collector's hot path (bkk_collector/collector.py)\<close>

text \<open>
  \<^verbatim>\<open>process_result\<close> composes the other components for one fetched response: it archives the raw bytes,
  parses them, records presence, selects the changed rows, stages them, archives the raw bytes after all when
  anything failed, and reports what happened to the health monitor and the poll journal.

  The \<open>platform\<close> holds what the source takes from elsewhere: time formatting, hashing, the protobuf decoder,
  JSON, compression and the texts of exceptions. The \<open>deployment\<close> is fixed when the process starts. The
  \<open>collector\<close> is the state in memory and on disk. The outcomes of the file operations of one call are a
  \<open>poll_io\<close>.
\<close>

subsection \<open>State\<close>

record platform =
  pf_utc_iso :: "seconds \<Rightarrow> string"
  pf_date :: "seconds \<Rightarrow> string"
  pf_f64 :: "seconds \<Rightarrow> f64"
  pf_sha256 :: "bytes \<Rightarrow> string"
  pf_decode :: "bytes \<Rightarrow> exn + feed_message \<times> bool"
  pf_render :: renderer
  pf_codec :: codec
  pf_event_json :: "row \<Rightarrow> bytes"
  pf_is_event :: "bytes \<Rightarrow> bool"
  pf_log_exn :: "log_error \<Rightarrow> exn"
  pf_tracker_exn :: "tracker_error \<Rightarrow> exn"
  pf_presence_exn :: "presence_error \<Rightarrow> exn"
  pf_spool_exn :: "spool_error \<Rightarrow> exn"

record deployment =
  dp_config :: collector_config
  dp_trackers :: "feed \<Rightarrow> tracker_config option"
  dp_run_id :: string

text \<open>A partition of the raw logs or the journals is a feed with a date.\<close>

type_synonym partition = "feed \<times> string"

record collector =
  co_last_raw :: "feed \<Rightarrow> seconds option"
  co_auxiliary_sha256 :: "string option"
  co_needs_repair :: "partition list"
  co_trackers :: "feed \<Rightarrow> tracker"
  co_presence :: presence
  co_monitor :: monitor
  co_metadata_written :: bool
  co_raw :: "partition \<Rightarrow> raw_file"
  co_presence_logs :: "string \<Rightarrow> raw_file"
  co_spool :: "key \<Rightarrow> spool_dir"
  co_journals :: "partition \<Rightarrow> journal"

record archive_io =
  ar_now :: seconds
  ar_repairs :: "partition \<Rightarrow> nat"
  ar_append :: append_io

record poll_io =
  io_metadata_ok :: bool
  io_first :: archive_io
  io_auxiliary :: archive_io
  io_fallback :: archive_io
  io_last :: archive_io
  io_presence :: persist_io
  io_presence_uuid :: string
  io_stage :: write_outcome
  io_stage_uuid :: string
  io_save_ok :: bool
  io_journal :: attempt
  io_started :: seconds
  io_finished :: seconds
  io_wall :: seconds

subsection \<open>Archiving the raw response\<close>

text \<open>
  The loop over the logs whose last append failed: one of another partition that cannot be repaired is left
  for later, but the partition that is about to be appended to must be repaired.
\<close>

fun repair_pending ::
  "platform \<Rightarrow> (partition \<Rightarrow> nat) \<Rightarrow> partition \<Rightarrow> partition list \<Rightarrow> collector \<Rightarrow> log_error option \<times> collector" where
  "repair_pending pf budgets target [] c = (None, c)"
| "repair_pending pf budgets target (p # ps) c =
     (if fst p \<noteq> fst target then repair_pending pf budgets target ps c
      else case repair_truncated_tail (c_gunzip (pf_codec pf)) (budgets p) (co_raw c p) of
          (Inl e, f) \<Rightarrow>
            let c' = c\<lparr>co_raw := (co_raw c)(p := f)\<rparr>
            in if p = target then (Some e, c') else repair_pending pf budgets target ps c'
        | (Inr _, f) \<Rightarrow>
            repair_pending pf budgets target ps
              (c\<lparr>co_raw := (co_raw c)(p := f), co_needs_repair := removeAll p (co_needs_repair c)\<rparr>))"

definition raw_path :: "partition \<Rightarrow> string" where
  "raw_path p = ''raw/'' @ feed_name (fst p) @ ''/date='' @ snd p @ ''/'' @ feed_name (fst p) @ ''.rawlog''"

text \<open>The result: whether the record was written, whether all is well, and the path or the error.\<close>

type_synonym archived = "bool \<times> bool \<times> string option"

definition archive_raw ::
  "platform \<Rightarrow> deployment \<Rightarrow> archive_io \<Rightarrow> bool \<Rightarrow> feed \<Rightarrow> string \<Rightarrow> seconds \<Rightarrow> bytes \<Rightarrow> collector \<Rightarrow> archived \<times> collector" where
  "archive_raw pf dp io force f date received payload c =
     (let interval = num_val (raw_archive_intervals (dp_config dp) f);
          due = (force \<or> (case co_last_raw c f of None \<Rightarrow> True | Some t \<Rightarrow> ar_now io - t \<ge> interval));
          target = (f, date);
          failed = (\<lambda>e c. ((False, False, Some (redact_error (pf_log_exn pf e) (api_key (dp_config dp)))),
                           c\<lparr>co_needs_repair := List.insert target (co_needs_repair c)\<rparr>))
      in if \<not> due then ((False, True, None), c)
         else case repair_pending pf (ar_repairs io) target (co_needs_repair c) c of
             (Some e, c1) \<Rightarrow> failed e c1
           | (None, c1) \<Rightarrow>
               (case append_record (c_compress (pf_codec pf)) (ar_append io) (pf_f64 pf received) payload
                       (raw_fsync (dp_config dp)) (co_raw c1 target) of
                  (Some e, file') \<Rightarrow> failed e (c1\<lparr>co_raw := (co_raw c1)(target := file')\<rparr>)
                | (None, file') \<Rightarrow>
                    ((True, True, Some (raw_path target)),
                     c1\<lparr>co_raw := (co_raw c1)(target := file'),
                        co_last_raw := (co_last_raw c1)(f \<mapsto> ar_now io)\<rparr>)))"

subsection \<open>Parsing the response\<close>

definition parse_feed :: "platform \<Rightarrow> bytes \<Rightarrow> exn + feed_message" where
  "parse_feed pf raw =
     (case pf_decode pf raw of
        Inl e \<Rightarrow> Inl e
      | Inr (fm, initialized) \<Rightarrow>
          if initialized then Inr fm
          else Inl \<lparr>ex_class = ''ValueError'', ex_text = ''GTFS-RT message is missing required fields''\<rparr>)"

fun expected_payload :: "feed \<Rightarrow> string" where
  "expected_payload Vehiclepositions = ''vehicle''"
| "expected_payload Tripupdates = ''trip_update''"
| "expected_payload Alerts = ''alert''"

definition entity_payloads :: "entity \<Rightarrow> string list" where
  "entity_payloads e =
     remdups ((if en_vehicle e \<noteq> None then [''vehicle''] else []) @
       (if en_trip_update e \<noteq> None then [''trip_update''] else []) @
       (if en_alert e \<noteq> None then [''alert''] else []) @ en_other e)"

definition validate_feed_entities :: "feed \<Rightarrow> feed_message \<Rightarrow> bool" where
  "validate_feed_entities f fm =
     list_all (\<lambda>e. en_is_deleted e = Some True \<or>
       (length (entity_payloads e) = 1 \<and>
        list_all (\<lambda>p. p \<in> {expected_payload f, ''shape'', ''stop'', ''trip_modifications''}) (entity_payloads e)))
       (fm_entities fm)"

definition digest_all :: "platform \<Rightarrow> bytes list \<Rightarrow> string" where
  "digest_all pf bss = pf_sha256 pf (concat (map (\<lambda>bs. be_bytes 8 (length bs) @ bs) (sort bss)))"

record parsed =
  pa_feed :: "feed_message option"
  pa_ok :: bool
  pa_content :: string
  pa_rows :: "row list"
  pa_error :: "string option"

definition parse_response :: "platform \<Rightarrow> deployment \<Rightarrow> fetch_result \<Rightarrow> bytes \<Rightarrow> parsed" where
  "parse_response pf dp r payload =
     (let failed = (\<lambda>fm e. \<lparr>pa_feed = fm, pa_ok = False, pa_content = pf_sha256 pf payload, pa_rows = [],
                            pa_error = Some (redact_error e (api_key (dp_config dp)))\<rparr>)
      in case parse_feed pf payload of
           Inl e \<Rightarrow> failed None e
         | Inr fm \<Rightarrow>
             if \<not> validate_feed_entities (fr_feed r) fm
             then failed (Some fm) \<lparr>ex_class = ''ValueError'', ex_text =
                    feed_name (fr_feed r) @ '' response contains an unexpected or invalid entity type''\<rparr>
             else \<lparr>pa_feed = Some fm, pa_ok = True, pa_content = digest_all pf (map en_bytes (fm_entities fm)),
                   pa_rows = PARSERS (fr_feed r) (pf_render pf) fm
                     (collector_context (fr_poll_id r) (fr_request_started_at r) (fr_response_received_at r)),
                   pa_error = None\<rparr>)"

text \<open>The entities of a TripUpdates message that have no rows.\<close>

definition auxiliary_entities :: "feed_message \<Rightarrow> bytes list" where
  "auxiliary_entities fm =
     map en_deterministic
       [e \<leftarrow> fm_entities fm. list_ex (\<lambda>k. k \<in> set (en_other e)) [''shape'', ''stop'', ''trip_modifications'']]"

definition auxiliary_sha256 :: "platform \<Rightarrow> feed \<Rightarrow> parsed \<Rightarrow> string option" where
  "auxiliary_sha256 pf f p =
     (case pa_feed p of
        Some fm \<Rightarrow> if pa_ok p \<and> f = Tripupdates then Some (digest_all pf (auxiliary_entities fm)) else None
      | None \<Rightarrow> None)"

subsection \<open>Presence, change tracking and staging\<close>

definition presence_context :: "fetch_result \<Rightarrow> feed_message \<Rightarrow> row" where
  "presence_context r fm =
     collector_context (fr_poll_id r) (fr_request_started_at r) (fr_response_received_at r) @
     [(''feed_header_timestamp'', opt_unsigned (fm_timestamp fm)),
      (''feed_incrementality'', PInt (case fm_incrementality fm of None \<Rightarrow> 0 | Some i \<Rightarrow> sint i))]"

definition presence_details :: "presence_event \<Rightarrow> row" where
  "presence_details ev =
     [(''presence_path'', PStr (ev_path ev)), (''presence_kind'', PStr (ev_kind ev)),
      (''presence_stream_id'', PStr (ev_stream_id ev)), (''presence_sequence'', PInt (ev_sequence ev)),
      (''present_trips'', PInt (ev_present_trips ev)), (''present_stop_visits'', PInt (ev_present_stop_visits ev)),
      (''presence_source_timestamps_version'', PInt (ev_source_timestamps_version ev))]"

definition record_presence ::
  "platform \<Rightarrow> deployment \<Rightarrow> poll_io \<Rightarrow> fetch_result \<Rightarrow> string \<Rightarrow> parsed \<Rightarrow> collector \<Rightarrow>
   (bool \<times> row \<times> string option) \<times> collector" where
  "record_presence pf dp io r date p c =
     (if fr_feed r \<noteq> Tripupdates then ((True, [], None), c)
      else case (pa_ok p, pa_feed p) of
          (True, Some fm) \<Rightarrow>
            (case observe (pf_codec pf) (dp_run_id dp) (io_presence_uuid io) (io_presence io) (pa_rows p) date
                    (pf_f64 pf (fr_response_received_ts r)) (presence_context r fm) (co_presence c)
                    (co_presence_logs c date) of
               (res, p', log') \<Rightarrow>
                 (case res of
                    Inl e \<Rightarrow> (False, [], Some (redact_error (pf_presence_exn pf e) (api_key (dp_config dp))))
                  | Inr ev \<Rightarrow> (True, presence_details ev, None),
                  c\<lparr>co_presence := p', co_presence_logs := (co_presence_logs c)(date := log')\<rparr>))
        | _ \<Rightarrow> ((False, [], None), c\<lparr>co_presence := invalidate (co_presence c) ''parse_observation_gap''\<rparr>))"

fun is_signal_error :: "tracker_error \<Rightarrow> bool" where
  "is_signal_error (ChangeTrackerSignalError _) = True"
| "is_signal_error _ = False"

text \<open>The rows that changed, or the error and its health flag.\<close>

definition select_changed ::
  "platform \<Rightarrow> deployment \<Rightarrow> fetch_result \<Rightarrow> string \<Rightarrow> parsed \<Rightarrow> collector \<Rightarrow>
   (string \<times> string + row list) \<times> collector" where
  "select_changed pf dp r date p c =
     (if \<not> pa_ok p then (Inr [], c)
      else case dp_trackers dp (fr_feed r) of
          None \<Rightarrow> (Inr (pa_rows p), c)
        | Some tc \<Rightarrow>
            (case filter_rows tc (co_trackers c (fr_feed r)) (pa_rows p) date (fr_response_received_ts r) False of
               (res, t) \<Rightarrow>
                 (case res of
                    Inl e \<Rightarrow> Inl (redact_error (pf_tracker_exn pf e) (api_key (dp_config dp)),
                                 if is_signal_error e then ''change_tracker_signal_missing'' else ''change_tracker_failed'')
                  | Inr rows \<Rightarrow> Inr rows,
                  c\<lparr>co_trackers := (co_trackers c)(fr_feed r := t)\<rparr>)))"

definition spool_path :: "key \<Rightarrow> string \<Rightarrow> string" where
  "spool_path key name = ''spool/'' @ fst key @ ''/date='' @ snd key @ ''/'' @ name"

text \<open>The tracker advances only after the segment is staged.\<close>

definition stage_rows ::
  "platform \<Rightarrow> deployment \<Rightarrow> poll_io \<Rightarrow> fetch_result \<Rightarrow> string \<Rightarrow> row list \<Rightarrow> collector \<Rightarrow>
   (string + string option) \<times> collector" where
  "stage_rows pf dp io r date rows c =
     (let key = (feed_name (fr_feed r), date)
      in case stage (io_stage io) (io_stage_uuid io) key (fr_poll_id r) rows (co_spool c) of
           (Inl e, sp) \<Rightarrow>
             (Inl (redact_error (pf_spool_exn pf e) (api_key (dp_config dp))), c\<lparr>co_spool := sp\<rparr>)
         | (Inr staged, sp) \<Rightarrow>
             (Inr (map_option (spool_path key) staged),
              c\<lparr>co_spool := sp,
                co_trackers :=
                  (case dp_trackers dp (fr_feed r) of
                     None \<Rightarrow> co_trackers c
                   | Some tc \<Rightarrow> (co_trackers c)(fr_feed r :=
                       commit tc (co_trackers c (fr_feed r)) rows date (fr_response_received_ts r)))\<rparr>))"

subsection \<open>Ingesting a response\<close>

text \<open>What became of a response.\<close>

record outcome =
  oc_parsed :: parsed
  oc_raw_archived :: bool
  oc_raw_ok :: bool
  oc_raw_error :: "string option"
  oc_presence_ok :: bool
  oc_presence_details :: row
  oc_presence_error :: "string option"
  oc_tracking_ok :: bool
  oc_tracking_error :: "string option"
  oc_tracking_flag :: "string option"
  oc_rows :: "row list"
  oc_spool_ok :: bool
  oc_spool_path :: "string option"
  oc_spool_error :: "string option"
  oc_auxiliary :: "string option"
  oc_auxiliary_changed :: bool

definition incomplete :: "outcome \<Rightarrow> bool" where
  "incomplete oc \<longleftrightarrow> \<not> pa_ok (oc_parsed oc) \<or> \<not> oc_tracking_ok oc \<or> \<not> oc_spool_ok oc \<or> \<not> oc_presence_ok oc"

text \<open>The archive, once more with force when the auxiliary entities changed.\<close>

definition archive_and_parse ::
  "platform \<Rightarrow> deployment \<Rightarrow> poll_io \<Rightarrow> fetch_result \<Rightarrow> string \<Rightarrow> bytes \<Rightarrow> collector \<Rightarrow>
   parsed \<times> archived \<times> string option \<times> bool \<times> collector" where
  "archive_and_parse pf dp io r date payload c =
     (case archive_raw pf dp (io_first io) False (fr_feed r) date (fr_response_received_ts r) payload c of
        (first, c1) \<Rightarrow>
          let p = parse_response pf dp r payload;
              sha = auxiliary_sha256 pf (fr_feed r) p;
              changed = (sha \<noteq> None \<and> sha \<noteq> co_auxiliary_sha256 c1)
          in if changed \<and> \<not> fst first
             then (case archive_raw pf dp (io_auxiliary io) True (fr_feed r) date (fr_response_received_ts r) payload c1 of
                     (second, c2) \<Rightarrow> (p, second, sha, changed, c2))
             else (p, first, sha, changed, c1))"

definition derive ::
  "platform \<Rightarrow> deployment \<Rightarrow> poll_io \<Rightarrow> fetch_result \<Rightarrow> string \<Rightarrow> parsed \<times> archived \<times> string option \<times> bool \<times> collector \<Rightarrow>
   outcome \<times> collector" where
  "derive pf dp io r date x =
     (case x of (p, (archived, raw_ok, raw_error), sha, changed, c2) \<Rightarrow>
      case record_presence pf dp io r date p c2 of ((presence_ok, details, presence_error), c3) \<Rightarrow>
      case select_changed pf dp r date p c3 of (selected, c4) \<Rightarrow>
      let rows = (case selected of Inl _ \<Rightarrow> [] | Inr rows \<Rightarrow> rows) in
      case (if pa_ok p \<and> (case selected of Inl _ \<Rightarrow> False | Inr _ \<Rightarrow> True) then stage_rows pf dp io r date rows c4 else (Inr None, c4)) of
        (staged, c5) \<Rightarrow>
          (\<lparr>oc_parsed = p, oc_raw_archived = archived, oc_raw_ok = raw_ok, oc_raw_error = raw_error,
            oc_presence_ok = presence_ok, oc_presence_details = details, oc_presence_error = presence_error,
            oc_tracking_ok = (case selected of Inl _ \<Rightarrow> False | Inr _ \<Rightarrow> True),
            oc_tracking_error = (case selected of Inl (e, _) \<Rightarrow> Some e | Inr _ \<Rightarrow> None),
            oc_tracking_flag = (case selected of Inl (_, flag) \<Rightarrow> Some flag | Inr _ \<Rightarrow> None),
            oc_rows = rows,
            oc_spool_ok = (case staged of Inl _ \<Rightarrow> False | Inr _ \<Rightarrow> True),
            oc_spool_path = (case staged of Inl _ \<Rightarrow> None | Inr path \<Rightarrow> path),
            oc_spool_error = (case staged of Inl e \<Rightarrow> Some e | Inr _ \<Rightarrow> None),
            oc_auxiliary = sha, oc_auxiliary_changed = changed\<rparr>, c5))"

text \<open>The full snapshot when anything failed, and the signature of the auxiliary entities.\<close>

definition ingest ::
  "platform \<Rightarrow> deployment \<Rightarrow> poll_io \<Rightarrow> fetch_result \<Rightarrow> string \<Rightarrow> bytes \<Rightarrow> collector \<Rightarrow> outcome \<times> collector" where
  "ingest pf dp io r date payload c =
     (case derive pf dp io r date (archive_and_parse pf dp io r date payload c) of (oc, c5) \<Rightarrow>
      case (if incomplete oc \<and> \<not> oc_raw_archived oc
            then (case archive_raw pf dp (io_fallback io) True (fr_feed r) date (fr_response_received_ts r) payload c5 of
                    ((archived, raw_ok, raw_error), c6) \<Rightarrow>
                      (oc\<lparr>oc_raw_archived := archived, oc_raw_ok := raw_ok, oc_raw_error := raw_error\<rparr>, c6))
            else (oc, c5)) of
        (oc', c6) \<Rightarrow>
          (oc', if oc_auxiliary oc' \<noteq> None \<and> oc_raw_archived oc' \<and> oc_raw_ok oc'
                then c6\<lparr>co_auxiliary_sha256 := oc_auxiliary oc'\<rparr> else c6))"

subsection \<open>Reporting\<close>

definition health_config_of :: "collector_config \<Rightarrow> health_config" where
  "health_config_of cfg =
     \<lparr>hc_stale_seconds = num_val (feed_stale_seconds cfg), hc_absent_seconds = num_val (feed_absent_seconds cfg),
      hc_frozen_seconds = num_val (frozen_payload_seconds cfg),
      hc_alerts_frozen_seconds = num_val (alerts_frozen_payload_seconds cfg)\<rparr>"

definition report_outcome :: "fetch_result \<Rightarrow> bytes \<Rightarrow> outcome \<Rightarrow> poll_report" where
  "report_outcome r payload oc =
     \<lparr>rp_now = fr_response_received_ts r,
      rp_header_timestamp =
        (case pa_feed (oc_parsed oc) of None \<Rightarrow> None | Some fm \<Rightarrow> map_option uint (fm_timestamp fm)),
      rp_content_sha256 = pa_content (oc_parsed oc),
      rp_entity_range =
        (case pa_feed (oc_parsed oc) of
           None \<Rightarrow> (None, None) | Some fm \<Rightarrow> entity_timestamp_range (fr_feed r) (fm_entities fm)),
      rp_parse_ok = pa_ok (oc_parsed oc), rp_presence_ok = oc_presence_ok oc,
      rp_change_tracking_ok = oc_tracking_ok oc, rp_change_tracking_failure_flag = oc_tracking_flag oc,
      rp_raw_ok = oc_raw_ok oc, rp_spool_ok = oc_spool_ok oc,
      rp_entity_count =
        (case pa_feed (oc_parsed oc) of None \<Rightarrow> None | Some fm \<Rightarrow> Some (int (length (fm_entities fm)))),
      rp_response_received_at = fr_response_received_at r, rp_http_status = fr_http_status r,
      rp_payload_size = int (length payload)\<rparr>"

text \<open>\<^verbatim>\<open>round(x, 3)\<close>, half to even.\<close>

definition round3 :: "rat \<Rightarrow> rat" where
  "round3 x =
     (let y = x * 1000; n = \<lfloor>y\<rfloor>; d = y - of_int n
      in of_int (if d < 1 / 2 \<or> (d = 1 / 2 \<and> even n) then n else n + 1) / 1000)"

type_synonym schedule_item = "fetch_result scheduled_result"

definition schedule_event_fields :: "platform \<Rightarrow> schedule_item option \<Rightarrow> row" where
  "schedule_event_fields pf schedule =
     (case schedule of
        None \<Rightarrow> [(''scheduled_for_at'', PNone), (''scheduler_lag_ms'', PNone),
                 (''missed_deadlines_before_request'', PInt 0)]
      | Some s \<Rightarrow> [(''scheduled_for_at'', PStr (pf_utc_iso pf (sr_scheduled_for_at s))),
                   (''scheduler_lag_ms'', PFloat (round3 (sr_scheduler_lag_ms s))),
                   (''missed_deadlines_before_request'', PInt (sr_missed_before s))])"

definition event_identity :: "deployment \<Rightarrow> fetch_result \<Rightarrow> row" where
  "event_identity dp r =
     [(''version'', PInt 1), (''poll_id'', PStr (fr_poll_id r)), (''run_id'', PStr (dp_run_id dp)),
      (''feed'', PStr (feed_name (fr_feed r)))]"

definition event_timing :: "platform \<Rightarrow> deployment \<Rightarrow> fetch_result \<Rightarrow> schedule_item option \<Rightarrow> row" where
  "event_timing pf dp r schedule =
     (''poll_interval_seconds'', PFloat (num_val (feed_interval (dp_config dp) (fr_feed r)))) #
     schedule_event_fields pf schedule @
     [(''request_started_at'', PStr (fr_request_started_at r)),
      (''response_received_at'', PStr (fr_response_received_at r)),
      (''http_status'', opt_int (fr_http_status r)), (''latency_ms'', PFloat (round3 (fr_latency_ms r)))]"

definition failure_event :: "platform \<Rightarrow> deployment \<Rightarrow> fetch_result \<Rightarrow> schedule_item option \<Rightarrow> row" where
  "failure_event pf dp r schedule =
     dict_of [event_identity dp r,
       [(''presence_required'', PBool (fr_feed r = Tripupdates)),
        (''presence_ok'', if fr_feed r = Tripupdates then PBool False else PNone)],
       event_timing pf dp r schedule,
       [(''success'', PBool False), (''error'', opt_str (fr_error r)), (''payload_size'', PNone),
        (''payload_sha256'', PNone), (''raw_due'', PBool False), (''raw_archived'', PBool False),
        (''parse_ok'', PBool False), (''parsed_rows'', PInt 0), (''selected_rows'', PInt 0), (''emitted_rows'', PInt 0)]]"

text \<open>\<^verbatim>\<open>parse_error or change_tracking_error or spool_error or presence_error\<close>\<close>

definition first_error :: "outcome \<Rightarrow> pyval" where
  "first_error oc =
     py_or (opt_str (pa_error (oc_parsed oc)))
       (py_or (opt_str (oc_tracking_error oc)) (py_or (opt_str (oc_spool_error oc)) (opt_str (oc_presence_error oc))))"

definition feed_fields :: "feed \<Rightarrow> feed_message option \<Rightarrow> row" where
  "feed_fields f x =
     (case x of
        None \<Rightarrow> map (\<lambda>k. (k, PNone)) [''feed_header_timestamp'', ''feed_header_version'', ''gtfs_realtime_version'',
                  ''feed_incrementality'', ''min_entity_timestamp'', ''max_entity_timestamp'', ''entity_count'']
      | Some fm \<Rightarrow>
          [(''feed_header_timestamp'', opt_unsigned (fm_timestamp fm)),
           (''feed_header_version'', opt_str (fm_feed_version fm)),
           (''gtfs_realtime_version'', PStr (fm_gtfs_realtime_version fm)),
           (''feed_incrementality'', PInt (case fm_incrementality fm of None \<Rightarrow> 0 | Some i \<Rightarrow> sint i)),
           (''min_entity_timestamp'', opt_int (fst (entity_timestamp_range f (fm_entities fm)))),
           (''max_entity_timestamp'', opt_int (snd (entity_timestamp_range f (fm_entities fm)))),
           (''entity_count'', PInt (int (length (fm_entities fm))))])"

definition success_event ::
  "platform \<Rightarrow> deployment \<Rightarrow> poll_io \<Rightarrow> fetch_result \<Rightarrow> schedule_item option \<Rightarrow> string \<Rightarrow> bytes \<Rightarrow> outcome \<Rightarrow> string list \<Rightarrow> row" where
  "success_event pf dp io r schedule date payload oc flags =
     (let trip = (fr_feed r = Tripupdates); p = oc_parsed oc
      in dict_of
        [event_identity dp r, event_timing pf dp r schedule,
         [(''success'', PBool True), (''error'', first_error oc),
          (''processing_latency_ms'', PFloat (round3 ((io_finished io - io_started io) * 1000))),
          (''processing_queue_latency_ms'', PFloat (round3 (max 0 (io_wall io - fr_response_received_ts r) * 1000))),
          (''presence_required'', PBool trip),
          (''presence_ok'', if trip then PBool (oc_presence_ok oc) else PNone),
          (''presence_error'', opt_str (oc_presence_error oc))],
         oc_presence_details oc,
         [(''parse_error'', opt_str (pa_error p)), (''change_tracking_ok'', PBool (oc_tracking_ok oc)),
          (''change_tracking_error'', opt_str (oc_tracking_error oc)),
          (''change_tracking_failure_flag'', opt_str (oc_tracking_flag oc)),
          (''spool_error'', opt_str (oc_spool_error oc)), (''payload_size'', PInt (int (length payload))),
          (''payload_sha256'', PStr (pf_sha256 pf payload)), (''entity_content_sha256'', PStr (pa_content p))],
         feed_fields (fr_feed r) (pa_feed p),
         [(''freshness_flags'', PList (map PStr flags)),
          (''raw_due'', PBool (oc_raw_archived oc \<or> \<not> oc_raw_ok oc)),
          (''raw_archive_interval_seconds'', PFloat (num_val (raw_archive_intervals (dp_config dp) (fr_feed r)))),
          (''raw_archived'', PBool (oc_raw_archived oc)), (''raw_ok'', PBool (oc_raw_ok oc)),
          (''raw_path'', if oc_raw_archived oc then PStr (raw_path (fr_feed r, date)) else PNone),
          (''raw_error'', opt_str (oc_raw_error oc)),
          (''trip_auxiliary_entities'',
             if trip then PInt (if pa_ok p then case pa_feed p of None \<Rightarrow> 0
                                  | Some fm \<Rightarrow> int (length (auxiliary_entities fm)) else 0) else PNone),
          (''trip_auxiliary_sha256'', opt_str (oc_auxiliary oc)),
          (''trip_auxiliary_state_changed'', if trip then PBool (oc_auxiliary_changed oc) else PNone),
          (''parse_ok'', PBool (pa_ok p)), (''parsed_rows'', PInt (int (length (pa_rows p)))),
          (''selected_rows'', PInt (if pa_ok p \<and> oc_tracking_ok oc then int (length (oc_rows oc)) else 0)),
          (''emitted_rows'',
             PInt (if pa_ok p \<and> oc_tracking_ok oc \<and> oc_spool_ok oc then int (length (oc_rows oc)) else 0)),
          (''spool_ok'', PBool (oc_spool_ok oc)), (''spool_path'', opt_str (oc_spool_path oc))]])"

subsection \<open>Processing a result\<close>

definition journal_event ::
  "platform \<Rightarrow> poll_io \<Rightarrow> partition \<Rightarrow> row \<Rightarrow> string list \<Rightarrow> collector \<Rightarrow> bool \<times> string list \<times> collector" where
  "journal_event pf io part event errors c =
     (case append_poll_jsonl (pf_is_event pf) ((io_journal io)\<lparr>a_line := pf_event_json pf event\<rparr>) (co_journals c part) of
        (ok, j) \<Rightarrow>
          (ok, if ok then errors else errors @ [feed_name (fst part) @ '':poll_journal_failed''],
           c\<lparr>co_journals := (co_journals c)(part := j),
             co_monitor := set_poll_journal_ok (fst part) ok (co_monitor c)\<rparr>))"

definition write_run_metadata :: "bool \<Rightarrow> string list \<Rightarrow> collector \<Rightarrow> string list \<times> collector" where
  "write_run_metadata ok errors c =
     (if co_metadata_written c then (errors, c)
      else if ok then (errors, c\<lparr>co_metadata_written := True\<rparr>)
      else (errors @ [''run_metadata_write_failed''], c))"

definition or_unknown_failure :: "string option \<Rightarrow> string" where
  "or_unknown_failure e =
     (case e of None \<Rightarrow> ''unknown fetch failure'' | Some s \<Rightarrow> if s = [] then ''unknown fetch failure'' else s)"

text \<open>The first component says whether the call raised, which it does when the health state cannot be saved.\<close>

definition process_failure ::
  "platform \<Rightarrow> deployment \<Rightarrow> poll_io \<Rightarrow> fetch_result \<Rightarrow> schedule_item option \<Rightarrow> string list \<Rightarrow> collector \<Rightarrow>
   bool \<times> string list \<times> collector" where
  "process_failure pf dp io r schedule errors c =
     (let f = fr_feed r; date = pf_date pf (fr_response_received_ts r);
          c1 = (if f = Tripupdates then c\<lparr>co_presence := invalidate (co_presence c) ''http_observation_gap''\<rparr> else c)
      in case record_failure (pf_utc_iso pf) (io_save_ok io) f (fr_response_received_ts r)
                (or_unknown_failure (fr_error r)) (fr_http_status r) (co_monitor c1) of
           (saved, m) \<Rightarrow>
             let c2 = c1\<lparr>co_monitor := m\<rparr>
             in if \<not> saved then (True, errors, c2)
                else (False, snd (journal_event pf io (f, date) (failure_event pf dp r schedule) errors c2)))"

definition process_payload ::
  "platform \<Rightarrow> deployment \<Rightarrow> poll_io \<Rightarrow> fetch_result \<Rightarrow> schedule_item option \<Rightarrow> bytes \<Rightarrow> string list \<Rightarrow> collector \<Rightarrow>
   bool \<times> string list \<times> collector" where
  "process_payload pf dp io r schedule payload errors c =
     (let f = fr_feed r; date = pf_date pf (fr_response_received_ts r)
      in case ingest pf dp io r date payload c of (oc, c1) \<Rightarrow>
         case record_success (health_config_of (dp_config dp)) (pf_utc_iso pf) (io_save_ok io) f
                (report_outcome r payload oc) (co_monitor c1) of
           (None, m) \<Rightarrow> (True, errors, c1\<lparr>co_monitor := m\<rparr>)
         | (Some flags, m) \<Rightarrow>
             (case journal_event pf io (f, date) (success_event pf dp io r schedule date payload oc flags) errors
                     (c1\<lparr>co_monitor := m\<rparr>) of
                (ok, errors', c2) \<Rightarrow>
                  (False, errors',
                   if \<not> ok \<and> \<not> oc_raw_archived oc
                   then snd (archive_raw pf dp (io_last io) True f date (fr_response_received_ts r) payload c2)
                   else c2)))"

definition process_result ::
  "platform \<Rightarrow> deployment \<Rightarrow> poll_io \<Rightarrow> fetch_result \<Rightarrow> schedule_item option \<Rightarrow> string list \<Rightarrow> collector \<Rightarrow>
   bool \<times> string list \<times> collector" where
  "process_result pf dp io r schedule errors c =
     (case write_run_metadata (io_metadata_ok io) errors c of (errors1, c1) \<Rightarrow>
        (case fr_payload r of
           None \<Rightarrow> process_failure pf dp io r schedule errors1 c1
         | Some payload \<Rightarrow> process_payload pf dp io r schedule payload errors1 c1))"

subsection \<open>Status\<close>

text \<open>
  Without a commit worker the call flushes the spool itself. \<open>disk_free\<close> is what \<^verbatim>\<open>shutil.disk_usage\<close> reports;
  \<open>write_ok\<close> says whether the status file can be written. The texts of flush errors come from \<open>flush_texts\<close>.
\<close>

record status_io =
  sx_now :: seconds
  sx_disk_free :: int
  sx_write_ok :: bool
  sx_worker_now :: seconds
  sx_flush :: "(key \<Rightarrow> spool_dir) \<Rightarrow> (key \<Rightarrow> spool_dir) \<times> flush_result"
  sx_flush_texts :: "(key \<times> spool_error) list option \<Rightarrow> string list"

definition disk_bytes :: "pynum \<Rightarrow> int" where
  "disk_bytes gb = \<lfloor>num_val gb * 1000000000\<rfloor>"

definition status_unwritten :: status where
  "status_unwritten = \<lparr>st_healthy = False, st_reasons = [''health_status_write_failed''], st_warnings = [], st_feeds = []\<rparr>"

definition commit_and_write_status ::
  "deployment \<Rightarrow> status_io \<Rightarrow> worker option \<Rightarrow> string list \<Rightarrow> (feed \<times> feed_snapshot) list \<Rightarrow> collector \<Rightarrow> status \<times> collector" where
  "commit_and_write_status dp io w errors sched c =
     (case (case w of
              Some worker \<Rightarrow> (sx_flush_texts io (w_errors worker), c)
            | None \<Rightarrow> (case sx_flush io (co_spool c) of
                         (sp, res) \<Rightarrow> (sx_flush_texts io (Some (fr_errors res)), c\<lparr>co_spool := sp\<rparr>))) of
        (flush_errors, c1) \<Rightarrow>
          (if sx_write_ok io
           then write_status (health_config_of (dp_config dp))
                  \<lparr>si_now = sx_now io, si_disk_free = sx_disk_free io,
                   si_disk_warn = disk_bytes (disk_warn_free_gb (dp_config dp)),
                   si_disk_critical = disk_bytes (disk_critical_free_gb (dp_config dp)),
                   si_parquet_flush_errors = flush_errors, si_cycle_errors = errors, si_scheduler = sched,
                   si_worker = map_option (worker_snapshot (sx_worker_now io)) w\<rparr> (co_monitor c1)
           else status_unwritten, c1))"

text \<open>The one-shot helper: the results in the order in which the requests complete; \<open>None\<close> is a failed worker.\<close>

fun poll_all ::
  "platform \<Rightarrow> deployment \<Rightarrow> (feed \<times> (fetch_result \<times> poll_io) option) list \<Rightarrow> string list \<Rightarrow> collector \<Rightarrow> string list \<times> collector" where
  "poll_all pf dp [] errors c = (errors, c)"
| "poll_all pf dp ((f, None) # xs) errors c =
     poll_all pf dp xs (errors @ [feed_name f @ '':unexpected_fetch_worker_failure'']) c"
| "poll_all pf dp ((f, Some (r, io)) # xs) errors c =
     (case process_result pf dp io r None errors c of
        (raised, errors', c') \<Rightarrow>
          poll_all pf dp xs (if raised then errors' @ [feed_name f @ '':unexpected_processing_failure''] else errors') c')"

definition poll_once ::
  "platform \<Rightarrow> deployment \<Rightarrow> (feed \<times> (fetch_result \<times> poll_io) option) list \<Rightarrow> status_io \<Rightarrow> collector \<Rightarrow> status \<times> collector" where
  "poll_once pf dp xs sio c =
     (case poll_all pf dp xs [] c of (errors, c') \<Rightarrow> commit_and_write_status dp sio None errors [] c')"

subsection \<open>The main loop\<close>

record runtime =
  ru_collector :: collector
  ru_scheduler :: "fetch_result scheduler"
  ru_worker :: worker
  ru_cycle_errors :: "string list"
  ru_last_status :: "seconds option"

text \<open>One item of the scheduler; \<open>gap\<close> says whether a raise in processing also invalidates presence.\<close>

definition handle_item ::
  "platform \<Rightarrow> deployment \<Rightarrow> poll_io \<Rightarrow> bool \<Rightarrow> schedule_item \<Rightarrow> string list \<Rightarrow> collector \<Rightarrow> string list \<times> collector" where
  "handle_item pf dp io gap item errors c =
     (let f = sr_feed item;
          invalid = (\<lambda>reason c. if f = Tripupdates then c\<lparr>co_presence := invalidate (co_presence c) reason\<rparr> else c)
      in case (sr_worker_error item, sr_value item) of
           (None, Some r) \<Rightarrow>
             (case process_result pf dp io r (Some item) errors c of
                (raised, errors', c') \<Rightarrow>
                  if raised
                  then (errors' @ [feed_name f @ '':unexpected_processing_failure''],
                        if gap then invalid ''unexpected_processing_gap'' c' else c')
                  else (errors', c'))
         | _ \<Rightarrow> (if gap then errors @ [feed_name f @ '':unexpected_fetch_worker_failure''] else errors,
                  invalid ''http_observation_gap'' c))"

text \<open>An iteration of the loop. \<^verbatim>\<open>float("-inf")\<close> as the time of the last status is \<open>None\<close>.\<close>

definition run_iteration ::
  "platform \<Rightarrow> deployment \<Rightarrow> poll_io \<Rightarrow> status_io \<Rightarrow> seconds \<Rightarrow> runtime \<Rightarrow> runtime" where
  "run_iteration pf dp io sio now ru =
     (case get (ru_scheduler ru) of (item, sc) \<Rightarrow>
        let ru1 = (case item of
              None \<Rightarrow> ru\<lparr>ru_scheduler := sc\<rparr>
            | Some x \<Rightarrow>
                (case handle_item pf dp io True x (ru_cycle_errors ru) (ru_collector ru) of
                   (errors, c) \<Rightarrow>
                     ru\<lparr>ru_scheduler := acknowledge x sc, ru_collector := c, ru_cycle_errors := errors\<rparr>))
        in if item \<noteq> None \<or> (case ru_last_status ru1 of None \<Rightarrow> True | Some t \<Rightarrow> now - t \<ge> 5)
           then ru1\<lparr>ru_collector := snd (commit_and_write_status dp sio (Some (ru_worker ru1)) (ru_cycle_errors ru1)
                      (snapshot now (ru_scheduler ru1)) (ru_collector ru1)),
                    ru_cycle_errors := [], ru_last_status := Some now\<rparr>
           else ru1)"

fun drain_items ::
  "platform \<Rightarrow> deployment \<Rightarrow> (nat \<Rightarrow> poll_io) \<Rightarrow> schedule_item list \<Rightarrow> string list \<Rightarrow> collector \<Rightarrow> string list \<times> collector" where
  "drain_items pf dp ios [] errors c = (errors, c)"
| "drain_items pf dp ios (item # items) errors c =
     (case handle_item pf dp (ios (length items)) False item errors c of
        (errors', c') \<Rightarrow> drain_items pf dp ios items errors' c')"

text \<open>Shutdown: the remaining results are processed even when the scheduler's drain raises, in which case there are none.\<close>

definition shut_down ::
  "platform \<Rightarrow> deployment \<Rightarrow> (nat \<Rightarrow> poll_io) \<Rightarrow> seconds \<Rightarrow> seconds \<Rightarrow> (feed \<Rightarrow> string) \<Rightarrow> bool \<Rightarrow> runtime \<Rightarrow> bool \<times> runtime" where
  "shut_down pf dp ios now wall uuid ends ru =
     (let ru1 = (case stop_and_drain now wall uuid (ru_scheduler ru) of
              Inl _ \<Rightarrow> ru
            | Inr (items, sc) \<Rightarrow>
                (case drain_items pf dp ios items (ru_cycle_errors ru) (ru_collector ru) of
                   (errors, c) \<Rightarrow> ru\<lparr>ru_scheduler := sc, ru_collector := c, ru_cycle_errors := errors\<rparr>))
      in case stop_worker ends now (ru_worker ru1) of (stopped, w) \<Rightarrow> (stopped, ru1\<lparr>ru_worker := w\<rparr>))"

end
