(* ===== verification/Startup.thy ===== *)
theory Startup
  imports Collector
begin

section \<open>Starting the collector (bkk_collector/collector.py)\<close>

text \<open>
  The constructor of \<^verbatim>\<open>Collector\<close> with its change trackers, and the recovery of log and journal tails
  before the first request.
\<close>

subsection \<open>Change trackers\<close>

definition tripupdates_tracker :: "collector_config \<Rightarrow> tracker_args" where
  "tripupdates_tracker cfg =
     \<lparr>a_key_fields = TRIP_UPDATE_KEY_FIELDS, a_value_fields = TRIP_UPDATE_EXACT_MUTABLE_FIELDS,
      a_heartbeat_seconds = of_int (tracker_heartbeat_seconds cfg),
      a_numeric_tolerance_fields = TRIP_UPDATE_TOLERANT_NUMERIC_FIELDS,
      a_tolerance = Fin (of_int (delay_change_threshold_seconds cfg)),
      a_numeric_tolerances = trip_update_numeric_tolerances cfg,
      a_required_signal_fields = TRIP_UPDATE_DELAY_FIELDS @ TRIP_UPDATE_PREDICTION_TIME_FIELDS,
      a_null_guard_min_rows = change_tracker_null_guard_rows cfg\<rparr>"

text \<open>The arguments that the alerts' tracker leaves out have their defaults.\<close>

definition alerts_tracker :: "collector_config \<Rightarrow> tracker_args" where
  "alerts_tracker cfg =
     \<lparr>a_key_fields =
        [''entity_id'', ''affected_agency_id'', ''affected_route_id'', ''affected_route_type'',
         ''affected_stop_id'', ''affected_direction_id'', ''affected_trip_id'',
         ''affected_trip_start_date'', ''affected_trip_start_time''],
      a_value_fields =
        [''cause'', ''effect'', ''severity_level'', ''header_text_json'', ''description_text_json'',
         ''url_json'', ''active_periods_json'', ''communication_periods_json'', ''impact_periods_json'',
         ''informed_entities_json'', ''bkk_start_text_json'', ''bkk_end_text_json'',
         ''bkk_modified_time'', ''bkk_route_details_json''],
      a_heartbeat_seconds = of_int (tracker_heartbeat_seconds cfg),
      a_numeric_tolerance_fields = [], a_tolerance = Fin 0, a_numeric_tolerances = [],
      a_required_signal_fields = [], a_null_guard_min_rows = 1000\<rparr>"

definition make_trackers ::
  "collector_config \<Rightarrow> tracker_error + (feed \<Rightarrow> (tracker_config \<times> tracker) option)" where
  "make_trackers cfg =
     bind_result (make_change_tracker (tripupdates_tracker cfg)) (\<lambda>trips.
     bind_result (make_change_tracker (alerts_tracker cfg)) (\<lambda>alerts.
       Inr (\<lambda>f. case f of Vehiclepositions \<Rightarrow> None | Tripupdates \<Rightarrow> Some trips | Alerts \<Rightarrow> Some alerts)))"

text \<open>
  The constructor: the deployment and the state of a process that finds the given files on disk and has
  drawn \<open>run_id\<close> and \<open>stream\<close>.
\<close>

record disk =
  dk_raw :: "partition \<Rightarrow> raw_file"
  dk_presence_logs :: "string \<Rightarrow> raw_file"
  dk_spool :: "key \<Rightarrow> spool_dir"
  dk_journals :: "partition \<Rightarrow> journal"
  dk_health :: "(feed \<Rightarrow> feed_health) option"

definition new_collector ::
  "collector_config \<Rightarrow> string \<Rightarrow> string \<Rightarrow> disk \<Rightarrow> tracker_error + deployment \<times> collector" where
  "new_collector cfg run_id stream dk =
     bind_result (make_trackers cfg) (\<lambda>ts. Inr
       (\<lparr>dp_config = cfg, dp_trackers = (\<lambda>f. map_option fst (ts f)), dp_run_id = run_id\<rparr>,
        \<lparr>co_last_raw = (\<lambda>_. None), co_auxiliary_sha256 = None, co_needs_repair = [],
         co_trackers = (\<lambda>f. case ts f of None \<Rightarrow> fresh_tracker | Some (_, t) \<Rightarrow> t),
         co_presence = fresh_presence stream, co_monitor = load_monitor (dk_health dk),
         co_metadata_written = False, co_raw = dk_raw dk, co_presence_logs = dk_presence_logs dk,
         co_spool = dk_spool dk, co_journals = dk_journals dk\<rparr>))"

subsection \<open>Recovering tails\<close>

text \<open>
  Today's log and the latest one before it, among the dates that parse (\<open>valid_date\<close>) and whose file
  exists. \<open>dirs\<close> gives the date directories of a feed and whether each has its log.
\<close>

definition raw_candidates :: "(string \<Rightarrow> bool) \<Rightarrow> string \<Rightarrow> (string \<times> bool) list \<Rightarrow> string list" where
  "raw_candidates valid_date today dirs =
     (let prior = [d \<leftarrow> map fst (filter snd dirs). valid_date d \<and> d < today]
      in sort (remdups ((if (today, True) \<in> set dirs then [today] else []) @
                        (if prior \<noteq> [] then [Max (set prior)] else []))))"

definition recover_raw :: "platform \<Rightarrow> (partition \<Rightarrow> nat) \<Rightarrow> partition \<Rightarrow> collector \<Rightarrow> collector" where
  "recover_raw pf budgets p c =
     (case repair_truncated_tail (c_gunzip (pf_codec pf)) (budgets p) (co_raw c p) of
        (Inl _, f) \<Rightarrow> c\<lparr>co_raw := (co_raw c)(p := f), co_needs_repair := List.insert p (co_needs_repair c)\<rparr>
      | (Inr _, f) \<Rightarrow> c\<lparr>co_raw := (co_raw c)(p := f)\<rparr>)"

definition recover_recent_raw_tails ::
  "platform \<Rightarrow> (string \<Rightarrow> bool) \<Rightarrow> string \<Rightarrow> (feed \<Rightarrow> (string \<times> bool) list) \<Rightarrow> (partition \<Rightarrow> nat) \<Rightarrow> collector \<Rightarrow> collector" where
  "recover_recent_raw_tails pf valid_date today dirs budgets c =
     fold (\<lambda>f. fold (\<lambda>d. recover_raw pf budgets (f, d)) (raw_candidates valid_date today (dirs f))) FEED_NAMES c"

definition recover_journal :: "platform \<Rightarrow> (partition \<Rightarrow> string \<times> nat) \<Rightarrow> partition \<Rightarrow> collector \<Rightarrow> collector" where
  "recover_journal pf ios p c =
     c\<lparr>co_journals := (co_journals c)(p := snd (repair_jsonl_tail (pf_is_event pf) (fst (ios p)) (snd (ios p)) (co_journals c p)))\<rparr>"

definition recover_presence_log :: "platform \<Rightarrow> (string \<Rightarrow> nat) \<Rightarrow> string \<Rightarrow> collector \<Rightarrow> collector" where
  "recover_presence_log pf budgets d c =
     c\<lparr>co_presence_logs := (co_presence_logs c)
         (d := snd (repair_truncated_tail (c_gunzip (pf_codec pf)) (budgets d) (co_presence_logs c d)))\<rparr>"

definition recover_recent_journal_tails ::
  "platform \<Rightarrow> string \<Rightarrow> (feed \<Rightarrow> (string \<times> bool) list) \<Rightarrow> (string \<times> bool) list \<Rightarrow> (partition \<Rightarrow> string \<times> nat) \<Rightarrow>
   (string \<Rightarrow> nat) \<Rightarrow> collector \<Rightarrow> collector" where
  "recover_recent_journal_tails pf today dirs presence_dirs ios budgets c =
     fold (recover_presence_log pf budgets) (recent_partition_files presence_dirs today)
       (fold (\<lambda>f. fold (\<lambda>d. recover_journal pf ios (f, d)) (recent_partition_files (dirs f) today)) FEED_NAMES c)"

subsection \<open>A valid configuration starts\<close>

lemma trip_policy_fields:
  "set (map fst (trip_update_numeric_tolerances cfg)) \<subseteq> set TRIP_UPDATE_TOLERANT_NUMERIC_FIELDS"
  "set (TRIP_UPDATE_DELAY_FIELDS @ TRIP_UPDATE_PREDICTION_TIME_FIELDS) \<subseteq>
     set (TRIP_UPDATE_EXACT_MUTABLE_FIELDS @ TRIP_UPDATE_TOLERANT_NUMERIC_FIELDS)"
  by (simp_all add: trip_update_numeric_tolerances_def TRIP_UPDATE_TOLERANT_NUMERIC_FIELDS_def
    TRIP_UPDATE_DELAY_FIELDS_def TRIP_UPDATE_PREDICTION_TIME_FIELDS_def TRIP_UPDATE_DISTANCE_FIELDS_def)

lemma make_trackers_ok:
  assumes "post_init cfg = None"
  shows "\<exists>trips alerts. make_trackers cfg =
    Inr (\<lambda>f. case f of Vehiclepositions \<Rightarrow> None | Tripupdates \<Rightarrow> Some (trips, fresh_tracker) | Alerts \<Rightarrow> Some (alerts, fresh_tracker)) \<and>
    heartbeat_seconds trips = of_int (tracker_heartbeat_seconds cfg) \<and>
    heartbeat_seconds alerts = of_int (tracker_heartbeat_seconds cfg)"
proof -
  from post_init_fields [OF assms] have pos: "0 < change_tracker_null_guard_rows cfg" "0 \<le> delay_change_threshold_seconds cfg"
      "0 \<le> prediction_time_change_threshold_seconds cfg" "0 \<le> distance_threshold cfg"
    by (simp_all add: positive_fields_def nonnegative_fields_def)
  have "\<exists>trips. make_change_tracker (tripupdates_tracker cfg) = Inr (trips, fresh_tracker) \<and>
      value_fields trips = a_value_fields (tripupdates_tracker cfg) \<and>
      numeric_tolerance_fields trips = a_numeric_tolerance_fields (tripupdates_tracker cfg) \<and>
      heartbeat_seconds trips = a_heartbeat_seconds (tripupdates_tracker cfg)"
    by (rule make_change_tracker_ok)
      (use pos trip_policy_fields in \<open>simp_all add: tripupdates_tracker_def trip_update_numeric_tolerances_def
        TRIP_UPDATE_EXACT_MUTABLE_FIELDS_def\<close>)
  then obtain trips where "make_change_tracker (tripupdates_tracker cfg) = Inr (trips, fresh_tracker)"
    "heartbeat_seconds trips = of_int (tracker_heartbeat_seconds cfg)" by (auto simp: tripupdates_tracker_def)
  moreover have "\<exists>alerts. make_change_tracker (alerts_tracker cfg) = Inr (alerts, fresh_tracker) \<and>
      value_fields alerts = a_value_fields (alerts_tracker cfg) \<and>
      numeric_tolerance_fields alerts = a_numeric_tolerance_fields (alerts_tracker cfg) \<and>
      heartbeat_seconds alerts = a_heartbeat_seconds (alerts_tracker cfg)"
    by (rule make_change_tracker_ok) (simp_all add: alerts_tracker_def)
  then obtain alerts where "make_change_tracker (alerts_tracker cfg) = Inr (alerts, fresh_tracker)"
    "heartbeat_seconds alerts = of_int (tracker_heartbeat_seconds cfg)" by (auto simp: alerts_tracker_def)
  ultimately show ?thesis
    unfolding make_trackers_def by (intro exI [of _ trips] exI [of _ alerts]) simp
qed

subsection \<open>Properties\<close>

text \<open>
  An accepted environment starts the collector. If the environment is accepted, the constructor does
  not raise, the trackers have positive heartbeats, and every feed has a polling interval of at least five
  seconds, so that a scheduler with these intervals starts in an initial state of the scheduler system.
\<close>

theorem accepted_environment_starts:
  assumes "from_env env = Inr cfg"
  shows "\<exists>dp c. new_collector cfg run_id stream dk = Inr (dp, c) \<and> dp_config dp = cfg \<and>
    map_option heartbeat_seconds (dp_trackers dp f) =
      (if f = Vehiclepositions then None else Some (of_int (tracker_heartbeat_seconds cfg))) \<and>
    0 < tracker_heartbeat_seconds cfg \<and>
    is_finite (feed_interval cfg f) \<and> 5 \<le> num_val (feed_interval cfg f) \<and>
    sched_init (map (\<lambda>(f, v). (f, num_val v)) (feed_intervals cfg)) start
      \<lparr>sy_sched = new_scheduler (map (\<lambda>(f, v). (f, num_val v)) (feed_intervals cfg)) start,
       sy_taken = [], sy_delivered = [], sy_clock = start\<rparr>"
proof -
  from from_env_valid [OF assms] have valid: "post_init cfg = None" by blast
  from make_trackers_ok [OF this] obtain trips alerts where ts: "make_trackers cfg =
      Inr (\<lambda>f. case f of Vehiclepositions \<Rightarrow> None | Tripupdates \<Rightarrow> Some (trips, fresh_tracker) | Alerts \<Rightarrow> Some (alerts, fresh_tracker))"
    and hb: "heartbeat_seconds trips = of_int (tracker_heartbeat_seconds cfg)"
      "heartbeat_seconds alerts = of_int (tracker_heartbeat_seconds cfg)" by blast
  have "0 < tracker_heartbeat_seconds cfg" using post_init_fields(1) [OF valid] by (simp add: positive_fields_def)
  moreover have "5 \<le> num_val (feed_interval cfg g)" for g using post_init_interval [OF valid] by blast
  then have "list_all (\<lambda>(f, i). 0 < i) (map (\<lambda>(f, v). (f, num_val v)) (feed_intervals cfg))"
    unfolding feed_intervals_def list_all_iff by (force intro: less_le_trans [of 0 5])
  moreover have "distinct (map fst (map (\<lambda>(f, v). (f, num_val v)) (feed_intervals cfg)))"
    by (simp add: feed_intervals_def FEED_NAMES_def)
  ultimately show ?thesis
    using post_init_interval [OF valid, of f] hb
    by (cases f) (auto simp: new_collector_def ts sched_init_def)
qed

definition demo_env :: env where
  "demo_env name = (if name = ''BKK_API_KEY'' then Some '' k '' else if name = ''HEARTBEAT_SECONDS'' then Some ''60'' else None)"

lemmas parse_defs = parse_float_def parse_int_def py_strip_def py_space_def parse_decimal_def parse_mantissa_def
  digits_nat_def digit_def Let_def lower_char_def binary64_limit_def

lemma default_floats:
  "parse_float ''0'' = Some (Fin 0)" "parse_float ''5'' = Some (Fin 5)" "parse_float ''300'' = Some (Fin 300)"
  "parse_float ''8.0'' = Some (Fin 8)" "parse_float ''4.0'' = Some (Fin 4)" "parse_float ''15'' = Some (Fin 15)"
  "parse_float ''0.3'' = Some (Fin (3 / 10))" "parse_float ''180'' = Some (Fin 180)"
  "parse_float ''86400'' = Some (Fin 86400)"
  by (simp_all add: parse_defs)

lemma default_ints:
  "parse_int ''15'' = Some 15" "parse_int ''2'' = Some 2" "parse_int ''1000'' = Some 1000" "parse_int ''60'' = Some 60"
  "parse_int ''1'' = Some 1"
  by (simp_all add: parse_defs)

lemma demo_env_accepted: "\<exists>cfg. from_env demo_env = Inr cfg \<and> tracker_heartbeat_seconds cfg = 60"
proof -
  have "py_strip '' k '' = ''k''" by (simp add: py_strip_def py_space_def)
  then show ?thesis
    by (simp add: from_env_def Let_def demo_env_def env_or_def env_float_def env_int_def env_optional_def
      read_number_def default_floats default_ints construct_def post_init_def first_bad_def feed_intervals_def
      FEED_NAMES_def feed_interval_def too_short_def MIN_REALTIME_INTERVAL_SECONDS_def positive_fields_def
      nonnegative_fields_def distance_threshold_def binary64_limit_def)
qed

definition demo_disk :: disk where
  "demo_disk = \<lparr>dk_raw = (\<lambda>_. empty_file), dk_presence_logs = (\<lambda>_. empty_file), dk_spool = (\<lambda>_. empty_dir),
     dk_journals = (\<lambda>_. empty_journal), dk_health = None\<rparr>"

lemma accepted_environment_starts_witness:
  "\<exists>cfg dp c. from_env demo_env = Inr cfg \<and> new_collector cfg [] [] demo_disk = Inr (dp, c) \<and>
     map_option heartbeat_seconds (dp_trackers dp Alerts) = Some 60"
proof -
  from demo_env_accepted obtain cfg where cfg: "from_env demo_env = Inr cfg" "tracker_heartbeat_seconds cfg = 60" by blast
  from accepted_environment_starts [OF cfg(1), of "[]" "[]" demo_disk Alerts 0] obtain dp c where
    "new_collector cfg [] [] demo_disk = Inr (dp, c)"
    "map_option heartbeat_seconds (dp_trackers dp Alerts) = Some (of_int (tracker_heartbeat_seconds cfg))"
    by auto
  with cfg show ?thesis by auto
qed

end
