(* ===== verification/Rebuild.thy ===== *)
theory Rebuild
  imports Manifest Startup
begin

section \<open>Rebuilding a Parquet partition from the raw log (bkk_collector/cli/rebuild_parquet.py)\<close>

text \<open>
  The raw log of a date is replayed through the parsers and a fresh change tracker. The selected rows are written in chunks
  below a staging directory, which then replaces the partition; the old one is moved aside and kept.

  The result of a rebuild is \<open>None\<close> when it does not return: a chunk length that is not positive makes the chunk loop endless.
  \<open>rebuild_io\<close> is what one run takes from outside: the clock, the random names, the time of a raw record, the Parquet writer
  (for the part with a number) and what happens to the final renames. Paths are relative to the data directory.
\<close>

subsection \<open>Settings\<close>

record rebuild_settings =
  rb_heartbeat :: int
  rb_delay :: int
  rb_prediction :: int
  rb_distance :: int
  rb_null_guard :: int

definition rebuild_settings_of :: "env \<Rightarrow> config_error + rebuild_settings" where
  "rebuild_settings_of env =
     bind_result (env_int env ''HEARTBEAT_SECONDS'' ''1800'') (\<lambda>heartbeat.
     bind_result (env_int env ''DELAY_CHANGE_THRESHOLD_SECONDS'' ''15'') (\<lambda>delay.
     bind_result (env_int env ''TRIPUPDATE_TIME_TOLERANCE_SECONDS''
                    (env_or env ''PREDICTION_TIME_CHANGE_THRESHOLD_SECONDS'' ''2'')) (\<lambda>prediction.
     bind_result (env_int env ''BKK_STOP_DISTANCE_CHANGE_THRESHOLD'' (int_text delay)) (\<lambda>distance.
     map_sum id (\<lambda>null_guard.
         \<lparr>rb_heartbeat = heartbeat, rb_delay = delay, rb_prediction = prediction, rb_distance = distance, rb_null_guard = null_guard\<rparr>)
       (env_int env ''CHANGE_TRACKER_NULL_GUARD_ROWS'' ''1000'')))))"

text \<open>\<^verbatim>\<open>make_tracker\<close>; the arguments that the alerts' tracker leaves out have their defaults.\<close>

fun rebuild_tracker_args :: "rebuild_settings \<Rightarrow> feed \<Rightarrow> tracker_args option" where
  "rebuild_tracker_args s Tripupdates = Some
     \<lparr>a_key_fields = TRIP_UPDATE_KEY_FIELDS, a_value_fields = TRIP_UPDATE_EXACT_MUTABLE_FIELDS,
      a_heartbeat_seconds = of_int (rb_heartbeat s), a_numeric_tolerance_fields = TRIP_UPDATE_TOLERANT_NUMERIC_FIELDS,
      a_tolerance = Fin (of_int (rb_delay s)),
      a_numeric_tolerances =
        [(''arrival_time'', Fin (of_int (rb_prediction s))), (''departure_time'', Fin (of_int (rb_prediction s))),
         (''bkk_stop_distance'', Fin (of_int (rb_distance s)))],
      a_required_signal_fields = TRIP_UPDATE_DELAY_FIELDS @ TRIP_UPDATE_PREDICTION_TIME_FIELDS,
      a_null_guard_min_rows = rb_null_guard s\<rparr>"
| "rebuild_tracker_args s Alerts = Some
     \<lparr>a_key_fields =
        [''entity_id'', ''affected_agency_id'', ''affected_route_id'', ''affected_route_type'', ''affected_stop_id'',
         ''affected_direction_id'', ''affected_trip_id'', ''affected_trip_start_date'', ''affected_trip_start_time''],
      a_value_fields =
        [''cause'', ''effect'', ''severity_level'', ''header_text_json'', ''description_text_json'', ''url_json'',
         ''active_periods_json'', ''communication_periods_json'', ''impact_periods_json'', ''informed_entities_json'',
         ''bkk_start_text_json'', ''bkk_end_text_json'', ''bkk_modified_time'', ''bkk_route_details_json''],
      a_heartbeat_seconds = of_int (rb_heartbeat s), a_numeric_tolerance_fields = [], a_tolerance = Fin 0, a_numeric_tolerances = [],
      a_required_signal_fields = [], a_null_guard_min_rows = 1000\<rparr>"
| "rebuild_tracker_args s Vehiclepositions = None"

definition make_tracker :: "rebuild_settings \<Rightarrow> feed \<Rightarrow> tracker_error + (tracker_config \<times> tracker) option" where
  "make_tracker s feed =
     (case rebuild_tracker_args s feed of None \<Rightarrow> Inr None | Some a \<Rightarrow> map_sum id Some (make_change_tracker a))"

subsection \<open>Replaying one record\<close>

text \<open>
  Which of the system calls of the installation raises: the move of the old partition, the move of the staged one, that move and
  then the move back of the old partition as well, or the final sync of the directory.
\<close>

datatype install_outcome = Installs | MoveAwayFails | MoveInFails | RestoreFails | SyncFails

record rebuild_io =
  ri_today :: string
  ri_received :: "f64 \<Rightarrow> exn + seconds \<times> string"
  ri_parquet :: "nat \<Rightarrow> row list \<Rightarrow> exn + bytes"
  ri_uuid :: string
  ri_previous :: string
  ri_stamp :: stamp
  ri_now :: string
  ri_install :: install_outcome

text \<open>\<^verbatim>\<open>f"{n:06d}"\<close>\<close>

definition padded :: "nat \<Rightarrow> nat \<Rightarrow> string" where
  "padded w n = replicate (w - length (nat_text n)) CHR ''0'' @ nat_text n"

definition rebuild_poll_id :: "feed \<Rightarrow> string \<Rightarrow> nat \<Rightarrow> string" where
  "rebuild_poll_id feed date n = ''rebuild-'' @ feed_name feed @ ''-'' @ date @ ''-'' @ padded 8 n"

type_synonym feed_tracker = "(tracker_config \<times> tracker) option"

text \<open>The inner \<^verbatim>\<open>try\<close>: the tracker's state stays changed when its filter raises.\<close>

definition replay_record ::
  "platform \<Rightarrow> feed \<Rightarrow> string \<Rightarrow> nat \<Rightarrow> seconds \<times> string \<Rightarrow> bytes \<Rightarrow> feed_tracker \<Rightarrow> (exn + row list) \<times> feed_tracker" where
  "replay_record pf feed date n received raw tracker =
     (case parse_feed pf raw of
        Inl e \<Rightarrow> (Inl e, tracker)
      | Inr fm \<Rightarrow>
          let rows = PARSERS feed (pf_render pf) fm (collector_context (rebuild_poll_id feed date n) (snd received) (snd received)) in
          case tracker of
            None \<Rightarrow> (Inr rows, None)
          | Some (cfg, t) \<Rightarrow>
              (case filter_rows cfg t rows date (fst received) True of (res, t') \<Rightarrow> (map_sum (pf_tracker_exn pf) id res, Some (cfg, t'))))"

subsection \<open>Chunks\<close>

record replay =
  rp_tracker :: feed_tracker
  rp_buffer :: "row list"
  rp_records :: nat
  rp_failures :: nat
  rp_rows :: nat
  rp_part :: nat
  rp_trees :: "tree list"

text \<open>\<open>rp_trees\<close> is the trace of trees, the current one last.\<close>

definition current :: "replay \<Rightarrow> tree" where
  "current s = last (rp_trees s)"

definition part_name :: "nat \<Rightarrow> string" where
  "part_name n = ''part-rebuilt-'' @ padded 6 n @ ''.parquet''"

definition flush_chunk :: "rebuild_io \<Rightarrow> row list \<Rightarrow> path \<Rightarrow> nat \<Rightarrow> tree \<Rightarrow> exn + tree" where
  "flush_chunk io rows staging n t =
     map_sum id (\<lambda>bs. write_file (ri_stamp io) (staging @ [part_name n]) bs t) (ri_parquet io n rows)"

definition flush_part :: "rebuild_io \<Rightarrow> row list \<Rightarrow> row list \<Rightarrow> path \<Rightarrow> replay \<Rightarrow> exn + replay" where
  "flush_part io rows rest staging s =
     map_sum id (\<lambda>t. s\<lparr>rp_trees := rp_trees s @ [t], rp_rows := rp_rows s + length rows, rp_buffer := rest, rp_part := Suc (rp_part s)\<rparr>)
       (flush_chunk io rows staging (rp_part s) (current s))"

text \<open>\<^verbatim>\<open>xs[:k]\<close> and what \<^verbatim>\<open>del xs[:k]\<close> leaves: a negative \<open>k\<close> counts from the end.\<close>

definition py_index :: "int \<Rightarrow> 'a list \<Rightarrow> nat" where
  "py_index k xs = nat (if k < 0 then int (length xs) + k else k)"

text \<open>\<^verbatim>\<open>while len(buffer) >= chunk_rows\<close>\<close>

partial_function (option) drain :: "rebuild_io \<Rightarrow> path \<Rightarrow> int \<Rightarrow> replay \<Rightarrow> (exn option \<times> replay) option" where
  "drain io staging k s =
     (if int (length (rp_buffer s)) < k then Some (None, s)
      else case flush_part io (take (py_index k (rp_buffer s)) (rp_buffer s)) (drop (py_index k (rp_buffer s)) (rp_buffer s)) staging s of
          Inl e \<Rightarrow> Some (Some e, s)
        | Inr s' \<Rightarrow> drain io staging k s')"

declare drain.simps [code]

fun replay_records ::
  "platform \<Rightarrow> rebuild_io \<Rightarrow> feed \<Rightarrow> string \<Rightarrow> path \<Rightarrow> int \<Rightarrow> (f64 \<times> bytes) list \<Rightarrow> replay \<Rightarrow> (exn option \<times> replay) option" where
  "replay_records pf io feed date staging k [] s = Some (None, s)"
| "replay_records pf io feed date staging k ((ts, raw) # rs) s =
     (let s1 = s\<lparr>rp_records := Suc (rp_records s)\<rparr> in
      case ri_received io ts of
        Inl e \<Rightarrow> Some (Some e, s1)
      | Inr received \<Rightarrow>
          (case replay_record pf feed date (rp_records s) received raw (rp_tracker s) of
             (Inl _, tracker) \<Rightarrow>
               replay_records pf io feed date staging k rs (s1\<lparr>rp_tracker := tracker, rp_failures := Suc (rp_failures s)\<rparr>)
           | (Inr rows, tracker) \<Rightarrow>
               Option.bind (drain io staging k (s1\<lparr>rp_tracker := tracker, rp_buffer := rp_buffer s @ rows\<rparr>)) (\<lambda>(e, s2).
                 case e of Some e \<Rightarrow> Some (Some e, s2) | None \<Rightarrow> replay_records pf io feed date staging k rs s2)))"

subsection \<open>Installing the staged partition\<close>

definition below :: "path \<Rightarrow> path \<Rightarrow> bool" where
  "below d p \<longleftrightarrow> take (length d) p = d"

text \<open>\<^verbatim>\<open>os.replace\<close> of a directory, and \<^verbatim>\<open>shutil.rmtree\<close>\<close>

definition rename_dir :: "path \<Rightarrow> path \<Rightarrow> tree \<Rightarrow> tree" where
  "rename_dir src dst t = map (\<lambda>(p, n). (if below src p then dst @ drop (length src) p else p, n)) t"

definition remove_tree :: "path \<Rightarrow> tree \<Rightarrow> tree" where
  "remove_tree d t = [x \<leftarrow> t. \<not> below d (fst x)]"

definition previous_path :: "rebuild_io \<Rightarrow> feed \<Rightarrow> string \<Rightarrow> path" where
  "previous_path io feed date = [''parquet_rebuild_previous'', feed_name feed, ''date='' @ date @ ''-'' @ ri_previous io]"

definition move_in :: "rebuild_io \<Rightarrow> path \<Rightarrow> path \<Rightarrow> path option \<Rightarrow> tree \<Rightarrow> (exn + path option) \<times> tree list" where
  "move_in io staging dest previous t =
     (case ri_install io of
        MoveInFails \<Rightarrow>
          (Inl (other_error ''OSError''), t # (case previous of None \<Rightarrow> []
             | Some p \<Rightarrow> if exists_at t p \<and> \<not> exists_at t dest then [rename_dir p dest t] else []))
      | RestoreFails \<Rightarrow> (Inl (other_error ''OSError''), [t])
      | SyncFails \<Rightarrow> (Inl (other_error ''OSError''), [t, rename_dir staging dest t])
      | _ \<Rightarrow> (Inr previous, [t, rename_dir staging dest t]))"

definition install_rebuild :: "rebuild_io \<Rightarrow> feed \<Rightarrow> string \<Rightarrow> path \<Rightarrow> tree \<Rightarrow> (exn + path option) \<times> tree list" where
  "install_rebuild io feed date staging t =
     (let dest = partition_dir ''parquet'' feed date; t0 = make_parents dest t; previous = previous_path io feed date in
      if exists_at t0 dest
      then let t1 = make_parents previous t0 in
        if ri_install io = MoveAwayFails then (Inl (other_error ''OSError''), [t0, t1])
        else case move_in io staging dest (Some previous) (rename_dir dest previous t1) of (r, ts) \<Rightarrow> (r, [t0, t1] @ ts)
      else move_in io staging dest None t0)"

subsection \<open>One partition\<close>

definition staging_path :: "rebuild_io \<Rightarrow> feed \<Rightarrow> string \<Rightarrow> path" where
  "staging_path io feed date = [''parquet'', ''.rebuild-staging'', feed_name feed, ''date='' @ date @ ''-'' @ ri_uuid io]"

definition rebuild_manifest_row :: "tools \<Rightarrow> rebuild_io \<Rightarrow> feed \<Rightarrow> string \<Rightarrow> int \<Rightarrow> bytes \<Rightarrow> bool \<Rightarrow> replay \<Rightarrow> row" where
  "rebuild_manifest_row tk io feed date k raw intact s =
     [(''version'', PInt 1), (''feed'', PStr (feed_name feed)), (''date'', PStr date),
      (''raw_path'', PStr (join_path (raw_log_path feed date))), (''raw_sha256'', PStr (tl_sha tk raw)),
      (''raw_records'', PInt (int (rp_records s))), (''raw_log_clean'', PBool intact), (''parse_failures'', PInt (int (rp_failures s))),
      (''rows'', PInt (int (rp_rows s))), (''chunk_rows'', PInt k), (''rebuilt_at'', PStr (ri_now io)),
      (''limitation'', PStr ''resolution is limited to timestamps present in the raw log'')]"

text \<open>What follows the loop over the records, up to the installed partition\<close>

definition finish_rebuild ::
  "tools \<Rightarrow> rebuild_io \<Rightarrow> feed \<Rightarrow> string \<Rightarrow> int \<Rightarrow> bool \<Rightarrow> path \<Rightarrow> bytes \<Rightarrow> bool \<Rightarrow> replay \<Rightarrow> (exn + row) \<times> tree list" where
  "finish_rebuild tk io feed date k allow_errors staging raw intact s =
     (if rp_failures s \<noteq> 0 \<and> \<not> allow_errors then (Inl (other_error ''RuntimeError''), rp_trees s)
      else case (if rp_buffer s \<noteq> [] \<or> rp_part s = 0 then flush_part io (rp_buffer s) [] staging s else Inr s) of
          Inl e \<Rightarrow> (Inl e, rp_trees s)
        | Inr s1 \<Rightarrow>
            let manifest = rebuild_manifest_row tk io feed date k raw intact s1;
                t1 = write_json tk (ri_stamp io) (staging @ [''rebuild_manifest.json'']) manifest (current s1)
            in case install_rebuild io feed date staging t1 of
                (r, ts) \<Rightarrow>
                  (map_sum id (\<lambda>previous. manifest @
                       [(''previous_partition'', case previous of None \<Rightarrow> PNone | Some p \<Rightarrow> PStr (join_path p))]) r,
                   rp_trees s1 @ t1 # ts))"

text \<open>Any exception after the staging directory was made removes it.\<close>

definition clean_up :: "path \<Rightarrow> (exn + 'a) \<times> tree list \<Rightarrow> (exn + 'a) \<times> tree list" where
  "clean_up staging run = (case run of (Inl e, ts) \<Rightarrow> (Inl e, ts @ [remove_tree staging (last ts)]) | _ \<Rightarrow> run)"

definition begin_replay :: "feed_tracker \<Rightarrow> path \<Rightarrow> tree \<Rightarrow> replay" where
  "begin_replay tracker staging t =
     \<lparr>rp_tracker = tracker, rp_buffer = [], rp_records = 0, rp_failures = 0, rp_rows = 0, rp_part = 0,
      rp_trees = [t, AList.update staging Directory (make_parents staging t)]\<rparr>"

definition replay_and_install ::
  "platform \<Rightarrow> tools \<Rightarrow> rebuild_io \<Rightarrow> feed \<Rightarrow> string \<Rightarrow> int \<Rightarrow> bool \<Rightarrow> path \<Rightarrow> bytes \<Rightarrow> bool \<Rightarrow> replay \<Rightarrow> ((exn + row) \<times> tree list) option" where
  "replay_and_install pf tk io feed date k allow_errors staging raw intact s =
     (case iter_records (c_gunzip (pf_codec pf)) raw of
        (records, raised) \<Rightarrow>
          Option.bind (replay_records pf io feed date staging k records s) (\<lambda>(e, s1).
            case (e, raised) of
              (Some e, _) \<Rightarrow> Some (Inl e, rp_trees s1)
            | (None, Some g) \<Rightarrow> Some (Inl (pf_log_exn pf (GunzipError g)), rp_trees s1)
            | (None, None) \<Rightarrow> Some (finish_rebuild tk io feed date k allow_errors staging raw intact s1)))"

definition rebuild_one ::
  "platform \<Rightarrow> tools \<Rightarrow> rebuild_settings \<Rightarrow> rebuild_io \<Rightarrow> feed \<Rightarrow> string \<Rightarrow> int \<Rightarrow> bool \<Rightarrow> bool \<Rightarrow> tree \<Rightarrow>
   ((exn + row) \<times> tree list) option" where
  "rebuild_one pf tk settings io feed date k allow_errors allow_current t =
     (if ri_today io \<le> date \<and> \<not> allow_current
      then Some (Inl (value_error ''refusing to rebuild the current/future UTC date while the collector may still write it''), [t])
      else case regular_at t (raw_log_path feed date) of
        None \<Rightarrow> Some (Inl (other_error ''FileNotFoundError''), [t])
      | Some f \<Rightarrow>
          (case scan_raw_log (c_gunzip (pf_codec pf)) True (fo_bytes f) of
             Inl e \<Rightarrow> Some (Inl (pf_log_exn pf e), [t])
           | Inr sc \<Rightarrow>
               if \<not> clean sc \<and> \<not> allow_errors
               then Some (Inl (value_error ''raw log has an invalid tail; pass --allow-parse-errors only after reviewing it''), [t])
               else let staging = staging_path io feed date in
                 if exists_at t staging then Some (Inl (other_error ''FileExistsError''), [t])
                 else case make_tracker settings feed of
                     Inl e \<Rightarrow> Some (Inl (pf_tracker_exn pf e), rp_trees (begin_replay None staging t))
                   | Inr tracker \<Rightarrow>
                       map_option (clean_up staging)
                         (replay_and_install pf tk io feed date k allow_errors staging (fo_bytes f) (clean sc) (begin_replay tracker staging t))))"

subsection \<open>The command\<close>

definition all_dates_for :: "tree \<Rightarrow> feed \<Rightarrow> string list" where
  "all_dates_for t feed =
     (let root = [''raw'', feed_name feed] in
      if \<not> exists_at t root then []
      else sort (map (\<lambda>p. drop 5 (last p)) (glob t root (\<lambda>n. starts_with n ''date=''))))"

text \<open>A failed date does not stop the others: the flag says whether one failed.\<close>

fun rebuild_dates ::
  "platform \<Rightarrow> tools \<Rightarrow> rebuild_settings \<Rightarrow> (feed \<Rightarrow> string \<Rightarrow> rebuild_io) \<Rightarrow> int \<Rightarrow> bool \<Rightarrow> bool \<Rightarrow> (feed \<times> string) list \<Rightarrow> tree \<Rightarrow>
   (bool \<times> tree list) option" where
  "rebuild_dates pf tk settings io k allow_errors allow_current [] t = Some (False, [t])"
| "rebuild_dates pf tk settings io k allow_errors allow_current ((feed, date) # rest) t =
     Option.bind (rebuild_one pf tk settings (io feed date) feed date k allow_errors allow_current t) (\<lambda>(r, ts).
       map_option (\<lambda>(failed, us). ((case r of Inl _ \<Rightarrow> True | Inr _ \<Rightarrow> failed), ts @ us))
         (rebuild_dates pf tk settings io k allow_errors allow_current rest (last ts)))"

record rebuild_args =
  ra_date :: "string option"
  ra_feed :: "feed option"
  ra_chunk_rows :: int
  ra_allow_errors :: bool
  ra_allow_current :: bool

text \<open>The dates of a feed are listed before its rebuilds; no rebuild changes the raw logs.\<close>

definition rebuild_targets :: "rebuild_args \<Rightarrow> string \<Rightarrow> tree \<Rightarrow> (feed \<times> string) list" where
  "rebuild_targets args today t =
     concat (map (\<lambda>feed. map (Pair feed)
         (case ra_date args of
            Some d \<Rightarrow> if d = [] then [x \<leftarrow> all_dates_for t feed. ra_allow_current args \<or> x < today] else [d]
          | None \<Rightarrow> [x \<leftarrow> all_dates_for t feed. ra_allow_current args \<or> x < today]))
       (case ra_feed args of Some f \<Rightarrow> [f] | None \<Rightarrow> FEED_NAMES))"

text \<open>The exit status; 2 is the usage error.\<close>

definition rebuild_main ::
  "platform \<Rightarrow> tools \<Rightarrow> rebuild_settings \<Rightarrow> (feed \<Rightarrow> string \<Rightarrow> rebuild_io) \<Rightarrow> string \<Rightarrow> rebuild_args \<Rightarrow> tree \<Rightarrow> (int \<times> tree list) option" where
  "rebuild_main pf tk settings io today args t =
     (if ra_chunk_rows args \<le> 0 then Some (2, [t])
      else map_option (\<lambda>(failed, ts). (if failed then 1 else 0, ts))
        (rebuild_dates pf tk settings io (ra_chunk_rows args) (ra_allow_errors args) (ra_allow_current args)
          (rebuild_targets args today t) t))"

end
