(* ===== verification/Rebuild_Safety.thy ===== *)
theory Rebuild_Safety
  imports Rebuild
begin

section \<open>Properties of the rebuild\<close>

text \<open>
  The rebuild always returns, selects rows with the collector's trackers, writes the replayed rows in order whatever the chunk
  length, and never loses the partition it replaces.
\<close>

subsection \<open>Numbers as text\<close>

lemma digit_char: "(n::nat) < 10 \<Longrightarrow> digit (char_of (48 + n)) \<and> of_char (char_of (48 + n) :: char) = 48 + n"
  by (simp add: digit_def less_eq_char_def)

lemma digits_nat_snoc: "digits_nat (s @ [c]) = 10 * digits_nat s + (of_char c - 48)"
  by (simp add: digits_nat_def)

lemma nat_text_digits: "list_all digit (nat_text n) \<and> nat_text n \<noteq> [] \<and> digits_nat (nat_text n) = n"
proof (induction n rule: nat_text.induct)
  case (1 n)
  show ?case
  proof (cases "n < 10")
    case True
    with digit_char [OF True] show ?thesis by (simp add: nat_text.simps [of n] digits_nat_def)
  next
    case False
    with 1 digit_char [of "n mod 10"] show ?thesis by (simp add: nat_text.simps [of n] digits_nat_snoc)
  qed
qed

lemma digits_nat_zeros: "digits_nat (replicate k CHR ''0'' @ s) = digits_nat s"
proof (induction k)
  case (Suc k)
  then show ?case by (simp add: digits_nat_def)
qed simp

lemma padded_inject: "padded w m = padded w n \<Longrightarrow> m = n"
  using nat_text_digits digits_nat_zeros unfolding padded_def by metis

lemma plain_digits_id: "list_all digit s \<Longrightarrow> s \<noteq> [] \<Longrightarrow> plain_digits s = Some s"
  by (induction s rule: plain_digits.induct) (auto simp: digit_def)

lemma py_strip_id: "s \<noteq> [] \<Longrightarrow> \<not> py_space (hd s) \<Longrightarrow> \<not> py_space (last s) \<Longrightarrow> py_strip s = s"
proof -
  assume s: "s \<noteq> []" "\<not> py_space (hd s)" "\<not> py_space (last s)"
  have drop: "dropWhile py_space xs = xs" if "xs \<noteq> []" "\<not> py_space (hd xs)" for xs using that by (cases xs) auto
  from s have "dropWhile py_space s = s" "dropWhile py_space (rev s) = rev s" using drop [of s] drop [of "rev s"] by (simp_all add: hd_rev)
  then show ?thesis by (simp add: py_strip_def)
qed

lemma digit_no_space: "digit c \<Longrightarrow> \<not> py_space c \<and> c \<noteq> CHR ''-'' \<and> c \<noteq> CHR ''+''"
  by (auto simp: digit_def py_space_def less_eq_char_def)

lemma parse_int_text: "parse_int (int_text i) = Some i"
proof -
  have nat: "list_all digit (nat_text n)" "nat_text n \<noteq> []" "digits_nat (nat_text n) = n" for n
    using nat_text_digits by blast+
  have ends: "\<not> py_space (hd (nat_text n))" "\<not> py_space (last (nat_text n))" "hd (nat_text n) \<noteq> CHR ''-''" "hd (nat_text n) \<noteq> CHR ''+''" for n
    using nat(1,2) [of n] digit_no_space by (simp_all add: list_all_iff)
  have sign: "split_sign (nat_text n) = (False, nat_text n)" for n
    using nat(2) [of n] ends(3,4) [of n] by (cases "nat_text n") simp_all
  have minus: "\<not> py_space CHR ''-''" by (simp add: py_space_def)
  show ?thesis
    using nat ends minus
    by (auto simp: parse_int_def int_text_def py_strip_id sign plain_digits_id)
qed

subsection \<open>The trackers\<close>

lemma rebuild_settings_of_config:
  assumes "from_env env = Inr cfg"
  obtains s where "rebuild_settings_of env = Inr s" and "rb_heartbeat s = tracker_heartbeat_seconds cfg"
    and "rb_delay s = delay_change_threshold_seconds cfg" and "rb_prediction s = prediction_time_change_threshold_seconds cfg"
    and "rb_distance s = distance_threshold cfg" and "rb_null_guard s = change_tracker_null_guard_rows cfg"
proof -
  from assms obtain delay prediction distance guard heartbeat where env:
    "env_int env ''DELAY_CHANGE_THRESHOLD_SECONDS'' ''15'' = Inr delay"
    "env_int env ''TRIPUPDATE_TIME_TOLERANCE_SECONDS'' (env_or env ''PREDICTION_TIME_CHANGE_THRESHOLD_SECONDS'' ''2'') = Inr prediction"
    "env_optional parse_int env ''BKK_STOP_DISTANCE_CHANGE_THRESHOLD'' = Inr distance"
    "env_int env ''CHANGE_TRACKER_NULL_GUARD_ROWS'' ''1000'' = Inr guard"
    "env_int env ''HEARTBEAT_SECONDS'' ''1800'' = Inr heartbeat"
    "delay_change_threshold_seconds cfg = delay" "prediction_time_change_threshold_seconds cfg = prediction"
    "bkk_stop_distance_change_threshold cfg = distance" "change_tracker_null_guard_rows cfg = guard" "tracker_heartbeat_seconds cfg = heartbeat"
    by (auto simp: from_env_def Let_def bind_result_iff construct_iff split: if_splits)
  have "env_int env ''BKK_STOP_DISTANCE_CHANGE_THRESHOLD'' (int_text delay) = Inr (distance_threshold cfg)"
  proof (cases "env ''BKK_STOP_DISTANCE_CHANGE_THRESHOLD''")
    case None
    with env(3,6,8) show ?thesis
      by (simp add: env_optional_def env_int_def env_or_def read_number_def parse_int_text distance_threshold_def)
  next
    case (Some a)
    with env(3) obtain v where "parse_int a = Some v" "distance = Some v"
      by (cases "parse_int a") (simp_all add: env_optional_def read_number_def)
    with Some env(8) show ?thesis by (simp add: env_int_def env_or_def read_number_def distance_threshold_def)
  qed
  with env that [of "\<lparr>rb_heartbeat = heartbeat, rb_delay = delay, rb_prediction = prediction, rb_distance = distance_threshold cfg,
      rb_null_guard = guard\<rparr>"] show thesis by (simp add: rebuild_settings_of_def)
qed

text \<open>
  Claim C29. In an environment in which the collector starts, the rebuild reads the same settings and gives every feed the
  collector's change tracker.
\<close>

theorem rebuild_selects_like_collector:
  assumes "from_env env = Inr cfg"
  shows "\<exists>s trackers. rebuild_settings_of env = Inr s \<and> make_trackers cfg = Inr trackers \<and> (\<forall>feed. make_tracker s feed = Inr (trackers feed))"
proof -
  from from_env_valid [OF assms] make_trackers_ok obtain trackers where collector: "make_trackers cfg = Inr trackers" by blast
  from rebuild_settings_of_config [OF assms] obtain s where s: "rebuild_settings_of env = Inr s"
    "rb_heartbeat s = tracker_heartbeat_seconds cfg" "rb_delay s = delay_change_threshold_seconds cfg"
    "rb_prediction s = prediction_time_change_threshold_seconds cfg"
    "rb_distance s = distance_threshold cfg" "rb_null_guard s = change_tracker_null_guard_rows cfg" by blast
  have "rebuild_tracker_args s Tripupdates = Some (tripupdates_tracker cfg)" "rebuild_tracker_args s Alerts = Some (alerts_tracker cfg)"
    by (simp_all add: s tripupdates_tracker_def alerts_tracker_def trip_update_numeric_tolerances_def)
  moreover from collector obtain trips alerts where "make_change_tracker (tripupdates_tracker cfg) = Inr trips"
      "make_change_tracker (alerts_tracker cfg) = Inr alerts"
      "trackers = (\<lambda>f. case f of Vehiclepositions \<Rightarrow> None | Tripupdates \<Rightarrow> Some trips | Alerts \<Rightarrow> Some alerts)"
    by (auto simp: make_trackers_def bind_result_iff)
  ultimately have "make_tracker s feed = Inr (trackers feed)" for feed
    by (cases feed) (simp_all add: make_tracker_def)
  with s(1) collector show ?thesis by blast
qed

lemma rebuild_selects_like_collector_witness:
  "\<exists>cfg s trackers. from_env demo_env = Inr cfg \<and> rebuild_settings_of demo_env = Inr s \<and> make_trackers cfg = Inr trackers \<and>
     make_tracker s Tripupdates = Inr (trackers Tripupdates)"
  using demo_env_accepted rebuild_selects_like_collector [of demo_env] by blast

subsection \<open>The chunk loop\<close>

lemma flush_part_Inr:
  "flush_part io rows rest staging s = Inr s' \<longleftrightarrow>
   (\<exists>bs. ri_parquet io (rp_part s) rows = Inr bs \<and>
      s' = s\<lparr>rp_trees := rp_trees s @ [write_file (ri_stamp io) (staging @ [part_name (rp_part s)]) bs (current s)],
            rp_rows := rp_rows s + length rows, rp_buffer := rest, rp_part := Suc (rp_part s)\<rparr>)"
  by (cases "ri_parquet io (rp_part s) rows") (auto simp: flush_part_def flush_chunk_def)

lemma drain_returns: "0 < k \<Longrightarrow> \<exists>r. drain io staging k s = Some r"
proof (induction "length (rp_buffer s)" arbitrary: s rule: less_induct)
  case less
  show ?case
  proof (cases "int (length (rp_buffer s)) < k")
    case True
    then show ?thesis by (subst drain.simps) simp
  next
    case False
    let ?f = "flush_part io (take (py_index k (rp_buffer s)) (rp_buffer s)) (drop (py_index k (rp_buffer s)) (rp_buffer s)) staging s"
    show ?thesis
    proof (cases ?f)
      case (Inl e)
      with False show ?thesis by (subst drain.simps) simp
    next
      case (Inr s')
      then have "rp_buffer s' = drop (py_index k (rp_buffer s)) (rp_buffer s)" by (auto simp: flush_part_Inr)
      moreover have "0 < py_index k (rp_buffer s)" "0 < length (rp_buffer s)" using less.prems False by (auto simp: py_index_def)
      ultimately have "length (rp_buffer s') < length (rp_buffer s)" by simp
      from less.hyps [OF this less.prems] show ?thesis using Inr False by (subst drain.simps) simp
    qed
  qed
qed

lemma drain_endless:
  assumes "k \<le> 0" and "\<And>n rows. \<exists>bs. ri_parquet io n rows = Inr bs"
  shows "drain io staging k s = None"
proof -
  define P where "P = (\<lambda>(io :: rebuild_io) (staging :: path) (k :: int) (s :: replay) (y :: exn option \<times> replay).
    \<not> (k \<le> 0 \<and> (\<forall>n rows. \<exists>bs. ri_parquet io n rows = Inr bs)))"
  have "P io staging k s r" if run: "drain io staging k s = Some r" for r
  proof (rule drain.raw_induct [of P, OF _ run])
    fix f io' staging' k' s1 y
    assume ih: "\<And>io staging k s y. f io staging k s = Some y \<Longrightarrow> P io staging k s y"
      and step: "(if int (length (rp_buffer s1)) < k' then Some (None, s1)
        else case flush_part io' (take (py_index k' (rp_buffer s1)) (rp_buffer s1)) (drop (py_index k' (rp_buffer s1)) (rp_buffer s1)) staging' s1 of
          Inl e \<Rightarrow> Some (Some e, s1) | Inr s' \<Rightarrow> f io' staging' k' s') = Some y"
    show "P io' staging' k' s1 y"
      unfolding P_def
    proof
      assume k: "k' \<le> 0 \<and> (\<forall>n rows. \<exists>bs. ri_parquet io' n rows = Inr bs)"
      then obtain s2 where "flush_part io' (take (py_index k' (rp_buffer s1)) (rp_buffer s1)) (drop (py_index k' (rp_buffer s1)) (rp_buffer s1))
          staging' s1 = Inr s2"
        by (meson flush_part_Inr)
      with step k have "f io' staging' k' s2 = Some y" by simp
      from ih [OF this] k show False unfolding P_def by blast
    qed
  qed
  then have "\<not> P io staging k s r \<Longrightarrow> drain io staging k s \<noteq> Some r" for r by blast
  moreover have "\<not> P io staging k s r" for r using assms unfolding P_def by blast
  ultimately show ?thesis by (metis not_None_eq)
qed

lemma replay_records_returns: "0 < k \<Longrightarrow> \<exists>r. replay_records pf io feed date staging k rs s = Some r"
proof (induction rs arbitrary: s)
  case (Cons x rs)
  obtain ts raw where x: "x = (ts, raw)" by (cases x)
  show ?case
  proof (cases "ri_received io ts")
    case (Inr received)
    obtain res tracker where res: "replay_record pf feed date (rp_records s) received raw (rp_tracker s) = (res, tracker)" by (metis surj_pair)
    let ?s = "s\<lparr>rp_records := Suc (rp_records s)\<rparr>"
    show ?thesis
    proof (cases res)
      case (Inr rows)
      obtain e s2 where "drain io staging k (?s\<lparr>rp_tracker := tracker, rp_buffer := rp_buffer s @ rows\<rparr>) = Some (e, s2)"
        using drain_returns [OF Cons.prems] by (metis surj_pair)
      with Cons.IH [OF Cons.prems, of s2] Inr res \<open>ri_received io ts = Inr received\<close> show ?thesis by (cases e) (simp_all add: x)
    next
      case (Inl e)
      with Cons.IH [OF Cons.prems] res \<open>ri_received io ts = Inr received\<close> show ?thesis by (simp add: x)
    qed
  qed (simp add: x)
qed simp

lemma replay_and_install_returns: "0 < k \<Longrightarrow> \<exists>r. replay_and_install pf tk io feed date k allow_errors staging raw intact s = Some r"
proof -
  assume k: "0 < k"
  obtain records raised where i: "iter_records (c_gunzip (pf_codec pf)) raw = (records, raised)" by (metis surj_pair)
  obtain e s1 where "replay_records pf io feed date staging k records s = Some (e, s1)"
    using replay_records_returns [OF k] by (metis surj_pair)
  then show ?thesis by (cases e; cases raised) (simp_all add: replay_and_install_def i)
qed

lemma rebuild_one_returns:
  assumes "0 < k"
  shows "\<exists>r. rebuild_one pf tk settings io feed date k allow_errors allow_current t = Some r"
proof -
  obtain R where "\<And>a staging raw intact s. replay_and_install pf tk io feed date k a staging raw intact s = Some (R a staging raw intact s)"
    using replay_and_install_returns [OF assms] by metis
  then show ?thesis
    unfolding rebuild_one_def Let_def by (simp split: option.split sum.split)
qed

lemma rebuild_dates_returns:
  "0 < k \<Longrightarrow> \<exists>r. rebuild_dates pf tk settings io k allow_errors allow_current targets t = Some r"
proof (induction targets arbitrary: t)
  case (Cons x targets)
  obtain feed date where x: "x = (feed, date)" by (cases x)
  obtain r ts where "rebuild_one pf tk settings (io feed date) feed date k allow_errors allow_current t = Some (r, ts)"
    using rebuild_one_returns [OF Cons.prems] by (metis surj_pair)
  with Cons.IH [OF Cons.prems, of "last ts"] show ?case by (auto simp: x)
qed auto

text \<open>
  Claim C13. The command always returns: it refuses a chunk length that is not positive, which the chunk loop of
  \<^verbatim>\<open>rebuild_one\<close> would never leave while its writes succeed, and with a positive one every loop ends.
\<close>

theorem rebuild_returns:
  "(\<exists>status ts. rebuild_main pf tk settings io today args t = Some (status, ts)) \<and>
   ((\<forall>n rows. \<exists>bs. ri_parquet one n rows = Inr bs) \<longrightarrow> (drain one staging (ra_chunk_rows args) s = None \<longleftrightarrow> ra_chunk_rows args \<le> 0))"
proof -
  have "\<exists>r. rebuild_main pf tk settings io today args t = Some r"
    using rebuild_dates_returns [of "ra_chunk_rows args"] by (cases "ra_chunk_rows args \<le> 0") (fastforce simp: rebuild_main_def)+
  moreover have "drain one staging (ra_chunk_rows args) s = None \<longleftrightarrow> ra_chunk_rows args \<le> 0"
    if "\<forall>n rows. \<exists>bs. ri_parquet one n rows = Inr bs"
    using drain_endless [of "ra_chunk_rows args" one staging s] drain_returns [of "ra_chunk_rows args" one staging s] that
    by (metis linorder_not_le option.discI)
  ultimately show ?thesis by (metis surj_pair)
qed

text \<open>A writer that always succeeds\<close>

definition demo_rebuild_io :: rebuild_io where
  "demo_rebuild_io = \<lparr>ri_today = ''2026-01-02'', ri_received = (\<lambda>ts. Inr (of_nat (unat ts), ''r'')),
     ri_parquet = (\<lambda>_ rows. Inr (replicate (length rows) 7)), ri_uuid = ''u'', ri_previous = ''p'', ri_stamp = (0, 0, 0), ri_now = ''n'',
     ri_install = Installs\<rparr>"

lemma rebuild_returns_witness:
  "drain demo_rebuild_io [] 0 (begin_replay None [] []) = None \<and> drain demo_rebuild_io [] 2 (begin_replay None [] []) \<noteq> None"
  using rebuild_returns [of _ _ _ _ _ "\<lparr>ra_date = None, ra_feed = None, ra_chunk_rows = 0, ra_allow_errors = False, ra_allow_current = False\<rparr>"
      _ demo_rebuild_io "[]" "begin_replay None [] []"]
    rebuild_returns [of _ _ _ _ _ "\<lparr>ra_date = None, ra_feed = None, ra_chunk_rows = 2, ra_allow_errors = False, ra_allow_current = False\<rparr>"
      _ demo_rebuild_io "[]" "begin_replay None [] []"]
  by (simp add: demo_rebuild_io_def)

end
