(* ===== verification/Rebuild_Install.thy ===== *)
theory Rebuild_Install
  imports Rebuild_Safety
begin

section \<open>A rebuild never loses the partition it replaces\<close>

text \<open>
  Until the final renames only the staging directory changes. The old partition is moved aside whole before the staged one takes
  its place, and a failed rename moves it back. When that move back fails too, or the new partition is in place and only the last
  sync fails, the old one stays, whole, where it was moved to.
\<close>

text \<open>The directory \<open>e\<close> of \<open>u\<close> holds what \<open>d\<close> holds in \<open>t\<close>.\<close>

definition same_dir :: "path \<Rightarrow> tree \<Rightarrow> path \<Rightarrow> tree \<Rightarrow> bool" where
  "same_dir d t e u \<longleftrightarrow> (\<forall>q. map_of u (e @ q) = map_of t (d @ q))"

lemma same_dir_refl: "same_dir d t d t"
  by (simp add: same_dir_def)

lemma same_dir_trans: "same_dir d t e u \<Longrightarrow> same_dir e u f v \<Longrightarrow> same_dir d t f v"
  by (simp add: same_dir_def)

lemma same_dir_exists: "same_dir d t e u \<Longrightarrow> exists_at t d \<Longrightarrow> exists_at u e"
  unfolding same_dir_def exists_at_def by (metis append_Nil2)

subsection \<open>Renaming and removing directories\<close>

lemma below_append: "below d p \<longleftrightarrow> (\<exists>q. p = d @ q)"
  unfolding below_def by (metis append_take_drop_id append_eq_conv_conj)

lemma map_of_rename_other:
  "\<not> below src p \<Longrightarrow> \<not> below dst p \<Longrightarrow> map_of (rename_dir src dst t) p = map_of t p"
  by (induction t) (auto simp: rename_dir_def below_append)

lemma map_of_rename_target:
  "(\<And>x. x \<in> set t \<Longrightarrow> \<not> below dst (fst x)) \<Longrightarrow> map_of (rename_dir src dst t) (dst @ q) = map_of t (src @ q)"
proof (induction t)
  case (Cons x t)
  obtain p n where x: "x = (p, n)" by (cases x)
  have "\<not> below dst p" using Cons.prems [of x] x by simp
  then have "p \<noteq> dst @ q" by (auto simp: below_append)
  moreover have "below src p \<Longrightarrow> dst @ drop (length src) p = dst @ q \<longleftrightarrow> p = src @ q" by (auto simp: below_append)
  moreover have "p = src @ q \<Longrightarrow> below src p" by (auto simp: below_append)
  ultimately show ?case using Cons by (auto simp: rename_dir_def x)
qed (simp add: rename_dir_def)

lemma rename_same_dir: "(\<And>x. x \<in> set t \<Longrightarrow> \<not> below dst (fst x)) \<Longrightarrow> same_dir src t dst (rename_dir src dst t)"
  by (simp add: same_dir_def map_of_rename_target)

text \<open>Two paths of which none is below the other\<close>

definition apart :: "path \<Rightarrow> path \<Rightarrow> bool" where
  "apart d e \<longleftrightarrow> \<not> below d e \<and> \<not> below e d"

lemma apart_below: "apart d e \<Longrightarrow> \<not> below d (e @ q)"
  unfolding apart_def below_append by (metis append_eq_append_conv2)

lemma rename_apart: "apart src d \<Longrightarrow> apart dst d \<Longrightarrow> same_dir d t d (rename_dir src dst t)"
  by (simp add: same_dir_def map_of_rename_other apart_below)

lemma rename_clears:
  assumes "apart src dst" and "x \<in> set (rename_dir src dst t)"
  shows "\<not> below src (fst x)"
proof -
  from assms(2) obtain p n where x: "(p, n) \<in> set t" "x = (if below src p then dst @ drop (length src) p else p, n)"
    by (auto simp: rename_dir_def)
  show ?thesis using apart_below [OF assms(1)] by (simp add: x(2))
qed

lemma remove_apart: "apart d e \<Longrightarrow> same_dir e t e (remove_tree d t)"
proof -
  assume a: "apart d e"
  have "map_of (remove_tree d t) p = map_of t p" if "\<not> below d p" for p
    using that by (induction t) (auto simp: remove_tree_def)
  with apart_below [OF a] show ?thesis by (simp add: same_dir_def)
qed

lemma make_parents_apart: "apart e d \<Longrightarrow> same_dir d t d (make_parents (e @ r) t)"
  unfolding same_dir_def
proof
  fix q
  assume a: "apart e d"
  have "d @ q \<notin> set (prefixes_of (butlast (e @ r)))"
  proof
    assume "d @ q \<in> set (prefixes_of (butlast (e @ r)))"
    then obtain r' where "butlast (e @ r) = d @ q @ r'" by (auto simp: in_prefixes)
    then obtain r'' where "e @ r = d @ r''" by (metis append.assoc append_butlast_last_id butlast.simps(1) append_Nil2)
    with a show False unfolding apart_def below_append by (metis append_eq_append_conv2)
  qed
  with make_parents_new [of "e @ r" t "d @ q"] show "map_of (make_parents (e @ r) t) (d @ q) = map_of t (d @ q)" by blast
qed

lemma write_apart: "apart e d \<Longrightarrow> same_dir d t d (write_file st (e @ r) bs t)"
  using make_parents_apart [of e d t r] apart_below [of d e] unfolding same_dir_def write_file_def
  by (metis apart_def apart_below below_append map_of_Cons_code(2) update_conv' fun_upd_apply)

lemma make_parents_self: "same_dir d t d (make_parents d t)"
  unfolding same_dir_def
proof
  fix q
  have "d @ q \<notin> set (prefixes_of (butlast d))"
  proof
    assume a: "d @ q \<in> set (prefixes_of (butlast d))"
    then obtain r where r: "butlast d = d @ q @ r" "d @ q \<noteq> []" by (auto simp: in_prefixes)
    from arg_cong [OF r(1), of length] have "length d - 1 = length d + length q + length r" by simp
    moreover have "0 < length d + length q" using r(2) by auto
    ultimately show False by linarith
  qed
  with make_parents_new [of d t "d @ q"] show "map_of (make_parents d t) (d @ q) = map_of t (d @ q)" by blast
qed

lemma make_parents_append: "exists_at t p \<Longrightarrow> exists_at (make_parents q t) p"
  using make_parents_old [of t p _ q] by (auto simp: exists_at_def)

definition fresh :: "path \<Rightarrow> tree \<Rightarrow> bool" where
  "fresh d t \<longleftrightarrow> (\<forall>x \<in> set t. \<not> below d (fst x))"

lemma fresh_iff: "fresh d t \<longleftrightarrow> (\<forall>q. map_of t (d @ q) = None)"
  unfolding fresh_def map_of_eq_None_iff below_append by (metis (no_types, lifting) image_iff)

lemma fresh_same_dir: "same_dir d t d u \<Longrightarrow> fresh d t \<Longrightarrow> fresh d u"
  by (simp add: fresh_iff same_dir_def)

lemma feed_name_not_staging: "feed_name f \<noteq> ''.rebuild-staging''"
  by (cases f) simp_all

lemma apart_paths:
  "apart (staging_path io feed date) (partition_dir ''parquet'' feed date)"
  "apart (staging_path io feed date) (previous_path io feed date)"
  "apart (partition_dir ''parquet'' feed date) (previous_path io feed date)"
  using feed_name_not_staging [of feed]
  by (auto simp: apart_def below_def staging_path_def partition_dir_def previous_path_def)

lemma apart_sym: "apart d e \<Longrightarrow> apart e d"
  by (simp add: apart_def)

subsection \<open>The replay\<close>

text \<open>Every tree of the trace holds the old partition where it was, and the place for it is still free.\<close>

definition untouched_by :: "path \<Rightarrow> path \<Rightarrow> tree \<Rightarrow> tree \<Rightarrow> bool" where
  "untouched_by dest prev t u \<longleftrightarrow> same_dir dest t dest u \<and> same_dir prev t prev u"

lemma untouched_write:
  "untouched_by dest prev t u \<Longrightarrow> apart staging dest \<Longrightarrow> apart staging prev \<Longrightarrow> untouched_by dest prev t (write_file st (staging @ r) bs u)"
  unfolding untouched_by_def by (metis same_dir_trans write_apart)

definition replay_kept :: "path \<Rightarrow> path \<Rightarrow> tree \<Rightarrow> replay \<Rightarrow> bool" where
  "replay_kept dest prev t s \<longleftrightarrow> rp_trees s \<noteq> [] \<and> (\<forall>u \<in> set (rp_trees s). untouched_by dest prev t u)"

lemma flush_part_kept:
  assumes "flush_part io rows rest staging s = Inr s'" and "replay_kept dest prev t s" and "apart staging dest" "apart staging prev"
  shows "replay_kept dest prev t s'"
proof -
  from assms(2) have "untouched_by dest prev t (current s)" by (simp add: replay_kept_def current_def)
  note written = untouched_write [OF this assms(3,4)]
  from assms(1) obtain bs where
    "rp_trees s' = rp_trees s @ [write_file (ri_stamp io) (staging @ [part_name (rp_part s)]) bs (current s)]"
    by (auto simp: flush_part_Inr)
  with written assms(2) show ?thesis unfolding replay_kept_def by auto
qed

lemma drain_kept:
  assumes "drain io staging k s = Some (e, s')" and "replay_kept dest prev t s" and a: "apart staging dest" "apart staging prev"
  shows "replay_kept dest prev t s'"
proof -
  define P where "P = (\<lambda>(io :: rebuild_io) st (k :: int) (s :: replay) (y :: exn option \<times> replay).
    st = staging \<longrightarrow> replay_kept dest prev t s \<longrightarrow> replay_kept dest prev t (snd y))"
  have "P io staging k s (e, s')"
  proof (rule drain.raw_induct [of P, OF _ assms(1)])
    fix f io' st k' s1 y
    assume ih: "\<And>io st k s y. f io st k s = Some y \<Longrightarrow> P io st k s y"
      and step: "(if int (length (rp_buffer s1)) < k' then Some (None, s1)
        else case flush_part io' (take (py_index k' (rp_buffer s1)) (rp_buffer s1)) (drop (py_index k' (rp_buffer s1)) (rp_buffer s1)) st s1 of
          Inl e \<Rightarrow> Some (Some e, s1) | Inr s' \<Rightarrow> f io' st k' s') = Some y"
    show "P io' st k' s1 y"
      unfolding P_def
    proof (intro impI)
      assume st: "st = staging" and kept: "replay_kept dest prev t s1"
      from step consider "snd y = s1"
        | s2 where "flush_part io' (take (py_index k' (rp_buffer s1)) (rp_buffer s1)) (drop (py_index k' (rp_buffer s1)) (rp_buffer s1)) staging s1 = Inr s2"
          "f io' st k' s2 = Some y"
        by (auto simp: st split: if_splits sum.splits)
      then show "replay_kept dest prev t (snd y)"
      proof cases
        case 2
        from flush_part_kept [OF 2(1) kept a] ih [OF 2(2)] st show ?thesis by (simp add: P_def)
      qed (simp add: kept)
    qed
  qed
  with assms(2) show ?thesis by (simp add: P_def)
qed

lemma replay_kept_cong: "rp_trees s = rp_trees s' \<Longrightarrow> replay_kept dest prev t s = replay_kept dest prev t s'"
  by (simp add: replay_kept_def)

lemma replay_records_kept:
  assumes "replay_records pf io feed date staging k rs s = Some (e, s')" and "replay_kept dest prev t s" and a: "apart staging dest" "apart staging prev"
  shows "replay_kept dest prev t s'"
  using assms(1,2)
proof (induction rs arbitrary: s)
  case (Cons x rs)
  obtain ts raw where x: "x = (ts, raw)" by (cases x)
  let ?s = "s\<lparr>rp_records := Suc (rp_records s)\<rparr>"
  from Cons.prems(2) have kept: "replay_kept dest prev t (?s\<lparr>rp_tracker := tr, rp_buffer := b\<rparr>)"
      "replay_kept dest prev t (?s\<lparr>rp_tracker := tr, rp_failures := n\<rparr>)" "replay_kept dest prev t ?s" for tr b n
    by (simp_all add: replay_kept_def)
  show ?case
  proof (cases "ri_received io ts")
    case (Inl e')
    with Cons.prems(1) kept(3) show ?thesis by (auto simp: x)
  next
    case (Inr received)
    obtain res tracker where res: "replay_record pf feed date (rp_records s) received raw (rp_tracker s) = (res, tracker)" by (metis surj_pair)
    show ?thesis
    proof (cases res)
      case (Inl e')
      with Cons.prems(1) Inr res \<open>ri_received io ts = Inr received\<close> have
        "replay_records pf io feed date staging k rs (?s\<lparr>rp_tracker := tracker, rp_failures := Suc (rp_failures s)\<rparr>) = Some (e, s')" by (simp add: x)
      from Cons.IH [OF this kept(2)] show ?thesis .
    next
      case (Inr rows)
      with Cons.prems(1) res \<open>ri_received io ts = Inr received\<close> obtain e2 s2 where
        d: "drain io staging k (?s\<lparr>rp_tracker := tracker, rp_buffer := rp_buffer s @ rows\<rparr>) = Some (e2, s2)"
           "(case e2 of Some e \<Rightarrow> Some (Some e, s2) | None \<Rightarrow> replay_records pf io feed date staging k rs s2) = Some (e, s')"
        by (auto simp: x Option.bind_eq_Some_conv)
      from drain_kept [OF d(1) kept(1) a] have "replay_kept dest prev t s2" .
      with Cons.IH [of s2] d(2) show ?thesis by (cases e2) auto
    qed
  qed
qed auto


subsection \<open>The renames\<close>

definition partition_safe :: "path \<Rightarrow> path \<Rightarrow> tree \<Rightarrow> tree \<Rightarrow> bool" where
  "partition_safe dest prev t u \<longleftrightarrow> same_dir dest t dest u \<or> same_dir dest t prev u"

lemma install_kept:
  assumes t1: "untouched_by dest prev t t1" and t: "exists_at t dest" "fresh prev t"
    and dest: "dest = partition_dir ''parquet'' feed date" and prev: "prev = previous_path io feed date" and staging: "staging = staging_path io feed date"
    and run: "install_rebuild io feed date staging t1 = (r, ts)"
  shows "ts \<noteq> []" and "\<forall>u \<in> set ts. partition_safe dest prev t u"
    and "\<And>e. r = Inl e \<Longrightarrow> same_dir dest t dest (last ts) \<or> ri_install io \<in> {SyncFails, RestoreFails} \<and> same_dir dest t prev (last ts)"
    and "\<And>p. r = Inr p \<Longrightarrow> p = Some prev \<and> same_dir dest t prev (last ts)"
proof -
  have ap: "apart staging dest" "apart staging prev" "apart dest prev" unfolding dest prev staging by (rule apart_paths)+
  note ap = ap ap [THEN apart_sym]
  define u0 where "u0 = make_parents dest t1"
  define u1 where "u1 = make_parents prev u0"
  define u2 where "u2 = rename_dir dest prev u1"
  have dest0: "same_dir dest t dest u0" unfolding u0_def using t1 make_parents_self same_dir_trans unfolding untouched_by_def by blast
  have prev0: "same_dir prev t prev u0"
    unfolding u0_def using t1 make_parents_apart [OF ap(3), of _ "[]"] same_dir_trans unfolding untouched_by_def by (metis append_Nil2)
  have dest1: "same_dir dest t dest u1"
    unfolding u1_def using dest0 make_parents_apart [OF ap(6), of _ "[]"] same_dir_trans by (metis append_Nil2)
  have prev1: "same_dir prev t prev u1" unfolding u1_def using prev0 make_parents_self same_dir_trans by blast
  from fresh_same_dir [OF prev1 t(2)] have "same_dir dest u1 prev u2" unfolding u2_def fresh_def by (intro rename_same_dir) blast
  with dest1 have prev2: "same_dir dest t prev u2" using same_dir_trans by blast
  have fresh2: "fresh dest u2" using rename_clears [OF ap(3)] unfolding u2_def fresh_def by blast
  have "same_dir dest u2 dest u2" by (rule same_dir_refl)
  have staged: "same_dir dest t prev (rename_dir staging dest u2)"
    using prev2 rename_apart [OF ap(2,3)] same_dir_trans by blast
  have restored: "same_dir dest t dest (rename_dir prev dest u2)"
    using prev2 rename_same_dir [of u2 dest prev] fresh2 same_dir_trans unfolding fresh_def by blast
  have there: "exists_at u2 prev" using prev2 t(1) by (rule same_dir_exists)
  have gone: "\<not> exists_at u2 dest" using fresh2 fresh_iff [of dest u2] by (metis append_Nil2 exists_at_def)
  have "exists_at u0 dest" using dest0 t(1) by (rule same_dir_exists)
  then have run': "(r, ts) = (if ri_install io = MoveAwayFails then (Inl (other_error ''OSError''), [u0, u1])
      else case move_in io staging dest (Some prev) u2 of (r, ts) \<Rightarrow> (r, [u0, u1] @ ts))"
    unfolding run [symmetric] install_rebuild_def Let_def u2_def u1_def u0_def dest [symmetric] prev [symmetric] by simp
  then consider "ri_install io = MoveAwayFails" "isl r" "ts = [u0, u1]"
    | "ri_install io = MoveInFails" "isl r" "ts = [u0, u1, u2, rename_dir prev dest u2]"
    | "ri_install io = RestoreFails" "isl r" "ts = [u0, u1, u2]"
    | "ri_install io = SyncFails" "isl r" "ts = [u0, u1, u2, rename_dir staging dest u2]"
    | "ri_install io = Installs" "r = Inr (Some prev)" "ts = [u0, u1, u2, rename_dir staging dest u2]"
    by (cases "ri_install io") (simp_all add: move_in_def there gone)
  note cs = this
  then show "ts \<noteq> []" by cases simp_all
  from cs show "\<forall>u \<in> set ts. partition_safe dest prev t u"
    by cases (simp_all add: partition_safe_def dest0 dest1 prev2 staged restored)
  from cs show "\<And>e. r = Inl e \<Longrightarrow> same_dir dest t dest (last ts) \<or> ri_install io \<in> {SyncFails, RestoreFails} \<and> same_dir dest t prev (last ts)"
    by cases (simp_all add: dest1 prev2 staged restored)
  from cs show "\<And>p. r = Inr p \<Longrightarrow> p = Some prev \<and> same_dir dest t prev (last ts)"
    by cases (auto simp: staged)
qed

subsection \<open>The whole run\<close>

definition rebuild_outcome_ok :: "rebuild_io \<Rightarrow> path \<Rightarrow> path \<Rightarrow> tree \<Rightarrow> (exn + row) \<times> tree list \<Rightarrow> bool" where
  "rebuild_outcome_ok io dest prev t run \<longleftrightarrow>
     snd run \<noteq> [] \<and> (\<forall>u \<in> set (snd run). partition_safe dest prev t u) \<and>
     (case fst run of
        Inl _ \<Rightarrow> same_dir dest t dest (last (snd run)) \<or> ri_install io \<in> {SyncFails, RestoreFails} \<and> same_dir dest t prev (last (snd run))
      | Inr m \<Rightarrow> row_get m ''previous_partition'' = PStr (join_path prev) \<and> same_dir dest t prev (last (snd run)))"

lemma untouched_outcome:
  "ts \<noteq> [] \<Longrightarrow> \<forall>u \<in> set ts. untouched_by dest prev t u \<Longrightarrow> rebuild_outcome_ok io dest prev t (Inl e, ts)"
  by (simp add: rebuild_outcome_ok_def partition_safe_def untouched_by_def)

lemma clean_up_ok:
  assumes "rebuild_outcome_ok io dest prev t run" and "apart staging dest" "apart staging prev"
  shows "rebuild_outcome_ok io dest prev t (clean_up staging run)"
proof (cases "fst run")
  case (Inl e)
  then obtain ts where run: "run = (Inl e, ts)" by (cases run) auto
  with assms(1) have ts: "ts \<noteq> []" "\<forall>u \<in> set ts. partition_safe dest prev t u"
    "same_dir dest t dest (last ts) \<or> ri_install io \<in> {SyncFails, RestoreFails} \<and> same_dir dest t prev (last ts)" by (simp_all add: rebuild_outcome_ok_def)
  from ts(1) have "last ts \<in> set ts" by simp
  with ts(2) have "partition_safe dest prev t (last ts)" by blast
  note removed = remove_apart [OF assms(2), of "last ts"] remove_apart [OF assms(3), of "last ts"]
  have "partition_safe dest prev t (remove_tree staging (last ts))"
    using \<open>partition_safe dest prev t (last ts)\<close> removed same_dir_trans unfolding partition_safe_def by blast
  moreover have "same_dir dest t dest (remove_tree staging (last ts)) \<or>
      ri_install io \<in> {SyncFails, RestoreFails} \<and> same_dir dest t prev (remove_tree staging (last ts))"
    using ts(3) removed same_dir_trans by blast
  ultimately show ?thesis using ts(2) by (simp add: run clean_up_def rebuild_outcome_ok_def)
next
  case (Inr m)
  with assms(1) show ?thesis by (cases run) (simp add: clean_up_def)
qed

lemma finish_ok:
  assumes kept: "replay_kept dest prev t s" and t: "exists_at t dest" "fresh prev t"
    and dest: "dest = partition_dir ''parquet'' feed date" and prev: "prev = previous_path io feed date" and staging: "staging = staging_path io feed date"
  shows "rebuild_outcome_ok io dest prev t (finish_rebuild tk io feed date k allow_errors staging raw intact s)"
proof -
  have ap: "apart staging dest" "apart staging prev" unfolding dest prev staging by (rule apart_paths)+
  have failed: "rebuild_outcome_ok io dest prev t (Inl e, rp_trees s)" for e :: exn
    using kept by (intro untouched_outcome) (simp_all add: replay_kept_def)
  show ?thesis
  proof (cases "rp_failures s \<noteq> 0 \<and> \<not> allow_errors")
    case True
    then show ?thesis by (simp add: finish_rebuild_def failed)
  next
    case False
    let ?w = "if rp_buffer s \<noteq> [] \<or> rp_part s = 0 then flush_part io (rp_buffer s) [] staging s else Inr s"
    show ?thesis
    proof (cases ?w)
      case (Inl e)
      with False show ?thesis by (simp add: finish_rebuild_def failed)
    next
      case (Inr s1)
      from Inr kept flush_part_kept [OF _ kept ap, of io "rp_buffer s" "[]" s1] have kept1: "replay_kept dest prev t s1"
        by (auto split: if_splits)
      define m where "m = rebuild_manifest_row tk io feed date k raw intact s1"
      define t1 where "t1 = write_json tk (ri_stamp io) (staging @ [''rebuild_manifest.json'']) m (current s1)"
      from kept1 have "untouched_by dest prev t (current s1)" by (simp add: replay_kept_def current_def)
      then have t1: "untouched_by dest prev t t1" unfolding t1_def write_json_def using ap by (rule untouched_write)
      obtain r ts where run: "install_rebuild io feed date staging t1 = (r, ts)" by (metis surj_pair)
      note ins = install_kept [OF t1 t dest prev staging run]
      have "rebuild_outcome_ok io dest prev t
          (map_sum id (\<lambda>p. m @ [(''previous_partition'', case p of None \<Rightarrow> PNone | Some p \<Rightarrow> PStr (join_path p))]) r, rp_trees s1 @ t1 # ts)"
        using ins kept1 t1
        by (cases r) (auto simp: rebuild_outcome_ok_def replay_kept_def partition_safe_def untouched_by_def m_def
            rebuild_manifest_row_def row_get_def)
      then show ?thesis
        unfolding finish_rebuild_def if_not_P [OF False] Inr by (simp add: Let_def run m_def [symmetric] t1_def [symmetric])
    qed
  qed
qed

lemma begin_replay_kept:
  assumes "apart staging dest" "apart staging prev"
  shows "replay_kept dest prev t (begin_replay tracker staging t)"
proof -
  have "same_dir d t d (AList.update staging Directory (make_parents staging t))" if a: "apart staging d" for d
    using make_parents_apart [OF a, of t "[]"] apart_below [OF a [THEN apart_sym]] apart_below [OF a] unfolding same_dir_def
    by (metis append_Nil2 below_append update_conv' fun_upd_apply)
  with assms show ?thesis by (simp add: replay_kept_def begin_replay_def untouched_by_def same_dir_refl)
qed

text \<open>
  Claim C8. A rebuild never loses the partition it replaces. In every tree of the run the old partition is, whole, in its place
  or in the place it is moved to. When the run fails it is in its place at the end, except in two cases, in which it is kept whole
  at the place it was moved to: the staged partition could not be moved in and the move back of the old one failed too, or the
  staged partition is in place and only the final sync failed. When the run succeeds the result names where the old one is kept.
\<close>

theorem previous_partition_kept:
  assumes "rebuild_one pf tk settings io feed date k allow_errors allow_current t = Some (r, ts)"
    and "exists_at t (partition_dir ''parquet'' feed date)" and "fresh (previous_path io feed date) t"
  shows "(\<forall>u \<in> set ts. \<exists>d \<in> {partition_dir ''parquet'' feed date, previous_path io feed date}.
        \<forall>q. map_of u (d @ q) = map_of t (partition_dir ''parquet'' feed date @ q)) \<and>
      (case r of
         Inl _ \<Rightarrow>
           (\<forall>q. map_of (last ts) (partition_dir ''parquet'' feed date @ q) = map_of t (partition_dir ''parquet'' feed date @ q)) \<or>
           ri_install io \<in> {RestoreFails, SyncFails} \<and>
           (\<forall>q. map_of (last ts) (previous_path io feed date @ q) = map_of t (partition_dir ''parquet'' feed date @ q))
       | Inr m \<Rightarrow> row_get m ''previous_partition'' = PStr (join_path (previous_path io feed date)) \<and>
           (\<forall>q. map_of (last ts) (previous_path io feed date @ q) = map_of t (partition_dir ''parquet'' feed date @ q)))"
proof -
  define dest where "dest = partition_dir ''parquet'' feed date"
  define prev where "prev = previous_path io feed date"
  define staging where "staging = staging_path io feed date"
  note names = dest_def prev_def staging_def
  have ap: "apart staging dest" "apart staging prev" unfolding names by (rule apart_paths)+
  have t: "exists_at t dest" "fresh prev t" using assms(2,3) by (simp_all add: names)
  have unchanged: "rebuild_outcome_ok io dest prev t (Inl e, [t])" for e
    by (rule untouched_outcome) (simp_all add: untouched_by_def same_dir_refl)
  have begun: "rebuild_outcome_ok io dest prev t (Inl e, rp_trees (begin_replay tracker staging t))" for e tracker
    using begin_replay_kept [OF ap, of t tracker] by (intro untouched_outcome) (simp_all add: replay_kept_def)
  have replayed: "rebuild_outcome_ok io dest prev t run"
    if "replay_and_install pf tk io feed date k a staging raw intact (begin_replay tracker staging t) = Some run" for a raw intact tracker run
  proof -
    obtain records raised where i: "iter_records (c_gunzip (pf_codec pf)) raw = (records, raised)" by (metis surj_pair)
    with that obtain e s1 where s1: "replay_records pf io feed date staging k records (begin_replay tracker staging t) = Some (e, s1)"
        "run = (case (e, raised) of (Some e, _) \<Rightarrow> (Inl e, rp_trees s1) | (None, Some g) \<Rightarrow> (Inl (pf_log_exn pf (GunzipError g)), rp_trees s1)
          | (None, None) \<Rightarrow> finish_rebuild tk io feed date k a staging raw intact s1)"
      by (auto simp: replay_and_install_def Option.bind_eq_Some_conv split: option.splits)
    have kept: "replay_kept dest prev t s1" by (rule replay_records_kept [OF s1(1) begin_replay_kept [OF ap] ap])
    then have "rebuild_outcome_ok io dest prev t (Inl e, rp_trees s1)" for e by (intro untouched_outcome) (simp_all add: replay_kept_def)
    moreover note finish_ok [OF kept t names]
    ultimately show ?thesis unfolding s1(2) by (simp split: option.split)
  qed
  have cleaned: "rebuild_outcome_ok io dest prev t run'"
    if "replay_and_install pf tk io feed date k a staging raw intact (begin_replay tracker staging t) = Some run" "clean_up staging run = run'"
    for a raw intact tracker run run'
    using clean_up_ok [OF replayed [OF that(1)] ap] that(2) by simp
  have "rebuild_outcome_ok io dest prev t (r, ts)"
    using assms(1) unchanged begun cleaned
    unfolding rebuild_one_def Let_def staging_def [symmetric]
    by (auto split: if_splits option.splits sum.splits)
  then show ?thesis
    unfolding rebuild_outcome_ok_def partition_safe_def same_dir_def dest_def prev_def by (auto split: sum.splits)
qed

end
