(* ===== verification/Collector_Safety.thy ===== *)
theory Collector_Safety
  imports Startup
begin

section \<open>What the hot path guarantees\<close>

text \<open>
  Lemmas on each stage of \<^verbatim>\<open>process_result\<close> and the properties that need all of them: no response is lost,
  the journal agrees with the health evidence, an observation gap forces a presence baseline, and whatever the
  change trackers remember as written is stored.
\<close>

subsection \<open>Archiving\<close>

text \<open>Archiving touches the raw logs and its own bookkeeping only.\<close>

definition same_but_raw :: "collector \<Rightarrow> collector \<Rightarrow> bool" where
  "same_but_raw c c' \<longleftrightarrow> co_auxiliary_sha256 c' = co_auxiliary_sha256 c \<and> co_trackers c' = co_trackers c \<and>
     co_presence c' = co_presence c \<and> co_monitor c' = co_monitor c \<and> co_metadata_written c' = co_metadata_written c \<and>
     co_presence_logs c' = co_presence_logs c \<and> co_spool c' = co_spool c \<and> co_journals c' = co_journals c"

lemma same_but_raw_refl [simp]: "same_but_raw c c"
  by (simp add: same_but_raw_def)

lemma same_but_raw_trans: "same_but_raw a b \<Longrightarrow> same_but_raw b c \<Longrightarrow> same_but_raw a c"
  by (simp add: same_but_raw_def)

lemma repair_pending_same: "repair_pending pf budgets target ps c = (e, c') \<Longrightarrow> same_but_raw c c'"
proof (induction ps arbitrary: c)
  case (Cons p ps)
  obtain res g where r: "repair_truncated_tail (c_gunzip (pf_codec pf)) (budgets p) (co_raw c p) = (res, g)"
    by (cases "repair_truncated_tail (c_gunzip (pf_codec pf)) (budgets p) (co_raw c p)")
  let ?kept = "c\<lparr>co_raw := (co_raw c)(p := g)\<rparr>"
  let ?done = "c\<lparr>co_raw := (co_raw c)(p := g), co_needs_repair := removeAll p (co_needs_repair c)\<rparr>"
  have s: "same_but_raw c ?kept" "same_but_raw c ?done" by (simp_all add: same_but_raw_def)
  from Cons.prems r consider "repair_pending pf budgets target ps c = (e, c')" | "c' = ?kept"
    | "repair_pending pf budgets target ps ?kept = (e, c')" | "repair_pending pf budgets target ps ?done = (e, c')"
    by (auto simp: Let_def split: if_splits sum.splits)
  then show ?case
    using Cons.IH [of c] Cons.IH [of ?kept] Cons.IH [of ?done] s same_but_raw_trans by cases blast+
qed simp

lemma append_record_written:
  assumes "append_record compress io ts raw fsync f = (None, f')"
  shows "\<exists>old. content f' = Some (old @ frame (ts, compress raw))"
proof (cases "frame_ok (ts, compress raw)")
  case True
  with assms show ?thesis by (auto simp: append_record_small Let_def split: if_splits)
qed (use assms in \<open>simp add: append_record_large\<close>)

text \<open>A record that counts as archived is the last frame of its log.\<close>

definition archived_in :: "platform \<Rightarrow> feed \<Rightarrow> string \<Rightarrow> seconds \<Rightarrow> bytes \<Rightarrow> collector \<Rightarrow> bool" where
  "archived_in pf f date received payload c \<longleftrightarrow>
     (\<exists>old. content (co_raw c (f, date)) = Some (old @ frame (pf_f64 pf received, c_compress (pf_codec pf) payload)))"

lemma archive_raw_spec:
  assumes "archive_raw pf dp io force f date received payload c = ((archived, raw_ok, info), c')"
  shows "same_but_raw c c'" and "archived \<Longrightarrow> raw_ok \<and> archived_in pf f date received payload c'"
    and "force \<Longrightarrow> archived = raw_ok" and "\<not> raw_ok \<Longrightarrow> (f, date) \<in> set (co_needs_repair c')"
proof -
  have "same_but_raw c c' \<and> (archived \<longrightarrow> raw_ok \<and> archived_in pf f date received payload c') \<and> (force \<longrightarrow> archived = raw_ok) \<and>
      (\<not> raw_ok \<longrightarrow> (f, date) \<in> set (co_needs_repair c'))"
  proof (cases "force \<or> (case co_last_raw c f of None \<Rightarrow> True
      | Some t \<Rightarrow> ar_now io - t \<ge> num_val (raw_archive_intervals (dp_config dp) f))")
    case False
    with assms show ?thesis unfolding archive_raw_def Let_def by simp
  next
    case True
    obtain e c1 where rp: "repair_pending pf (ar_repairs io) (f, date) (co_needs_repair c) c = (e, c1)"
      by (cases "repair_pending pf (ar_repairs io) (f, date) (co_needs_repair c) c")
    obtain e2 g where ap: "append_record (c_compress (pf_codec pf)) (ar_append io) (pf_f64 pf received) payload
        (raw_fsync (dp_config dp)) (co_raw c1 (f, date)) = (e2, g)"
      by (cases "append_record (c_compress (pf_codec pf)) (ar_append io) (pf_f64 pf received) payload
        (raw_fsync (dp_config dp)) (co_raw c1 (f, date))")
    note same = repair_pending_same [OF rp]
    have "e = None \<Longrightarrow> e2 = None \<Longrightarrow> \<exists>old. content g = Some (old @ frame (pf_f64 pf received, c_compress (pf_codec pf) payload))"
      using append_record_written ap by blast
    with True assms rp ap same show ?thesis
      unfolding archive_raw_def Let_def same_but_raw_def archived_in_def
      by (cases e; cases e2) auto
  qed
  then show "same_but_raw c c'" "archived \<Longrightarrow> raw_ok \<and> archived_in pf f date received payload c'" "force \<Longrightarrow> archived = raw_ok"
    "\<not> raw_ok \<Longrightarrow> (f, date) \<in> set (co_needs_repair c')"
    by blast+
qed

subsection \<open>The other stages\<close>

lemma record_presence_spec:
  assumes "record_presence pf dp io r date p c = ((ok, details, err), c')"
  shows "co_raw c' = co_raw c \<and> co_trackers c' = co_trackers c \<and> co_spool c' = co_spool c \<and>
      co_auxiliary_sha256 c' = co_auxiliary_sha256 c \<and> co_needs_repair c' = co_needs_repair c"
    and "fr_feed r \<noteq> Tripupdates \<Longrightarrow> ok \<and> details = [] \<and> co_presence c' = co_presence c"
    and "fr_feed r = Tripupdates \<Longrightarrow> \<not> ok \<Longrightarrow> pz_members (co_presence c') = None"
    and "details = [] \<or> (\<exists>ev. details = presence_details ev)"
proof -
  obtain res p' log' where ob: "observe (pf_codec pf) (dp_run_id dp) (io_presence_uuid io) (io_presence io) (pa_rows p) date
      (pf_f64 pf (fr_response_received_ts r)) (presence_context r (the (pa_feed p))) (co_presence c)
      (co_presence_logs c date) = (res, p', log')"
    by (metis surj_pair)
  have gap: "pz_members p' = None" if "res = Inl e" for e
    using ob that by (auto simp: observe_def invalidate_def Let_def split: if_splits option.splits prod.splits)
  show "co_raw c' = co_raw c \<and> co_trackers c' = co_trackers c \<and> co_spool c' = co_spool c \<and>
      co_auxiliary_sha256 c' = co_auxiliary_sha256 c \<and> co_needs_repair c' = co_needs_repair c"
    and "fr_feed r \<noteq> Tripupdates \<Longrightarrow> ok \<and> details = [] \<and> co_presence c' = co_presence c"
    and "fr_feed r = Tripupdates \<Longrightarrow> \<not> ok \<Longrightarrow> pz_members (co_presence c') = None"
    and "details = [] \<or> (\<exists>ev. details = presence_details ev)"
    using assms ob gap
    by (cases "fr_feed r = Tripupdates"; cases "pa_ok p"; cases "pa_feed p"; cases res;
        auto simp: record_presence_def invalidate_def)+
qed

lemma select_changed_spec:
  assumes "select_changed pf dp r date p c = (selected, c')"
  shows "co_raw c' = co_raw c \<and> co_spool c' = co_spool c \<and> co_presence c' = co_presence c \<and>
    co_auxiliary_sha256 c' = co_auxiliary_sha256 c \<and> co_needs_repair c' = co_needs_repair c \<and>
    (\<forall>f. f \<noteq> fr_feed r \<longrightarrow> co_trackers c' f = co_trackers c f)"
proof -
  obtain res t where fl: "filter_rows (the (dp_trackers dp (fr_feed r))) (co_trackers c (fr_feed r)) (pa_rows p) date
      (fr_response_received_ts r) False = (res, t)"
    by (metis surj_pair)
  show ?thesis
    using assms fl by (cases "pa_ok p"; cases "dp_trackers dp (fr_feed r)") (auto simp: select_changed_def)
qed

lemma stage_rows_spec:
  assumes "stage_rows pf dp io r date rows c = (staged, c')"
  shows "co_raw c' = co_raw c \<and> co_presence c' = co_presence c \<and>
    co_auxiliary_sha256 c' = co_auxiliary_sha256 c \<and> co_needs_repair c' = co_needs_repair c \<and>
    (\<forall>f. f \<noteq> fr_feed r \<longrightarrow> co_trackers c' f = co_trackers c f)"
proof -
  obtain res sp where st: "stage (io_stage io) (io_stage_uuid io) (feed_name (fr_feed r), date) (fr_poll_id r) rows (co_spool c) = (res, sp)"
    by (metis surj_pair)
  show ?thesis
    using assms st by (cases res; cases "dp_trackers dp (fr_feed r)") (auto simp: stage_rows_def Let_def)
qed

fun rows_selected :: "string \<times> string + row list \<Rightarrow> row list" where
  "rows_selected (Inl _) = []"
| "rows_selected (Inr rows) = rows"

lemma derive_cases:
  assumes "derive pf dp io r date (p, (archived, raw_ok, raw_error), sha, changed, c2) = (oc, c5)"
  obtains presence_ok details presence_error c3 selected c4 staged where
    "record_presence pf dp io r date p c2 = ((presence_ok, details, presence_error), c3)"
    "select_changed pf dp r date p c3 = (selected, c4)"
    "(if pa_ok p \<and> (case selected of Inl _ \<Rightarrow> False | Inr _ \<Rightarrow> True)
      then stage_rows pf dp io r date (rows_selected selected) c4 else (Inr None, c4)) = (staged, c5)"
    "oc_parsed oc = p" "oc_raw_archived oc = archived" "oc_raw_ok oc = raw_ok" "oc_auxiliary oc = sha"
    "oc_presence_ok oc = presence_ok" "oc_presence_details oc = details" "oc_rows oc = rows_selected selected"
    "oc_tracking_ok oc = (case selected of Inl _ \<Rightarrow> False | Inr _ \<Rightarrow> True)"
    "oc_spool_ok oc = (case staged of Inl _ \<Rightarrow> False | Inr _ \<Rightarrow> True)"
proof -
  obtain presence_ok details presence_error c3 where rp: "record_presence pf dp io r date p c2 = ((presence_ok, details, presence_error), c3)"
    by (metis surj_pair)
  obtain selected c4 where sc: "select_changed pf dp r date p c3 = (selected, c4)" by (metis surj_pair)
  obtain staged c5' where st: "(if pa_ok p \<and> (case selected of Inl _ \<Rightarrow> False | Inr _ \<Rightarrow> True)
      then stage_rows pf dp io r date (rows_selected selected) c4 else (Inr None, c4)) = (staged, c5')"
    by (metis surj_pair)
  have rows: "(case selected of Inl _ \<Rightarrow> [] | Inr rows \<Rightarrow> rows) = rows_selected selected" by (cases selected) simp_all
  have "(oc, c5) = (\<lparr>oc_parsed = p, oc_raw_archived = archived, oc_raw_ok = raw_ok, oc_raw_error = raw_error,
      oc_presence_ok = presence_ok, oc_presence_details = details, oc_presence_error = presence_error,
      oc_tracking_ok = (case selected of Inl _ \<Rightarrow> False | Inr _ \<Rightarrow> True),
      oc_tracking_error = (case selected of Inl (e, _) \<Rightarrow> Some e | Inr _ \<Rightarrow> None),
      oc_tracking_flag = (case selected of Inl (_, flag) \<Rightarrow> Some flag | Inr _ \<Rightarrow> None),
      oc_rows = rows_selected selected,
      oc_spool_ok = (case staged of Inl _ \<Rightarrow> False | Inr _ \<Rightarrow> True),
      oc_spool_path = (case staged of Inl _ \<Rightarrow> None | Inr path \<Rightarrow> path),
      oc_spool_error = (case staged of Inl e \<Rightarrow> Some e | Inr _ \<Rightarrow> None),
      oc_auxiliary = sha, oc_auxiliary_changed = changed\<rparr>, c5')"
    using assms unfolding derive_def prod.case rp sc rows Let_def st by (rule sym)
  then show thesis
    by (intro that [OF rp sc]) (use st in simp_all)
qed

lemma derive_keeps:
  assumes "derive pf dp io r date (p, (archived, raw_ok, raw_error), sha, changed, c2) = (oc, c5)"
  shows "co_raw c5 = co_raw c2 \<and> co_auxiliary_sha256 c5 = co_auxiliary_sha256 c2 \<and> co_needs_repair c5 = co_needs_repair c2 \<and> oc_parsed oc = p \<and>
    oc_raw_archived oc = archived \<and> oc_raw_ok oc = raw_ok \<and> oc_auxiliary oc = sha"
  using assms
proof (cases rule: derive_cases)
  case (1 presence_ok details presence_error c3 selected c4 staged)
  from 1(3) have "co_raw c5 = co_raw c4 \<and> co_auxiliary_sha256 c5 = co_auxiliary_sha256 c4 \<and> co_needs_repair c5 = co_needs_repair c4"
    using stage_rows_spec [of pf dp io r date "rows_selected selected" c4 staged c5] by (auto split: if_splits)
  with record_presence_spec(1) [OF 1(1)] select_changed_spec [OF 1(2)] 1 show ?thesis by simp
qed

lemma archive_and_parse_spec:
  assumes "archive_and_parse pf dp io r date payload c = (p, (archived, raw_ok, raw_error), sha, changed, c2)"
  shows "same_but_raw c c2"
    and "archived \<Longrightarrow> raw_ok \<and> archived_in pf (fr_feed r) date (fr_response_received_ts r) payload c2"
    and "p = parse_response pf dp r payload" and "sha = auxiliary_sha256 pf (fr_feed r) p"
    and "sha \<noteq> None \<Longrightarrow> sha = co_auxiliary_sha256 c \<or> archived \<or> \<not> raw_ok \<and> (fr_feed r, date) \<in> set (co_needs_repair c2)"
proof -
  obtain a1 k1 e1 c1 where first: "archive_raw pf dp (io_first io) False (fr_feed r) date (fr_response_received_ts r) payload c =
      ((a1, k1, e1), c1)"
    by (metis surj_pair)
  obtain a2 k2 e2 c3 where second: "archive_raw pf dp (io_auxiliary io) True (fr_feed r) date (fr_response_received_ts r) payload c1 =
      ((a2, k2, e2), c3)"
    by (metis surj_pair)
  note F = archive_raw_spec [OF first] and S = archive_raw_spec [OF second]
  from assms have "p = parse_response pf dp r payload" "sha = auxiliary_sha256 pf (fr_feed r) p"
    and "archived = a1 \<and> raw_ok = k1 \<and> c2 = c1 \<or> archived = a2 \<and> raw_ok = k2 \<and> c2 = c3"
    by (auto simp: archive_and_parse_def first second Let_def split: if_splits)
  moreover have "sha \<noteq> None \<Longrightarrow> sha \<noteq> co_auxiliary_sha256 c \<Longrightarrow> a1 \<or> archived = a2 \<and> raw_ok = k2 \<and> c2 = c3"
    using assms F(1) by (auto simp: archive_and_parse_def first second Let_def same_but_raw_def split: if_splits)
  moreover have "a1 \<Longrightarrow> archived"
    using assms by (auto simp: archive_and_parse_def first Let_def)
  ultimately show "sha \<noteq> None \<Longrightarrow> sha = co_auxiliary_sha256 c \<or> archived \<or> \<not> raw_ok \<and> (fr_feed r, date) \<in> set (co_needs_repair c2)"
    using S(3,4) by blast
  from \<open>p = _\<close> \<open>sha = _\<close> \<open>archived = a1 \<and> _ \<or> _\<close> F(1,2) S(1,2) same_but_raw_trans show "same_but_raw c c2"
    and "archived \<Longrightarrow> raw_ok \<and> archived_in pf (fr_feed r) date (fr_response_received_ts r) payload c2"
    and "p = parse_response pf dp r payload" and "sha = auxiliary_sha256 pf (fr_feed r) p"
    by blast+
qed

text \<open>\<open>ingest\<close> up to its last step: the state after \<open>derive\<close>, and what the fallback adds.\<close>

lemma ingest_cases:
  assumes "ingest pf dp io r date payload c = (oc, c')"
  obtains p archived raw_ok raw_error sha changed c2 oc1 c5 where
    "same_but_raw c c2" "archived \<Longrightarrow> raw_ok \<and> archived_in pf (fr_feed r) date (fr_response_received_ts r) payload c2"
    "p = parse_response pf dp r payload" "sha = auxiliary_sha256 pf (fr_feed r) p"
    "derive pf dp io r date (p, (archived, raw_ok, raw_error), sha, changed, c2) = (oc1, c5)"
    "oc_parsed oc = p" "oc_rows oc = oc_rows oc1" "oc_spool_ok oc = oc_spool_ok oc1" "oc_tracking_ok oc = oc_tracking_ok oc1"
    "oc_presence_ok oc = oc_presence_ok oc1" "oc_presence_details oc = oc_presence_details oc1"
    "co_spool c' = co_spool c5" "co_trackers c' = co_trackers c5" "co_presence c' = co_presence c5"
    "incomplete oc = incomplete oc1"
    "oc_raw_archived oc \<Longrightarrow> oc_raw_ok oc \<and> archived_in pf (fr_feed r) date (fr_response_received_ts r) payload c'"
    "incomplete oc \<Longrightarrow> oc_raw_archived oc = oc_raw_ok oc"
    "incomplete oc \<Longrightarrow> \<not> oc_raw_ok oc \<Longrightarrow> (fr_feed r, date) \<in> set (co_needs_repair c')"
    "co_auxiliary_sha256 c' = co_auxiliary_sha256 c \<or> oc_raw_archived oc \<and> sha \<noteq> None \<and> co_auxiliary_sha256 c' = sha"
    "oc_auxiliary oc = sha"
    "sha \<noteq> None \<Longrightarrow> co_auxiliary_sha256 c' = sha \<and> (co_auxiliary_sha256 c = sha \<or> oc_raw_archived oc) \<or>
       (fr_feed r, date) \<in> set (co_needs_repair c')"
proof -
  obtain p archived raw_ok raw_error sha changed c2 where ap:
      "archive_and_parse pf dp io r date payload c = (p, (archived, raw_ok, raw_error), sha, changed, c2)"
    by (metis surj_pair)
  note A = archive_and_parse_spec [OF ap]
  obtain oc1 c5 where de: "derive pf dp io r date (p, (archived, raw_ok, raw_error), sha, changed, c2) = (oc1, c5)"
    by (metis surj_pair)
  note D = derive_keeps [OF de]
  obtain a2 k2 e2 c6 where fb: "archive_raw pf dp (io_fallback io) True (fr_feed r) date (fr_response_received_ts r) payload c5 =
      ((a2, k2, e2), c6)"
    by (metis surj_pair)
  note F = archive_raw_spec [OF fb]
  let ?again = "incomplete oc1 \<and> \<not> oc_raw_archived oc1"
  let ?oc = "if ?again then oc1\<lparr>oc_raw_archived := a2, oc_raw_ok := k2, oc_raw_error := e2\<rparr> else oc1"
  let ?c6 = "if ?again then c6 else c5"
  have oc: "oc = ?oc" and c': "c' = (if oc_auxiliary ?oc \<noteq> None \<and> oc_raw_archived ?oc \<and> oc_raw_ok ?oc
      then ?c6\<lparr>co_auxiliary_sha256 := oc_auxiliary ?oc\<rparr> else ?c6)"
    using assms unfolding ingest_def ap prod.case de fb by (auto split: if_splits)
  have inc: "incomplete oc = incomplete oc1" by (simp add: oc incomplete_def)
  have arch5: "oc_raw_archived oc1 \<Longrightarrow> oc_raw_ok oc1 \<and> archived_in pf (fr_feed r) date (fr_response_received_ts r) payload c5"
    using A(2) D by (simp add: archived_in_def)
  show thesis
  proof (rule that [OF A(1) _ A(3,4) de])
    show "archived \<Longrightarrow> raw_ok \<and> archived_in pf (fr_feed r) date (fr_response_received_ts r) payload c2" by (rule A(2))
    show "oc_raw_archived oc \<Longrightarrow> oc_raw_ok oc \<and> archived_in pf (fr_feed r) date (fr_response_received_ts r) payload c'"
      using arch5 F(2) by (cases ?again; cases "oc_raw_archived oc1") (auto simp: oc c' archived_in_def)
    show "incomplete oc \<Longrightarrow> oc_raw_archived oc = oc_raw_ok oc"
      using arch5 F(3) inc by (cases ?again; cases "oc_raw_archived oc1") (auto simp: oc)
    show "incomplete oc \<Longrightarrow> \<not> oc_raw_ok oc \<Longrightarrow> (fr_feed r, date) \<in> set (co_needs_repair c')"
      using arch5 F(4) inc by (cases ?again; cases "oc_raw_archived oc1") (auto simp: oc c')
    show "co_auxiliary_sha256 c' = co_auxiliary_sha256 c \<or> oc_raw_archived oc \<and> sha \<noteq> None \<and> co_auxiliary_sha256 c' = sha"
      using A(1,4) D F(1) by (cases ?again) (auto simp: oc c' same_but_raw_def)
    have "sha \<noteq> None \<Longrightarrow> sha = co_auxiliary_sha256 c \<or> oc_raw_archived oc1 \<or>
        \<not> oc_raw_ok oc1 \<and> (fr_feed r, date) \<in> set (co_needs_repair c5)"
      using A(5) D by simp
    moreover have "co_auxiliary_sha256 c5 = co_auxiliary_sha256 c" "co_auxiliary_sha256 c6 = co_auxiliary_sha256 c5"
      using A(1) D F(1) by (simp_all add: same_but_raw_def)
    ultimately show "sha \<noteq> None \<Longrightarrow> co_auxiliary_sha256 c' = sha \<and> (co_auxiliary_sha256 c = sha \<or> oc_raw_archived oc) \<or>
       (fr_feed r, date) \<in> set (co_needs_repair c')"
      using D F(2-4) arch5 by (cases ?again; cases "oc_raw_archived oc1") (auto simp: oc c')
    show "oc_auxiliary oc = sha" using D by (simp add: oc)
  qed (use D F(1) inc in \<open>auto simp: oc c' same_but_raw_def\<close>)
qed

subsection \<open>Rows\<close>

lemma row_plain: "row_kinded f row \<Longrightarrow> list_all (\<lambda>(_, v). plain_value v) row"
  by (fastforce simp: row_kinded_def kinded_def plain_value_def list_all_iff split: pyval.splits)

lemma parsed_plain: "set rows \<subseteq> set (pa_rows (parse_response pf dp r payload)) \<Longrightarrow> plain_rows rows"
proof -
  have "list_all (row_kinded (fr_feed r)) (pa_rows (parse_response pf dp r payload))"
    by (simp add: parse_response_def Let_def parsers_row_kinded split: sum.split)
  moreover assume "set rows \<subseteq> set (pa_rows (parse_response pf dp r payload))"
  ultimately show ?thesis unfolding plain_rows_def list_all_iff [where xs = rows]
    using row_plain by (fastforce simp: list_all_iff [where xs = "pa_rows (parse_response pf dp r payload)"])
qed

lemma filter_rows_subset: "filter_rows cfg t rows date now u = (Inr out, t') \<Longrightarrow> set out \<subseteq> set rows"
  by (auto simp: filter_rows_def Let_def split: if_splits option.splits prod.splits dest: select_rows_subset)

lemma select_changed_subset:
  assumes "select_changed pf dp r date p c = (selected, c')"
  shows "set (rows_selected selected) \<subseteq> set (pa_rows p)"
proof -
  obtain res t where fl: "filter_rows (the (dp_trackers dp (fr_feed r))) (co_trackers c (fr_feed r)) (pa_rows p) date
      (fr_response_received_ts r) False = (res, t)"
    by (metis surj_pair)
  then have "res = Inr out \<Longrightarrow> set out \<subseteq> set (pa_rows p)" for out using filter_rows_subset by blast
  with assms fl show ?thesis
    by (cases "pa_ok p"; cases "dp_trackers dp (fr_feed r)"; cases res) (auto simp: select_changed_def)
qed

text \<open>A segment of the poll that gives its rows back.\<close>

definition stored_in :: "poll_io \<Rightarrow> fetch_result \<Rightarrow> string \<Rightarrow> row list \<Rightarrow> (key \<Rightarrow> spool_dir) \<Rightarrow> bool" where
  "stored_in io r date rows sp \<longleftrightarrow>
     segment_rows (sp (feed_name (fr_feed r), date)) (segment_name (fr_poll_id r) (io_stage_uuid io)) = Some rows"

lemma stage_stored:
  assumes "stage outcome uuid key poll_id rows sp = (Inr x, sp')" and "plain_rows rows" and "rows \<noteq> []"
  shows "segment_rows (sp' key) (segment_name poll_id uuid) = Some rows"
  using assms(1,3) read_staged_segment [OF assms(2), of key poll_id]
  by (auto simp: stage_def Let_def segment_rows_def update_conv' split: if_splits sum.splits write_outcome.splits)

lemma stage_rows_stored:
  assumes "stage_rows pf dp io r date rows c = (Inr path, c')" and "plain_rows rows" and "rows \<noteq> []"
  shows "stored_in io r date rows (co_spool c')"
proof -
  obtain res sp where st: "stage (io_stage io) (io_stage_uuid io) (feed_name (fr_feed r), date) (fr_poll_id r) rows (co_spool c) = (res, sp)"
    by (metis surj_pair)
  then have "res = Inr x \<Longrightarrow> stored_in io r date rows sp" for x
    using stage_stored assms(2,3) unfolding stored_in_def by blast
  with assms(1) st show ?thesis by (cases res) (auto simp: stage_rows_def)
qed

lemma ingest_stored:
  assumes "ingest pf dp io r date payload c = (oc, c')" and "\<not> incomplete oc" and "oc_rows oc \<noteq> []"
  shows "stored_in io r date (oc_rows oc) (co_spool c')"
  using assms(1)
proof (cases rule: ingest_cases)
  case (1 p archived raw_ok raw_error sha changed c2 oc1 c5)
  from 1(5) show ?thesis
  proof (cases rule: derive_cases)
    case d: (1 presence_ok details presence_error c3 selected c4 staged)
    have inc: "\<not> incomplete oc1" using 1(15) assms(2) by simp
    then obtain rows path where rows: "selected = Inr rows" "staged = Inr path" "pa_ok p"
      using d by (auto simp: incomplete_def split: sum.splits)
    have "rows \<noteq> []" using assms(3) 1(7) d(10) rows by simp
    moreover have "plain_rows rows"
      using parsed_plain [OF select_changed_subset [OF d(2), unfolded 1(3)]] rows(1) by simp
    moreover from d(3) rows have "stage_rows pf dp io r date rows c4 = (Inr path, c5)" by simp
    ultimately have "stored_in io r date rows (co_spool c5)" using stage_rows_stored by blast
    with 1(7,12) d(10) rows(1) show ?thesis by simp
  qed
qed

end
