(* ===== verification/Hot_Path.thy ===== *)
theory Hot_Path
  imports Collector_Safety
begin

section \<open>Guarantees for one response\<close>

text \<open>
  Properties of \<^verbatim>\<open>process_result\<close> as a whole: no response is lost, the journal agrees with the health
  evidence, a failed observation forces a new presence baseline, and the state of the auxiliary entities counts
  as archived only when it is.
\<close>

subsection \<open>What happens after a response is ingested\<close>

lemma write_run_metadata_same:
  assumes "write_run_metadata ok errors c = (errors', c')"
  shows "same_but_raw c (c'\<lparr>co_metadata_written := co_metadata_written c\<rparr>) \<and> co_raw c' = co_raw c \<and> co_last_raw c' = co_last_raw c \<and>
    co_needs_repair c' = co_needs_repair c"
  using assms by (auto simp: write_run_metadata_def same_but_raw_def split: if_splits)

lemma journal_event_same:
  assumes "journal_event pf io part event errors c = (ok, errors', c')"
  shows "co_raw c' = co_raw c \<and> co_needs_repair c' = co_needs_repair c \<and> co_spool c' = co_spool c \<and>
    co_trackers c' = co_trackers c \<and> co_presence c' = co_presence c \<and> co_auxiliary_sha256 c' = co_auxiliary_sha256 c"
    and "errors' \<noteq> errors \<longleftrightarrow> \<not> ok"
  using assms by (cases ok; auto simp: journal_event_def split: prod.splits)+

lemma journal_then_archive:
  assumes "journal_event pf io part event errors c = (ok, errors', c1)"
    and "c2 = (if \<not> ok \<and> \<not> archived then snd (archive_raw pf dp aio True f date received payload c1) else c1)"
  shows "co_spool c2 = co_spool c \<and> co_trackers c2 = co_trackers c \<and> co_presence c2 = co_presence c \<and>
      co_auxiliary_sha256 c2 = co_auxiliary_sha256 c"
    and "ok \<or> archived \<Longrightarrow> co_raw c2 = co_raw c \<and> co_needs_repair c2 = co_needs_repair c"
    and "\<not> ok \<Longrightarrow> \<not> archived \<Longrightarrow> archived_in pf f date received payload c2 \<or> (f, date) \<in> set (co_needs_repair c2)"
proof -
  note J = journal_event_same [OF assms(1)]
  obtain a k e c3 where ar: "archive_raw pf dp aio True f date received payload c1 = ((a, k, e), c3)" by (metis surj_pair)
  note A = archive_raw_spec [OF ar]
  show "co_spool c2 = co_spool c \<and> co_trackers c2 = co_trackers c \<and> co_presence c2 = co_presence c \<and>
      co_auxiliary_sha256 c2 = co_auxiliary_sha256 c"
    using J(1) A(1) ar assms(2) by (simp add: same_but_raw_def)
  show "ok \<or> archived \<Longrightarrow> co_raw c2 = co_raw c \<and> co_needs_repair c2 = co_needs_repair c"
    using J(1) assms(2) by auto
  show "\<not> ok \<Longrightarrow> \<not> archived \<Longrightarrow> archived_in pf f date received payload c2 \<or> (f, date) \<in> set (co_needs_repair c2)"
    using A(2,3,4) ar assms(2) by auto
qed

text \<open>A call with a payload either raises, because the health state could not be saved, or journals the response.\<close>

lemma process_payload_cases:
  assumes "process_payload pf dp io r schedule payload errors c = (raised, errors', c')"
    and "date = pf_date pf (fr_response_received_ts r)"
  obtains (raises) oc c1 m where "ingest pf dp io r date payload c = (oc, c1)" "raised" "errors' = errors" "c' = c1\<lparr>co_monitor := m\<rparr>"
  | (journals) oc c1 m ok event c2 where "ingest pf dp io r date payload c = (oc, c1)" "\<not> raised"
      "journal_event pf io (fr_feed r, date) event errors (c1\<lparr>co_monitor := m\<rparr>) = (ok, errors', c2)"
      "c' = (if \<not> ok \<and> \<not> oc_raw_archived oc
        then snd (archive_raw pf dp (io_last io) True (fr_feed r) date (fr_response_received_ts r) payload c2) else c2)"
proof -
  obtain oc c1 where ing: "ingest pf dp io r date payload c = (oc, c1)" by (metis surj_pair)
  obtain res m where rs: "record_success (health_config_of (dp_config dp)) (pf_utc_iso pf) (io_save_ok io) (fr_feed r)
      (report_outcome r payload oc) (co_monitor c1) = (res, m)"
    by (metis surj_pair)
  show thesis
  proof (cases res)
    case None
    with assms ing rs have "raised" "errors' = errors" "c' = c1\<lparr>co_monitor := m\<rparr>"
      by (simp_all add: process_payload_def Let_def)
    with ing show thesis by (rule raises)
  next
    case (Some flags)
    obtain ok errors2 c2 where j: "journal_event pf io (fr_feed r, date) (success_event pf dp io r schedule date payload oc flags) errors
        (c1\<lparr>co_monitor := m\<rparr>) = (ok, errors2, c2)"
      by (metis surj_pair)
    with Some assms ing rs have "\<not> raised" "errors' = errors2" and "c' = (if \<not> ok \<and> \<not> oc_raw_archived oc
        then snd (archive_raw pf dp (io_last io) True (fr_feed r) date (fr_response_received_ts r) payload c2) else c2)"
      by (simp_all add: process_payload_def Let_def del: if_split) (cases "ok \<or> oc_raw_archived oc"; auto)
    with ing j show thesis by (intro journals) simp_all
  qed
qed

lemma archived_in_cong: "co_raw c' = co_raw c \<Longrightarrow> archived_in pf f date received payload c' = archived_in pf f date received payload c"
  by (simp add: archived_in_def)

lemma ingest_archived:
  assumes "ingest pf dp io r date payload c = (oc, c')"
  shows "oc_raw_archived oc \<Longrightarrow> archived_in pf (fr_feed r) date (fr_response_received_ts r) payload c'"
    and "incomplete oc \<Longrightarrow> oc_raw_archived oc = oc_raw_ok oc"
    and "incomplete oc \<Longrightarrow> \<not> oc_raw_ok oc \<Longrightarrow> (fr_feed r, date) \<in> set (co_needs_repair c')"
  using assms by (auto elim!: ingest_cases)

lemma ingest_auxiliary:
  assumes "ingest pf dp io r date payload c = (oc, c')"
  defines "sha \<equiv> auxiliary_sha256 pf (fr_feed r) (parse_response pf dp r payload)"
  shows "(co_auxiliary_sha256 c' = co_auxiliary_sha256 c \<or> sha \<noteq> None \<and> co_auxiliary_sha256 c' = sha \<and>
      archived_in pf (fr_feed r) date (fr_response_received_ts r) payload c') \<and>
    (sha = None \<or> co_auxiliary_sha256 c' = sha \<or> (fr_feed r, date) \<in> set (co_needs_repair c'))"
  using assms(1)
proof (cases rule: ingest_cases)
  case (1 p archived raw_ok raw_error s changed c2 oc1 c5)
  have s: "s = sha" using 1(3,4) by (simp add: sha_def)
  from 1(16,19,21) show ?thesis unfolding s by blast
qed

subsection \<open>Properties\<close>

text \<open>
  Claim C4. No response is lost. If anything after the fetch fails (parsing, presence, change tracking, staging)
  or the poll journal cannot be written, the raw bytes end the raw log of their day, or the log is registered for
  repair because the archive write failed too. If all went well, the selected rows are in a durable segment that
  reads back as exactly them. This holds whichever file operations fail, also when the call raises.
\<close>

theorem response_never_lost:
  assumes "process_result pf dp io r schedule errors c = (raised, errors', c')" and "fr_payload r = Some payload"
  shows "let date = pf_date pf (fr_response_received_ts r);
      start = write_run_metadata (io_metadata_ok io) errors c;
      oc = fst (ingest pf dp io r date payload (snd start));
      archived = archived_in pf (fr_feed r) date (fr_response_received_ts r) payload c';
      flagged = (fr_feed r, date) \<in> set (co_needs_repair c')
    in (incomplete oc \<and> oc_raw_ok oc \<longrightarrow> archived) \<and>
       (incomplete oc \<or> \<not> raised \<and> errors' \<noteq> fst start \<longrightarrow> archived \<or> flagged) \<and>
       (\<not> incomplete oc \<longrightarrow> oc_rows oc = [] \<or> stored_in io r date (oc_rows oc) (co_spool c'))"
proof -
  let ?date = "pf_date pf (fr_response_received_ts r)"
  obtain errors1 c0 where start: "write_run_metadata (io_metadata_ok io) errors c = (errors1, c0)" by (metis surj_pair)
  have pp: "process_payload pf dp io r schedule payload errors1 c0 = (raised, errors', c')"
    using assms by (simp add: process_result_def start)
  show ?thesis
    using pp refl
  proof (cases rule: process_payload_cases)
    case (raises oc c1 m)
    note I = ingest_archived [OF raises(1)] and S = ingest_stored [OF raises(1)]
    from raises I S show ?thesis by (auto simp: start Let_def archived_in_def)
  next
    case (journals oc c1 m ok event c2)
    note I = ingest_archived [OF journals(1)] and S = ingest_stored [OF journals(1)] and J = journal_then_archive [OF journals(3,4)]
    have E: "errors' \<noteq> errors1 \<longleftrightarrow> \<not> ok" by (rule journal_event_same(2) [OF journals(3)])
    have spool: "co_spool c' = co_spool c1" using J(1) by simp
    have kept: "co_raw c' = co_raw c1 \<and> co_needs_repair c' = co_needs_repair c1" if "ok \<or> oc_raw_archived oc"
      using J(2) that by simp
    have "archived_in pf (fr_feed r) ?date (fr_response_received_ts r) payload c'" if "oc_raw_archived oc"
      using I(1) [OF that] kept that by (simp add: archived_in_def)
    moreover have "archived_in pf (fr_feed r) ?date (fr_response_received_ts r) payload c' \<or>
        (fr_feed r, ?date) \<in> set (co_needs_repair c')" if "\<not> oc_raw_archived oc" "incomplete oc \<or> \<not> ok"
      using that I(2,3) kept J(3) by (cases ok) auto
    ultimately show ?thesis
      using journals(1,2) I(2) S E by (simp add: start Let_def spool) blast
  qed
qed

definition demo_renderer :: renderer where
  "demo_renderer = \<lparr>re_json = (\<lambda>_. []), re_enum = (\<lambda>_ _. None)\<rparr>"

definition stored_codec :: codec where
  "stored_codec = \<lparr>c_compress = stored_compress, c_gunzip = stored_gunzip, c_encode = (\<lambda>_. [0]),
     c_decode = (\<lambda>_. None), c_json_key = (\<lambda>_. [])\<rparr>"

definition demo_platform :: platform where
  "demo_platform = \<lparr>pf_utc_iso = (\<lambda>_. []), pf_date = (\<lambda>_. ''2026-01-01''), pf_f64 = (\<lambda>_. 1), pf_sha256 = (\<lambda>_. []),
     pf_decode = (\<lambda>_. Inl \<lparr>ex_class = ''DecodeError'', ex_text = []\<rparr>), pf_render = demo_renderer, pf_codec = stored_codec,
     pf_event_json = (\<lambda>_. []), pf_is_event = (\<lambda>_. True), pf_log_exn = (\<lambda>_. \<lparr>ex_class = [], ex_text = []\<rparr>),
     pf_tracker_exn = (\<lambda>_. \<lparr>ex_class = [], ex_text = []\<rparr>), pf_presence_exn = (\<lambda>_. \<lparr>ex_class = [], ex_text = []\<rparr>),
     pf_spool_exn = (\<lambda>_. \<lparr>ex_class = [], ex_text = []\<rparr>)\<rparr>"

definition demo_archive :: archive_io where
  "demo_archive = \<lparr>ar_now = 0, ar_repairs = (\<lambda>_. 0), ar_append = \<lparr>written = 14, fsync_ok = True, checkpoint_ok = True\<rparr>\<rparr>"

definition demo_io :: poll_io where
  "demo_io = \<lparr>io_metadata_ok = True, io_first = demo_archive, io_auxiliary = demo_archive, io_fallback = demo_archive,
     io_last = demo_archive, io_presence = \<lparr>io_budget = 0, io_append = ar_append demo_archive\<rparr>, io_presence_uuid = [],
     io_stage = Written, io_stage_uuid = [], io_save_ok = True,
     io_journal = \<lparr>a_line = [], a_recovery = [], a_budget = 0, a_written = 9, a_synced = True, a_checkpointed = True\<rparr>,
     io_started = 0, io_finished = 0, io_wall = 0\<rparr>"

definition demo_result :: "feed \<Rightarrow> bytes option \<Rightarrow> fetch_result" where
  "demo_result f payload = \<lparr>fr_feed = f, fr_poll_id = ''p'', fr_request_started_at = [], fr_request_started_ts = 0,
     fr_response_received_at = [], fr_response_received_ts = 0, fr_latency_ms = 0, fr_http_status = Some 200,
     fr_payload = payload, fr_error = None\<rparr>"

lemmas demo_defs = demo_platform_def demo_archive_def demo_io_def demo_result_def stored_codec_def demo_disk_def

text \<open>A response that cannot be decoded is archived at once by a new process.\<close>

lemma response_never_lost_witness:
  "\<exists>cfg dp c. from_env demo_env = Inr cfg \<and> new_collector cfg [] [] demo_disk = Inr (dp, c) \<and>
     archived_in demo_platform Vehiclepositions ''2026-01-01'' 0 [7]
       (snd (snd (process_result demo_platform dp demo_io (demo_result Vehiclepositions (Some [7])) None [] c)))"
proof -
  from demo_env_accepted obtain cfg where cfg: "from_env demo_env = Inr cfg" by blast
  from from_env_valid [OF cfg] make_trackers_ok obtain ts where "make_trackers cfg = Inr ts" by blast
  then obtain dp c where new: "new_collector cfg [] [] demo_disk = Inr (dp, c)" "co_last_raw c = (\<lambda>_. None)" "co_needs_repair c = []"
      "co_raw c = (\<lambda>_. empty_file)" "co_metadata_written c = False"
    by (auto simp: new_collector_def demo_disk_def)
  let ?r = "demo_result Vehiclepositions (Some [7])"
  let ?c = "c\<lparr>co_metadata_written := True\<rparr>"
  have app: "append_record stored_compress \<lparr>written = 14, fsync_ok = True, checkpoint_ok = True\<rparr> 1 [7] fsync empty_file =
      (None, if fsync then \<lparr>content = Some (frame (1, stored_compress [7])), checkpoint = Some 14, sidecars = []\<rparr>
             else \<lparr>content = Some (frame (1, stored_compress [7])), checkpoint = None, sidecars = []\<rparr>)" for fsync
    by (simp add: append_record_small empty_file_def Let_def)
  have ar: "\<exists>c1. archive_raw demo_platform dp demo_archive False Vehiclepositions ''2026-01-01'' 0 [7] ?c =
      ((True, True, Some (raw_path (Vehiclepositions, ''2026-01-01''))), c1)"
    using new by (simp add: archive_raw_def demo_defs app Let_def)
  then obtain c1 where ar: "archive_raw demo_platform dp demo_archive False Vehiclepositions ''2026-01-01'' 0 [7] ?c =
      ((True, True, Some (raw_path (Vehiclepositions, ''2026-01-01''))), c1)" by blast
  have "\<not> pa_ok (parse_response demo_platform dp ?r [7])"
    by (simp add: parse_response_def parse_feed_def demo_platform_def Let_def)
  then have "incomplete (fst (ingest demo_platform dp demo_io ?r ''2026-01-01'' [7] ?c))" and
      "oc_raw_ok (fst (ingest demo_platform dp demo_io ?r ''2026-01-01'' [7] ?c))"
    using ar by (simp_all add: ingest_def archive_and_parse_def derive_def record_presence_def select_changed_def
      auxiliary_sha256_def incomplete_def demo_io_def demo_result_def Let_def split: option.split)
  moreover have "write_run_metadata (io_metadata_ok demo_io) [] c = ([], ?c)"
    using new by (simp add: write_run_metadata_def demo_io_def)
  moreover obtain raised errors' c' where
      p: "process_result demo_platform dp demo_io ?r None [] c = (raised, errors', c')"
    by (metis surj_pair)
  moreover have "pf_date demo_platform t = ''2026-01-01''" "fr_response_received_ts ?r = 0" "fr_feed ?r = Vehiclepositions"
      "fr_payload ?r = Some [7]" for t
    by (simp_all add: demo_platform_def demo_result_def)
  ultimately show ?thesis
    using response_never_lost [OF p, of "[7]"] cfg new(1) by (auto simp: Let_def)
qed

subsection \<open>Reading the journal's events\<close>

lemma get_dict_merge [simp]: "map_of (dict_merge a b) = map_of a ++ map_of (rev b)"
  unfolding dict_merge_def by (induction b arbitrary: a) (auto simp: update_conv fun_eq_iff map_add_def split: option.split)

lemma presence_keys:
  "map_of (rev (presence_details ev)) k = Some v \<Longrightarrow>
     k \<in> set [''presence_path'', ''presence_kind'', ''presence_stream_id'', ''presence_sequence'', ''present_trips'',
              ''present_stop_visits'', ''presence_source_timestamps_version'']"
  by (auto simp: presence_details_def split: if_splits)

text \<open>The entries of a journalled response that decide whether it counts as data.\<close>

lemma success_event_entries:
  assumes "oc_presence_details oc = [] \<or> (\<exists>ev. oc_presence_details oc = presence_details ev)"
  shows "map_of (success_event pf dp io r schedule date payload oc flags) ''success'' = Some (PBool True)"
    and "map_of (success_event pf dp io r schedule date payload oc flags) ''parse_ok'' = Some (PBool (pa_ok (oc_parsed oc)))"
    and "map_of (success_event pf dp io r schedule date payload oc flags) ''raw_ok'' = Some (PBool (oc_raw_ok oc))"
    and "map_of (success_event pf dp io r schedule date payload oc flags) ''spool_ok'' = Some (PBool (oc_spool_ok oc))"
    and "map_of (success_event pf dp io r schedule date payload oc flags) ''change_tracking_ok'' = Some (PBool (oc_tracking_ok oc))"
    and "map_of (success_event pf dp io r schedule date payload oc flags) ''presence_required'' = Some (PBool (fr_feed r = Tripupdates))"
    and "map_of (success_event pf dp io r schedule date payload oc flags) ''presence_ok'' =
      Some (if fr_feed r = Tripupdates then PBool (oc_presence_ok oc) else PNone)"
proof -
  have "map_of (rev (oc_presence_details oc)) k = None" if "k \<in> set [''success'', ''presence_required'', ''presence_ok'']" for k
    using assms that presence_keys [of _ k] by (cases "map_of (rev (oc_presence_details oc)) k") (auto, fastforce+)
  then have "map_of (rev (oc_presence_details oc)) ''success'' = None" "map_of (rev (oc_presence_details oc)) ''presence_required'' = None"
    "map_of (rev (oc_presence_details oc)) ''presence_ok'' = None" by simp_all
  moreover have "map_of (rev (feed_fields (fr_feed r) fm)) k = None"
      if "k \<in> set [''success'', ''presence_required'', ''presence_ok'', ''change_tracking_ok'']" for k fm
    using that by (cases fm) (auto simp: feed_fields_def)
  then have "map_of (rev (feed_fields (fr_feed r) fm)) ''success'' = None" "map_of (rev (feed_fields (fr_feed r) fm)) ''presence_required'' = None"
    "map_of (rev (feed_fields (fr_feed r) fm)) ''presence_ok'' = None"
    "map_of (rev (feed_fields (fr_feed r) fm)) ''change_tracking_ok'' = None" for fm by simp_all
  ultimately show "map_of (success_event pf dp io r schedule date payload oc flags) ''success'' = Some (PBool True)"
    and "map_of (success_event pf dp io r schedule date payload oc flags) ''parse_ok'' = Some (PBool (pa_ok (oc_parsed oc)))"
    and "map_of (success_event pf dp io r schedule date payload oc flags) ''raw_ok'' = Some (PBool (oc_raw_ok oc))"
    and "map_of (success_event pf dp io r schedule date payload oc flags) ''spool_ok'' = Some (PBool (oc_spool_ok oc))"
    and "map_of (success_event pf dp io r schedule date payload oc flags) ''change_tracking_ok'' = Some (PBool (oc_tracking_ok oc))"
    and "map_of (success_event pf dp io r schedule date payload oc flags) ''presence_required'' = Some (PBool (fr_feed r = Tripupdates))"
    and "map_of (success_event pf dp io r schedule date payload oc flags) ''presence_ok'' =
      Some (if fr_feed r = Tripupdates then PBool (oc_presence_ok oc) else PNone)"
    by (simp_all add: success_event_def dict_of_def Let_def map_add_Some_iff map_add_def)
qed

lemma ingest_presence:
  assumes "ingest pf dp io r date payload c = (oc, c')"
  shows "oc_presence_details oc = [] \<or> (\<exists>ev. oc_presence_details oc = presence_details ev)"
    and "fr_feed r \<noteq> Tripupdates \<Longrightarrow> oc_presence_ok oc"
    and "fr_feed r = Tripupdates \<Longrightarrow> \<not> oc_presence_ok oc \<Longrightarrow> pz_members (co_presence c') = None"
proof -
  obtain p archived raw_ok raw_error sha changed c2 oc1 c5 where
    de: "derive pf dp io r date (p, (archived, raw_ok, raw_error), sha, changed, c2) = (oc1, c5)"
    and same: "oc_presence_ok oc = oc_presence_ok oc1" "oc_presence_details oc = oc_presence_details oc1" "co_presence c' = co_presence c5"
    using assms by (rule ingest_cases)
  obtain presence_ok details presence_error c3 selected c4 staged where
    rp: "record_presence pf dp io r date p c2 = ((presence_ok, details, presence_error), c3)"
    and sc: "select_changed pf dp r date p c3 = (selected, c4)"
    and st: "(if pa_ok p \<and> (case selected of Inl _ \<Rightarrow> False | Inr _ \<Rightarrow> True)
      then stage_rows pf dp io r date (rows_selected selected) c4 else (Inr None, c4)) = (staged, c5)"
    and oc: "oc_presence_ok oc1 = presence_ok" "oc_presence_details oc1 = details"
    using de by (rule derive_cases)
  have "co_presence c5 = co_presence c4"
    using st stage_rows_spec [of pf dp io r date "rows_selected selected" c4 staged c5] by (auto split: if_splits)
  with select_changed_spec [OF sc] have "co_presence c' = co_presence c3" using same by simp
  with record_presence_spec(2-4) [OF rp] same oc show
    "oc_presence_details oc = [] \<or> (\<exists>ev. oc_presence_details oc = presence_details ev)"
    "fr_feed r \<noteq> Tripupdates \<Longrightarrow> oc_presence_ok oc"
    "fr_feed r = Tripupdates \<Longrightarrow> \<not> oc_presence_ok oc \<Longrightarrow> pz_members (co_presence c') = None"
    by simp_all
qed

text \<open>
  Claim C15. The poll journal agrees with the health evidence: whatever happened to a response, its journalled event
  counts as a successful data poll exactly when every piece of evidence that the health monitor is given is good,
  and the event of a failed fetch never counts.
\<close>

theorem journal_agrees_with_health:
  "(case ingest pf dp io r date payload c of (oc, c') \<Rightarrow>
     data_poll_success (success_event pf dp io r schedule date payload oc flags) = evidence_ok (report_outcome r payload oc)) \<and>
   \<not> data_poll_success (failure_event pf dp r schedule)"
proof
  obtain oc c' where ing: "ingest pf dp io r date payload c = (oc, c')" by (metis surj_pair)
  note E = success_event_entries [OF ingest_presence(1) [OF ing]]
  have "data_poll_success (success_event pf dp io r schedule date payload oc flags) = evidence_ok (report_outcome r payload oc)"
    using ingest_presence(2) [OF ing]
    by (auto simp: data_poll_success_def not_false_def row_get_def E evidence_ok_def report_outcome_def)
  with ing show "case ingest pf dp io r date payload c of (oc, c') \<Rightarrow>
      data_poll_success (success_event pf dp io r schedule date payload oc flags) = evidence_ok (report_outcome r payload oc)"
    by simp
  have "map_of (failure_event pf dp r schedule) ''success'' = Some (PBool False)"
    by (simp add: failure_event_def dict_of_def map_add_def)
  then show "\<not> data_poll_success (failure_event pf dp r schedule)"
    by (simp add: data_poll_success_def row_get_def)
qed

lemma gap_invalidates:
  assumes "process_result pf dp io r schedule errors c = (raised, errors', c')" and "fr_feed r = Tripupdates"
    and "case fr_payload r of None \<Rightarrow> True
      | Some payload \<Rightarrow> \<not> oc_presence_ok (fst (ingest pf dp io r (pf_date pf (fr_response_received_ts r)) payload
          (snd (write_run_metadata (io_metadata_ok io) errors c))))"
  shows "pz_members (co_presence c') = None"
proof -
  obtain errors1 c0 where start: "write_run_metadata (io_metadata_ok io) errors c = (errors1, c0)" by (metis surj_pair)
  show ?thesis
  proof (cases "fr_payload r")
    case None
    let ?c = "c0\<lparr>co_presence := invalidate (co_presence c0) ''http_observation_gap''\<rparr>"
    obtain saved m where rf: "record_failure (pf_utc_iso pf) (io_save_ok io) (fr_feed r) (fr_response_received_ts r)
        (or_unknown_failure (fr_error r)) (fr_http_status r) (co_monitor ?c) = (saved, m)"
      by (metis surj_pair)
    obtain ok e c2 where j: "journal_event pf io (fr_feed r, pf_date pf (fr_response_received_ts r)) (failure_event pf dp r schedule)
        errors1 (?c\<lparr>co_monitor := m\<rparr>) = (ok, e, c2)"
      by (metis surj_pair)
    from assms(1,2) None start rf j journal_event_same(1) [OF j] show ?thesis
      by (auto simp: process_result_def process_failure_def Let_def invalidate_def split: if_splits)
  next
    case (Some payload)
    with assms(1) start have "process_payload pf dp io r schedule payload errors1 c0 = (raised, errors', c')"
      by (simp add: process_result_def)
    then show ?thesis using refl
    proof (cases rule: process_payload_cases)
      case (raises oc c1 m)
      with ingest_presence(3) [OF raises(1) assms(2)] assms(3) Some start show ?thesis by simp
    next
      case (journals oc c1 m ok event c2)
      with ingest_presence(3) [OF journals(1) assms(2)] assms(3) Some start journal_then_archive(1) [OF journals(3,4)]
      show ?thesis by simp
    qed
  qed
qed

text \<open>
  Claim C24. A gap in the observations forces a baseline. If a TripUpdates fetch failed, or its response could not be
  parsed or recorded, then the next presence record that is written, whatever polls of other feeds came between, is
  a baseline with sequence number 1 of a new stream.
\<close>

theorem gap_forces_baseline:
  assumes "process_result pf dp io r schedule errors c = (raised, errors', c1)" and "fr_feed r = Tripupdates"
    and "case fr_payload r of None \<Rightarrow> True
      | Some payload \<Rightarrow> \<not> oc_presence_ok (fst (ingest pf dp io r (pf_date pf (fr_response_received_ts r)) payload
          (snd (write_run_metadata (io_metadata_ok io) errors c))))"
    and "co_presence c2 = co_presence c1"
    and "record_presence pf dp io' r' date p c2 = ((True, details, err), c3)" and "fr_feed r' = Tripupdates"
  shows "row_get details ''presence_kind'' = PStr ''baseline'' \<and> row_get details ''presence_sequence'' = PInt 1 \<and>
    row_get details ''presence_stream_id'' = PStr (io_presence_uuid io')"
proof -
  have none: "pz_members (co_presence c2) = None" using gap_invalidates [OF assms(1-3)] assms(4) by simp
  obtain fm where fm: "pa_ok p" "pa_feed p = Some fm"
    using assms(5,6) by (cases "pa_ok p"; cases "pa_feed p") (auto simp: record_presence_def)
  obtain res p' log' where ob: "observe (pf_codec pf) (dp_run_id dp) (io_presence_uuid io') (io_presence io') (pa_rows p) date
      (pf_f64 pf (fr_response_received_ts r')) (presence_context r' fm) (co_presence c2) (co_presence_logs c2 date) = (res, p', log')"
    by (metis surj_pair)
  with assms(5,6) fm obtain ev where ev: "res = Inr ev" "details = presence_details ev"
    by (cases res) (auto simp: record_presence_def)
  have "pz_members (enter_date (co_presence c2) date) = None" using none by (simp add: enter_date_def)
  then have "ev_kind ev = ''baseline'' \<and> ev_sequence ev = 1 \<and> ev_stream_id ev = io_presence_uuid io'"
    using ob ev(1) by (auto simp: observe_def build_record_def Let_def split: if_splits option.splits prod.splits)
  then show ?thesis by (simp add: ev(2) presence_details_def row_get_def)
qed

definition demo_message :: feed_message where
  "demo_message = \<lparr>fm_timestamp = None, fm_feed_version = None, fm_gtfs_realtime_version = ''2.0'', fm_incrementality = Some 0,
     fm_entities = []\<rparr>"

definition demo_parsed :: parsed where
  "demo_parsed = \<lparr>pa_feed = Some demo_message, pa_ok = True, pa_content = [], pa_rows = [], pa_error = None\<rparr>"

text \<open>A process that holds a membership loses it with a failed fetch, and its next record is a baseline.\<close>

lemma gap_forces_baseline_witness:
  "\<exists>cfg dp c. from_env demo_env = Inr cfg \<and> new_collector cfg [] [] demo_disk = Inr (dp, c) \<and>
     (let c0 = c\<lparr>co_presence := (co_presence c)\<lparr>pz_members := Some [], pz_date := Some ''2026-01-01'', pz_sequence := 5\<rparr>\<rparr>;
          c1 = snd (snd (process_result demo_platform dp demo_io (demo_result Tripupdates None) None [] c0))
      in row_get (fst (snd (fst (record_presence demo_platform dp demo_io (demo_result Tripupdates None) ''2026-01-01'' demo_parsed c1))))
           ''presence_kind'' = PStr ''baseline'')"
proof -
  from demo_env_accepted obtain cfg where cfg: "from_env demo_env = Inr cfg" by blast
  from from_env_valid [OF cfg] make_trackers_ok obtain ts where "make_trackers cfg = Inr ts" by blast
  then obtain dp c where new: "new_collector cfg [] [] demo_disk = Inr (dp, c)" "co_presence_logs c = (\<lambda>_. empty_file)"
    by (auto simp: new_collector_def demo_disk_def)
  let ?c0 = "c\<lparr>co_presence := (co_presence c)\<lparr>pz_members := Some [], pz_date := Some ''2026-01-01'', pz_sequence := 5\<rparr>\<rparr>"
  let ?r = "demo_result Tripupdates None"
  obtain raised errors' c1 where pr: "process_result demo_platform dp demo_io ?r None [] ?c0 = (raised, errors', c1)"
    by (metis surj_pair)
  have logs: "co_presence_logs c1 = (\<lambda>_. empty_file)"
    using pr new(2) by (auto simp: process_result_def process_failure_def journal_event_def write_run_metadata_def demo_result_def Let_def
        split: prod.splits if_splits)
  obtain ok details err c3 where rp: "record_presence demo_platform dp demo_io ?r ''2026-01-01'' demo_parsed c1 = ((ok, details, err), c3)"
    by (metis surj_pair)
  have app: "append_record stored_compress \<lparr>written = 14, fsync_ok = True, checkpoint_ok = True\<rparr> 1 [0] True empty_file =
      (None, \<lparr>content = Some (frame (1, stored_compress [0])), checkpoint = Some 14, sidecars = []\<rparr>)"
    by (simp add: append_record_small empty_file_def Let_def)
  have "persist stored_compress stored_gunzip (io_presence demo_io) 1 [0] empty_file =
      (None, \<lparr>content = Some (frame (1, stored_compress [0])), checkpoint = Some 14, sidecars = []\<rparr>)"
    using app by (simp add: persist_def repair_truncated_tail_def repair_plan_def demo_io_def demo_archive_def empty_file_def)
  moreover have "full_dataset (presence_context ?r demo_message)"
    by (simp add: full_dataset_def presence_context_def collector_context_def demo_message_def)
  ultimately have "ok"
    using rp logs by (auto simp: record_presence_def demo_parsed_def observe_def demo_platform_def stored_codec_def demo_result_def Let_def)
  with rp have rp': "record_presence demo_platform dp demo_io ?r ''2026-01-01'' demo_parsed c1 = ((True, details, err), c3)" by simp
  show ?thesis
    using gap_forces_baseline [OF pr _ _ refl rp'] cfg new(1) pr rp by (auto simp: demo_result_def Let_def)
qed

text \<open>
  Claim C25. The remembered state of the auxiliary TripUpdates entities, which have no Parquet rows, changes only with a
  response that ends the raw log afterwards, and then to the state in this response, whatever else fails. And no state is
  passed over: when a response gives the entities a state, either it is the remembered one afterwards, or the remembered one
  is unchanged, so that the next response is compared with it again, and the raw log is registered for repair.
\<close>

theorem auxiliary_state_archived:
  "case (auxiliary_sha256 pf (fr_feed r) (parse_response pf dp r payload), ingest pf dp io r date payload c) of (sha, oc, c') \<Rightarrow>
     (co_auxiliary_sha256 c' = co_auxiliary_sha256 c \<or>
        sha \<noteq> None \<and> co_auxiliary_sha256 c' = sha \<and>
        (\<exists>old. content (co_raw c' (fr_feed r, date)) =
           Some (old @ frame (pf_f64 pf (fr_response_received_ts r), c_compress (pf_codec pf) payload)))) \<and>
     (sha = None \<or> co_auxiliary_sha256 c' = sha \<or>
        co_auxiliary_sha256 c' = co_auxiliary_sha256 c \<and> (fr_feed r, date) \<in> set (co_needs_repair c'))"
proof -
  obtain oc c' where ing: "ingest pf dp io r date payload c = (oc, c')" by (metis surj_pair)
  from ingest_auxiliary [OF ing] show ?thesis unfolding ing prod.case archived_in_def by blast
qed

end
