(* ===== verification/Rebuild_Rows.thy ===== *)
theory Rebuild_Rows
  imports Rebuild_Install Hot_Path "HOL-Library.Code_Target_Nat"
begin

section \<open>A rebuilt partition is the replay of its raw log\<close>

text \<open>The reference has no buffer, chunks or files: the rows the records give, one record after the other.\<close>

fun replayed :: "platform \<Rightarrow> rebuild_io \<Rightarrow> feed \<Rightarrow> string \<Rightarrow> nat \<Rightarrow> (f64 \<times> bytes) list \<Rightarrow> feed_tracker \<Rightarrow> row list" where
  "replayed pf io feed date n [] tracker = []"
| "replayed pf io feed date n ((ts, raw) # rs) tracker =
     (case ri_received io ts of
        Inl _ \<Rightarrow> []
      | Inr received \<Rightarrow>
          (case replay_record pf feed date n received raw tracker of
             (Inl _, tracker') \<Rightarrow> replayed pf io feed date (Suc n) rs tracker'
           | (Inr rows, tracker') \<Rightarrow> rows @ replayed pf io feed date (Suc n) rs tracker'))"

subsection \<open>The staged parts\<close>

text \<open>The staging directory of \<open>u\<close> holds exactly the parts, each the written form of its rows.\<close>

definition holds_parts :: "rebuild_io \<Rightarrow> path \<Rightarrow> row list list \<Rightarrow> tree \<Rightarrow> bool" where
  "holds_parts io staging parts u \<longleftrightarrow>
     (\<forall>i < length parts. \<exists>bs. ri_parquet io i (parts ! i) = Inr bs \<and>
        map_of u (staging @ [part_name i]) = Some (file_of (ri_stamp io) bs)) \<and>
     (\<forall>x. map_of u (staging @ x) \<noteq> None \<longrightarrow> x = [] \<or> (\<exists>i < length parts. x = [part_name i]))"

definition staged :: "rebuild_io \<Rightarrow> path \<Rightarrow> row list list \<Rightarrow> replay \<Rightarrow> bool" where
  "staged io staging parts s \<longleftrightarrow>
     rp_part s = length parts \<and> rp_rows s = length (concat parts) \<and> rp_trees s \<noteq> [] \<and> holds_parts io staging parts (current s)"

lemma part_name_inject [simp]: "part_name i = part_name j \<longleftrightarrow> i = j"
  using padded_inject [of 6 i j] by (auto simp: part_name_def)

lemma map_of_write_child: "x \<noteq> [] \<Longrightarrow> x \<noteq> [n] \<Longrightarrow> map_of (write_file st (d @ [n]) bs t) (d @ x) = map_of t (d @ x)"
proof (rule map_of_write_other)
  assume x: "x \<noteq> []" "x \<noteq> [n]"
  then show "d @ x \<noteq> d @ [n]" by simp
  show "d @ x \<notin> set (prefixes_of (butlast (d @ [n])))" using x(1) by (auto simp: in_prefixes)
qed

lemma flush_part_staged:
  assumes "flush_part io rows rest staging s = Inr s'" and "staged io staging parts s"
  shows "staged io staging (parts @ [rows]) s' \<and> rp_buffer s' = rest \<and> rp_records s' = rp_records s \<and> rp_tracker s' = rp_tracker s"
proof -
  from assms(1) obtain bs where bs: "ri_parquet io (rp_part s) rows = Inr bs" and
    s': "s' = s\<lparr>rp_trees := rp_trees s @ [write_file (ri_stamp io) (staging @ [part_name (rp_part s)]) bs (current s)],
            rp_rows := rp_rows s + length rows, rp_buffer := rest, rp_part := Suc (rp_part s)\<rparr>"
    by (auto simp: flush_part_Inr)
  let ?u = "write_file (ri_stamp io) (staging @ [part_name (rp_part s)]) bs (current s)"
  from assms(2) have n: "rp_part s = length parts" and old: "holds_parts io staging parts (current s)" by (simp_all add: staged_def)
  have "holds_parts io staging (parts @ [rows]) ?u"
    unfolding holds_parts_def
  proof (intro conjI allI impI)
    fix i assume i: "i < length (parts @ [rows])"
    show "\<exists>bs. ri_parquet io i ((parts @ [rows]) ! i) = Inr bs \<and> map_of ?u (staging @ [part_name i]) = Some (file_of (ri_stamp io) bs)"
    proof (cases "i = length parts")
      case True
      with bs n show ?thesis by simp
    next
      case False
      with i have "i < length parts" by simp
      with old obtain bs' where "ri_parquet io i (parts ! i) = Inr bs'"
          "map_of (current s) (staging @ [part_name i]) = Some (file_of (ri_stamp io) bs')" unfolding holds_parts_def by blast
      with False \<open>i < length parts\<close> n show ?thesis by (simp add: map_of_write_child nth_append)
    qed
  next
    fix x assume x: "map_of ?u (staging @ x) \<noteq> None"
    show "x = [] \<or> (\<exists>i < length (parts @ [rows]). x = [part_name i])"
    proof (cases "x = [] \<or> x = [part_name (rp_part s)]")
      case True
      with n show ?thesis by auto
    next
      case False
      with x have "map_of (current s) (staging @ x) \<noteq> None" by (simp add: map_of_write_child)
      with old False obtain i where "i < length parts" "x = [part_name i]" unfolding holds_parts_def by blast
      then show ?thesis by auto
    qed
  qed
  with assms(2) show ?thesis by (simp add: s' staged_def current_def)
qed

text \<open>The chunk loop cuts full chunks off the buffer.\<close>

lemma drain_staged:
  assumes "drain io staging k s = Some (None, s')" and "staged io staging parts s" and "0 < k"
  shows "\<exists>chunks. staged io staging (parts @ chunks) s' \<and> concat chunks @ rp_buffer s' = rp_buffer s \<and>
      (\<forall>c \<in> set chunks. int (length c) = k) \<and> int (length (rp_buffer s')) < k \<and> rp_records s' = rp_records s \<and> rp_tracker s' = rp_tracker s"
  using assms(1,2)
proof (induction "length (rp_buffer s)" arbitrary: s parts rule: less_induct)
  case less
  show ?case
  proof (cases "int (length (rp_buffer s)) < k")
    case True
    with less.prems(1) have "s' = s" by (subst (asm) drain.simps) simp
    with True less.prems(2) show ?thesis by (intro exI [of _ "[]"]) simp
  next
    case False
    have index: "py_index k xs = nat k" for xs :: "row list" using assms(3) by (simp add: py_index_def)
    from False less.prems(1) obtain s1 where s1: "flush_part io (take (nat k) (rp_buffer s)) (drop (nat k) (rp_buffer s)) staging s = Inr s1"
        "drain io staging k s1 = Some (None, s')"
      by (subst (asm) drain.simps) (auto simp: index split: sum.splits)
    note st = flush_part_staged [OF s1(1) less.prems(2)]
    have "length (rp_buffer s1) < length (rp_buffer s)" using st False assms(3) by auto
    from less.hyps [OF this s1(2)] st obtain chunks where c:
      "staged io staging ((parts @ [take (nat k) (rp_buffer s)]) @ chunks) s'" "concat chunks @ rp_buffer s' = rp_buffer s1"
      "\<forall>c \<in> set chunks. int (length c) = k" "int (length (rp_buffer s')) < k" "rp_records s' = rp_records s1" "rp_tracker s' = rp_tracker s1"
      by blast
    have "int (length (take (nat k) (rp_buffer s))) = k" using False assms(3) by simp
    with c st show ?thesis by (intro exI [of _ "take (nat k) (rp_buffer s) # chunks"]) auto
  qed
qed

lemma replay_records_staged:
  assumes "replay_records pf io feed date staging k rs s = Some (None, s')" and "staged io staging parts s" and "0 < k"
    and "int (length (rp_buffer s)) < k"
  shows "\<exists>chunks. staged io staging (parts @ chunks) s' \<and>
      concat chunks @ rp_buffer s' = rp_buffer s @ replayed pf io feed date (rp_records s) rs (rp_tracker s) \<and>
      (\<forall>c \<in> set chunks. int (length c) = k) \<and> int (length (rp_buffer s')) < k"
  using assms(1,2,4)
proof (induction rs arbitrary: s parts)
  case Nil
  then show ?case by (intro exI [of _ "[]"]) simp
next
  case (Cons x rs)
  obtain ts raw where x: "x = (ts, raw)" by (cases x)
  let ?s = "s\<lparr>rp_records := Suc (rp_records s)\<rparr>"
  from Cons.prems(1) obtain received where rc: "ri_received io ts = Inr received" by (cases "ri_received io ts") (auto simp: x)
  obtain res tracker where res: "replay_record pf feed date (rp_records s) received raw (rp_tracker s) = (res, tracker)" by (metis surj_pair)
  show ?case
  proof (cases res)
    case (Inl e)
    let ?s1 = "?s\<lparr>rp_tracker := tracker, rp_failures := Suc (rp_failures s)\<rparr>"
    from Cons.prems(1) rc res Inl have "replay_records pf io feed date staging k rs ?s1 = Some (None, s')" by (simp add: x)
    moreover have "staged io staging parts ?s1" using Cons.prems(2) by (simp add: staged_def current_def)
    ultimately show ?thesis using Cons.IH [of ?s1 parts] Cons.prems(3) by (simp add: x rc res Inl)
  next
    case (Inr rows)
    let ?s1 = "?s\<lparr>rp_tracker := tracker, rp_buffer := rp_buffer s @ rows\<rparr>"
    from Cons.prems(1) rc res Inr obtain e2 s2 where d: "drain io staging k ?s1 = Some (e2, s2)"
        "(case e2 of Some e \<Rightarrow> Some (Some e, s2) | None \<Rightarrow> replay_records pf io feed date staging k rs s2) = Some (None, s')"
      by (auto simp: x Option.bind_eq_Some_conv)
    from d(2) have "e2 = None" by (cases e2) simp_all
    moreover have "staged io staging parts ?s1" using Cons.prems(2) by (simp add: staged_def current_def)
    ultimately obtain chunks where c: "staged io staging (parts @ chunks) s2" "concat chunks @ rp_buffer s2 = rp_buffer s @ rows"
        "\<forall>c \<in> set chunks. int (length c) = k" "int (length (rp_buffer s2)) < k" "rp_records s2 = Suc (rp_records s)" "rp_tracker s2 = tracker"
      using drain_staged [of io staging k ?s1 s2 parts] d(1) assms(3) by auto
    from d(2) \<open>e2 = None\<close> have "replay_records pf io feed date staging k rs s2 = Some (None, s')" by simp
    from Cons.IH [OF this c(1,4)] obtain more where m: "staged io staging ((parts @ chunks) @ more) s'"
        "concat more @ rp_buffer s' = rp_buffer s2 @ replayed pf io feed date (rp_records s2) rs (rp_tracker s2)"
        "\<forall>c \<in> set more. int (length c) = k" "int (length (rp_buffer s')) < k" by blast
    have "concat (chunks @ more) @ rp_buffer s' = rp_buffer s @ replayed pf io feed date (rp_records s) (x # rs) (rp_tracker s)"
      using m(2) c(2,5,6) by (simp add: x rc res Inr)
    with m c(3) show ?thesis by (intro exI [of _ "chunks @ more"]) auto
  qed
qed


subsection \<open>The installed partition\<close>

lemma install_moves_staging:
  assumes run: "install_rebuild io feed date staging t1 = (Inr p, ts)" and staging: "staging = staging_path io feed date"
    and dest: "dest = partition_dir ''parquet'' feed date" and prev: "prev = previous_path io feed date"
    and free: "fresh prev t1" "exists_at t1 dest \<or> fresh dest t1"
  shows "same_dir staging t1 dest (last ts)"
proof -
  have ap: "apart staging dest" "apart staging prev" "apart dest prev" unfolding dest prev staging by (rule apart_paths)+
  note ap = ap ap [THEN apart_sym]
  define u0 where "u0 = make_parents dest t1"
  have staging0: "same_dir staging t1 staging u0"
    unfolding u0_def using make_parents_apart [OF ap(4), of t1 "[]"] by simp
  show ?thesis
  proof (cases "exists_at u0 dest")
    case True
    define u1 where "u1 = make_parents prev u0"
    define u2 where "u2 = rename_dir dest prev u1"
    have "same_dir staging u0 staging u1" unfolding u1_def using make_parents_apart [OF ap(5), of u0 "[]"] by simp
    moreover have "same_dir staging u1 staging u2" unfolding u2_def by (rule rename_apart [OF ap(4,5)])
    moreover have "same_dir staging u2 dest (rename_dir staging dest u2)"
      using rename_clears [OF ap(3), of _ u1] unfolding u2_def by (intro rename_same_dir) blast
    ultimately have "same_dir staging t1 dest (rename_dir staging dest u2)" using staging0 same_dir_trans by blast
    moreover have "last ts = rename_dir staging dest u2"
      using run True unfolding install_rebuild_def Let_def dest [symmetric] prev [symmetric] u0_def [symmetric] u1_def [symmetric] u2_def [symmetric]
      by (cases "ri_install io") (auto simp: move_in_def)
    ultimately show ?thesis by simp
  next
    case False
    with free(2) make_parents_append [of t1 dest dest] have "fresh dest t1" by (auto simp: u0_def)
    with make_parents_self [of dest t1] have "fresh dest u0" unfolding u0_def using fresh_same_dir by blast
    then have "same_dir staging u0 dest (rename_dir staging dest u0)" unfolding fresh_def by (intro rename_same_dir) blast
    with staging0 have "same_dir staging t1 dest (rename_dir staging dest u0)" using same_dir_trans by blast
    moreover have "last ts = rename_dir staging dest u0"
      using run False unfolding install_rebuild_def Let_def dest [symmetric] u0_def [symmetric]
      by (cases "ri_install io") (auto simp: move_in_def)
    ultimately show ?thesis by simp
  qed
qed

text \<open>The directory \<open>d\<close> holds the parts and the manifest of the rebuild, nothing else.\<close>

definition holds_rebuild :: "rebuild_io \<Rightarrow> path \<Rightarrow> row list list \<Rightarrow> tree \<Rightarrow> bool" where
  "holds_rebuild io d parts u \<longleftrightarrow>
     regular_at u (d @ [''rebuild_manifest.json'']) \<noteq> None \<and>
     (\<forall>i < length parts. \<exists>bs. ri_parquet io i (parts ! i) = Inr bs \<and> map_of u (d @ [part_name i]) = Some (file_of (ri_stamp io) bs)) \<and>
     (\<forall>x. map_of u (d @ x) \<noteq> None \<longrightarrow> x = [] \<or> x = [''rebuild_manifest.json''] \<or> (\<exists>i < length parts. x = [part_name i]))"

lemma part_name_not_manifest: "part_name i \<noteq> ''rebuild_manifest.json''"
  by (simp add: part_name_def)

lemma holds_rebuild_write:
  assumes "holds_parts io d parts u"
  shows "holds_rebuild io d parts (write_file st (d @ [''rebuild_manifest.json'']) bs u)"
  unfolding holds_rebuild_def
proof (intro conjI allI impI)
  show "regular_at (write_file st (d @ [''rebuild_manifest.json'']) bs u) (d @ [''rebuild_manifest.json'']) \<noteq> None" by simp
next
  fix i assume "i < length parts"
  with assms show "\<exists>bs'. ri_parquet io i (parts ! i) = Inr bs' \<and>
      map_of (write_file st (d @ [''rebuild_manifest.json'']) bs u) (d @ [part_name i]) = Some (file_of (ri_stamp io) bs')"
    unfolding holds_parts_def by (simp add: map_of_write_child part_name_not_manifest)
next
  fix x assume x: "map_of (write_file st (d @ [''rebuild_manifest.json'']) bs u) (d @ x) \<noteq> None"
  show "x = [] \<or> x = [''rebuild_manifest.json''] \<or> (\<exists>i < length parts. x = [part_name i])"
  proof (cases "x = [] \<or> x = [''rebuild_manifest.json'']")
    case False
    with x have "map_of u (d @ x) \<noteq> None" by (simp add: map_of_write_child)
    with assms False show ?thesis unfolding holds_parts_def by blast
  qed auto
qed

lemma holds_rebuild_moved: "holds_rebuild io d parts u \<Longrightarrow> same_dir d u e v \<Longrightarrow> holds_rebuild io e parts v"
  unfolding holds_rebuild_def same_dir_def regular_at_def by simp

lemma finish_staged:
  assumes run: "finish_rebuild tk io feed date k allow_errors staging raw intact s = (Inr m, ts)" and s: "staged io staging parts s"
    and kept: "replay_kept dest prev t s" and free: "fresh prev t" "exists_at t dest \<or> fresh dest t"
    and dest: "dest = partition_dir ''parquet'' feed date" and prev: "prev = previous_path io feed date" and staging: "staging = staging_path io feed date"
  shows "\<exists>tail. (tail = [] \<and> rp_buffer s = [] \<and> parts \<noteq> [] \<or> tail = [rp_buffer s]) \<and> holds_rebuild io dest (parts @ tail) (last ts) \<and>
      row_get m ''rows'' = PInt (int (length (concat (parts @ tail))))"
proof -
  have ap: "apart staging dest" "apart staging prev" unfolding dest prev staging by (rule apart_paths)+
  have ok: "\<not> (rp_failures s \<noteq> 0 \<and> \<not> allow_errors)"
  proof
    assume failed: "rp_failures s \<noteq> 0 \<and> \<not> allow_errors"
    from run show False unfolding finish_rebuild_def if_P [OF failed] by simp
  qed
  let ?w = "if rp_buffer s \<noteq> [] \<or> rp_part s = 0 then flush_part io (rp_buffer s) [] staging s else Inr s"
  from run obtain s1 where s1: "?w = Inr s1"
    unfolding finish_rebuild_def if_not_P [OF ok] by (cases ?w) auto
  define m1 where "m1 = rebuild_manifest_row tk io feed date k raw intact s1"
  define t1 where "t1 = write_json tk (ri_stamp io) (staging @ [''rebuild_manifest.json'']) m1 (current s1)"
  obtain r us where ins: "install_rebuild io feed date staging t1 = (r, us)" by (metis surj_pair)
  from run have "map_sum id (\<lambda>p. m1 @ [(''previous_partition'', case p of None \<Rightarrow> PNone | Some p \<Rightarrow> PStr (join_path p))]) r = Inr m"
      "ts = rp_trees s1 @ t1 # us"
    unfolding finish_rebuild_def if_not_P [OF ok] s1 by (simp_all add: Let_def ins m1_def [symmetric] t1_def [symmetric])
  then obtain p where p: "r = Inr p" "m = m1 @ [(''previous_partition'', case p of None \<Rightarrow> PNone | Some p \<Rightarrow> PStr (join_path p))]"
    by (cases r) auto
  have "\<exists>tail. (tail = [] \<and> rp_buffer s = [] \<and> parts \<noteq> [] \<or> tail = [rp_buffer s]) \<and> staged io staging (parts @ tail) s1"
  proof (cases "rp_buffer s \<noteq> [] \<or> rp_part s = 0")
    case True
    with s1 flush_part_staged [OF _ s, of "rp_buffer s" "[]" s1] show ?thesis by (intro exI [of _ "[rp_buffer s]"]) simp
  next
    case False
    with s1 s show ?thesis by (intro exI [of _ "[]"]) (auto simp: staged_def)
  qed
  then obtain tail where tail: "tail = [] \<and> rp_buffer s = [] \<and> parts \<noteq> [] \<or> tail = [rp_buffer s]" "staged io staging (parts @ tail) s1" by blast
  have "replay_kept dest prev t s1" using s1 kept flush_part_kept [OF _ kept ap, of io "rp_buffer s" "[]" s1] by (auto split: if_splits)
  then have "untouched_by dest prev t (current s1)" by (simp add: replay_kept_def current_def)
  then have "untouched_by dest prev t t1" unfolding t1_def write_json_def using ap by (rule untouched_write)
  then have "fresh prev t1" "exists_at t1 dest \<or> fresh dest t1"
    using free fresh_same_dir same_dir_exists unfolding untouched_by_def by blast+
  note moved = install_moves_staging [OF ins [unfolded p(1)] staging dest prev this]
  from tail(2) have "holds_rebuild io staging (parts @ tail) t1"
    unfolding t1_def write_json_def by (intro holds_rebuild_write) (simp add: staged_def)
  from holds_rebuild_moved [OF this moved] have "holds_rebuild io dest (parts @ tail) (last us)" .
  moreover have "last ts = last us"
  proof -
    have "us \<noteq> []" using ins unfolding install_rebuild_def Let_def by (auto simp: move_in_def split: if_splits install_outcome.splits)
    then show ?thesis using \<open>ts = rp_trees s1 @ t1 # us\<close> by simp
  qed
  moreover have "row_get m ''rows'' = PInt (int (length (concat (parts @ tail))))"
    using tail(2) by (simp add: p(2) m1_def rebuild_manifest_row_def row_get_def staged_def)
  ultimately show ?thesis using tail(1) by metis
qed

lemma rebuild_one_Inr:
  assumes "rebuild_one pf tk settings io feed date k allow_errors allow_current t = Some (Inr m, ts)"
    and "regular_at t (raw_log_path feed date) = Some f" and "make_tracker settings feed = Inr tracker"
  obtains intact s1 where "replay_records pf io feed date (staging_path io feed date) k (fst (iter_records (c_gunzip (pf_codec pf)) (fo_bytes f)))
      (begin_replay tracker (staging_path io feed date) t) = Some (None, s1)"
    and "finish_rebuild tk io feed date k allow_errors (staging_path io feed date) (fo_bytes f) intact s1 = (Inr m, ts)"
proof -
  have clean: "run = (Inr m, ts)" if "clean_up staging run = (Inr m, ts)" for staging run
    using that by (cases run; cases "fst run") (auto simp: clean_up_def)
  from assms obtain intact where "replay_and_install pf tk io feed date k allow_errors (staging_path io feed date) (fo_bytes f) intact
      (begin_replay tracker (staging_path io feed date) t) = Some (Inr m, ts)"
    unfolding rebuild_one_def Let_def by (auto split: if_splits sum.splits dest!: clean)
  then obtain e s1 where s1: "replay_records pf io feed date (staging_path io feed date) k (fst (iter_records (c_gunzip (pf_codec pf)) (fo_bytes f)))
      (begin_replay tracker (staging_path io feed date) t) = Some (e, s1)"
    "e = None" "finish_rebuild tk io feed date k allow_errors (staging_path io feed date) (fo_bytes f) intact s1 = (Inr m, ts)"
    unfolding replay_and_install_def by (auto simp: Option.bind_eq_Some_conv split: prod.splits option.splits)
  with that show thesis by blast
qed

lemma begin_replay_staged: "fresh staging t \<Longrightarrow> staged io staging [] (begin_replay tracker staging t)"
proof -
  assume "fresh staging t"
  with make_parents_self [of staging t] have "fresh staging (make_parents staging t)" by (rule fresh_same_dir)
  then have "map_of (AList.update staging Directory (make_parents staging t)) (staging @ x) = (if x = [] then Some Directory else None)" for x
    by (simp add: fresh_iff update_conv')
  then show ?thesis by (auto simp: staged_def begin_replay_def current_def holds_parts_def)
qed

lemma rebuilt_holds:
  assumes "rebuild_one pf tk settings io feed date k allow_errors allow_current t = Some (Inr m, ts)" and "0 < k"
    and "regular_at t (raw_log_path feed date) = Some f" and "make_tracker settings feed = Inr tracker"
    and "fresh (staging_path io feed date) t" and "fresh (previous_path io feed date) t"
    and "exists_at t (partition_dir ''parquet'' feed date) \<or> fresh (partition_dir ''parquet'' feed date) t"
  shows "\<exists>parts. concat parts = replayed pf io feed date 0 (fst (iter_records (c_gunzip (pf_codec pf)) (fo_bytes f))) tracker \<and>
      parts \<noteq> [] \<and> (\<forall>c \<in> set (butlast parts). int (length c) = k) \<and> int (length (last parts)) \<le> k \<and>
      row_get m ''rows'' = PInt (int (length (concat parts))) \<and>
      holds_rebuild io (partition_dir ''parquet'' feed date) parts (last ts)"
proof -
  define staging where "staging = staging_path io feed date"
  from rebuild_one_Inr [OF assms(1,3,4)] obtain intact s1 where
    r: "replay_records pf io feed date staging k (fst (iter_records (c_gunzip (pf_codec pf)) (fo_bytes f))) (begin_replay tracker staging t) = Some (None, s1)"
    and fin: "finish_rebuild tk io feed date k allow_errors staging (fo_bytes f) intact s1 = (Inr m, ts)"
    unfolding staging_def by blast
  have "int (length (rp_buffer (begin_replay tracker staging t))) < k" using assms(2) by (simp add: begin_replay_def)
  from replay_records_staged [OF r begin_replay_staged [OF assms(5) [folded staging_def]] assms(2) this] obtain chunks where
    c: "staged io staging chunks s1" "\<forall>c \<in> set chunks. int (length c) = k" "int (length (rp_buffer s1)) < k"
      "concat chunks @ rp_buffer s1 = replayed pf io feed date 0 (fst (iter_records (c_gunzip (pf_codec pf)) (fo_bytes f))) tracker"
    by (auto simp: begin_replay_def)
  have ap: "apart staging (partition_dir ''parquet'' feed date)" "apart staging (previous_path io feed date)"
    unfolding staging_def by (rule apart_paths)+
  note kept = replay_records_kept [OF r begin_replay_kept [OF ap] ap]
  from finish_staged [OF fin c(1) kept assms(6,7) refl refl staging_def] obtain tail where
    tail: "tail = [] \<and> rp_buffer s1 = [] \<and> chunks \<noteq> [] \<or> tail = [rp_buffer s1]"
      "holds_rebuild io (partition_dir ''parquet'' feed date) (chunks @ tail) (last ts)"
      "row_get m ''rows'' = PInt (int (length (concat (chunks @ tail))))" by blast
  have "concat (chunks @ tail) = concat chunks @ rp_buffer s1" "chunks @ tail \<noteq> []" using tail(1) by auto
  moreover have "(\<forall>c \<in> set (butlast (chunks @ tail)). int (length c) = k) \<and> int (length (last (chunks @ tail))) \<le> k"
    using tail(1) c(2,3) by (auto dest: in_set_butlastD)
  ultimately show ?thesis using tail(2,3) c(4) by metis
qed

text \<open>
  Claim C6. A successful rebuild is the replay of the raw log. The rows that the reference gives for its records, in their order,
  are cut into parts of the chunk length (the last may be shorter); the new partition holds those parts and the manifest, which
  counts the rows, and no other file.
\<close>

theorem rebuilt_partition_is_replay:
  assumes "rebuild_one pf tk settings io feed date k allow_errors allow_current t = Some (Inr m, ts)" and "0 < k"
    and "regular_at t (raw_log_path feed date) = Some f" and "make_tracker settings feed = Inr tracker"
    and "fresh (staging_path io feed date) t" and "fresh (previous_path io feed date) t"
    and "exists_at t (partition_dir ''parquet'' feed date) \<or> fresh (partition_dir ''parquet'' feed date) t"
  shows "\<exists>parts. concat parts = replayed pf io feed date 0 (fst (iter_records (c_gunzip (pf_codec pf)) (fo_bytes f))) tracker \<and>
      parts \<noteq> [] \<and> (\<forall>c \<in> set (butlast parts). int (length c) = k) \<and> int (length (last parts)) \<le> k \<and>
      row_get m ''rows'' = PInt (int (length (concat parts))) \<and>
      holds_rebuild io (partition_dir ''parquet'' feed date) parts (last ts)"
  by (rule rebuilt_holds [OF assms])

subsection \<open>A run on three records\<close>

text \<open>Every payload decodes to a message that deletes one vehicle; two rows make a part.\<close>

definition rebuild_platform :: platform where
  "rebuild_platform = demo_platform \<lparr>pf_decode := \<lambda>_. Inr
     (\<lparr>fm_timestamp = None, fm_feed_version = None, fm_gtfs_realtime_version = ''2.0'', fm_incrementality = Some 0,
       fm_entities = [\<lparr>en_id = ''e'', en_is_deleted = Some True, en_vehicle = None, en_trip_update = None, en_alert = None, en_other = [],
                      en_bytes = [], en_deterministic = []\<rparr>]\<rparr>, True)\<rparr>"

definition rebuild_log :: bytes where
  "rebuild_log = concat (map (\<lambda>b. frame (1, stored_compress [b])) [7, 8, 9])"

definition rebuild_day :: string where
  "rebuild_day = ''2026-01-01''"

definition rebuild_tree :: tree where
  "rebuild_tree =
     [(raw_log_path Vehiclepositions rebuild_day, file_of (0, 0, 0) rebuild_log),
      (partition_dir ''parquet'' Vehiclepositions rebuild_day, Directory),
      (partition_dir ''parquet'' Vehiclepositions rebuild_day @ [''old.parquet''], file_of (0, 0, 0) [1])]"

definition demo_settings :: rebuild_settings where
  "demo_settings = \<lparr>rb_heartbeat = 60, rb_delay = 15, rb_prediction = 2, rb_distance = 15, rb_null_guard = 1000\<rparr>"

definition demo_rebuild :: "((exn + row) \<times> tree list) option" where
  "demo_rebuild = rebuild_one rebuild_platform plain_tools demo_settings demo_rebuild_io Vehiclepositions rebuild_day 2 False False rebuild_tree"

lemma demo_rebuild_succeeds:
  "case demo_rebuild of Some (Inr m, ts) \<Rightarrow> row_get m ''rows'' = PInt 3 | _ \<Rightarrow> False"
  by code_simp

lemma demo_rebuild_free:
  "fresh (staging_path demo_rebuild_io Vehiclepositions rebuild_day) rebuild_tree \<and>
   fresh (previous_path demo_rebuild_io Vehiclepositions rebuild_day) rebuild_tree \<and>
   exists_at rebuild_tree (partition_dir ''parquet'' Vehiclepositions rebuild_day)"
  by code_simp

lemma previous_partition_kept_witness:
  "case demo_rebuild of Some (Inr _, ts) \<Rightarrow>
      map_of (last ts) (previous_path demo_rebuild_io Vehiclepositions rebuild_day @ [''old.parquet'']) = Some (file_of (0, 0, 0) [1])
    | _ \<Rightarrow> False"
proof -
  obtain m ts where run: "demo_rebuild = Some (Inr m, ts)"
    using demo_rebuild_succeeds by (auto split: option.splits prod.splits sum.splits)
  have "map_of rebuild_tree (partition_dir ''parquet'' Vehiclepositions rebuild_day @ [''old.parquet'']) = Some (file_of (0, 0, 0) [1])"
    by code_simp
  with previous_partition_kept [OF run [unfolded demo_rebuild_def]] demo_rebuild_free show ?thesis by (simp add: run)
qed

lemma rebuilt_partition_is_replay_witness:
  "\<exists>parts ts. map_option snd demo_rebuild = Some ts \<and> length (concat parts) = 3 \<and> length (hd parts) = 2 \<and>
     holds_rebuild demo_rebuild_io (partition_dir ''parquet'' Vehiclepositions rebuild_day) parts (last ts)"
proof -
  obtain m ts where run: "demo_rebuild = Some (Inr m, ts)" "row_get m ''rows'' = PInt 3"
    using demo_rebuild_succeeds by (auto split: option.splits prod.splits sum.splits)
  have raw: "regular_at rebuild_tree (raw_log_path Vehiclepositions rebuild_day) = Some \<lparr>fo_bytes = rebuild_log, fo_mtime = 0, fo_id = (0, 0)\<rparr>"
    by (simp add: rebuild_tree_def regular_at_def file_of_def)
  obtain parts where parts: "parts \<noteq> []" "\<forall>c \<in> set (butlast parts). int (length c) = 2" "int (length (last parts)) \<le> 2"
      "row_get m ''rows'' = PInt (int (length (concat parts)))"
      "holds_rebuild demo_rebuild_io (partition_dir ''parquet'' Vehiclepositions rebuild_day) parts (last ts)"
    using rebuilt_partition_is_replay [OF run(1) [unfolded demo_rebuild_def] _ raw, of None] demo_rebuild_free by (auto simp: make_tracker_def)
  have "length (hd parts) = 2"
  proof (cases parts)
    case (Cons c cs)
    show ?thesis
    proof (cases cs)
      case Nil
      with parts(3,4) run(2) Cons show ?thesis by simp
    next
      case (Cons d ds)
      with parts(2) \<open>parts = c # cs\<close> show ?thesis by simp
    qed
  qed (simp add: parts(1))
  moreover have "map_option snd demo_rebuild = Some ts" by (simp only: run(1) option.map snd_conv)
  moreover have "length (concat parts) = 3" using parts(4) run(2) by simp
  ultimately show ?thesis using parts(5) by blast
qed

end
