(* ===== verification/Rebuild_Pruning.thy ===== *)
theory Rebuild_Pruning
  imports Rebuild_Rows Retention
begin

section \<open>Pruning refuses a rebuilt partition\<close>

text \<open>
  The rebuild leaves its manifest in the Parquet partition; the inventory of the pruning admits nothing but Parquet files
  there. The refusal deletes nothing, but the partition stays for good.
\<close>

lemma map_result_Inl: "x \<in> set xs \<Longrightarrow> f x = Inl e \<Longrightarrow> \<exists>e. map_result f xs = Inl e"
proof (induction xs)
  case (Cons y ys)
  show ?case
  proof (cases "f y")
    case (Inr z)
    with Cons obtain e' where "map_result f ys = Inl e'" by (cases "x = y") auto
    with Inr show ?thesis by simp
  qed simp
qed simp

lemma partition_path_text:
  "CHR ''/'' \<notin> set date \<Longrightarrow> split_path (join_path (partition_dir ''parquet'' feed date)) = partition_dir ''parquet'' feed date"
  by (rule split_join) (cases feed; simp add: partition_dir_def)+

lemma manifest_refused:
  assumes "regular_at t (partition_dir ''parquet'' feed date @ [''rebuild_manifest.json'']) = Some f" and "CHR ''/'' \<notin> set date"
  shows "\<exists>e. inventory t ''parquet'' date = Inl e"
proof -
  let ?d = "partition_dir ''parquet'' feed date" and ?f = "inventory_entry t ''parquet''"
  define p where "p = ?d @ [''rebuild_manifest.json'']"
  have p: "p \<in> set (children t ?d)" using assms(1) by (simp add: set_children regular_at_Some p_def)
  have "?f p = Inl (value_error (''unexpected Parquet partition entry: '' @ ''rebuild_manifest.json''))"
    using assms(1) by (simp add: inventory_entry_def parquet_name_def ends_with_def p_def)
  from map_result_Inl [where f = ?f, OF p this] obtain e where e: "map_result ?f (children t ?d) = Inl e" by blast
  have "feed_inventory t ''parquet'' date feed \<noteq> Inr xs" for xs
  proof
    assume "feed_inventory t ''parquet'' date feed = Inr xs"
    then obtain dir es where dir: "safe_path t (join_path ?d) = Inr dir" "entries t dir = Inr es" "map_result ?f es = Inr xs"
      unfolding feed_inventory_def by (auto simp: bind_result_iff split: if_splits)
    from safe_path_Inr [OF dir(1)] have "dir = ?d" unfolding partition_path_text [OF assms(2)] by blast
    with dir(2) have "es = children t ?d" by (auto simp: entries_def split: option.splits node.splits)
    with dir(3) e show False by simp
  qed
  then obtain e where "feed_inventory t ''parquet'' date feed = Inl e" by (cases "feed_inventory t ''parquet'' date feed") auto
  from map_result_Inl [where f = "feed_inventory t ''parquet'' date", OF set_FEED_NAMES this] show ?thesis
    unfolding inventory_def by auto
qed

text \<open>
  Claim C33. A rebuilt Parquet partition is never pruned: on the tree a successful rebuild leaves, a pruning run for the
  date's Parquet files ends in an error, whatever receipt there is and whatever the remote repository answers, and deletes nothing.
\<close>

theorem rebuilt_partition_not_pruned:
  assumes "rebuild_one pf tk settings io feed date k allow_errors allow_current t = Some (Inr m, ts)" and "0 < k"
    and "regular_at t (raw_log_path feed date) = Some f" and "make_tracker settings feed = Inr tracker"
    and "fresh (staging_path io feed date) t" and "fresh (previous_path io feed date) t"
    and "exists_at t (partition_dir ''parquet'' feed date) \<or> fresh (partition_dir ''parquet'' feed date) t"
    and "CHR ''/'' \<notin> set date"
  shows "\<exists>e. prune_date tk' cfg hub bio ''parquet'' fails date (last ts) h = (Inl e, [last ts, bo_later bio (last ts)], h)"
proof -
  from rebuilt_holds [OF assms(1-7)] obtain parts where "holds_rebuild io (partition_dir ''parquet'' feed date) parts (last ts)" by blast
  then obtain g where "regular_at (last ts) (partition_dir ''parquet'' feed date @ [''rebuild_manifest.json'']) = Some g"
    by (auto simp: holds_rebuild_def)
  from manifest_refused [OF this assms(8)] obtain e where "inventory (last ts) ''parquet'' date = Inl e" by blast
  then show ?thesis by (simp add: prune_date_def authorise_def and_then_def lift_def)
qed

lemma rebuilt_partition_not_pruned_witness:
  "\<exists>m ts e. demo_rebuild = Some (Inr m, ts) \<and>
     fst (prune_date plain_tools \<lparr>bk_repo_id = [], bk_token = []\<rparr> demo_hub demo_backup_io ''parquet'' None rebuild_day (last ts) ()) = Inl e"
proof -
  obtain m ts where run: "demo_rebuild = Some (Inr m, ts)"
    using demo_rebuild_succeeds by (auto split: option.splits prod.splits sum.splits)
  have raw: "regular_at rebuild_tree (raw_log_path Vehiclepositions rebuild_day) = Some \<lparr>fo_bytes = rebuild_log, fo_mtime = 0, fo_id = (0, 0)\<rparr>"
    by (simp add: rebuild_tree_def regular_at_def file_of_def)
  have "CHR ''/'' \<notin> set rebuild_day" by (simp add: rebuild_day_def)
  note refused = rebuilt_partition_not_pruned [OF run [unfolded demo_rebuild_def] _ raw _ _ _ _ this, of None plain_tools
      "\<lparr>bk_repo_id = [], bk_token = []\<rparr>" demo_hub demo_backup_io None "()"]
  obtain e where "fst (prune_date plain_tools \<lparr>bk_repo_id = [], bk_token = []\<rparr> demo_hub demo_backup_io ''parquet'' None rebuild_day (last ts) ()) =
      Inl e"
    using refused demo_rebuild_free by (auto simp: make_tracker_def)
  with run show ?thesis by blast
qed

end
