(* ===== verification/Compaction.thy ===== *)
theory Compaction
  imports Manifest
begin

section \<open>Compaction of Parquet partitions (bkk_collector/storage/parquet_compact.py)\<close>

text \<open>
  The Parquet files of a completed partition are merged into one. A marker with the sources, the output and the row count is
  written first, the output replaces its name atomically, then the sources and the marker are deleted: a crash anywhere is
  resumed from the marker.

  Parquet itself is a record of functions: the rows of a file, its column names, the unification of schemas and the writer. A
  dictionary-encoded column is its values, casts are between equal types. The temporary file has a name no reader matches and is
  left out: an exception while it is written leaves the tree as it was.
\<close>

subsection \<open>Parquet files\<close>

record parquet =
  pq_read :: "bytes \<Rightarrow> row list option"
  pq_columns :: "bytes \<Rightarrow> string list option"
  pq_unify :: "string list list \<Rightarrow> string list option"
  pq_write :: "string list \<Rightarrow> row list \<Rightarrow> bytes"

text \<open>\<^verbatim>\<open>_align_table\<close>: the columns of the schema, nulls where the file has none\<close>

definition align_row :: "string list \<Rightarrow> row \<Rightarrow> row" where
  "align_row schema r = map (\<lambda>c. (c, row_get r c)) schema"

definition to_result :: "'a option \<Rightarrow> exn + 'a" where
  "to_result x = (case x of None \<Rightarrow> Inl (other_error ''ArrowInvalid'') | Some y \<Rightarrow> Inr y)"

definition file_bytes_at :: "tree \<Rightarrow> path \<Rightarrow> exn + bytes" where
  "file_bytes_at t p = (case regular_at t p of None \<Rightarrow> Inl (other_error ''FileNotFoundError'') | Some f \<Rightarrow> Inr (fo_bytes f))"

definition parquet_row_count :: "tools \<Rightarrow> tree \<Rightarrow> path \<Rightarrow> exn + int" where
  "parquet_row_count tk t p = bind_result (file_bytes_at t p) (\<lambda>bs. to_result (tl_rows tk bs))"

subsection \<open>The transaction\<close>

record transaction =
  ct_sources :: "path list"
  ct_output :: path
  ct_rows :: int

definition compaction_marker :: "path \<Rightarrow> path" where
  "compaction_marker dir = dir @ [''.compaction-transaction.json'']"

definition transaction_row :: "transaction \<Rightarrow> row" where
  "transaction_row ct =
     [(''version'', PInt 1), (''sources'', PList (map (\<lambda>p. PStr (last p)) (ct_sources ct))), (''output'', PStr (last (ct_output ct))),
      (''expected_rows'', PInt (ct_rows ct))]"

text \<open>\<^verbatim>\<open>transaction["sources"]\<close>, \<^verbatim>\<open>transaction["output"]\<close>, \<^verbatim>\<open>int(transaction["expected_rows"])\<close> of a marker that is not empty\<close>

definition key_of :: "row \<Rightarrow> string \<Rightarrow> exn + pyval" where
  "key_of r k = (case map_of r k of None \<Rightarrow> Inl (other_error ''KeyError'') | Some v \<Rightarrow> Inr v)"

definition name_of :: "pyval \<Rightarrow> exn + string" where
  "name_of v = (case v of PStr s \<Rightarrow> Inr s | _ \<Rightarrow> Inl (other_error ''TypeError''))"

definition read_transaction :: "path \<Rightarrow> pyval \<Rightarrow> exn + transaction" where
  "read_transaction dir v =
     (case v of
        PDict r \<Rightarrow>
          bind_result (key_of r ''sources'') (\<lambda>vs.
          bind_result (case vs of PList xs \<Rightarrow> map_result name_of xs | PStr s \<Rightarrow> Inr (map (\<lambda>c. [c]) s) | PDict d \<Rightarrow> Inr (map fst d)
                       | _ \<Rightarrow> Inl (other_error ''TypeError'')) (\<lambda>names.
          bind_result (key_of r ''output'') (\<lambda>out.
          bind_result (name_of out) (\<lambda>name.
          bind_result (key_of r ''expected_rows'') (\<lambda>n.
          map_sum id (\<lambda>rows. \<lparr>ct_sources = map (\<lambda>s. dir @ [s]) names, ct_output = dir @ [name], ct_rows = rows\<rparr>) (int_of n))))))
      | _ \<Rightarrow> Inl (other_error ''TypeError''))"

definition text_bytes :: "string \<Rightarrow> bytes" where
  "text_bytes s = map (\<lambda>c. word_of_nat (of_char c)) s"

definition source_identity :: "tree \<Rightarrow> path \<Rightarrow> string" where
  "source_identity t p = last p @ '':'' @ nat_text (case regular_at t p of None \<Rightarrow> 0 | Some f \<Rightarrow> length (fo_bytes f))"

definition new_transaction :: "tools \<Rightarrow> path \<Rightarrow> path list \<Rightarrow> tree \<Rightarrow> exn + transaction" where
  "new_transaction tk dir sources t =
     map_sum id (\<lambda>counts. \<lparr>ct_sources = sources,
         ct_output = dir @ [''part-compacted-'' @ take 20 (tl_sha tk (text_bytes (join_lines (map (source_identity t) sources)))) @ ''.parquet''],
         ct_rows = sum_list counts\<rparr>)
       (map_result (parquet_row_count tk t) sources)"

subsection \<open>Merging\<close>

definition merged_bytes :: "parquet \<Rightarrow> tree \<Rightarrow> path list \<Rightarrow> exn + bytes" where
  "merged_bytes pq t sources =
     bind_result (map_result (file_bytes_at t) sources) (\<lambda>files.
     bind_result (map_result (\<lambda>bs. to_result (pq_columns pq bs)) files) (\<lambda>columns.
     bind_result (to_result (pq_unify pq columns)) (\<lambda>schema.
     bind_result (map_result (\<lambda>bs. to_result (pq_read pq bs)) files) (\<lambda>tables.
     Inr (pq_write pq schema (map (align_row schema) (concat tables)))))))"

fun delete_steps :: "path list \<Rightarrow> tree \<Rightarrow> tree list" where
  "delete_steps [] t = []"
| "delete_steps (p # ps) t = AList.delete p t # delete_steps ps (AList.delete p t)"

text \<open>The sources that are not the output, then the marker; a source that is gone is passed over.\<close>

definition finish_transaction :: "path \<Rightarrow> transaction \<Rightarrow> tree \<Rightarrow> tree list" where
  "finish_transaction dir ct t = delete_steps ([p \<leftarrow> ct_sources ct. p \<noteq> ct_output ct] @ [compaction_marker dir]) t"

definition write_output :: "tools \<Rightarrow> parquet \<Rightarrow> stamp \<Rightarrow> path \<Rightarrow> transaction \<Rightarrow> tree \<Rightarrow> (exn + path option) \<times> tree list" where
  "write_output tk pq st dir ct t =
     (case merged_bytes pq t (ct_sources ct) of
        Inl e \<Rightarrow> (Inl e, [t])
      | Inr bs \<Rightarrow>
          (case to_result (tl_rows tk bs) of
             Inl e \<Rightarrow> (Inl e, [t])
           | Inr n \<Rightarrow>
               if n \<noteq> ct_rows ct then (Inl (other_error ''OSError''), [t])
               else let t1 = write_file st (ct_output ct) bs t in (Inr (Some (ct_output ct)), [t, t1] @ finish_transaction dir ct t1)))"

definition output_ready :: "tools \<Rightarrow> tree \<Rightarrow> transaction \<Rightarrow> exn + bool" where
  "output_ready tk t ct =
     (if exists_at t (ct_output ct) then map_sum id (\<lambda>n. n = ct_rows ct) (parquet_row_count tk t (ct_output ct)) else Inr False)"

definition resume_transaction :: "tools \<Rightarrow> parquet \<Rightarrow> stamp \<Rightarrow> path \<Rightarrow> transaction \<Rightarrow> tree \<Rightarrow> (exn + path option) \<times> tree list" where
  "resume_transaction tk pq st dir ct t =
     (case output_ready tk t ct of
        Inl e \<Rightarrow> (Inl e, [t])
      | Inr True \<Rightarrow> (Inr (Some (ct_output ct)), t # finish_transaction dir ct t)
      | Inr False \<Rightarrow>
          if list_ex (\<lambda>p. \<not> exists_at t p) (ct_sources ct)
          then (Inl \<lparr>ex_class = ''RuntimeError'', ex_text = ''incomplete compaction transaction has missing sources and no valid output''\<rparr>, [t])
          else write_output tk pq st dir ct t)"

definition partition_parquet :: "tree \<Rightarrow> path \<Rightarrow> path list" where
  "partition_parquet t dir = glob t dir (\<lambda>n. ends_with n ''.parquet'')"

definition compact_partition ::
  "tools \<Rightarrow> parquet \<Rightarrow> stamp \<Rightarrow> feed \<Rightarrow> string \<Rightarrow> nat \<Rightarrow> tree \<Rightarrow> (exn + path option) \<times> tree list" where
  "compact_partition tk pq st feed date min_files t =
     (let dir = partition_dir ''parquet'' feed date; marker = read_json tk t (compaction_marker dir) (PDict []) in
      if \<not> exists_at t dir \<or> children t (partition_dir ''spool'' feed date) \<noteq> [] then (Inr None, [t])
      else if truthy marker
      then (case read_transaction dir marker of Inl e \<Rightarrow> (Inl e, [t]) | Inr ct \<Rightarrow> resume_transaction tk pq st dir ct t)
      else let sources = partition_parquet t dir in
        if length sources < min_files then (Inr None, [t])
        else (case new_transaction tk dir sources t of
            Inl e \<Rightarrow> (Inl e, [t])
          | Inr ct \<Rightarrow>
              (case write_output tk pq st dir ct (write_json tk st (compaction_marker dir) (transaction_row ct) t) of
                 (r, ts) \<Rightarrow> (r, t # ts))))"

end
