(* ===== verification/Maintenance.thy ===== *)
theory Maintenance
  imports Compaction Retention
begin

section \<open>The maintenance process (bkk_collector/maintenance.py)\<close>

text \<open>
  One process runs the static-GTFS check, the compaction, the local manifests, the backups with the pruning, the status file
  and the ping of an external monitor, one after the other in a loop. Each part keeps the monotonic time of its last run. An
  exception that a part does not catch ends the process.

  \<open>clock\<close> is what a part reads of the time; \<open>cycle_io\<close> is what one pass of the loop takes from outside. The configuration has
  passed its validation, so that its numbers are finite.
\<close>

record clock =
  ck_hour :: int
  ck_minute :: int
  ck_mono :: rat
  ck_now :: seconds
  ck_day :: seconds
  ck_today :: string

record 'h maintenance =
  mw_tree :: tree
  mw_hub :: 'h
  mw_last_backup :: rat
  mw_last_ping :: rat
  mw_last_manifest :: rat
  mw_last_compaction :: rat
  mw_results :: "backup_result list"
  mw_errors :: "string list"

text \<open>\<^verbatim>\<open>MaintenanceWorker.__init__\<close>\<close>

definition new_maintenance :: "tree \<Rightarrow> 'h \<Rightarrow> 'h maintenance" where
  "new_maintenance t h =
     \<lparr>mw_tree = t, mw_hub = h, mw_last_backup = 0, mw_last_ping = 0, mw_last_manifest = 0, mw_last_compaction = 0,
      mw_results = [], mw_errors = []\<rparr>"

definition backup_config_of :: "maintenance_config \<Rightarrow> backup_config" where
  "backup_config_of cfg = \<lparr>bk_repo_id = hf_repo_id cfg, bk_token = hf_token cfg\<rparr>"

definition offsite :: "maintenance_config \<Rightarrow> bool" where
  "offsite cfg \<longleftrightarrow> backup_enabled (backup_config_of cfg)"

text \<open>\<^verbatim>\<open>f"{type(error).__name__}: {error}"\<close>\<close>

definition error_text :: "exn \<Rightarrow> string" where
  "error_text e = ex_class e @ '': '' @ ex_text e"

subsection \<open>Static GTFS\<close>

definition maintain_static_gtfs ::
  "tools \<Rightarrow> maintenance_config \<Rightarrow> stamp \<Rightarrow> clock \<Rightarrow> exn + bytes \<Rightarrow> 'h maintenance \<Rightarrow> exn option \<times> 'h maintenance" where
  "maintain_static_gtfs tk cfg st ck download s =
     (let t = snd (migrate_legacy_archives tk st (mw_tree s)) in
      case check_due (num_val (static_check_interval_seconds cfg)) (num_val (static_retry_seconds cfg)) (gtfs_state tk t) (ck_now ck) of
        Inl e \<Rightarrow> (Some e, s\<lparr>mw_tree := t\<rparr>)
      | Inr due \<Rightarrow>
          (None, s\<lparr>mw_tree :=
             (if \<not> due then t
              else case check_static tk st (ck_now ck) download t of
                  Inr (_, t') \<Rightarrow> t'
                | Inl e \<Rightarrow> record_check_failure tk st (error_text e) (ck_now ck) t)\<rparr>))"

subsection \<open>When a part runs\<close>

definition past_backup_hour :: "maintenance_config \<Rightarrow> clock \<Rightarrow> bool" where
  "past_backup_hour cfg ck \<longleftrightarrow>
     ck_hour ck \<ge> backup_hour_utc cfg \<and> ck_hour ck * 60 + ck_minute ck \<ge> backup_date_grace_minutes cfg"

definition retry_due :: "maintenance_config \<Rightarrow> clock \<Rightarrow> rat \<Rightarrow> bool" where
  "retry_due cfg ck latest \<longleftrightarrow> ck_mono ck - latest \<ge> num_val (backup_retry_seconds cfg)"

subsection \<open>Compaction\<close>

definition v2_date :: "tree \<Rightarrow> string \<Rightarrow> bool" where
  "v2_date t date \<longleftrightarrow> list_all (\<lambda>feed. exists_at t (poll_journal_path feed date)) FEED_NAMES"

definition v2_pending_dates :: "tools \<Rightarrow> maintenance_config \<Rightarrow> clock \<Rightarrow> tree \<Rightarrow> exn + string list" where
  "v2_pending_dates tk cfg ck t =
     map_sum id (\<lambda>ds. [d \<leftarrow> ds. v2_date t d]) (pending_dates tk (backup_config_of cfg) (ck_today ck) t)"

text \<open>The partitions in turn: a failure is noted and the next one follows.\<close>

fun compact_all ::
  "tools \<Rightarrow> parquet \<Rightarrow> stamp \<Rightarrow> nat \<Rightarrow> (string \<times> feed) list \<Rightarrow> string list \<Rightarrow> tree \<Rightarrow> string list \<times> tree" where
  "compact_all tk pq st n [] errors t = (errors, t)"
| "compact_all tk pq st n ((date, feed) # rest) errors t =
     (case compact_partition tk pq st feed date n t of
        (r, ts) \<Rightarrow>
          compact_all tk pq st n rest
            (case r of Inr _ \<Rightarrow> errors | Inl e \<Rightarrow> errors @ [feed_name feed @ ''/'' @ date @ '': '' @ error_text e]) (last ts))"

definition compact_pending_dates ::
  "tools \<Rightarrow> parquet \<Rightarrow> maintenance_config \<Rightarrow> stamp \<Rightarrow> clock \<Rightarrow> 'h maintenance \<Rightarrow> exn option \<times> 'h maintenance" where
  "compact_pending_dates tk pq cfg st ck s =
     (if \<not> compact_parquet cfg then (None, s)
      else case v2_pending_dates tk cfg ck (mw_tree s) of
        Inl e \<Rightarrow> (Some e, s\<lparr>mw_errors := []\<rparr>)
      | Inr ds \<Rightarrow>
          (case compact_all tk pq st (nat (compaction_min_files cfg))
              [(d, f). d \<leftarrow> take (nat (backup_max_dates_per_run cfg)) ds, f \<leftarrow> FEED_NAMES] [] (mw_tree s) of
             (errors, t) \<Rightarrow> (None, s\<lparr>mw_errors := errors, mw_tree := t\<rparr>)))"

definition maintain_compaction ::
  "tools \<Rightarrow> parquet \<Rightarrow> maintenance_config \<Rightarrow> stamp \<Rightarrow> clock \<Rightarrow> 'h maintenance \<Rightarrow> exn option \<times> 'h maintenance" where
  "maintain_compaction tk pq cfg st ck s =
     (if \<not> past_backup_hour cfg ck \<or> \<not> retry_due cfg ck (mw_last_compaction s) then (None, s)
      else compact_pending_dates tk pq cfg st ck (s\<lparr>mw_last_compaction := ck_mono ck\<rparr>))"

subsection \<open>Manifests without a backup\<close>

fun build_manifests :: "manifest_env \<Rightarrow> tools \<Rightarrow> string list \<Rightarrow> tree \<Rightarrow> exn option \<times> tree" where
  "build_manifests env tk [] t = (None, t)"
| "build_manifests env tk (d # ds) t =
     (case read_json tk t (manifest_path d) (PDict []) of
        PDict existing \<Rightarrow>
          if truthy (row_get existing ''complete'') then build_manifests env tk ds t
          else build_manifests env tk ds (snd (build_daily_manifest env tk d True t))
      | _ \<Rightarrow> (Some (other_error ''AttributeError''), t))"

definition maintain_local_manifests ::
  "tools \<Rightarrow> maintenance_config \<Rightarrow> manifest_env \<Rightarrow> clock \<Rightarrow> 'h maintenance \<Rightarrow> exn option \<times> 'h maintenance" where
  "maintain_local_manifests tk cfg env ck s =
     (if offsite cfg \<or> \<not> past_backup_hour cfg ck \<or> \<not> retry_due cfg ck (mw_last_manifest s) then (None, s)
      else let s1 = s\<lparr>mw_last_manifest := ck_mono ck\<rparr> in
        case pending_dates tk (backup_config_of cfg) (ck_today ck) (mw_tree s) of
          Inl e \<Rightarrow> (Some e, s1)
        | Inr ds \<Rightarrow>
            (case build_manifests env tk (drop (length ds - nat (backup_max_dates_per_run cfg)) ds) (mw_tree s) of
               (e, t) \<Rightarrow> (e, s1\<lparr>mw_tree := t\<rparr>)))"

subsection \<open>Backups and pruning\<close>

record prune_io =
  pr_io :: "string \<Rightarrow> backup_io"
  pr_fails :: "string \<Rightarrow> nat option"
  pr_locked :: bool

definition maintain_backups ::
  "tools \<Rightarrow> 'h hub \<Rightarrow> maintenance_config \<Rightarrow> manifest_env \<Rightarrow> backup_io \<Rightarrow> (string \<Rightarrow> prune_io) \<Rightarrow> clock \<Rightarrow> 'h maintenance \<Rightarrow>
   exn option \<times> 'h maintenance" where
  "maintain_backups tk hub cfg env bio pio ck s =
     (if \<not> offsite cfg \<or> \<not> past_backup_hour cfg ck \<or> \<not> retry_due cfg ck (mw_last_backup s) then (None, s)
      else let bc = backup_config_of cfg; s1 = s\<lparr>mw_last_backup := ck_mono ck\<rparr>;
               prune = (\<lambda>kind days t h. prune_confirmed tk bc hub (pr_io (pio kind)) kind (pr_fails (pio kind)) (ck_day ck)
                          (pr_locked (pio kind)) days t h) in
        case run_backlog env tk bc hub bio (ck_today ck) (backup_max_dates_per_run cfg) (mw_tree s) (mw_hub s) of
          (Inl e, t, h) \<Rightarrow> (Some e, s1\<lparr>mw_tree := t, mw_hub := h\<rparr>)
        | (Inr outcomes, t, h) \<Rightarrow>
            let s2 = s1\<lparr>mw_tree := t, mw_hub := h, mw_results := outcomes\<rparr> in
            (case prune ''raw'' (prune_local_raw_after_days cfg) t h of
               Inl e \<Rightarrow> (Some e, s2)
             | Inr (_, t1, h1) \<Rightarrow>
                 (case prune ''parquet'' (prune_local_parquet_after_days cfg) t1 h1 of
                    Inl e \<Rightarrow> (Some e, s2\<lparr>mw_tree := t1, mw_hub := h1\<rparr>)
                  | Inr (_, t2, h2) \<Rightarrow> (None, s2\<lparr>mw_tree := t2, mw_hub := h2\<rparr>))))"

subsection \<open>The status file\<close>

definition number_or :: "row \<Rightarrow> string \<Rightarrow> exn + rat" where
  "number_or r key =
     (case state_time r key of None \<Rightarrow> Inl (other_error ''TypeError'') | Some q \<Rightarrow> Inr q)"

definition static_stale :: "maintenance_config \<Rightarrow> rat \<Rightarrow> seconds \<Rightarrow> bool" where
  "static_stale cfg success now \<longleftrightarrow>
     success = 0 \<or> now - success > max (2 * num_val (static_check_interval_seconds cfg)) 172800"

definition backlog_stale :: "tools \<Rightarrow> maintenance_config \<Rightarrow> string list \<Rightarrow> seconds \<Rightarrow> exn + bool" where
  "backlog_stale tk cfg pending now =
     (case pending of
        [] \<Rightarrow> Inr False
      | d # _ \<Rightarrow>
          (case tl_day tk d of
             None \<Rightarrow> Inl (value_error ''time data does not match format'')
           | Some oldest \<Rightarrow> Inr (now - oldest > num_val (backup_stale_hours cfg) * 3600)))"

text \<open>\<^verbatim>\<open>legacy_inventory.get("dates", [])\<close> and its items; an item that is no dict is passed over.\<close>

definition legacy_items :: "row \<Rightarrow> exn + pyval list" where
  "legacy_items doc =
     (case map_of doc ''dates'' of
        None \<Rightarrow> Inr []
      | Some (PList vs) \<Rightarrow> Inr vs
      | Some (PStr s) \<Rightarrow> Inr (map (\<lambda>c. PStr [c]) s)
      | Some (PDict d) \<Rightarrow> Inr (map (\<lambda>(k, _). PStr k) d)
      | _ \<Rightarrow> Inl (other_error ''TypeError''))"

definition dates_where :: "(row \<Rightarrow> bool) \<Rightarrow> pyval list \<Rightarrow> pyval list" where
  "dates_where P vs = concat (map (\<lambda>v. case v of PDict r \<Rightarrow> if P r then [row_get r ''date''] else [] | _ \<Rightarrow> []) vs)"

definition unconfirmed_legacy :: "pyval list \<Rightarrow> pyval list" where
  "unconfirmed_legacy = dates_where (\<lambda>r. row_get r ''legacy_handled'' = PBool True \<and> row_get r ''remote_copy_confirmed'' \<noteq> PBool True)"

definition incomplete_inventory :: "pyval list \<Rightarrow> pyval list" where
  "incomplete_inventory = dates_where (\<lambda>r. row_get r ''inventory_complete'' \<noteq> PBool True)"

definition legacy_static_unconfirmed :: "row \<Rightarrow> exn + bool" where
  "legacy_static_unconfirmed doc =
     (case map_of doc ''static_gtfs'' of
        None \<Rightarrow> Inr False
      | Some (PDict r) \<Rightarrow> Inr (truthy (row_get r ''files'') \<and> row_get r ''remote_copy_confirmed'' \<noteq> PBool True)
      | Some _ \<Rightarrow> Inl (other_error ''AttributeError''))"

definition result_row :: "backup_result \<Rightarrow> pyval" where
  "result_row r = PDict [(''date'', PStr (br_date r)), (''success'', PBool (br_success r)), (''reason'', PStr (br_reason r))]"

definition maintenance_status_path :: path where
  "maintenance_status_path = [''maintenance'', ''status.json'']"

definition status_reasons :: "bool \<Rightarrow> bool \<Rightarrow> string list \<Rightarrow> string list" where
  "status_reasons static backlog errors =
     (if static then [''static_gtfs_stale''] else []) @ (if backlog then [''backup_backlog_stale''] else []) @
     map (\<lambda>e. ''compaction:'' @ e) errors"

definition status_warnings :: "maintenance_config \<Rightarrow> pyval list \<Rightarrow> pyval list \<Rightarrow> bool \<Rightarrow> string list" where
  "status_warnings cfg unconfirmed incomplete static =
     (if offsite cfg then [] else [''offsite_backup_disabled'']) @
     (if unconfirmed \<noteq> [] then [''legacy_remote_copy_unconfirmed''] else []) @
     (if incomplete \<noteq> [] then [''legacy_inventory_incomplete''] else []) @
     (if static then [''legacy_static_gtfs_remote_copy_unconfirmed''] else [])"

definition inventory_row :: "tools \<Rightarrow> tree \<Rightarrow> row" where
  "inventory_row tk t = (case read_json tk t [''metadata'', ''legacy_inventory.json''] (PDict []) of PDict r \<Rightarrow> r | _ \<Rightarrow> [])"

definition maintenance_status :: "tools \<Rightarrow> maintenance_config \<Rightarrow> clock \<Rightarrow> 'h maintenance \<Rightarrow> exn + row" where
  "maintenance_status tk cfg ck s =
     (let t = mw_tree s; now = ck_now ck; doc = inventory_row tk t in
      bind_result (case read_json tk t gtfs_state_path (PDict []) of PDict r \<Rightarrow> Inr r | _ \<Rightarrow> Inl (other_error ''AttributeError'')) (\<lambda>state.
      bind_result (number_or state ''last_success_timestamp'') (\<lambda>success.
      bind_result (if offsite cfg then v2_pending_dates tk cfg ck t else Inr []) (\<lambda>pending.
      bind_result (backlog_stale tk cfg pending now) (\<lambda>stale.
      bind_result (legacy_items doc) (\<lambda>items.
      bind_result (legacy_static_unconfirmed doc) (\<lambda>static.
        let reasons = status_reasons (static_stale cfg success now) stale (mw_errors s);
            unconfirmed = unconfirmed_legacy items; incomplete = incomplete_inventory items
        in Inr
          [(''version'', PInt 1), (''updated_at'', PStr (tl_utc_iso tk now)), (''updated_timestamp'', PFloat now),
           (''healthy'', PBool (reasons = [])), (''reasons'', PList (map PStr reasons)),
           (''warnings'', PList (map PStr (status_warnings cfg unconfirmed incomplete static))),
           (''backup_enabled'', PBool (offsite cfg)), (''pending_backup_dates'', PList (map PStr pending)),
           (''confirmed_backup_dates'', PInt (int (length (remdups (confirmed_dates tk (backup_config_of cfg) t))))),
           (''last_backup_results'', PList (map result_row (mw_results s))),
           (''legacy_dates_inventoried'', PInt (int (length items))),
           (''legacy_remote_copy_unconfirmed_dates'', PList unconfirmed),
           (''legacy_inventory_incomplete_dates'', PList incomplete),
           (''legacy_static_gtfs_remote_copy_unconfirmed'', PBool static), (''static_gtfs'', PDict state)])))))))"

definition write_maintenance_status ::
  "tools \<Rightarrow> maintenance_config \<Rightarrow> stamp \<Rightarrow> clock \<Rightarrow> 'h maintenance \<Rightarrow> (exn + row) \<times> 'h maintenance" where
  "write_maintenance_status tk cfg st ck s =
     (case maintenance_status tk cfg ck s of
        Inl e \<Rightarrow> (Inl e, s)
      | Inr status \<Rightarrow> (Inr status, s\<lparr>mw_tree := write_json tk st maintenance_status_path status (mw_tree s)\<rparr>))"

subsection \<open>The ping\<close>

text \<open>The flag says that the ping was delivered; a ping that fails is tried again in the next pass.\<close>

definition collector_fresh :: "tools \<Rightarrow> clock \<Rightarrow> tree \<Rightarrow> exn + bool" where
  "collector_fresh tk ck t =
     (case read_json tk t [''health'', ''status.json''] (PDict []) of
        PDict r \<Rightarrow> map_sum id (\<lambda>updated. truthy (row_get r ''healthy'') \<and> \<not> ck_now ck - updated > 180) (number_or r ''updated_timestamp'')
      | _ \<Rightarrow> Inl (other_error ''AttributeError''))"

definition maybe_ping ::
  "tools \<Rightarrow> maintenance_config \<Rightarrow> clock \<Rightarrow> bool \<Rightarrow> row \<Rightarrow> 'h maintenance \<Rightarrow> (exn + bool) \<times> 'h maintenance" where
  "maybe_ping tk cfg ck delivered status s =
     (if healthcheck_url cfg = [] \<or> \<not> offsite cfg \<or>
         ck_mono ck - mw_last_ping s < num_val (healthcheck_ping_interval_seconds cfg) then (Inr False, s)
      else case collector_fresh tk ck (mw_tree s) of
          Inl e \<Rightarrow> (Inl e, s)
        | Inr fresh \<Rightarrow>
            if \<not> fresh \<or> \<not> truthy (row_get status ''healthy'') then (Inr False, s)
            else if delivered then (Inr True, s\<lparr>mw_last_ping := ck_mono ck\<rparr>) else (Inr False, s))"

subsection \<open>The loop\<close>

record cycle_io =
  cy_stamp :: stamp
  cy_download :: "exn + bytes"
  cy_env :: manifest_env
  cy_backup :: backup_io
  cy_prune :: "string \<Rightarrow> prune_io"
  cy_delivered :: bool
  cy_clock :: "nat \<Rightarrow> clock"

definition then_part :: "exn option \<times> 'h maintenance \<Rightarrow> ('h maintenance \<Rightarrow> exn option \<times> 'h maintenance) \<Rightarrow> exn option \<times> 'h maintenance" where
  "then_part r k = (case r of (Some e, s) \<Rightarrow> (Some e, s) | (None, s) \<Rightarrow> k s)"

text \<open>One pass; the parts read the time one after the other.\<close>

definition maintenance_cycle ::
  "tools \<Rightarrow> parquet \<Rightarrow> 'h hub \<Rightarrow> maintenance_config \<Rightarrow> cycle_io \<Rightarrow> 'h maintenance \<Rightarrow> (exn + bool) \<times> 'h maintenance" where
  "maintenance_cycle tk pq hub cfg io s =
     (case then_part (then_part (then_part (maintain_static_gtfs tk cfg (cy_stamp io) (cy_clock io 0) (cy_download io) s)
              (maintain_compaction tk pq cfg (cy_stamp io) (cy_clock io 1)))
            (maintain_local_manifests tk cfg (cy_env io) (cy_clock io 2)))
          (maintain_backups tk hub cfg (cy_env io) (cy_backup io) (cy_prune io) (cy_clock io 3)) of
        (Some e, s1) \<Rightarrow> (Inl e, s1)
      | (None, s1) \<Rightarrow>
          (case write_maintenance_status tk cfg (cy_stamp io) (cy_clock io 4) s1 of
             (Inl e, s2) \<Rightarrow> (Inl e, s2)
           | (Inr status, s2) \<Rightarrow> maybe_ping tk cfg (cy_clock io 5) (cy_delivered io) status s2))"

text \<open>The passes until the shutdown is requested, with whether each delivered the ping, or the exception that ended the process\<close>

fun run_maintenance ::
  "tools \<Rightarrow> parquet \<Rightarrow> 'h hub \<Rightarrow> maintenance_config \<Rightarrow> cycle_io list \<Rightarrow> 'h maintenance \<Rightarrow> (exn option \<times> bool list) \<times> 'h maintenance" where
  "run_maintenance tk pq hub cfg [] s = ((None, []), s)"
| "run_maintenance tk pq hub cfg (io # ios) s =
     (case maintenance_cycle tk pq hub cfg io s of
        (Inl e, s1) \<Rightarrow> ((Some e, []), s1)
      | (Inr pinged, s1) \<Rightarrow> (case run_maintenance tk pq hub cfg ios s1 of ((e, ps), s2) \<Rightarrow> ((e, pinged # ps), s2)))"

end
