(* ===== verification/Compaction_Safety.thy ===== *)
theory Compaction_Safety
  imports Compaction
begin

section \<open>Compaction keeps every row exactly once, whenever it is interrupted\<close>

text \<open>
  A row is the function from column names to values (a null is \<^verbatim>\<open>None\<close>), so that the nulls added by the common schema do
  not matter. Between two runs the partition is in one of two phases: the sources are as they were, or the output holds all
  rows and the sources are being deleted.
\<close>

definition file_rows :: "parquet \<Rightarrow> tree \<Rightarrow> path \<Rightarrow> (string \<Rightarrow> pyval) list option" where
  "file_rows pq t p = (case regular_at t p of None \<Rightarrow> None | Some f \<Rightarrow> map_option (map row_get) (pq_read pq (fo_bytes f)))"

text \<open>
  What the code relies on: the footer counts the rows, the columns of a file are those of its rows, the unified schema has every
  column, and rows cast to a unified schema are read back as they were written.
\<close>

definition parquet_faithful :: "tools \<Rightarrow> parquet \<Rightarrow> bool" where
  "parquet_faithful tk pq \<longleftrightarrow>
     (\<forall>bs rows. pq_read pq bs = Some rows \<longrightarrow> tl_rows tk bs = Some (int (length rows)) \<and>
        (\<exists>cols. pq_columns pq bs = Some cols \<and> (\<forall>r \<in> set rows. set (map fst r) \<subseteq> set cols))) \<and>
     (\<forall>columns schema. pq_unify pq columns = Some schema \<longrightarrow> (\<forall>cols \<in> set columns. set cols \<subseteq> set schema)) \<and>
     (\<forall>files tables columns schema. map (pq_read pq) files = map Some tables \<longrightarrow> map (pq_columns pq) files = map Some columns \<longrightarrow>
        pq_unify pq columns = Some schema \<longrightarrow>
        pq_read pq (pq_write pq schema (map (align_row schema) (concat tables))) = Some (map (align_row schema) (concat tables)))"

text \<open>A run that is interrupted before its last step leaves one of the trees before it.\<close>

inductive interrupted :: "tools \<Rightarrow> parquet \<Rightarrow> feed \<Rightarrow> string \<Rightarrow> nat \<Rightarrow> tree \<Rightarrow> tree \<Rightarrow> bool"
  for tk pq feed date n t0 where
  untouched: "interrupted tk pq feed date n t0 t0"
| interrupt: "interrupted tk pq feed date n t0 t \<Longrightarrow> u \<in> set (butlast (snd (compact_partition tk pq st feed date n t))) \<Longrightarrow>
    interrupted tk pq feed date n t0 u"

text \<open>The partition before the first run: \<open>ct\<close> is the transaction that run will write.\<close>

definition compactable :: "tools \<Rightarrow> parquet \<Rightarrow> feed \<Rightarrow> string \<Rightarrow> nat \<Rightarrow> tree \<Rightarrow> (string \<Rightarrow> pyval) list list \<Rightarrow> transaction \<Rightarrow> bool" where
  "compactable tk pq feed date n t tables ct \<longleftrightarrow>
     (let dir = partition_dir ''parquet'' feed date; sources = partition_parquet t dir in
      exists_at t dir \<and> children t (partition_dir ''spool'' feed date) = [] \<and> map_of t (compaction_marker dir) = None \<and> n \<le> length sources \<and>
      map (file_rows pq t) sources = map Some tables \<and>
      (\<exists>columns. map_result (\<lambda>p. bind_result (file_bytes_at t p) (\<lambda>bs. to_result (pq_columns pq bs))) sources = Inr columns \<and>
         pq_unify pq columns \<noteq> None) \<and>
      new_transaction tk dir sources t = Inr ct \<and>
      tl_json tk (tl_dump tk (PDict (transaction_row ct))) = Some (PDict (transaction_row ct)))"

subsection \<open>Rows\<close>

lemma row_get_align: "set (map fst r) \<subseteq> set schema \<Longrightarrow> row_get (align_row schema r) = row_get r"
proof
  fix c
  assume s: "set (map fst r) \<subseteq> set schema"
  have "map_of (align_row schema r) c = (if c \<in> set schema then Some (row_get r c) else None)"
    by (auto simp: align_row_def map_of_map_restrict)
  moreover have "row_get r c = PNone" if "c \<notin> set schema"
  proof -
    have "map_of r c = None" using s that by (auto simp: map_of_eq_None_iff)
    then show ?thesis by (simp add: row_get_def)
  qed
  ultimately show "row_get (align_row schema r) c = row_get r c" by (simp add: row_get_def)
qed

lemma map_result_Inr_map: "map_result f xs = Inr ys \<longleftrightarrow> map f xs = map Inr ys"
proof (induction xs arbitrary: ys)
  case (Cons x xs)
  then show ?case by (cases ys; cases "f x"; cases "map_result f xs") auto
qed auto

lemma concat_one: "r \<in> set rs \<Longrightarrow> length (concat rs) = length r \<Longrightarrow> concat rs = r"
proof -
  assume "r \<in> set rs" "length (concat rs) = length r"
  then obtain as bs where "rs = as @ r # bs" by (meson split_list)
  with \<open>length (concat rs) = length r\<close> have "length (concat as) = 0 \<and> length (concat bs) = 0" by simp
  with \<open>rs = as @ r # bs\<close> show "concat rs = r" by (metis append_Nil append_Nil2 concat.simps(2) concat_append length_0_conv)
qed

lemma ends_with_suffix [simp]: "ends_with (x @ y) y"
  by (simp add: ends_with_def)


lemma file_rows_Some:
  "file_rows pq t p = Some rs \<longleftrightarrow> (\<exists>f rows. regular_at t p = Some f \<and> pq_read pq (fo_bytes f) = Some rows \<and> rs = map row_get rows)"
  by (auto simp: file_rows_def split: option.splits)

lemma row_count_of_rows:
  "parquet_faithful tk pq \<Longrightarrow> file_rows pq t p = Some rs \<Longrightarrow> parquet_row_count tk t p = Inr (int (length rs))"
  by (auto simp: file_rows_Some parquet_faithful_def parquet_row_count_def file_bytes_at_def to_result_def)

lemma row_counts_of_rows:
  assumes "parquet_faithful tk pq" and "map (file_rows pq t) ps = map Some tables"
  shows "map_result (parquet_row_count tk t) ps = Inr (map (\<lambda>rs. int (length rs)) tables)"
  unfolding map_result_Inr_map
proof (rule nth_equalityI)
  show "length (map (parquet_row_count tk t) ps) = length (map Inr (map (\<lambda>rs. int (length rs)) tables))"
    using arg_cong [OF assms(2), of length] by simp
  fix i assume i: "i < length (map (parquet_row_count tk t) ps)"
  then have "file_rows pq t (ps ! i) = Some (tables ! i)" using assms(2) by (metis length_map nth_map)
  from row_count_of_rows [OF assms(1) this] i arg_cong [OF assms(2), of length]
  show "map (parquet_row_count tk t) ps ! i = map Inr (map (\<lambda>rs. int (length rs)) tables) ! i" by simp
qed

text \<open>The merged file of readable sources whose schemas unify holds their rows, one file after the other.\<close>

lemma merged_bytes_rows:
  assumes "parquet_faithful tk pq" and "map (file_rows pq t) ps = map Some tables"
    and "map_result (\<lambda>p. bind_result (file_bytes_at t p) (\<lambda>bs. to_result (pq_columns pq bs))) ps = Inr columns"
    and "pq_unify pq columns = Some schema"
  obtains bs rows where "merged_bytes pq t ps = Inr bs" and "pq_read pq bs = Some rows" and "map row_get rows = concat tables"
proof -
  from assms(2) have "\<exists>files ls. map (regular_at t) ps = map Some files \<and> map (\<lambda>f. pq_read pq (fo_bytes f)) files = map Some ls \<and>
      map (map row_get) ls = tables"
  proof (induction ps arbitrary: tables)
    case (Cons p ps)
    then obtain rs tables' where tables: "tables = rs # tables'" "file_rows pq t p = Some rs" "map (file_rows pq t) ps = map Some tables'"
      by (cases tables) auto
    from Cons.IH [OF tables(3)] obtain files ls where ih: "map (regular_at t) ps = map Some files"
      "map (\<lambda>f. pq_read pq (fo_bytes f)) files = map Some ls" "map (map row_get) ls = tables'" by blast
    from tables(2) obtain f rows where "regular_at t p = Some f" "pq_read pq (fo_bytes f) = Some rows" "rs = map row_get rows"
      by (auto simp: file_rows_Some)
    with ih tables(1) show ?case by (intro exI [of _ "f # files"] exI [of _ "rows # ls"]) simp
  qed simp
  then obtain files ls where files: "map (regular_at t) ps = map Some files" "map (\<lambda>f. pq_read pq (fo_bytes f)) files = map Some ls"
    "map (map row_get) ls = tables" by blast
  define bss where "bss = map fo_bytes files"
  have bytes: "map (file_bytes_at t) ps = map Inr bss"
  proof -
    have "file_bytes_at t p = (case regular_at t p of None \<Rightarrow> Inl (other_error ''FileNotFoundError'') | Some f \<Rightarrow> Inr (fo_bytes f))" for p
      by (simp add: file_bytes_at_def)
    then have "map (file_bytes_at t) ps =
        map (\<lambda>x. case x of None \<Rightarrow> Inl (other_error ''FileNotFoundError'') | Some f \<Rightarrow> Inr (fo_bytes f)) (map (regular_at t) ps)" by simp
    then show ?thesis by (simp add: files(1) bss_def)
  qed
  have cols: "map (pq_columns pq) bss = map Some columns"
  proof -
    have "map (\<lambda>p. bind_result (file_bytes_at t p) (\<lambda>bs. to_result (pq_columns pq bs))) ps =
        map (\<lambda>x. bind_result x (\<lambda>bs. to_result (pq_columns pq bs))) (map (file_bytes_at t) ps)" by simp
    with assms(3) have "map (\<lambda>bs. to_result (pq_columns pq bs)) bss = map Inr columns"
      by (simp add: bytes map_result_Inr_map o_def)
    then show ?thesis
    proof (induction bss arbitrary: columns)
      case (Cons b bss)
      then show ?case by (cases columns) (auto simp: to_result_def split: option.splits)
    qed simp
  qed
  have read: "map (pq_read pq) bss = map Some ls" using files(2) by (simp add: bss_def o_def)
  have to: "map (\<lambda>bs. to_result (g bs)) xs = map Inr ys" if "map g xs = map Some ys" for g :: "bytes \<Rightarrow> 'x option" and xs ys
    using that by (induction xs arbitrary: ys) (auto simp: to_result_def Cons_eq_map_conv)
  define bs where "bs = pq_write pq schema (map (align_row schema) (concat ls))"
  have merged: "merged_bytes pq t ps = Inr bs"
    unfolding merged_bytes_def
    using bytes to [OF cols] to [OF read] assms(4) by (simp add: map_result_Inr_map [symmetric] to_result_def bs_def)
  have "pq_read pq bs = Some (map (align_row schema) (concat ls))"
    using assms(1,4) read cols unfolding parquet_faithful_def bs_def by blast
  moreover have "map row_get (map (align_row schema) (concat ls)) = concat tables"
  proof -
    have "row_get (align_row schema r) = row_get r" if r: "r \<in> set (concat ls)" for r
    proof -
      from r obtain l where "l \<in> set ls" "r \<in> set l" by auto
      then obtain i where i: "i < length ls" "r \<in> set (ls ! i)" by (metis in_set_conv_nth)
      have len: "length bss = length ls" "length columns = length bss"
        using arg_cong [OF read, of length] arg_cong [OF cols, of length] by simp_all
      have "pq_read pq (bss ! i) = Some (ls ! i)" "pq_columns pq (bss ! i) = Some (columns ! i)"
        using read cols i(1) len by (metis length_map nth_map)+
      with assms(1) i(2) have "set (map fst r) \<subseteq> set (columns ! i)" unfolding parquet_faithful_def by fastforce
      also have "\<dots> \<subseteq> set schema" using assms(1,4) i(1) len unfolding parquet_faithful_def by (metis nth_mem)
      finally show ?thesis by (rule row_get_align)
    qed
    then have "map row_get (map (align_row schema) (concat ls)) = map row_get (concat ls)" by simp
    also have "\<dots> = concat tables" by (simp add: map_concat flip: files(3))
    finally show ?thesis .
  qed
  ultimately show thesis using that merged by blast
qed


subsection \<open>The tree\<close>

lemma set_partition_parquet:
  "p \<in> set (partition_parquet t d) \<longleftrightarrow> map_of t p \<noteq> None \<and> p \<noteq> [] \<and> butlast p = d \<and> ends_with (last p) ''.parquet''"
  by (auto simp: partition_parquet_def glob_def set_children)

lemma distinct_partition_parquet [simp]: "distinct (partition_parquet t d)"
  by (simp add: partition_parquet_def glob_def)

lemma marker_name: "\<not> ends_with ''.compaction-transaction.json'' ''.parquet''"
  by (simp add: ends_with_def)

lemma exists_after_write: "exists_at t q \<Longrightarrow> exists_at (write_file st p bs t) q"
  using make_parents_old [of t q _ p] by (auto simp: exists_at_def write_file_def update_conv')

lemma not_prefix_of_parent: "butlast q = d \<Longrightarrow> q \<noteq> [] \<Longrightarrow> q \<notin> set (prefixes_of d)"
proof
  assume q: "butlast q = d" "q \<noteq> []" "q \<in> set (prefixes_of d)"
  from q(3) have "length q \<le> length d" by (auto simp: in_prefixes)
  moreover have "length d = length q - 1" "0 < length q" using q(1,2) by auto
  ultimately show False by linarith
qed

lemma map_of_write_sibling:
  "butlast q = d \<Longrightarrow> q \<noteq> [] \<Longrightarrow> q \<noteq> d @ [x] \<Longrightarrow> map_of (write_file st (d @ [x]) bs t) q = map_of t q"
  using not_prefix_of_parent [of q d] by (simp add: map_of_write_other)

lemma spool_children_write:
  "children t (partition_dir ''spool'' feed date) = [] \<Longrightarrow>
   children (write_file st (partition_dir ''parquet'' feed date @ [x]) bs t) (partition_dir ''spool'' feed date) = []"
proof -
  assume e: "children t (partition_dir ''spool'' feed date) = []"
  have "q \<notin> set (children (write_file st (partition_dir ''parquet'' feed date @ [x]) bs t) (partition_dir ''spool'' feed date))" for q
  proof
    assume "q \<in> set (children (write_file st (partition_dir ''parquet'' feed date @ [x]) bs t) (partition_dir ''spool'' feed date))"
    then have q: "map_of (write_file st (partition_dir ''parquet'' feed date @ [x]) bs t) q \<noteq> None" "q \<noteq> []"
      "butlast q = partition_dir ''spool'' feed date" by (simp_all add: set_children)
    then have "hd q = ''spool''" by (cases q) (auto simp: partition_dir_def split: if_splits)
    then have "q \<noteq> partition_dir ''parquet'' feed date @ [x]" "q \<notin> set (prefixes_of (partition_dir ''parquet'' feed date))"
      by (auto simp: partition_dir_def in_prefixes hd_append Cons_eq_append_conv)
    with q(1) have "map_of t q \<noteq> None" by (simp add: map_of_write_other)
    with q(2,3) have "q \<in> set (children t (partition_dir ''spool'' feed date))" by (simp add: set_children)
    with e show False by simp
  qed
  then show ?thesis by (metis last_in_set)
qed

lemma map_of_delete: "map_of (AList.delete p t) q = (if q = p then None else map_of t q)"
  by (simp add: delete_conv')

lemma children_delete_empty: "children t d = [] \<Longrightarrow> children (AList.delete p t) d = []"
proof -
  assume e: "children t d = []"
  have "q \<notin> set (children (AList.delete p t) d)" for q
    using e set_children [of q t d] by (auto simp: set_children map_of_delete)
  then show ?thesis by (metis last_in_set)
qed

lemma delete_steps_append: "delete_steps (ps @ qs) t = delete_steps ps t @ delete_steps qs (last (t # delete_steps ps t))"
  by (induction ps arbitrary: t) auto

text \<open>A property kept by every deletion holds of all trees; the last one lacks every deleted file.\<close>

lemma delete_steps_keep:
  assumes "Q t" and "\<And>u p. Q u \<Longrightarrow> p \<in> set ps \<Longrightarrow> Q (AList.delete p u)" and "u \<in> set (t # delete_steps ps t)"
  shows "Q u"
  using assms by (induction ps arbitrary: t) auto

lemma delete_steps_last: "map_of (last (t # delete_steps ps t)) q = (if q \<in> set ps then None else map_of t q)"
  by (induction ps arbitrary: t) (auto simp: map_of_delete)

subsection \<open>The transaction in the marker\<close>

lemma read_transaction_row:
  assumes "\<forall>p \<in> set (ct_sources ct). p \<noteq> [] \<and> butlast p = dir" and "ct_output ct \<noteq> []" and "butlast (ct_output ct) = dir"
  shows "read_transaction dir (PDict (transaction_row ct)) = Inr ct"
proof -
  have 1: "map_result name_of (map (\<lambda>p. PStr (last p)) ps) = Inr (map last ps)" for ps :: "path list"
    by (simp add: map_result_Inr_map name_of_def)
  have "dir @ [last p] = p" if "p \<noteq> []" "butlast p = dir" for p :: path using that by (metis append_butlast_last_id)
  with assms have "map (\<lambda>s. dir @ [s]) (map last (ct_sources ct)) = ct_sources ct" "dir @ [last (ct_output ct)] = ct_output ct"
    by (simp_all add: map_idI)
  then show ?thesis
    by (simp add: read_transaction_def transaction_row_def key_of_def name_of_def 1 int_of_def)
qed


subsection \<open>The two phases\<close>

text \<open>The transaction's marker is on disk; no other code has touched the partition.\<close>

definition marked :: "tools \<Rightarrow> feed \<Rightarrow> string \<Rightarrow> transaction \<Rightarrow> tree \<Rightarrow> bool" where
  "marked tk feed date ct t \<longleftrightarrow>
     exists_at t (partition_dir ''parquet'' feed date) \<and> children t (partition_dir ''spool'' feed date) = [] \<and>
     (\<exists>f. regular_at t (compaction_marker (partition_dir ''parquet'' feed date)) = Some f \<and>
        tl_json tk (fo_bytes f) = Some (PDict (transaction_row ct)))"

definition sources_phase :: "feed \<Rightarrow> string \<Rightarrow> tree \<Rightarrow> tree \<Rightarrow> bool" where
  "sources_phase feed date t0 t \<longleftrightarrow>
     (\<forall>p. p \<noteq> [] \<longrightarrow> butlast p = partition_dir ''parquet'' feed date \<longrightarrow> ends_with (last p) ''.parquet'' \<longrightarrow> map_of t p = map_of t0 p)"

definition output_phase :: "parquet \<Rightarrow> feed \<Rightarrow> string \<Rightarrow> transaction \<Rightarrow> (string \<Rightarrow> pyval) list list \<Rightarrow> tree \<Rightarrow> bool" where
  "output_phase pq feed date ct tables t \<longleftrightarrow>
     file_rows pq t (ct_output ct) = Some (concat tables) \<and>
     set (partition_parquet t (partition_dir ''parquet'' feed date)) \<subseteq> insert (ct_output ct) (set (ct_sources ct))"

definition compacted :: "parquet \<Rightarrow> feed \<Rightarrow> string \<Rightarrow> transaction \<Rightarrow> (string \<Rightarrow> pyval) list list \<Rightarrow> tree \<Rightarrow> bool" where
  "compacted pq feed date ct tables t \<longleftrightarrow>
     partition_parquet t (partition_dir ''parquet'' feed date) = [ct_output ct] \<and> file_rows pq t (ct_output ct) = Some (concat tables) \<and>
     map_of t (compaction_marker (partition_dir ''parquet'' feed date)) = None"

lemma file_rows_cong: "map_of t p = map_of u p \<Longrightarrow> file_rows pq t p = file_rows pq u p"
  by (simp add: file_rows_def regular_at_def)

lemma regular_at_cong: "map_of t p = map_of u p \<Longrightarrow> regular_at t p = regular_at u p"
  by (simp add: regular_at_def)

lemma sources_phase_partition:
  "sources_phase feed date t0 t \<Longrightarrow>
   partition_parquet t (partition_dir ''parquet'' feed date) = partition_parquet t0 (partition_dir ''parquet'' feed date)"
proof -
  assume s: "sources_phase feed date t0 t"
  let ?d = "partition_dir ''parquet'' feed date"
  have "set (partition_parquet t ?d) = set (partition_parquet t0 ?d)"
  proof (intro set_eqI)
    show "p \<in> set (partition_parquet t ?d) \<longleftrightarrow> p \<in> set (partition_parquet t0 ?d)" for p
      using s unfolding set_partition_parquet sources_phase_def by metis
  qed
  moreover have "sorted (partition_parquet v ?d)" for v by (simp add: partition_parquet_def glob_def)
  ultimately show ?thesis by (metis distinct_partition_parquet sorted_distinct_set_unique)
qed

lemma sources_phase_member:
  "sources_phase feed date t0 t \<Longrightarrow> p \<in> set (partition_parquet t0 (partition_dir ''parquet'' feed date)) \<Longrightarrow> map_of t p = map_of t0 p"
  unfolding sources_phase_def set_partition_parquet by blast

text \<open>What the transaction says, from \<open>compactable\<close>.\<close>

lemma compactable_transaction:
  assumes "parquet_faithful tk pq" and "compactable tk pq feed date n t0 tables ct"
  shows "ct_sources ct = partition_parquet t0 (partition_dir ''parquet'' feed date)"
    and "ct_output ct \<noteq> []" and "butlast (ct_output ct) = partition_dir ''parquet'' feed date" and "ends_with (last (ct_output ct)) ''.parquet''"
    and "ct_rows ct = int (length (concat tables))"
    and "read_transaction (partition_dir ''parquet'' feed date) (PDict (transaction_row ct)) = Inr ct"
    and "\<exists>x. ct_output ct = partition_dir ''parquet'' feed date @ [x]"
proof -
  from assms(2) have c: "map (file_rows pq t0) (partition_parquet t0 (partition_dir ''parquet'' feed date)) = map Some tables"
    "new_transaction tk (partition_dir ''parquet'' feed date) (partition_parquet t0 (partition_dir ''parquet'' feed date)) t0 = Inr ct"
    by (simp_all add: compactable_def Let_def)
  note counts = row_counts_of_rows [OF assms(1) c(1)]
  from c(2) have ct: "ct_sources ct = partition_parquet t0 (partition_dir ''parquet'' feed date)"
      "\<exists>h. ct_output ct = partition_dir ''parquet'' feed date @ [(''part-compacted-'' @ h) @ ''.parquet'']"
      "ct_rows ct = sum_list (map (\<lambda>rs. int (length rs)) tables)"
    by (auto simp: new_transaction_def counts simp del: append_assoc append.simps)
  show "ct_sources ct = partition_parquet t0 (partition_dir ''parquet'' feed date)" by (rule ct(1))
  from ct(2) obtain h where h: "ct_output ct = partition_dir ''parquet'' feed date @ [(''part-compacted-'' @ h) @ ''.parquet'']" by blast
  have last: "last (ct_output ct) = (''part-compacted-'' @ h) @ ''.parquet''" unfolding h by (rule last_snoc)
  show e: "ends_with (last (ct_output ct)) ''.parquet''" unfolding last by (rule ends_with_suffix)
  show o: "ct_output ct \<noteq> []" "butlast (ct_output ct) = partition_dir ''parquet'' feed date" unfolding h by simp_all
  show "\<exists>x. ct_output ct = partition_dir ''parquet'' feed date @ [x]" using h by blast
  show "ct_rows ct = int (length (concat tables))" unfolding ct(3) by (induction tables) simp_all
  show "read_transaction (partition_dir ''parquet'' feed date) (PDict (transaction_row ct)) = Inr ct"
    by (rule read_transaction_row) (auto simp: ct(1) o set_partition_parquet simp del: butlast.simps)
qed


text \<open>Between two runs of one transaction\<close>

definition in_transaction :: "tools \<Rightarrow> parquet \<Rightarrow> feed \<Rightarrow> string \<Rightarrow> transaction \<Rightarrow> (string \<Rightarrow> pyval) list list \<Rightarrow> tree \<Rightarrow> tree \<Rightarrow> bool" where
  "in_transaction tk pq feed date ct tables t0 t \<longleftrightarrow>
     marked tk feed date ct t \<and> (sources_phase feed date t0 t \<or> output_phase pq feed date ct tables t)"

lemma deletion_keeps_phase:
  assumes "parquet_faithful tk pq" and "compactable tk pq feed date n t0 tables ct"
    and "marked tk feed date ct u \<and> output_phase pq feed date ct tables u" and "p \<in> set (ct_sources ct)" and "p \<noteq> ct_output ct"
  shows "marked tk feed date ct (AList.delete p u) \<and> output_phase pq feed date ct tables (AList.delete p u)"
proof -
  note tr = compactable_transaction [OF assms(1,2)]
  have p: "butlast p = partition_dir ''parquet'' feed date" "ends_with (last p) ''.parquet''" "p \<noteq> []"
    using assms(4) by (simp_all add: tr(1) set_partition_parquet)
  then have "p \<noteq> compaction_marker (partition_dir ''parquet'' feed date)" "p \<noteq> partition_dir ''parquet'' feed date"
    using marker_name by (auto simp: compaction_marker_def partition_dir_def)
  with assms(3) have "marked tk feed date ct (AList.delete p u)"
    by (simp add: marked_def exists_at_def regular_at_def map_of_delete children_delete_empty)
  moreover have "file_rows pq (AList.delete p u) (ct_output ct) = file_rows pq u (ct_output ct)"
    using assms(5) by (intro file_rows_cong) (simp add: map_of_delete)
  moreover have "set (partition_parquet (AList.delete p u) d) \<subseteq> set (partition_parquet u d)" for d
    by (auto simp: set_partition_parquet map_of_delete split: if_splits)
  ultimately show ?thesis using assms(3) unfolding output_phase_def by auto
qed

lemma distinct_set_one: "distinct xs \<Longrightarrow> set xs = {x} \<Longrightarrow> xs = [x]"
proof (cases xs)
  case (Cons y ys)
  assume "distinct xs" "set xs = {x}"
  with Cons show ?thesis by (cases ys) auto
qed simp

lemma finish_run:
  assumes pf: "parquet_faithful tk pq" and cp: "compactable tk pq feed date n t0 tables ct"
    and t: "marked tk feed date ct t" "output_phase pq feed date ct tables t"
  shows "finish_transaction (partition_dir ''parquet'' feed date) ct t \<noteq> []"
    and "\<forall>u \<in> set (butlast (t # finish_transaction (partition_dir ''parquet'' feed date) ct t)).
      marked tk feed date ct u \<and> output_phase pq feed date ct tables u"
    and "compacted pq feed date ct tables (last (t # finish_transaction (partition_dir ''parquet'' feed date) ct t))"
proof -
  let ?d = "partition_dir ''parquet'' feed date" and ?del = "[p \<leftarrow> ct_sources ct. p \<noteq> ct_output ct]"
  define v where "v = last (t # delete_steps ?del t)"
  note tr = compactable_transaction [OF pf cp]
  have fin: "finish_transaction ?d ct t = delete_steps ?del t @ [AList.delete (compaction_marker ?d) v]"
    by (simp add: finish_transaction_def delete_steps_append v_def)
  then show "finish_transaction ?d ct t \<noteq> []" by simp
  have keep: "marked tk feed date ct u \<and> output_phase pq feed date ct tables u" if "u \<in> set (t # delete_steps ?del t)" for u
    using delete_steps_keep [of "\<lambda>u. marked tk feed date ct u \<and> output_phase pq feed date ct tables u" t ?del u]
      t deletion_keeps_phase [OF pf cp] that by simp
  moreover have "butlast (t # finish_transaction ?d ct t) = t # delete_steps ?del t" unfolding fin by (simp add: butlast_append)
  ultimately show "\<forall>u \<in> set (butlast (t # finish_transaction ?d ct t)). marked tk feed date ct u \<and> output_phase pq feed date ct tables u"
    by simp
  have "v \<in> set (t # delete_steps ?del t)" unfolding v_def by (rule last_in_set) simp
  with keep have v: "marked tk feed date ct v" "output_phase pq feed date ct tables v" by blast+
  have last: "last (t # finish_transaction ?d ct t) = AList.delete (compaction_marker ?d) v" unfolding fin by simp
  have ne: "ct_output ct \<noteq> compaction_marker ?d" using tr(4) marker_name by (auto simp: compaction_marker_def)
  have rows: "file_rows pq (AList.delete (compaction_marker ?d) v) (ct_output ct) = Some (concat tables)"
  proof -
    have "file_rows pq (AList.delete (compaction_marker ?d) v) (ct_output ct) = file_rows pq v (ct_output ct)"
      using ne by (intro file_rows_cong) (simp add: map_of_delete)
    with v(2) show ?thesis by (simp add: output_phase_def)
  qed
  have "p = ct_output ct" if "p \<in> set (partition_parquet (AList.delete (compaction_marker ?d) v) ?d)" for p
  proof (rule ccontr)
    assume p: "p \<noteq> ct_output ct"
    from that have m: "map_of v p \<noteq> None" "p \<in> set (partition_parquet v ?d)" by (auto simp: set_partition_parquet map_of_delete split: if_splits)
    with v(2) p have "p \<in> set ?del" by (auto simp: output_phase_def)
    then have "map_of v p = None" unfolding v_def delete_steps_last by simp
    with m show False by simp
  qed
  moreover have "ct_output ct \<in> set (partition_parquet (AList.delete (compaction_marker ?d) v) ?d)"
    using rows tr(2,3,4) by (auto simp: set_partition_parquet file_rows_Some regular_at_Some)
  ultimately have "set (partition_parquet (AList.delete (compaction_marker ?d) v) ?d) = {ct_output ct}" by blast
  then have "partition_parquet (AList.delete (compaction_marker ?d) v) ?d = [ct_output ct]"
    by (rule distinct_set_one [OF distinct_partition_parquet])
  with rows show "compacted pq feed date ct tables (last (t # finish_transaction ?d ct t))"
    unfolding last compacted_def by (simp add: map_of_delete)
qed


lemma marked_write_output:
  assumes "marked tk feed date ct t" and "x \<noteq> ''.compaction-transaction.json''"
  shows "marked tk feed date ct (write_file st (partition_dir ''parquet'' feed date @ [x]) bs t)"
proof -
  let ?d = "partition_dir ''parquet'' feed date"
  have "regular_at (write_file st (?d @ [x]) bs t) (compaction_marker ?d) = regular_at t (compaction_marker ?d)"
    using assms(2) by (intro regular_at_cong map_of_write_sibling [of _ ?d]) (simp_all add: compaction_marker_def)
  with assms(1) show ?thesis by (simp add: marked_def exists_after_write spool_children_write)
qed

text \<open>The merge of intact sources succeeds and leaves the output with every row.\<close>

lemma write_run:
  assumes pf: "parquet_faithful tk pq" and cp: "compactable tk pq feed date n t0 tables ct"
    and t: "marked tk feed date ct t" "sources_phase feed date t0 t"
  obtains t1 where "write_output tk pq st (partition_dir ''parquet'' feed date) ct t =
      (Inr (Some (ct_output ct)), [t, t1] @ finish_transaction (partition_dir ''parquet'' feed date) ct t1)"
    and "marked tk feed date ct t1" and "output_phase pq feed date ct tables t1"
proof -
  let ?d = "partition_dir ''parquet'' feed date"
  note tr = compactable_transaction [OF pf cp]
  note same = sources_phase_member [OF t(2), folded tr(1)]
  from cp obtain columns schema where cp': "map (file_rows pq t0) (ct_sources ct) = map Some tables"
      "map_result (\<lambda>p. bind_result (file_bytes_at t0 p) (\<lambda>bs. to_result (pq_columns pq bs))) (ct_sources ct) = Inr columns"
      "pq_unify pq columns = Some schema"
    unfolding compactable_def Let_def tr(1) by blast
  have rows: "map (file_rows pq t) (ct_sources ct) = map Some tables"
    unfolding cp'(1) [symmetric] using same by (intro map_cong refl file_rows_cong)
  have "map (\<lambda>p. bind_result (file_bytes_at t p) (\<lambda>bs. to_result (pq_columns pq bs))) (ct_sources ct) = map Inr columns"
    unfolding cp'(2) [unfolded map_result_Inr_map, symmetric] file_bytes_at_def using same by (intro map_cong refl) (simp add: regular_at_def)
  from merged_bytes_rows [OF pf rows this [folded map_result_Inr_map] cp'(3)] obtain bs ls where
    m: "merged_bytes pq t (ct_sources ct) = Inr bs" "pq_read pq bs = Some ls" "map row_get ls = concat tables" by blast
  from m(2) pf have "tl_rows tk bs = Some (int (length ls))" by (simp add: parquet_faithful_def)
  moreover have "length ls = length (concat tables)" using m(3) by (metis length_map)
  ultimately have count: "to_result (tl_rows tk bs) = Inr (ct_rows ct)" by (simp add: to_result_def tr(5))
  define t1 where "t1 = write_file st (ct_output ct) bs t"
  obtain x where x: "ct_output ct = ?d @ [x]" using tr(7) by blast
  with tr(4) have "x \<noteq> ''.compaction-transaction.json''" using marker_name by auto
  from marked_write_output [OF t(1) this] have "marked tk feed date ct t1" by (simp add: t1_def x)
  moreover have "output_phase pq feed date ct tables t1"
  proof -
    have "file_rows pq t1 (ct_output ct) = Some (concat tables)"
      using m(2,3) by (simp add: file_rows_def t1_def)
    moreover have "p \<in> insert (ct_output ct) (set (ct_sources ct))" if p: "p \<in> set (partition_parquet t1 ?d)" for p
    proof (cases "p = ct_output ct")
      case False
      with p have "map_of t1 p = map_of t p" unfolding t1_def x by (intro map_of_write_sibling [of _ ?d]) (simp_all add: set_partition_parquet)
      with p have "p \<in> set (partition_parquet t ?d)" by (simp add: set_partition_parquet)
      with sources_phase_partition [OF t(2)] show ?thesis by (simp add: tr(1))
    qed simp
    ultimately show ?thesis by (auto simp: output_phase_def)
  qed
  moreover have "write_output tk pq st ?d ct t = (Inr (Some (ct_output ct)), [t, t1] @ finish_transaction ?d ct t1)"
    by (simp add: write_output_def m(1) count t1_def Let_def)
  ultimately show thesis using that by blast
qed

text \<open>An output that is there with the right count is the merged file, or one source that holds all rows.\<close>

lemma ready_is_output_phase:
  assumes pf: "parquet_faithful tk pq" and cp: "compactable tk pq feed date n t0 tables ct"
    and t: "in_transaction tk pq feed date ct tables t0 t"
  shows "output_ready tk t ct = Inr True \<and> output_phase pq feed date ct tables t \<or> output_ready tk t ct = Inr False \<and> sources_phase feed date t0 t"
proof -
  let ?d = "partition_dir ''parquet'' feed date"
  note tr = compactable_transaction [OF pf cp]
  show ?thesis
  proof (cases "output_phase pq feed date ct tables t")
    case True
    then have rows: "file_rows pq t (ct_output ct) = Some (concat tables)" by (simp add: output_phase_def)
    then have "exists_at t (ct_output ct)" by (auto simp: file_rows_Some regular_at_Some exists_at_def)
    with row_count_of_rows [OF pf rows] True show ?thesis by (simp add: output_ready_def tr(5))
  next
    case False
    with t have s: "sources_phase feed date t0 t" by (auto simp: in_transaction_def)
    show ?thesis
    proof (cases "exists_at t (ct_output ct)")
      case exists: True
      with tr(2,3,4) have "ct_output ct \<in> set (partition_parquet t ?d)" by (simp add: set_partition_parquet exists_at_def)
      then have src: "ct_output ct \<in> set (ct_sources ct)" by (simp add: tr(1) sources_phase_partition [OF s])
      from cp have "map (file_rows pq t0) (ct_sources ct) = map Some tables" by (simp add: compactable_def Let_def tr(1))
      then have "file_rows pq t0 (ct_output ct) \<in> Some ` set tables" using src by (metis image_eqI list.set_map)
      then obtain rs where rs: "rs \<in> set tables" "file_rows pq t0 (ct_output ct) = Some rs" by auto
      have rows: "file_rows pq t (ct_output ct) = Some rs"
        using file_rows_cong [OF sources_phase_member [OF s, folded tr(1), OF src]] rs(2) by simp
      have "length rs \<noteq> length (concat tables)"
      proof
        assume "length rs = length (concat tables)"
        with concat_one [OF rs(1)] rows sources_phase_partition [OF s] have "output_phase pq feed date ct tables t"
          by (auto simp: output_phase_def tr(1))
        with False show False ..
      qed
      with row_count_of_rows [OF pf rows] exists s show ?thesis by (simp add: output_ready_def tr(5))
    qed (simp add: output_ready_def s)
  qed
qed


subsection \<open>Runs\<close>

definition run_completes :: "tools \<Rightarrow> parquet \<Rightarrow> feed \<Rightarrow> string \<Rightarrow> transaction \<Rightarrow> (string \<Rightarrow> pyval) list list \<Rightarrow> tree \<Rightarrow>
    (exn + path option) \<times> tree list \<Rightarrow> bool" where
  "run_completes tk pq feed date ct tables t0 run \<longleftrightarrow>
     fst run = Inr (Some (ct_output ct)) \<and> snd run \<noteq> [] \<and>
     (\<forall>u \<in> set (butlast (snd run)). u = t0 \<or> in_transaction tk pq feed date ct tables t0 u) \<and> compacted pq feed date ct tables (last (snd run))"

lemma finish_completes:
  assumes "parquet_faithful tk pq" and "compactable tk pq feed date n t0 tables ct"
    and "marked tk feed date ct t" "output_phase pq feed date ct tables t"
    and "\<forall>u \<in> set ts. u = t0 \<or> in_transaction tk pq feed date ct tables t0 u"
  shows "run_completes tk pq feed date ct tables t0
    (Inr (Some (ct_output ct)), ts @ t # finish_transaction (partition_dir ''parquet'' feed date) ct t)"
  using finish_run [OF assms(1-4)] assms(5)
  by (auto simp: run_completes_def in_transaction_def butlast_append split: if_splits)

lemma write_completes:
  assumes "parquet_faithful tk pq" and "compactable tk pq feed date n t0 tables ct"
    and "marked tk feed date ct t" "sources_phase feed date t0 t"
    and "\<forall>u \<in> set ts. u = t0 \<or> in_transaction tk pq feed date ct tables t0 u"
  shows "run_completes tk pq feed date ct tables t0
    (fst (write_output tk pq st (partition_dir ''parquet'' feed date) ct t), ts @ snd (write_output tk pq st (partition_dir ''parquet'' feed date) ct t))"
proof -
  obtain t1 where t1: "write_output tk pq st (partition_dir ''parquet'' feed date) ct t =
      (Inr (Some (ct_output ct)), [t, t1] @ finish_transaction (partition_dir ''parquet'' feed date) ct t1)"
    "marked tk feed date ct t1" "output_phase pq feed date ct tables t1"
    using write_run [OF assms(1-4)] by blast
  have "\<forall>u \<in> set (ts @ [t]). u = t0 \<or> in_transaction tk pq feed date ct tables t0 u"
    using assms(3-5) by (auto simp: in_transaction_def)
  from finish_completes [OF assms(1,2) t1(2,3) this] show ?thesis by (simp add: t1(1))
qed

lemma resumed_run:
  assumes pf: "parquet_faithful tk pq" and cp: "compactable tk pq feed date n t0 tables ct"
    and t: "in_transaction tk pq feed date ct tables t0 t"
  shows "run_completes tk pq feed date ct tables t0 (compact_partition tk pq st feed date n t)"
proof -
  let ?d = "partition_dir ''parquet'' feed date"
  note tr = compactable_transaction [OF pf cp]
  from t have m: "marked tk feed date ct t" by (simp add: in_transaction_def)
  then have marker: "read_json tk t (compaction_marker ?d) (PDict []) = PDict (transaction_row ct)" by (auto simp: marked_def read_json_def)
  have "truthy (PDict (transaction_row ct))" by (simp add: transaction_row_def)
  with m marker have run: "compact_partition tk pq st feed date n t = resume_transaction tk pq st ?d ct t"
    by (simp add: compact_partition_def Let_def tr(6) marked_def)
  consider "output_ready tk t ct = Inr True" "output_phase pq feed date ct tables t"
    | "output_ready tk t ct = Inr False" "sources_phase feed date t0 t"
    using ready_is_output_phase [OF pf cp t] by blast
  then show ?thesis
  proof cases
    case 1
    from finish_completes [OF pf cp m 1(2), of "[]"] show ?thesis by (simp add: run resume_transaction_def 1(1))
  next
    case 2
    have "\<forall>p \<in> set (ct_sources ct). exists_at t p"
      using sources_phase_member [OF 2(2)] by (auto simp: tr(1) set_partition_parquet exists_at_def)
    then have "\<not> list_ex (\<lambda>p. \<not> exists_at t p) (ct_sources ct)" by (auto simp: list_ex_iff)
    with write_completes [OF pf cp m 2(2), of "[]"] show ?thesis by (simp add: run resume_transaction_def 2(1))
  qed
qed

lemma first_run:
  assumes pf: "parquet_faithful tk pq" and cp: "compactable tk pq feed date n t0 tables ct"
  shows "run_completes tk pq feed date ct tables t0 (compact_partition tk pq st feed date n t0)"
proof -
  let ?d = "partition_dir ''parquet'' feed date"
  note tr = compactable_transaction [OF pf cp]
  define t where "t = write_json tk st (compaction_marker ?d) (transaction_row ct) t0"
  from cp have c: "exists_at t0 ?d" "children t0 (partition_dir ''spool'' feed date) = []" "map_of t0 (compaction_marker ?d) = None"
      "n \<le> length (partition_parquet t0 ?d)" "new_transaction tk ?d (partition_parquet t0 ?d) t0 = Inr ct"
      "tl_json tk (tl_dump tk (PDict (transaction_row ct))) = Some (PDict (transaction_row ct))"
    by (simp_all add: compactable_def Let_def)
  have "marked tk feed date ct t"
    using c(1,2,6) exists_after_write [OF c(1)] spool_children_write [OF c(2)]
    by (simp add: marked_def t_def write_json_def) (simp add: compaction_marker_def)
  moreover have "sources_phase feed date t0 t"
    unfolding sources_phase_def
  proof (intro allI impI)
    fix p assume p: "p \<noteq> []" "butlast p = ?d" "ends_with (last p) ''.parquet''"
    then have "p \<noteq> compaction_marker ?d" using marker_name by (auto simp: compaction_marker_def)
    with p show "map_of t p = map_of t0 p"
      unfolding t_def write_json_def compaction_marker_def by (intro map_of_write_sibling [of _ ?d]) simp_all
  qed
  ultimately have "run_completes tk pq feed date ct tables t0
      (fst (write_output tk pq st ?d ct t), [t0] @ snd (write_output tk pq st ?d ct t))"
    by (rule write_completes [OF pf cp]) simp
  moreover have "compact_partition tk pq st feed date n t0 = (fst (write_output tk pq st ?d ct t), t0 # snd (write_output tk pq st ?d ct t))"
  proof -
    have "read_json tk t0 (compaction_marker ?d) (PDict []) = PDict []" using c(3) by (simp add: read_json_def regular_at_def)
    with c show ?thesis by (simp add: compact_partition_def Let_def t_def split: prod.splits)
  qed
  ultimately show ?thesis by simp
qed

lemma run_from_interrupted:
  assumes pf: "parquet_faithful tk pq" and cp: "compactable tk pq feed date n t0 tables ct" and "interrupted tk pq feed date n t0 t"
  shows "run_completes tk pq feed date ct tables t0 (compact_partition tk pq st feed date n t)"
proof -
  from assms(3) have "t = t0 \<or> in_transaction tk pq feed date ct tables t0 t"
  proof (induction rule: interrupted.induct)
    case (interrupt t u st)
    then have "run_completes tk pq feed date ct tables t0 (compact_partition tk pq st feed date n t)"
      using first_run [OF pf cp] resumed_run [OF pf cp] by blast
    with interrupt.hyps(2) show ?case by (simp add: run_completes_def)
  qed simp
  then show ?thesis using first_run [OF pf cp] resumed_run [OF pf cp] by blast
qed

lemma rows_of_tables:
  assumes "map f ps = map Some tables" and "r \<in> set (concat tables)"
  shows "\<exists>p \<in> set ps. \<exists>rows. f p = Some rows \<and> r \<in> set rows"
proof -
  from assms(2) obtain rs where "rs \<in> set tables" "r \<in> set rs" by auto
  moreover from this(1) have "Some rs \<in> f ` set ps" by (metis assms(1) image_eqI list.set_map)
  ultimately show ?thesis by force
qed

lemma rows_held:
  assumes pf: "parquet_faithful tk pq" and cp: "compactable tk pq feed date n t0 tables ct" and r: "r \<in> set (concat tables)"
    and u: "u = t0 \<or> in_transaction tk pq feed date ct tables t0 u \<or> compacted pq feed date ct tables u"
  shows "\<exists>p \<in> set (partition_parquet u (partition_dir ''parquet'' feed date)). \<exists>rows. file_rows pq u p = Some rows \<and> r \<in> set rows"
proof -
  let ?d = "partition_dir ''parquet'' feed date"
  note tr = compactable_transaction [OF pf cp]
  have out: ?thesis if "file_rows pq u (ct_output ct) = Some (concat tables)"
  proof -
    from that have "ct_output ct \<in> set (partition_parquet u ?d)"
      using tr(2,3,4) by (auto simp: set_partition_parquet file_rows_Some regular_at_Some)
    with that r show ?thesis by blast
  qed
  have "sources_phase feed date t0 t0" by (simp add: sources_phase_def)
  with u consider "sources_phase feed date t0 u" | "file_rows pq u (ct_output ct) = Some (concat tables)"
    by (auto simp: in_transaction_def output_phase_def compacted_def)
  then show ?thesis
  proof cases
    case 1
    from cp have "map (file_rows pq t0) (partition_parquet t0 ?d) = map Some tables" by (simp add: compactable_def Let_def)
    from rows_of_tables [OF this r] show ?thesis
      using file_rows_cong [OF sources_phase_member [OF 1]] by (metis sources_phase_partition [OF 1])
  qed (rule out)
qed

text \<open>
  Claim C3. Compaction is exactly-once. From the partition as it was before the first run, after any number of runs each
  interrupted at any point, the next run returns the output file, leaves it as the partition's only Parquet file, without a
  marker, and its rows are those of the sources in their order. In none of its trees is a row missing from the partition.
\<close>

theorem compaction_exactly_once:
  assumes "parquet_faithful tk pq" and "compactable tk pq feed date n t0 tables ct" and "interrupted tk pq feed date n t0 t"
    and "compact_partition tk pq st feed date n t = (r, ts)"
  shows "(\<exists>out. r = Inr (Some out) \<and> partition_parquet (last ts) (partition_dir ''parquet'' feed date) = [out] \<and>
        file_rows pq (last ts) out = Some (concat tables)) \<and> map_of (last ts) (compaction_marker (partition_dir ''parquet'' feed date)) = None \<and>
      (\<forall>u \<in> set ts. \<forall>row \<in> set (concat tables). \<exists>p \<in> set (partition_parquet u (partition_dir ''parquet'' feed date)).
        \<exists>rows. file_rows pq u p = Some rows \<and> row \<in> set rows)"
proof -
  from run_from_interrupted [OF assms(1-3), of st] have run: "r = Inr (Some (ct_output ct))" "ts \<noteq> []"
      "\<forall>u \<in> set (butlast ts). u = t0 \<or> in_transaction tk pq feed date ct tables t0 u" "compacted pq feed date ct tables (last ts)"
    by (simp_all add: run_completes_def assms(4))
  have "u \<in> insert (last ts) (set (butlast ts))" if "u \<in> set ts" for u
    using that run(2) by (metis append_butlast_last_id rotate1.simps(2) set_rotate1 list.simps(15))
  with run(3,4) have "u = t0 \<or> in_transaction tk pq feed date ct tables t0 u \<or> compacted pq feed date ct tables u" if "u \<in> set ts" for u
    using that by blast
  from rows_held [OF assms(1,2) _ this] run(1,4) show ?thesis by (simp add: compacted_def)
qed

text \<open>One column of bytes, a row per byte\<close>

definition demo_parquet :: parquet where
  "demo_parquet =
     \<lparr>pq_read = (\<lambda>bs. Some (map (\<lambda>b. [(''v'', PInt (uint b))]) bs)), pq_columns = (\<lambda>_. Some [''v'']), 
      pq_unify = (\<lambda>columns. if list_all (\<lambda>c. c = [''v'']) columns then Some [''v''] else None),
      pq_write = (\<lambda>schema. map (\<lambda>r. case row_get r ''v'' of PInt i \<Rightarrow> word_of_int i | _ \<Rightarrow> 0))\<rparr>"

definition demo_partition :: tree where
  "demo_partition =
     (let d = partition_dir ''parquet'' Alerts ''1'' in
      [(d, Directory), (d @ [''a.parquet''], file_of (0, 0, 0) [1, 2]), (d @ [''b.parquet''], file_of (0, 0, 0) [3])])"

definition demo_sources :: "path list" where
  "demo_sources = [partition_dir ''parquet'' Alerts ''1'' @ [''a.parquet''], partition_dir ''parquet'' Alerts ''1'' @ [''b.parquet'']]"

definition short_tools :: tools where
  "short_tools = plain_tools \<lparr>tl_sha := \<lambda>_. ''x''\<rparr>"

definition demo_transaction :: transaction where
  "demo_transaction = projr (new_transaction short_tools (partition_dir ''parquet'' Alerts ''1'') demo_sources demo_partition)"

definition compaction_tools :: tools where
  "compaction_tools = short_tools \<lparr>tl_json := \<lambda>_. Some (PDict (transaction_row demo_transaction))\<rparr>"

definition demo_compaction :: "tree \<Rightarrow> (exn + path option) \<times> tree list" where
  "demo_compaction = compact_partition compaction_tools demo_parquet (0, 0, 0) Alerts ''1'' 2"

definition byte_rows :: "bytes \<Rightarrow> (string \<Rightarrow> pyval) list" where
  "byte_rows = map (\<lambda>b. row_get [(''v'', PInt (uint b))])"

lemma demo_parquet_faithful: "parquet_faithful compaction_tools demo_parquet"
proof -
  have "pq_write demo_parquet schema (map (align_row [''v'']) (concat tables)) = concat files"
    if "map (pq_read demo_parquet) files = map Some tables" for schema files tables
    using that
    by (induction files arbitrary: tables) (auto simp: Cons_eq_map_conv demo_parquet_def align_row_def row_get_def o_def map_idI)
  moreover have "concat tables = map (\<lambda>b. [(''v'', PInt (uint b))]) (concat files)"
    if "map (pq_read demo_parquet) files = map Some tables" for files tables
    using that by (induction files arbitrary: tables) (auto simp: Cons_eq_map_conv demo_parquet_def)
  ultimately show ?thesis
    unfolding parquet_faithful_def
    by (auto simp: demo_parquet_def compaction_tools_def short_tools_def plain_tools_def align_row_def row_get_def list_all_iff split: if_splits)
qed

lemma demo_partition_files:
  "partition_parquet demo_partition (partition_dir ''parquet'' Alerts ''1'') = demo_sources"
  "map (map_option fo_bytes) (map (regular_at demo_partition) demo_sources) = [Some [1, 2], Some [3]]"
  "exists_at demo_partition (partition_dir ''parquet'' Alerts ''1'')" "children demo_partition (partition_dir ''spool'' Alerts ''1'') = []"
  "map_of demo_partition (compaction_marker (partition_dir ''parquet'' Alerts ''1'')) = None"
  "case new_transaction compaction_tools (partition_dir ''parquet'' Alerts ''1'') demo_sources demo_partition of Inr _ \<Rightarrow> True | Inl _ \<Rightarrow> False"
  "length (snd (demo_compaction demo_partition)) = 6"
  by code_simp+

lemma demo_compactable: "compactable compaction_tools demo_parquet Alerts ''1'' 2 demo_partition [byte_rows [1, 2], byte_rows [3]] demo_transaction"
proof -
  note files = demo_partition_files
  define a where "a = partition_dir ''parquet'' Alerts ''1'' @ [''a.parquet'']"
  define b where "b = partition_dir ''parquet'' Alerts ''1'' @ [''b.parquet'']"
  have ab: "demo_sources = [a, b]" by (simp add: demo_sources_def a_def b_def)
  obtain f g where fg: "regular_at demo_partition a = Some f" "fo_bytes f = [1, 2]" "regular_at demo_partition b = Some g" "fo_bytes g = [3]"
    using files(2) by (auto simp: ab)
  have "map (file_rows demo_parquet demo_partition) demo_sources = map Some [byte_rows [1, 2], byte_rows [3]]"
    by (simp add: ab file_rows_def fg demo_parquet_def byte_rows_def)
  moreover have "map_result (\<lambda>p. bind_result (file_bytes_at demo_partition p) (\<lambda>bs. to_result (pq_columns demo_parquet bs))) demo_sources =
      Inr [[''v''], [''v'']]"
    by (simp add: ab file_bytes_at_def fg demo_parquet_def to_result_def)
  moreover have "pq_unify demo_parquet [[''v''], [''v'']] \<noteq> None" by (simp add: demo_parquet_def)
  moreover have "new_transaction compaction_tools (partition_dir ''parquet'' Alerts ''1'') demo_sources demo_partition = Inr demo_transaction"
  proof -
    have "new_transaction compaction_tools d ps t = new_transaction short_tools d ps t" for d ps t
    proof -
      have "parquet_row_count compaction_tools = parquet_row_count short_tools" "tl_sha compaction_tools = tl_sha short_tools"
        by (intro ext) (simp_all add: parquet_row_count_def compaction_tools_def)
      then show ?thesis unfolding new_transaction_def by simp
    qed
    with files(6) show ?thesis by (simp add: demo_transaction_def split: sum.splits)
  qed
  ultimately show ?thesis
    using files(1,3,4,5) by (simp add: compactable_def Let_def compaction_tools_def) (simp add: demo_sources_def)
qed

text \<open>The second run, after a first one that has deleted one source\<close>

lemma compaction_exactly_once_witness:
  "\<exists>out ts. demo_compaction (snd (demo_compaction demo_partition) ! 3) = (Inr (Some out), ts) \<and>
     partition_parquet (last ts) (partition_dir ''parquet'' Alerts ''1'') = [out] \<and>
     file_rows demo_parquet (last ts) out = Some (byte_rows [1, 2, 3])"
proof -
  have "snd (demo_compaction demo_partition) ! 3 \<in> set (butlast (snd (demo_compaction demo_partition)))"
    using demo_partition_files(7) nth_butlast [of 3 "snd (demo_compaction demo_partition)"]
      nth_mem [of 3 "butlast (snd (demo_compaction demo_partition))"] by simp
  then have "snd (demo_compaction demo_partition) ! 3 \<in>
      set (butlast (snd (compact_partition compaction_tools demo_parquet (0, 0, 0) Alerts ''1'' 2 demo_partition)))"
    by (simp add: demo_compaction_def)
  note reached = interrupted.interrupt [OF interrupted.untouched this]
  define t where "t = snd (demo_compaction demo_partition) ! 3"
  obtain r ts where run: "demo_compaction t = (r, ts)" by (metis surj_pair)
  have rows: "concat [byte_rows [1, 2], byte_rows [3]] = byte_rows [1, 2, 3]" by (simp add: byte_rows_def)
  from compaction_exactly_once [OF demo_parquet_faithful demo_compactable reached [folded t_def] run [unfolded demo_compaction_def], unfolded rows] run
  show ?thesis unfolding t_def [symmetric] by blast
qed

end
