(* ===== verification/Maintenance_Safety.thy ===== *)
theory Maintenance_Safety
  imports Maintenance Compaction_Safety
begin

section \<open>What the ping promises, and what compaction leaves alone\<close>

subsection \<open>The ping\<close>

lemma last_ping_kept:
  "mw_last_ping (snd (maintain_static_gtfs tk cfg st ck download s)) = mw_last_ping s"
  "mw_last_ping (snd (maintain_compaction tk pq cfg st ck s)) = mw_last_ping s"
  "mw_last_ping (snd (maintain_local_manifests tk cfg env ck s)) = mw_last_ping s"
  "mw_last_ping (snd (maintain_backups tk hub cfg env bio pio ck s)) = mw_last_ping s"
  by (auto simp: maintain_static_gtfs_def maintain_compaction_def compact_pending_dates_def maintain_local_manifests_def
      maintain_backups_def Let_def split: sum.splits prod.splits)

lemma then_part_ping: "(\<And>s. mw_last_ping (snd (k s)) = mw_last_ping s) \<Longrightarrow> mw_last_ping (snd (then_part r k)) = mw_last_ping (snd r)"
  by (auto simp: then_part_def split: prod.splits option.splits)

text \<open>
  The documented order of \<^verbatim>\<open>strptime\<close> with \<^verbatim>\<open>%Y-%m-%d\<close> on dates with all their digits: of two texts of
  four, two and two digits the later text is the later day. Nothing is said of the other texts that it reads, like
  \<^verbatim>\<open>2026-1-5\<close>, whose order as texts is not that of their days.
\<close>

definition days_ordered :: "tools \<Rightarrow> bool" where
  "days_ordered tk \<longleftrightarrow> (\<forall>d d' x y. date_shape d \<longrightarrow> date_shape d' \<longrightarrow> tl_day tk d = Some x \<longrightarrow> tl_day tk d' = Some y \<longrightarrow> d \<le> d' \<longrightarrow> x \<le> y)"

lemma pending_sorted:
  assumes "v2_pending_dates tk cfg ck t = Inr ds"
  shows "sorted ds" and "d \<in> set ds \<Longrightarrow> tl_day tk d \<noteq> None"
proof -
  from assms obtain es where es: "pending_dates tk (backup_config_of cfg) (ck_today ck) t = Inr es" "ds = [d \<leftarrow> es. v2_date t d]"
    by (auto simp: v2_pending_dates_def map_sum_Inr)
  from es(1) obtain handled where "es = [d \<leftarrow> discover_completed_dates tk (ck_today ck) t.
      d \<notin> set (confirmed_dates tk (backup_config_of cfg) t) \<and> d \<notin> set handled]"
    by (auto simp: pending_dates_def map_sum_Inr)
  moreover have "sorted (discover_completed_dates tk today t)" for today
    unfolding discover_completed_dates_def by (rule sorted_sort)
  moreover have "tl_day tk d \<noteq> None" if "d \<in> set (discover_completed_dates tk today t)" for d today
    using that unfolding discover_completed_dates_def by auto
  ultimately show "sorted ds" and "d \<in> set ds \<Longrightarrow> tl_day tk d \<noteq> None"
    unfolding es(2) by (auto intro: sorted_filter [where f = id, simplified])
qed

lemma backlog_fresh:
  assumes "backlog_stale tk cfg ds now = Inr False" and "ds = d0 # rest"
  shows "\<exists>day. tl_day tk d0 = Some day \<and> now - day \<le> num_val (backup_stale_hours cfg) * 3600"
  using assms by (auto simp: backlog_stale_def split: option.splits)

lemma backlog_all_fresh:
  assumes "days_ordered tk" and "v2_pending_dates tk cfg ck t = Inr ds" and "backlog_stale tk cfg ds now = Inr False"
    and "list_all date_shape ds" and "d \<in> set ds"
  shows "\<exists>day. tl_day tk d = Some day \<and> now - day \<le> num_val (backup_stale_hours cfg) * 3600"
proof -
  obtain d0 rest where ds: "ds = d0 # rest" using assms(5) by (cases ds) auto
  from backlog_fresh [OF assms(3) ds] obtain x where x: "tl_day tk d0 = Some x" "now - x \<le> num_val (backup_stale_hours cfg) * 3600"
    by blast
  from pending_sorted(2) [OF assms(2,5)] obtain y where y: "tl_day tk d = Some y" by blast
  from pending_sorted(1) [OF assms(2)] assms(5) ds have "d0 \<le> d" by auto
  moreover have "date_shape d0" "date_shape d" using assms(4,5) ds by (auto simp: list_all_iff)
  ultimately have "x \<le> y" using assms(1) x(1) y unfolding days_ordered_def by blast
  with x(2) y show ?thesis by auto
qed

lemma healthy_status:
  assumes "maintenance_status tk cfg ck s = Inr status" and "truthy (row_get status ''healthy'')"
  obtains state success pending where "read_json tk (mw_tree s) gtfs_state_path (PDict []) = PDict state"
    and "state_time state ''last_success_timestamp'' = Some success" and "\<not> static_stale cfg success (ck_now ck)"
    and "(if offsite cfg then v2_pending_dates tk cfg ck (mw_tree s) else Inr []) = Inr pending"
    and "backlog_stale tk cfg pending (ck_now ck) = Inr False" and "mw_errors s = []"
proof -
  from assms(1) obtain state success pending stale where
    s: "read_json tk (mw_tree s) gtfs_state_path (PDict []) = PDict state" "number_or state ''last_success_timestamp'' = Inr success"
      "(if offsite cfg then v2_pending_dates tk cfg ck (mw_tree s) else Inr []) = Inr pending"
      "backlog_stale tk cfg pending (ck_now ck) = Inr stale"
      "row_get status ''healthy'' = PBool (status_reasons (static_stale cfg success (ck_now ck)) stale (mw_errors s) = [])"
    unfolding maintenance_status_def Let_def
    by (auto simp: bind_result_iff row_get_def split: pyval.splits)
  from s(5) assms(2) have "\<not> static_stale cfg success (ck_now ck)" "\<not> stale" "mw_errors s = []"
    by (auto simp: status_reasons_def split: if_splits)
  with s that show thesis by (auto simp: number_or_def split: option.splits)
qed

text \<open>
  Claim C14. The ping of the external monitor is sent only when everything it stands for holds: the off-site backup is on, the
  pass compacted without an error, the static GTFS was checked within its bound, the first of the journalled dates that wait for
  their backup does not wait longer than allowed, the collector's own status is healthy and at most three minutes old, and the
  last ping is an interval ago. When the waiting dates are written with all their digits, as the collector names its directories,
  none of them waits longer than allowed; assumed is only that \<^verbatim>\<open>strptime\<close> orders such dates like their texts.
\<close>

theorem ping_means_protected:
  assumes "maintenance_cycle tk pq hub cfg io s = (Inr True, s')" and "days_ordered tk"
  shows "offsite cfg \<and> mw_errors s' = [] \<and> ck_mono (cy_clock io 5) - mw_last_ping s \<ge> num_val (healthcheck_ping_interval_seconds cfg) \<and>
    (\<exists>t status. mw_tree s' = write_json tk (cy_stamp io) maintenance_status_path status t \<and>
      (\<exists>success. state_time (gtfs_state tk t) ''last_success_timestamp'' = Some success \<and> success \<noteq> 0 \<and>
         ck_now (cy_clock io 4) - success \<le> max (2 * num_val (static_check_interval_seconds cfg)) 172800) \<and>
      (\<exists>pending. v2_pending_dates tk cfg (cy_clock io 4) t = Inr pending \<and>
         (pending \<noteq> [] \<longrightarrow>
           (\<exists>day. tl_day tk (hd pending) = Some day \<and> ck_now (cy_clock io 4) - day \<le> num_val (backup_stale_hours cfg) * 3600)) \<and>
         (list_all date_shape pending \<longrightarrow>
           (\<forall>d \<in> set pending. \<exists>day. tl_day tk d = Some day \<and> ck_now (cy_clock io 4) - day \<le> num_val (backup_stale_hours cfg) * 3600)))) \<and>
    (\<exists>r updated. read_json tk (mw_tree s') [''health'', ''status.json''] (PDict []) = PDict r \<and> truthy (row_get r ''healthy'') \<and>
       state_time r ''updated_timestamp'' = Some updated \<and> ck_now (cy_clock io 5) - updated \<le> 180)"
proof -
  define parts where "parts = then_part (then_part (then_part (maintain_static_gtfs tk cfg (cy_stamp io) (cy_clock io 0) (cy_download io) s)
              (maintain_compaction tk pq cfg (cy_stamp io) (cy_clock io 1)))
            (maintain_local_manifests tk cfg (cy_env io) (cy_clock io 2)))
          (maintain_backups tk hub cfg (cy_env io) (cy_backup io) (cy_prune io) (cy_clock io 3))"
  have ping: "mw_last_ping (snd parts) = mw_last_ping s"
    unfolding parts_def by (simp add: then_part_ping last_ping_kept)
  from assms(1) obtain s1 status s2 where s1: "parts = (None, s1)" and
    s2: "write_maintenance_status tk cfg (cy_stamp io) (cy_clock io 4) s1 = (Inr status, s2)" and
    pinged: "maybe_ping tk cfg (cy_clock io 5) (cy_delivered io) status s2 = (Inr True, s')"
    unfolding maintenance_cycle_def parts_def [symmetric] by (auto split: prod.splits option.splits sum.splits)
  from s2 have st: "maintenance_status tk cfg (cy_clock io 4) s1 = Inr status"
      "s2 = s1\<lparr>mw_tree := write_json tk (cy_stamp io) maintenance_status_path status (mw_tree s1)\<rparr>"
    by (auto simp: write_maintenance_status_def split: sum.splits)
  from pinged have p: "offsite cfg" "\<not> ck_mono (cy_clock io 5) - mw_last_ping s2 < num_val (healthcheck_ping_interval_seconds cfg)"
      "collector_fresh tk (cy_clock io 5) (mw_tree s2) = Inr True" "truthy (row_get status ''healthy'')"
      "s' = s2\<lparr>mw_last_ping := ck_mono (cy_clock io 5)\<rparr>"
    by (auto simp: maybe_ping_def split: if_splits sum.splits)
  from healthy_status [OF st(1) p(4)] p(1) obtain state success pending where h:
    "read_json tk (mw_tree s1) gtfs_state_path (PDict []) = PDict state" "state_time state ''last_success_timestamp'' = Some success"
    "\<not> static_stale cfg success (ck_now (cy_clock io 4))" "v2_pending_dates tk cfg (cy_clock io 4) (mw_tree s1) = Inr pending"
    "backlog_stale tk cfg pending (ck_now (cy_clock io 4)) = Inr False" "mw_errors s1 = []" by auto
  from h(1) have state: "gtfs_state tk (mw_tree s1) = state" by (simp add: gtfs_state_def read_object_def)
  from p(3) obtain r updated where r: "read_json tk (mw_tree s2) [''health'', ''status.json''] (PDict []) = PDict r"
      "truthy (row_get r ''healthy'')" "state_time r ''updated_timestamp'' = Some updated" "ck_now (cy_clock io 5) - updated \<le> 180"
    by (auto simp: collector_fresh_def number_or_def split: pyval.splits option.splits)
  have "mw_tree s' = write_json tk (cy_stamp io) maintenance_status_path status (mw_tree s1)" "mw_errors s' = []" "mw_last_ping s2 = mw_last_ping s"
    using p(5) st(2) h(6) ping s1 by simp_all
  moreover have "success \<noteq> 0 \<and> ck_now (cy_clock io 4) - success \<le> max (2 * num_val (static_check_interval_seconds cfg)) 172800"
    using h(3) unfolding static_stale_def by (metis linorder_not_less)
  moreover have "pending \<noteq> [] \<longrightarrow>
      (\<exists>day. tl_day tk (hd pending) = Some day \<and> ck_now (cy_clock io 4) - day \<le> num_val (backup_stale_hours cfg) * 3600)"
    using backlog_fresh [OF h(5)] by (cases pending) auto
  moreover note backlog_all_fresh [OF assms(2) h(4,5)]
  ultimately show ?thesis using p(1,2,5) h(2,4) r state by auto
qed

text \<open>Seconds of a date in a calendar with months of 31 days\<close>

definition two_digits :: "string \<Rightarrow> nat \<Rightarrow> int" where
  "two_digits d i = 10 * (of_char (d ! i) - 48) + (of_char (d ! Suc i) - 48)"

definition plain_day :: "string \<Rightarrow> seconds option" where
  "plain_day d =
     (if date_shape d \<and> two_digits d 5 \<in> {1..12} \<and> two_digits d 8 \<in> {1..31}
      then Some (of_int (86400 * (372 * (100 * two_digits d 0 + two_digits d 2) + 31 * (two_digits d 5 - 1) + (two_digits d 8 - 1))))
      else None)"

definition status_tools :: tools where
  "status_tools = plain_tools \<lparr>tl_day := plain_day, tl_json := \<lambda>bs.
     if bs = [1] then Some (PDict [(''last_success_timestamp'', PInt 65117260800)])
     else if bs = [2] then Some (PDict [(''healthy'', PBool True), (''updated_timestamp'', PInt 65117347000)]) else None\<rparr>"

lemma text_order:
  fixes xs ys :: string
  shows "length xs = length ys \<Longrightarrow> xs \<le> ys \<Longrightarrow> xs = ys \<or> (\<exists>k < length xs. take k xs = take k ys \<and> xs ! k < ys ! k)"
proof (induction xs ys rule: list_induct2)
  case (Cons x xs y ys)
  show ?case
  proof (cases "x = y")
    case True
    with Cons.prems have "xs \<le> ys" by simp
    from Cons.IH [OF this] show ?thesis
    proof
      assume "\<exists>k < length xs. take k xs = take k ys \<and> xs ! k < ys ! k"
      then obtain k where "k < length xs" "take k xs = take k ys" "xs ! k < ys ! k" by blast
      with True show ?thesis by (intro disjI2 exI [of _ "Suc k"]) simp
    qed (simp add: True)
  next
    case False
    with Cons.prems have "x < y" by auto
    then show ?thesis by (intro disjI2 exI [of _ 0]) simp
  qed
qed simp

lemma shape_digits:
  assumes "date_shape d" and "i \<in> {0, 1, 2, 3, 5, 6, 8, 9}"
  shows "48 \<le> (of_char (d ! i) :: int) \<and> (of_char (d ! i) :: int) \<le> 57"
proof -
  let ?ds = "take 4 d @ take 2 (drop 5 d) @ drop 8 d"
  have len: "length d = 10" and ds: "list_all ascii_digit ?ds" using assms(1) by (simp_all add: date_shape_def)
  define j where "j = (if i \<le> 3 then i else if i \<le> 6 then i - 1 else i - 2)"
  have "j < length ?ds \<and> ?ds ! j = d ! i" using assms(2) by (elim insertE emptyE) (simp_all add: j_def len nth_append)
  with ds have "ascii_digit (d ! i)" unfolding list_all_length by metis
  then have "48 \<le> (of_char (d ! i) :: nat) \<and> (of_char (d ! i) :: nat) \<le> 57" by (simp add: less_eq_char_def)
  then show ?thesis by (metis of_nat_le_iff of_nat_numeral of_nat_of_char)
qed

lemma plain_days_ordered: "days_ordered status_tools"
  unfolding days_ordered_def
proof (intro allI impI)
  fix d e x y
  assume shapes: "date_shape d" "date_shape e" and days: "tl_day status_tools d = Some x" "tl_day status_tools e = Some y" and le: "d \<le> e"
  define v w where vw: "v = (\<lambda>i. of_char (d ! i) - (48 :: int))" "w = (\<lambda>i. of_char (e ! i) - (48 :: int))"
  have v: "0 \<le> v i \<and> v i \<le> 9 \<and> 0 \<le> w i \<and> w i \<le> 9" if "i \<in> {0, 1, 2, 3, 5, 6, 8, 9}" for i
    using shape_digits [OF shapes(1) that] shape_digits [OF shapes(2) that] by (simp add: vw)
  note bounds = v [of 0] v [of 1] v [of 2] v [of 3] v [of 5] v [of 6] v [of 8] v [of 9]
  have x: "x = of_int (86400 * (372 * (100 * (10 * v 0 + v 1) + (10 * v 2 + v 3)) + 31 * (10 * v 5 + v 6 - 1) + (10 * v 8 + v 9 - 1)))"
      "1 \<le> 10 * v 5 + v 6" "10 * v 5 + v 6 \<le> 12" "1 \<le> 10 * v 8 + v 9" "10 * v 8 + v 9 \<le> 31"
    using days(1) by (auto simp: status_tools_def plain_day_def two_digits_def vw split: if_splits)
  have y: "y = of_int (86400 * (372 * (100 * (10 * w 0 + w 1) + (10 * w 2 + w 3)) + 31 * (10 * w 5 + w 6 - 1) + (10 * w 8 + w 9 - 1)))"
      "1 \<le> 10 * w 5 + w 6" "10 * w 5 + w 6 \<le> 12" "1 \<le> 10 * w 8 + w 9" "10 * w 8 + w 9 \<le> 31"
    using days(2) by (auto simp: status_tools_def plain_day_def two_digits_def vw split: if_splits)
  have len: "length d = 10" "length e = 10" using shapes by (simp_all add: date_shape_def)
  with le text_order [of d e] consider "d = e" | k where "k < 10" "take k d = take k e" "d ! k < e ! k" by auto
  then show "x \<le> y"
  proof cases
    case 2
    have same: "v i = w i" if "i < k" for i
      using nth_take [OF that, of d] nth_take [OF that, of e] by (simp add: vw 2(2))
    have "(of_char (d ! k) :: nat) < of_char (e ! k)" using 2(3) by (simp add: less_char_def)
    then have less: "v k < w k" by (metis vw diff_strict_right_mono of_nat_less_iff of_nat_of_char)
    have "k \<noteq> 4" "k \<noteq> 7" using 2(3) shapes by (auto simp: date_shape_def)
    with 2(1) have "k = 0 \<or> k = 1 \<or> k = 2 \<or> k = 3 \<or> k = 5 \<or> k = 6 \<or> k = 8 \<or> k = 9" by presburger
    then consider "k = 0" | "k = 1" | "k = 2" | "k = 3" | "k = 5" | "k = 6" | "k = 8" | "k = 9" by blast
    then have "372 * (100 * (10 * v 0 + v 1) + (10 * v 2 + v 3)) + 31 * (10 * v 5 + v 6 - 1) + (10 * v 8 + v 9 - 1) \<le>
      372 * (100 * (10 * w 0 + w 1) + (10 * w 2 + w 3)) + 31 * (10 * w 5 + w 6 - 1) + (10 * w 8 + w 9 - 1)"
    proof cases
      case 1 with less bounds [simplified] x(2-5) y(2-5) show ?thesis by simp
    next
      case 2 with less same [of 0] bounds [simplified] x(2-5) y(2-5) show ?thesis by simp
    next
      case 3 with less same [of 0] same [of 1] bounds [simplified] x(2-5) y(2-5) show ?thesis by simp
    next
      case 4 with less same [of 0] same [of 1] same [of 2] bounds [simplified] x(2-5) y(2-5) show ?thesis by simp
    next
      case 5 with less same [of 0] same [of 1] same [of 2] same [of 3] bounds [simplified] x(2-5) y(2-5) show ?thesis by simp
    next
      case 6 with less same [of 0] same [of 1] same [of 2] same [of 3] same [of 5] x(2-5) y(2-5) show ?thesis by simp
    next
      case 7 with less same [of 0] same [of 1] same [of 2] same [of 3] same [of 5] same [of 6] bounds [simplified] show ?thesis by simp
    next
      case 8 with less same [of 0] same [of 1] same [of 2] same [of 3] same [of 5] same [of 6] same [of 8] show ?thesis by simp
    qed
    then show ?thesis unfolding x(1) y(1) by (simp add: of_int_le_iff del: of_int_mult of_int_add of_int_diff)
  qed (use days in simp)
qed

definition demo_maintenance_config :: maintenance_config where
  "demo_maintenance_config =
     \<lparr>mc_data_dir = [], hf_token = ''t'', hf_repo_id = ''r'', backup_hour_utc = 3, backup_retry_seconds = Fin 900,
      backup_max_dates_per_run = 7, backup_date_grace_minutes = 60, prune_local_raw_after_days = 3, prune_local_parquet_after_days = 7,
      static_check_interval_seconds = Fin 86400, static_retry_seconds = Fin 900, maintenance_interval_seconds = Fin 60,
      healthcheck_url = ''u'', healthcheck_ping_interval_seconds = Fin 300, compact_parquet = True, compaction_min_files = 12,
      backup_stale_hours = Fin 48\<rparr>"

definition demo_cycle_io :: cycle_io where
  "demo_cycle_io =
     \<lparr>cy_stamp = (0, 0, 0), cy_download = Inr [], cy_env = demo_env, cy_backup = demo_backup_io,
      cy_prune = (\<lambda>_. \<lparr>pr_io = (\<lambda>_. demo_backup_io), pr_fails = (\<lambda>_. None), pr_locked = False\<rparr>), cy_delivered = True,
      cy_clock = (\<lambda>_. \<lparr>ck_hour = 0, ck_minute = 0, ck_mono = 1000, ck_now = 65117347100, ck_day = 0, ck_today = ''2026-01-02''\<rparr>)\<rparr>"

definition demo_maintenance :: "unit maintenance" where
  "demo_maintenance = new_maintenance
     ([(gtfs_state_path, file_of (0, 0, 0) [1]), ([''health'', ''status.json''], file_of (0, 0, 0) [2]),
       ([''raw'', ''vehiclepositions'', ''date=2026-01-01''], Directory)] @
      [(poll_journal_path feed ''2026-01-01'', file_of (0, 0, 0) []). feed \<leftarrow> FEED_NAMES]) ()"

definition demo_cycle :: "(exn + bool) \<times> unit maintenance" where
  "demo_cycle = maintenance_cycle status_tools demo_parquet demo_hub demo_maintenance_config demo_cycle_io demo_maintenance"

lemma demo_cycle_pings: "fst demo_cycle = Inr True"
  by code_simp

lemma demo_cycle_pending: "v2_pending_dates status_tools demo_maintenance_config (cy_clock demo_cycle_io 4) (mw_tree demo_maintenance) = Inr [''2026-01-01'']"
  by code_simp

lemma ping_means_protected_witness:
  "fst demo_cycle = Inr True \<and> offsite demo_maintenance_config \<and>
   (\<exists>r. read_json status_tools (mw_tree (snd demo_cycle)) [''health'', ''status.json''] (PDict []) = PDict r \<and> truthy (row_get r ''healthy'')) \<and>
   (\<exists>pending day. v2_pending_dates status_tools demo_maintenance_config (cy_clock demo_cycle_io 4) (mw_tree demo_maintenance) = Inr pending \<and>
     date_shape (hd pending) \<and> tl_day status_tools (hd pending) = Some day \<and> day > 0)"
proof -
  have "demo_cycle = (Inr True, snd demo_cycle)" using demo_cycle_pings by (metis prod.collapse)
  moreover have "date_shape ''2026-01-01''" "map_option (\<lambda>day. day > 0) (tl_day status_tools ''2026-01-01'') = Some True" by code_simp+
  ultimately show ?thesis
    using ping_means_protected [of status_tools demo_parquet demo_hub demo_maintenance_config demo_cycle_io demo_maintenance "snd demo_cycle"]
      demo_cycle_pings plain_days_ordered demo_cycle_pending
    unfolding demo_cycle_def by auto
qed

subsection \<open>Compaction\<close>

text \<open>Every step of a compaction changes files of its own partition only.\<close>

lemma delete_steps_other:
  "u \<in> set (delete_steps ps t) \<Longrightarrow> q \<notin> set ps \<Longrightarrow> map_of u q = map_of t q"
  by (induction ps arbitrary: t) (auto simp: map_of_delete)

lemma finish_other:
  assumes "u \<in> set (finish_transaction dir ct t)" and "\<forall>p \<in> set (ct_sources ct). butlast p = dir" and "butlast q \<noteq> dir"
  shows "regular_at u q = regular_at t q"
proof -
  have "q \<noteq> compaction_marker dir" using assms(3) by (auto simp: compaction_marker_def)
  then have "q \<notin> set ([p \<leftarrow> ct_sources ct. p \<noteq> ct_output ct] @ [compaction_marker dir])" using assms(2,3) by auto
  with assms(1) show ?thesis unfolding finish_transaction_def by (intro regular_at_cong delete_steps_other)
qed

lemma write_output_other:
  assumes "write_output tk pq st dir ct t = (r, ts)" and "u \<in> set ts" and "\<forall>p \<in> set (ct_sources ct). butlast p = dir"
    and "butlast (ct_output ct) = dir" and "butlast q \<noteq> dir"
  shows "regular_at u q = regular_at t q"
proof -
  have "q \<noteq> ct_output ct" using assms(4,5) by auto
  then have w: "regular_at (write_file st (ct_output ct) bs t) q = regular_at t q" for bs by (rule write_file_regular)
  from assms(1,2) consider "u = t"
    | bs where "u = write_file st (ct_output ct) bs t"
    | bs where "u \<in> set (finish_transaction dir ct (write_file st (ct_output ct) bs t))"
    by (auto simp: write_output_def Let_def split: sum.splits if_splits)
  then show ?thesis
  proof cases
    case 3
    from finish_other [OF 3 assms(3,5)] w show ?thesis by simp
  qed (simp_all add: w)
qed

lemma read_transaction_paths:
  assumes "read_transaction dir v = Inr ct"
  shows "\<forall>p \<in> set (ct_sources ct). butlast p = dir" and "butlast (ct_output ct) = dir"
proof -
  from assms obtain names name rows where
    "ct = \<lparr>ct_sources = map (\<lambda>s. dir @ [s]) names, ct_output = dir @ [name], ct_rows = rows\<rparr>"
    unfolding read_transaction_def by (cases v) (auto simp: bind_result_iff map_sum_Inr)
  then show "\<forall>p \<in> set (ct_sources ct). butlast p = dir" and "butlast (ct_output ct) = dir" by auto
qed

lemma compact_partition_other:
  assumes "compact_partition tk pq st feed date n t = (r, ts)" and "u \<in> set ts" and "butlast q \<noteq> partition_dir ''parquet'' feed date"
  shows "regular_at u q = regular_at t q"
proof -
  let ?d = "partition_dir ''parquet'' feed date"
  let ?marker = "read_json tk t (compaction_marker ?d) (PDict [])"
  from assms(1,2) consider "u = t"
    | ct where "read_transaction ?d ?marker = Inr ct" "resume_transaction tk pq st ?d ct t = (r, ts)"
    | ct us where "new_transaction tk ?d (partition_parquet t ?d) t = Inr ct" "u \<in> set us"
      "write_output tk pq st ?d ct (write_json tk st (compaction_marker ?d) (transaction_row ct) t) = (r, us)"
    by (auto simp: compact_partition_def Let_def split: if_splits sum.splits prod.splits)
  then show ?thesis
  proof cases
    case 2
    note paths = read_transaction_paths [OF 2(1)]
    from 2(2) assms(2) consider "u = t" | "u \<in> set (finish_transaction ?d ct t)" | "write_output tk pq st ?d ct t = (r, ts)"
      by (auto simp: resume_transaction_def split: sum.splits bool.splits if_splits)
    then show ?thesis
    proof cases
      case 2
      from finish_other [OF this paths(1) assms(3)] show ?thesis .
    next
      case 3
      from write_output_other [OF this assms(2) paths assms(3)] show ?thesis .
    qed simp
  next
    case 3
    from 3(1) have "\<forall>p \<in> set (ct_sources ct). butlast p = ?d" "butlast (ct_output ct) = ?d"
      by (auto simp: new_transaction_def map_sum_Inr set_partition_parquet)
    from write_output_other [OF 3(3,2) this assms(3)]
    have "regular_at u q = regular_at (write_json tk st (compaction_marker ?d) (transaction_row ct) t) q" .
    also have "\<dots> = regular_at t q"
      using assms(3) unfolding write_json_def by (intro write_file_regular) (auto simp: compaction_marker_def)
    finally show ?thesis .
  qed simp
qed

lemma compact_partition_nonempty: "compact_partition tk pq st feed date n t = (r, ts) \<Longrightarrow> ts \<noteq> []"
  by (auto simp: compact_partition_def resume_transaction_def write_output_def Let_def split: if_splits sum.splits prod.splits bool.splits)

lemma compact_all_other:
  assumes "compact_all tk pq st n targets errors t = (errors', t')"
    and "\<forall>(d, f) \<in> set targets. butlast q \<noteq> partition_dir ''parquet'' f d"
  shows "regular_at t' q = regular_at t q"
  using assms
proof (induction tk pq st n targets errors t rule: compact_all.induct)
  case (2 tk pq st n date feed rest errors t)
  obtain r ts where run: "compact_partition tk pq st feed date n t = (r, ts)" by (metis surj_pair)
  have "last ts \<in> set ts" using compact_partition_nonempty [OF run] by simp
  from compact_partition_other [OF run this] "2.prems"(2) have "regular_at (last ts) q = regular_at t q" by auto
  with "2.IH" [OF run [symmetric]] "2.prems" run show ?case by auto
qed auto

text \<open>
  Claim C18. Compaction, which deletes its sources, changes no file outside the Parquet partitions of dates that wait for their
  backup and have the poll journals of all feeds: raw logs, manifests, receipts and the partitions of every older date are as
  they were.
\<close>

theorem compaction_spares_legacy:
  assumes "maintain_compaction tk pq cfg st ck s = (e, s')" and "regular_at (mw_tree s') q \<noteq> regular_at (mw_tree s) q"
  shows "\<exists>date feed ds n. q = partition_dir ''parquet'' feed date @ [n] \<and> v2_date (mw_tree s) date \<and>
    pending_dates tk (backup_config_of cfg) (ck_today ck) (mw_tree s) = Inr ds \<and> date \<in> set ds"
proof -
  from assms obtain ds errors t' where ds: "v2_pending_dates tk cfg ck (mw_tree s) = Inr ds" and
    t': "compact_all tk pq st (nat (compaction_min_files cfg)) [(d, f). d \<leftarrow> take (nat (backup_max_dates_per_run cfg)) ds, f \<leftarrow> FEED_NAMES] []
      (mw_tree s) = (errors, t')" and tree: "mw_tree s' = t'"
    by (auto simp: maintain_compaction_def compact_pending_dates_def split: if_splits sum.splits prod.splits)
  from compact_all_other [OF t', of q] assms(2) tree obtain d f where
    d: "d \<in> set (take (nat (backup_max_dates_per_run cfg)) ds)" "butlast q = partition_dir ''parquet'' f d" by auto
  from d(2) have "q \<noteq> []" by (auto simp: partition_dir_def)
  with d(2) have "q = partition_dir ''parquet'' f d @ [last q]" by (metis append_butlast_last_id)
  moreover from ds d(1) obtain es where "pending_dates tk (backup_config_of cfg) (ck_today ck) (mw_tree s) = Inr es"
      "d \<in> set es" "v2_date (mw_tree s) d"
    by (auto simp: v2_pending_dates_def map_sum_Inr dest!: in_set_takeD)
  ultimately show ?thesis by blast
qed

definition journalled_tree :: tree where
  "journalled_tree = demo_partition @ map (\<lambda>f. (poll_journal_path f ''1'', file_of (0, 0, 0) [])) FEED_NAMES"

definition demo_compaction_pass :: "exn option \<times> unit maintenance" where
  "demo_compaction_pass = maintain_compaction compaction_tools demo_parquet (demo_maintenance_config \<lparr>compaction_min_files := 2\<rparr>) (0, 0, 0)
     \<lparr>ck_hour = 4, ck_minute = 0, ck_mono = 1000, ck_now = 0, ck_day = 0, ck_today = ''2''\<rparr> (new_maintenance journalled_tree ())"

lemma compaction_spares_legacy_witness:
  "regular_at (mw_tree (snd demo_compaction_pass)) (hd demo_sources) = None \<and>
   (\<exists>date feed n. hd demo_sources = partition_dir ''parquet'' feed date @ [n] \<and> v2_date journalled_tree date)"
proof -
  have gone: "regular_at (mw_tree (snd demo_compaction_pass)) (hd demo_sources) = None" by code_simp
  have there: "regular_at journalled_tree (hd demo_sources) \<noteq> None" by code_simp
  obtain e s' where run: "demo_compaction_pass = (e, s')" by (metis surj_pair)
  have "regular_at (mw_tree s') (hd demo_sources) = None" using gone unfolding run by (simp only: snd_conv)
  with there have "regular_at (mw_tree s') (hd demo_sources) \<noteq> regular_at (mw_tree (new_maintenance journalled_tree ())) (hd demo_sources)"
    unfolding new_maintenance_def maintenance.select_convs by metis
  from compaction_spares_legacy [OF run [unfolded demo_compaction_pass_def] this] gone show ?thesis
    by (auto simp: new_maintenance_def)
qed

end
