(* ===== verification/Public_Reader.thy ===== *)
theory Public_Reader
  imports Manifest
begin

section \<open>What the public exporter reads (public_exporter/source.py)\<close>

text \<open>
  The exporter runs beside the collector on a read-only view of its files: the raw logs of the vehicle positions, the status
  files, the manifests and the static archives. \<open>latest_vehicle\<close> keeps a cursor into the newest raw log, so that a read looks
  only at the frames committed since the last one; \<open>catalog\<close> keeps the routes of one static archive. The checkpoint bounds
  every read.

  Paths are below the exporter's input directory. Decompression with a limit (\<open>bounded_gunzip\<close>) and the ZIP and CSV formats are
  parameters; the files are those of one moment for the time of a read, and the directories hold no links.
\<close>

definition MAX_FRAME_BYTES :: nat where
  "MAX_FRAME_BYTES = 2 * 1024 * 1024"

definition MAX_PROTOBUF_BYTES :: nat where
  "MAX_PROTOBUF_BYTES = 8 * 1024 * 1024"

type_synonym bounded_gunzip = "nat \<Rightarrow> gunzip"

fun gunzip_exn :: "gunzip_error \<Rightarrow> exn" where
  "gunzip_exn BadGzipFile = other_error ''BadGzipFile''"
| "gunzip_exn EOFError = other_error ''EOFError''"
| "gunzip_exn ZlibError = other_error ''zlib.error''"

subsection \<open>Metadata\<close>

text \<open>\<^verbatim>\<open>read_object(path, limit)\<close>\<close>

definition read_public_object :: "tools \<Rightarrow> nat \<Rightarrow> tree \<Rightarrow> path \<Rightarrow> exn + row" where
  "read_public_object tk limit t p =
     (case regular_at t p of
        None \<Rightarrow> Inl (other_error ''OSError'')
      | Some f \<Rightarrow>
          if limit < length (fo_bytes f) then Inl (value_error ''metadata exceeds size limit'')
          else (case tl_json tk (fo_bytes f) of
              None \<Rightarrow> Inl (value_error ''JSON'')
            | Some (PDict r) \<Rightarrow> Inr r
            | Some _ \<Rightarrow> Inl (value_error ''metadata is not an object'')))"

subsection \<open>The latest vehicle frame\<close>

record latest_vehicle =
  lv_identity :: "(path \<times> int \<times> int) option"
  lv_offset :: nat
  lv_latest :: "(f64 \<times> bytes) option"

definition new_reader :: latest_vehicle where
  "new_reader = \<lparr>lv_identity = None, lv_offset = 0, lv_latest = None\<rparr>"

text \<open>\<^verbatim>\<open>math.isfinite\<close> on the bits of a binary64: infinities and NaNs have an exponent of ones.\<close>

definition finite_bits :: "f64 \<Rightarrow> bool" where
  "finite_bits ts \<longleftrightarrow> take_bit 11 (drop_bit 52 ts) \<noteq> 2047"

text \<open>\<^verbatim>\<open>DATE.fullmatch(name)\<close>\<close>

definition date_of_dir :: "string \<Rightarrow> string option" where
  "date_of_dir n = (if starts_with n ''date='' \<and> date_shape (drop 5 n) then Some (drop 5 n) else None)"

definition vehicle_log :: "string \<Rightarrow> path" where
  "vehicle_log n = [''raw'', n, ''vehiclepositions.rawlog'']"

definition log_checkpoint :: "path \<Rightarrow> path" where
  "log_checkpoint p = butlast p @ [last p @ ''.checkpoint.json'']"

definition log_dirs :: "tree \<Rightarrow> string list" where
  "log_dirs t = remdups [p ! 1. p \<leftarrow> map fst t, length p = 3, p = vehicle_log (p ! 1), date_of_dir (p ! 1) \<noteq> None]"

definition candidate_dirs :: "tools \<Rightarrow> seconds \<Rightarrow> tree \<Rightarrow> exn + string list" where
  "candidate_dirs tk today t =
     map_sum id concat
       (map_result (\<lambda>n. case tl_day tk (drop 5 n) of
            None \<Rightarrow> Inl (value_error ''Invalid isoformat string'')
          | Some day \<Rightarrow> Inr (if day \<le> today then [n] else [])) (log_dirs t))"

definition committed_end :: "row \<Rightarrow> nat option" where
  "committed_end cp =
     (if row_get cp ''version'' \<notin> {PInt 1, PFloat 1, PBool True} then None
      else case row_get cp ''valid_bytes'' of PInt i \<Rightarrow> if i < 0 then None else Some (nat i) | _ \<Rightarrow> None)"

text \<open>The loop over the headers: \<open>pos\<close> is \<^verbatim>\<open>handle.tell()\<close>, the result the time, position and length of the last frame.\<close>

function frame_loop ::
  "bytes \<Rightarrow> nat \<Rightarrow> nat \<Rightarrow> (f64 \<times> nat \<times> nat) option \<Rightarrow> exn + (f64 \<times> nat \<times> nat) option" where
  "frame_loop bs end pos found =
     (if end \<le> pos then Inr found
      else let header = take header_size (drop pos bs) in
        if length header \<noteq> header_size then Inl (value_error ''checkpoint splits a header'')
        else let (ts, n) = unpack_header header in
          if \<not> finite_bits ts \<or> n = 0 \<or> MAX_FRAME_BYTES < n then Inl (value_error ''invalid vehicle frame'')
          else if end < pos + header_size + n then Inl (value_error ''checkpoint splits a frame'')
          else frame_loop bs end (pos + header_size + n) (Some (ts, pos + header_size, n)))"
  by pat_completeness auto
termination
  by (relation "measure (\<lambda>(bs, end, pos, found). end - pos)") (auto simp: header_size_def)

declare frame_loop.simps [simp del]

definition deliver_latest :: "latest_vehicle \<Rightarrow> (exn + f64 \<times> bytes) \<times> latest_vehicle" where
  "deliver_latest s =
     (case lv_latest s of None \<Rightarrow> (Inl (value_error ''no committed vehicle frame''), s) | Some r \<Rightarrow> (Inr r, s))"

text \<open>From the open file on: \<open>bs\<close> are its bytes, \<open>ident\<close> its path with its device and inode.\<close>

definition read_frames ::
  "bounded_gunzip \<Rightarrow> bytes \<Rightarrow> path \<times> int \<times> int \<Rightarrow> nat \<Rightarrow> latest_vehicle \<Rightarrow> (exn + f64 \<times> bytes) \<times> latest_vehicle" where
  "read_frames gz bs ident end s =
     (let s' = (if lv_identity s \<noteq> Some ident \<or> end < lv_offset s
                then \<lparr>lv_identity = Some ident, lv_offset = 0, lv_latest = None\<rparr> else s) in
      case frame_loop bs end (lv_offset s') None of
        Inl e \<Rightarrow> (Inl e, s')
      | Inr None \<Rightarrow> deliver_latest (s'\<lparr>lv_offset := end\<rparr>)
      | Inr (Some (ts, pos, n)) \<Rightarrow>
          let compressed = take n (drop pos bs) in
          if length compressed \<noteq> n then (Inl (value_error ''raw frame shortened during read''), s')
          else (case gz (MAX_PROTOBUF_BYTES + 1) compressed of
              Inl e \<Rightarrow> (Inl (gunzip_exn e), s')
            | Inr raw \<Rightarrow>
                if MAX_PROTOBUF_BYTES < length raw then (Inl (value_error ''vehicle protobuf exceeds size limit''), s')
                else deliver_latest (s'\<lparr>lv_latest := Some (ts, raw), lv_offset := end\<rparr>)))"

text \<open>\<^verbatim>\<open>LatestVehicleFrame.read(today)\<close>\<close>

definition read_latest ::
  "tools \<Rightarrow> bounded_gunzip \<Rightarrow> seconds \<Rightarrow> tree \<Rightarrow> latest_vehicle \<Rightarrow> (exn + f64 \<times> bytes) \<times> latest_vehicle" where
  "read_latest tk gz today t s =
     (case candidate_dirs tk today t of
        Inl e \<Rightarrow> (Inl e, s)
      | Inr [] \<Rightarrow> (Inl (other_error ''FileNotFoundError''), s)
      | Inr (d # ds) \<Rightarrow>
          (let p = vehicle_log (fold max ds d) in
           case read_public_object tk 4096 t (log_checkpoint p) of
             Inl e \<Rightarrow> (Inl e, s)
           | Inr cp \<Rightarrow>
               (case committed_end cp of
                  None \<Rightarrow> (Inl (value_error ''invalid raw checkpoint''), s)
                | Some end \<Rightarrow>
                    (case regular_at t p of
                       None \<Rightarrow> (Inl (other_error ''OSError''), s)
                     | Some f \<Rightarrow>
                         if length (fo_bytes f) < end then (Inl (value_error ''checkpoint exceeds raw file''), s)
                         else read_frames gz (fo_bytes f) (p, fo_id f) end s))))"

end
