(* ===== verification/Public_Catalog.thy ===== *)
theory Public_Catalog
  imports Public_Reader Backup
begin

section \<open>The exporter's route catalog (public_exporter/source.py)\<close>

text \<open>
  The routes of the current static archive, read from its \<^verbatim>\<open>routes.txt\<close> when the digest in the collector's state changes.
  \<open>zip_reader\<close> stands for the ZIP and CSV formats: the size and content of the member, and the rows of a table with the
  exception that ends it; \<open>zr_printable\<close> is \<^verbatim>\<open>str.isprintable\<close> of one character, which looks it up in the Unicode tables. A
  field that a short row leaves out is \<^verbatim>\<open>None\<close>, as \<^verbatim>\<open>csv.DictReader\<close> has it.

  The exporter's strings are given by the bytes of their UTF-8 text, the form they have in the archive, in the feed and in
  the published JSON. Where the source counts, cuts or tests characters, the model takes the text apart (\<open>utf8_chars\<close>).
\<close>

subsection \<open>The characters of a text\<close>

definition continuation :: "char \<Rightarrow> bool" where
  "continuation c \<longleftrightarrow> (of_char c :: nat) \<in> {128..191}"

function utf8_chars :: "string \<Rightarrow> string list" where
  "utf8_chars [] = []"
| "utf8_chars (c # s) = (c # takeWhile continuation s) # utf8_chars (dropWhile continuation s)"
  by pat_completeness auto
termination
  by (relation "measure length") (simp_all add: le_imp_less_Suc length_dropWhile_le)

definition utf8_char :: "string \<Rightarrow> bool" where
  "utf8_char g \<longleftrightarrow> g \<noteq> [] \<and> list_all continuation (tl g)"

lemma utf8_chars_text: "concat (utf8_chars s) = s"
  by (induction s rule: utf8_chars.induct) auto

lemma utf8_chars_shape: "list_all utf8_char (utf8_chars s)"
  by (induction s rule: utf8_chars.induct) (auto simp: utf8_char_def list_all_iff dest: set_takeWhileD)

lemma utf8_chars_start: "s = [] \<or> \<not> continuation (hd s) \<Longrightarrow> list_all (\<lambda>g. \<not> continuation (hd g)) (utf8_chars s)"
proof (induction s rule: utf8_chars.induct)
  case (2 c s)
  have "dropWhile continuation s = [] \<or> \<not> continuation (hd (dropWhile continuation s))"
    using hd_dropWhile [of continuation s] by blast
  with 2 show ?case by simp
qed simp

lemma utf8_chars_tail: "list_all (\<lambda>g. \<not> continuation (hd g)) (tl (utf8_chars s))"
proof (cases s)
  case (Cons c s')
  have "dropWhile continuation s' = [] \<or> \<not> continuation (hd (dropWhile continuation s'))"
    using hd_dropWhile [of continuation s'] by blast
  from utf8_chars_start [OF this] show ?thesis by (simp add: Cons)
qed simp

lemma utf8_chars_concat:
  "list_all utf8_char gs \<Longrightarrow> list_all (\<lambda>g. \<not> continuation (hd g)) (tl gs) \<Longrightarrow> utf8_chars (concat gs) = gs"
proof (induction gs)
  case (Cons g gs)
  from Cons.prems(1) obtain c cs where g: "g = c # cs" "list_all continuation cs" by (cases g) (auto simp: utf8_char_def)
  have rest: "takeWhile continuation (concat gs) = [] \<and> dropWhile continuation (concat gs) = concat gs"
  proof (cases gs)
    case (Cons h hs)
    with Cons.prems obtain d ds where "h = d # ds" "\<not> continuation d" by (cases h) (auto simp: utf8_char_def)
    with Cons show ?thesis by simp
  qed simp
  have "list_all (\<lambda>g. \<not> continuation (hd g)) (tl gs)" using Cons.prems(2) by (cases gs) simp_all
  with Cons.IH Cons.prems(1) g rest show ?case by (simp add: list_all_iff takeWhile_append2 dropWhile_append2)
qed simp

lemma tail_subset: "set (tl (filter P xs)) \<subseteq> set (tl xs)" "set (tl (take n xs)) \<subseteq> set (tl xs)"
proof -
  have "set (tl ys) \<subseteq> set ys" for ys :: "'a list" by (cases ys) auto
  from this [of "filter P (tl xs)"] show "set (tl (filter P xs)) \<subseteq> set (tl xs)"
    by (cases xs) auto
  show "set (tl (take n xs)) \<subseteq> set (tl xs)" by (metis drop_Suc drop_take drop0 set_take_subset tl_take)
qed

subsection \<open>Routes\<close>

definition MODE_COLORS :: "(string \<times> string) list" where
  "MODE_COLORS =
     [(''bus'', ''#2477b7''), (''tram'', ''#c58b12''), (''trolleybus'', ''#c64652''), (''metro'', ''#745fbb''),
      (''rail'', ''#338b70''), (''ferry'', ''#258b9b''), (''other'', ''#657489'')]"

definition mode_color :: "string \<Rightarrow> string" where
  "mode_color m = the (map_of MODE_COLORS m)"

definition mode_for :: "string \<Rightarrow> string" where
  "mode_for r =
     (if r \<in> {''0'', ''900''} then ''tram''
      else if r \<in> {''1'', ''400'', ''401'', ''402''} then ''metro''
      else if r \<in> {''11'', ''800''} then ''trolleybus''
      else if r = ''3'' \<or> starts_with r ''7'' then ''bus''
      else if r \<in> {''4'', ''1000''} then ''ferry''
      else if r = ''2'' \<or> starts_with r ''1'' then ''rail''
      else ''other'')"

record zip_reader =
  zr_routes :: "bytes \<Rightarrow> exn + nat \<times> bytes"
  zr_rows :: "bytes \<Rightarrow> row list \<times> exn option"
  zr_printable :: "string \<Rightarrow> bool"

definition label_text :: "zip_reader \<Rightarrow> pyval \<Rightarrow> string" where
  "label_text zr v = (case v of PStr s \<Rightarrow> concat (take 48 (filter (zr_printable zr) (utf8_chars s))) | _ \<Rightarrow> [])"

record route_style =
  ro_label :: string
  ro_mode :: string
  ro_color :: string

type_synonym routes = "(pyval \<times> route_style) list"

text \<open>\<^verbatim>\<open>re.fullmatch(r"[a-fA-F0-9]{6}", color)\<close> and \<^verbatim>\<open>color.lower()\<close>\<close>

definition hex_lower :: "string \<Rightarrow> string" where
  "hex_lower s = map (\<lambda>c. if CHR ''A'' \<le> c \<and> c \<le> CHR ''F'' then char_of (of_char c + 32 :: nat) else c) s"

definition color_text :: "string \<Rightarrow> bool" where
  "color_text s \<longleftrightarrow> length s = 6 \<and> list_all (\<lambda>c. hex_digit c \<or> CHR ''A'' \<le> c \<and> c \<le> CHR ''F'') s"

definition route_of :: "zip_reader \<Rightarrow> row \<Rightarrow> exn + route_style" where
  "route_of zr r =
     bind_result (case get_or r ''route_type'' (PStr []) of PStr s \<Rightarrow> Inr (mode_for s) | _ \<Rightarrow> Inl (other_error ''AttributeError'')) (\<lambda>m.
       case get_or r ''route_color'' (PStr []) of
         PStr c \<Rightarrow> Inr
           \<lparr>ro_label = (if label_text zr (row_get r ''route_short_name'') \<noteq> [] then label_text zr (row_get r ''route_short_name'')
                        else label_text zr (row_get r ''route_id'')),
            ro_mode = m, ro_color = (if color_text c then CHR ''#'' # hex_lower c else mode_color m)\<rparr>
       | _ \<Rightarrow> Inl (other_error ''TypeError''))"

fun add_routes :: "zip_reader \<Rightarrow> row list \<Rightarrow> exn option \<Rightarrow> routes \<Rightarrow> exn + routes" where
  "add_routes zr [] err routes = (case err of None \<Rightarrow> Inr routes | Some e \<Rightarrow> Inl e)"
| "add_routes zr (r # rs) err routes =
     (if 10000 \<le> length routes then Inl (value_error ''too many routes'')
      else bind_result (route_of zr r) (\<lambda>s. add_routes zr rs err (AList.update (get_or r ''route_id'' (PStr [])) s routes)))"

record catalog =
  ca_digest :: "string option"
  ca_routes :: routes

definition new_catalog :: catalog where
  "new_catalog = \<lparr>ca_digest = None, ca_routes = []\<rparr>"

definition static_path :: "string \<Rightarrow> path option" where
  "static_path v =
     (let parts = [p \<leftarrow> split_path v. p \<noteq> [] \<and> p \<noteq> ''.''] in
      if starts_with v ''/'' \<or> ''..'' \<in> set parts then None else Some (''static'' # parts))"

definition load_routes :: "tools \<Rightarrow> zip_reader \<Rightarrow> tree \<Rightarrow> string \<Rightarrow> string \<Rightarrow> exn + routes" where
  "load_routes tk zr t digest value =
     (case static_path value of
        None \<Rightarrow> Inl (value_error ''unsafe static catalog path'')
      | Some p \<Rightarrow>
          (case regular_at t p of
             None \<Rightarrow> Inl (other_error ''OSError'')
           | Some f \<Rightarrow>
               if tl_sha tk (fo_bytes f) \<noteq> digest then Inl (value_error ''static catalog checksum mismatch'')
               else bind_result (zr_routes zr (fo_bytes f)) (\<lambda>(n, member).
                 if 4 * 1024 * 1024 < n then Inl (value_error ''routes catalog exceeds size limit'')
                 else case zr_rows zr member of (rows, err) \<Rightarrow> add_routes zr rows err [])))"

text \<open>\<^verbatim>\<open>RouteCatalog.read()\<close>\<close>

definition read_catalog :: "tools \<Rightarrow> zip_reader \<Rightarrow> tree \<Rightarrow> catalog \<Rightarrow> (exn + routes) \<times> catalog" where
  "read_catalog tk zr t s =
     (case read_public_object tk 65536 t [''static'', ''state.json''] of
        Inl e \<Rightarrow> (Inl e, s)
      | Inr state \<Rightarrow>
          (case (row_get state ''latest_sha256'', row_get state ''latest_version_path'') of
             (PStr digest, PStr value) \<Rightarrow>
               if \<not> hex_text 64 digest then (Inl (value_error ''static catalog unavailable''), s)
               else if ca_digest s = Some digest then (Inr (ca_routes s), s)
               else (case load_routes tk zr t digest value of
                   Inl e \<Rightarrow> (Inl e, s)
                 | Inr routes \<Rightarrow> (Inr routes, s\<lparr>ca_digest := Some digest, ca_routes := routes\<rparr>))
           | _ \<Rightarrow> (Inl (value_error ''static catalog unavailable''), s)))"

subsection \<open>What a route looks like\<close>

definition style_ok :: "route_style \<Rightarrow> bool" where
  "style_ok s \<longleftrightarrow> length (utf8_chars (ro_label s)) \<le> 48 \<and> ro_mode s \<in> fst ` set MODE_COLORS \<and>
     (\<exists>c. ro_color s = CHR ''#'' # c \<and> hex_text 6 c)"

definition routes_ok :: "routes \<Rightarrow> bool" where
  "routes_ok rs \<longleftrightarrow> (\<forall>(k, s) \<in> set rs. style_ok s)"

lemma label_text_chars:
  "utf8_chars (label_text zr v) = (case v of PStr s \<Rightarrow> take 48 (filter (zr_printable zr) (utf8_chars s)) | _ \<Rightarrow> [])"
proof (cases v)
  case (PStr s)
  let ?gs = "take 48 (filter (zr_printable zr) (utf8_chars s))"
  have "list_all utf8_char ?gs" using utf8_chars_shape [of s] by (auto simp: list_all_iff dest: in_set_takeD)
  moreover have "list_all (\<lambda>g. \<not> continuation (hd g)) (tl ?gs)"
    using utf8_chars_tail [of s] tail_subset(1) [of "zr_printable zr" "utf8_chars s"] tail_subset(2) [of 48 "filter (zr_printable zr) (utf8_chars s)"]
    by (auto simp: list_all_iff)
  ultimately have "utf8_chars (concat ?gs) = ?gs" by (rule utf8_chars_concat)
  then show ?thesis by (simp add: label_text_def PStr)
qed (simp_all add: label_text_def)

lemma label_text_ok: "length (utf8_chars (label_text zr v)) \<le> 48"
  by (simp add: label_text_chars split: pyval.split)

lemma mode_for_known: "mode_for r \<in> fst ` set MODE_COLORS"
  by (simp add: mode_for_def MODE_COLORS_def)

lemma mode_color_hex: "m \<in> fst ` set MODE_COLORS \<Longrightarrow> \<exists>c. mode_color m = CHR ''#'' # c \<and> hex_text 6 c"
  by (auto simp: MODE_COLORS_def mode_color_def hex_text_def hex_digit_def)

lemma hex_lower_digit:
  assumes "CHR ''A'' \<le> c" and "c \<le> CHR ''F''"
  shows "hex_digit (char_of (of_char c + 32 :: nat))"
proof -
  have "65 \<le> (of_char c :: nat)" "(of_char c :: nat) \<le> 70"
    using assms by (simp_all add: less_eq_char_def)
  then show ?thesis by (simp add: hex_digit_def less_eq_char_def)
qed

lemma hex_lower_text: "color_text s \<Longrightarrow> hex_text 6 (hex_lower s)"
  by (auto simp: color_text_def hex_text_def hex_lower_def list_all_iff hex_lower_digit)

lemma route_of_ok: "route_of zr r = Inr s \<Longrightarrow> style_ok s"
  using label_text_ok mode_for_known mode_color_hex hex_lower_text
  by (auto simp: route_of_def style_ok_def split: pyval.splits if_splits)

lemma set_update_insert: "set (AList.update k v al) \<subseteq> insert (k, v) (set al)"
  by (induction al) auto

lemma add_routes_ok: "add_routes zr rs err routes = Inr out \<Longrightarrow> routes_ok routes \<Longrightarrow> routes_ok out"
proof (induction zr rs err routes rule: add_routes.induct)
  case (2 zr r rs err routes)
  then obtain s where s: "route_of zr r = Inr s" and more: "add_routes zr rs err (AList.update (get_or r ''route_id'' (PStr [])) s routes) = Inr out"
    by (cases "route_of zr r") (auto split: if_splits)
  have "routes_ok (AList.update (get_or r ''route_id'' (PStr [])) s routes)"
    using "2.prems"(2) route_of_ok [OF s] set_update_insert [of "get_or r ''route_id'' (PStr [])" s routes]
    unfolding routes_ok_def by auto
  with "2.IH" [OF _ more] "2.prems"(1) show ?case by (auto split: if_splits)
qed (auto split: option.splits)

lemma read_catalog_ok:
  assumes "read_catalog tk zr t s = (r, s')" and "routes_ok (ca_routes s)"
  shows "routes_ok (ca_routes s')" and "r = Inr routes \<Longrightarrow> routes_ok routes"
proof -
  have "load_routes tk zr t d v = Inr rs \<Longrightarrow> routes_ok rs" for d v rs
    by (cases "zr_routes zr (fo_bytes (the (regular_at t (the (static_path v)))))")
      (auto simp: load_routes_def routes_ok_def intro: add_routes_ok split: option.splits if_splits prod.splits
        dest!: add_routes_ok)
  with assms show "routes_ok (ca_routes s')" and "r = Inr routes \<Longrightarrow> routes_ok routes"
    by (auto simp: read_catalog_def split: sum.splits pyval.splits if_splits)
qed

end
