(* ===== verification/Public_Snapshot.thy ===== *)
theory Public_Snapshot
  imports Public_Catalog Gtfs_Parse
begin

section \<open>The public snapshot (public_exporter/snapshot.py, transport.py)\<close>

text \<open>
  A snapshot is a closed projection of what the collector keeps private: vehicles of the last committed response, states and
  issue codes of the feeds, counts of the completed days. \<open>exporter\<close> holds what the builder takes from elsewhere: the tools, the
  decompressor and the ZIP reader with the Unicode tables, \<open>ex_iso\<close> for the text of a time (\<open>None\<close> when \<^verbatim>\<open>datetime\<close> cannot represent it), \<open>ex_today\<close> for
  its UTC date, the seconds of a record header, the protobuf decoder and the hex digest of a text. Paths are below the input
  directory. The floats of JSON and protobuf are finite.
\<close>

record exporter =
  ex_tools :: tools
  ex_gunzip :: bounded_gunzip
  ex_zip :: zip_reader
  ex_renderer :: renderer
  ex_iso :: "seconds \<Rightarrow> string option"
  ex_today :: "seconds \<Rightarrow> string"
  ex_midnight :: "seconds \<Rightarrow> seconds"
  ex_seconds :: "f64 \<Rightarrow> seconds"
  ex_parse :: "bytes \<Rightarrow> exn + feed_message"
  ex_digest :: "string \<Rightarrow> string"

definition ISSUES :: "string list" where
  "ISSUES =
     [''absent'', ''http_failed'', ''poll_journal_failed'', ''protobuf_parse_failed'', ''source_timestamp_stale'',
      ''source_timestamp_frozen'', ''entity_timestamp_stale'', ''payload_frozen'', ''raw_archive_failed'',
      ''derived_spool_failed'', ''tripupdates_presence_failed'', ''change_tracker_failed'', ''request_stuck'',
      ''scheduler_overdue'', ''source_timestamp_unchanged_warning'', ''payload_unchanged_warning'',
      ''request_exceeds_cadence'', ''scheduler_missed_deadline'']"

subsection \<open>Values\<close>

text \<open>\<^verbatim>\<open>iso\<close>; \<^verbatim>\<open>math.isfinite\<close> raises for an integer that no float holds.\<close>

definition iso_of :: "exporter \<Rightarrow> pyval \<Rightarrow> exn + pyval" where
  "iso_of ex v =
     (case v of
        PInt i \<Rightarrow> if \<bar>of_int i\<bar> \<ge> binary64_limit then Inl (other_error ''OverflowError'') else Inr (opt_str (ex_iso ex (of_int i)))
      | PFloat q \<Rightarrow> Inr (opt_str (ex_iso ex q))
      | _ \<Rightarrow> Inr PNone)"

definition safe_iso :: "exporter \<Rightarrow> pyval \<Rightarrow> string option" where
  "safe_iso ex v =
     (case v of
        PStr s \<Rightarrow> (let u = replace_all ''Z'' ''+00:00'' s in
          if tl_zoned (ex_tools ex) u then Option.bind (tl_time (ex_tools ex) u) (ex_iso ex) else None)
      | _ \<Rightarrow> None)"

definition count_of :: "pyval \<Rightarrow> int option" where
  "count_of v = (case v of PInt i \<Rightarrow> if 0 \<le> i \<and> i \<le> 9000000000000000 then Some i else None | _ \<Rightarrow> None)"

definition count_or_zero :: "pyval \<Rightarrow> int" where
  "count_or_zero v = (case count_of v of Some i \<Rightarrow> i | None \<Rightarrow> 0)"

text \<open>\<^verbatim>\<open>v.get\<close> needs a dictionary.\<close>

definition as_dict :: "pyval \<Rightarrow> exn + row" where
  "as_dict v = (case v of PDict r \<Rightarrow> Inr r | _ \<Rightarrow> Inl (other_error ''AttributeError''))"

definition load_optional :: "tools \<Rightarrow> tree \<Rightarrow> path \<Rightarrow> row" where
  "load_optional tk t p = (case read_public_object tk (8 * 1024 * 1024) t p of Inl _ \<Rightarrow> [] | Inr r \<Rightarrow> r)"

text \<open>\<^verbatim>\<open>isinstance(stamp, (int, float)) and -30 <= now - stamp <= limit\<close>\<close>

definition is_current :: "seconds \<Rightarrow> seconds \<Rightarrow> pyval \<Rightarrow> exn + bool" where
  "is_current now limit v =
     (let near = (\<lambda>x. - 30 \<le> now - x \<and> now - x \<le> limit) in
      case v of
        PInt i \<Rightarrow> if \<bar>of_int i\<bar> \<ge> binary64_limit then Inl (other_error ''OverflowError'') else Inr (near (of_int i))
      | PFloat q \<Rightarrow> Inr (near q)
      | PBool b \<Rightarrow> Inr (near (if b then 1 else 0))
      | _ \<Rightarrow> Inr False)"

text \<open>\<^verbatim>\<open>set(v)\<close>, \<^verbatim>\<open>a + b\<close> as something to iterate over, and \<^verbatim>\<open>len(v)\<close>\<close>

definition hashable_items :: "pyval \<Rightarrow> exn + pyval list" where
  "hashable_items v =
     (case v of
        PList xs \<Rightarrow>
          if list_ex (\<lambda>x. case x of PList _ \<Rightarrow> True | PDict _ \<Rightarrow> True | _ \<Rightarrow> False) xs then Inl (other_error ''TypeError'') else Inr xs
      | PStr s \<Rightarrow> Inr (map PStr (utf8_chars s))
      | PDict d \<Rightarrow> Inr (map (PStr \<circ> fst) d)
      | _ \<Rightarrow> Inl (other_error ''TypeError''))"

definition joined_items :: "pyval \<Rightarrow> pyval \<Rightarrow> exn + pyval list" where
  "joined_items a b =
     (case (a, b) of
        (PList xs, PList ys) \<Rightarrow> Inr (xs @ ys)
      | (PStr s, PStr u) \<Rightarrow> Inr (map PStr (utf8_chars s @ utf8_chars u))
      | _ \<Rightarrow> Inl (other_error ''TypeError''))"

definition length_of :: "pyval \<Rightarrow> exn + nat" where
  "length_of v =
     (case v of PList xs \<Rightarrow> Inr (length xs) | PStr s \<Rightarrow> Inr (length (utf8_chars s)) | PDict d \<Rightarrow> Inr (length d) | _ \<Rightarrow> Inl (other_error ''TypeError''))"

subsection \<open>Health\<close>

definition FAILURE_CODES :: "(string \<times> string) list" where
  "FAILURE_CODES =
     [(''parse_ok'', ''protobuf_parse_failed''), (''raw_ok'', ''raw_archive_failed''), (''spool_ok'', ''derived_spool_failed''),
      (''presence_ok'', ''tripupdates_presence_failed''), (''change_tracking_ok'', ''change_tracker_failed''),
      (''poll_journal_ok'', ''poll_journal_failed'')]"

definition texts_in :: "pyval list \<Rightarrow> string list" where
  "texts_in vs = concat (map (\<lambda>v. case v of PStr s \<Rightarrow> [s] | _ \<Rightarrow> []) vs)"

definition reasons_for :: "string \<Rightarrow> pyval list \<Rightarrow> string list" where
  "reasons_for name items = [drop (length name + 1) s. s \<leftarrow> texts_in items, starts_with s (name @ '':'')]"

definition issue_codes :: "row \<Rightarrow> pyval list \<Rightarrow> string \<Rightarrow> pyval list \<Rightarrow> string list" where
  "issue_codes source flags name items =
     sort (remdups [c \<leftarrow> texts_in flags @ [code. (field, code) \<leftarrow> FAILURE_CODES, row_get source field = PBool False] @
                         reasons_for name items. c \<in> set ISSUES])"

definition degrading :: "string \<Rightarrow> bool" where
  "degrading code \<longleftrightarrow> \<not> ends_with code ''_warning'' \<and> code \<notin> {''request_exceeds_cadence'', ''scheduler_missed_deadline''}"

definition cadence_of :: "pyval \<Rightarrow> pyval" where
  "cadence_of v =
     (case v of PInt i \<Rightarrow> if 5 \<le> i \<and> i \<le> 3600 then v else PNone | PFloat q \<Rightarrow> if 5 \<le> q \<and> q \<le> 3600 then v else PNone | _ \<Rightarrow> PNone)"

definition opt_count :: "pyval \<Rightarrow> pyval" where
  "opt_count v = opt_int (count_of v)"

definition public_feed :: "exporter \<Rightarrow> row \<Rightarrow> bool \<Rightarrow> string \<Rightarrow> exn + string \<times> pyval" where
  "public_feed ex status current name =
     bind_result (as_dict (get_or status ''feeds'' (PDict []))) (\<lambda>feeds.
     bind_result (as_dict (get_or feeds name (PDict []))) (\<lambda>source.
     bind_result (hashable_items (get_or source ''freshness_flags'' (PList []))) (\<lambda>flags.
     bind_result (joined_items (get_or status ''reasons'' (PList [])) (get_or status ''warnings'' (PList []))) (\<lambda>items.
     bind_result (as_dict (get_or source ''scheduler'' (PDict []))) (\<lambda>sched.
     bind_result (iso_of ex (row_get source ''last_success_timestamp'')) (\<lambda>observed_at.
     bind_result (iso_of ex (row_get source ''header_timestamp'')) (\<lambda>source_at.
       let codes = issue_codes source flags name items in
       Inr (name, PDict
         [(''state'', PStr (if \<not> current \<or> source = [] then ''unknown'' else if list_ex degrading codes then ''degraded'' else ''healthy'')),
          (''observed_at'', observed_at), (''source_at'', source_at),
          (''cadence_seconds'', cadence_of (row_get sched ''interval_seconds'')),
          (''entities'', opt_count (row_get source ''entity_count'')), (''issues'', PList (map PStr codes))]))))))))"

definition state_of :: "bool \<Rightarrow> row \<Rightarrow> string" where
  "state_of current status =
     (if \<not> current then ''unknown'' else if row_get status ''healthy'' = PBool True then ''healthy'' else ''degraded'')"

definition public_health :: "exporter \<Rightarrow> seconds \<Rightarrow> tree \<Rightarrow> exn + pyval" where
  "public_health ex now t =
     (let status = load_optional (ex_tools ex) t [''health'', ''status.json''];
          maintenance = load_optional (ex_tools ex) t [''maintenance'', ''status.json''] in
      bind_result (is_current now 180 (row_get status ''updated_timestamp'')) (\<lambda>current.
      bind_result (map_result (public_feed ex status current) (map feed_name FEED_NAMES)) (\<lambda>feeds.
      bind_result (is_current now 300 (row_get maintenance ''updated_timestamp'')) (\<lambda>maintenance_current.
      bind_result (iso_of ex (row_get status ''updated_timestamp'')) (\<lambda>observed_at.
      map_sum id (\<lambda>pending.
        PDict [(''state'', PStr (state_of current status)), (''observed_at'', observed_at), (''feeds'', PDict feeds),
          (''maintenance'', PDict
             [(''state'', PStr (state_of maintenance_current maintenance)),
              (''archive_enabled'', PBool (row_get maintenance ''backup_enabled'' = PBool True)),
              (''pending_days'', PInt (int pending))])])
        (length_of (get_or maintenance ''pending_backup_dates'' (PList []))))))))"

subsection \<open>Statistics\<close>

definition valid_date :: "exporter \<Rightarrow> pyval \<Rightarrow> string option" where
  "valid_date ex v =
     (case v of PStr s \<Rightarrow> if date_shape s \<and> tl_day (ex_tools ex) s \<noteq> None then Some s else None | _ \<Rightarrow> None)"

record day_totals =
  dt_days :: nat
  dt_polls :: int
  dt_rows :: int
  dt_raw :: int
  dt_earliest :: "string option"
  dt_latest :: "(string \<times> pyval) option"

definition no_totals :: day_totals where
  "no_totals = \<lparr>dt_days = 0, dt_polls = 0, dt_rows = 0, dt_raw = 0, dt_earliest = None, dt_latest = None\<rparr>"

definition day_counts :: "row \<Rightarrow> pyval" where
  "day_counts source =
     PDict [(''expected_polls'', opt_count (row_get source ''expected_polls'')), (''recorded_polls'', opt_count (row_get source ''attempted_polls'')),
       (''data_polls'', opt_count (row_get source ''successful_data_polls''))]"

definition earlier :: "exporter \<Rightarrow> string option \<Rightarrow> row \<Rightarrow> string option" where
  "earlier ex best source =
     (case safe_iso ex (row_get source ''first_success_at'') of
        None \<Rightarrow> best
      | Some s \<Rightarrow> if s \<noteq> [] \<and> (case best of None \<Rightarrow> True | Some b \<Rightarrow> s < b) then Some s else best)"

definition add_day :: "exporter \<Rightarrow> row \<Rightarrow> string \<Rightarrow> row list \<Rightarrow> day_totals \<Rightarrow> day_totals" where
  "add_day ex manifest date sources a =
     \<lparr>dt_days = dt_days a + 1,
      dt_polls = dt_polls a + sum_list (map (\<lambda>s. count_or_zero (row_get s ''attempted_polls'')) sources),
      dt_rows = dt_rows a + sum_list (map (\<lambda>s. count_or_zero (row_get s ''parquet_rows'')) sources),
      dt_raw = dt_raw a + sum_list (map (\<lambda>s. count_or_zero (row_get s ''raw_snapshots'')) sources),
      dt_earliest = foldl (earlier ex) (dt_earliest a) sources,
      dt_latest =
        (if (case dt_latest a of None \<Rightarrow> True | Some (d, _) \<Rightarrow> d < date)
         then Some (date, PDict
           [(''date'', PStr date), (''quality'', PStr (if row_get manifest ''quality_ok'' = PBool True then ''good'' else ''flagged'')),
            (''feeds'', PDict (zip (map feed_name FEED_NAMES) (map day_counts sources)))])
         else dt_latest a)\<rparr>"

text \<open>One manifest; \<^verbatim>\<open>manifest.get("feeds", {})\<close> is consulted only for a valid date before today.\<close>

definition add_manifest :: "exporter \<Rightarrow> string \<Rightarrow> row \<Rightarrow> day_totals \<Rightarrow> exn + day_totals" where
  "add_manifest ex today manifest a =
     (case valid_date ex (row_get manifest ''date'') of
        None \<Rightarrow> Inr a
      | Some date \<Rightarrow>
          if \<not> date < today then Inr a
          else bind_result (as_dict (get_or manifest ''feeds'' (PDict []))) (\<lambda>feeds.
            map_sum id (\<lambda>sources.
              if list_ex (\<lambda>s. 0 < count_or_zero (row_get s ''attempted_polls'')) sources then add_day ex manifest date sources a else a)
            (map_result (\<lambda>n. as_dict (get_or feeds n (PDict []))) (map feed_name FEED_NAMES))))"

fun add_manifests :: "exporter \<Rightarrow> string \<Rightarrow> row list \<Rightarrow> day_totals \<Rightarrow> exn + day_totals" where
  "add_manifests ex today [] a = Inr a"
| "add_manifests ex today (m # ms) a = bind_result (add_manifest ex today m a) (add_manifests ex today ms)"

definition dated_json :: "string \<Rightarrow> bool" where
  "dated_json n \<longleftrightarrow> starts_with n ''date='' \<and> ends_with n ''.json'' \<and> 10 \<le> length n"

definition receipt_date :: "exporter \<Rightarrow> row \<Rightarrow> string option" where
  "receipt_date ex r =
     (if row_get r ''version'' \<in> {PInt 2, PFloat 2} \<and> row_get r ''remote_verified'' = PBool True
      then valid_date ex (row_get r ''date'') else None)"

definition verified_dates :: "exporter \<Rightarrow> string \<Rightarrow> tree \<Rightarrow> string list" where
  "verified_dates ex today t =
     List.map_filter (\<lambda>p. case receipt_date ex (load_optional (ex_tools ex) t p) of
         None \<Rightarrow> None
       | Some d \<Rightarrow> if last p = ''date='' @ d @ ''.json'' \<and> d < today then Some d else None)
       (glob t [''receipts''] dated_json)"

definition public_statistics :: "exporter \<Rightarrow> seconds \<Rightarrow> tree \<Rightarrow> exn + pyval" where
  "public_statistics ex now t =
     (let today = ex_today ex now; ds = verified_dates ex today t in
      map_sum id (\<lambda>a.
        PDict [(''as_of'', opt_str (ex_iso ex now)), (''evidenced_since'', opt_str (dt_earliest a)),
          (''evidenced_days'', PInt (int (dt_days a))), (''verified_days'', PInt (int (length ds))),
          (''last_verified_date'', case ds of [] \<Rightarrow> PNone | d # ds' \<Rightarrow> PStr (fold max ds' d)),
          (''polls_recorded'', PInt (dt_polls a)), (''event_rows'', PInt (dt_rows a)), (''raw_snapshots'', PInt (dt_raw a)),
          (''latest_day'', case dt_latest a of None \<Rightarrow> PNone | Some (_, v) \<Rightarrow> v)])
        (add_manifests ex today (map (load_optional (ex_tools ex) t) (glob t [''manifests''] dated_json)) no_totals))"

subsection \<open>Vehicles\<close>

definition coordinate :: "pyval \<Rightarrow> rat option" where
  "coordinate v = (case v of PFloat q \<Rightarrow> Some q | PInt i \<Rightarrow> Some (of_int i) | _ \<Rightarrow> None)"

definition plot_position :: "row \<Rightarrow> (rat \<times> rat) option" where
  "plot_position r =
     (if truthy (row_get r ''entity_is_deleted'') then None
      else case (coordinate (row_get r ''longitude''), coordinate (row_get r ''latitude'')) of
          (Some lon, Some lat) \<Rightarrow>
            if \<not> (- 180 \<le> lon \<and> lon \<le> 180) \<or> \<not> (- 90 \<le> lat \<and> lat \<le> 90) \<or> lon = 0 \<and> lat = 0 then None else Some (lon, lat)
        | _ \<Rightarrow> None)"

definition vehicle_identifier :: "exporter \<Rightarrow> row \<Rightarrow> string" where
  "vehicle_identifier ex r =
     take 20 (ex_digest ex (case py_or (row_get r ''vehicle_id'') (row_get r ''entity_id'') of PStr s \<Rightarrow> s | v \<Rightarrow> tl_str (ex_tools ex) v))"

definition style_for :: "zip_reader \<Rightarrow> routes \<Rightarrow> row \<Rightarrow> route_style" where
  "style_for zr routes r =
     (let i = label_text zr (row_get r ''route_id'') in
      case map_of routes (PStr i) of
        Some s \<Rightarrow> s
      | None \<Rightarrow> \<lparr>ro_label = (if i \<noteq> [] then i else ''Unassigned''), ro_mode = ''other'', ro_color = mode_color ''other''\<rparr>)"

definition bearing_of :: "pyval \<Rightarrow> pyval" where
  "bearing_of v = (case coordinate v of Some q \<Rightarrow> if 0 \<le> q \<and> q \<le> 360 then PFloat q else PNone | None \<Rightarrow> PNone)"

text \<open>A protobuf time is below \<open>2 ^ 64\<close>, so that \<^verbatim>\<open>iso\<close> does not raise for it.\<close>

definition iso_field :: "exporter \<Rightarrow> pyval \<Rightarrow> pyval" where
  "iso_field ex v = (case iso_of ex v of Inr x \<Rightarrow> x | Inl _ \<Rightarrow> PNone)"

definition feature :: "exporter \<Rightarrow> routes \<Rightarrow> row \<Rightarrow> rat \<times> rat \<Rightarrow> pyval" where
  "feature ex routes r pos =
     (let s = style_for (ex_zip ex) routes r in
      PDict [(''type'', PStr ''Feature''), (''id'', PStr (vehicle_identifier ex r)),
        (''geometry'', PDict [(''type'', PStr ''Point''), (''coordinates'', PList [PFloat (round6 (fst pos)), PFloat (round6 (snd pos))])]),
        (''properties'', PDict [(''route_label'', PStr (ro_label s)), (''mode'', PStr (ro_mode s)), (''color'', PStr (ro_color s)),
          (''bearing'', bearing_of (row_get r ''bearing'')), (''recorded_at'', iso_field ex (row_get r ''vehicle_timestamp''))])])"

fun features :: "exporter \<Rightarrow> routes \<Rightarrow> string list \<Rightarrow> row list \<Rightarrow> pyval list" where
  "features ex routes seen [] = []"
| "features ex routes seen (r # rs) =
     (case plot_position r of
        None \<Rightarrow> features ex routes seen rs
      | Some pos \<Rightarrow>
          let i = vehicle_identifier ex r in
          if i \<in> set seen \<or> 10000 \<le> length seen then features ex routes seen rs
          else feature ex routes r pos # features ex routes (i # seen) rs)"

definition vehicles_row :: "pyval \<Rightarrow> pyval \<Rightarrow> nat \<Rightarrow> nat \<Rightarrow> pyval list \<Rightarrow> pyval" where
  "vehicles_row observed_at source_at records omitted fs =
     PDict [(''type'', PStr ''FeatureCollection''), (''observed_at'', observed_at), (''source_at'', source_at),
       (''records_in_source'', PInt (int records)), (''omitted_records'', PInt (int omitted)), (''features'', PList fs)]"

text \<open>The body of the \<^verbatim>\<open>try\<close>: \<open>None\<close> for any exception.\<close>

definition vehicles_of :: "exporter \<Rightarrow> routes \<Rightarrow> exn + f64 \<times> bytes \<Rightarrow> pyval option" where
  "vehicles_of ex routes latest =
     (case latest of
        Inl _ \<Rightarrow> None
      | Inr (ts, payload) \<Rightarrow>
          (case ex_parse ex payload of
             Inl _ \<Rightarrow> None
           | Inr fm \<Rightarrow>
               if (case fm_incrementality fm of None \<Rightarrow> 0 | Some i \<Rightarrow> i) \<noteq> 0 then None
               else
                 let observed = ex_iso ex (ex_seconds ex ts);
                     rows = parse_vehicle_positions (ex_renderer ex) fm (str_context (case observed of None \<Rightarrow> [] | Some s \<Rightarrow> s));
                     fs = features ex routes [] rows
                 in Some (vehicles_row (opt_str observed) (iso_field ex (opt_unsigned (fm_timestamp fm))) (length rows) (length rows - length fs) fs)))"

subsection \<open>The builder\<close>

record builder =
  bu_raw :: latest_vehicle
  bu_catalog :: catalog
  bu_stats :: "pyval option"
  bu_stats_at :: seconds

definition new_builder :: builder where
  "new_builder = \<lparr>bu_raw = new_reader, bu_catalog = new_catalog, bu_stats = None, bu_stats_at = 0\<rparr>"

text \<open>\<^verbatim>\<open>except (OSError, ValueError, KeyError, TypeError)\<close>\<close>

definition catalog_caught :: "exn \<Rightarrow> bool" where
  "catalog_caught e \<longleftrightarrow> ex_class e \<in> {''OSError'', ''FileNotFoundError'', ''ValueError'', ''UnicodeDecodeError'', ''KeyError'', ''TypeError''}"

definition refresh_statistics :: "exporter \<Rightarrow> seconds \<Rightarrow> tree \<Rightarrow> builder \<Rightarrow> exn + pyval \<times> builder" where
  "refresh_statistics ex now t b =
     (case bu_stats b of
        Some v \<Rightarrow>
          if now - bu_stats_at b < 300 then Inr (v, b)
          else map_sum id (\<lambda>v. (v, b\<lparr>bu_stats := Some v, bu_stats_at := now\<rparr>)) (public_statistics ex now t)
      | None \<Rightarrow> map_sum id (\<lambda>v. (v, b\<lparr>bu_stats := Some v, bu_stats_at := now\<rparr>)) (public_statistics ex now t))"

definition build_snapshot :: "exporter \<Rightarrow> seconds \<Rightarrow> tree \<Rightarrow> builder \<Rightarrow> (exn + pyval) \<times> builder" where
  "build_snapshot ex now t b =
     (case read_catalog (ex_tools ex) (ex_zip ex) t (bu_catalog b) of
        (cr, catalog) \<Rightarrow>
          let b1 = b\<lparr>bu_catalog := catalog\<rparr> in
          if (case cr of Inl e \<Rightarrow> \<not> catalog_caught e | Inr _ \<Rightarrow> False) then (Inl (projl cr), b1)
          else
            let routes = (case cr of Inl _ \<Rightarrow> [] | Inr rs \<Rightarrow> rs);
                (latest, raw) = read_latest (ex_tools ex) (ex_gunzip ex) (ex_midnight ex now) t (bu_raw b1);
                b2 = b1\<lparr>bu_raw := raw\<rparr>;
                vehicles = vehicles_of ex routes latest;
                issues = (case cr of Inl _ \<Rightarrow> [''route_catalog_unavailable''] | Inr _ \<Rightarrow> []) @
                  (if vehicles = None then [''vehicle_snapshot_unavailable''] else [])
            in case refresh_statistics ex now t b2 of
                 Inl e \<Rightarrow> (Inl e, b2)
               | Inr (stats, b3) \<Rightarrow>
                   (map_sum id (\<lambda>health.
                      PDict [(''schema_version'', PInt 1), (''generated_at'', opt_str (ex_iso ex now)),
                        (''vehicles'', case vehicles of Some v \<Rightarrow> v | None \<Rightarrow> vehicles_row PNone PNone 0 0 []),
                        (''health'', health), (''statistics'', stats), (''public_layer_issues'', PList (map PStr issues))])
                      (public_health ex now t), b3))"

end
