(* ===== verification/Public_Contract.thy ===== *)
theory Public_Contract
  imports Public_Snapshot
begin

section \<open>The public contract (frontend/shared/snapshot.ts) and the compact publication (public_exporter/transport.py)\<close>

text \<open>
  The Worker that stores the snapshots accepts only values of a fixed shape. The functions of \<^verbatim>\<open>snapshot.ts\<close> are translated
  here as predicates on the JSON value; \<open>jt\<close> stands for JavaScript's \<^verbatim>\<open>Date\<close>: it parses the text and writes it back. The exporter sends every vehicle as a tuple of eight values (\<open>encode_publication\<close>), which
  the Worker expands again (\<open>decode_compact\<close>). The text of the JSON in between is not modelled.
\<close>

subsection \<open>Values\<close>

fun js_field :: "pyval \<Rightarrow> string \<Rightarrow> pyval" where
  "js_field (PDict d) k = row_get d k"
| "js_field _ k = PNone"

fun js_object :: "pyval \<Rightarrow> string list \<Rightarrow> bool" where
  "js_object (PDict d) keys = (length d = length keys \<and> list_all (\<lambda>k. map_of d k \<noteq> None) keys)"
| "js_object _ keys = False"

definition time_shape :: "string \<Rightarrow> bool" where
  "time_shape s \<longleftrightarrow> length s = 20 \<and> date_shape (take 10 s) \<and> s ! 10 = CHR ''T'' \<and> s ! 13 = CHR '':'' \<and> s ! 16 = CHR '':'' \<and>
     s ! 19 = CHR ''Z'' \<and> list_all ascii_digit (take 2 (drop 11 s) @ take 2 (drop 14 s) @ take 2 (drop 17 s))"

definition js_time :: "(string \<Rightarrow> bool) \<Rightarrow> string \<Rightarrow> bool" where
  "js_time jt s \<longleftrightarrow> time_shape s \<and> jt s"

fun js_timestamp :: "(string \<Rightarrow> bool) \<Rightarrow> bool \<Rightarrow> pyval \<Rightarrow> bool" where
  "js_timestamp jt nullable PNone = nullable"
| "js_timestamp jt nullable (PStr s) = js_time jt s"
| "js_timestamp jt nullable _ = False"

fun js_date :: "(string \<Rightarrow> bool) \<Rightarrow> pyval \<Rightarrow> bool" where
  "js_date jt (PStr s) = (date_shape s \<and> js_time jt (s @ ''T00:00:00Z''))"
| "js_date jt _ = False"

definition MAX_SAFE_INTEGER :: int where
  "MAX_SAFE_INTEGER = 2 ^ 53 - 1"

fun js_count :: "pyval \<Rightarrow> bool" where
  "js_count (PInt i) = (0 \<le> i \<and> i \<le> MAX_SAFE_INTEGER)"
| "js_count (PFloat q) = (of_int \<lfloor>q\<rfloor> = q \<and> 0 \<le> q \<and> q \<le> of_int MAX_SAFE_INTEGER)"
| "js_count _ = False"

definition nullable_count :: "pyval \<Rightarrow> bool" where
  "nullable_count v \<longleftrightarrow> v = PNone \<or> js_count v"

fun text_of_set :: "string list \<Rightarrow> pyval \<Rightarrow> bool" where
  "text_of_set ss (PStr s) = (s \<in> set ss)"
| "text_of_set ss _ = False"

definition js_state :: "pyval \<Rightarrow> bool" where
  "js_state = text_of_set [''healthy'', ''degraded'', ''unknown'']"

fun js_finite :: "rat \<Rightarrow> rat \<Rightarrow> pyval \<Rightarrow> bool" where
  "js_finite lo hi (PInt i) = (lo \<le> of_int i \<and> of_int i \<le> hi)"
| "js_finite lo hi (PFloat q) = (lo \<le> q \<and> q \<le> hi)"
| "js_finite lo hi _ = False"

fun js_list :: "pyval \<Rightarrow> pyval list option" where
  "js_list (PList xs) = Some xs"
| "js_list _ = None"

fun js_boolean :: "pyval \<Rightarrow> bool" where
  "js_boolean (PBool _) = True"
| "js_boolean _ = False"

definition MODES :: "string list" where
  "MODES = [''bus'', ''tram'', ''trolleybus'', ''metro'', ''rail'', ''ferry'', ''other'']"

fun js_identifier :: "pyval \<Rightarrow> bool" where
  "js_identifier (PStr s) = hex_text 20 s"
| "js_identifier _ = False"

fun js_color :: "pyval \<Rightarrow> bool" where
  "js_color (PStr s) = (s \<noteq> [] \<and> hd s = CHR ''#'' \<and> hex_text 6 (tl s))"
| "js_color _ = False"

text \<open>
  \<^verbatim>\<open>length\<close> of a JavaScript string counts its UTF-16 code units: two for a character beyond U+FFFF, whose UTF-8 text begins with
  a byte of 240 or more.
\<close>

definition utf16_length :: "string \<Rightarrow> nat" where
  "utf16_length s = sum_list (map (\<lambda>g. if 240 \<le> (of_char (hd g) :: nat) then 2 else 1) (utf8_chars s))"

fun js_label :: "pyval \<Rightarrow> bool" where
  "js_label (PStr s) = (utf16_length s \<le> 48)"
| "js_label _ = False"

subsection \<open>A snapshot\<close>

definition js_vehicle :: "(string \<Rightarrow> bool) \<Rightarrow> pyval \<Rightarrow> bool" where
  "js_vehicle jt v \<longleftrightarrow>
     js_object v [''type'', ''id'', ''geometry'', ''properties''] \<and> js_field v ''type'' = PStr ''Feature'' \<and>
     js_identifier (js_field v ''id'') \<and>
     (let point = js_field v ''geometry''; props = js_field v ''properties'' in
      js_object point [''type'', ''coordinates''] \<and> js_field point ''type'' = PStr ''Point'' \<and>
      (case js_list (js_field point ''coordinates'') of
         Some [lon, lat] \<Rightarrow> js_finite (- 180) 180 lon \<and> js_finite (- 90) 90 lat
       | _ \<Rightarrow> False) \<and>
      js_object props [''route_label'', ''mode'', ''color'', ''bearing'', ''recorded_at''] \<and>
      js_label (js_field props ''route_label'') \<and> text_of_set MODES (js_field props ''mode'') \<and> js_color (js_field props ''color'') \<and>
      (js_field props ''bearing'' = PNone \<or> js_finite 0 360 (js_field props ''bearing'')) \<and>
      js_timestamp jt True (js_field props ''recorded_at''))"

definition js_feed_health :: "(string \<Rightarrow> bool) \<Rightarrow> pyval \<Rightarrow> bool" where
  "js_feed_health jt v \<longleftrightarrow>
     js_object v [''state'', ''observed_at'', ''source_at'', ''cadence_seconds'', ''entities'', ''issues''] \<and>
     js_state (js_field v ''state'') \<and> js_timestamp jt True (js_field v ''observed_at'') \<and> js_timestamp jt True (js_field v ''source_at'') \<and>
     (js_field v ''cadence_seconds'' = PNone \<or> js_finite 5 3600 (js_field v ''cadence_seconds'')) \<and>
     nullable_count (js_field v ''entities'') \<and>
     (case js_list (js_field v ''issues'') of None \<Rightarrow> False | Some xs \<Rightarrow> length xs \<le> length ISSUES \<and> list_all (text_of_set ISSUES) xs)"

definition js_day_counts :: "pyval \<Rightarrow> bool" where
  "js_day_counts v \<longleftrightarrow>
     js_object v [''expected_polls'', ''recorded_polls'', ''data_polls''] \<and>
     nullable_count (js_field v ''expected_polls'') \<and> nullable_count (js_field v ''recorded_polls'') \<and> nullable_count (js_field v ''data_polls'')"

definition js_vehicles :: "(string \<Rightarrow> bool) \<Rightarrow> pyval \<Rightarrow> bool" where
  "js_vehicles jt v \<longleftrightarrow>
     js_object v [''type'', ''observed_at'', ''source_at'', ''records_in_source'', ''omitted_records'', ''features''] \<and>
     js_field v ''type'' = PStr ''FeatureCollection'' \<and> js_timestamp jt True (js_field v ''observed_at'') \<and>
     js_timestamp jt True (js_field v ''source_at'') \<and> js_count (js_field v ''records_in_source'') \<and> js_count (js_field v ''omitted_records'') \<and>
     (case js_list (js_field v ''features'') of
        None \<Rightarrow> False
      | Some fs \<Rightarrow> length fs \<le> 10000 \<and>
          (case (coordinate (js_field v ''omitted_records''), coordinate (js_field v ''records_in_source'')) of
             (Some a, Some b) \<Rightarrow> of_nat (length fs) + a = b | _ \<Rightarrow> False))"

definition js_health :: "(string \<Rightarrow> bool) \<Rightarrow> pyval \<Rightarrow> bool" where
  "js_health jt v \<longleftrightarrow>
     js_object v [''state'', ''observed_at'', ''feeds'', ''maintenance''] \<and> js_state (js_field v ''state'') \<and>
     js_timestamp jt True (js_field v ''observed_at'') \<and>
     js_object (js_field v ''feeds'') (map feed_name FEED_NAMES) \<and>
     list_all (\<lambda>n. js_feed_health jt (js_field (js_field v ''feeds'') n)) (map feed_name FEED_NAMES) \<and>
     (let m = js_field v ''maintenance'' in
      js_object m [''state'', ''archive_enabled'', ''pending_days''] \<and> js_state (js_field m ''state'') \<and>
      js_boolean (js_field m ''archive_enabled'') \<and> js_count (js_field m ''pending_days''))"

definition js_latest_day :: "(string \<Rightarrow> bool) \<Rightarrow> pyval \<Rightarrow> bool" where
  "js_latest_day jt v \<longleftrightarrow>
     js_object v [''date'', ''quality'', ''feeds''] \<and> js_date jt (js_field v ''date'') \<and>
     text_of_set [''good'', ''flagged''] (js_field v ''quality'') \<and>
     js_object (js_field v ''feeds'') (map feed_name FEED_NAMES) \<and>
     list_all (\<lambda>n. js_day_counts (js_field (js_field v ''feeds'') n)) (map feed_name FEED_NAMES)"

definition js_statistics :: "(string \<Rightarrow> bool) \<Rightarrow> pyval \<Rightarrow> bool" where
  "js_statistics jt v \<longleftrightarrow>
     js_object v [''as_of'', ''evidenced_since'', ''evidenced_days'', ''verified_days'', ''last_verified_date'',
       ''polls_recorded'', ''event_rows'', ''raw_snapshots'', ''latest_day''] \<and>
     js_timestamp jt False (js_field v ''as_of'') \<and> js_timestamp jt True (js_field v ''evidenced_since'') \<and>
     (js_field v ''last_verified_date'' = PNone \<or> js_date jt (js_field v ''last_verified_date'')) \<and>
     list_all (\<lambda>k. js_count (js_field v k)) [''evidenced_days'', ''verified_days'', ''polls_recorded'', ''event_rows'', ''raw_snapshots''] \<and>
     (js_field v ''latest_day'' = PNone \<or> js_latest_day jt (js_field v ''latest_day''))"

definition js_envelope :: "(string \<Rightarrow> bool) \<Rightarrow> pyval \<Rightarrow> bool" where
  "js_envelope jt v \<longleftrightarrow>
     js_object v [''schema_version'', ''generated_at'', ''vehicles'', ''health'', ''statistics'', ''public_layer_issues''] \<and>
     js_field v ''schema_version'' \<in> {PInt 1, PFloat 1} \<and> js_timestamp jt False (js_field v ''generated_at'') \<and>
     js_vehicles jt (js_field v ''vehicles'') \<and> js_health jt (js_field v ''health'') \<and> js_statistics jt (js_field v ''statistics'') \<and>
     (case js_list (js_field v ''public_layer_issues'') of
        None \<Rightarrow> False
      | Some xs \<Rightarrow> length xs \<le> 2 \<and> list_all (text_of_set [''route_catalog_unavailable'', ''vehicle_snapshot_unavailable'']) xs)"

fun js_features :: "(string \<Rightarrow> bool) \<Rightarrow> pyval list \<Rightarrow> pyval list \<Rightarrow> bool" where
  "js_features jt ids [] = True"
| "js_features jt ids (f # fs) =
     (if \<not> js_vehicle jt f \<or> js_field f ''id'' \<in> set ids then False else js_features jt (js_field f ''id'' # ids) fs)"

text \<open>\<^verbatim>\<open>isSnapshot\<close>\<close>

definition is_snapshot :: "(string \<Rightarrow> bool) \<Rightarrow> pyval \<Rightarrow> bool" where
  "is_snapshot jt v \<longleftrightarrow>
     js_envelope jt v \<and> (case js_list (js_field (js_field v ''vehicles'') ''features'') of None \<Rightarrow> False | Some fs \<Rightarrow> js_features jt [] fs)"

subsection \<open>The compact publication\<close>

text \<open>\<^verbatim>\<open>encode_publication\<close> before \<^verbatim>\<open>json.dumps\<close>\<close>

fun dict_item :: "pyval \<Rightarrow> string \<Rightarrow> exn + pyval" where
  "dict_item (PDict d) k = (case map_of d k of Some v \<Rightarrow> Inr v | None \<Rightarrow> Inl (other_error ''KeyError''))"
| "dict_item _ k = Inl (other_error ''TypeError'')"

fun key_set :: "pyval \<Rightarrow> string set" where
  "key_set (PDict d) = fst ` set d"
| "key_set _ = {}"

definition encode_feature :: "pyval \<Rightarrow> exn + pyval" where
  "encode_feature f =
     bind_result (dict_item f ''geometry'') (\<lambda>g.
     bind_result (dict_item f ''properties'') (\<lambda>p.
       if key_set f \<noteq> {''type'', ''id'', ''geometry'', ''properties''} \<or> js_field f ''type'' \<noteq> PStr ''Feature'' \<or>
          key_set g \<noteq> {''type'', ''coordinates''} \<or> js_field g ''type'' \<noteq> PStr ''Point'' \<or>
          key_set p \<noteq> {''route_label'', ''mode'', ''color'', ''bearing'', ''recorded_at''}
       then Inl (value_error ''unexpected public vehicle shape'')
       else case js_list (js_field g ''coordinates'') of
           Some [lon, lat] \<Rightarrow> Inr (PList [js_field f ''id'', lon, lat, js_field p ''route_label'', js_field p ''mode'', js_field p ''color'',
             js_field p ''bearing'', js_field p ''recorded_at''])
         | _ \<Rightarrow> Inl (value_error ''unexpected public vehicle shape'')))"

fun with_field :: "pyval \<Rightarrow> string \<Rightarrow> pyval \<Rightarrow> pyval" where
  "with_field (PDict d) k v = PDict (AList.update k v d)"
| "with_field x k v = x"

definition encode_publication :: "pyval \<Rightarrow> exn + pyval" where
  "encode_publication snap =
     bind_result (dict_item snap ''vehicles'') (\<lambda>vehicles.
     bind_result (dict_item vehicles ''features'') (\<lambda>v.
       case js_list v of
         None \<Rightarrow> Inl (other_error ''TypeError'')
       | Some fs \<Rightarrow> map_sum id (\<lambda>rows. with_field snap ''vehicles'' (with_field vehicles ''features'' (PList rows)))
           (map_result encode_feature fs)))"

definition vehicle_tuple :: "(string \<Rightarrow> bool) \<Rightarrow> pyval \<Rightarrow> bool" where
  "vehicle_tuple jt v =
     (case js_list v of
        Some [i, lon, lat, label, mode, color, bearing, recorded_at] \<Rightarrow>
          js_identifier i \<and> js_finite (- 180) 180 lon \<and> js_finite (- 90) 90 lat \<and> js_label label \<and> text_of_set MODES mode \<and>
          js_color color \<and> (bearing = PNone \<or> js_finite 0 360 bearing) \<and> js_timestamp jt True recorded_at
      | _ \<Rightarrow> False)"

definition expand_tuple :: "pyval \<Rightarrow> pyval" where
  "expand_tuple v =
     (case js_list v of
        Some [i, lon, lat, label, mode, color, bearing, recorded_at] \<Rightarrow>
          PDict [(''type'', PStr ''Feature''), (''id'', i),
            (''geometry'', PDict [(''type'', PStr ''Point''), (''coordinates'', PList [lon, lat])]),
            (''properties'', PDict [(''route_label'', label), (''mode'', mode), (''color'', color), (''bearing'', bearing),
              (''recorded_at'', recorded_at)])]
      | _ \<Rightarrow> PNone)"

fun expand_rows :: "(string \<Rightarrow> bool) \<Rightarrow> pyval list \<Rightarrow> pyval list \<Rightarrow> pyval list option" where
  "expand_rows jt ids [] = Some []"
| "expand_rows jt ids (r # rs) =
     (let i = js_field (expand_tuple r) ''id'' in
      if \<not> vehicle_tuple jt r \<or> i \<in> set ids then None
      else map_option (\<lambda>fs. expand_tuple r # fs) (expand_rows jt (i # ids) rs))"

text \<open>\<^verbatim>\<open>decodeCompactSnapshot\<close>\<close>

definition decode_compact :: "(string \<Rightarrow> bool) \<Rightarrow> pyval \<Rightarrow> pyval option" where
  "decode_compact jt v =
     (if \<not> js_envelope jt v then None
      else case js_list (js_field (js_field v ''vehicles'') ''features'') of
          None \<Rightarrow> None
        | Some rows \<Rightarrow> map_option (\<lambda>fs. with_field v ''vehicles'' (with_field (js_field v ''vehicles'') ''features'' (PList fs)))
            (expand_rows jt [] rows))"

end
