(* ===== verification/Public_Reader_Safety.thy ===== *)
theory Public_Reader_Safety
  imports Public_Reader
begin

section \<open>The exporter's cursor reads what a full scan would\<close>

text \<open>
  Between two reads the collector's files change. \<open>keeps_committed\<close> is what the exporter relies on: as long as a path names the
  same device and inode, the bytes below an earlier checkpoint stay. \<open>observed\<close> lists the states of the files, the current one
  first, with the cursor; a step changes the files or reads.
\<close>

definition public_frame :: "raw_frame \<Rightarrow> bool" where
  "public_frame r \<longleftrightarrow> finite_bits (fst r) \<and> snd r \<noteq> [] \<and> length (snd r) \<le> MAX_FRAME_BYTES"

lemma public_frame_ok: "public_frame r \<Longrightarrow> frame_ok r"
  by (simp add: public_frame_def frame_ok_def MAX_FRAME_BYTES_def MAX_COMPRESSED_RECORD_BYTES_def)

subsection \<open>The header loop\<close>

lemma frame_loop_end: "end \<le> pos \<Longrightarrow> frame_loop bs end pos found = Inr found"
  by (simp add: frame_loop.simps)

lemma frame_loop_frame:
  assumes "pos < end" and "drop pos bs = frame r @ rest" and "public_frame r" and "pos + length (frame r) \<le> end"
  shows "frame_loop bs end pos found =
    frame_loop bs end (pos + length (frame r)) (Some (fst r, pos + header_size, length (snd r)))"
proof -
  have "unpack_header (take header_size (drop pos bs)) = (fst r, length (snd r))"
    using unpack_header_frame [OF public_frame_ok [OF assms(3)]] assms(2) by simp
  moreover have "length (take header_size (drop pos bs)) = header_size"
    using assms(2) by (simp add: length_frame)
  ultimately show ?thesis
    using assms(1,3,4) frame_loop.simps [of bs "end" pos found]
    by (simp add: public_frame_def length_frame Let_def add.assoc)
qed

definition last_found :: "nat \<Rightarrow> raw_frame list \<Rightarrow> (f64 \<times> nat \<times> nat) option \<Rightarrow> (f64 \<times> nat \<times> nat) option" where
  "last_found c fs found =
     (if fs = [] then found else Some (fst (last fs), c - length (snd (last fs)), length (snd (last fs))))"

lemma frame_loop_frames:
  assumes "list_all public_frame fs" and "drop pos bs = concat (map frame fs) @ rest" and "pos + log_bytes fs \<le> end"
  shows "frame_loop bs end pos found = frame_loop bs end (pos + log_bytes fs) (last_found (pos + log_bytes fs) fs found)"
  using assms
proof (induction fs arbitrary: pos found)
  case Nil
  then show ?case by (simp add: last_found_def)
next
  case (Cons r fs)
  let ?p = "pos + length (frame r)"
  have "drop ?p bs = drop (length (frame r)) (drop pos bs)" by (simp add: add.commute)
  then have rest: "drop ?p bs = concat (map frame fs) @ rest" using Cons.prems(2) by simp
  have "pos < end" using Cons.prems(3) by (simp add: length_frame header_size_def)
  with Cons.prems have "frame_loop bs end pos found = frame_loop bs end ?p (Some (fst r, pos + header_size, length (snd r)))"
    by (intro frame_loop_frame) simp_all
  also have "\<dots> = frame_loop bs end (?p + log_bytes fs)
      (last_found (?p + log_bytes fs) fs (Some (fst r, pos + header_size, length (snd r))))"
    using Cons.prems rest by (intro Cons.IH) simp_all
  finally show ?case by (simp add: last_found_def length_frame add.assoc)
qed

lemma frame_loop_found:
  "frame_loop bs end pos found =
     map_sum id (\<lambda>r. case r of None \<Rightarrow> found | Some x \<Rightarrow> Some x) (frame_loop bs end pos None)"
proof (induction bs "end" pos found rule: frame_loop.induct)
  case (1 bs "end" pos found)
  show ?case
  proof (cases "end \<le> pos")
    case True
    then show ?thesis by (simp add: frame_loop_end)
  next
    case False
    obtain ts n where h: "unpack_header (take header_size (drop pos bs)) = (ts, n)" by fastforce
    let ?bad = "length (take header_size (drop pos bs)) \<noteq> header_size \<or> \<not> finite_bits ts \<or> n = 0 \<or>
      MAX_FRAME_BYTES < n \<or> end < pos + header_size + n"
    show ?thesis
    proof (cases ?bad)
      case True
      with False h frame_loop.simps [of bs "end" pos found] frame_loop.simps [of bs "end" pos None] show ?thesis
        by (auto simp: Let_def)
    next
      case ok: False
      let ?next = "pos + header_size + n"
      have step: "frame_loop bs end pos f = frame_loop bs end ?next (Some (ts, pos + header_size, n))" for f
        using False h ok frame_loop.simps [of bs "end" pos f] by (simp add: Let_def)
      have "frame_loop bs end ?next (Some (ts, pos + header_size, n)) =
        map_sum id (\<lambda>r. case r of None \<Rightarrow> Some (ts, pos + header_size, n) | Some x \<Rightarrow> Some x) (frame_loop bs end ?next None)"
        using ok False by (intro "1.IH" [OF _ refl _ h [symmetric] refl]) auto
      then show ?thesis
        unfolding step [of found] step [of None]
        by (cases "frame_loop bs end ?next None") (simp_all split: option.split)
    qed
  qed
qed

lemma frame_loop_sound:
  assumes "frame_loop bs end pos None = Inr res" and "pos \<le> end" and "end \<le> length bs"
  shows "\<exists>fs. list_all public_frame fs \<and> take end bs = take pos bs @ concat (map frame fs) \<and> res = last_found end fs None"
proof -
  have "frame_loop bs end pos found = Inr res \<Longrightarrow> pos \<le> end \<Longrightarrow> end \<le> length bs \<Longrightarrow>
    \<exists>fs. list_all public_frame fs \<and> take end bs = take pos bs @ concat (map frame fs) \<and> res = last_found end fs found"
    for found
  proof (induction bs "end" pos found rule: frame_loop.induct)
    case (1 bs "end" pos found)
    show ?case
    proof (cases "end \<le> pos")
      case True
      with 1 show ?thesis by (intro exI [of _ "[]"]) (simp add: frame_loop_end last_found_def)
    next
      case False
      obtain ts n where h: "unpack_header (take header_size (drop pos bs)) = (ts, n)" by fastforce
      let ?next = "pos + header_size + n"
      have ok: "length (take header_size (drop pos bs)) = header_size" "finite_bits ts" "n \<noteq> 0" "\<not> MAX_FRAME_BYTES < n" "\<not> end < ?next"
        and more: "frame_loop bs end ?next (Some (ts, pos + header_size, n)) = Inr res"
        using 1(2) False h frame_loop.simps [of bs "end" pos found] by (auto simp: Let_def split: if_splits)
      have "\<exists>fs. list_all public_frame fs \<and> take end bs = take ?next bs @ concat (map frame fs) \<and>
        res = last_found end fs (Some (ts, pos + header_size, n))"
        using ok False more 1(4) by (intro "1.IH" [OF _ refl _ h [symmetric] refl]) auto
      then obtain fs where fs: "list_all public_frame fs" "take end bs = take ?next bs @ concat (map frame fs)"
          "res = last_found end fs (Some (ts, pos + header_size, n))" by blast
      let ?p = "take n (drop header_size (drop pos bs))"
      have long: "header_size \<le> length (drop pos bs)" "n \<le> length (drop header_size (drop pos bs))"
        using ok(1,5) 1(4) by simp_all
      have "read_frame (drop pos bs) = Some ((ts, ?p), drop n (drop header_size (drop pos bs)))"
        using long ok(4) h by (simp add: read_frame_def MAX_FRAME_BYTES_def MAX_COMPRESSED_RECORD_BYTES_def)
      from read_frame_sound [OF this] have bs: "drop pos bs = frame (ts, ?p) @ drop n (drop header_size (drop pos bs))" by blast
      have len: "length ?p = n" using long(2) by simp
      have "take ?next bs = take pos bs @ take (header_size + n) (drop pos bs)"
        by (simp add: take_add add.assoc)
      also have "take (header_size + n) (drop pos bs) = frame (ts, ?p)"
        using arg_cong [OF bs, of "take (header_size + n)"] len by (simp add: length_frame)
      finally have "take end bs = take pos bs @ concat (map frame ((ts, ?p) # fs))" using fs(2) by simp
      moreover have "public_frame (ts, ?p)" using ok len by (auto simp: public_frame_def simp del: take_drop)
      moreover have "res = last_found end ((ts, ?p) # fs) found"
      proof (cases fs)
        case Nil
        then have "end = ?next" using arg_cong [OF fs(2), of length] 1(4) ok(5) by simp
        with Nil fs(3) len show ?thesis by (simp add: last_found_def)
      next
        case (Cons a list)
        with fs(3) show ?thesis by (simp add: last_found_def)
      qed
      ultimately show ?thesis using fs(1) by (intro exI [of _ "(ts, ?p) # fs"]) simp
    qed
  qed
  from this [of None] assms show ?thesis by blast
qed

subsection \<open>One read\<close>

definition decodes :: "bounded_gunzip \<Rightarrow> raw_frame \<Rightarrow> bytes \<Rightarrow> bool" where
  "decodes gz r raw \<longleftrightarrow> gz (MAX_PROTOBUF_BYTES + 1) (snd r) = Inr raw \<and> length raw \<le> MAX_PROTOBUF_BYTES"

text \<open>The cursor has scanned the bytes \<open>bs\<close>: they are frames, and the cached observation is the last of them.\<close>

definition scanned :: "bounded_gunzip \<Rightarrow> bytes \<Rightarrow> (f64 \<times> bytes) option \<Rightarrow> bool" where
  "scanned gz bs latest \<longleftrightarrow> (\<exists>fs. list_all public_frame fs \<and> bs = concat (map frame fs) \<and>
     (if fs = [] then latest = None else \<exists>raw. decodes gz (last fs) raw \<and> latest = Some (fst (last fs), raw)))"

lemma scanned_Nil [simp]: "scanned gz [] None"
  by (auto simp: scanned_def intro: exI [of _ "[]"])

text \<open>The last frame of the scanned bytes, found by a scan from the start.\<close>

definition decode_found :: "bounded_gunzip \<Rightarrow> bytes \<Rightarrow> (f64 \<times> nat \<times> nat) option \<Rightarrow> exn + f64 \<times> bytes" where
  "decode_found gz bs found =
     (case found of
        None \<Rightarrow> Inl (value_error ''no committed vehicle frame'')
      | Some (ts, pos, n) \<Rightarrow>
          if length (take n (drop pos bs)) \<noteq> n then Inl (value_error ''raw frame shortened during read'')
          else (case gz (MAX_PROTOBUF_BYTES + 1) (take n (drop pos bs)) of
              Inl e \<Rightarrow> Inl (gunzip_exn e)
            | Inr raw \<Rightarrow> if MAX_PROTOBUF_BYTES < length raw then Inl (value_error ''vehicle protobuf exceeds size limit'')
                         else Inr (ts, raw)))"

lemma last_found_bytes:
  assumes "take c bs = concat (map frame fs)" and "fs \<noteq> []" and "c \<le> length bs"
  shows "take (length (snd (last fs))) (drop (c - length (snd (last fs))) bs) = snd (last fs)"
proof -
  let ?r = "last fs" and ?n = "length (snd (last fs))"
  have "concat (map frame fs) = concat (map frame (butlast fs @ [?r]))" using assms(2) by simp
  then have "concat (map frame fs) = concat (map frame (butlast fs)) @ frame ?r"
    by (simp only: map_append concat_append list.map concat.simps append_Nil2)
  then have split: "take c bs = (concat (map frame (butlast fs)) @ be_bytes 8 (unat (fst ?r)) @ be_bytes 4 ?n) @ snd ?r"
    using assms(1) by (simp add: frame_def)
  then have "length (take c bs) = length (concat (map frame (butlast fs)) @ be_bytes 8 (unat (fst ?r)) @ be_bytes 4 ?n) + ?n"
    by (simp only: length_append)
  with assms(3) have c: "c - ?n = length (concat (map frame (butlast fs)) @ be_bytes 8 (unat (fst ?r)) @ be_bytes 4 ?n)"
    by simp
  have "take ?n (drop (c - ?n) bs) = drop (c - ?n) (take c bs)"
    using c assms(3) arg_cong [OF split, of length] by (simp add: drop_take)
  also have "\<dots> = snd ?r" unfolding c split by simp
  finally show ?thesis .
qed

lemma decode_last_found:
  assumes "take c bs = concat (map frame fs)" and "c \<le> length bs"
  shows "decode_found gz bs (last_found c fs None) = Inr (ts, raw) \<longleftrightarrow>
    fs \<noteq> [] \<and> ts = fst (last fs) \<and> decodes gz (last fs) raw"
proof (cases "fs = []")
  case False
  note bytes = last_found_bytes [OF assms(1) False assms(2)]
  show ?thesis using False
    by (auto simp: decode_found_def last_found_def decodes_def bytes simp del: length_take take_drop split: sum.splits)
qed (simp add: decode_found_def last_found_def)

definition full_scan :: "bounded_gunzip \<Rightarrow> bytes \<Rightarrow> nat \<Rightarrow> exn + f64 \<times> bytes" where
  "full_scan gz bs end = (case frame_loop bs end 0 None of Inl e \<Rightarrow> Inl e | Inr found \<Rightarrow> decode_found gz bs found)"

lemma full_scan_Inr:
  assumes "full_scan gz bs end = Inr (ts, raw)" and "end \<le> length bs"
  shows "\<exists>fs p. list_all public_frame (fs @ [(ts, p)]) \<and> take end bs = concat (map frame (fs @ [(ts, p)])) \<and>
    decodes gz (ts, p) raw"
proof -
  from assms(1) obtain found where loop: "frame_loop bs end 0 None = Inr found" and dec: "decode_found gz bs found = Inr (ts, raw)"
    by (auto simp: full_scan_def split: sum.splits)
  from frame_loop_sound [OF loop _ assms(2)] obtain fs where fs: "list_all public_frame fs"
      "take end bs = concat (map frame fs)" "found = last_found end fs None" by auto
  with decode_last_found [OF fs(2) assms(2)] dec have "fs \<noteq> []" "ts = fst (last fs)" "decodes gz (last fs) raw" by auto
  then have "fs = butlast fs @ [(ts, snd (last fs))]" "decodes gz (ts, snd (last fs)) raw" by (simp_all add: decodes_def)
  with fs(1,2) show ?thesis by metis
qed

lemma scan_from_cursor:
  assumes "scanned gz (take c bs) latest" and "c \<le> end" and "end \<le> length bs"
  shows "full_scan gz bs end =
    (case frame_loop bs end c None of
       Inl e \<Rightarrow> Inl e
     | Inr None \<Rightarrow> (case latest of None \<Rightarrow> Inl (value_error ''no committed vehicle frame'') | Some r \<Rightarrow> Inr r)
     | Inr (Some x) \<Rightarrow> decode_found gz bs (Some x))"
    and "frame_loop bs end c None = Inr None \<Longrightarrow> c = end"
proof -
  from assms(1) obtain fs where fs: "list_all public_frame fs" "take c bs = concat (map frame fs)"
    "if fs = [] then latest = None else \<exists>raw. decodes gz (last fs) raw \<and> latest = Some (fst (last fs), raw)"
    by (auto simp: scanned_def)
  have len: "log_bytes fs = c" using arg_cong [OF fs(2), of length] assms(2,3) by simp
  have "bs = concat (map frame fs) @ drop c bs" using fs(2) by (metis append_take_drop_id)
  with frame_loop_frames [OF fs(1), of 0 bs "drop c bs" "end" None] assms(2) len
  have "frame_loop bs end 0 None = frame_loop bs end c (last_found c fs None)" by simp
  also have "\<dots> = map_sum id (\<lambda>r. case r of None \<Rightarrow> last_found c fs None | Some x \<Rightarrow> Some x) (frame_loop bs end c None)"
    by (rule frame_loop_found)
  finally have loop: "frame_loop bs end 0 None = \<dots>" .
  have dec: "decode_found gz bs (last_found c fs None) =
    (case latest of None \<Rightarrow> Inl (value_error ''no committed vehicle frame'') | Some r \<Rightarrow> Inr r)"
  proof (cases "fs = []")
    case False
    with fs(3) obtain raw where raw: "decodes gz (last fs) raw" "latest = Some (fst (last fs), raw)" by auto
    with decode_last_found [OF fs(2), of gz "fst (last fs)" raw] False assms(2,3) show ?thesis by simp
  qed (use fs(3) in \<open>simp add: decode_found_def last_found_def\<close>)
  show "full_scan gz bs end =
    (case frame_loop bs end c None of
       Inl e \<Rightarrow> Inl e
     | Inr None \<Rightarrow> (case latest of None \<Rightarrow> Inl (value_error ''no committed vehicle frame'') | Some r \<Rightarrow> Inr r)
     | Inr (Some x) \<Rightarrow> decode_found gz bs (Some x))"
    unfolding full_scan_def loop using dec by (cases "frame_loop bs end c None") (auto split: option.split)
  show "c = end" if none: "frame_loop bs end c None = Inr None"
  proof -
    from frame_loop_sound [OF none assms(2,3)] obtain gs where
      "take end bs = take c bs @ concat (map frame gs)" "last_found end gs None = None" by auto
    then have "take end bs = take c bs" by (auto simp: last_found_def split: if_splits)
    from arg_cong [OF this, of length] assms(2,3) show ?thesis by simp
  qed
qed

lemma full_scan_scanned:
  assumes "full_scan gz bs end = Inr (ts, raw)" and "end \<le> length bs"
  shows "scanned gz (take end bs) (Some (ts, raw))"
proof -
  from full_scan_Inr [OF assms] obtain fs p where "list_all public_frame (fs @ [(ts, p)])"
    "take end bs = concat (map frame (fs @ [(ts, p)]))" "decodes gz (ts, p) raw" by blast
  then show ?thesis unfolding scanned_def by (intro exI [of _ "fs @ [(ts, p)]"]) auto
qed

definition cursor_at :: "bounded_gunzip \<Rightarrow> path \<times> int \<times> int \<Rightarrow> bytes \<Rightarrow> nat \<Rightarrow> latest_vehicle \<Rightarrow> bool" where
  "cursor_at gz ident bs c s \<longleftrightarrow> lv_identity s = Some ident \<and> lv_offset s = c \<and> scanned gz (take c bs) (lv_latest s)"

definition reset_cursor :: "path \<times> int \<times> int \<Rightarrow> nat \<Rightarrow> latest_vehicle \<Rightarrow> latest_vehicle" where
  "reset_cursor ident end s =
     (if lv_identity s \<noteq> Some ident \<or> end < lv_offset s then \<lparr>lv_identity = Some ident, lv_offset = 0, lv_latest = None\<rparr> else s)"

lemma read_frames_scan:
  assumes "end \<le> length bs" and "cursor_at gz ident bs (lv_offset s) (reset_cursor ident end s) \<or> lv_offset (reset_cursor ident end s) = 0 \<and> lv_latest (reset_cursor ident end s) = None"
    and "read_frames gz bs ident end s = (r, s')"
  shows "r = full_scan gz bs end" and "s' = reset_cursor ident end s \<or> cursor_at gz ident bs end s'"
proof -
  let ?s = "reset_cursor ident end s"
  let ?c = "lv_offset ?s"
  have le: "?c \<le> end" by (auto simp: reset_cursor_def)
  have id: "lv_identity ?s = Some ident" by (auto simp: reset_cursor_def)
  have sc: "scanned gz (take ?c bs) (lv_latest ?s)" using assms(2) by (auto simp: cursor_at_def)
  note scan = scan_from_cursor [OF sc le assms(1)]
  note read = assms(3) [unfolded read_frames_def reset_cursor_def [symmetric], unfolded Let_def]
  have "r = full_scan gz bs end \<and> (s' = ?s \<or> cursor_at gz ident bs end s')"
  proof (cases "frame_loop bs end ?c None")
    case (Inl e)
    with read scan(1) show ?thesis by simp
  next
    case (Inr found)
    show ?thesis
    proof (cases found)
      case None
      with Inr scan(2) have "?c = end" by simp
      with Inr None read scan(1) sc id show ?thesis
        by (auto simp: deliver_latest_def cursor_at_def split: option.splits)
    next
      case (Some x)
      obtain ts pos n where x: "x = (ts, pos, n)" by (cases x)
      with Inr Some scan(1) have full: "full_scan gz bs end = decode_found gz bs (Some (ts, pos, n))" by simp
      show ?thesis
      proof (cases "decode_found gz bs (Some (ts, pos, n))")
        case (Inl e)
        with read \<open>frame_loop bs end ?c None = Inr found\<close> Some x full show ?thesis
          by (auto simp: decode_found_def Let_def simp del: length_take split: if_splits sum.splits)
      next
        case (Inr y)
        then obtain raw where y: "y = (ts, raw)" and raw: "gz (MAX_PROTOBUF_BYTES + 1) (take n (drop pos bs)) = Inr raw"
            "length (take n (drop pos bs)) = n" "\<not> MAX_PROTOBUF_BYTES < length raw"
          by (auto simp: decode_found_def simp del: length_take split: if_splits sum.splits)
        have "scanned gz (take end bs) (Some (ts, raw))"
          using full Inr y assms(1) by (intro full_scan_scanned) simp_all
        with read \<open>frame_loop bs end ?c None = Inr found\<close> Some x raw full Inr y id show ?thesis
          by (simp add: deliver_latest_def cursor_at_def del: length_take)
            (auto simp: cursor_at_def)
      qed
    qed
  qed
  then show "r = full_scan gz bs end" and "s' = ?s \<or> cursor_at gz ident bs end s'" by blast+
qed

subsection \<open>The files change between the reads\<close>

definition committed_at :: "tools \<Rightarrow> tree \<Rightarrow> path \<Rightarrow> nat option" where
  "committed_at tk t p = (case read_public_object tk 4096 t (log_checkpoint p) of Inl _ \<Rightarrow> None | Inr cp \<Rightarrow> committed_end cp)"

definition keeps_committed :: "tools \<Rightarrow> tree \<Rightarrow> tree \<Rightarrow> bool" where
  "keeps_committed tk t t' \<longleftrightarrow> (\<forall>p f f' c. regular_at t p = Some f \<and> regular_at t' p = Some f' \<and> fo_id f = fo_id f' \<and>
     committed_at tk t p = Some c \<and> c \<le> length (fo_bytes f) \<longrightarrow> take c (fo_bytes f') = take c (fo_bytes f))"

inductive observed :: "tools \<Rightarrow> bounded_gunzip \<Rightarrow> tree list \<times> latest_vehicle \<Rightarrow> tree list \<times> latest_vehicle \<Rightarrow> bool"
  for tk :: tools and gz :: bounded_gunzip where
  files_change: "\<forall>u \<in> set past. keeps_committed tk u t \<Longrightarrow> observed tk gz (past, s) (t # past, s)"
| exporter_reads: "observed tk gz (t # past, s) (t # past, snd (read_latest tk gz today t s))"

definition observer_starts :: "tree list \<times> latest_vehicle \<Rightarrow> bool" where
  "observer_starts ob \<longleftrightarrow> (\<exists>t. ob = ([t], new_reader))"

text \<open>The cursor stands at a checkpoint of a state that was observed.\<close>

definition cursor_inv :: "tools \<Rightarrow> bounded_gunzip \<Rightarrow> tree list \<times> latest_vehicle \<Rightarrow> bool" where
  "cursor_inv tk gz ob \<longleftrightarrow>
     lv_offset (snd ob) = 0 \<and> lv_latest (snd ob) = None \<or>
     (\<exists>t \<in> set (fst ob). \<exists>p f. regular_at t p = Some f \<and> committed_at tk t p = Some (lv_offset (snd ob)) \<and>
        lv_offset (snd ob) \<le> length (fo_bytes f) \<and> cursor_at gz (p, fo_id f) (fo_bytes f) (lv_offset (snd ob)) (snd ob))"

text \<open>\<open>linked\<close>: every state keeps what the earlier ones had committed.\<close>

fun linked :: "tools \<Rightarrow> tree list \<Rightarrow> bool" where
  "linked tk [] = True"
| "linked tk (t # past) = ((\<forall>u \<in> set past. keeps_committed tk u t) \<and> linked tk past)"

lemma keeps_committed_refl: "keeps_committed tk t t"
  by (auto simp: keeps_committed_def)

lemma cursor_usable:
  assumes inv: "cursor_inv tk gz (t # past, s)" and linked: "linked tk (t # past)"
    and f: "regular_at t p = Some f"
  shows "cursor_at gz (p, fo_id f) (fo_bytes f) (lv_offset s) (reset_cursor (p, fo_id f) end s) \<or>
    lv_offset (reset_cursor (p, fo_id f) end s) = 0 \<and> lv_latest (reset_cursor (p, fo_id f) end s) = None"
proof (cases "lv_identity s \<noteq> Some (p, fo_id f) \<or> end < lv_offset s \<or> lv_offset s = 0 \<and> lv_latest s = None")
  case True
  then show ?thesis by (auto simp: reset_cursor_def)
next
  case False
  with inv have "\<exists>u \<in> set (t # past). \<exists>q g. regular_at u q = Some g \<and> committed_at tk u q = Some (lv_offset s) \<and>
      lv_offset s \<le> length (fo_bytes g) \<and> cursor_at gz (q, fo_id g) (fo_bytes g) (lv_offset s) s"
    unfolding cursor_inv_def fst_conv snd_conv by blast
  then obtain u q g where u: "u \<in> set (t # past)" "regular_at u q = Some g" "committed_at tk u q = Some (lv_offset s)"
      "lv_offset s \<le> length (fo_bytes g)" "cursor_at gz (q, fo_id g) (fo_bytes g) (lv_offset s) s" by blast
  have same: "q = p" "fo_id g = fo_id f" using u(5) False by (auto simp: cursor_at_def)
  have "keeps_committed tk u t" using u(1) linked keeps_committed_refl by auto
  with u same f have "take (lv_offset s) (fo_bytes f) = take (lv_offset s) (fo_bytes g)"
    unfolding keeps_committed_def by metis
  with u(5) same False show ?thesis by (simp add: cursor_at_def reset_cursor_def)
qed

text \<open>What \<^verbatim>\<open>read\<close> returns without a cursor.\<close>

definition latest_committed :: "tools \<Rightarrow> bounded_gunzip \<Rightarrow> seconds \<Rightarrow> tree \<Rightarrow> exn + f64 \<times> bytes" where
  "latest_committed tk gz today t = fst (read_latest tk gz today t new_reader)"

text \<open>A read either stops before the file is scanned, with the cursor as it was, or scans one log up to its checkpoint.\<close>

lemma read_latest_cases:
  obtains (early) e where "\<And>s. read_latest tk gz today t s = (Inl e, s)"
  | (scan) ds d f c where "candidate_dirs tk today t = Inr (d # ds)"
      and "regular_at t (vehicle_log (fold max ds d)) = Some f" and "committed_at tk t (vehicle_log (fold max ds d)) = Some c"
      and "c \<le> length (fo_bytes f)"
      and "\<And>s. read_latest tk gz today t s = read_frames gz (fo_bytes f) (vehicle_log (fold max ds d), fo_id f) c s"
proof (cases "candidate_dirs tk today t")
  case (Inl e)
  then show thesis by (intro early) (simp add: read_latest_def)
next
  case (Inr dirs)
  show thesis
  proof (cases dirs)
    case Nil
    with Inr show thesis by (intro early) (simp add: read_latest_def)
  next
    case (Cons d ds)
    let ?p = "vehicle_log (fold max ds d)"
    show thesis
    proof (cases "read_public_object tk 4096 t (log_checkpoint ?p)")
      case (Inl e)
      with Inr Cons show thesis by (intro early) (simp add: read_latest_def Let_def)
    next
      case cp: (Inr cp)
      show thesis
      proof (cases "committed_end cp")
        case None
        with Inr Cons cp show thesis by (intro early) (simp add: read_latest_def Let_def)
      next
        case (Some c)
        show thesis
        proof (cases "regular_at t ?p")
          case None
          with Inr Cons cp Some show thesis by (intro early) (simp add: read_latest_def Let_def)
        next
          case f: (Some f)
          show thesis
          proof (cases "length (fo_bytes f) < c")
            case True
            with Inr Cons cp Some f show thesis by (intro early) (simp add: read_latest_def Let_def)
          next
            case False
            with Inr Cons cp Some f show thesis
              by (intro scan [of d ds f c]) (simp_all add: read_latest_def committed_at_def Let_def)
          qed
        qed
      qed
    qed
  qed
qed

lemma read_keeps_cursor:
  assumes inv: "cursor_inv tk gz (t # past, s)" and linked: "linked tk (t # past)"
  shows "fst (read_latest tk gz today t s) = latest_committed tk gz today t"
    and "cursor_inv tk gz (t # past, snd (read_latest tk gz today t s))"
proof -
  have "fst (read_latest tk gz today t s) = latest_committed tk gz today t \<and>
    cursor_inv tk gz (t # past, snd (read_latest tk gz today t s))"
  proof (cases rule: read_latest_cases [of tk gz today t])
    case (early e)
    then show ?thesis using inv by (simp add: latest_committed_def)
  next
    case (scan ds d f c)
    let ?p = "vehicle_log (fold max ds d)"
    obtain r s' where read: "read_frames gz (fo_bytes f) (?p, fo_id f) c s = (r, s')" by fastforce
    obtain r' s'' where fresh: "read_frames gz (fo_bytes f) (?p, fo_id f) c new_reader = (r', s'')" by fastforce
    have "cursor_inv tk gz (t # past, new_reader)" by (simp add: cursor_inv_def new_reader_def)
    from read_frames_scan(1) [OF scan(4) cursor_usable [OF this linked scan(2)] fresh]
      read_frames_scan [OF scan(4) cursor_usable [OF inv linked scan(2)] read]
    have "r = r'" and s': "s' = reset_cursor (?p, fo_id f) c s \<or> cursor_at gz (?p, fo_id f) (fo_bytes f) c s'" by simp_all
    moreover have "cursor_inv tk gz (t # past, s')"
      using s'
    proof
      assume "s' = reset_cursor (?p, fo_id f) c s"
      with inv show ?thesis by (auto simp: cursor_inv_def reset_cursor_def)
    next
      assume "cursor_at gz (?p, fo_id f) (fo_bytes f) c s'"
      with scan(2,3,4) show ?thesis by (auto simp: cursor_inv_def cursor_at_def)
    qed
    ultimately show ?thesis using read fresh by (simp add: scan(5) latest_committed_def)
  qed
  then show "fst (read_latest tk gz today t s) = latest_committed tk gz today t"
    and "cursor_inv tk gz (t # past, snd (read_latest tk gz today t s))" by blast+
qed

interpretation observer: transition_system observer_starts "observed tk gz" "\<lambda>ob. linked tk (fst ob) \<and> cursor_inv tk gz ob \<and> fst ob \<noteq> []"
  for tk gz
proof unfold_locales
  fix o1
  assume "observer_starts o1"
  then show "linked tk (fst o1) \<and> cursor_inv tk gz o1 \<and> fst o1 \<noteq> []"
    by (auto simp: observer_starts_def cursor_inv_def new_reader_def)
next
  fix o1 o2
  assume inv: "linked tk (fst o1) \<and> cursor_inv tk gz o1 \<and> fst o1 \<noteq> []" and "observed tk gz o1 o2"
  from this(2) show "linked tk (fst o2) \<and> cursor_inv tk gz o2 \<and> fst o2 \<noteq> []"
  proof cases
    case (files_change past t s)
    with inv show ?thesis by (auto simp: cursor_inv_def)
  next
    case (exporter_reads t past s today)
    with inv read_keeps_cursor(2) [of tk gz t past s] show ?thesis by simp
  qed
qed

subsection \<open>The log that is read\<close>

lemma map_result_outputs:
  "map_result f xs = Inr ys \<Longrightarrow> set ys = {y. \<exists>x \<in> set xs. f x = Inr y}"
proof (induction xs arbitrary: ys)
  case (Cons x xs)
  then obtain y zs where "f x = Inr y" "map_result f xs = Inr zs" "ys = y # zs" by (cases "f x"; cases "map_result f xs") auto
  with Cons.IH [of zs] show ?case by auto
qed simp

text \<open>The newest log that is not of the future.\<close>

definition newest_log :: "tools \<Rightarrow> seconds \<Rightarrow> tree \<Rightarrow> string \<Rightarrow> bool" where
  "newest_log tk today t d \<longleftrightarrow>
     d \<in> set (log_dirs t) \<and> (\<exists>day. tl_day tk (drop 5 d) = Some day \<and> day \<le> today) \<and>
     (\<forall>d' \<in> set (log_dirs t). \<forall>day. tl_day tk (drop 5 d') = Some day \<and> day \<le> today \<longrightarrow> d' \<le> d)"

lemma candidates_newest:
  assumes "candidate_dirs tk today t = Inr (d # ds)"
  shows "newest_log tk today t (fold max ds d)"
proof -
  let ?f = "\<lambda>n. case tl_day tk (drop 5 n) of None \<Rightarrow> Inl (value_error ''Invalid isoformat string'')
    | Some day \<Rightarrow> Inr (if day \<le> today then [n] else [])"
  from assms obtain nss where nss: "map_result ?f (log_dirs t) = Inr nss" "concat nss = d # ds"
    by (cases "map_result ?f (log_dirs t)") (auto simp: candidate_dirs_def)
  have "set (d # ds) = (\<Union>ns \<in> set nss. set ns)" using nss(2) by (metis set_concat)
  also have "\<dots> = {n \<in> set (log_dirs t). \<exists>day. tl_day tk (drop 5 n) = Some day \<and> day \<le> today}"
    unfolding map_result_outputs [OF nss(1)] by (fastforce split: option.splits if_splits)
  finally have dirs: "set (d # ds) = \<dots>" .
  have max: "fold max ds d = Max (set (d # ds))" by (simp only: Max.set_eq_fold)
  have "fold max ds d \<in> set (d # ds)" unfolding max by (rule Max_in) simp_all
  moreover have "\<forall>d' \<in> set (d # ds). d' \<le> fold max ds d" unfolding max by simp
  ultimately show ?thesis unfolding dirs newest_log_def by blast
qed

lemma latest_committed_scan:
  assumes "latest_committed tk gz today t = Inr (ts, raw)"
  shows "\<exists>d f c. newest_log tk today t d \<and> regular_at t (vehicle_log d) = Some f \<and>
    committed_at tk t (vehicle_log d) = Some c \<and> c \<le> length (fo_bytes f) \<and> full_scan gz (fo_bytes f) c = Inr (ts, raw)"
proof (cases rule: read_latest_cases [of tk gz today t])
  case (early e)
  with assms show ?thesis by (simp add: latest_committed_def)
next
  case (scan ds d f c)
  let ?d = "fold max ds d"
  obtain r s' where read: "read_frames gz (fo_bytes f) (vehicle_log ?d, fo_id f) c new_reader = (r, s')" by fastforce
  have "r = full_scan gz (fo_bytes f) c"
    by (rule read_frames_scan(1) [OF scan(4) _ read]) (simp add: reset_cursor_def new_reader_def)
  with assms read scan(5) have "full_scan gz (fo_bytes f) c = Inr (ts, raw)" by (simp add: latest_committed_def)
  with scan(2-4) candidates_newest [OF scan(1)] show ?thesis by blast
qed

text \<open>The committed bytes of a log that the collector wrote are whole records.\<close>

lemma committed_frames:
  assumes "log_inv compress gunzip l" and "checkpoint (dl_file l) = Some (int c)"
  shows "\<exists>fs k. iter_records gunzip (file_data (dl_file l)) = (map (decoded gunzip) fs, None) \<and>
    iter_records gunzip (take c (file_data (dl_file l))) = (map (decoded gunzip) (take k fs), None) \<and>
    list_all frame_ok (take k fs) \<and> take c (file_data (dl_file l)) = concat (map frame (take k fs))"
proof -
  from assms(1) obtain fs tail where inv: "frames_inv gunzip (dl_file l) fs tail" by (auto simp: log_inv_def)
  with assms(2) obtain k where k: "k \<le> length fs" "int c = int (log_bytes (take k fs))" by (auto simp: frames_inv_def)
  from inv have fr: "file_data (dl_file l) = concat (map frame fs) @ tail" "read_frame tail = None"
    "list_all frame_ok fs" "list_all (readable gunzip) fs" by (simp_all add: frames_inv_def)
  have "concat (map frame fs) = concat (map frame (take k fs)) @ concat (map frame (drop k fs))"
    by (metis append_take_drop_id concat_append map_append)
  with fr(1) k(2) have bytes: "take c (file_data (dl_file l)) = concat (map frame (take k fs))" by simp
  have ok: "list_all frame_ok (take k fs)" "list_all (readable gunzip) (take k fs)"
    using fr(3,4) by (auto simp: list_all_iff dest: in_set_takeD)
  have "iter_records gunzip (concat (map frame fs) @ tail) = (map (decoded gunzip) fs, None)"
    by (rule iter_records_frames [OF fr(3,4,2)])
  moreover have "iter_records gunzip (concat (map frame (take k fs)) @ []) = (map (decoded gunzip) (take k fs), None)"
    by (rule iter_records_frames [OF ok]) (rule rawf.dec_empty)
  ultimately show ?thesis using fr(1) bytes ok(1) by (intro exI [of _ fs] exI [of _ k]) simp
qed

lemma scan_is_last_record:
  assumes log: "log_inv compress gunzip l" "checkpoint (dl_file l) = Some (int c)" "file_data (dl_file l) = bs"
    and bounded: "\<forall>n p raw. gz n p = Inr raw \<and> length raw < n \<longrightarrow> gunzip p = Inr raw"
    and scan: "full_scan gz bs c = Inr (ts, raw)" "c \<le> length bs"
  shows "\<exists>rs rest. iter_records gunzip (take c bs) = (rs @ [(ts, raw)], None) \<and>
    iter_records gunzip bs = (rs @ (ts, raw) # rest, None)"
proof -
  from committed_frames [OF log(1,2), unfolded log(3)] obtain fs k where
    all: "iter_records gunzip bs = (map (decoded gunzip) fs, None)"
    and part: "iter_records gunzip (take c bs) = (map (decoded gunzip) (take k fs), None)"
    and ok: "list_all frame_ok (take k fs)" and bytes: "take c bs = concat (map frame (take k fs))" by (elim exE conjE)
  from full_scan_Inr [OF scan] obtain gs p where gs: "list_all public_frame (gs @ [(ts, p)])"
    "take c bs = concat (map frame (gs @ [(ts, p)]))" "decodes gz (ts, p) raw" by blast
  have "list_all frame_ok (gs @ [(ts, p)])" using gs(1) by (auto simp: list_all_iff intro: public_frame_ok)
  from rawf.unframe_frames [OF this] have "unframe read_frame (take c bs) = (gs @ [(ts, p)], [])"
    unfolding gs(2) [symmetric] .
  moreover from rawf.unframe_frames [OF ok] have "unframe read_frame (take c bs) = (take k fs, [])"
    unfolding bytes [symmetric] .
  ultimately have same: "take k fs = gs @ [(ts, p)]" by simp
  have "gunzip p = Inr raw" using gs(3) bounded less_Suc_eq_le
    by (simp add: decodes_def) blast
  then have dec: "map (decoded gunzip) (take k fs) = map (decoded gunzip) gs @ [(ts, raw)]"
    unfolding same by (simp add: decoded_def)
  have "map (decoded gunzip) fs = map (decoded gunzip) (take k fs) @ map (decoded gunzip) (drop k fs)"
    by (metis append_take_drop_id map_append)
  with dec all part show ?thesis by auto
qed

subsection \<open>Properties\<close>

text \<open>
  Claim C38. However the files change between the reads, as long as committed bytes of a file stay, a read through the cursor
  returns what a scan of the newest log from its start would return, the error included.
\<close>

theorem cursor_reads_like_full_scan:
  assumes "reachable observer_starts (observed tk gz) (t # past, s)"
  shows "fst (read_latest tk gz today t s) = latest_committed tk gz today t"
proof -
  from observer.reachable_inv [OF assms] have "linked tk (t # past)" "cursor_inv tk gz (t # past, s)" by simp_all
  then show ?thesis by (intro read_keeps_cursor(1))
qed

text \<open>
  Claim C26. Beside a collector that writes the raw logs, the exporter returns the last record before the checkpoint of the
  newest log that is not of the future: it is one that \<^verbatim>\<open>iter_records\<close> delivers, and a record without a checkpoint or a torn
  tail is never shown.
\<close>

theorem exporter_shows_last_committed:
  assumes "reachable observer_starts (observed tk gz) (t # past, s)"
    and "fst (read_latest tk gz today t s) = Inr (ts, raw)"
    and "\<forall>d f. regular_at t (vehicle_log d) = Some f \<longrightarrow>
      (\<exists>l. reachable (log_init compress gunzip) (log_step compress gunzip) l \<and> file_data (dl_file l) = fo_bytes f \<and>
        map_option int (committed_at tk t (vehicle_log d)) = checkpoint (dl_file l))"
    and "\<forall>n p raw. gz n p = Inr raw \<and> length raw < n \<longrightarrow> gunzip p = Inr raw"
  shows "\<exists>d f c rs rest. newest_log tk today t d \<and> regular_at t (vehicle_log d) = Some f \<and>
    committed_at tk t (vehicle_log d) = Some c \<and>
    iter_records gunzip (take c (fo_bytes f)) = (rs @ [(ts, raw)], None) \<and>
    iter_records gunzip (fo_bytes f) = (rs @ (ts, raw) # rest, None)"
proof -
  from observer.reachable_inv [OF assms(1)] have "linked tk (t # past)" "cursor_inv tk gz (t # past, s)" by simp_all
  from read_keeps_cursor(1) [OF this(2,1)] assms(2) have "latest_committed tk gz today t = Inr (ts, raw)" by simp
  from latest_committed_scan [OF this] obtain d f c where d: "newest_log tk today t d" "regular_at t (vehicle_log d) = Some f"
    "committed_at tk t (vehicle_log d) = Some c" "c \<le> length (fo_bytes f)" "full_scan gz (fo_bytes f) c = Inr (ts, raw)" by blast
  from assms(3) d(2,3) obtain l where l: "log_inv compress gunzip l" "file_data (dl_file l) = fo_bytes f"
    "checkpoint (dl_file l) = Some (int c)" by (fastforce dest: log_sys.reachable_inv)
  from scan_is_last_record [OF l(1,3,2) assms(4) d(5,4)] obtain rs rest where
    "iter_records gunzip (take c (fo_bytes f)) = (rs @ [(ts, raw)], None)"
    "iter_records gunzip (fo_bytes f) = (rs @ (ts, raw) # rest, None)" by blast
  with d(1-3) show ?thesis by blast
qed

text \<open>An input directory with the log of one day: a checkpointed record and a torn tail.\<close>

definition exporter_tools :: tools where
  "exporter_tools = plain_tools\<lparr>tl_json := \<lambda>_. Some (PDict [(''version'', PInt 1), (''valid_bytes'', PInt 14)]), tl_day := \<lambda>_. Some 0\<rparr>"

definition stored_bounded :: bounded_gunzip where
  "stored_bounded n p = map_sum id (take n) (stored_gunzip p)"

definition exporter_input :: tree where
  "exporter_input =
     [(vehicle_log ''date=2026-10-02'', Regular \<lparr>fo_bytes = file_data (dl_file torn_example), fo_mtime = 0, fo_id = (1, 2)\<rparr>),
      (log_checkpoint (vehicle_log ''date=2026-10-02''), Regular \<lparr>fo_bytes = [], fo_mtime = 0, fo_id = (1, 3)\<rparr>)]"

definition cursor_after_read :: latest_vehicle where
  "cursor_after_read = snd (read_latest exporter_tools stored_bounded 0 exporter_input new_reader)"

lemma cursor_after_read_reachable:
  "reachable observer_starts (observed exporter_tools stored_bounded) ([exporter_input], cursor_after_read)"
proof -
  have "reachable observer_starts (observed exporter_tools stored_bounded) ([exporter_input], new_reader)"
    by (rule reach_init) (simp add: observer_starts_def)
  from reach_step [OF this exporter_reads] show ?thesis by (simp add: cursor_after_read_def)
qed

lemma exporter_input_log:
  "regular_at exporter_input (vehicle_log d) = Some f \<Longrightarrow>
     d = ''date=2026-10-02'' \<and> f = \<lparr>fo_bytes = file_data (dl_file torn_example), fo_mtime = 0, fo_id = (1, 2)\<rparr>"
  by (auto simp: regular_at_def exporter_input_def vehicle_log_def log_checkpoint_def split: if_splits)

lemma exporter_input_committed: "committed_at exporter_tools exporter_input (vehicle_log ''date=2026-10-02'') = Some 14"
  by (simp add: committed_at_def read_public_object_def regular_at_def exporter_input_def vehicle_log_def log_checkpoint_def
      exporter_tools_def committed_end_def row_get_def)

lemma exporter_log_dirs: "log_dirs exporter_input = [''date=2026-10-02'']"
proof -
  have "date_of_dir ''date=2026-10-02'' = Some ''2026-10-02''" by code_simp
  then show ?thesis by (simp add: log_dirs_def exporter_input_def vehicle_log_def log_checkpoint_def)
qed

lemma exporter_reads_torn: "latest_committed exporter_tools stored_bounded 0 exporter_input = Inr (1, [7])"
proof -
  let ?bs = "frame (1, stored_compress [7]) @ [0, 0, 0]"
  have dirs: "candidate_dirs exporter_tools 0 exporter_input = Inr [''date=2026-10-02'']"
    by (simp add: candidate_dirs_def exporter_log_dirs exporter_tools_def)
  have "public_frame (1, stored_compress [7])"
    by (simp add: public_frame_def finite_bits_def stored_compress_def MAX_FRAME_BYTES_def)
  then have "frame_loop ?bs 14 0 None = frame_loop ?bs 14 14 (Some (1, 12, 2))"
    using frame_loop_frame [of 0 14 ?bs "(1, stored_compress [7])" "[0, 0, 0]" None]
    by (simp add: header_size_def) (simp add: stored_compress_def numeral_2_eq_2)
  also have "\<dots> = Inr (Some (1, 12, 2))" by (rule frame_loop_end) simp
  finally have loop: "frame_loop ?bs 14 0 None = Inr (Some (1, 12, 2))" .
  have "take 2 (drop 12 ?bs) = stored_compress [7]" by (simp add: frame_def) (simp add: stored_compress_def)
  moreover have "stored_bounded (MAX_PROTOBUF_BYTES + 1) (stored_compress [7]) = Inr [7]"
    by (simp add: stored_bounded_def stored_compress_def MAX_PROTOBUF_BYTES_def)
  ultimately have scan: "full_scan stored_bounded ?bs 14 = Inr (1, [7])"
    by (simp add: full_scan_def loop decode_found_def del: take_append drop_append)
      (simp add: stored_compress_def MAX_PROTOBUF_BYTES_def)
  obtain f where f: "regular_at exporter_input (vehicle_log ''date=2026-10-02'') = Some f"
    "fo_bytes f = ?bs" "fo_id f = (1, 2)" by (simp add: regular_at_def exporter_input_def vehicle_log_def torn_example_def)
  obtain cp where cp: "read_public_object exporter_tools 4096 exporter_input (log_checkpoint (vehicle_log ''date=2026-10-02'')) = Inr cp"
      "committed_end cp = Some 14"
    using exporter_input_committed by (auto simp: committed_at_def split: sum.splits)
  have long: "\<not> length ?bs < 14" by simp
  obtain r s' where read: "read_frames stored_bounded ?bs (vehicle_log ''date=2026-10-02'', 1, 2) 14 new_reader = (r, s')" by fastforce
  have "r = full_scan stored_bounded ?bs 14"
    by (rule read_frames_scan(1) [OF _ _ read]) (simp_all add: reset_cursor_def new_reader_def)
  with scan read have "fst (read_frames stored_bounded ?bs (vehicle_log ''date=2026-10-02'', 1, 2) 14 new_reader) = Inr (1, [7])"
    by simp
  then show ?thesis
    using long by (simp add: latest_committed_def read_latest_def dirs cp f)
qed

theorem cursor_reads_like_full_scan_witness:
  "fst (read_latest exporter_tools stored_bounded 0 exporter_input cursor_after_read) = Inr (1, [7])"
  using cursor_reads_like_full_scan [OF cursor_after_read_reachable] by (simp add: exporter_reads_torn)

lemma cursor_reads_torn: "fst (read_latest exporter_tools stored_bounded 0 exporter_input cursor_after_read) = Inr (1, [7])"
  using read_keeps_cursor(1) [of exporter_tools stored_bounded exporter_input "[]" cursor_after_read]
    observer.reachable_inv [OF cursor_after_read_reachable] by (simp add: exporter_reads_torn)

theorem exporter_shows_last_committed_witness:
  "\<exists>d f c rs rest. newest_log exporter_tools 0 exporter_input d \<and> regular_at exporter_input (vehicle_log d) = Some f \<and>
    committed_at exporter_tools exporter_input (vehicle_log d) = Some c \<and>
    iter_records stored_gunzip (take c (fo_bytes f)) = (rs @ [(1, [7])], None) \<and>
    iter_records stored_gunzip (fo_bytes f) = (rs @ (1, [7]) # rest, None)"
proof (rule exporter_shows_last_committed [OF cursor_after_read_reachable cursor_reads_torn])
  show "\<forall>d f. regular_at exporter_input (vehicle_log d) = Some f \<longrightarrow>
      (\<exists>l. reachable (log_init stored_compress stored_gunzip) (log_step stored_compress stored_gunzip) l \<and>
        file_data (dl_file l) = fo_bytes f \<and>
        map_option int (committed_at exporter_tools exporter_input (vehicle_log d)) = checkpoint (dl_file l))"
    using torn_example_reachable
    by (auto dest!: exporter_input_log simp: exporter_input_committed torn_example_def
        intro!: exI [of _ torn_example])
  show "\<forall>n p raw. stored_bounded n p = Inr raw \<and> length raw < n \<longrightarrow> stored_gunzip p = Inr raw"
  proof (intro allI impI)
    fix n p raw
    assume "stored_bounded n p = Inr raw \<and> length raw < n"
    then show "stored_gunzip p = Inr raw" by (cases "stored_gunzip p") (auto simp: stored_bounded_def)
  qed
qed

end
