(* ===== verification/Public_Safety.thy ===== *)
theory Public_Safety
  imports Public_Contract Public_Reader_Safety
begin

section \<open>Which snapshots the Worker accepts\<close>





subsection \<open>What the Worker may refuse\<close>







subsection \<open>Values\<close>








subsection \<open>Health\<close>






subsection \<open>Statistics\<close>












subsection \<open>Vehicles\<close>
























subsection \<open>The whole snapshot\<close>










subsection \<open>Properties\<close>


text \<open>
  An exporter over the input directory of the reader's example, whose record decodes to one vehicle on the route \<open>r\<close>, and a
  route identifier of 25 tram signs (U+1F68B).
\<close>

definition one_vehicle :: "string \<Rightarrow> feed_message" where
  "one_vehicle r =
     \<lparr>fm_timestamp = None, fm_feed_version = None, fm_gtfs_realtime_version = ''2.0'', fm_incrementality = None,
      fm_entities = [\<lparr>en_id = ''1'', en_is_deleted = None,
        en_vehicle = Some \<lparr>vp_trip = Some \<lparr>td_trip_id = [], td_route_id = r, td_direction_id = None, td_start_time = [], td_start_date = [],
            td_schedule_relationship = None, td_modified_trip = None\<rparr>, vp_vehicle = None,
          vp_position = Some \<lparr>po_latitude = Some 47, po_longitude = Some 19, po_bearing = None, po_odometer = None, po_speed = None\<rparr>,
          vp_timestamp = Some 5, vp_current_stop_sequence = None, vp_stop_id = [], vp_current_status = None, vp_congestion_level = None,
          vp_occupancy_status = None, vp_occupancy_percentage = None, vp_multi_carriage_details = []\<rparr>,
        en_trip_update = None, en_alert = None, en_other = [], en_bytes = [], en_deterministic = []\<rparr>]\<rparr>"

definition demo_exporter :: "string \<Rightarrow> exporter" where
  "demo_exporter r =
     \<lparr>ex_tools = exporter_tools, ex_gunzip = stored_bounded,
      ex_zip = \<lparr>zr_routes = \<lambda>_. Inr (0, []), zr_rows = \<lambda>_. ([], None), zr_printable = \<lambda>_. True\<rparr>,
      ex_renderer = \<lparr>re_json = \<lambda>_. [], re_enum = \<lambda>_ _. None\<rparr>, ex_iso = \<lambda>_. Some ''2026-10-02T12:00:00Z'', ex_today = \<lambda>_. ''2026-10-03'',
      ex_midnight = \<lambda>_. 0, ex_seconds = \<lambda>_. 0, ex_parse = \<lambda>_. Inr (one_vehicle r), ex_digest = \<lambda>_. replicate 64 CHR ''a''\<rparr>"















subsection \<open>A short row of the route table\<close>

lemma length_update_le: "length (AList.update k v al) \<le> Suc (length al)"
  by (induction al) auto

lemma add_routes_stops:
  assumes "\<forall>r \<in> set rs. \<not> isl (route_of zr r)" and "route_of zr bad = Inl e" and "length routes + length rs < 10000"
  shows "add_routes zr (rs @ bad # rest) err routes = Inl e"
  using assms(1,3)
proof (induction rs arbitrary: routes)
  case Nil
  with assms(2) show ?case by simp
next
  case (Cons r rs)
  then obtain s where s: "route_of zr r = Inr s" by (cases "route_of zr r") auto
  have "length (AList.update (get_or r ''route_id'' (PStr [])) s routes) \<le> Suc (length routes)" by (rule length_update_le)
  with Cons.prems have "length (AList.update (get_or r ''route_id'' (PStr [])) s routes) + length rs < 10000" by simp
  with Cons s show ?case by simp
qed

text \<open>
  Claim C39. A row of \<^verbatim>\<open>routes.txt\<close> that is too short to have a route type stops the whole snapshot: \<^verbatim>\<open>mode_for\<close> gets \<^verbatim>\<open>None\<close> and
  raises \<^verbatim>\<open>AttributeError\<close>, which \<^verbatim>\<open>build\<close> does not catch, while an archive with a wrong digest, for example, costs only the
  route names. The catalog stays as it was, so that the next build fails again.
\<close>

theorem short_route_row_stops_snapshot:
  assumes "read_public_object (ex_tools ex) 65536 t [''static'', ''state.json''] = Inr state"
    and "row_get state ''latest_sha256'' = PStr digest" and "row_get state ''latest_version_path'' = PStr value"
    and "hex_text 64 digest" and "ca_digest (bu_catalog b) \<noteq> Some digest"
    and "static_path value = Some p" and "regular_at t p = Some f" and "tl_sha (ex_tools ex) (fo_bytes f) = digest"
    and "zr_routes (ex_zip ex) (fo_bytes f) = Inr (n, member)" and "n \<le> 4 * 1024 * 1024"
    and "zr_rows (ex_zip ex) member = (rs @ bad # rest, err)" and "length rs < 10000" and "\<forall>r \<in> set rs. \<not> isl (route_of (ex_zip ex) r)"
    and "map_of bad ''route_type'' = Some PNone"
  shows "build_snapshot ex now t b = (Inl (other_error ''AttributeError''), b)"
proof -
  have bad: "route_of (ex_zip ex) bad = Inl (other_error ''AttributeError'')"
    using assms(14) by (simp add: route_of_def get_or_def)
  have "add_routes (ex_zip ex) (rs @ bad # rest) err [] = Inl (other_error ''AttributeError'')"
    by (rule add_routes_stops [OF assms(13) bad]) (use assms(12) in simp)
  then have "load_routes (ex_tools ex) (ex_zip ex) t digest value = Inl (other_error ''AttributeError'')"
    using assms(6-11) by (simp add: load_routes_def)
  then have "read_catalog (ex_tools ex) (ex_zip ex) t (bu_catalog b) = (Inl (other_error ''AttributeError''), bu_catalog b)"
    using assms(1-5) by (simp add: read_catalog_def)
  then show ?thesis
    by (simp add: build_snapshot_def catalog_caught_def other_error_def Let_def)
qed

text \<open>A static archive with one route, whose row ends after its identifier.\<close>

definition short_row_exporter :: exporter where
  "short_row_exporter = (demo_exporter [])
     \<lparr>ex_tools := plain_tools\<lparr>tl_json := \<lambda>_. Some (PDict [(''latest_sha256'', PStr (replicate 64 CHR ''a'')),
          (''latest_version_path'', PStr ''versions/1.zip'')]), tl_sha := \<lambda>_. replicate 64 CHR ''a''\<rparr>,
      ex_zip := \<lparr>zr_routes = \<lambda>_. Inr (20, [1]), zr_rows = \<lambda>_. ([[(''route_id'', PStr ''10''), (''route_type'', PNone)]], None), zr_printable = \<lambda>_. True\<rparr>\<rparr>"

definition short_row_input :: tree where
  "short_row_input =
     [([''static'', ''state.json''], Regular \<lparr>fo_bytes = [1], fo_mtime = 0, fo_id = (1, 4)\<rparr>),
      ([''static'', ''versions'', ''1.zip''], Regular \<lparr>fo_bytes = [2], fo_mtime = 0, fo_id = (1, 5)\<rparr>)]"

theorem short_route_row_stops_snapshot_witness:
  "build_snapshot short_row_exporter 1000 short_row_input new_builder = (Inl (other_error ''AttributeError''), new_builder)"
proof (rule short_route_row_stops_snapshot [where rs = "[]" and rest = "[]" and err = None and n = 20 and member = "[1]"])
  show "read_public_object (ex_tools short_row_exporter) 65536 short_row_input [''static'', ''state.json''] =
      Inr [(''latest_sha256'', PStr (replicate 64 CHR ''a'')), (''latest_version_path'', PStr ''versions/1.zip'')]"
    by (simp add: read_public_object_def regular_at_def short_row_input_def short_row_exporter_def)
  show "static_path ''versions/1.zip'' = Some [''static'', ''versions'', ''1.zip'']" by code_simp
  show "regular_at short_row_input [''static'', ''versions'', ''1.zip''] = Some \<lparr>fo_bytes = [2], fo_mtime = 0, fo_id = (1, 5)\<rparr>"
    by (simp add: regular_at_def short_row_input_def)
  show "zr_rows (ex_zip short_row_exporter) [1] = ([] @ [(''route_id'', PStr ''10''), (''route_type'', PNone)] # [], None)"
    by (simp add: short_row_exporter_def)
qed (simp_all add: short_row_exporter_def row_get_def hex_text_def hex_digit_def list_all_iff new_builder_def new_catalog_def)

end
